(* ===== verification/Lsp_Prelude.thy ===== *)
theory Lsp_Prelude
  imports Main "HOL-Library.Word" "HOL-Library.Sublist"
begin

text \<open>
  Shared vocabulary of the development: bytes and C++ strings, the parts of
  \<^verbatim>\<open>std::string\<close> and of the C library that the sources use
  (\<^verbatim>\<open>find\<close>, \<^verbatim>\<open>substr\<close>, \<^verbatim>\<open>find_first_of\<close>, \<^verbatim>\<open>rfind\<close>,
  \<^verbatim>\<open>std::to_string\<close>, \<^verbatim>\<open>strtol\<close>), hexadecimal digits, and the generic lemmas
  about them that every component uses.  A C++ string is a \<^typ>\<open>string\<close> (a list of
  bytes), \<^verbatim>\<open>npos\<close> is \<^const>\<open>None\<close>, \<^verbatim>\<open>size_t\<close> offsets are \<^typ>\<open>nat\<close>.
  The collection \<open>str_simps\<close> holds the rewrite rules on searching and slicing.
\<close>

named_theorems str_simps

type_synonym bytes = string

section \<open>Bytes\<close>

definition byte_of :: "char \<Rightarrow> nat" where
  "byte_of c = of_char c"

lemma byte_of_less [simp]: "byte_of c < 256"
  by (simp add: byte_of_def)

lemma byte_of_char_of [simp]: "n < 256 \<Longrightarrow> byte_of (char_of n) = n"
  by (simp add: byte_of_def)

lemma char_of_byte_of [simp]: "char_of (byte_of c) = c"
  by (simp add: byte_of_def)

lemma byte_of_inject [simp]: "byte_of c = byte_of d \<longleftrightarrow> c = d"
  by (metis char_of_byte_of)

abbreviation LF :: char where "LF \<equiv> CHR 0x0A"
abbreviation CR :: char where "CR \<equiv> CHR 0x0D"
abbreviation TAB :: char where "TAB \<equiv> CHR 0x09"
abbreviation NUL :: char where "NUL \<equiv> CHR 0x00"
abbreviation SLASH :: char where "SLASH \<equiv> CHR 0x2F"
abbreviation BACKSLASH :: char where "BACKSLASH \<equiv> CHR 0x5C"
abbreviation DQUOTE :: char where "DQUOTE \<equiv> CHR 0x22"
abbreviation BACKTICK :: char where "BACKTICK \<equiv> CHR 0x60"

definition in_range :: "char \<Rightarrow> char \<Rightarrow> char \<Rightarrow> bool" where
  "in_range lo hi c \<longleftrightarrow> byte_of lo \<le> byte_of c \<and> byte_of c \<le> byte_of hi"

definition is_digit :: "char \<Rightarrow> bool" where
  "is_digit c \<longleftrightarrow> in_range CHR ''0'' CHR ''9'' c"

definition is_upper_ascii :: "char \<Rightarrow> bool" where
  "is_upper_ascii c \<longleftrightarrow> in_range CHR ''A'' CHR ''Z'' c"

definition is_lower_ascii :: "char \<Rightarrow> bool" where
  "is_lower_ascii c \<longleftrightarrow> in_range CHR ''a'' CHR ''z'' c"

definition is_alpha_ascii :: "char \<Rightarrow> bool" where
  "is_alpha_ascii c \<longleftrightarrow> is_lower_ascii c \<or> is_upper_ascii c"

definition is_alnum_ascii :: "char \<Rightarrow> bool" where
  "is_alnum_ascii c \<longleftrightarrow> is_alpha_ascii c \<or> is_digit c"

text \<open>\<^verbatim>\<open>isspace\<close> in the C locale.\<close>

definition is_c_space :: "char \<Rightarrow> bool" where
  "is_c_space c \<longleftrightarrow> c = CHR '' '' \<or> (9 \<le> byte_of c \<and> byte_of c \<le> 13)"

section \<open>Searching and slicing\<close>

text \<open>\<^verbatim>\<open>s.compare(i, p.size(), p) == 0\<close>: the string \<open>p\<close> occurs in \<open>s\<close> at offset \<open>i\<close>.\<close>

definition starts_at :: "string \<Rightarrow> nat \<Rightarrow> string \<Rightarrow> bool" where
  "starts_at s i p \<longleftrightarrow> take (length p) (drop i s) = p"

text \<open>\<^verbatim>\<open>s.find(p, from)\<close>.\<close>

definition str_find :: "string \<Rightarrow> string \<Rightarrow> nat \<Rightarrow> nat option" where
  "str_find p s from = find (\<lambda>i. starts_at s i p) [from..<Suc (length s)]"

text \<open>\<^verbatim>\<open>std::find_if(s.begin() + from, s.end(), P)\<close>, \<^verbatim>\<open>find_first_of\<close>,
  \<^verbatim>\<open>find_first_not_of\<close>.\<close>

definition str_find_if :: "(char \<Rightarrow> bool) \<Rightarrow> string \<Rightarrow> nat \<Rightarrow> nat option" where
  "str_find_if P s from = find (\<lambda>i. P (s ! i)) [from..<length s]"

text \<open>\<^verbatim>\<open>s.find_last_of(c)\<close> and its kin: the last offset whose byte satisfies \<open>P\<close>.\<close>

definition str_rfind_if :: "(char \<Rightarrow> bool) \<Rightarrow> string \<Rightarrow> nat option" where
  "str_rfind_if P s = find (\<lambda>i. P (s ! i)) (rev [0..<length s])"

text \<open>\<^verbatim>\<open>s.substr(i, n)\<close> and \<^verbatim>\<open>s.substr(i)\<close> for \<open>i \<le> s.size()\<close>.\<close>

definition substr :: "nat \<Rightarrow> nat \<Rightarrow> string \<Rightarrow> string" where
  "substr i n s = take n (drop i s)"

text \<open>What a C function sees of \<^verbatim>\<open>s.c_str()\<close>: the bytes before the first NUL.\<close>

definition c_str :: "string \<Rightarrow> string" where
  "c_str s = takeWhile (\<lambda>c. c \<noteq> NUL) s"

lemma find_upt_Some_iff:
  "find P [m..<n] = Some i \<longleftrightarrow> m \<le> i \<and> i < n \<and> P i \<and> (\<forall>j. m \<le> j \<and> j < i \<longrightarrow> \<not> P j)"
proof -
  have "find P [m..<n] = Some i \<longleftrightarrow>
      (\<exists>k<n - m. P (m + k) \<and> i = m + k \<and> (\<forall>j<k. \<not> P (m + j)))"
    by (auto simp: find_Some_iff)
  also have "\<dots> \<longleftrightarrow> m \<le> i \<and> i < n \<and> P i \<and> (\<forall>j. m \<le> j \<and> j < i \<longrightarrow> \<not> P j)"
  proof
    assume "\<exists>k<n - m. P (m + k) \<and> i = m + k \<and> (\<forall>j<k. \<not> P (m + j))"
    then obtain k where k: "k < n - m" "P (m + k)" "i = m + k" "\<forall>j<k. \<not> P (m + j)"
      by blast
    have "\<not> P j" if "m \<le> j" "j < i" for j
      using k(3,4) that by (metis add.commute le_Suc_ex nat_add_left_cancel_less)
    with k show "m \<le> i \<and> i < n \<and> P i \<and> (\<forall>j. m \<le> j \<and> j < i \<longrightarrow> \<not> P j)" by auto
  next
    assume "m \<le> i \<and> i < n \<and> P i \<and> (\<forall>j. m \<le> j \<and> j < i \<longrightarrow> \<not> P j)"
    then show "\<exists>k<n - m. P (m + k) \<and> i = m + k \<and> (\<forall>j<k. \<not> P (m + j))"
      by (intro exI [of _ "i - m"]) auto
  qed
  finally show ?thesis .
qed

lemma find_upt_None_iff: "find P [m..<n] = None \<longleftrightarrow> (\<forall>j. m \<le> j \<and> j < n \<longrightarrow> \<not> P j)"
  by (auto simp: find_None_iff)

lemma starts_at_length: "starts_at s i p \<Longrightarrow> i \<le> length s \<Longrightarrow> i + length p \<le> length s"
  by (auto simp: starts_at_def dest!: arg_cong [where f = length])

lemma starts_at_Cons_iff:
  "starts_at s i (c # p) \<longleftrightarrow> i < length s \<and> s ! i = c \<and> starts_at s (Suc i) p"
  by (cases "i < length s") (auto simp: starts_at_def Cons_nth_drop_Suc [symmetric])

lemma starts_at_Nil [simp]: "starts_at s i []"
  by (simp add: starts_at_def)

lemma starts_at_append_left:
  "i + length p \<le> length s \<Longrightarrow> starts_at (s @ t) i p = starts_at s i p"
  by (simp add: starts_at_def)

lemma starts_at_append_right [simp]: "starts_at (s @ t) (length s + i) p = starts_at t i p"
  by (simp add: starts_at_def)

lemma starts_at_self [simp]: "starts_at (p @ t) 0 p"
  by (simp add: starts_at_def)

lemma str_find_Some_iff:
  "str_find p s from = Some i \<longleftrightarrow>
     from \<le> i \<and> i \<le> length s \<and> starts_at s i p \<and> (\<forall>j. from \<le> j \<and> j < i \<longrightarrow> \<not> starts_at s j p)"
  by (simp only: str_find_def find_upt_Some_iff less_Suc_eq_le)

lemma str_find_None_iff:
  "str_find p s from = None \<longleftrightarrow> (\<forall>j. from \<le> j \<and> j \<le> length s \<longrightarrow> \<not> starts_at s j p)"
  by (simp only: str_find_def find_upt_None_iff less_Suc_eq_le)

lemma str_find_bound: "str_find p s from = Some i \<Longrightarrow> from \<le> i \<and> i + length p \<le> length s"
  using starts_at_length by (auto simp: str_find_Some_iff)

lemma str_find_if_Some_iff:
  "str_find_if P s from = Some i \<longleftrightarrow>
     from \<le> i \<and> i < length s \<and> P (s ! i) \<and> (\<forall>j. from \<le> j \<and> j < i \<longrightarrow> \<not> P (s ! j))"
  by (simp only: str_find_if_def find_upt_Some_iff)

lemma str_find_if_None_iff:
  "str_find_if P s from = None \<longleftrightarrow> (\<forall>j. from \<le> j \<and> j < length s \<longrightarrow> \<not> P (s ! j))"
  by (simp only: str_find_if_def find_upt_None_iff)

lemma str_find_char:
  "str_find [c] s from = str_find_if (\<lambda>x. x = c) s from"
proof (cases "str_find_if (\<lambda>x. x = c) s from")
  case None
  then have "str_find [c] s from = None"
    by (auto simp: str_find_if_None_iff str_find_None_iff starts_at_Cons_iff)
  with None show ?thesis by simp
next
  case (Some i)
  then have "str_find [c] s from = Some i"
    by (auto simp: str_find_if_Some_iff str_find_Some_iff starts_at_Cons_iff)
  with Some show ?thesis by simp
qed

lemma append_eq_nth:
  "B @ R = W @ X \<Longrightarrow> i < length B \<Longrightarrow> i < length W \<Longrightarrow> B ! i = W ! i"
  by (metis nth_append)

lemma nth_notin: "x \<notin> set xs \<Longrightarrow> i < length xs \<Longrightarrow> xs ! i \<noteq> x"
  by auto

lemma append_eq_longer:
  assumes "B @ R = W @ X" "length W \<le> length B"
  shows "\<exists>Y. B = W @ Y \<and> Y @ R = X"
  using assms by (auto simp: append_eq_append_conv2)

lemma append_eq_shorter:
  assumes "B @ R = W @ X" "length B < length W"
  shows "\<exists>Z. Z \<noteq> [] \<and> B @ Z = W \<and> R = Z @ X"
  using assms by (auto simp: append_eq_append_conv2)

lemma str_find_if_absent: "(\<And>x. x \<in> set s \<Longrightarrow> \<not> P x) \<Longrightarrow> str_find_if P s from = None"
  by (simp add: str_find_if_None_iff)

lemma str_find_if_first:
  assumes "\<And>x. x \<in> set s \<Longrightarrow> \<not> P x" "P c"
  shows "str_find_if P (s @ c # t) 0 = Some (length s)"
  using assms by (auto simp: str_find_if_Some_iff nth_append)

lemma substr_length [str_simps]: "length (substr i n s) = min n (length s - i)"
  by (simp add: substr_def)

section \<open>Decimal numbers\<close>

text \<open>\<^verbatim>\<open>std::to_string\<close> of an unsigned value.\<close>

definition digit_char :: "nat \<Rightarrow> char" where
  "digit_char n = char_of (48 + n)"

fun to_string :: "nat \<Rightarrow> string" where
  "to_string n = (if n < 10 then [digit_char n] else to_string (n div 10) @ [digit_char (n mod 10)])"

declare to_string.simps [simp del]

definition digit_value :: "char \<Rightarrow> nat" where
  "digit_value c = byte_of c - 48"

text \<open>The value of a run of digits, most significant first.\<close>

definition digits_value :: "string \<Rightarrow> nat" where
  "digits_value ds = foldl (\<lambda>v c. 10 * v + digit_value c) 0 ds"

text \<open>
  \<^verbatim>\<open>strtol(s, &end, 10)\<close> with a 64-bit \<^verbatim>\<open>long\<close>: leading white space, an optional
  sign and the longest run of digits.  The result is \<^const>\<open>None\<close> when no conversion
  is possible (\<^verbatim>\<open>end == s\<close>), otherwise the parsed value (saturated on overflow),
  whether \<^verbatim>\<open>errno\<close> is \<^verbatim>\<open>ERANGE\<close>, and the text from \<^verbatim>\<open>end\<close> on.
\<close>

definition LONG_MAX :: int where "LONG_MAX = 2 ^ 63 - 1"
definition LONG_MIN :: int where "LONG_MIN = - (2 ^ 63)"

definition strtol :: "string \<Rightarrow> (int \<times> bool \<times> string) option" where
  "strtol s =
     (let s1 = dropWhile is_c_space s;
          neg = (s1 \<noteq> [] \<and> hd s1 = CHR ''-'');
          s2 = (if s1 \<noteq> [] \<and> (hd s1 = CHR ''-'' \<or> hd s1 = CHR ''+'') then tl s1 else s1);
          ds = takeWhile is_digit s2;
          v = (if neg then - int (digits_value ds) else int (digits_value ds))
      in if ds = [] then None
         else if v > LONG_MAX then Some (LONG_MAX, True, dropWhile is_digit s2)
         else if v < LONG_MIN then Some (LONG_MIN, True, dropWhile is_digit s2)
         else Some (v, False, dropWhile is_digit s2))"

lemma digit_char_is_digit [simp]: "n < 10 \<Longrightarrow> is_digit (digit_char n)"
  by (simp add: is_digit_def in_range_def digit_char_def) (simp add: byte_of_def)

lemma digit_value_digit_char [simp]: "n < 10 \<Longrightarrow> digit_value (digit_char n) = n"
  by (simp add: digit_value_def digit_char_def)

lemma digits_value_snoc: "digits_value (ds @ [d]) = 10 * digits_value ds + digit_value d"
  by (simp add: digits_value_def)

lemma to_string_not_Nil [simp]: "to_string n \<noteq> []"
  by (subst to_string.simps) simp

lemma digits_value_to_string [simp]: "digits_value (to_string n) = n"
proof (induction n rule: to_string.induct)
  case (1 n)
  show ?case
  proof (cases "n < 10")
    case True
    then show ?thesis by (simp add: to_string.simps [of n] digits_value_def)
  next
    case False
    with 1 show ?thesis by (simp add: to_string.simps [of n] digits_value_snoc)
  qed
qed

lemma to_string_digits: "list_all is_digit (to_string n)"
proof (induction n rule: to_string.induct)
  case (1 n)
  then show ?case by (simp add: to_string.simps [of n])
qed

lemma is_digit_not_space: "is_digit c \<Longrightarrow> \<not> is_c_space c \<and> c \<noteq> CHR ''-'' \<and> c \<noteq> CHR ''+''"
  by (auto simp: is_digit_def in_range_def is_c_space_def byte_of_def)

lemma takeWhile_all_append: "list_all P xs \<Longrightarrow> takeWhile P (xs @ ys) = xs @ takeWhile P ys"
  by (induction xs) auto

lemma dropWhile_all_append: "list_all P xs \<Longrightarrow> dropWhile P (xs @ ys) = dropWhile P ys"
  by (induction xs) auto

text \<open>\<^verbatim>\<open>strtol\<close> reads back what \<^verbatim>\<open>std::to_string\<close> wrote, after any white space.\<close>

lemma strtol_to_string:
  assumes sp: "list_all is_c_space sp" and le: "int n \<le> LONG_MAX"
  shows "strtol (sp @ to_string n) = Some (int n, False, [])"
proof -
  have ds: "list_all is_digit (to_string n)" by (rule to_string_digits)
  obtain d ds' where d: "to_string n = d # ds'" by (cases "to_string n") auto
  with ds have dig: "is_digit d" by simp
  have skip: "dropWhile is_c_space (sp @ to_string n) = to_string n"
    using sp is_digit_not_space [OF dig] by (simp add: dropWhile_all_append d)
  have tw: "takeWhile is_digit (to_string n) = to_string n"
    and dw: "dropWhile is_digit (to_string n) = []"
    using takeWhile_all_append [OF ds, of "[]"] dropWhile_all_append [OF ds, of "[]"] by simp_all
  have nosign: "hd (to_string n) \<noteq> CHR ''-''" "hd (to_string n) \<noteq> CHR ''+''"
    using is_digit_not_space [OF dig] by (simp_all add: d)
  have "\<not> int n < LONG_MIN" by (simp add: LONG_MIN_def)
  with le show ?thesis
    by (simp add: strtol_def skip nosign tw dw Let_def)
qed

section \<open>Hexadecimal digits\<close>

definition HEX :: string where "HEX = ''0123456789ABCDEF''"

definition hex_upper :: "nat \<Rightarrow> char" where
  "hex_upper n = HEX ! n"

definition hex_value :: "char \<Rightarrow> int" where
  "hex_value c =
     (if in_range CHR ''0'' CHR ''9'' c then int (byte_of c) - 48
      else if in_range CHR ''A'' CHR ''F'' c then int (byte_of c) - 65 + 10
      else if in_range CHR ''a'' CHR ''f'' c then int (byte_of c) - 97 + 10
      else - 1)"

lemma nibble_cases:
  assumes "n < 16"
  shows "n \<in> {0, 1, 2, 3, 4, 5, 6, 7, 8, 9, 10, 11, 12, 13, 14, 15::nat}"
  unfolding insert_iff empty_iff using assms by presburger

lemma hex_value_hex_upper [simp]: "n < 16 \<Longrightarrow> hex_value (hex_upper n) = int n"
  using nibble_cases [of n]
  by (auto simp: hex_upper_def HEX_def hex_value_def in_range_def byte_of_def)

lemma hex_upper_not_percent [simp]: "n < 16 \<Longrightarrow> hex_upper n \<noteq> CHR ''%''"
  using nibble_cases [of n] by (auto simp: hex_upper_def HEX_def)

section \<open>Functional refinement\<close>

text \<open>
  A component as a machine: \<open>step\<close> performs one operation and may fail, \<open>spec\<close> is the same
  operation on the abstract state.  \<open>run_ops\<close> performs a sequence of operations.
\<close>

fun run_ops :: "('op \<Rightarrow> 's \<Rightarrow> 's option) \<Rightarrow> 'op list \<Rightarrow> 's \<Rightarrow> 's option" where
  "run_ops step [] s = Some s"
| "run_ops step (x # xs) s = (case step x s of None \<Rightarrow> None | Some s' \<Rightarrow> run_ops step xs s')"

locale functional_refinement =
  fixes step :: "'op \<Rightarrow> 's \<Rightarrow> 's option" and inv :: "'s \<Rightarrow> bool"
    and abs :: "'s \<Rightarrow> 'a" and spec :: "'op \<Rightarrow> 'a \<Rightarrow> 'a option"
  assumes preserves: "inv s \<Longrightarrow> step op s = Some s' \<Longrightarrow> inv s'"
    and simulates: "inv s \<Longrightarrow> map_option abs (step op s) = spec op (abs s)"
begin

lemma run_preserves: "inv s \<Longrightarrow> run_ops step ops s = Some s' \<Longrightarrow> inv s'"
proof (induction ops arbitrary: s)
  case (Cons op ops)
  then show ?case using preserves by (auto split: option.splits)
qed simp

lemma run_simulates: "inv s \<Longrightarrow> map_option abs (run_ops step ops s) = run_ops spec ops (abs s)"
proof (induction ops arbitrary: s)
  case (Cons op ops)
  show ?case
  proof (cases "step op s")
    case None
    then show ?thesis using simulates [OF Cons.prems, of op] by (cases "spec op (abs s)") simp_all
  next
    case (Some s')
    then have "spec op (abs s) = Some (abs s')" using simulates [OF Cons.prems, of op] by simp
    with Some Cons.IH [of s'] preserves [OF Cons.prems Some] show ?thesis by simp
  qed
qed simp

end

section \<open>Codecs\<close>

text \<open>
  The contract of an encoder with its decoder, which may refuse: what is encoded can be read back.  Then
  no two values have the same code, and the decoder accepts every code.
\<close>

locale codec =
  fixes encode :: "'a \<Rightarrow> 'b" and decode :: "'b \<Rightarrow> 'a option"
  assumes decode_encode: "decode (encode x) = Some x"
begin

lemma encode_inject: "encode x = encode y \<longleftrightarrow> x = y"
  by (metis decode_encode option.inject)

lemma decode_range: "c \<in> range encode \<Longrightarrow> \<exists>x. decode c = Some x \<and> encode x = c"
  using decode_encode by auto

end

end
