(* ===== verification/Input_Stream.thy ===== *)
theory Input_Stream
  imports Lsp_Prelude
begin

text \<open>
  The byte streams of \<^verbatim>\<open>include/LibLsp/JsonRpc/stream.h\<close>.  The abstract class
  \<^verbatim>\<open>lsp::istream\<close> is the record \<open>istream\<close> of its virtual operations over a state type;
  \<^verbatim>\<open>base_istream\<close> and \<^verbatim>\<open>standard_istream\<close> are two instances over \<open>std_stream\<close>, the
  state of a \<^verbatim>\<open>std::istream\<close> whose remaining input is known.  The locales
  \<open>byte_stream\<close> and \<open>byte_source\<close> are the contracts that message framing relies on; both instances are
  shown to satisfy them.
\<close>

section \<open>The interface\<close>

text \<open>
  \<open>get\<close> returns \<^const>\<open>None\<close> for \<^verbatim>\<open>EOF\<close>.  \<open>read\<close> and \<open>read_some\<close> return the bytes they
  stored in the caller's buffer; the count \<^verbatim>\<open>read_some\<close> returns is their number.
\<close>

record 's istream =
  is_fail :: "'s \<Rightarrow> bool"
  is_bad :: "'s \<Rightarrow> bool"
  is_eof :: "'s \<Rightarrow> bool"
  clear_state :: "'s \<Rightarrow> 's"
  what :: "'s \<Rightarrow> string"
  need_to_clear_the_state :: "'s \<Rightarrow> bool"
  interrupt :: "'s \<Rightarrow> 's"
  get :: "'s \<Rightarrow> char option \<times> 's"
  read :: "nat \<Rightarrow> 's \<Rightarrow> string \<times> 's"
  read_some :: "nat \<Rightarrow> 's \<Rightarrow> string \<times> 's"

text \<open>The default \<^verbatim>\<open>istream::read_some\<close>: at most one byte, through \<^verbatim>\<open>get\<close>.\<close>

definition istream_read_some :: "('s \<Rightarrow> char option \<times> 's) \<Rightarrow> nat \<Rightarrow> 's \<Rightarrow> string \<times> 's" where
  "istream_read_some g count s =
     (if count = 0 then ([], s)
      else (case g s of
              (None, s') \<Rightarrow> ([], s')
            | (Some c, s') \<Rightarrow> ([c], s')))"

section \<open>A \<^verbatim>\<open>std::istream\<close> with known contents\<close>

text \<open>
  \<open>avail\<close> is what successive calls of \<^verbatim>\<open>rdbuf()->in_avail()\<close> report, an environment
  choice: how the input arrives in pieces.  \<open>interrupted\<close> is the flag that
  \<^verbatim>\<open>standard_istream\<close> adds.
\<close>

record std_stream =
  content :: string
  avail :: "nat list"
  eofbit :: bool
  failbit :: bool
  badbit :: bool
  interrupted :: bool

definition std_good :: "std_stream \<Rightarrow> bool" where
  "std_good s \<longleftrightarrow> \<not> eofbit s \<and> \<not> failbit s \<and> \<not> badbit s"

definition std_get :: "std_stream \<Rightarrow> char option \<times> std_stream" where
  "std_get s =
     (if \<not> std_good s then (None, s\<lparr>failbit := True\<rparr>)
      else (case content s of
              [] \<Rightarrow> (None, s\<lparr>eofbit := True, failbit := True\<rparr>)
            | c # cs \<Rightarrow> (Some c, s\<lparr>content := cs\<rparr>)))"

definition std_read :: "nat \<Rightarrow> std_stream \<Rightarrow> string \<times> std_stream" where
  "std_read n s =
     (if \<not> std_good s then ([], s\<lparr>failbit := True\<rparr>)
      else if length (content s) < n
           then (content s, s\<lparr>content := [], eofbit := True, failbit := True\<rparr>)
      else (take n (content s), s\<lparr>content := drop n (content s)\<rparr>))"

definition std_clear :: "std_stream \<Rightarrow> std_stream" where
  "std_clear s = s\<lparr>eofbit := False, failbit := False, badbit := False\<rparr>"

section \<open>\<^verbatim>\<open>base_istream\<close>\<close>

text \<open>
  Every member forwards to the wrapped stream; \<^verbatim>\<open>read_some\<close>, \<^verbatim>\<open>interrupt\<close> and
  \<^verbatim>\<open>need_to_clear_the_state\<close> are inherited from the abstract class, and \<^verbatim>\<open>what\<close> is left
  to the derived class, the parameter.
\<close>

definition base_istream :: "(std_stream \<Rightarrow> string) \<Rightarrow> std_stream istream" where
  "base_istream w =
     \<lparr>is_fail = (\<lambda>s. failbit s \<or> badbit s),
      is_bad = badbit,
      is_eof = eofbit,
      clear_state = std_clear,
      what = w,
      need_to_clear_the_state = (\<lambda>s. False),
      interrupt = id,
      get = std_get,
      read = std_read,
      read_some = istream_read_some std_get\<rparr>"

section \<open>\<^verbatim>\<open>standard_istream\<close>\<close>

definition standard_get :: "std_stream \<Rightarrow> char option \<times> std_stream" where
  "standard_get s = (if interrupted s then (None, s) else std_get s)"

definition standard_read :: "nat \<Rightarrow> std_stream \<Rightarrow> string \<times> std_stream" where
  "standard_read n s = (if interrupted s then ([], s) else std_read n s)"

definition standard_fail :: "std_stream \<Rightarrow> bool" where
  "standard_fail s \<longleftrightarrow> interrupted s \<or> failbit s \<or> badbit s"

definition standard_bad :: "std_stream \<Rightarrow> bool" where
  "standard_bad s \<longleftrightarrow> badbit s"

definition standard_eof :: "std_stream \<Rightarrow> bool" where
  "standard_eof s \<longleftrightarrow> interrupted s \<or> eofbit s"

definition standard_good :: "std_stream \<Rightarrow> bool" where
  "standard_good s \<longleftrightarrow> \<not> interrupted s \<and> std_good s"

definition standard_clear :: "std_stream \<Rightarrow> std_stream" where
  "standard_clear s = std_clear (s\<lparr>interrupted := False\<rparr>)"

definition standard_what :: "std_stream \<Rightarrow> string" where
  "standard_what s = (if interrupted s then ''Input stream interrupted.'' else [])"

text \<open>
  One byte through \<^verbatim>\<open>get\<close>, then whatever the stream buffer already holds, up to
  \<open>count\<close> bytes.  \<^verbatim>\<open>in_avail\<close> never promises more than what is left.
\<close>

definition standard_read_some :: "nat \<Rightarrow> std_stream \<Rightarrow> string \<times> std_stream" where
  "standard_read_some count s =
     (if count = 0 \<or> interrupted s then ([], s)
      else (case std_get s of
              (None, s1) \<Rightarrow> ([], s1)
            | (Some c, s1) \<Rightarrow>
                if 1 < count then
                  (let available = (case avail s1 of [] \<Rightarrow> 0 | a # _ \<Rightarrow> min a (length (content s1)));
                       to_read = min available (count - 1)
                   in (c # take to_read (content s1),
                       s1\<lparr>content := drop to_read (content s1), avail := tl (avail s1)\<rparr>))
                else ([c], s1)))"

definition standard_interrupt :: "std_stream \<Rightarrow> std_stream" where
  "standard_interrupt s = s\<lparr>interrupted := True, eofbit := True\<rparr>"

definition standard_istream :: "std_stream istream" where
  "standard_istream =
     \<lparr>is_fail = standard_fail,
      is_bad = standard_bad,
      is_eof = standard_eof,
      clear_state = standard_clear,
      what = standard_what,
      need_to_clear_the_state = (\<lambda>s. False),
      interrupt = standard_interrupt,
      get = standard_get,
      read = standard_read,
      read_some = standard_read_some\<rparr>"

lemmas standard_istream_defs =
  standard_istream_def standard_get_def standard_read_def standard_fail_def standard_bad_def
  standard_eof_def standard_clear_def standard_what_def standard_read_some_def
  standard_interrupt_def

lemmas std_stream_defs = std_good_def std_get_def std_read_def std_clear_def

section \<open>The contract of a byte source\<close>

text \<open>
  \<open>rest s\<close> is the input not yet read and \<open>ok s\<close> says the stream is usable.  A
  \<open>read_some\<close> returns a non-empty piece as long as input is left; how long a piece is,
  the contract leaves open.  \<open>read\<close> delivers exactly what is asked for.  A \<open>byte_source\<close>
  also reports the end of the input, and no failure, when there is less.
\<close>

locale byte_stream =
  fixes ops :: "('s, 'z) istream_scheme"
    and rest :: "'s \<Rightarrow> string"
    and ok :: "'s \<Rightarrow> bool"
  assumes ok_not_bad: "ok s \<Longrightarrow> \<not> is_bad ops s"
    and ok_not_fail: "ok s \<Longrightarrow> \<not> is_fail ops s"
    and ok_not_eof: "ok s \<Longrightarrow> \<not> is_eof ops s"
    and read_some_more: "ok s \<Longrightarrow> rest s \<noteq> [] \<Longrightarrow> 0 < n \<Longrightarrow> read_some ops n s = (bs, s') \<Longrightarrow>
          bs \<noteq> [] \<and> rest s = bs @ rest s' \<and> ok s'"
    and read_some_end: "ok s \<Longrightarrow> rest s = [] \<Longrightarrow> fst (read_some ops n s) = []"
    and read_all: "ok s \<Longrightarrow> n \<le> length (rest s) \<Longrightarrow> read ops n s = (bs, s') \<Longrightarrow>
          bs = take n (rest s) \<and> rest s' = drop n (rest s) \<and> ok s'"

locale byte_source = byte_stream ops rest ok
  for ops :: "('s, 'z) istream_scheme" and rest :: "'s \<Rightarrow> string" and ok :: "'s \<Rightarrow> bool" +
  assumes read_short: "ok s \<Longrightarrow> length (rest s) < n \<Longrightarrow> read ops n s = (bs, s') \<Longrightarrow>
          is_eof ops s' \<and> \<not> is_bad ops s'"

definition std_ok :: "std_stream \<Rightarrow> bool" where
  "std_ok s \<longleftrightarrow> std_good s \<and> \<not> interrupted s"

interpretation base: byte_source "base_istream w" content std_ok
  by unfold_locales
    (auto simp: base_istream_def std_ok_def std_stream_defs istream_read_some_def
      split: if_splits list.splits)

interpretation standard: byte_source standard_istream content std_ok
  by unfold_locales
    (auto simp: standard_istream_defs std_ok_def std_stream_defs Let_def
      split: if_splits list.splits)

text \<open>An interrupted stream yields nothing more and reports the end of input.\<close>

lemma interrupted_reads_nothing:
  "fst (standard_read_some n (standard_interrupt s)) = [] \<and>
   fst (standard_read n (standard_interrupt s)) = [] \<and>
   fst (standard_get (standard_interrupt s)) = None \<and>
   standard_eof (standard_interrupt s) \<and> standard_fail (standard_interrupt s)"
  by (simp add: standard_istream_defs)

end
