(* ===== verification/Message_Framing.thy ===== *)
theory Message_Framing
  imports Input_Stream
begin

text \<open>
  Base protocol framing: \<^verbatim>\<open>src/jsonrpc/StreamMessageProducer.cpp\<close> (reading) and
  \<^verbatim>\<open>WriterMsg\<close> of \<^verbatim>\<open>src/jsonrpc/RemoteEndPoint.cpp\<close> (writing).  The reading loop
  \<open>listen\<close> is a function on the listener's state with a fuel argument that bounds the
  number of loop iterations; it is generic in the stream, the consumer and the overload
  handler.  The main theorem is a refinement: over any byte source, however the bytes
  arrive in pieces, the loop does to the consumer what \<open>serve\<close> does over the list of
  messages that were written.
\<close>

section \<open>Headers\<close>

datatype level = SEVERE | WARNING | INFO

type_synonym issue = "string \<times> level"

definition CONTENT_LENGTH_HEADER :: string where "CONTENT_LENGTH_HEADER = ''Content-Length''"
definition CONTENT_TYPE_HEADER :: string where "CONTENT_TYPE_HEADER = ''Content-Type''"

definition INT_MAX :: int where "INT_MAX = 2 ^ 31 - 1"

definition StartsWith :: "string \<Rightarrow> string \<Rightarrow> bool" where
  "StartsWith value start =
     (if length start > length value then False else take (length start) value = start)"

definition parseContentLength :: "string \<Rightarrow> int option" where
  "parseContentLength value =
     (case strtol (c_str value) of
        None \<Rightarrow> None
      | Some (parsed, erange, rest) \<Rightarrow>
          if erange \<or> parsed < 0 \<or> parsed > INT_MAX then None
          else if dropWhile (\<lambda>c. c = CHR '' '' \<or> c = TAB) rest \<noteq> [] then None
          else Some parsed)"

record headers =
  contentLength :: int
  charset :: string

definition Headers :: headers where
  "Headers = \<lparr>contentLength = - 1, charset = []\<rparr>"

definition findHeaderEnd :: "string \<Rightarrow> (nat \<times> nat) option" where
  "findHeaderEnd buffer =
     (let crlf = str_find [CR, LF, CR, LF] buffer 0;
          lf = str_find [LF, LF] buffer 0
      in case crlf of
           None \<Rightarrow> (case lf of None \<Rightarrow> None | Some l \<Rightarrow> Some (l, 2))
         | Some c \<Rightarrow>
             (case lf of
                None \<Rightarrow> Some (c, 4)
              | Some l \<Rightarrow> if c < l then Some (c, 4) else Some (l, 2)))"

definition parseHeader :: "string \<Rightarrow> headers \<Rightarrow> headers" where
  "parseHeader line h =
     (case str_find '':'' line 0 of
        None \<Rightarrow> h
      | Some sepIndex \<Rightarrow>
          let key = substr 0 sepIndex line
          in if key = CONTENT_LENGTH_HEADER then
               (case parseContentLength (drop (sepIndex + 1) line) of
                  None \<Rightarrow> h
                | Some n \<Rightarrow> h\<lparr>contentLength := n\<rparr>)
             else if key = CONTENT_TYPE_HEADER then
               (case str_find ''charset='' line 0 of
                  None \<Rightarrow> h
                | Some i \<Rightarrow> h\<lparr>charset := drop (i + 8) line\<rparr>)
             else h)"

text \<open>The loop of \<^verbatim>\<open>parseHeaderBlock\<close> from offset \<open>start\<close> on.\<close>

function parseHeaderBlock_from :: "string \<Rightarrow> nat \<Rightarrow> headers \<Rightarrow> headers" where
  "parseHeaderBlock_from block start h =
     (if start \<le> length block then
        let lineEnd = (case str_find [LF] block start of None \<Rightarrow> length block | Some e \<Rightarrow> e);
            line = substr start (lineEnd - start) block;
            line1 = (if line \<noteq> [] \<and> last line = CR then butlast line else line);
            h1 = (if line1 \<noteq> [] then parseHeader line1 h else h)
        in if lineEnd = length block then h1 else parseHeaderBlock_from block (lineEnd + 1) h1
      else h)"
  by pat_completeness auto
termination
proof (relation "measure (\<lambda>(block, start, h). Suc (length block) - start)", goal_cases)
  case 1
  then show ?case by simp
next
  case (2 block start h lineEnd line line1 h1)
  from 2 have "start \<le> lineEnd" "lineEnd \<le> length block"
    using str_find_bound [of "[LF]" block start] by (auto split: option.splits)
  with 2 show ?case by auto
qed

declare parseHeaderBlock_from.simps [simp del]

definition parseHeaderBlock :: "string \<Rightarrow> headers \<Rightarrow> headers" where
  "parseHeaderBlock block h = parseHeaderBlock_from block 0 h"

section \<open>The listener\<close>

text \<open>
  The state of a running \<^verbatim>\<open>listen\<close>: the stream, the local \<^verbatim>\<open>buffer\<close>, the flag
  \<^verbatim>\<open>keepRunning\<close>, the issues reported so far (oldest first) and the consumer behind
  the call-back and the overload handler.
\<close>

record ('s, 'c) listener =
  input :: 's
  buffer :: string
  keepRunning :: bool
  issues :: "issue list"
  consumer :: 'c

text \<open>
  The parts of the producer that do not change while it listens.  The call-back takes
  a message and returns the consumer's new state and whether the producer is still
  wanted (a call-back may stop its endpoint, which clears \<^verbatim>\<open>keepRunning\<close>).  The
  overload handler is a \<^verbatim>\<open>std::function\<close> that may be empty.
\<close>

record 'c producer =
  maxFrameSize :: nat
  overloadHandler :: "(string \<Rightarrow> 'c \<Rightarrow> bool \<times> 'c) option"
  callBack :: "string \<Rightarrow> 'c \<Rightarrow> 'c \<times> bool"

definition handle :: "string \<Rightarrow> level \<Rightarrow> ('s, 'c) listener \<Rightarrow> ('s, 'c) listener" where
  "handle text lev l = l\<lparr>issues := issues l @ [(text, lev)]\<rparr>"

definition with_reason :: "string \<Rightarrow> string \<Rightarrow> string" where
  "with_reason info w = (if w \<noteq> [] then info @ ''Reason:'' @ w else info)"

definition reportInputState ::
  "('s, 'z) istream_scheme \<Rightarrow> ('s, 'c) listener \<Rightarrow> bool \<times> ('s, 'c) listener" where
  "reportInputState ops l =
     (let s = input l in
      if is_bad ops s then
        (False, handle (with_reason ''Input stream is bad.'' (what ops s)) SEVERE l)
      else if is_fail ops s then
        (let l1 = handle (with_reason ''Input fail.'' (what ops s)) WARNING l
         in if need_to_clear_the_state ops s
            then (True, l1\<lparr>input := clear_state ops s\<rparr>)
            else (False, l1))
      else (True, l))"

definition CHUNK :: nat where "CHUNK = 4096"

definition readMore ::
  "('s, 'z) istream_scheme \<Rightarrow> ('s, 'c) listener \<Rightarrow> bool \<times> ('s, 'c) listener" where
  "readMore ops l =
     (case read_some ops CHUNK (input l) of
        (bs, s') \<Rightarrow>
          if bs = [] then (False, l\<lparr>input := s'\<rparr>)
          else (True, l\<lparr>input := s', buffer := buffer l @ bs\<rparr>))"

text \<open>The flags are checked after each piece, in the order bad, end of input or failure.\<close>

function discardBytes ::
  "('s, 'z) istream_scheme \<Rightarrow> nat \<Rightarrow> ('s, 'c) listener \<Rightarrow> bool \<times> ('s, 'c) listener" where
  "discardBytes ops count l =
     (if count = 0 then (True, l)
      else
        let toRead = min count CHUNK;
            s' = snd (read ops toRead (input l));
            l1 = l\<lparr>input := s'\<rparr>
        in if is_bad ops s' then
             (False, handle ''Input stream is bad while discarding oversized frame.'' SEVERE l1)
           else if is_eof ops s' \<or> is_fail ops s' then
             (False, handle ''Input ended while discarding oversized frame.'' WARNING l1)
           else discardBytes ops (count - toRead) l1)"
  by pat_completeness auto
termination
  by (relation "measure (\<lambda>(ops, count, l). count)") (auto simp: CHUNK_def)

declare discardBytes.simps [simp del]

definition reportOverload ::
  "'c producer \<Rightarrow> string \<Rightarrow> ('s, 'c) listener \<Rightarrow> bool \<times> ('s, 'c) listener" where
  "reportOverload P message l =
     (let l1 = handle message WARNING l in
      case overloadHandler P of
        None \<Rightarrow> (False, l1)
      | Some h \<Rightarrow> (case h message (consumer l1) of (r, c') \<Rightarrow> (r, l1\<lparr>consumer := c'\<rparr>)))"

definition overload_text :: "nat \<Rightarrow> nat \<Rightarrow> string" where
  "overload_text n limit =
     ''LSP frame size '' @ to_string n @ '' exceeds configured maximum '' @ to_string limit @ ''.''"

definition unexpected_text :: "string \<Rightarrow> string" where
  "unexpected_text headerBlock =
     ''Unexpected token:'' @ headerBlock @ ''  (expected Content-Length: sequence);''"

definition oversized :: "'c producer \<Rightarrow> nat \<Rightarrow> bool" where
  "oversized P n \<longleftrightarrow> maxFrameSize P \<noteq> 0 \<and> n > maxFrameSize P"

text \<open>How an iteration of the outer loop ends: the loop goes on, or \<^verbatim>\<open>listen\<close> returns.\<close>

datatype ('s, 'c) step = Continue "('s, 'c) listener" | Return "('s, 'c) listener"

datatype ('s, 'c) header_result =
  HeaderFound nat nat "('s, 'c) listener" | HeaderReturn "('s, 'c) listener"

text \<open>
  The inner loop: read until the end of a header block is in the buffer.  The result is
  \<^const>\<open>None\<close> only when the fuel runs out.
\<close>

fun awaitHeader ::
  "nat \<Rightarrow> ('s, 'z) istream_scheme \<Rightarrow> ('s, 'c) listener \<Rightarrow> ('s, 'c) header_result option" where
  "awaitHeader fuel ops l =
     (case findHeaderEnd (buffer l) of
        Some (headerEnd, delimiterSize) \<Rightarrow> Some (HeaderFound headerEnd delimiterSize l)
      | None \<Rightarrow>
          if \<not> keepRunning l then Some (HeaderReturn l)
          else (case fuel of
            0 \<Rightarrow> None
          | Suc fuel' \<Rightarrow>
              (case readMore ops l of
                 (False, l1) \<Rightarrow>
                   let l2 = l1\<lparr>keepRunning := False\<rparr>
                   in Some (HeaderReturn
                        (if buffer l2 \<noteq> []
                         then handle ''No more input when reading message headers'' INFO l2
                         else l2))
               | (True, l1) \<Rightarrow>
                   (case reportInputState ops l1 of
                      (False, l2) \<Rightarrow> Some (HeaderReturn l2)
                    | (True, l2) \<Rightarrow> awaitHeader fuel' ops l2))))"

declare awaitHeader.simps [simp del]

text \<open>The rest of the body is read with a single \<^verbatim>\<open>read\<close>; \<^const>\<open>None\<close> means the body is complete.\<close>

definition readBody ::
  "('s, 'z) istream_scheme \<Rightarrow> nat \<Rightarrow> ('s, 'c) listener \<Rightarrow> bool \<times> ('s, 'c) listener" where
  "readBody ops contentLen l =
     (if length (buffer l) < contentLen then
        (let needed = contentLen - length (buffer l);
             r = read ops needed (input l);
             s' = snd r;
             body = buffer l @ fst r @ replicate (needed - length (fst r)) NUL;
             l1 = l\<lparr>input := s', buffer := body\<rparr>
         in if is_bad ops s' then
              (False, (handle (with_reason ''Input stream is bad.'' (what ops s')) SEVERE l1)
                        \<lparr>keepRunning := False\<rparr>)
            else if is_eof ops s' then
              (False, (handle ''No more input when reading content body'' INFO l1)
                        \<lparr>keepRunning := False\<rparr>)
            else if is_fail ops s' then
              (False, (handle (with_reason ''Input fail.'' (what ops s')) WARNING l1)
                        \<lparr>keepRunning := False\<rparr>)
            else (True, l1))
      else (True, l))"

text \<open>What the outer loop does once it has a header block of \<open>headerEnd\<close> bytes.\<close>

definition handleFrame ::
  "'c producer \<Rightarrow> ('s, 'z) istream_scheme \<Rightarrow> nat \<Rightarrow> nat \<Rightarrow> ('s, 'c) listener \<Rightarrow> ('s, 'c) step" where
  "handleFrame P ops headerEnd delimiterSize l0 =
     (let headerBlock = substr 0 headerEnd (buffer l0);
          h = parseHeaderBlock headerBlock Headers;
          l = l0\<lparr>buffer := drop (headerEnd + delimiterSize) (buffer l0)\<rparr>
      in if contentLength h < 0 then
           Continue (handle (unexpected_text headerBlock) WARNING l)
         else
           let contentLen = nat (contentLength h)
           in if oversized P contentLen then
                (case reportOverload P (overload_text contentLen (maxFrameSize P)) l of
                   (False, l1) \<Rightarrow> Return (l1\<lparr>keepRunning := False\<rparr>)
                 | (True, l1) \<Rightarrow>
                     let buffered = min (length (buffer l1)) contentLen;
                         l2 = l1\<lparr>buffer := drop buffered (buffer l1)\<rparr>;
                         remaining = contentLen - buffered
                     in if remaining \<noteq> 0 then
                          (case discardBytes ops remaining l2 of
                             (False, l3) \<Rightarrow> Return (l3\<lparr>keepRunning := False\<rparr>)
                           | (True, l3) \<Rightarrow> Continue l3)
                        else Continue l2)
              else
                (case readBody ops contentLen l of
                   (False, l1) \<Rightarrow> Return l1
                 | (True, l1) \<Rightarrow>
                     let content = substr 0 contentLen (buffer l1);
                         l2 = l1\<lparr>buffer := drop contentLen (buffer l1)\<rparr>;
                         r = callBack P content (consumer l2);
                         l3 = l2\<lparr>consumer := fst r, keepRunning := keepRunning l2 \<and> snd r\<rparr>
                     in if is_eof ops (input l3) \<and> buffer l3 = []
                        then Continue (l3\<lparr>keepRunning := False\<rparr>)
                        else Continue l3))"

fun listen_loop ::
  "nat \<Rightarrow> 'c producer \<Rightarrow> ('s, 'z) istream_scheme \<Rightarrow> ('s, 'c) listener \<Rightarrow> ('s, 'c) listener option" where
  "listen_loop fuel P ops l =
     (if \<not> keepRunning l then Some l
      else (case fuel of
        0 \<Rightarrow> None
      | Suc fuel' \<Rightarrow>
          (case reportInputState ops l of
             (False, l1) \<Rightarrow> Some l1
           | (True, l1) \<Rightarrow>
               (case awaitHeader fuel' ops l1 of
                  None \<Rightarrow> None
                | Some (HeaderReturn l2) \<Rightarrow> Some l2
                | Some (HeaderFound headerEnd delimiterSize l2) \<Rightarrow>
                    if \<not> keepRunning l2 then Some l2
                    else (case handleFrame P ops headerEnd delimiterSize l2 of
                            Return l3 \<Rightarrow> Some l3
                          | Continue l3 \<Rightarrow> listen_loop fuel' P ops l3)))))"

declare listen_loop.simps [simp del]

text \<open>\<^verbatim>\<open>LSPStreamMessageProducer::listen\<close>: nothing happens without a stream.\<close>

definition listen ::
  "nat \<Rightarrow> 'c producer \<Rightarrow> ('s, 'z) istream_scheme \<Rightarrow> 's option \<Rightarrow> 'c \<Rightarrow>
     ('s, 'c) listener option option" where
  "listen fuel P ops inp c =
     (case inp of
        None \<Rightarrow> Some None
      | Some s \<Rightarrow>
          map_option Some
            (listen_loop fuel P ops
               \<lparr>input = s, buffer = [], keepRunning = True, issues = [], consumer = c\<rparr>))"

section \<open>Writing a frame\<close>

definition WriterMsg :: "string \<Rightarrow> string" where
  "WriterMsg s = ''Content-Length: '' @ to_string (length s) @ [CR, LF, CR, LF] @ s"

section \<open>Facts about headers\<close>

lemma crlf_block_nth:
  assumes "LF \<notin> set h" "i < length h + 4"
  shows "(h @ [CR, LF, CR, LF]) ! i = LF \<longleftrightarrow> i = length h + 1 \<or> i = length h + 3"
proof (cases "i < length h")
  case True
  then show ?thesis using nth_notin [OF assms(1) True] by (auto simp: nth_append)
next
  case False
  then obtain k where "i = length h + k" by (metis le_Suc_ex not_less)
  with assms(2) show ?thesis
    by (auto simp: nth_append nth_Cons split: nat.splits)
qed

lemma crlf_block_nth_CR:
  assumes "CR \<notin> set h" "i < length h + 4"
  shows "(h @ [CR, LF, CR, LF]) ! i = CR \<longleftrightarrow> i = length h \<or> i = length h + 2"
proof (cases "i < length h")
  case True
  then show ?thesis using nth_notin [OF assms(1) True] by (auto simp: nth_append)
next
  case False
  then obtain k where "i = length h + k" by (metis le_Suc_ex not_less)
  with assms(2) show ?thesis
    by (auto simp: nth_append nth_Cons split: nat.splits)
qed

text \<open>While the block is incomplete no end is found, so the loop keeps reading.\<close>

lemma findHeaderEnd_incomplete:
  assumes h: "LF \<notin> set h" "CR \<notin> set h"
    and B: "B @ R = h @ [CR, LF, CR, LF] @ x" and len: "length B < length h + 4"
  shows "findHeaderEnd B = None"
proof -
  have nth: "B ! i = (h @ [CR, LF, CR, LF]) ! i" if "i < length B" for i
    using append_eq_nth [of B R "h @ [CR, LF, CR, LF]" x i] B that len by simp
  have "\<not> starts_at B j [LF, LF]" for j
    using len crlf_block_nth [OF h(1), of j] crlf_block_nth [OF h(1), of "Suc j"]
    by (auto simp: starts_at_Cons_iff nth)
  moreover have "\<not> starts_at B j [CR, LF, CR, LF]" for j
    using len crlf_block_nth_CR [OF h(2), of j]
    by (auto simp: starts_at_Cons_iff nth)
  ultimately show ?thesis
    by (simp add: findHeaderEnd_def str_find_None_iff [THEN iffD2])
qed

lemma findHeaderEnd_complete:
  assumes h: "LF \<notin> set h" "CR \<notin> set h"
  shows "findHeaderEnd (h @ [CR, LF, CR, LF] @ x) = Some (length h, 4)"
proof -
  let ?W = "h @ [CR, LF, CR, LF]"
  have nth: "(?W @ x) ! i = ?W ! i" if "i < length h + 4" for i
    using that by (subst nth_append) simp
  have no_lf: "\<not> starts_at (?W @ x) j [LF, LF]" if "j \<le> length h" for j
    using that crlf_block_nth [OF h(1), of j] nth [of j] by (auto simp: starts_at_Cons_iff)
  have no_crlf: "\<not> starts_at (?W @ x) j [CR, LF, CR, LF]" if "j < length h" for j
    using that crlf_block_nth_CR [OF h(2), of j] nth [of j] by (auto simp: starts_at_Cons_iff)
  have here: "starts_at (?W @ x) (length h) [CR, LF, CR, LF]"
    using starts_at_append_right [of h "[CR, LF, CR, LF] @ x" 0] by (simp add: starts_at_def)
  have "str_find [CR, LF, CR, LF] (?W @ x) 0 = Some (length h)"
    using here no_crlf by (auto simp: str_find_Some_iff)
  moreover have "length h < l" if "str_find [LF, LF] (?W @ x) 0 = Some l" for l
    using that no_lf [of l] by (auto simp: str_find_Some_iff not_le [symmetric])
  ultimately show ?thesis
    by (auto simp: findHeaderEnd_def Let_def split: option.splits)
qed

text \<open>The header that \<^const>\<open>WriterMsg\<close> writes, and how it is read back.\<close>

definition length_header :: "nat \<Rightarrow> string" where
  "length_header n = ''Content-Length: '' @ to_string n"

lemma digits_exclude:
  assumes "list_all is_digit ds" "\<not> is_digit c"
  shows "c \<notin> set ds"
  using assms by (auto simp: list_all_iff)

lemma special_not_digit [simp]: "\<not> is_digit LF" "\<not> is_digit CR" "\<not> is_digit NUL" "\<not> is_digit CHR '':''"
  by (simp_all add: is_digit_def in_range_def byte_of_def)

lemma to_string_exclude [simp]:
  "LF \<notin> set (to_string n)" "CR \<notin> set (to_string n)" "NUL \<notin> set (to_string n)" "CHR '':'' \<notin> set (to_string n)"
  by (simp_all add: digits_exclude [OF to_string_digits])

lemma length_header_clean: "LF \<notin> set (length_header n)" "CR \<notin> set (length_header n)"
  by (simp_all add: length_header_def)

lemma WriterMsg_eq: "WriterMsg s = length_header (length s) @ [CR, LF, CR, LF] @ s"
  by (simp add: WriterMsg_def length_header_def)

lemma INT_MAX_LONG_MAX: "i \<le> INT_MAX \<Longrightarrow> i \<le> LONG_MAX"
  by (simp add: INT_MAX_def LONG_MAX_def)

lemma parseContentLength_to_string:
  assumes "int n \<le> INT_MAX"
  shows "parseContentLength ('' '' @ to_string n) = Some (int n)"
proof -
  have "c_str ('' '' @ to_string n) = '' '' @ to_string n"
    unfolding c_str_def using to_string_exclude(3) [of n] by (intro takeWhile_eq_all_conv [THEN iffD2]) auto
  moreover have "strtol ('' '' @ to_string n) = Some (int n, False, [])"
    by (rule strtol_to_string) (use assms INT_MAX_LONG_MAX in \<open>auto simp: is_c_space_def\<close>)
  ultimately show ?thesis using assms by (simp add: parseContentLength_def)
qed

lemma parseHeader_length_header:
  assumes "int n \<le> INT_MAX"
  shows "parseHeader (length_header n) h = h\<lparr>contentLength := int n\<rparr>"
proof -
  have eq: "length_header n = ''Content-Length'' @ CHR '':'' # ('' '' @ to_string n)"
    by (simp add: length_header_def)
  have "str_find '':'' (length_header n) 0 = Some (length ''Content-Length'')"
    unfolding eq str_find_char by (rule str_find_if_first) auto
  then show ?thesis
    using parseContentLength_to_string [OF assms]
    by (simp add: parseHeader_def substr_def CONTENT_LENGTH_HEADER_def Let_def length_header_def)
qed

lemma parseHeaderBlock_length_header:
  assumes "int n \<le> INT_MAX"
  shows "parseHeaderBlock (length_header n) h = h\<lparr>contentLength := int n\<rparr>"
proof -
  have "str_find [LF] (length_header n) 0 = None"
    unfolding str_find_char by (rule str_find_if_absent) (use length_header_clean(1) [of n] in auto)
  moreover have ne: "length_header n \<noteq> []" by (simp add: length_header_def)
  moreover have "last (length_header n) \<noteq> CR"
    using length_header_clean(2) [of n] last_in_set [OF ne] by metis
  ultimately show ?thesis
    using parseHeader_length_header [OF assms]
    by (simp add: parseHeaderBlock_def parseHeaderBlock_from.simps substr_def Let_def)
qed

section \<open>What the loop promises: messages instead of bytes\<close>

text \<open>
  What can stand in the input: a frame, as \<^const>\<open>WriterMsg\<close> writes it, or a header
  block from which no content length can be read.
\<close>

datatype item = Frame string | Noise string

definition wire :: "item \<Rightarrow> string" where
  "wire it = (case it of Frame m \<Rightarrow> WriterMsg m | Noise h \<Rightarrow> h @ [CR, LF, CR, LF])"

definition valid_item :: "item \<Rightarrow> bool" where
  "valid_item it =
     (case it of
        Frame m \<Rightarrow> int (length m) \<le> INT_MAX
      | Noise h \<Rightarrow> LF \<notin> set h \<and> CR \<notin> set h \<and> contentLength (parseHeaderBlock h Headers) < 0)"

text \<open>
  The contract of \<^verbatim>\<open>listen\<close> on the level of messages: every message goes to the
  call-back in order, a message above the limit goes to the overload handler instead, noise
  is reported and skipped, and a refusal by either handler stops the loop (the first
  component of the result says whether the loop goes on).
\<close>

fun serve :: "'c producer \<Rightarrow> item list \<Rightarrow> 'c \<Rightarrow> issue list \<Rightarrow> bool \<times> 'c \<times> issue list" where
  "serve P [] c is = (True, c, is)"
| "serve P (Noise h # its) c is = serve P its c (is @ [(unexpected_text h, WARNING)])"
| "serve P (Frame m # its) c is =
     (if oversized P (length m) then
        let text = overload_text (length m) (maxFrameSize P);
            is' = is @ [(text, WARNING)]
        in (case overloadHandler P of
              None \<Rightarrow> (False, c, is')
            | Some h \<Rightarrow> (case h text c of
                           (True, c') \<Rightarrow> serve P its c' is'
                         | (False, c') \<Rightarrow> (False, c', is')))
      else (case callBack P m c of
              (c', True) \<Rightarrow> serve P its c' is
            | (c', False) \<Rightarrow> (False, c', is)))"

text \<open>The notice that input ending with the piece \<open>x\<close> of a frame of \<open>n\<close> bytes leads to.\<close>

definition truncation_issue :: "nat \<Rightarrow> string \<Rightarrow> issue list" where
  "truncation_issue n x =
     (if x = [] then []
      else if length x < length (length_header n) + 4
           then [(''No more input when reading message headers'', INFO)]
      else [(''No more input when reading content body'', INFO)])"

context byte_stream
begin

lemma reportInputState_ok: "ok (input l) \<Longrightarrow> reportInputState ops l = (True, l)"
  by (simp add: reportInputState_def ok_not_bad ok_not_fail)

lemma readMore_more:
  assumes "ok (input l)" "rest (input l) \<noteq> []"
  shows "\<exists>bs s'. bs \<noteq> [] \<and> rest (input l) = bs @ rest s' \<and> ok s' \<and>
           readMore ops l = (True, l\<lparr>input := s', buffer := buffer l @ bs\<rparr>)"
proof -
  obtain bs s' where r: "read_some ops CHUNK (input l) = (bs, s')"
    by (cases "read_some ops CHUNK (input l)")
  have "bs \<noteq> [] \<and> rest (input l) = bs @ rest s' \<and> ok s'"
    using assms read_some_more [OF _ _ _ r] by (simp add: CHUNK_def)
  with r show ?thesis by (intro exI [of _ bs] exI [of _ s']) (simp add: readMore_def)
qed

lemma discardBytes_ok:
  assumes "ok (input l)" "n \<le> length (rest (input l))"
  shows "\<exists>s'. discardBytes ops n l = (True, l\<lparr>input := s'\<rparr>) \<and> ok s' \<and>
           rest s' = drop n (rest (input l))"
  using assms
proof (induction n arbitrary: l rule: less_induct)
  case (less n)
  show ?case
  proof (cases "n = 0")
    case True
    with less.prems show ?thesis
      by (intro exI [of _ "input l"]) (simp add: discardBytes.simps)
  next
    case False
    let ?k = "min n CHUNK"
    obtain bs s1 where r: "read ops ?k (input l) = (bs, s1)"
      by (cases "read ops ?k (input l)")
    have k: "?k \<le> length (rest (input l))" using less.prems by simp
    from read_all [OF less.prems(1) k r]
    have s1: "rest s1 = drop ?k (rest (input l))" "ok s1" by auto
    have "n - ?k < n" using False by (simp add: CHUNK_def)
    moreover have "n - ?k \<le> length (rest s1)" using s1(1) less.prems(2) by simp
    ultimately obtain s2 where s2: "discardBytes ops (n - ?k) (l\<lparr>input := s1\<rparr>) = (True, l\<lparr>input := s2\<rparr>)"
      "ok s2" "rest s2 = drop (n - ?k) (drop ?k (rest (input l)))"
      using less.IH [of "n - ?k" "l\<lparr>input := s1\<rparr>"] s1 by auto
    moreover have "n - ?k + ?k = n" by simp
    ultimately show ?thesis
      using False r s1 ok_not_bad ok_not_fail ok_not_eof
      by (intro exI [of _ s2]) (simp add: discardBytes.simps [of ops n l] Let_def)
  qed
qed

text \<open>The inner loop finds the header that is coming, whatever the pieces are.\<close>

lemma awaitHeader_finds:
  assumes "ok (input l)" "keepRunning l" "length (rest (input l)) < fuel"
    and "LF \<notin> set h" "CR \<notin> set h"
    and "buffer l @ rest (input l) = h @ [CR, LF, CR, LF] @ x"
  shows "\<exists>s' y. awaitHeader fuel ops l =
             Some (HeaderFound (length h) 4 (l\<lparr>input := s', buffer := h @ [CR, LF, CR, LF] @ y\<rparr>)) \<and>
           y @ rest s' = x \<and> ok s' \<and> length (rest s') \<le> length (rest (input l))"
  using assms
proof (induction fuel arbitrary: l)
  case 0
  then show ?case by simp
next
  case (Suc fuel)
  show ?case
  proof (cases "length h + 4 \<le> length (buffer l)")
    case True
    with append_eq_longer [of "buffer l" "rest (input l)" "h @ [CR, LF, CR, LF]" x] Suc.prems(6)
    obtain y where y: "buffer l = h @ [CR, LF, CR, LF] @ y" "y @ rest (input l) = x" by auto
    then have "findHeaderEnd (buffer l) = Some (length h, 4)"
      using findHeaderEnd_complete [OF Suc.prems(4,5), of y] by simp
    with y Suc.prems show ?thesis
      by (intro exI [of _ "input l"] exI [of _ y])
        (cases l; simp add: awaitHeader.simps [of "Suc fuel"])
  next
    case False
    then have none: "findHeaderEnd (buffer l) = None"
      using findHeaderEnd_incomplete [OF Suc.prems(4,5,6)] by simp
    have "rest (input l) \<noteq> []" using False Suc.prems(6) by (auto dest: arg_cong [of _ _ length])
    with readMore_more [OF Suc.prems(1)] obtain bs s' where bs: "bs \<noteq> []"
      "rest (input l) = bs @ rest s'" "ok s'"
      "readMore ops l = (True, l\<lparr>input := s', buffer := buffer l @ bs\<rparr>)" by blast
    let ?l = "l\<lparr>input := s', buffer := buffer l @ bs\<rparr>"
    have short: "length (rest s') < length (rest (input l))" using bs(1,2) by simp
    have "\<exists>s2 y. awaitHeader fuel ops ?l =
        Some (HeaderFound (length h) 4 (?l\<lparr>input := s2, buffer := h @ [CR, LF, CR, LF] @ y\<rparr>)) \<and>
        y @ rest s2 = x \<and> ok s2 \<and> length (rest s2) \<le> length (rest (input ?l))"
      by (rule Suc.IH) (use Suc.prems bs short in \<open>simp_all, linarith?\<close>)
    then obtain s2 y where fin: "awaitHeader fuel ops ?l =
        Some (HeaderFound (length h) 4 (?l\<lparr>input := s2, buffer := h @ [CR, LF, CR, LF] @ y\<rparr>))"
        "y @ rest s2 = x" "ok s2" "length (rest s2) \<le> length (rest s')" by auto
    have "awaitHeader (Suc fuel) ops l = awaitHeader fuel ops ?l"
      using none bs Suc.prems(2) reportInputState_ok [of ?l] by (simp add: awaitHeader.simps [of "Suc fuel"])
    with fin short show ?thesis by (intro exI [of _ s2] exI [of _ y]) simp
  qed
qed

text \<open>At the end of the input the loop stops, and silently so when nothing is pending.\<close>

lemma awaitHeader_end:
  assumes "ok (input l)" "keepRunning l" "rest (input l) = []" "buffer l = []"
  shows "\<exists>s'. awaitHeader (Suc fuel) ops l = Some (HeaderReturn (l\<lparr>input := s', keepRunning := False\<rparr>))"
proof -
  obtain s' where r: "read_some ops CHUNK (input l) = ([], s')"
    using read_some_end [OF assms(1,3), of CHUNK] by (cases "read_some ops CHUNK (input l)") auto
  have "findHeaderEnd [] = None"
    by (simp add: findHeaderEnd_def str_find_def starts_at_def)
  with r assms show ?thesis
    by (intro exI [of _ s']) (simp add: awaitHeader.simps [of "Suc fuel"] readMore_def)
qed

lemma readBody_ok:
  assumes "ok (input l)" "buffer l @ rest (input l) = m @ x"
  shows "\<exists>s' y. readBody ops (length m) l = (True, l\<lparr>input := s', buffer := m @ y\<rparr>) \<and>
           y @ rest s' = x \<and> ok s' \<and> length (rest s') \<le> length (rest (input l))"
proof (cases "length (buffer l) < length m")
  case False
  with append_eq_longer [OF assms(2)] obtain y where "buffer l = m @ y" "y @ rest (input l) = x" by auto
  with False assms show ?thesis
    by (intro exI [of _ "input l"] exI [of _ y]) (cases l; simp add: readBody_def)
next
  case True
  let ?k = "length m - length (buffer l)"
  obtain bs s' where r: "read ops ?k (input l) = (bs, s')" by (cases "read ops ?k (input l)")
  obtain z where z: "m = buffer l @ z" "rest (input l) = z @ x"
    using assms(2) True by (auto simp: append_eq_append_conv2)
  then have k: "?k \<le> length (rest (input l))" by simp
  from read_all [OF assms(1) k r] z have s': "bs = z" "rest s' = x" "ok s'" by auto
  with r z True show ?thesis
    using ok_not_bad [OF s'(3)] ok_not_fail [OF s'(3)] ok_not_eof [OF s'(3)]
    by (intro exI [of _ s'] exI [of _ "[]"]) (simp add: readBody_def Let_def)
qed

text \<open>One complete frame, from the buffer or from the stream, in the three ways it can end.\<close>

lemma handleFrame_small:
  assumes "ok (input l)" "keepRunning l" "int (length m) \<le> INT_MAX"
    and "buffer l = length_header (length m) @ [CR, LF, CR, LF] @ y" "y @ rest (input l) = m @ x"
    and "\<not> oversized P (length m)"
  shows "\<exists>s' z. handleFrame P ops (length (length_header (length m))) 4 l =
           Continue (l\<lparr>input := s', buffer := z, keepRunning := snd (callBack P m (consumer l)),
                       consumer := fst (callBack P m (consumer l))\<rparr>) \<and>
           z @ rest s' = x \<and> ok s' \<and> length (rest s') \<le> length (rest (input l))"
proof -
  have h: "contentLength (parseHeaderBlock (length_header (length m)) Headers) = int (length m)"
    using parseHeaderBlock_length_header [OF assms(3)] by simp
  let ?l = "l\<lparr>buffer := y\<rparr>"
  from readBody_ok [of ?l m x] assms obtain s' z where rb:
    "readBody ops (length m) ?l = (True, ?l\<lparr>input := s', buffer := m @ z\<rparr>)"
    "z @ rest s' = x" "ok s'" "length (rest s') \<le> length (rest (input l))" by auto
  from rb(1) h assms(2,4,6) ok_not_eof [OF rb(3)]
  have "handleFrame P ops (length (length_header (length m))) 4 l =
           Continue (l\<lparr>input := s', buffer := z, keepRunning := snd (callBack P m (consumer l)),
                       consumer := fst (callBack P m (consumer l))\<rparr>)"
    by (simp add: handleFrame_def substr_def Let_def)
  with rb show ?thesis by blast
qed

lemma handleFrame_oversized:
  assumes "ok (input l)" "int (length m) \<le> INT_MAX"
    and "buffer l = length_header (length m) @ [CR, LF, CR, LF] @ y" "y @ rest (input l) = m @ x"
    and "oversized P (length m)"
    and "reportOverload P (overload_text (length m) (maxFrameSize P)) (l\<lparr>buffer := y\<rparr>) =
           (go, l\<lparr>buffer := y, issues := iss, consumer := c\<rparr>)"
  shows "if go
         then \<exists>s' z. handleFrame P ops (length (length_header (length m))) 4 l =
                Continue (l\<lparr>input := s', buffer := z, issues := iss, consumer := c\<rparr>) \<and>
              z @ rest s' = x \<and> ok s' \<and> length (rest s') \<le> length (rest (input l))
         else \<exists>l'. handleFrame P ops (length (length_header (length m))) 4 l = Return l' \<and>
                consumer l' = c \<and> issues l' = iss \<and> \<not> keepRunning l'"
proof -
  have h: "contentLength (parseHeaderBlock (length_header (length m)) Headers) = int (length m)"
    using parseHeaderBlock_length_header [OF assms(2)] by simp
  note frame = h assms(3,5,6) handleFrame_def substr_def Let_def
  show ?thesis
  proof (cases go)
    case False
    then show ?thesis by (simp add: frame)
  next
    case go: True
    show ?thesis
    proof (cases "length m \<le> length y")
      case True
      with append_eq_longer [OF assms(4)] obtain z where
        yz: "y = m @ z" "z @ rest (input l) = x" by blast
      moreover have "l\<lparr>input := input l, buffer := z, issues := iss, consumer := c\<rparr> =
          l\<lparr>buffer := z, issues := iss, consumer := c\<rparr>" for z by (cases l) simp
      ultimately show ?thesis
        using go assms(1) yz(2)
        by (simp, intro exI [of _ "input l"] exI [of _ z])
          (simp add: frame yz(1) assms(6) [unfolded yz(1)])
    next
      case False
      then obtain w where w: "m = y @ w" "rest (input l) = w @ x"
        using assms(4) by (auto simp: append_eq_append_conv2)
      let ?l = "l\<lparr>issues := iss, consumer := c, buffer := []\<rparr>"
      from discardBytes_ok [of ?l "length w"] assms(1) w(2) obtain s' where
        db: "discardBytes ops (length w) ?l = (True, ?l\<lparr>input := s'\<rparr>)" "ok s'" "rest s' = x" by auto
      have lw: "length m - length y = length w" "w \<noteq> []" using w(1) False by auto
      have "handleFrame P ops (length (length_header (length m))) 4 l =
          Continue (l\<lparr>input := s', buffer := [], issues := iss, consumer := c\<rparr>)"
        using go False db(1) lw by (simp add: frame)
      with go db w(2) show ?thesis by (simp, intro exI [of _ s'] exI [of _ "[]"]) simp
    qed
  qed
qed

text \<open>
  The loop over bytes refines \<^const>\<open>serve\<close> over items: it either stops as \<open>serve\<close> says,
  or stands in front of whatever follows, with the consumer and the issues of \<open>serve\<close>.
\<close>

definition served ::
  "nat \<Rightarrow> 'c producer \<Rightarrow> ('s, 'c) listener \<Rightarrow> item list \<Rightarrow> string \<Rightarrow> bool" where
  "served fuel P l its x =
     (case serve P its (consumer l) (issues l) of
        (True, c', is') \<Rightarrow>
          \<exists>l' f. listen_loop fuel P ops l = listen_loop f P ops l' \<and> ok (input l') \<and> keepRunning l' \<and>
            buffer l' @ rest (input l') = x \<and> consumer l' = c' \<and> issues l' = is' \<and>
            length (rest (input l')) + 1 < f
      | (False, c', is') \<Rightarrow>
          \<exists>l'. listen_loop fuel P ops l = Some l' \<and> \<not> keepRunning l' \<and> consumer l' = c' \<and> issues l' = is')"

lemma served_Cons:
  assumes "listen_loop fuel P ops l = listen_loop f P ops l2"
    and "serve P (it # its) (consumer l) (issues l) = serve P its (consumer l2) (issues l2)"
    and "served f P l2 its x"
  shows "served fuel P l (it # its) x"
  using assms(3) unfolding served_def assms(1,2) .

text \<open>One iteration, up to the frame handler.\<close>

lemma listen_loop_header:
  assumes "ok (input l)" "keepRunning l" "LF \<notin> set h" "CR \<notin> set h"
    and "buffer l @ rest (input l) = h @ [CR, LF, CR, LF] @ x" "length (rest (input l)) < fuel"
  obtains s y where "y @ rest s = x" "ok s" "length (rest s) \<le> length (rest (input l))"
    "listen_loop (Suc fuel) P ops l =
       (case handleFrame P ops (length h) 4 (l\<lparr>input := s, buffer := h @ [CR, LF, CR, LF] @ y\<rparr>) of
          Return l3 \<Rightarrow> Some l3 | Continue l3 \<Rightarrow> listen_loop fuel P ops l3)"
proof -
  from awaitHeader_finds [OF assms(1,2,6,3,4,5)] obtain s y where
    "awaitHeader fuel ops l = Some (HeaderFound (length h) 4 (l\<lparr>input := s, buffer := h @ [CR, LF, CR, LF] @ y\<rparr>))"
    "y @ rest s = x" "ok s" "length (rest s) \<le> length (rest (input l))" by blast
  with assms(2) reportInputState_ok [OF assms(1)] show ?thesis
    by (intro that [of y s]) (simp_all add: listen_loop.simps [of "Suc fuel"])
qed

lemma served_Noise:
  assumes "ok (input l)" "keepRunning l" "valid_item (Noise h)"
    and "buffer l @ rest (input l) = wire (Noise h) @ x" "length (rest (input l)) < fuel"
    and ih: "\<And>l2. ok (input l2) \<Longrightarrow> keepRunning l2 \<Longrightarrow> buffer l2 @ rest (input l2) = x \<Longrightarrow>
           length (rest (input l2)) \<le> length (rest (input l)) \<Longrightarrow> served fuel P l2 its y"
  shows "served (Suc fuel) P l (Noise h # its) y"
proof -
  have h: "LF \<notin> set h" "CR \<notin> set h" "contentLength (parseHeaderBlock h Headers) < 0"
    using assms(3) by (auto simp: valid_item_def)
  have "buffer l @ rest (input l) = h @ [CR, LF, CR, LF] @ x" using assms(4) by (simp add: wire_def)
  from listen_loop_header [OF assms(1,2) h(1,2) this assms(5), of P] obtain s z where sz:
    "z @ rest s = x" "ok s" "length (rest s) \<le> length (rest (input l))"
    "listen_loop (Suc fuel) P ops l =
       (case handleFrame P ops (length h) 4 (l\<lparr>input := s, buffer := h @ [CR, LF, CR, LF] @ z\<rparr>) of
          Return l3 \<Rightarrow> Some l3 | Continue l3 \<Rightarrow> listen_loop fuel P ops l3)" by blast
  let ?l = "handle (unexpected_text h) WARNING (l\<lparr>input := s, buffer := z\<rparr>)"
  have "handleFrame P ops (length h) 4 (l\<lparr>input := s, buffer := h @ [CR, LF, CR, LF] @ z\<rparr>) = Continue ?l"
    using h(3) by (simp add: handleFrame_def substr_def Let_def)
  with sz have "listen_loop (Suc fuel) P ops l = listen_loop fuel P ops ?l" by simp
  then show ?thesis
    by (rule served_Cons) (use ih [of ?l] sz assms(2) in \<open>simp_all add: handle_def\<close>)
qed

lemma served_Frame:
  assumes "ok (input l)" "keepRunning l" "valid_item (Frame m)"
    and "buffer l @ rest (input l) = wire (Frame m) @ x" "length (rest (input l)) < fuel"
    and ih: "\<And>l2. ok (input l2) \<Longrightarrow> keepRunning l2 \<Longrightarrow> buffer l2 @ rest (input l2) = x \<Longrightarrow>
           length (rest (input l2)) \<le> length (rest (input l)) \<Longrightarrow> served fuel P l2 its y"
  shows "served (Suc fuel) P l (Frame m # its) y"
proof -
  let ?h = "length_header (length m)"
  have fit: "int (length m) \<le> INT_MAX" using assms(3) by (simp add: valid_item_def)
  have "buffer l @ rest (input l) = ?h @ [CR, LF, CR, LF] @ m @ x"
    using assms(4) by (simp add: wire_def WriterMsg_eq)
  from listen_loop_header [OF assms(1,2) length_header_clean this assms(5), of P] obtain s w where sw:
    "w @ rest s = m @ x" "ok s" "length (rest s) \<le> length (rest (input l))"
    "listen_loop (Suc fuel) P ops l =
       (case handleFrame P ops (length ?h) 4 (l\<lparr>input := s, buffer := ?h @ [CR, LF, CR, LF] @ w\<rparr>) of
          Return l3 \<Rightarrow> Some l3 | Continue l3 \<Rightarrow> listen_loop fuel P ops l3)" by blast
  define l1 where "l1 = l\<lparr>input := s, buffer := ?h @ [CR, LF, CR, LF] @ w\<rparr>"
  show ?thesis
  proof (cases "oversized P (length m)")
    case False
    obtain c' go where cb: "callBack P m (consumer l) = (c', go)" by (cases "callBack P m (consumer l)")
    from handleFrame_small [of l1 m w x P] assms(2) fit sw False cb obtain s2 z where hf:
      "handleFrame P ops (length ?h) 4 l1 =
         Continue (l1\<lparr>input := s2, buffer := z, keepRunning := go, consumer := c'\<rparr>)"
      "z @ rest s2 = x" "ok s2" "length (rest s2) \<le> length (rest s)" by (auto simp: l1_def)
    let ?l = "l1\<lparr>input := s2, buffer := z, keepRunning := go, consumer := c'\<rparr>"
    have step: "listen_loop (Suc fuel) P ops l = listen_loop fuel P ops ?l"
      using sw(4) hf(1) by (simp add: l1_def)
    show ?thesis
    proof (cases go)
      case True
      show ?thesis
        by (rule served_Cons [OF step])
          (use ih [of ?l] hf sw True cb False in \<open>simp_all add: l1_def\<close>)
    next
      case stop: False
      with step cb False show ?thesis by (simp add: served_def listen_loop.simps [of fuel] l1_def)
    qed
  next
    case True
    define ot where "ot = overload_text (length m) (maxFrameSize P)"
    define iss where "iss = issues l @ [(ot, WARNING)]"
    obtain go c' where r: "(case overloadHandler P of None \<Rightarrow> (False, consumer l) | Some h \<Rightarrow> h ot (consumer l)) = (go, c')"
      by (cases "case overloadHandler P of None \<Rightarrow> (False, consumer l) | Some h \<Rightarrow> h ot (consumer l)")
    have ro: "reportOverload P ot (l1\<lparr>buffer := w\<rparr>) = (go, l1\<lparr>buffer := w, issues := iss, consumer := c'\<rparr>)"
      using r by (cases l) (auto simp: reportOverload_def handle_def l1_def iss_def split: option.splits)
    have sv: "serve P (Frame m # its) (consumer l) (issues l) = (if go then serve P its c' iss else (False, c', iss))"
      using True r by (auto simp: iss_def ot_def Let_def split: option.splits)
    note hf = handleFrame_oversized [where l = l1 and m = m and y = w and x = x and P = P and go = go and iss = iss and c = c']
    show ?thesis
    proof (cases go)
      case go: True
      with hf ro fit sw True obtain s2 z where hf2: "handleFrame P ops (length ?h) 4 l1 =
          Continue (l1\<lparr>input := s2, buffer := z, issues := iss, consumer := c'\<rparr>)"
        "z @ rest s2 = x" "ok s2" "length (rest s2) \<le> length (rest s)" by (auto simp: l1_def ot_def)
      let ?l = "l1\<lparr>input := s2, buffer := z, issues := iss, consumer := c'\<rparr>"
      have step: "listen_loop (Suc fuel) P ops l = listen_loop fuel P ops ?l"
        using sw(4) hf2(1) by (simp add: l1_def)
      show ?thesis
        by (rule served_Cons [OF step]) (use ih [of ?l] hf2 sw go sv assms(2) in \<open>simp_all add: l1_def\<close>)
    next
      case False
      with hf ro fit sw True sv show ?thesis by (auto simp: served_def l1_def ot_def)
    qed
  qed
qed

lemma listen_loop_serves:
  assumes "ok (input l)" "keepRunning l" "list_all valid_item its"
    and "buffer l @ rest (input l) = concat (map wire its) @ x"
    and "length its + length (rest (input l)) + 1 < fuel"
  shows "served fuel P l its x"
  using assms
proof (induction its arbitrary: l fuel)
  case Nil
  then show ?case by (auto simp: served_def)
next
  case (Cons it its)
  then obtain f where f: "fuel = Suc f" by (cases fuel) auto
  have ih: "served f P l2 its x"
    if "ok (input l2)" "keepRunning l2" "buffer l2 @ rest (input l2) = concat (map wire its) @ x"
      "length (rest (input l2)) \<le> length (rest (input l))" for l2
    by (rule Cons.IH) (use that Cons.prems f in auto)
  show ?case
  proof (cases it)
    case (Frame m)
    show ?thesis unfolding f Frame
      by (rule served_Frame [where x = "concat (map wire its) @ x"]) (use Cons.prems f Frame ih in auto)
  next
    case (Noise h)
    show ?thesis unfolding f Noise
      by (rule served_Noise [where x = "concat (map wire its) @ x"]) (use Cons.prems f Noise ih in auto)
  qed
qed

text \<open>How the loop ends on input that stops inside a frame.\<close>

lemma awaitHeader_truncated:
  assumes "ok (input l)" "keepRunning l" "length (rest (input l)) < fuel"
    and "LF \<notin> set h" "CR \<notin> set h" "z \<noteq> []"
    and "(buffer l @ rest (input l)) @ z = h @ [CR, LF, CR, LF]"
  shows "\<exists>l'. awaitHeader fuel ops l = Some (HeaderReturn l') \<and> \<not> keepRunning l' \<and>
           consumer l' = consumer l \<and>
           issues l' = issues l @ (if buffer l @ rest (input l) = [] then []
                         else [(''No more input when reading message headers'', INFO)])"
  using assms
proof (induction fuel arbitrary: l)
  case 0
  then show ?case by simp
next
  case (Suc fuel)
  have "length (buffer l) + length (rest (input l)) + length z = length h + 4"
    using Suc.prems(7) [THEN arg_cong [of _ _ length]] by simp
  with Suc.prems(6) have "length (buffer l) < length h + 4" by (cases z) auto
  then have none: "findHeaderEnd (buffer l) = None"
    using findHeaderEnd_incomplete [OF Suc.prems(4,5), of "buffer l" "rest (input l) @ z" "[]"] Suc.prems(7) by simp
  show ?case
  proof (cases "rest (input l) = []")
    case True
    obtain s' where "read_some ops CHUNK (input l) = ([], s')"
      using read_some_end [OF Suc.prems(1) True, of CHUNK] by (cases "read_some ops CHUNK (input l)") auto
    with none True Suc.prems(2) show ?thesis
      by (simp add: awaitHeader.simps [of "Suc fuel"] readMore_def handle_def Let_def)
  next
    case False
    from readMore_more [OF Suc.prems(1) False] obtain bs s' where bs: "bs \<noteq> []"
      "rest (input l) = bs @ rest s'" "ok s'"
      "readMore ops l = (True, l\<lparr>input := s', buffer := buffer l @ bs\<rparr>)" by blast
    let ?l = "l\<lparr>input := s', buffer := buffer l @ bs\<rparr>"
    have short: "length (rest s') < fuel" using bs(1,2) Suc.prems(3) by (cases bs) auto
    have "awaitHeader (Suc fuel) ops l = awaitHeader fuel ops ?l"
      using none bs Suc.prems(2) reportInputState_ok [of ?l] by (simp add: awaitHeader.simps [of "Suc fuel"])
    with Suc.IH [of ?l] Suc.prems bs short show ?thesis by simp
  qed
qed

lemma listen_loop_end:
  assumes "ok (input l)" "keepRunning l" "buffer l @ rest (input l) = []" "1 < fuel"
  shows "\<exists>l'. listen_loop fuel P ops l = Some l' \<and> \<not> keepRunning l' \<and> consumer l' = consumer l \<and>
           issues l' = issues l"
proof -
  obtain f where f: "fuel = Suc (Suc f)" using assms(4) by (cases fuel; cases "fuel - 1") auto
  from assms awaitHeader_end [of l f] reportInputState_ok [of l] show ?thesis
    unfolding f by (auto simp: listen_loop.simps [of "Suc (Suc f)"])
qed

lemma listen_serves_generic:
  assumes "ok s" "list_all valid_item its" "rest s = concat (map wire its)"
    and "length its + length (rest s) + 1 < fuel"
  shows "\<exists>l'. listen fuel P ops (Some s) c = Some (Some l') \<and> \<not> keepRunning l' \<and>
           (consumer l', issues l') = snd (serve P its c [])"
proof -
  let ?l = "\<lparr>input = s, buffer = [], keepRunning = True, issues = [], consumer = c\<rparr>"
  obtain go c' is' where sv: "serve P its c [] = (go, c', is')" by (cases "serve P its c []") auto
  have srv: "served fuel P ?l its []" by (rule listen_loop_serves) (use assms in auto)
  show ?thesis
  proof (cases go)
    case True
    with srv sv obtain l1 f where l1: "listen_loop fuel P ops ?l = listen_loop f P ops l1"
      "ok (input l1)" "keepRunning l1" "buffer l1 @ rest (input l1) = []" "consumer l1 = c'" "issues l1 = is'"
      "length (rest (input l1)) + 1 < f" by (auto simp: served_def)
    from listen_loop_end [OF l1(2,3,4)] l1 sv show ?thesis by (fastforce simp: listen_def)
  next
    case False
    with srv sv show ?thesis by (auto simp: served_def listen_def)
  qed
qed

end

context byte_source
begin

lemma handleFrame_truncated:
  assumes "ok (input l)" "int (length m) \<le> INT_MAX" "\<not> oversized P (length m)"
    and "buffer l = length_header (length m) @ [CR, LF, CR, LF] @ y"
    and "length y + length (rest (input l)) < length m"
  shows "\<exists>l'. handleFrame P ops (length (length_header (length m))) 4 l = Return l' \<and> \<not> keepRunning l' \<and>
           consumer l' = consumer l \<and>
           issues l' = issues l @ [(''No more input when reading content body'', INFO)]"
proof -
  have h: "contentLength (parseHeaderBlock (length_header (length m)) Headers) = int (length m)"
    using parseHeaderBlock_length_header [OF assms(2)] by simp
  obtain bs s' where r: "read ops (length m - length y) (input l) = (bs, s')"
    by (cases "read ops (length m - length y) (input l)")
  have "length (rest (input l)) < length m - length y" using assms(5) by simp
  from read_short [OF assms(1) this r] assms(3,4,5) h r show ?thesis
    by (simp add: handleFrame_def readBody_def substr_def Let_def handle_def)
qed

lemma listen_loop_truncated:
  assumes "ok (input l)" "keepRunning l" "int (length m) \<le> INT_MAX" "\<not> oversized P (length m)"
    and "(buffer l @ rest (input l)) @ z = WriterMsg m" "z \<noteq> []"
    and "length (rest (input l)) + 1 < fuel"
  shows "\<exists>l'. listen_loop fuel P ops l = Some l' \<and> \<not> keepRunning l' \<and> consumer l' = consumer l \<and>
           issues l' = issues l @ truncation_issue (length m) (buffer l @ rest (input l))"
proof -
  let ?h = "length_header (length m)" let ?x = "buffer l @ rest (input l)"
  obtain f where f: "fuel = Suc f" "length (rest (input l)) < f" using assms(7) by (cases fuel) auto
  show ?thesis
  proof (cases "length ?x < length ?h + 4")
    case True
    have eq: "?x @ z = (?h @ [CR, LF, CR, LF]) @ m" using assms(5) by (simp add: WriterMsg_eq)
    from append_eq_shorter [OF this] True
    obtain z' where z': "?x @ z' = ?h @ [CR, LF, CR, LF]" "z' \<noteq> []" by auto
    from awaitHeader_truncated [OF assms(1,2) f(2) length_header_clean z'(2,1)] True
      reportInputState_ok [OF assms(1)] assms(2) f(1)
    show ?thesis by (auto simp: listen_loop.simps [of "Suc f"] truncation_issue_def)
  next
    case False
    have "?x @ z = (?h @ [CR, LF, CR, LF]) @ m" using assms(5) by (simp add: WriterMsg_eq)
    from append_eq_longer [OF this] False obtain p where
      p: "?x = ?h @ [CR, LF, CR, LF] @ p" "p @ z = m" by auto
    from listen_loop_header [OF assms(1,2) length_header_clean p(1) f(2), of P] obtain s y where sy:
      "y @ rest s = p" "ok s"
      "listen_loop (Suc f) P ops l =
         (case handleFrame P ops (length ?h) 4 (l\<lparr>input := s, buffer := ?h @ [CR, LF, CR, LF] @ y\<rparr>) of
            Return l3 \<Rightarrow> Some l3 | Continue l3 \<Rightarrow> listen_loop f P ops l3)" by blast
    let ?l = "l\<lparr>input := s, buffer := ?h @ [CR, LF, CR, LF] @ y\<rparr>"
    have "length y + length (rest (input ?l)) < length m"
      using sy(1) p(2) assms(6) by auto
    from handleFrame_truncated [OF _ assms(3,4) _ this] sy(2,3) p(1) False f(1)
    show ?thesis by (auto simp: truncation_issue_def)
  qed
qed

lemma listen_truncated_generic:
  assumes "ok s" "list_all valid_item its" "int (length m) \<le> INT_MAX" "\<not> oversized P (length m)"
    and "rest s = concat (map wire its) @ x" "x @ z = WriterMsg m" "z \<noteq> []"
    and "length its + length (rest s) + 1 < fuel" "serve P its c [] = (True, c', is')"
  shows "\<exists>l'. listen fuel P ops (Some s) c = Some (Some l') \<and> \<not> keepRunning l' \<and> consumer l' = c' \<and>
           issues l' = is' @ truncation_issue (length m) x"
proof -
  let ?l = "\<lparr>input = s, buffer = [], keepRunning = True, issues = [], consumer = c\<rparr>"
  have "served fuel P ?l its x" by (rule listen_loop_serves) (use assms in auto)
  with assms(9) obtain l1 f where l1: "listen_loop fuel P ops ?l = listen_loop f P ops l1"
    "ok (input l1)" "keepRunning l1" "buffer l1 @ rest (input l1) = x" "consumer l1 = c'" "issues l1 = is'"
    "length (rest (input l1)) + 1 < f" by (auto simp: served_def)
  from listen_loop_truncated [OF l1(2,3) assms(3,4) _ assms(7) l1(7)] l1 assms(6) show ?thesis
    by (auto simp: listen_def)
qed

end

lemma blanks_not_digit: "list_all (\<lambda>c. c = CHR '' '' \<or> c = TAB) bl \<Longrightarrow> takeWhile is_digit bl = [] \<and> dropWhile is_digit bl = bl"
  by (cases bl) (auto simp: is_digit_def in_range_def byte_of_def)

lemma takeWhile_list_all: "list_all P (takeWhile P xs)"
  by (induction xs) auto

lemma strtol_accepts:
  assumes "list_all is_c_space sp" "sg \<in> {[], ''+'', ''-''}" "ds \<noteq> []" "list_all is_digit ds"
    and "list_all (\<lambda>c. c = CHR '' '' \<or> c = TAB) bl"
    and "n = (if sg = ''-'' then - int (digits_value ds) else int (digits_value ds))" "LONG_MIN \<le> n" "n \<le> LONG_MAX"
  shows "strtol (sp @ sg @ ds @ bl) = Some (n, False, bl)"
proof -
  obtain d ds' where d: "ds = d # ds'" using assms(3) by (cases ds) auto
  have dig: "\<not> is_c_space d" "d \<noteq> CHR ''-''" "d \<noteq> CHR ''+''" using assms(4) d is_digit_not_space by auto
  have sgn: "\<not> is_c_space CHR ''+''" "\<not> is_c_space CHR ''-''" by (simp_all add: is_c_space_def byte_of_def)
  have skip: "dropWhile is_c_space (sp @ sg @ ds @ bl) = sg @ ds @ bl"
    using assms(1,2) dig sgn by (auto simp: dropWhile_all_append d)
  have tw: "takeWhile is_digit (ds @ bl) = ds" "dropWhile is_digit (ds @ bl) = bl"
    using assms(4,5) blanks_not_digit by (auto simp: takeWhile_all_append dropWhile_all_append)
  have "takeWhile is_digit (d # ds' @ bl) = ds" "dropWhile is_digit (d # ds' @ bl) = bl"
    using tw by (simp_all only: d append_Cons)
  with assms(2,6,7,8) dig show ?thesis
    unfolding strtol_def skip Let_def by (auto simp: d)
qed

lemma strtol_sound:
  assumes "strtol s = Some (n, False, bl)"
  shows "\<exists>sp sg ds. s = sp @ sg @ ds @ bl \<and> list_all is_c_space sp \<and> sg \<in> {[], ''+'', ''-''} \<and>
           ds \<noteq> [] \<and> list_all is_digit ds \<and>
           n = (if sg = ''-'' then - int (digits_value ds) else int (digits_value ds))"
proof -
  let ?s1 = "dropWhile is_c_space s"
  define sg where "sg = (if ?s1 \<noteq> [] \<and> (hd ?s1 = CHR ''-'' \<or> hd ?s1 = CHR ''+'') then [hd ?s1] else [])"
  define s2 where "s2 = (if ?s1 \<noteq> [] \<and> (hd ?s1 = CHR ''-'' \<or> hd ?s1 = CHR ''+'') then tl ?s1 else ?s1)"
  have s1: "?s1 = sg @ s2" by (simp add: sg_def s2_def)
  have neg: "(?s1 \<noteq> [] \<and> hd ?s1 = CHR ''-'') = (sg = ''-'')" by (auto simp: sg_def)
  from assms have r: "takeWhile is_digit s2 \<noteq> []" "bl = dropWhile is_digit s2"
    "n = (if sg = ''-'' then - int (digits_value (takeWhile is_digit s2)) else int (digits_value (takeWhile is_digit s2)))"
    unfolding strtol_def Let_def neg s2_def [symmetric] by (auto split: if_splits)
  have "s = takeWhile is_c_space s @ sg @ takeWhile is_digit s2 @ bl"
    using takeWhile_dropWhile_id [of is_c_space s] by (simp add: s1 r(2))
  moreover have "sg \<in> {[], ''+'', ''-''}" by (auto simp: sg_def)
  ultimately show ?thesis using r(1,3) takeWhile_list_all by blast
qed

section \<open>Properties\<close>

text \<open>C1: Over a \<^verbatim>\<open>standard_istream\<close>, whatever pieces the input arrives in, the loop
  \<^verbatim>\<open>listen\<close> ends and does to the consumer exactly what the list of frames (and stray header
  blocks) on the wire prescribes: each message is handed over once and in order, oversized
  frames go to the overload handler, a call-back that stops the producer stops the loop, and
  the reported issues are those of the specification.\<close>

theorem listen_refines_serve:
  assumes "std_ok s" "list_all valid_item its" "content s = concat (map wire its)"
    and "length its + length (content s) + 1 < fuel"
  shows "\<exists>l'. listen fuel P standard_istream (Some s) c = Some (Some l') \<and> \<not> keepRunning l' \<and>
           (consumer l', issues l') = snd (serve P its c [])"
  using assms by (rule standard.listen_serves_generic)

definition collector :: "nat \<Rightarrow> string list producer" where
  "collector limit =
     \<lparr>maxFrameSize = limit, overloadHandler = Some (\<lambda>msg c. (True, c)), callBack = (\<lambda>m c. (c @ [m], True))\<rparr>"

definition sample_stream :: "string \<Rightarrow> std_stream" where
  "sample_stream x =
     \<lparr>content = x, avail = [3, 0, 7], eofbit = False, failbit = False, badbit = False, interrupted = False\<rparr>"

lemma sample_stream_ok [simp]: "std_ok (sample_stream x)" "content (sample_stream x) = x"
  by (simp_all add: sample_stream_def std_ok_def std_good_def)

theorem listen_refines_serve_witness:
  "\<exists>l'. listen 200 (collector 5) standard_istream
        (Some (sample_stream (concat (map wire [Frame ''{}'', Noise ''Foo: 1'', Frame ''[1,2,3]''])))) [] =
      Some (Some l') \<and> \<not> keepRunning l' \<and>
      (consumer l', issues l') =
        snd (serve (collector 5) [Frame ''{}'', Noise ''Foo: 1'', Frame ''[1,2,3]''] [] [])"
proof (rule listen_refines_serve)
  show "length [Frame ''{}'', Noise ''Foo: 1'', Frame ''[1,2,3]''] +
      length (content (sample_stream (concat (map wire [Frame ''{}'', Noise ''Foo: 1'', Frame ''[1,2,3]''])))) + 1 < 200"
    by code_simp
  show "list_all valid_item [Frame ''{}'', Noise ''Foo: 1'', Frame ''[1,2,3]'']" by code_simp
qed simp_all

lemma listen_reads_frames:
  assumes "std_ok s" "content s = concat (map WriterMsg ms)"
    and "list_all (\<lambda>m. int (length m) \<le> INT_MAX \<and> (limit = 0 \<or> length m \<le> limit)) ms"
    and "length ms + length (content s) + 1 < fuel"
  shows "\<exists>l'. listen fuel (collector limit) (base_istream w) (Some s) [] = Some (Some l') \<and>
           consumer l' = ms \<and> issues l' = []"
proof -
  have valid: "list_all valid_item (map Frame ms)"
    using assms(3) by (auto simp: list_all_iff valid_item_def)
  have sv: "serve (collector limit) (map Frame ms) c is = (True, c @ ms, is)" for c "is"
    using assms(3) by (induction ms arbitrary: c) (auto simp: collector_def oversized_def)
  from base.listen_serves_generic [OF assms(1) valid, of fuel "collector limit" w "[]"] assms(2,4)
  show ?thesis by (auto simp: sv wire_def o_def)
qed

text \<open>C2: What \<^verbatim>\<open>WriterMsg\<close> writes, \<^verbatim>\<open>listen\<close> reads back: over a \<^verbatim>\<open>base_istream\<close> the
  call-back receives exactly the written messages, in order, and nothing is reported.\<close>

theorem listen_WriterMsg:
  assumes "std_ok s" "content s = concat (map WriterMsg ms)"
    and "list_all (\<lambda>m. int (length m) \<le> INT_MAX \<and> (limit = 0 \<or> length m \<le> limit)) ms"
    and "length ms + length (content s) + 1 < fuel"
  shows "\<exists>l'. listen fuel (collector limit) (base_istream w) (Some s) [] = Some (Some l') \<and>
           consumer l' = ms \<and> issues l' = []"
  using assms by (rule listen_reads_frames)

theorem listen_WriterMsg_witness:
  "\<exists>l'. listen 200 (collector 0) (base_istream (\<lambda>s. []))
        (Some (sample_stream (concat (map WriterMsg [''{}'', [], ''[1,2,3]''])))) [] = Some (Some l') \<and>
      consumer l' = [''{}'', [], ''[1,2,3]''] \<and> issues l' = []"
proof (rule listen_WriterMsg)
  show "length [''{}'', [], ''[1,2,3]''] +
      length (content (sample_stream (concat (map WriterMsg [''{}'', [], ''[1,2,3]''])))) + 1 < 200"
    by code_simp
qed (simp_all add: INT_MAX_def)

text \<open>C30: Input that stops inside a frame: the complete frames before it are delivered, the
  partial one never is, the loop ends and one notice says whether the header or the body was
  cut.\<close>

theorem listen_truncated:
  assumes "std_ok s" "list_all valid_item its" "int (length m) \<le> INT_MAX" "\<not> oversized P (length m)"
    and "content s = concat (map wire its) @ x" "x @ z = WriterMsg m" "z \<noteq> []"
    and "length its + length (content s) + 1 < fuel" "serve P its c [] = (True, c', is')"
  shows "\<exists>l'. listen fuel P standard_istream (Some s) c = Some (Some l') \<and> \<not> keepRunning l' \<and>
           consumer l' = c' \<and> issues l' = is' @ truncation_issue (length m) x"
  using assms by (rule standard.listen_truncated_generic)

theorem listen_truncated_witness:
  "\<exists>l'. listen 200 (collector 0) standard_istream
        (Some (sample_stream (concat (map wire [Frame ''{}'']) @ take 23 (WriterMsg ''[1,2]'')))) [] = Some (Some l') \<and>
      \<not> keepRunning l' \<and> consumer l' = [''{}''] \<and>
      issues l' = [] @ truncation_issue (length ''[1,2]'') (take 23 (WriterMsg ''[1,2]''))"
proof (rule listen_truncated [where z = "drop 23 (WriterMsg ''[1,2]'')"])
  show "list_all valid_item [Frame ''{}'']" by code_simp
  show "drop 23 (WriterMsg ''[1,2]'') \<noteq> []" by code_simp
  show "length [Frame ''{}''] +
      length (content (sample_stream (concat (map wire [Frame ''{}'']) @ take 23 (WriterMsg ''[1,2]'')))) + 1 < 200"
    by code_simp
  show "serve (collector 0) [Frame ''{}''] [] [] = (True, [''{}''], [])" by (simp add: collector_def oversized_def)
qed (simp_all add: INT_MAX_def oversized_def collector_def)

text \<open>A content length is accepted exactly when the value (up to a NUL byte) is white
  space, an optional sign, decimal digits and then only blanks or tabs, and the number lies
  between 0 and the largest \<^verbatim>\<open>int\<close>; so a body length is never negative and never wraps.\<close>

theorem parseContentLength_iff:
  "parseContentLength v = Some n \<longleftrightarrow>
     (\<exists>sp sg ds bl. c_str v = sp @ sg @ ds @ bl \<and> list_all is_c_space sp \<and> sg \<in> {[], ''+'', ''-''} \<and>
        ds \<noteq> [] \<and> list_all is_digit ds \<and> list_all (\<lambda>c. c = CHR '' '' \<or> c = TAB) bl \<and>
        n = (if sg = ''-'' then - int (digits_value ds) else int (digits_value ds)) \<and> 0 \<le> n \<and> n \<le> INT_MAX)"
  (is "?l \<longleftrightarrow> ?r")
proof
  assume ?l
  then obtain bl where bl: "strtol (c_str v) = Some (n, False, bl)" "0 \<le> n" "n \<le> INT_MAX"
    "list_all (\<lambda>c. c = CHR '' '' \<or> c = TAB) bl"
    by (auto simp: parseContentLength_def list_all_iff split: option.splits if_splits)
  from strtol_sound [OF bl(1)] bl(2-4) show ?r by blast
next
  assume ?r
  then obtain sp sg ds bl where r: "c_str v = sp @ sg @ ds @ bl" "list_all is_c_space sp" "sg \<in> {[], ''+'', ''-''}"
    "ds \<noteq> []" "list_all is_digit ds" "list_all (\<lambda>c. c = CHR '' '' \<or> c = TAB) bl"
    "n = (if sg = ''-'' then - int (digits_value ds) else int (digits_value ds))" "0 \<le> n" "n \<le> INT_MAX" by blast
  have "strtol (c_str v) = Some (n, False, bl)" unfolding r(1)
    by (rule strtol_accepts [OF r(2-7)]) (use r(8,9) in \<open>simp_all add: INT_MAX_def LONG_MIN_def LONG_MAX_def\<close>)
  with r(6,8,9) show ?l by (auto simp: parseContentLength_def list_all_iff)
qed

end
