(* ===== verification/Delimited_Framing.thy ===== *)
theory Delimited_Framing
  imports Message_Framing
begin

text \<open>
  The simplified framing of \<^verbatim>\<open>DelimitedStreamMessageProducer\<close>
  (\<^verbatim>\<open>src/jsonrpc/StreamMessageProducer.cpp\<close>): messages are separated by a line
  \<^verbatim>\<open>// -----\<close> and lines that start with \<^verbatim>\<open>//\<close> are dropped.  The lambdas \<^verbatim>\<open>readLine\<close>,
  \<^verbatim>\<open>trimWhitespace\<close> and \<^verbatim>\<open>getMessage\<close> of \<^verbatim>\<open>listen\<close> are functions of their own; the loop
  works byte by byte and refines \<open>delimit\<close>, which works line by line.  The older entry
  point \<^verbatim>\<open>handleMessage\<close> of the LSP producer, which reads one body, is here as well.
\<close>

section \<open>Model\<close>

definition is_blank :: "char \<Rightarrow> bool" where
  "is_blank c \<longleftrightarrow> c = CHR '' '' \<or> c = TAB \<or> c = CR \<or> c = LF"

definition trimWhitespace :: "string \<Rightarrow> string" where
  "trimWhitespace line = rev (dropWhile is_blank (rev (dropWhile is_blank line)))"

text \<open>
  The state checks at the head of the loop are those of \<^const>\<open>reportInputState\<close>, word for word.
\<close>

fun readLine ::
  "nat \<Rightarrow> ('s, 'z) istream_scheme \<Rightarrow> string \<Rightarrow> ('s, 'c) listener \<Rightarrow>
     (bool \<times> string \<times> ('s, 'c) listener) option" where
  "readLine fuel ops lineBuilder l =
     (if \<not> keepRunning l then Some (False, lineBuilder, l)
      else (case fuel of
        0 \<Rightarrow> None
      | Suc fuel' \<Rightarrow>
          (case reportInputState ops l of
             (False, l1) \<Rightarrow> Some (False, lineBuilder, l1)
           | (True, l1) \<Rightarrow>
               (case get ops (input l1) of
                  (None, s') \<Rightarrow> readLine fuel' ops lineBuilder (l1\<lparr>input := s', keepRunning := False\<rparr>)
                | (Some c, s') \<Rightarrow>
                    let l2 = l1\<lparr>input := s'\<rparr> in
                    if c = LF then
                      if lineBuilder \<noteq> [] then Some (True, lineBuilder @ [c], l2)
                      else readLine fuel' ops lineBuilder l2
                    else if c \<noteq> CR then readLine fuel' ops (lineBuilder @ [c]) l2
                    else readLine fuel' ops lineBuilder l2))))"

declare readLine.simps [simp del]

definition delimited_overload_text :: "nat \<Rightarrow> string" where
  "delimited_overload_text limit =
     ''Delimited frame size exceeds configured maximum '' @ to_string limit @ ''.''"

fun getMessage ::
  "nat \<Rightarrow> 'c producer \<Rightarrow> ('s, 'z) istream_scheme \<Rightarrow> string \<Rightarrow> ('s, 'c) listener \<Rightarrow>
     (bool \<times> string \<times> ('s, 'c) listener) option" where
  "getMessage 0 P ops json l = None"
| "getMessage (Suc fuel) P ops json l =
     (case readLine fuel ops [] l of
        None \<Rightarrow> None
      | Some (False, _, l1) \<Rightarrow> Some (False, json, l1)
      | Some (True, lineBuilder, l1) \<Rightarrow>
          let line = trimWhitespace lineBuilder in
          if StartsWith line ''//'' then
            if line = ''// -----'' then Some (True, json, l1)
            else getMessage fuel P ops json l1
          else
            let json1 = json @ line in
            if oversized P (length json1) then
              (case reportOverload P (delimited_overload_text (maxFrameSize P)) l1 of
                 (False, l2) \<Rightarrow> Some (False, json1, l2\<lparr>keepRunning := False\<rparr>)
               | (True, l2) \<Rightarrow> getMessage fuel P ops [] l2)
            else getMessage fuel P ops json1 l1)"

fun listenDelimited_loop ::
  "nat \<Rightarrow> 'c producer \<Rightarrow> ('s, 'z) istream_scheme \<Rightarrow> ('s, 'c) listener \<Rightarrow> ('s, 'c) listener option" where
  "listenDelimited_loop 0 P ops l = None"
| "listenDelimited_loop (Suc fuel) P ops l =
     (case getMessage fuel P ops [] l of
        None \<Rightarrow> None
      | Some (True, json, l1) \<Rightarrow>
          (case callBack P json (consumer l1) of
             (c', go) \<Rightarrow>
               listenDelimited_loop fuel P ops
                 (l1\<lparr>consumer := c', keepRunning := keepRunning l1 \<and> go\<rparr>))
      | Some (False, json, l1) \<Rightarrow> Some l1)"

definition listenDelimited ::
  "nat \<Rightarrow> 'c producer \<Rightarrow> ('s, 'z) istream_scheme \<Rightarrow> 's option \<Rightarrow> 'c \<Rightarrow>
     ('s, 'c) listener option option" where
  "listenDelimited fuel P ops inp c =
     (case inp of
        None \<Rightarrow> Some None
      | Some s \<Rightarrow>
          map_option Some
            (listenDelimited_loop fuel P ops
               \<lparr>input = s, buffer = [], keepRunning = True, issues = [], consumer = c\<rparr>))"

text \<open>\<^verbatim>\<open>LSPStreamMessageProducer::handleMessage\<close>: one body of the announced length.\<close>

definition handleMessage ::
  "'c producer \<Rightarrow> ('s, 'z) istream_scheme \<Rightarrow> headers \<Rightarrow> ('s, 'c) listener \<Rightarrow> bool \<times> ('s, 'c) listener" where
  "handleMessage P ops h l =
     (let n = nat (contentLength h);
          r = (if 0 < n then read ops n (input l) else ([], input l));
          s' = snd r;
          content = fst r @ replicate (n - length (fst r)) NUL;
          l1 = l\<lparr>input := s'\<rparr>
      in if is_bad ops s' then
           (False, handle (with_reason ''Input stream is bad.'' (what ops s')) SEVERE l1)
         else if is_eof ops s' then
           (False, handle ''No more input when reading content body'' INFO l1)
         else if is_fail ops s' then
           (False, handle (with_reason ''Input fail.'' (what ops s')) WARNING l1)
         else
           (case callBack P content (consumer l1) of
              (c', go) \<Rightarrow> (True, l1\<lparr>consumer := c', keepRunning := keepRunning l1 \<and> go\<rparr>)))"

section \<open>The contract, line by line\<close>

text \<open>
  \<open>delimit P lines json c is\<close>: what the text lines do, given the unfinished message
  \<open>json\<close>.  The result says whether the loop still runs, the unfinished message, the
  consumer and the issues.
\<close>

definition clean_line :: "string \<Rightarrow> string" where
  "clean_line r = trimWhitespace (filter (\<lambda>c. c \<noteq> CR) r)"

fun delimit ::
  "'c producer \<Rightarrow> string list \<Rightarrow> string \<Rightarrow> 'c \<Rightarrow> issue list \<Rightarrow> bool \<times> string \<times> 'c \<times> issue list" where
  "delimit P [] json c is = (True, json, c, is)"
| "delimit P (r # rs) json c is =
     (let line = clean_line r in
      if StartsWith line ''//'' then
        if line = ''// -----'' then
          (case callBack P json c of
             (c', True) \<Rightarrow> delimit P rs [] c' is
           | (c', False) \<Rightarrow> (False, [], c', is))
        else delimit P rs json c is
      else if oversized P (length (json @ line)) then
        let text = delimited_overload_text (maxFrameSize P);
            is' = is @ [(text, WARNING)]
        in (case overloadHandler P of
              None \<Rightarrow> (False, json @ line, c, is')
            | Some h \<Rightarrow> (case h text c of
                           (True, c') \<Rightarrow> delimit P rs [] c' is'
                         | (False, c') \<Rightarrow> (False, json @ line, c', is')))
      else delimit P rs (json @ line) c is)"

section \<open>The byte loop refines the line loop\<close>

locale char_source = byte_source ops rest ok
  for ops :: "('s, 'z) istream_scheme" and rest :: "'s \<Rightarrow> string" and ok :: "'s \<Rightarrow> bool" +
  assumes get_more: "ok s \<Longrightarrow> rest s = c # cs \<Longrightarrow> get ops s = (r, s') \<Longrightarrow>
            r = Some c \<and> rest s' = cs \<and> ok s'"
    and get_end: "ok s \<Longrightarrow> rest s = [] \<Longrightarrow> fst (get ops s) = None"

definition text_of :: "string list \<Rightarrow> string" where
  "text_of rs = concat (map (\<lambda>r. r @ [LF]) rs)"

lemma text_of_simps [simp]: "text_of [] = []" "text_of (r # rs) = r @ LF # text_of rs"
  by (simp_all add: text_of_def)

definition blank_line :: "string \<Rightarrow> bool" where
  "blank_line r \<longleftrightarrow> filter (\<lambda>c. c \<noteq> CR) r = []"

lemma trimWhitespace_LF: "trimWhitespace (t @ [LF]) = trimWhitespace t"
proof (cases "dropWhile is_blank t = []")
  case True
  then have "dropWhile is_blank (t @ [LF]) = []"
    by (simp add: dropWhile_append is_blank_def)
  then show ?thesis unfolding trimWhitespace_def True by simp
next
  case False
  then have "dropWhile is_blank (t @ [LF]) = dropWhile is_blank t @ [LF]"
    by (simp add: dropWhile_append)
  then show ?thesis by (simp add: trimWhitespace_def is_blank_def)
qed

lemma delimit_blank:
  "blank_line r \<Longrightarrow> \<not> oversized P (length json) \<Longrightarrow> delimit P (r # rs) json c is = delimit P rs json c is"
  by (simp add: blank_line_def clean_line_def trimWhitespace_def StartsWith_def)

lemma delimit_dropWhile:
  "\<not> oversized P (length json) \<Longrightarrow> delimit P rs json c is = delimit P (dropWhile blank_line rs) json c is"
  by (induction rs) (simp_all add: delimit_blank del: delimit.simps(2))

context char_source
begin

lemma readLine_line:
  assumes "ok (input l)" "keepRunning l" "rest (input l) = r @ LF # x" "LF \<notin> set r" "length r < fuel"
  shows "\<exists>s'. ok s' \<and> rest s' = x \<and>
     readLine fuel ops lb l =
       (if lb @ filter (\<lambda>c. c \<noteq> CR) r \<noteq> []
        then Some (True, lb @ filter (\<lambda>c. c \<noteq> CR) r @ [LF], l\<lparr>input := s'\<rparr>)
        else readLine (fuel - length r - 1) ops [] (l\<lparr>input := s'\<rparr>))"
  using assms
proof (induction r arbitrary: lb l fuel)
  case Nil
  then obtain f where f: "fuel = Suc f" by (cases fuel) auto
  obtain q s' where g: "get ops (input l) = (q, s')" by (cases "get ops (input l)")
  from get_more [OF Nil.prems(1) _ g] Nil.prems(3) have "q = Some LF" "rest s' = x" "ok s'" by auto
  with g Nil.prems reportInputState_ok [OF Nil.prems(1)] show ?case
    by (intro exI [of _ s']) (simp add: f readLine.simps [of "Suc f"] Let_def)
next
  case (Cons d r)
  then obtain f where f: "fuel = Suc f" by (cases fuel) auto
  obtain q s' where g: "get ops (input l) = (q, s')" by (cases "get ops (input l)")
  from get_more [OF Cons.prems(1) _ g] Cons.prems(3)
  have q: "q = Some d" "rest s' = r @ LF # x" "ok s'" by auto
  let ?lb = "if d = CR then lb else lb @ [d]" and ?l = "l\<lparr>input := s'\<rparr>"
  have "d \<noteq> LF" using Cons.prems(4) by auto
  then have "readLine fuel ops lb l = readLine f ops ?lb ?l"
    using g q(1) Cons.prems reportInputState_ok [OF Cons.prems(1)]
    by (simp add: f readLine.simps [of "Suc f"] Let_def)
  with Cons.IH [of ?l f ?lb] Cons.prems f q show ?case by (cases "d = CR") auto
qed

lemma readLine_eof:
  assumes "ok (input l)" "keepRunning l" "rest (input l) = []"
  shows "\<exists>s'. readLine (Suc fuel) ops lb l = Some (False, lb, l\<lparr>input := s', keepRunning := False\<rparr>)"
proof -
  obtain s' where "get ops (input l) = (None, s')"
    using get_end [OF assms(1,3)] by (cases "get ops (input l)") auto
  with assms reportInputState_ok [OF assms(1)] show ?thesis
    by (intro exI [of _ s']) (simp add: readLine.simps [of "Suc fuel"] readLine.simps [of fuel])
qed

lemma readLine_text:
  assumes "ok (input l)" "keepRunning l" "rest (input l) = text_of rs" "list_all (\<lambda>r. LF \<notin> set r) rs"
    and "length (rest (input l)) < fuel"
  shows "case dropWhile blank_line rs of
      [] \<Rightarrow> \<exists>s'. readLine fuel ops [] l = Some (False, [], l\<lparr>input := s', keepRunning := False\<rparr>)
    | r # rs' \<Rightarrow> \<exists>s'. ok s' \<and> rest s' = text_of rs' \<and>
         readLine fuel ops [] l = Some (True, filter (\<lambda>c. c \<noteq> CR) r @ [LF], l\<lparr>input := s'\<rparr>)"
  using assms
proof (induction rs arbitrary: l fuel)
  case Nil
  then obtain f where "fuel = Suc f" by (cases fuel) auto
  with Nil readLine_eof [of l f] show ?case by simp
next
  case (Cons r rs)
  from readLine_line [of l r "text_of rs" fuel "[]"] Cons.prems obtain s' where s': "ok s'" "rest s' = text_of rs"
    "readLine fuel ops [] l =
       (if filter (\<lambda>c. c \<noteq> CR) r \<noteq> [] then Some (True, filter (\<lambda>c. c \<noteq> CR) r @ [LF], l\<lparr>input := s'\<rparr>)
        else readLine (fuel - length r - 1) ops [] (l\<lparr>input := s'\<rparr>))" by auto
  show ?case
  proof (cases "blank_line r")
    case True
    with s'(3) have "readLine fuel ops [] l = readLine (fuel - length r - 1) ops [] (l\<lparr>input := s'\<rparr>)"
      by (simp add: blank_line_def)
    moreover have "length (text_of rs) < fuel - length r - 1" using Cons.prems(3,5) by simp
    ultimately show ?thesis
      using Cons.IH [of "l\<lparr>input := s'\<rparr>" "fuel - length r - 1"] Cons.prems s'(1,2) True
      by (cases "dropWhile blank_line rs") (simp_all del: dropWhile_eq_Nil_conv)
  next
    case False
    with s' show ?thesis by (auto simp: blank_line_def)
  qed
qed

text \<open>The rest of \<^const>\<open>listenDelimited_loop\<close> once a message has been begun.\<close>

definition resume :: "nat \<Rightarrow> nat \<Rightarrow> 'c producer \<Rightarrow> string \<Rightarrow> ('s, 'c) listener \<Rightarrow> ('s, 'c) listener option" where
  "resume fo fi P json l =
     (case getMessage fi P ops json l of
        None \<Rightarrow> None
      | Some (True, json, l1) \<Rightarrow>
          (case callBack P json (consumer l1) of
             (c', go) \<Rightarrow>
               listenDelimited_loop fo P ops (l1\<lparr>consumer := c', keepRunning := keepRunning l1 \<and> go\<rparr>))
      | Some (False, json, l1) \<Rightarrow> Some l1)"

lemma listenDelimited_loop_resume: "listenDelimited_loop (Suc f) P ops l = resume f f P [] l"
  by (simp add: resume_def)

lemma resume_stopped: "\<not> keepRunning l \<Longrightarrow> resume f (Suc f') P [] l = Some l"
  by (simp add: resume_def readLine.simps)

definition delimit_result where
  "delimit_result res st \<longleftrightarrow>
     (\<exists>l'. res = Some l' \<and> \<not> keepRunning l' \<and>
        (case st of (go, json, c, iss) \<Rightarrow> consumer l' = c \<and> issues l' = iss))"

lemma resume_delimits:
  assumes "ok (input l)" "keepRunning l" "rest (input l) = text_of rs" "list_all (\<lambda>r. LF \<notin> set r) rs"
    and "\<not> oversized P (length json)"
    and "length (rest (input l)) + 1 < fi" "length (rest (input l)) + 2 < fo"
  shows "delimit_result (resume fo fi P json l) (delimit P rs json (consumer l) (issues l))"
  using assms
proof (induction "length rs" arbitrary: rs json l fi fo rule: less_induct)
  case less
  obtain f where f: "fi = Suc f" "length (rest (input l)) < f" using less.prems(6) by (cases fi) auto
  obtain g where g: "fo = Suc g" "length (rest (input l)) + 1 < g" using less.prems(7) by (cases fo) auto
  note dw = delimit_dropWhile [OF less.prems(5), of rs "consumer l" "issues l"]
  note rl = readLine_text [OF less.prems(1,2,3,4) f(2)]
  show ?case
  proof (cases "dropWhile blank_line rs")
    case Nil
    with rl dw show ?thesis by (auto simp: f resume_def delimit_result_def)
  next
    case (Cons r rs')
    with rl obtain s' where s': "ok s'" "rest s' = text_of rs'"
      "readLine f ops [] l = Some (True, filter (\<lambda>c. c \<noteq> CR) r @ [LF], l\<lparr>input := s'\<rparr>)" by auto
    let ?l = "l\<lparr>input := s'\<rparr>"
    have len: "length rs' < length rs" using Cons length_dropWhile_le [of blank_line rs] by simp
    have "length (text_of (dropWhile blank_line rs)) \<le> length (text_of rs)"
      by (induction rs) auto
    then have short: "length (rest s') < length (rest (input l))" using Cons s'(2) less.prems(3) by simp
    have clean: "list_all (\<lambda>r. LF \<notin> set r) rs'"
      using Cons less.prems(4) set_dropWhileD [of _ blank_line rs] by (fastforce simp: list_all_iff)
    have ih: "delimit_result (resume fo' fi' P json' l') (delimit P rs' json' (consumer l') (issues l'))"
      if "input l' = s'" "keepRunning l'" "\<not> oversized P (length json')"
        "length (rest s') + 1 < fi'" "length (rest s') + 2 < fo'" for fo' fi' json' l'
      by (rule less.hyps [OF len]) (use that s' clean in auto)
    have line: "trimWhitespace (filter (\<lambda>c. c \<noteq> CR) r @ [LF]) = clean_line r"
      by (simp add: clean_line_def trimWhitespace_LF)
    note gm = f(1) resume_def s'(3) line Let_def
    consider (sep) "clean_line r = ''// -----''"
      | (comment) "StartsWith (clean_line r) ''//''" "clean_line r \<noteq> ''// -----''"
      | (big) "\<not> StartsWith (clean_line r) ''//''" "oversized P (length (json @ clean_line r))"
      | (more) "\<not> StartsWith (clean_line r) ''//''" "\<not> oversized P (length (json @ clean_line r))"
      by blast
    then show ?thesis
    proof cases
      case sep
      obtain c' go where cb: "callBack P json (consumer l) = (c', go)" by (cases "callBack P json (consumer l)")
      let ?l2 = "?l\<lparr>consumer := c', keepRunning := go\<rparr>"
      have sw: "StartsWith ''// -----'' ''//''" by (simp add: StartsWith_def)
      have "resume fo fi P json l = resume g g P [] ?l2"
        using sep cb sw less.prems(2) by (simp add: gm g(1) listenDelimited_loop_resume)
      moreover obtain g' where "g = Suc g'" using g(2) by (cases g) auto
      moreover have "\<not> oversized P (length [])" by (simp add: oversized_def)
      ultimately show ?thesis
        using ih [of ?l2 "[]" g g] resume_stopped [of ?l2 g g'] dw Cons sep cb sw g(2) short
        by (cases go) (auto simp: delimit_result_def)
    next
      case comment
      then have "resume fo fi P json l = resume fo f P json ?l" by (simp add: gm)
      with ih [of ?l json f fo] dw Cons comment less.prems f short show ?thesis by simp
    next
      case more
      then have "resume fo fi P json l = resume fo f P (json @ clean_line r) ?l" by (simp add: gm)
      with ih [of ?l "json @ clean_line r" f fo] dw Cons more less.prems f short show ?thesis by simp
    next
      case big
      define ot where "ot = delimited_overload_text (maxFrameSize P)"
      define iss where "iss = issues l @ [(ot, WARNING)]"
      obtain go c' where r: "(case overloadHandler P of None \<Rightarrow> (False, consumer l) | Some h \<Rightarrow> h ot (consumer l)) = (go, c')"
        by (cases "case overloadHandler P of None \<Rightarrow> (False, consumer l) | Some h \<Rightarrow> h ot (consumer l)")
      let ?l2 = "?l\<lparr>issues := iss, consumer := c'\<rparr>"
      have ro: "reportOverload P ot ?l = (go, ?l2)"
        using r by (cases l) (auto simp: reportOverload_def handle_def iss_def split: option.splits)
      have rs: "resume fo fi P json l =
          (if go then resume fo f P [] ?l2 else Some (?l2\<lparr>keepRunning := False\<rparr>))"
        using big ro by (simp add: gm ot_def)
      have dl: "delimit P rs json (consumer l) (issues l) =
          (if go then delimit P rs' [] c' iss else (False, json @ clean_line r, c', iss))"
        using big r dw Cons by (auto simp: ot_def iss_def Let_def split: option.splits)
      have "\<not> oversized P (length [])" by (simp add: oversized_def)
      with ih [of ?l2 "[]" f fo] rs dl less.prems f short show ?thesis
        by (cases go) (auto simp: delimit_result_def)
    qed
  qed
qed

lemma listenDelimited_generic:
  assumes "ok s" "rest s = text_of rs" "list_all (\<lambda>r. LF \<notin> set r) rs" "length (rest s) + 3 < fuel"
  shows "\<exists>l' go json. listenDelimited fuel P ops (Some s) c = Some (Some l') \<and> \<not> keepRunning l' \<and>
           delimit P rs [] c [] = (go, json, consumer l', issues l')"
proof -
  let ?l = "\<lparr>input = s, buffer = [], keepRunning = True, issues = [], consumer = c\<rparr>"
  obtain f where f: "fuel = Suc f" using assms(4) by (cases fuel) auto
  have "delimit_result (resume f f P [] ?l) (delimit P rs [] (consumer ?l) (issues ?l))"
    by (rule resume_delimits) (use assms f in \<open>auto simp: oversized_def\<close>)
  then show ?thesis
    by (cases "delimit P rs [] c []")
      (auto simp: f listenDelimited_def delimit_result_def listenDelimited_loop_resume
        simp del: listenDelimited_loop.simps)
qed

end

interpretation base: char_source "base_istream w" content std_ok
  by unfold_locales
    (auto simp: base_istream_def std_ok_def std_stream_defs split: if_splits list.splits)

interpretation standard: char_source standard_istream content std_ok
  by unfold_locales
    (auto simp: standard_istream_defs std_ok_def std_stream_defs split: if_splits list.splits)

section \<open>Properties\<close>

text \<open>C31: The byte-wise loop of the delimited producer ends and does what the line-wise
  specification says: lines are trimmed, comment lines dropped, the text up to each
  \<^verbatim>\<open>// -----\<close> line is one message, and a message that outgrows the limit is reported and
  either skipped or ends the loop.\<close>

theorem listenDelimited_refines_delimit:
  assumes "std_ok s" "content s = text_of rs" "list_all (\<lambda>r. LF \<notin> set r) rs" "length (content s) + 3 < fuel"
  shows "\<exists>l' go json. listenDelimited fuel P standard_istream (Some s) c = Some (Some l') \<and> \<not> keepRunning l' \<and>
           delimit P rs [] c [] = (go, json, consumer l', issues l')"
  using assms by (rule standard.listenDelimited_generic)

theorem listenDelimited_refines_delimit_witness:
  "\<exists>l' go json. listenDelimited 100 (collector 0) standard_istream
        (Some (sample_stream (text_of [''{ '', ''// a note'', '' 1}'', ''// -----'', ''{}'']))) [] = Some (Some l') \<and>
      \<not> keepRunning l' \<and>
      delimit (collector 0) [''{ '', ''// a note'', '' 1}'', ''// -----'', ''{}''] [] [] [] =
        (go, json, consumer l', issues l')"
  by (rule listenDelimited_refines_delimit) simp_all

lemma listenDelimited_sample:
  "delimit (collector 0) [''{ '', ''// a note'', '' 1}'', ''// -----'', ''{}''] [] [] [] =
     (True, ''{}'', [''{1}''], [])"
  by code_simp

text \<open>\<^verbatim>\<open>handleMessage\<close> hands over exactly the announced number of bytes when they are
  there, and otherwise hands over nothing and reports the end of the input.\<close>

theorem handleMessage_standard:
  assumes "std_ok (input l)"
  shows "handleMessage P standard_istream h l =
    (let n = nat (contentLength h); r = callBack P (take n (content (input l))) (consumer l)
     in if n \<le> length (content (input l))
        then (True, l\<lparr>input := (input l)\<lparr>content := drop n (content (input l))\<rparr>,
                      consumer := fst r, keepRunning := keepRunning l \<and> snd r\<rparr>)
        else (False, l\<lparr>input := (input l)\<lparr>content := [], eofbit := True, failbit := True\<rparr>,
                       issues := issues l @ [(''No more input when reading content body'', INFO)]\<rparr>))"
proof (cases "nat (contentLength h) = 0")
  case True
  with assms show ?thesis
    by (simp add: handleMessage_def Let_def standard_istream_defs std_ok_def std_stream_defs split: prod.splits)
next
  case False
  with assms show ?thesis
    by (simp add: handleMessage_def Let_def standard_istream_defs std_ok_def std_stream_defs handle_def min_def
        split: prod.splits)
qed

theorem handleMessage_standard_witness:
  "handleMessage (collector 0) standard_istream \<lparr>contentLength = 2, charset = []\<rparr>
     \<lparr>input = sample_stream ''{}x'', buffer = [], keepRunning = True, issues = [], consumer = []\<rparr> =
   (True, \<lparr>input = sample_stream ''x'', buffer = [], keepRunning = True, issues = [], consumer = [''{}'']\<rparr>)"
  using handleMessage_standard
    [of "\<lparr>input = sample_stream ''{}x'', buffer = [], keepRunning = True, issues = [], consumer = []\<rparr>"
       "collector 0" "\<lparr>contentLength = 2, charset = []\<rparr>"]
  by (simp add: collector_def sample_stream_def std_ok_def std_good_def Let_def numeral_2_eq_2)

end
