(* ===== verification/Framing_Totality.thy ===== *)
theory Framing_Totality
  imports Message_Framing
begin

text \<open>
  The reading loop on arbitrary input: whatever bytes arrive, each round of the loop uses up a header
  block, so that it stops after at most one round a byte.  The lemmas are proved once for every stream
  that keeps the contract of \<^verbatim>\<open>byte_source\<close>.
\<close>

lemma findHeaderEnd_bounds: "findHeaderEnd b = Some (e, d) \<Longrightarrow> 0 < d \<and> e + d \<le> length b"
  using str_find_bound [of "[CR, LF, CR, LF]" b 0] str_find_bound [of "[LF, LF]" b 0]
  by (auto simp: findHeaderEnd_def Let_def split: option.splits if_splits)

context byte_source
begin

text \<open>The bytes that are still to be looked at.\<close>

definition ahead :: "('s, 'c) listener \<Rightarrow> nat" where
  "ahead l = length (buffer l) + length (rest (input l))"

lemma awaitHeader_total:
  assumes "ok (input l)" "keepRunning l" "length (rest (input l)) < fuel"
  shows "(\<exists>l'. awaitHeader fuel ops l = Some (HeaderReturn l') \<and> \<not> keepRunning l') \<or>
    (\<exists>e d l'. awaitHeader fuel ops l = Some (HeaderFound e d l') \<and> keepRunning l' \<and> ok (input l') \<and>
       ahead l' = ahead l \<and> length (rest (input l')) \<le> length (rest (input l)) \<and> findHeaderEnd (buffer l') = Some (e, d))"
  using assms
proof (induction fuel arbitrary: l)
  case (Suc fuel)
  show ?case
  proof (cases "findHeaderEnd (buffer l)")
    case (Some r)
    with Suc.prems show ?thesis by (cases r) (simp add: awaitHeader.simps [of "Suc fuel"])
  next
    case none: None
    show ?thesis
    proof (cases "rest (input l) = []")
      case True
      obtain s' where "read_some ops CHUNK (input l) = ([], s')"
        using read_some_end [OF Suc.prems(1) True, of CHUNK] by (cases "read_some ops CHUNK (input l)") auto
      with none Suc.prems(2) show ?thesis
        by (simp add: awaitHeader.simps [of "Suc fuel"] readMore_def handle_def Let_def)
    next
      case False
      from readMore_more [OF Suc.prems(1) False] obtain bs s' where bs: "bs \<noteq> []"
        "rest (input l) = bs @ rest s'" "ok s'"
        "readMore ops l = (True, l\<lparr>input := s', buffer := buffer l @ bs\<rparr>)" by blast
      let ?l = "l\<lparr>input := s', buffer := buffer l @ bs\<rparr>"
      have short: "length (rest s') < fuel" using bs(1,2) Suc.prems(3) by (cases bs) auto
      have "awaitHeader (Suc fuel) ops l = awaitHeader fuel ops ?l"
        using none bs Suc.prems(2) reportInputState_ok [of ?l] by (simp add: awaitHeader.simps [of "Suc fuel"])
      moreover have "ahead ?l = ahead l" "length (rest (input ?l)) \<le> length (rest (input l))"
        using bs(2) by (simp_all add: ahead_def)
      moreover note Suc.IH [of ?l]
      ultimately show ?thesis using Suc.prems(2) bs(3) short by fastforce
    qed
  qed
qed simp

lemma discardBytes_short:
  assumes "ok (input l)" "length (rest (input l)) < n"
  shows "fst (discardBytes ops n l) = False"
  using assms
proof (induction n arbitrary: l rule: less_induct)
  case (less n)
  let ?k = "min n CHUNK"
  obtain bs s1 where r: "read ops ?k (input l) = (bs, s1)" by (cases "read ops ?k (input l)")
  show ?case
  proof (cases "?k \<le> length (rest (input l))")
    case True
    from read_all [OF less.prems(1) True r] have s1: "rest s1 = drop ?k (rest (input l))" "ok s1" by auto
    have "n - ?k < n" using less.prems(2) by (simp add: CHUNK_def)
    then have "fst (discardBytes ops (n - ?k) (l\<lparr>input := s1\<rparr>)) = False"
      using less.IH [of "n - ?k" "l\<lparr>input := s1\<rparr>"] s1 less.prems(2) True by auto
    with r s1(2) less.prems(2) show ?thesis
      by (simp add: discardBytes.simps [of ops n l] Let_def ok_not_bad ok_not_fail ok_not_eof)
  next
    case False
    with read_short [OF less.prems(1) _ r] r less.prems(2) show ?thesis
      by (simp add: discardBytes.simps [of ops n l] Let_def)
  qed
qed

lemma discardBytes_True:
  assumes "ok (input l)" "discardBytes ops n l = (True, l')"
  shows "ok (input l') \<and> keepRunning l' = keepRunning l \<and> ahead l' \<le> ahead l"
proof -
  have "n \<le> length (rest (input l))" using discardBytes_short [OF assms(1), of n] assms(2) by (cases "length (rest (input l)) < n") auto
  from discardBytes_ok [OF assms(1) this] assms(2) show ?thesis by (auto simp: ahead_def)
qed

lemma readBody_True:
  assumes "ok (input l)" "readBody ops n l = (True, l')"
  shows "ok (input l') \<and> keepRunning l' = keepRunning l \<and> ahead l' \<le> ahead l"
proof (cases "length (buffer l) < n")
  case False
  with assms show ?thesis by (simp add: readBody_def)
next
  case True
  let ?k = "n - length (buffer l)"
  obtain bs s' where r: "read ops ?k (input l) = (bs, s')" by (cases "read ops ?k (input l)")
  have k: "?k \<le> length (rest (input l))"
  proof (rule ccontr)
    assume "\<not> ?k \<le> length (rest (input l))"
    with read_short [OF assms(1) _ r] assms(2) True r show False by (simp add: readBody_def Let_def)
  qed
  from read_all [OF assms(1) k r] have s': "bs = take ?k (rest (input l))" "rest s' = drop ?k (rest (input l))" "ok s'" by auto
  with assms(2) True r k show ?thesis
    by (auto simp: readBody_def Let_def ok_not_bad ok_not_fail ok_not_eof ahead_def)
qed

text \<open>A round that goes on has used up a header block.\<close>

lemma handleFrame_total:
  assumes "ok (input l)" "keepRunning l" "findHeaderEnd (buffer l) = Some (e, d)"
  shows "(\<exists>l'. handleFrame P ops e d l = Return l' \<and> \<not> keepRunning l') \<or>
    (\<exists>l'. handleFrame P ops e d l = Continue l' \<and> ok (input l') \<and> ahead l' < ahead l)"
proof -
  let ?l = "l\<lparr>buffer := drop (e + d) (buffer l)\<rparr>"
  let ?h = "parseHeaderBlock (substr 0 e (buffer l)) Headers"
  let ?n = "nat (contentLength ?h)"
  have less: "ahead ?l < ahead l" using findHeaderEnd_bounds [OF assms(3)] by (auto simp: ahead_def)
  have oki: "ok (input ?l)" using assms(1) by simp
  consider (none) "contentLength ?h < 0" | (big) "\<not> contentLength ?h < 0" "oversized P ?n"
    | (body) "\<not> contentLength ?h < 0" "\<not> oversized P ?n" by blast
  then show ?thesis
  proof cases
    case none
    with less assms(1) show ?thesis by (simp add: handleFrame_def handle_def ahead_def Let_def)
  next
    case big
    obtain go l1 where o: "reportOverload P (overload_text ?n (maxFrameSize P)) ?l = (go, l1)" by force
    have l1: "input l1 = input l" "buffer l1 = drop (e + d) (buffer l)" "keepRunning l1 = keepRunning l"
      using o by (auto simp: reportOverload_def handle_def Let_def split: option.splits prod.splits)
    let ?b = "min (length (buffer l1)) ?n"
    let ?l2 = "l1\<lparr>buffer := drop ?b (buffer l1)\<rparr>"
    have l2: "ok (input ?l2)" "ahead ?l2 < ahead l" using l1 assms(1) less by (auto simp: ahead_def)
    obtain g l3 where db: "discardBytes ops (?n - ?b) ?l2 = (g, l3)" by force
    have "g \<Longrightarrow> ok (input l3) \<and> ahead l3 < ahead l"
      using discardBytes_True [OF l2(1), of "?n - ?b" l3] db l2(2) by auto
    with big o l2 db show ?thesis
      by (cases go; cases g; cases "?n - ?b = 0") (simp_all add: handleFrame_def Let_def)
  next
    case body
    obtain g l1 where rb: "readBody ops ?n ?l = (g, l1)" by force
    show ?thesis
    proof (cases g)
      case True
      with readBody_True [OF oki, of ?n l1] rb have l1: "ok (input l1)" "ahead l1 < ahead l" using less by auto
      then have "ahead (l1\<lparr>buffer := drop ?n (buffer l1), consumer := c, keepRunning := k\<rparr>) < ahead l" for c k
        by (simp add: ahead_def)
      with True body rb l1(1) show ?thesis by (simp add: handleFrame_def Let_def ahead_def)
    next
      case False
      then have "\<not> keepRunning l1" using rb by (auto simp: readBody_def Let_def split: if_splits)
      with False body rb show ?thesis by (simp add: handleFrame_def Let_def)
    qed
  qed
qed

lemma listen_loop_total:
  assumes "ok (input l)" "ahead l + 1 < fuel"
  shows "\<exists>l'. listen_loop fuel P ops l = Some l' \<and> \<not> keepRunning l'"
  using assms
proof (induction fuel arbitrary: l)
  case (Suc fuel)
  show ?case
  proof (cases "keepRunning l")
    case True
    have "length (rest (input l)) < fuel" using Suc.prems(2) by (simp add: ahead_def)
    note start = reportInputState_ok [OF Suc.prems(1)] True listen_loop.simps [of "Suc fuel"]
    from awaitHeader_total [OF Suc.prems(1) True \<open>length (rest (input l)) < fuel\<close>]
    show ?thesis
    proof (elim disjE exE conjE)
      fix l'
      assume "awaitHeader fuel ops l = Some (HeaderReturn l')" "\<not> keepRunning l'"
      then show ?thesis by (simp add: start)
    next
      fix e d l'
      assume f: "awaitHeader fuel ops l = Some (HeaderFound e d l')" "keepRunning l'" "ok (input l')"
        "ahead l' = ahead l" "findHeaderEnd (buffer l') = Some (e, d)"
      from handleFrame_total [OF f(3,2,5), of P] show ?thesis
      proof (elim disjE exE conjE)
        fix l3
        assume "handleFrame P ops e d l' = Continue l3" "ok (input l3)" "ahead l3 < ahead l'"
        with Suc.IH [of l3] Suc.prems(2) f show ?thesis by (simp add: start)
      qed (simp add: start f)
    qed
  qed (simp add: listen_loop.simps [of "Suc fuel"])
qed simp

lemma listen_total:
  assumes "ok s" "length (rest s) + 1 < fuel"
  shows "\<exists>l'. listen fuel P ops (Some s) c = Some (Some l') \<and> \<not> keepRunning l'"
  using listen_loop_total [of "\<lparr>input = s, buffer = [], keepRunning = True, issues = [], consumer = c\<rparr>" fuel P] assms
  by (auto simp: listen_def ahead_def)

end

text \<open>C13: The reading loop ends on every input: whatever bytes a stream holds, whatever the limits are and whatever the
  call-back and the overload handler do, \<^verbatim>\<open>listen\<close> returns, and it does so after at most as many rounds as
  there are bytes, over either of the two stream classes.
\<close>

theorem listen_terminates:
  assumes "std_ok t" "length (content t) + 1 < fuel"
  shows "(\<exists>l'. listen fuel P standard_istream (Some t) c = Some (Some l') \<and> \<not> keepRunning l')
    \<and> (\<exists>l'. listen fuel P (base_istream w) (Some t) c = Some (Some l') \<and> \<not> keepRunning l')"
  by (intro conjI standard.listen_total base.listen_total assms)

theorem listen_terminates_witness:
  "\<exists>l'. listen 40 (collector 3) standard_istream (Some (sample_stream ''GET / HTTP/1.1'')) [] = Some (Some l') \<and> \<not> keepRunning l'"
proof -
  have "length (content (sample_stream ''GET / HTTP/1.1'')) + 1 < (40::nat)" by simp
  from listen_terminates [OF sample_stream_ok(1) this, of "collector 3" "[]" "\<lambda>s. []"] show ?thesis by blast
qed

end
