(* ===== verification/Text_Position.thy ===== *)
theory Text_Position
  imports Lsp_Prelude
begin

text \<open>
  Positions in text: \<^verbatim>\<open>lsPosition\<close> and \<^verbatim>\<open>lsRange\<close> (\<^verbatim>\<open>src/lsp/lsp.cpp\<close>), the conversions
  between a byte offset and a position (\<^verbatim>\<open>src/lsp/utils.cpp\<close>) and their variants by
  encoding (\<^verbatim>\<open>src/lsp/offset_encoding.cpp\<close>).  A position has 32-bit unsigned fields, a text is
  a byte string in UTF-8; characters are counted in UTF-16 code units.  The index
  variable of a C++ loop is represented by the part of the text that is still ahead
  together with the index itself.
\<close>

section \<open>Positions and ranges\<close>

type_synonym u32 = "32 word"

record lsPosition =
  line :: u32
  character :: u32

definition kZeroPosition :: lsPosition where
  "kZeroPosition = \<lparr>line = 0, character = 0\<rparr>"

text \<open>The constructor from two \<^verbatim>\<open>int\<close> values: negative ones become 0.\<close>

definition make_lsPosition :: "int \<Rightarrow> int \<Rightarrow> lsPosition" where
  "make_lsPosition l c =
     \<lparr>line = (if l < 0 then 0 else word_of_int l), character = (if c < 0 then 0 else word_of_int c)\<rparr>"

definition lsPosition_eq :: "lsPosition \<Rightarrow> lsPosition \<Rightarrow> bool" where
  "lsPosition_eq a b \<longleftrightarrow> line a = line b \<and> character a = character b"

definition lsPosition_less :: "lsPosition \<Rightarrow> lsPosition \<Rightarrow> bool" where
  "lsPosition_less a b \<longleftrightarrow> (if line a \<noteq> line b then line a < line b else character a < character b)"

definition lsPosition_ToString :: "lsPosition \<Rightarrow> string" where
  "lsPosition_ToString p = to_string (unat (line p)) @ '':'' @ to_string (unat (character p))"

record lsRange =
  range_start :: lsPosition
  range_end :: lsPosition

definition lsRange_eq :: "lsRange \<Rightarrow> lsRange \<Rightarrow> bool" where
  "lsRange_eq a b \<longleftrightarrow>
     lsPosition_eq (range_start a) (range_start b) \<and> lsPosition_eq (range_end a) (range_end b)"

definition lsRange_less :: "lsRange \<Rightarrow> lsRange \<Rightarrow> bool" where
  "lsRange_less a b \<longleftrightarrow>
     (if \<not> lsPosition_eq (range_start a) (range_start b)
      then lsPosition_less (range_start a) (range_start b)
      else lsPosition_less (range_end a) (range_end b))"

definition lsRange_ToString :: "lsRange \<Rightarrow> string" where
  "lsRange_ToString r =
     ''start:'' @ lsPosition_ToString (range_start r) @ [LF] @
     ''end'' @ lsPosition_ToString (range_end r) @ [LF]"

section \<open>Offsets\<close>

text \<open>The cast of a \<^verbatim>\<open>size_t\<close> to \<^verbatim>\<open>int\<close>.\<close>

definition int_cast :: "nat \<Rightarrow> int" where
  "int_cast n = sint (of_nat n :: 32 word)"

definition is_continuation :: "char \<Rightarrow> bool" where
  "is_continuation c \<longleftrightarrow> 128 \<le> byte_of c \<and> byte_of c < 192"

text \<open>The loop that skips \<open>ln\<close> lines.\<close>

fun skip_lines :: "u32 \<Rightarrow> string \<Rightarrow> nat \<Rightarrow> nat" where
  "skip_lines ln [] i = i"
| "skip_lines ln (c # cs) i =
     (if 0 < ln then skip_lines (if c = LF then ln - 1 else ln) cs (Suc i) else i)"

text \<open>UTF-16 code units of the code point with the given lead byte.\<close>

definition units_of :: "char \<Rightarrow> u32" where
  "units_of lead = (if byte_of lead \<ge> 0xF0 then 2 else 1)"

text \<open>The loop that skips \<open>ch\<close> UTF-16 code units, one code point per iteration.\<close>

function skip_chars :: "u32 \<Rightarrow> string \<Rightarrow> nat \<Rightarrow> nat" where
  "skip_chars ch [] i = i"
| "skip_chars ch (lead # cs) i =
     (if 0 < ch then
        let tail = (if byte_of lead \<ge> 128 then takeWhile is_continuation cs else []);
            units = units_of lead
        in skip_chars (ch - (if ch < units then ch else units)) (drop (length tail) cs)
             (Suc i + length tail)
      else i)"
  by pat_completeness auto
termination
  by (relation "measure (\<lambda>(ch, cs, i). length cs)") auto

definition GetOffsetForPosition :: "lsPosition \<Rightarrow> string \<Rightarrow> int" where
  "GetOffsetForPosition position content =
     (let i = skip_lines (line position) content 0
      in int_cast (skip_chars (character position) (drop i content) i))"

text \<open>The body of the loop of \<^verbatim>\<open>GetPositionForOffset\<close> for one byte.\<close>

definition count_byte :: "char \<Rightarrow> lsPosition \<Rightarrow> lsPosition" where
  "count_byte c r =
     (if c = LF then \<lparr>line = line r + 1, character = 0\<rparr>
      else if byte_of c < 128 \<or> byte_of c \<ge> 192 then r\<lparr>character := character r + units_of c\<rparr>
      else r)"

definition GetPositionForOffset :: "nat \<Rightarrow> string \<Rightarrow> lsPosition" where
  "GetPositionForOffset offset content = fold count_byte (take offset content) kZeroPosition"

datatype OffsetEncoding = Utf16 | Utf8

definition GetOffsetForPositionWithEncoding :: "lsPosition \<Rightarrow> string \<Rightarrow> OffsetEncoding \<Rightarrow> int" where
  "GetOffsetForPositionWithEncoding position content encoding =
     (if encoding = Utf16 then GetOffsetForPosition position content
      else int_cast (skip_lines (line position) content 0 + unat (character position)))"

text \<open>The loop keeps the line and the offset at which the line starts.\<close>

fun byte_position_loop :: "string \<Rightarrow> nat \<Rightarrow> u32 \<Rightarrow> nat \<Rightarrow> u32 \<times> nat" where
  "byte_position_loop [] i ln line_start = (ln, line_start)"
| "byte_position_loop (c # cs) i ln line_start =
     (if c = LF then byte_position_loop cs (Suc i) (ln + 1) (i + 1)
      else byte_position_loop cs (Suc i) ln line_start)"

definition GetPositionForOffsetWithEncoding :: "nat \<Rightarrow> string \<Rightarrow> OffsetEncoding \<Rightarrow> lsPosition" where
  "GetPositionForOffsetWithEncoding offset content encoding =
     (if encoding = Utf16 then GetPositionForOffset offset content
      else (case byte_position_loop (take offset content) 0 0 0 of
              (ln, line_start) \<Rightarrow> \<lparr>line = ln, character = of_nat (offset - line_start)\<rparr>))"

text \<open>\<^verbatim>\<open>CharPos\<close>: the position of a byte, with the assertion that it occurs.\<close>

definition CharPos :: "string \<Rightarrow> char \<Rightarrow> int \<Rightarrow> lsPosition option" where
  "CharPos search c character_offset =
     (let seen = takeWhile (\<lambda>x. x \<noteq> c) search;
          r = fold (\<lambda>x r. if x = LF then \<lparr>line = line r + 1, character = 0\<rparr>
                          else r\<lparr>character := character r + 1\<rparr>) seen kZeroPosition
      in if length seen < length search
         then Some (r\<lparr>character := character r + word_of_int character_offset\<rparr>)
         else None)"

section \<open>Counting lines and code units\<close>

text \<open>
  \<open>nl\<close> counts line ends, \<open>units\<close> counts UTF-16 code units, both as natural numbers.
  \<open>wf_text b cs\<close> says that a continuation byte only follows a byte with the high bit set
  (\<open>b\<close>: the byte before \<open>cs\<close> has it), which every UTF-8 text satisfies.
\<close>

definition nl :: "string \<Rightarrow> nat" where
  "nl s = count_list s LF"

definition unit_count :: "char \<Rightarrow> nat" where
  "unit_count c = (if is_continuation c then 0 else if byte_of c \<ge> 0xF0 then 2 else 1)"

definition units :: "string \<Rightarrow> nat" where
  "units s = sum_list (map unit_count s)"

fun wf_text :: "bool \<Rightarrow> string \<Rightarrow> bool" where
  "wf_text b [] \<longleftrightarrow> True"
| "wf_text b (c # cs) \<longleftrightarrow> (is_continuation c \<longrightarrow> b) \<and> wf_text (128 \<le> byte_of c) cs"

text \<open>The offset at which line \<open>k\<close> starts, or the end of the text.\<close>

fun line_start :: "nat \<Rightarrow> string \<Rightarrow> nat" where
  "line_start k [] = 0"
| "line_start k (c # cs) = (if k = 0 then 0 else Suc (line_start (if c = LF then k - 1 else k) cs))"

text \<open>The text of the last, unfinished line.\<close>

definition last_line :: "string \<Rightarrow> string" where
  "last_line s = rev (takeWhile (\<lambda>c. c \<noteq> LF) (rev s))"

lemma nl_simps [simp]: "nl [] = 0" "nl (c # cs) = (if c = LF then Suc (nl cs) else nl cs)" "nl (a @ b) = nl a + nl b"
  by (simp_all add: nl_def)

lemma nl_zero: "nl s = 0 \<longleftrightarrow> LF \<notin> set s"
  by (simp add: nl_def count_list_0_iff)

lemma units_simps [simp]: "units [] = 0" "units (c # cs) = unit_count c + units cs" "units (a @ b) = units a + units b"
  by (simp_all add: units_def)

lemma units_le: "units s \<le> 2 * length s"
  by (induction s) (auto simp: unit_count_def)

lemma last_line_no_LF: "LF \<notin> set (last_line s)"
  by (auto simp: last_line_def dest: set_takeWhileD)

lemma split_last_line:
  obtains pre where "s = pre @ last_line s" "pre = [] \<or> last pre = LF"
proof
  let ?pre = "rev (dropWhile (\<lambda>c. c \<noteq> LF) (rev s))"
  show "s = ?pre @ last_line s"
    by (metis last_line_def rev_append rev_rev_ident takeWhile_dropWhile_id)
  show "?pre = [] \<or> last ?pre = LF"
    by (cases "dropWhile (\<lambda>c. c \<noteq> LF) (rev s)") (auto dest: dropWhile_eq_Cons_conv [THEN iffD1])
qed

lemma last_line_snoc: "last_line (s @ [c]) = (if c = LF then [] else last_line s @ [c])"
  by (simp add: last_line_def)

lemma last_line_append: "LF \<notin> set b \<Longrightarrow> last_line (a @ b) = last_line a @ b"
  by (induction b rule: rev_induct) (auto simp: last_line_snoc simp flip: append_assoc)

lemma GetPositionForOffset_fold:
  "fold count_byte s kZeroPosition = \<lparr>line = of_nat (nl s), character = of_nat (units (last_line s))\<rparr>"
proof (induction s rule: rev_induct)
  case Nil
  then show ?case by (simp add: kZeroPosition_def last_line_def)
next
  case (snoc c s)
  have "units_of c = of_nat (unit_count c)" if "\<not> is_continuation c"
    using that by (auto simp: units_of_def unit_count_def)
  moreover have "byte_of c < 128 \<or> byte_of c \<ge> 192 \<longleftrightarrow> \<not> is_continuation c"
    by (auto simp: is_continuation_def)
  ultimately show ?case using snoc
    by (auto simp: count_byte_def last_line_snoc unit_count_def)
qed

lemma skip_lines_eq: "k < 2 ^ 32 \<Longrightarrow> skip_lines (of_nat k) s i = i + line_start k s"
proof (induction s arbitrary: k i)
  case Nil
  then show ?case by simp
next
  case (Cons c s)
  show ?case
  proof (cases k)
    case 0
    then show ?thesis by simp
  next
    case (Suc m)
    have "unat (of_nat k :: u32) = k" using Cons.prems by (simp add: unat_of_nat take_bit_nat_eq_self)
    then have pos: "(0 :: u32) < of_nat k" using Suc by (simp add: word_less_nat_alt del: of_nat_Suc)
    have "(of_nat k :: u32) - 1 = of_nat m" using Suc by simp
    with pos Suc Cons.IH [of m "Suc i"] Cons.IH [of k "Suc i"] Cons.prems show ?thesis
      by (simp del: of_nat_Suc)
  qed
qed

lemma line_start_le: "line_start k s \<le> length s"
  by (induction k s rule: line_start.induct) auto

lemma line_start_zero [simp]: "line_start 0 s = 0"
  by (cases s) auto

lemma line_start_prefix: "pre = [] \<or> last pre = LF \<Longrightarrow> line_start (nl pre) (pre @ y) = length pre"
proof (induction pre)
  case Nil
  then show ?case by simp
next
  case (Cons c pre)
  have "nl (c # pre) \<noteq> 0"
    using Cons.prems last_in_set [of "c # pre"] by (auto simp: nl_zero simp del: nl_simps)
  with Cons show ?case by (cases "pre = []") (auto simp: last_ConsR split: if_splits)
qed

lemma skip_chars_zero [simp]: "skip_chars 0 s i = i"
  by (cases s) auto

lemma wf_text_False_Cons: "wf_text False (c # cs) \<Longrightarrow> \<not> is_continuation c"
  by simp

lemma wf_text_weaken: "wf_text False s \<Longrightarrow> wf_text b s"
  by (cases s) auto

lemma wf_text_dropWhile: "wf_text b s \<Longrightarrow> wf_text False (dropWhile is_continuation s)"
  by (induction b s rule: wf_text.induct) (auto simp: is_continuation_def)

lemma wf_text_append: "wf_text b (s @ t) \<Longrightarrow> wf_text b s \<and> (\<exists>b'. wf_text b' t)"
  by (induction b s rule: wf_text.induct) auto

lemma units_dropWhile: "units (dropWhile is_continuation s) = units s"
  by (induction s) (auto simp: unit_count_def)

text \<open>Skipping as many code units as a run of whole code points has lands behind the run.\<close>

lemma skip_chars_units:
  assumes "wf_text False s" "units s < 2 ^ 32" "y = [] \<or> \<not> is_continuation (hd y)"
  shows "skip_chars (of_nat (units s)) (s @ y) i = i + length s"
  using assms(1,2)
proof (induction "length s" arbitrary: s i rule: less_induct)
  case less
  show ?case
  proof (cases s)
    case Nil
    then show ?thesis by simp
  next
    case (Cons c cs)
    have nc: "\<not> is_continuation c" using less.prems(1) Cons by simp
    define u where "u = units s" define v where "v = unit_count c"
    have uv: "units_of c = of_nat v" "v \<le> u" "0 < v" "v \<le> 2"
      using nc Cons by (auto simp: u_def v_def units_of_def unit_count_def)
    have u32: "u < 2 ^ 32" using less.prems(2) by (simp add: u_def)
    have pos: "(0 :: u32) < of_nat u" "\<not> (of_nat u :: u32) < of_nat v"
      using uv u32 by (simp_all add: word_gt_0 unat_eq_0 [symmetric] word_less_nat_alt unat_of_nat take_bit_nat_eq_self)
    have sub: "(of_nat u :: u32) - of_nat v = of_nat (u - v)" using uv by (simp add: of_nat_diff)
    define r where "r = (if 128 \<le> byte_of c then dropWhile is_continuation cs else cs)"
    define tl where "tl = (if 128 \<le> byte_of c then takeWhile is_continuation cs else [])"
    have cs: "cs = tl @ r" by (simp add: tl_def r_def)
    have wfr: "wf_text False r"
      using less.prems(1) Cons wf_text_dropWhile by (auto simp: r_def)
    have ur: "units r = u - v" using Cons by (simp add: u_def v_def r_def units_dropWhile)
    have tw: "takeWhile is_continuation (cs @ y) = takeWhile is_continuation cs"
      using assms(3) by (cases y) (auto simp: takeWhile_append intro: takeWhile_eq_all_conv [THEN iffD2, symmetric])
    have tail: "(if 128 \<le> byte_of c then takeWhile is_continuation (cs @ y) else []) = tl"
      by (simp add: tl_def tw)
    have dr: "drop (length tl) (cs @ y) = r @ y" unfolding cs by simp
    have "skip_chars (of_nat u) (c # cs @ y) i = skip_chars (of_nat (u - v)) (r @ y) (Suc i + length tl)"
      using pos sub uv(1) unfolding skip_chars.simps Let_def tail dr by simp
    then have step: "skip_chars (of_nat u) (s @ y) i = skip_chars (of_nat (u - v)) (r @ y) (Suc i + length tl)"
      using Cons by simp
    have len: "length cs = length tl + length r" unfolding cs by simp
    have "skip_chars (of_nat (units r)) (r @ y) (Suc i + length tl) = Suc i + length tl + length r"
      using less.hyps [of r "Suc i + length tl"] wfr ur u32 Cons len by simp
    with step ur Cons len show ?thesis by (simp add: u_def)
  qed
qed

lemma int_cast_small: "n < 2 ^ 31 \<Longrightarrow> int_cast n = int n"
proof -
  assume "n < 2 ^ 31"
  then have "signed_take_bit 31 (int n) = int n" by (simp add: signed_take_bit_int_eq_self)
  then show ?thesis using sint_sbintrunc' [where 'a = 32, of "int n"] by (simp add: int_cast_def)
qed

text \<open>An offset that does not point into the middle of a code point.\<close>

definition boundary :: "nat \<Rightarrow> string \<Rightarrow> bool" where
  "boundary i s \<longleftrightarrow> i \<le> length s \<and> (i < length s \<longrightarrow> \<not> is_continuation (s ! i))"

lemma line_start_take:
  assumes "pre @ seg = take i s" "pre = [] \<or> last pre = LF" "LF \<notin> set seg"
  shows "line_start (nl (take i s)) s = length pre"
proof -
  have "s = pre @ (seg @ drop i s)" using assms(1) by (metis append_assoc append_take_drop_id)
  moreover have "nl (take i s) = nl pre" using assms(1,3) by (metis add.right_neutral nl_simps(3) nl_zero)
  ultimately show ?thesis using line_start_prefix [OF assms(2)] by metis
qed

lemma wf_text_after_LF:
  assumes "wf_text False (pre @ seg)" "pre = [] \<or> last pre = LF"
  shows "wf_text False seg"
  using assms
proof (induction pre arbitrary: seg rule: rev_induct)
  case Nil
  then show ?case by simp
next
  case (snoc c pre)
  then have "c = LF" by simp
  obtain b where "wf_text b ((LF # []) @ seg)"
    using wf_text_append [of False pre "[LF] @ seg"] snoc.prems(1) \<open>c = LF\<close> by auto
  then show ?case by (simp add: byte_of_def)
qed

lemma nl_le_length: "nl s \<le> length s"
  by (simp add: nl_def count_le_length)

lemma unat_lt2p_32: "unat (w :: u32) < 2 ^ 32"
  using unsigned_less [of w] by simp

lemma of_nat_small: "n < 2 ^ 32 \<Longrightarrow> unat (of_nat n :: u32) = n"
  by (simp add: unat_of_nat take_bit_nat_eq_self)

lemma of_nat_less_u32: "a < b \<Longrightarrow> b < 2 ^ 32 \<Longrightarrow> (of_nat a :: u32) < of_nat b"
  by (simp add: word_less_nat_alt of_nat_small)

lemma GetOffset_GetPosition_boundary:
  assumes "wf_text False s" "length s < 2 ^ 31" "boundary i s"
  shows "GetOffsetForPosition (GetPositionForOffset i s) s = int i"
proof -
  obtain pre where pre: "take i s = pre @ last_line (take i s)" "pre = [] \<or> last pre = LF"
    by (rule split_last_line)
  define seg where "seg = last_line (take i s)"
  have i: "i \<le> length s" using assms(3) by (simp add: boundary_def)
  have eq: "take i s = pre @ seg" using pre(1) by (simp add: seg_def)
  have s: "s = pre @ seg @ drop i s" by (metis append_assoc append_take_drop_id eq)
  have len: "length pre + length seg = i" using arg_cong [OF eq, of length] i by simp
  have ls: "line_start (nl (take i s)) s = length pre"
    by (rule line_start_take [OF eq [symmetric] pre(2)]) (simp add: seg_def last_line_no_LF)
  have "nl (take i s) < 2 ^ 32" using nl_le_length [of "take i s"] i assms(2) by simp
  then have sl: "skip_lines (of_nat (nl (take i s))) s 0 = length pre"
    by (simp add: skip_lines_eq ls)
  have "wf_text False (pre @ seg @ drop i s)" using assms(1) s by simp
  then have wf: "wf_text False seg" using wf_text_after_LF [OF _ pre(2)] wf_text_append by blast
  have "units seg < 2 ^ 32" using units_le [of seg] len assms(2) i by simp
  moreover have "drop i s = [] \<or> \<not> is_continuation (hd (drop i s))"
    using assms(3) by (auto simp: boundary_def hd_drop_conv_nth)
  moreover have "drop (length pre) s = seg @ drop i s" by (subst s) simp
  ultimately have "skip_chars (of_nat (units seg)) (drop (length pre) s) (length pre) = i"
    using skip_chars_units [OF wf] len by simp
  with sl show ?thesis using i assms(2)
    by (simp add: GetOffsetForPosition_def GetPositionForOffset_def GetPositionForOffset_fold
        seg_def [symmetric] int_cast_small)
qed

section \<open>The offset that the protocol defines\<close>

text \<open>
  An independent definition of the place of a position: the text is split at its line ends, and the character counts UTF-16 code units within the line; a
  character beyond the line is the end of the line (\<^verbatim>\<open>lsPosition.h\<close>).  A line that does not exist is the end of the text.
\<close>

fun text_lines :: "string \<Rightarrow> string list" where
  "text_lines [] = [[]]"
| "text_lines (c # cs) = (if c = LF then [] # text_lines cs else (c # hd (text_lines cs)) # tl (text_lines cs))"

text \<open>The number of bytes of the longest part of a line that has at most \<open>ch\<close> code units.\<close>

fun column_offset :: "nat \<Rightarrow> string \<Rightarrow> nat" where
  "column_offset ch [] = 0"
| "column_offset ch (c # cs) = (if unit_count c \<le> ch then Suc (column_offset (ch - unit_count c) cs) else 0)"

definition protocol_offset :: "lsPosition \<Rightarrow> string \<Rightarrow> nat" where
  "protocol_offset p s =
     (let ls = text_lines s; n = unat (line p)
      in if n < length ls then sum_list (map (\<lambda>l. length l + 1) (take n ls)) + column_offset (unat (character p)) (ls ! n)
         else length s)"

text \<open>A position that the protocol allows: on a line of the text, at most at its end, and not between the two halves of a surrogate pair.\<close>

definition position_ok :: "lsPosition \<Rightarrow> string \<Rightarrow> bool" where
  "position_ok p s \<longleftrightarrow>
     unat (line p) < length (text_lines s) \<and>
     unat (character p) \<in> (\<lambda>n. units (take n (text_lines s ! unat (line p)))) ` {0..length (text_lines s ! unat (line p))}"

text \<open>UTF-8, to tie the counting of bytes to the code points they stand for.\<close>

definition utf8 :: "nat \<Rightarrow> string" where
  "utf8 cp =
     map char_of
       (if cp < 0x80 then [cp]
        else if cp < 0x800 then [0xC0 + cp div 64, 0x80 + cp mod 64]
        else if cp < 0x10000 then [0xE0 + cp div 4096, 0x80 + cp div 64 mod 64, 0x80 + cp mod 64]
        else [0xF0 + cp div 262144, 0x80 + cp div 4096 mod 64, 0x80 + cp div 64 mod 64, 0x80 + cp mod 64])"

definition utf16_length :: "nat list \<Rightarrow> nat" where
  "utf16_length cps = sum_list (map (\<lambda>cp. if cp \<ge> 0x10000 then 2 else 1) cps)"

lemma unit_count_char_of:
  "(n :: nat) < 256 \<Longrightarrow> unit_count (char_of n) = (if 128 \<le> n \<and> n < 192 then 0 else if n \<ge> 0xF0 then 2 else 1)"
  by (simp add: unit_count_def is_continuation_def byte_of_char_of)

lemma utf8_units:
  assumes "cp < 0x110000"
  shows "units (utf8 cp) = (if cp \<ge> 0x10000 then 2 else 1)"
proof -
  have "cp div 64 < 32" if "cp < 0x800" using that by simp
  moreover have "cp div 4096 < 16" if "cp < 0x10000" using that by simp
  moreover have "cp div 262144 < 5" using assms by simp
  moreover have "cp mod 64 < 64" "cp div 64 mod 64 < 64" "cp div 4096 mod 64 < 64" by simp_all
  ultimately show ?thesis by (auto simp: utf8_def units_def unit_count_char_of)
qed

lemma utf8_wf:
  assumes "cp < 0x110000" "wf_text False s"
  shows "wf_text False (utf8 cp @ s)"
proof -
  have b: "cp div 64 < 32" if "cp < 0x800" using that by simp
  have c: "cp div 4096 < 16" if "cp < 0x10000" using that by simp
  have d: "cp div 262144 < 5" using assms by simp
  have m: "cp mod 64 < 64" "cp div 64 mod 64 < 64" "cp div 4096 mod 64 < 64" by simp_all
  show ?thesis using b c d m wf_text_weaken [OF assms(2)] by (auto simp: utf8_def is_continuation_def byte_of_char_of)
qed

text \<open>Every UTF-8 text is well formed, and its code units are those of its code points.\<close>

lemma utf8_text:
  assumes "list_all (\<lambda>cp. cp < 0x110000) cps"
  shows "wf_text False (concat (map utf8 cps))" "units (concat (map utf8 cps)) = utf16_length cps"
  using assms by (induction cps) (simp_all add: utf8_wf utf8_units utf16_length_def)

lemma text_lines_not_Nil [simp]: "text_lines s \<noteq> []"
  by (cases s) auto

lemma text_lines_split:
  assumes "n < length (text_lines s)"
  shows "\<exists>pre post. s = pre @ text_lines s ! n @ post \<and> (pre = [] \<or> last pre = LF) \<and> nl pre = n \<and> LF \<notin> set (text_lines s ! n) \<and>
    (post = [] \<or> hd post = LF) \<and> length pre = sum_list (map (\<lambda>l. length l + 1) (take n (text_lines s)))"
  using assms
proof (induction s arbitrary: n)
  case (Cons c s)
  show ?case
  proof (cases n)
    case 0
    have ls: "text_lines (c # s) ! 0 = (if c = LF then [] else c # text_lines s ! 0)" by (simp add: hd_conv_nth)
    from Cons.IH [of 0] obtain post where p: "s = text_lines s ! 0 @ post" "LF \<notin> set (text_lines s ! 0)" "post = [] \<or> hd post = LF"
      by (auto simp: nl_zero)
    then have "c # s = text_lines (c # s) ! 0 @ (if c = LF then c # s else post)" unfolding ls by auto
    then show ?thesis using p(2,3) 0 ls by (intro exI [of _ "[]"] exI [of _ "if c = LF then c # s else post"]) auto
  next
    case (Suc m)
    let ?k = "if c = LF then m else n"
    have nth: "text_lines (c # s) ! n = text_lines s ! ?k" using Suc by (cases "text_lines s") auto
    have k: "?k < length (text_lines s)" using Cons.prems Suc by (auto split: if_splits)
    from Cons.IH [OF k] obtain pre post where p: "s = pre @ text_lines s ! ?k @ post" "pre = [] \<or> last pre = LF" "nl pre = ?k"
      "LF \<notin> set (text_lines s ! ?k)" "post = [] \<or> hd post = LF" "length pre = sum_list (map (\<lambda>l. length l + 1) (take ?k (text_lines s)))" by blast
    have ne: "c \<noteq> LF \<Longrightarrow> pre \<noteq> []" using p(3) Suc by auto
    have "length (c # pre) = sum_list (map (\<lambda>l. length l + 1) (take n (text_lines (c # s))))"
      using p(6) Suc by (cases "text_lines s") (auto simp: take_Suc)
    moreover have "last (c # pre) = LF" using p(2) ne by auto
    ultimately show ?thesis using p nth Suc by (intro exI [of _ "c # pre"] exI [of _ post]) auto
  qed
qed simp

lemma units_take_mono: "m \<le> n \<Longrightarrow> units (take m l) \<le> units (take n l)"
  by (metis le_add1 le_add_diff_inverse take_add units_simps(3))

lemma column_offset_longest:
  "column_offset ch l \<le> length l" "units (take (column_offset ch l) l) \<le> ch"
  "column_offset ch l < length l \<Longrightarrow> ch < units (take (Suc (column_offset ch l)) l)"
  by (induction ch l rule: column_offset.induct) auto

lemma column_offset_exact:
  assumes "n \<le> length l" "units (take n l) = ch"
  shows "units (take (column_offset ch l) l) = ch"
    and "column_offset ch l < length l \<Longrightarrow> \<not> is_continuation (l ! column_offset ch l)"
proof -
  let ?m = "column_offset ch l"
  have "n \<le> ?m"
  proof (rule ccontr)
    assume "\<not> n \<le> ?m"
    then have "Suc ?m \<le> n" "?m < length l" using assms(1) by simp_all
    with column_offset_longest(3) [of ch l] units_take_mono [of "Suc ?m" n l] assms(2) show False by simp
  qed
  with units_take_mono [of n ?m l] column_offset_longest(2) [of ch l] assms(2) show e: "units (take ?m l) = ch" by simp
  assume lt: "?m < length l"
  show "\<not> is_continuation (l ! ?m)"
  proof
    assume "is_continuation (l ! ?m)"
    then have "units (take (Suc ?m) l) = units (take ?m l)" using lt by (simp add: take_Suc_conv_app_nth unit_count_def)
    with column_offset_longest(3) [OF lt] e show False by simp
  qed
qed

text \<open>For the positions that the protocol allows the code computes the offset that the protocol defines.\<close>

lemma GetOffsetForPosition_protocol:
  assumes "wf_text False s" "length s < 2 ^ 31" "position_ok p s"
  shows "GetOffsetForPosition p s = int (protocol_offset p s)" "protocol_offset p s \<le> length s"
proof -
  let ?n = "unat (line p)" and ?ch = "unat (character p)"
  let ?l = "text_lines s ! ?n"
  let ?m = "column_offset ?ch ?l"
  have n: "?n < length (text_lines s)" using assms(3) by (simp add: position_ok_def)
  obtain k where k: "k \<le> length ?l" "units (take k ?l) = ?ch" using assms(3) by (auto simp: position_ok_def)
  note c = column_offset_exact [OF k] column_offset_longest(1) [of ?ch ?l]
  obtain pre post where p: "s = pre @ ?l @ post" "pre = [] \<or> last pre = LF" "nl pre = ?n" "LF \<notin> set ?l" "post = [] \<or> hd post = LF"
    "length pre = sum_list (map (\<lambda>l. length l + 1) (take ?n (text_lines s)))" using text_lines_split [OF n] by blast
  let ?i = "length pre + ?m"
  have i: "protocol_offset p s = ?i" using n by (simp add: protocol_offset_def p(6) Let_def)
  have t: "take ?i s = pre @ take ?m ?l" using c(3) by (subst p(1)) simp
  have len: "?i \<le> length s" using c(3) arg_cong [OF p(1), of length] by simp
  have b: "boundary ?i s"
  proof (cases "?m < length ?l")
    case True
    then have "s ! ?i = ?l ! ?m" by (subst p(1)) (simp add: nth_append)
    then show ?thesis using len c(2) [OF True] by (simp add: boundary_def)
  next
    case False
    then have "s ! ?i = hd post" if "post \<noteq> []" using c(3) that by (subst p(1)) (simp add: nth_append hd_conv_nth)
    moreover have "post \<noteq> []" if "?i < length s" using that False c(3) arg_cong [OF p(1), of length] by auto
    ultimately show ?thesis using len p(5) by (auto simp: boundary_def is_continuation_def byte_of_def)
  qed
  have tl: "last_line (take ?m ?l) = take ?m ?l" "LF \<notin> set (take ?m ?l)"
    using p(4) last_line_append [of "take ?m ?l" "[]"] by (auto simp: last_line_def [of "[]"] dest: in_set_takeD)
  have "last_line pre = []" using p(2) by (cases pre rule: rev_cases) (auto simp: last_line_def)
  then have "last_line (take ?i s) = take ?m ?l" using last_line_append [OF tl(2), of pre] by (simp add: t)
  moreover have "nl (take ?i s) = ?n" using tl(2) nl_zero [of "take ?m ?l"] p(3) by (simp add: t)
  ultimately have "GetPositionForOffset ?i s = p"
    using c(1) by (simp add: GetPositionForOffset_def GetPositionForOffset_fold)
  then show "GetOffsetForPosition p s = int (protocol_offset p s)"
    using GetOffset_GetPosition_boundary [OF assms(1,2) b] by (simp add: i)
  show "protocol_offset p s \<le> length s" using len by (simp add: i)
qed

text \<open>For a character past the end of its line the two differ: the code runs on into the next line.\<close>

lemma character_past_line_end:
  "protocol_offset \<lparr>line = 0, character = 5\<rparr> (''ab'' @ [LF] @ ''cdef'') = 2"
  "GetOffsetForPosition \<lparr>line = 0, character = 5\<rparr> (''ab'' @ [LF] @ ''cdef'') = 5"
  by code_simp+

section \<open>Properties\<close>

text \<open>C15: On a text below 2 GiB whose continuation bytes follow a lead byte, the position of an
  offset at a code point boundary leads back to that offset: \<^verbatim>\<open>GetOffsetForPosition\<close> inverts
  \<^verbatim>\<open>GetPositionForOffset\<close>, with UTF-16 surrogate pairs counted the same way on both sides.\<close>

theorem GetOffset_GetPosition:
  assumes "wf_text False s" "length s < 2 ^ 31" "boundary i s"
  shows "GetOffsetForPosition (GetPositionForOffset i s) s = int i"
  using assms by (rule GetOffset_GetPosition_boundary)

text \<open>A line with a two-byte, a three-byte and a four-byte code point.\<close>

definition sample_text :: string where
  "sample_text = ''ab'' @ [LF, CHR 0xC3, CHR 0xA9, CHR 0xE2, CHR 0x82, CHR 0xAC, CHR 0xF0, CHR 0x9F, CHR 0x98, CHR 0x80] @ ''z''"

theorem GetOffset_GetPosition_witness:
  "GetOffsetForPosition (GetPositionForOffset 12 sample_text) sample_text = int 12"
proof (rule GetOffset_GetPosition)
  show "wf_text False sample_text" by code_simp
  show "length sample_text < 2 ^ 31" by (simp add: sample_text_def)
  show "boundary 12 sample_text" by code_simp
qed

text \<open>Positions order like offsets: of two offsets into a text below 2 GiB the smaller one, if
  it is at a code point boundary, has the strictly smaller position under \<^verbatim>\<open>operator<\<close>.\<close>

theorem GetPositionForOffset_strict_mono:
  assumes "i < j" "j \<le> length s" "boundary i s" "length s < 2 ^ 31"
  shows "lsPosition_less (GetPositionForOffset i s) (GetPositionForOffset j s)"
proof -
  define mid where "mid = take (j - i) (drop i s)"
  have tj: "take j s = take i s @ mid"
    using assms(1) by (simp add: mid_def take_add [symmetric])
  have "mid \<noteq> []" using assms(1,2) by (simp add: mid_def)
  then obtain c m where mid: "mid = c # m" by (cases mid) auto
  have "mid ! 0 = s ! i" using assms(1,2) by (simp add: mid_def)
  then have "c = s ! i" using mid by simp
  then have c: "0 < unit_count c" using assms(1-3) by (auto simp: unit_count_def boundary_def)
  have b: "nl (take i s @ mid) \<le> length s" "units (last_line (take i s @ mid)) < 2 ^ 32"
  proof -
    show "nl (take i s @ mid) \<le> length s" using nl_le_length [of "take j s"] assms(2) unfolding tj [symmetric] by simp
    have "length (last_line x) \<le> length x" for x
      using length_takeWhile_le [of "\<lambda>c. c \<noteq> LF" "rev x"] by (simp add: last_line_def)
    from this [of "take j s"] units_le [of "last_line (take j s)"] show "units (last_line (take i s @ mid)) < 2 ^ 32"
      using assms(2,4) unfolding tj [symmetric] by simp
  qed
  show ?thesis
  proof (cases "LF \<in> set mid")
    case True
    then have "nl (take i s) < nl (take j s)" using tj nl_zero [of mid] by simp
    moreover from this have "(of_nat (nl (take i s)) :: u32) < of_nat (nl (take j s))"
      using b(1) assms(4) unfolding tj [symmetric] by (simp add: of_nat_less_u32)
    ultimately show ?thesis
      by (auto simp: lsPosition_less_def GetPositionForOffset_def GetPositionForOffset_fold)
  next
    case False
    then have "nl (take j s) = nl (take i s)" using tj nl_zero [of mid] by simp
    moreover have "last_line (take j s) = last_line (take i s) @ mid"
      using False tj by (simp add: last_line_append)
    then have "units (last_line (take i s)) < units (last_line (take j s))" using mid c by simp
    then have "(of_nat (units (last_line (take i s))) :: u32) < of_nat (units (last_line (take j s)))"
      using b(2) unfolding tj [symmetric] by (simp add: of_nat_less_u32)
    ultimately show ?thesis
      by (simp add: lsPosition_less_def GetPositionForOffset_def GetPositionForOffset_fold)
  qed
qed

theorem GetPositionForOffset_strict_mono_witness:
  "lsPosition_less (GetPositionForOffset 8 sample_text) (GetPositionForOffset 12 sample_text)"
proof (rule GetPositionForOffset_strict_mono)
  show "12 \<le> length sample_text" by code_simp
  show "boundary 8 sample_text" by code_simp
  show "length sample_text < 2 ^ 31" by (simp add: sample_text_def)
qed simp

lemma skip_chars_ascii:
  "list_all (\<lambda>c. byte_of c < 128) s \<Longrightarrow> skip_chars ch s i = i + min (unat ch) (length s)"
proof (induction s arbitrary: ch i)
  case Nil
  then show ?case by simp
next
  case (Cons c s)
  show ?case
  proof (cases "ch = 0")
    case True
    then show ?thesis by simp
  next
    case False
    then have pos: "0 < ch" "\<not> ch < 1" by (simp_all add: word_gt_0)
    have u: "unat (ch - 1) = unat ch - 1" using False by (simp add: unat_minus_one)
    have "0 < unat ch" using False by (simp add: unat_gt_0)
    with Cons pos u show ?thesis by (simp add: units_of_def Let_def)
  qed
qed

text \<open>On an ASCII text below 2 GiB the offset of a position is the start of its line plus the
  character, cut off at the end of the text only: a character index past the end of its line
  runs on into the following lines.\<close>

theorem GetOffsetForPosition_ascii:
  assumes "list_all (\<lambda>c. byte_of c < 128) s" "length s < 2 ^ 31"
  shows "GetOffsetForPosition p s =
    int (min (line_start (unat (line p)) s + unat (character p)) (length s))"
proof -
  have sl: "skip_lines (line p) s 0 = line_start (unat (line p)) s"
    using skip_lines_eq [of "unat (line p)" s 0] unat_lt2p_32 [of "line p"] by simp
  have "list_all (\<lambda>c. byte_of c < 128) (drop n s)" for n
    using assms(1) by (auto simp: list_all_iff dest: in_set_dropD)
  then have "GetOffsetForPosition p s =
      int_cast (line_start (unat (line p)) s + min (unat (character p)) (length s - line_start (unat (line p)) s))"
    by (simp add: GetOffsetForPosition_def sl skip_chars_ascii Let_def)
  also have "line_start (unat (line p)) s + min (unat (character p)) (length s - line_start (unat (line p)) s) =
      min (line_start (unat (line p)) s + unat (character p)) (length s)"
    using line_start_le [of "unat (line p)" s] by linarith
  also have "int_cast \<dots> = int \<dots>" by (rule int_cast_small) (use assms(2) in simp)
  finally show ?thesis .
qed

theorem GetOffsetForPosition_ascii_witness:
  "GetOffsetForPosition \<lparr>line = 1, character = 5\<rparr> (''ab'' @ [LF] @ ''cd'' @ [LF] @ ''efgh'') =
    int (min (line_start (unat (1 :: u32)) (''ab'' @ [LF] @ ''cd'' @ [LF] @ ''efgh'') + unat (5 :: u32))
      (length (''ab'' @ [LF] @ ''cd'' @ [LF] @ ''efgh'')))"
  using GetOffsetForPosition_ascii [of "''ab'' @ [LF] @ ''cd'' @ [LF] @ ''efgh''" "\<lparr>line = 1, character = 5\<rparr>"]
  by (simp add: byte_of_def)

lemma byte_position_loop_eq:
  "byte_position_loop s i ln ls =
     (ln + of_nat (nl s), if LF \<in> set s then i + length s - length (last_line s) else ls)"
proof (induction s arbitrary: i ln ls)
  case Nil
  then show ?case by simp
next
  case (Cons c s)
  have ll: "last_line (c # s) = (if LF \<in> set s then last_line s else if c = LF then s else c # s)"
    by (auto simp: last_line_def takeWhile_tail takeWhile_append takeWhile_eq_all_conv)
  have "length (last_line s) \<le> length s"
    using length_takeWhile_le [of "\<lambda>c. c \<noteq> LF" "rev s"] by (simp add: last_line_def)
  with Cons ll show ?case by (auto simp: nl_def)
qed

text \<open>In the UTF-8 encoding the byte offset round trip holds on every text below 2 GiB, with no
  condition on its bytes.\<close>

theorem GetOffset_GetPosition_utf8:
  assumes "i \<le> length s" "length s < 2 ^ 31"
  shows "GetOffsetForPositionWithEncoding (GetPositionForOffsetWithEncoding i s Utf8) s Utf8 = int i"
proof -
  obtain pre where pre: "take i s = pre @ last_line (take i s)" "pre = [] \<or> last pre = LF"
    by (rule split_last_line)
  define seg where "seg = last_line (take i s)"
  have eq: "take i s = pre @ seg" using pre(1) by (simp add: seg_def)
  have noLF: "LF \<notin> set seg" by (simp add: seg_def last_line_no_LF)
  have len: "length pre + length seg = i" using arg_cong [OF eq, of length] assms(1) by simp
  have ls: "line_start (nl (take i s)) s = length pre"
    by (rule line_start_take [OF eq [symmetric] pre(2) noLF])
  have "nl (take i s) < 2 ^ 32" using nl_le_length [of "take i s"] assms by simp
  then have sl: "skip_lines (of_nat (nl (take i s))) s 0 = length pre"
    by (simp add: skip_lines_eq ls)
  have "pre = []" if "LF \<notin> set (take i s)"
    using that pre(2) last_in_set [of pre] unfolding eq by (cases "pre = []") auto
  then have loop: "byte_position_loop (take i s) 0 0 0 = (of_nat (nl (take i s)), length pre)"
    using len assms(1) by (auto simp: byte_position_loop_eq seg_def [symmetric])
  have "unat (of_nat (i - length pre) :: u32) = i - length pre" by (rule of_nat_small) (use assms in auto)
  with len assms show ?thesis
    by (simp add: GetOffsetForPositionWithEncoding_def GetPositionForOffsetWithEncoding_def loop sl int_cast_small)
qed

theorem GetOffset_GetPosition_utf8_witness:
  "GetOffsetForPositionWithEncoding (GetPositionForOffsetWithEncoding 5 sample_text Utf8) sample_text Utf8 = int 5"
  by (rule GetOffset_GetPosition_utf8) (simp_all add: sample_text_def)

end
