(* ===== verification/Lsp_Utils.thy ===== *)
theory Lsp_Utils
  imports Lsp_Prelude
begin

text \<open>
  The string and path helpers of \<^verbatim>\<open>src/lsp/utils.cpp\<close>: prefixes and suffixes,
  splitting and replacing, directory names, line ends, absolute paths, and the lexical path
  normalisation \<^verbatim>\<open>RealPathNotExpandSymlink\<close> (the POSIX branch of \<^verbatim>\<open>NormalizePath\<close>).  What the
  path code asks the system, \<^verbatim>\<open>getcwd\<close> and \<^verbatim>\<open>stat\<close>, are parameters.  Splitting is
  inverted by joining, replacing is splitting and joining, and path normalisation
  refines a stack of path components.
\<close>

section \<open>Prefixes and suffixes\<close>

definition EndsWith :: "string \<Rightarrow> string \<Rightarrow> bool" where
  "EndsWith value ending =
     (if length ending > length value then False
      else take (length ending) (rev value) = rev ending)"

definition lsp_StartsWith :: "string \<Rightarrow> string \<Rightarrow> bool" where
  "lsp_StartsWith value start =
     (if length start > length value then False else take (length start) value = start)"

definition AnyStartsWith :: "string list \<Rightarrow> string \<Rightarrow> bool" where
  "AnyStartsWith values start = list_ex (\<lambda>value. lsp_StartsWith value start) values"

definition StartsWithAny :: "string \<Rightarrow> string list \<Rightarrow> bool" where
  "StartsWithAny value startings = list_ex (\<lambda>starting. lsp_StartsWith value starting) startings"

definition EndsWithAny :: "string \<Rightarrow> string list \<Rightarrow> bool" where
  "EndsWithAny value endings = list_ex (\<lambda>ending. EndsWith value ending) endings"

definition FindAnyPartial :: "string \<Rightarrow> string list \<Rightarrow> bool" where
  "FindAnyPartial value values = list_ex (\<lambda>v. str_find v value 0 \<noteq> None) values"

section \<open>Replacing and splitting\<close>

text \<open>
  The loops carry the offset behind the last match.  Both functions return early when the
  pattern is empty, so the loops only run with a non-empty one.
\<close>

lemma str_find_progress:
  assumes "pat \<noteq> []" "str_find pat s k = Some i"
  shows "Suc (length s) - (i + length pat) < Suc (length s) - k"
proof -
  have "0 < length pat" using assms(1) by simp
  with str_find_bound [OF assms(2)] show ?thesis by linarith
qed

function replace_from :: "string \<Rightarrow> string \<Rightarrow> string \<Rightarrow> nat \<Rightarrow> string" where
  "replace_from source from to last_pos =
     (if from = [] then drop last_pos source
      else case str_find from source last_pos of
        None \<Rightarrow> drop last_pos source
      | Some find_pos \<Rightarrow>
          substr last_pos (find_pos - last_pos) source @ to @
          replace_from source from to (find_pos + length from))"
  by pat_completeness auto
termination
proof (relation "measure (\<lambda>(source, from, to, last_pos). Suc (length source) - last_pos)", goal_cases)
  case 1
  then show ?case by simp
next
  case (2 source pat to last_pos find_pos)
  with str_find_progress [of pat source last_pos find_pos] show ?case by simp
qed

declare replace_from.simps [simp del]

definition ReplaceAll :: "string \<Rightarrow> string \<Rightarrow> string \<Rightarrow> string" where
  "ReplaceAll source from to = (if from = [] then source else replace_from source from to 0)"

function split_from :: "string \<Rightarrow> string \<Rightarrow> nat \<Rightarrow> string list" where
  "split_from str delimiter prev =
     (if delimiter = [] then [drop prev str]
      else case str_find delimiter str prev of
        None \<Rightarrow> [drop prev str]
      | Some pos \<Rightarrow> substr prev (pos - prev) str # split_from str delimiter (pos + length delimiter))"
  by pat_completeness auto
termination
proof (relation "measure (\<lambda>(str, delimiter, prev). Suc (length str) - prev)", goal_cases)
  case 1
  then show ?case by simp
next
  case (2 str delimiter prev pos)
  with str_find_progress [of delimiter str prev pos] show ?case by simp
qed

declare split_from.simps [simp del]

definition SplitString :: "string \<Rightarrow> string \<Rightarrow> string list" where
  "SplitString str delimiter = (if delimiter = [] then [str] else split_from str delimiter 0)"

section \<open>File names\<close>

definition GetDirName :: "string \<Rightarrow> string" where
  "GetDirName path0 =
     (let path = ReplaceAll path0 [BACKSLASH] [SLASH] in
      if path = [] then ''./''
      else if path = [SLASH] \<or> (length path = 3 \<and> path ! 1 = CHR '':'' \<and> path ! 2 = SLASH) then path
      else
        let path1 = (if path \<noteq> [] \<and> last path = SLASH then butlast path else path) in
        case str_rfind_if (\<lambda>c. c = SLASH) path1 of
          None \<Rightarrow> ''./''
        | Some last_slash \<Rightarrow> substr 0 (last_slash + 1) path1)"

definition GetBaseName :: "string \<Rightarrow> string" where
  "GetBaseName path =
     (case str_rfind_if (\<lambda>c. c = SLASH) path of
        None \<Rightarrow> path
      | Some last_slash \<Rightarrow> if last_slash + 1 < length path then drop (last_slash + 1) path else path)"

definition StripFileType :: "string \<Rightarrow> string" where
  "StripFileType path =
     (case str_rfind_if (\<lambda>c. c = CHR ''.'') path of
        None \<Rightarrow> path
      | Some last_period \<Rightarrow> substr 0 last_period path)"

definition EnsureEndsInSlash :: "string \<Rightarrow> string" where
  "EnsureEndsInSlash path = (if path = [] \<or> last path \<noteq> SLASH then path @ [SLASH] else path)"

text \<open>\<^verbatim>\<open>std::replace\<close> of one byte by another.\<close>

definition std_replace :: "char \<Rightarrow> char \<Rightarrow> string \<Rightarrow> string" where
  "std_replace old new s = map (\<lambda>c. if c = old then new else c) s"

definition EscapeFileName :: "string \<Rightarrow> string" where
  "EscapeFileName path0 =
     (let path = (if path0 \<noteq> [] \<and> last path0 = SLASH then butlast path0 else path0)
      in std_replace CHR '':'' CHR ''@'' (std_replace SLASH CHR ''@'' (std_replace BACKSLASH CHR ''@'' path)))"

section \<open>Lines\<close>

text \<open>
  \<^verbatim>\<open>SafeGetline\<close> on the bytes that are left in the stream: the line read, the bytes left and
  whether the end-of-file bit gets set.  \<^verbatim>\<open>ReadLinesWithEnding\<close> reads until the stream tests
  false, which only the failure bits decide.
\<close>

fun SafeGetline_loop :: "string \<Rightarrow> string \<Rightarrow> string \<times> string \<times> bool" where
  "SafeGetline_loop t [] = (t, [], t = [])"
| "SafeGetline_loop t (c # cs) = (if c = LF then (t @ [c], cs, False) else SafeGetline_loop (t @ [c]) cs)"

definition SafeGetline :: "string \<Rightarrow> string \<times> string \<times> bool" where
  "SafeGetline s = SafeGetline_loop [] s"

text \<open>Decimal text of a signed number, and C++ division, which truncates towards zero.\<close>

definition int_to_string :: "int \<Rightarrow> string" where
  "int_to_string n = (if n < 0 then ''-'' @ to_string (nat (- n)) else to_string (nat n))"

definition tdiv :: "int \<Rightarrow> int \<Rightarrow> int" where
  "tdiv a b = sgn a * sgn b * (\<bar>a\<bar> div \<bar>b\<bar>)"

definition tmod :: "int \<Rightarrow> int \<Rightarrow> int" where
  "tmod a b = a - tdiv a b * b"

definition FormatMicroseconds :: "int \<Rightarrow> string" where
  "FormatMicroseconds microseconds =
     (let milliseconds = tdiv microseconds 1000;
          hundredths = tdiv (tmod microseconds 1000) 10;
          fraction = (if hundredths < 10 then ''0'' @ int_to_string hundredths else int_to_string hundredths)
      in int_to_string milliseconds @ ''.'' @ fraction @ ''ms'')"

text \<open>
  The loop of \<^verbatim>\<open>UpdateToRnNewlines\<close>: \<open>done\<close> is the output before \<^verbatim>\<open>idx\<close> (reversed), the second
  argument is the output from \<^verbatim>\<open>idx\<close> on.  A bare line end is replaced in place and found
  again, then skipped.
\<close>

fun bare :: "bool \<Rightarrow> string \<Rightarrow> nat" where
  "bare b [] = 0"
| "bare b (c # cs) = (if c = LF \<and> \<not> b then 1 else 0) + bare (c = CR) cs"

lemma bare_append: "bare b (pre @ c # cs) = bare b pre + bare (if pre = [] then b else last pre = CR) (c # cs)"
  by (induction b pre rule: bare.induct) auto

function rn_loop :: "string \<Rightarrow> string \<Rightarrow> string" where
  "rn_loop done ahead =
     (case dropWhile (\<lambda>c. c \<noteq> LF) ahead of
        [] \<Rightarrow> rev done @ ahead
      | c # rest \<Rightarrow>
          let before = rev (takeWhile (\<lambda>c. c \<noteq> LF) ahead) @ done in
          if before \<noteq> [] \<and> hd before = CR then rn_loop (LF # before) rest
          else rn_loop before (CR # LF # rest))"
  by pat_completeness auto
termination
proof (relation "measures [\<lambda>(d, a). bare (d \<noteq> [] \<and> hd d = CR) a, \<lambda>(d, a). length a]", goal_cases)
  case 1
  then show ?case by simp
next
  case (2 dn ahead c rest before)
  let ?p = "takeWhile (\<lambda>c. c \<noteq> LF) ahead"
  have a: "ahead = ?p @ LF # rest" using 2(1) takeWhile_dropWhile_id [of "\<lambda>c. c \<noteq> LF" ahead]
    by (auto simp: dropWhile_eq_Cons_conv)
  have "bare (dn \<noteq> [] \<and> hd dn = CR) ahead = bare (dn \<noteq> [] \<and> hd dn = CR) ?p + bare False rest"
    using 2(2,3) by (subst a, subst bare_append) (auto simp: hd_append hd_rev last_rev split: if_splits)
  moreover have "length rest < length ahead" by (subst a) simp
  ultimately show ?case by auto
next
  case (3 dn ahead c rest before)
  let ?p = "takeWhile (\<lambda>c. c \<noteq> LF) ahead"
  have a: "ahead = ?p @ LF # rest" using 3(1) takeWhile_dropWhile_id [of "\<lambda>c. c \<noteq> LF" ahead]
    by (auto simp: dropWhile_eq_Cons_conv)
  have "bare (dn \<noteq> [] \<and> hd dn = CR) ahead = bare (dn \<noteq> [] \<and> hd dn = CR) ?p + Suc (bare False rest)"
    using 3(2,3) by (subst a, subst bare_append) (auto simp: hd_append hd_rev last_rev split: if_splits)
  then show ?case by simp
qed

declare rn_loop.simps [simp del]

definition UpdateToRnNewlines :: "string \<Rightarrow> string" where
  "UpdateToRnNewlines output = rn_loop [] output"

section \<open>Absolute paths\<close>

definition is_slash :: "char \<Rightarrow> bool" where
  "is_slash c \<longleftrightarrow> c = SLASH \<or> c = BACKSLASH"

definition IsUnixAbsolutePath :: "string \<Rightarrow> bool" where
  "IsUnixAbsolutePath path \<longleftrightarrow> path \<noteq> [] \<and> path ! 0 = SLASH"

definition IsWindowsAbsolutePath :: "string \<Rightarrow> bool" where
  "IsWindowsAbsolutePath path \<longleftrightarrow>
     (length path \<ge> 3 \<and> path ! 1 = CHR '':'' \<and> is_slash (path ! 2) \<and> is_alpha_ascii (path ! 0)) \<or>
     (length path \<ge> 5 \<and> is_slash (path ! 0) \<and> is_slash (path ! 1) \<and> \<not> is_slash (path ! 2))"

definition IsAbsolutePath :: "string \<Rightarrow> bool" where
  "IsAbsolutePath path \<longleftrightarrow> IsUnixAbsolutePath path \<or> IsWindowsAbsolutePath path"

text \<open>
  \<^verbatim>\<open>AbsolutePath\<close> has the one field \<^verbatim>\<open>path_\<close>; the invalid path is the empty one.
\<close>

type_synonym AbsolutePath = string

definition FromNormalized :: "string \<Rightarrow> AbsolutePath" where
  "FromNormalized absolute_path = (if IsAbsolutePath absolute_path then absolute_path else [])"

definition AbsolutePath_valid :: "AbsolutePath \<Rightarrow> bool" where
  "AbsolutePath_valid p = IsAbsolutePath p"

text \<open>
  What the path code asks the system: \<open>cwd\<close> is the result of \<^verbatim>\<open>getcwd\<close> (empty on failure),
  \<open>stat p\<close> is \<^const>\<open>None\<close> when \<^verbatim>\<open>stat(2)\<close> fails and otherwise whether \<open>p\<close> is a directory.
\<close>

record posix =
  cwd :: string
  stat :: "string \<Rightarrow> bool option"

definition slash_terminated :: "string \<Rightarrow> string" where
  "slash_terminated r = (if r = [] \<or> last r \<noteq> SLASH then r @ [SLASH] else r)"

text \<open>\<^verbatim>\<open>resolved.resize(resolved.rfind('/', resolved.size() - 2) + 1)\<close>\<close>

definition strip_component :: "string \<Rightarrow> string" where
  "strip_component r =
     (case str_rfind_if (\<lambda>c. c = SLASH) (take (length r - 1) r) of
        None \<Rightarrow> []
      | Some k \<Rightarrow> take (k + 1) r)"

function realpath_loop :: "posix \<Rightarrow> bool \<Rightarrow> string \<Rightarrow> nat \<Rightarrow> string \<Rightarrow> string option" where
  "realpath_loop sys ensure_exists path i resolved =
     (if i < length path then
        let j = (case str_find [SLASH] path i of None \<Rightarrow> length path | Some j \<Rightarrow> j);
            next_token = substr i (j - i) path;
            resolved1 = slash_terminated resolved
        in if next_token = [] \<or> next_token = ''.'' then realpath_loop sys ensure_exists path (j + 1) resolved1
           else if next_token = ''..'' then
             realpath_loop sys ensure_exists path (j + 1)
               (if length resolved1 > 1 then strip_component resolved1 else resolved1)
           else
             let resolved2 = resolved1 @ next_token;
                 st = stat sys (c_str resolved2)
             in if st = None \<and> ensure_exists then None
                else if ensure_exists \<and> st = Some False \<and> j < length path then None
                else realpath_loop sys ensure_exists path (j + 1) resolved2
      else Some resolved)"
  by pat_completeness auto
termination
proof (relation "measure (\<lambda>(sys, ens, path, i, resolved). Suc (length path) - i)", goal_cases)
  case 1
  then show ?case by simp
qed (use str_find_bound in \<open>fastforce split: option.splits\<close>)+

declare realpath_loop.simps [simp del]

definition RealPathNotExpandSymlink :: "posix \<Rightarrow> string \<Rightarrow> bool \<Rightarrow> AbsolutePath" where
  "RealPathNotExpandSymlink sys path ensure_exists =
     (if path = [] then []
      else if path ! 0 = NUL then []
      else
        let (resolved, i) =
          (if length path \<ge> 2 \<and> path ! 0 = SLASH \<and> path ! 1 = SLASH \<and> (length path = 2 \<or> path ! 2 \<noteq> SLASH)
           then ([SLASH, SLASH], 2)
           else if path ! 0 = SLASH then ([SLASH], 1)
           else (cwd sys, 0 :: nat))
        in if resolved = [] then []
           else case realpath_loop sys ensure_exists path i resolved of
             None \<Rightarrow> []
           | Some r \<Rightarrow> FromNormalized (if length r > 1 \<and> last r = SLASH then butlast r else r))"

text \<open>\<^verbatim>\<open>NormalizePath\<close> outside Windows; the last argument only matters on Windows.\<close>

definition NormalizePath :: "posix \<Rightarrow> string \<Rightarrow> bool \<Rightarrow> bool \<Rightarrow> AbsolutePath" where
  "NormalizePath sys path0 ensure_exists force_lower_on_windows =
     RealPathNotExpandSymlink sys path0 ensure_exists"

definition AbsolutePath_of :: "posix \<Rightarrow> string \<Rightarrow> AbsolutePath" where
  "AbsolutePath_of sys path = (if \<not> IsAbsolutePath path then [] else NormalizePath sys path False True)"


section \<open>Splitting and joining\<close>

fun join :: "string \<Rightarrow> string list \<Rightarrow> string" where
  "join d [] = []"
| "join d [x] = x"
| "join d (x # y # zs) = x @ d @ join d (y # zs)"

lemma join_Cons: "xs \<noteq> [] \<Longrightarrow> join d (x # xs) = x @ d @ join d xs"
  by (cases xs) auto

lemma split_from_not_Nil [simp]: "split_from s d k \<noteq> []"
  by (subst split_from.simps) (auto split: option.splits)

lemma find_slices:
  assumes "str_find d s k = Some i"
  shows "drop k s = substr k (i - k) s @ d @ drop (i + length d) s"
proof -
  have "k \<le> i" "take (length d) (drop i s) = d" using assms by (auto simp: str_find_Some_iff starts_at_def)
  then have "drop i s = d @ drop (i + length d) s" by (metis append_take_drop_id drop_drop add.commute)
  moreover have "drop k s = take (i - k) (drop k s) @ drop i s"
    using \<open>k \<le> i\<close> by (metis append_take_drop_id drop_drop le_add_diff_inverse2)
  ultimately show ?thesis by (simp add: substr_def)
qed

lemma join_split_from: "d \<noteq> [] \<Longrightarrow> join d (split_from s d k) = drop k s"
proof (induction s d k rule: split_from.induct)
  case (1 s d k)
  show ?case
  proof (cases "str_find d s k")
    case None
    with 1 show ?thesis by (simp add: split_from.simps)
  next
    case (Some i)
    with 1 show ?thesis by (simp add: split_from.simps [of s d k] join_Cons find_slices)
  qed
qed

lemma replace_from_join: "d \<noteq> [] \<Longrightarrow> replace_from s d t k = join t (split_from s d k)"
proof (induction s d k rule: split_from.induct)
  case (1 s d k)
  then show ?case
    by (cases "str_find d s k") (simp_all add: split_from.simps [of s d k] replace_from.simps [of s d t k] join_Cons)
qed

lemma split_from_free: "d \<noteq> [] \<Longrightarrow> p \<in> set (split_from s d k) \<Longrightarrow> \<not> starts_at p i d"
proof (induction s d k rule: split_from.induct)
  case (1 s d k)
  show ?case
  proof
    assume st: "starts_at p i d"
    have i: "i + length d \<le> length p"
      using st 1(2) by (cases "i \<le> length p") (auto simp: starts_at_length, simp add: starts_at_def)
    show False
    proof (cases "str_find d s k")
      case None
      then have p: "p = drop k s" using 1 by (simp add: split_from.simps [of s d k])
      from st have "starts_at s (k + i) d" by (simp add: p starts_at_def add.commute)
      moreover have "k + i \<le> length s" using i 1(2) by (cases d) (auto simp: p)
      ultimately show False using None by (simp add: str_find_None_iff)
    next
      case (Some j)
      then consider "p = substr k (j - k) s" | "p \<in> set (split_from s d (j + length d))"
        using 1 by (auto simp: split_from.simps [of s d k])
      then show False
      proof cases
        case 1
        then have "i + length d \<le> j - k" using i by (simp add: substr_def)
        moreover from this st 1 have "starts_at s (k + i) d"
          by (simp add: starts_at_def substr_def add.commute) (metis append_take_drop_id take_drop take_take min.absorb1 drop_drop add.commute)
        moreover have "k + i < j" using calculation(1) \<open>d \<noteq> []\<close> by (cases d) auto
        ultimately show False using Some by (auto simp: str_find_Some_iff)
      next
        case 2
        with "1.IH" [OF \<open>d \<noteq> []\<close> Some \<open>d \<noteq> []\<close>] st show False by simp
      qed
    qed
  qed
qed

lemma split_from_join:
  assumes "ps \<noteq> []" "list_all (\<lambda>p. c \<notin> set p) ps"
  shows "split_from (pre @ join [c] ps) [c] (length pre) = ps"
  using assms
proof (induction ps arbitrary: pre)
  case Nil
  then show ?case by simp
next
  case (Cons p ps)
  show ?case
  proof (cases "ps = []")
    case True
    then have "str_find [c] (pre @ p) (length pre) = None"
      using Cons.prems by (auto simp: str_find_char str_find_if_None_iff nth_append)
    with True show ?thesis by (simp add: split_from.simps)
  next
    case False
    let ?s = "pre @ p @ c # join [c] ps"
    have "str_find [c] ?s (length pre) = Some (length pre + length p)"
      using Cons.prems by (auto simp: str_find_char str_find_if_Some_iff nth_append)
    then have "split_from ?s [c] (length pre) = p # split_from ?s [c] (length pre + length p + 1)"
      by (simp add: split_from.simps [of ?s] substr_def)
    also have "split_from ?s [c] (length pre + length p + 1) = ps"
      using Cons.IH [of "pre @ p @ [c]"] Cons.prems False by simp
    finally show ?thesis using False by (simp add: join_Cons)
  qed
qed

section \<open>Line ends\<close>

text \<open>The reference: put a carriage return before each line end that lacks one.\<close>

fun crlf :: "bool \<Rightarrow> string \<Rightarrow> string" where
  "crlf b [] = []"
| "crlf b (c # cs) = (if c = LF \<and> \<not> b then [CR, LF] else [c]) @ crlf (c = CR) cs"

lemma crlf_append:
  "LF \<notin> set pre \<Longrightarrow> crlf b (pre @ cs) = pre @ crlf (if pre = [] then b else last pre = CR) cs"
  by (induction b pre rule: crlf.induct) auto

lemma crlf_id: "LF \<notin> set s \<Longrightarrow> crlf b s = s"
  using crlf_append [of s b "[]"] by simp

lemma rn_loop_crlf: "rn_loop dn ahead = rev dn @ crlf (dn \<noteq> [] \<and> hd dn = CR) ahead"
proof (induction dn ahead rule: rn_loop.induct)
  case (1 dn ahead)
  let ?p = "takeWhile (\<lambda>c. c \<noteq> LF) ahead"
  show ?case
  proof (cases "dropWhile (\<lambda>c. c \<noteq> LF) ahead")
    case Nil
    then have "LF \<notin> set ahead" by auto
    then show ?thesis unfolding rn_loop.simps [of dn ahead] Nil by (simp add: crlf_id)
  next
    case (Cons c rest)
    then have c: "c = LF" by (auto simp: dropWhile_eq_Cons_conv)
    have a: "ahead = ?p @ LF # rest" using Cons c takeWhile_dropWhile_id [of "\<lambda>c. c \<noteq> LF" ahead] by simp
    have noLF: "LF \<notin> set ?p" by (auto dest: set_takeWhileD)
    let ?b = "rev ?p @ dn"
    have split: "crlf (dn \<noteq> [] \<and> hd dn = CR) ahead = ?p @ crlf (?b \<noteq> [] \<and> hd ?b = CR) (LF # rest)"
      by (subst a, subst crlf_append [OF noLF]) (auto simp: hd_append hd_rev)
    show ?thesis
    proof (cases "?b \<noteq> [] \<and> hd ?b = CR")
      case True
      with 1(1) [OF Cons refl True] Cons split show ?thesis
        by (simp add: rn_loop.simps [of dn ahead] Let_def)
    next
      case False
      from 1(2) [OF Cons refl False] Cons split False show ?thesis
        by (auto simp: rn_loop.simps [of dn ahead] Let_def)
    qed
  qed
qed

lemma bare_crlf: "bare b (crlf b s) = 0"
  by (induction b s rule: crlf.induct) auto

lemma crlf_no_bare: "bare b s = 0 \<Longrightarrow> crlf b s = s"
  by (induction b s rule: crlf.induct) (auto split: if_splits)

text \<open>A text without its carriage returns in front of line ends.\<close>

fun unix_lines :: "string \<Rightarrow> string" where
  "unix_lines [] = []"
| "unix_lines [c] = [c]"
| "unix_lines (c # d # cs) = (if c = CR \<and> d = LF then unix_lines (d # cs) else c # unix_lines (d # cs))"

lemma unix_lines_crlf_Cons: "unix_lines (p # crlf (p = CR) s) = unix_lines (p # s)"
proof (induction s arbitrary: p)
  case Nil
  then show ?case by simp
next
  case (Cons c s)
  show ?case using Cons [of c] by (cases "c = LF \<and> p \<noteq> CR") auto
qed

lemma unix_lines_crlf: "unix_lines (crlf False s) = unix_lines s"
proof (cases s)
  case Nil
  then show ?thesis by simp
next
  case (Cons c cs)
  with unix_lines_crlf_Cons [of c cs] show ?thesis by auto
qed

section \<open>Path components\<close>

text \<open>
  The abstract state of path resolution: whether the path is rooted at \<^verbatim>\<open>//\<close>, and the
  components so far.
\<close>

type_synonym rooted = "bool \<times> string list"

definition path_step :: "string \<Rightarrow> rooted \<Rightarrow> rooted" where
  "path_step tok r =
     (case r of (two, cs) \<Rightarrow>
        if tok = [] \<or> tok = ''.'' then (two, cs)
        else if tok = ''..'' then if cs \<noteq> [] then (two, butlast cs) else (False, [])
        else (two, cs @ [tok]))"

definition root_text :: "bool \<Rightarrow> string" where
  "root_text two = (if two then [SLASH, SLASH] else [SLASH])"

definition path_text :: "rooted \<Rightarrow> string" where
  "path_text r = (case r of (two, cs) \<Rightarrow> if cs = [] then [SLASH] else root_text two @ join [SLASH] cs)"

definition good_component :: "string \<Rightarrow> bool" where
  "good_component c \<longleftrightarrow> c \<noteq> [] \<and> c \<noteq> ''.'' \<and> c \<noteq> ''..'' \<and> SLASH \<notin> set c"

definition good_path :: "rooted \<Rightarrow> bool" where
  "good_path r \<longleftrightarrow> list_all good_component (snd r)"

definition path_start :: "rooted \<Rightarrow> string \<Rightarrow> rooted" where
  "path_start wd path =
     (if length path \<ge> 2 \<and> path ! 0 = SLASH \<and> path ! 1 = SLASH \<and> (length path = 2 \<or> path ! 2 \<noteq> SLASH)
      then (True, [])
      else if path ! 0 = SLASH then (False, [])
      else wd)"

definition resolve :: "rooted \<Rightarrow> string \<Rightarrow> rooted" where
  "resolve wd path = fold path_step (SplitString path [SLASH]) (path_start wd path)"

definition dir_text :: "rooted \<Rightarrow> string" where
  "dir_text r = root_text (fst r) @ concat (map (\<lambda>c. c @ [SLASH]) (snd r))"

lemma dir_text_snoc: "dir_text (two, cs @ [c]) = dir_text (two, cs) @ c @ [SLASH]"
  by (simp add: dir_text_def)

lemma dir_text_last: "dir_text r \<noteq> [] \<and> last (dir_text r) = SLASH"
proof (cases r)
  case (Pair two cs)
  show ?thesis
  proof (cases cs rule: rev_cases)
    case Nil
    then show ?thesis by (simp add: Pair dir_text_def root_text_def)
  next
    case (snoc ds c)
    show ?thesis by (simp add: Pair snoc dir_text_snoc)
  qed
qed

lemma join_dir: "cs \<noteq> [] \<Longrightarrow> join [SLASH] cs @ [SLASH] = concat (map (\<lambda>c. c @ [SLASH]) cs)"
proof (induction cs)
  case (Cons c cs)
  then show ?case by (cases "cs = []") (simp_all add: join_Cons)
qed simp

lemma path_text_dir: "snd r \<noteq> [] \<Longrightarrow> path_text r = butlast (dir_text r)"
proof -
  assume "snd r \<noteq> []"
  then have "path_text r @ [SLASH] = dir_text r"
    using join_dir [of "snd r"] by (cases r) (auto simp: path_text_def dir_text_def)
  then show ?thesis by (metis butlast_snoc)
qed

lemma rfind_last:
  assumes "\<And>x. x \<in> set c \<Longrightarrow> \<not> P x" "P a"
  shows "str_rfind_if P (s @ a # c) = Some (length s)"
proof -
  have "find (\<lambda>i. P ((s @ a # c) ! i)) (rev [0..<length (s @ a # c)]) = Some (length s)"
    using assms(1)
  proof (induction c rule: rev_induct)
    case Nil
    then show ?case using assms(2) by simp
  next
    case (snoc x c)
    have IH: "find (\<lambda>i. P ((s @ a # c) ! i)) (rev [0..<length (s @ a # c)]) = Some (length s)"
      using snoc by simp
    have "find (\<lambda>i. P ((s @ a # c @ [x]) ! i)) (rev [0..<length (s @ a # c)]) =
        find (\<lambda>i. P ((s @ a # c) ! i)) (rev [0..<length (s @ a # c)])"
      by (rule find_cong) (auto simp: nth_append nth_Cons split: nat.splits)
    moreover have "\<not> P ((s @ a # c @ [x]) ! length (s @ a # c))"
      using snoc.prems [of x] by (simp add: nth_append)
    ultimately show ?case using IH by simp
  qed
  then show ?thesis by (simp add: str_rfind_if_def)
qed

lemma strip_component_dir:
  assumes "good_path r" "length (dir_text r) > 1"
  shows "strip_component (dir_text r) = dir_text (path_step ''..'' r)"
proof (cases r)
  case (Pair two cs)
  show ?thesis
  proof (cases cs rule: rev_cases)
    case Nil
    then have "two" using assms(2) Pair by (auto simp: dir_text_def root_text_def split: if_splits)
    with Nil Pair show ?thesis
      by (simp add: strip_component_def dir_text_def root_text_def path_step_def str_rfind_if_def)
  next
    case (snoc ds c)
    obtain s where s: "dir_text (two, ds) = s @ [SLASH]"
      using dir_text_last [of "(two, ds)"] by (metis append_butlast_last_id)
    have "SLASH \<notin> set c" using assms(1) Pair snoc by (simp add: good_path_def good_component_def)
    then have "str_rfind_if (\<lambda>x. x = SLASH) (s @ SLASH # c) = Some (length s)"
      by (intro rfind_last) auto
    then show ?thesis
      by (simp add: Pair snoc dir_text_snoc s strip_component_def path_step_def)
  qed
qed

text \<open>The string \<open>x\<close> represents \<open>r\<close>, with or without a trailing slash.\<close>

definition represents :: "string \<Rightarrow> rooted \<Rightarrow> bool" where
  "represents x r \<longleftrightarrow> x \<noteq> [] \<and> slash_terminated x = dir_text r \<and> good_path r"

lemma represents_dir: "good_path r \<Longrightarrow> represents (dir_text r) r"
  using dir_text_last [of r] by (simp add: represents_def slash_terminated_def)

lemma represents_push:
  assumes "good_path (two, cs)" "good_component c"
  shows "represents (dir_text (two, cs) @ c) (two, cs @ [c])"
proof -
  have "c \<noteq> []" "last c \<noteq> SLASH"
    using assms(2) last_in_set [of c] unfolding good_component_def by metis+
  with assms show ?thesis by (simp add: represents_def slash_terminated_def dir_text_snoc good_path_def)
qed

lemma good_path_step: "good_path r \<Longrightarrow> SLASH \<notin> set tok \<Longrightarrow> good_path (path_step tok r)"
  by (cases r) (auto simp: path_step_def good_path_def good_component_def list_all_iff dest: in_set_butlastD)

lemma dotdot_represents:
  "good_path r \<Longrightarrow>
   represents (if length (dir_text r) > 1 then strip_component (dir_text r) else dir_text r) (path_step ''..'' r)"
proof (cases "length (dir_text r) > 1")
  case True
  assume "good_path r"
  with True show ?thesis
    by (simp add: strip_component_dir represents_dir good_path_step)
next
  case False
  assume g: "good_path r"
  have "dir_text r \<noteq> []" using dir_text_last by blast
  then have "r = (False, [])" using False
    by (cases r) (auto simp: dir_text_def root_text_def split: if_splits)
  with g False show ?thesis by (simp add: path_step_def represents_dir)
qed

lemma path_step_nop [simp]: "path_step [] r = r" "path_step ''.'' r = r"
  by (simp_all add: path_step_def split: prod.splits)

lemma split_token:
  assumes "i < length path" "j = (case str_find [SLASH] path i of None \<Rightarrow> length path | Some j \<Rightarrow> j)"
  shows "SLASH \<notin> set (substr i (j - i) path)"
    and "fold path_step (split_from path [SLASH] i) r =
         fold path_step (split_from path [SLASH] (j + 1)) (path_step (substr i (j - i) path) r)"
proof -
  show "SLASH \<notin> set (substr i (j - i) path)"
    using assms by (auto simp: in_set_conv_nth substr_def str_find_char str_find_if_None_iff str_find_if_Some_iff
        split: option.splits)
  show "fold path_step (split_from path [SLASH] i) r =
      fold path_step (split_from path [SLASH] (j + 1)) (path_step (substr i (j - i) path) r)"
  proof (cases "str_find [SLASH] path i")
    case None
    have "str_find [SLASH] path (length path + 1) = None" by (simp add: str_find_def)
    with None assms show ?thesis
      by (simp add: split_from.simps [of path "[SLASH]" i] split_from.simps [of path "[SLASH]" "Suc (length path)"] substr_def)
  next
    case (Some k)
    with assms show ?thesis by (simp add: split_from.simps [of path "[SLASH]" i])
  qed
qed

lemma split_from_end:
  assumes "\<not> i < length path"
  shows "fold path_step (split_from path [SLASH] i) r = r"
proof -
  have "str_find [SLASH] path i = None" using assms by (auto simp: str_find_char str_find_if_None_iff)
  with assms show ?thesis by (simp add: split_from.simps [of path "[SLASH]" i])
qed

lemma realpath_loop_represents:
  assumes "represents x r"
  shows "\<exists>y. realpath_loop sys False path i x = Some y \<and>
           represents y (fold path_step (split_from path [SLASH] i) r)"
  using assms
proof (induction "Suc (length path) - i" arbitrary: i x r rule: less_induct)
  case less
  show ?case
  proof (cases "i < length path")
    case False
    with less.prems show ?thesis by (simp add: realpath_loop.simps split_from_end)
  next
    case True
    define j where "j = (case str_find [SLASH] path i of None \<Rightarrow> length path | Some j \<Rightarrow> j)"
    define tok where "tok = substr i (j - i) path"
    have j: "i \<le> j" using True str_find_bound [of "[SLASH]" path i] by (auto simp: j_def split: option.splits)
    note tk = split_token [OF True j_def]
    have x1: "slash_terminated x = dir_text r" "good_path r" using less.prems by (simp_all add: represents_def)
    have st: "realpath_loop sys False path i x =
       (if tok = [] \<or> tok = ''.'' then realpath_loop sys False path (j + 1) (dir_text r)
        else if tok = ''..'' then
          realpath_loop sys False path (j + 1) (if length (dir_text r) > 1 then strip_component (dir_text r) else dir_text r)
        else realpath_loop sys False path (j + 1) (dir_text r @ tok))"
      using True x1(1) unfolding realpath_loop.simps [of sys False path i x] j_def [symmetric] Let_def tok_def [symmetric]
      by simp
    have ih: "\<exists>y. realpath_loop sys False path (j + 1) x' = Some y \<and>
        represents y (fold path_step (split_from path [SLASH] i) r)"
      if "represents x' (path_step tok r)" for x'
      using less.hyps [of "j + 1" x' "path_step tok r"] that j True tk(2) by (simp add: tok_def)
    have push: "represents (dir_text r @ tok) (path_step tok r)"
      if "tok \<noteq> []" "tok \<noteq> ''.''" "tok \<noteq> ''..''"
      using that x1(2) tk(1) represents_push [of "fst r" "snd r" tok]
      by (cases r) (auto simp: path_step_def good_component_def tok_def)
    show ?thesis
      unfolding st using ih push dotdot_represents [OF x1(2)] represents_dir [OF x1(2)]
      by (cases "tok = [] \<or> tok = ''.''") auto
  qed
qed

lemma represents_final:
  assumes "represents y r"
  shows "(if length y > 1 \<and> last y = SLASH then butlast y else y) = path_text r"
proof (cases "last y = SLASH")
  case True
  then have y: "y = dir_text r" using assms by (auto simp: represents_def slash_terminated_def)
  show ?thesis
  proof (cases "snd r = []")
    case True
    then show ?thesis using y by (cases r) (auto simp: dir_text_def path_text_def root_text_def)
  next
    case False
    then have "length y > 1" using y by (cases r; cases "snd r") (auto simp: dir_text_def root_text_def)
    with y False True show ?thesis using \<open>last y = SLASH\<close> by (simp add: path_text_dir)
  qed
next
  case False
  then have "y @ [SLASH] = dir_text r" using assms by (simp add: represents_def slash_terminated_def)
  moreover have "snd r \<noteq> []"
  proof
    assume "snd r = []"
    then have "y @ [SLASH] = root_text (fst r)" using calculation by (simp add: dir_text_def)
    then show False using False assms by (auto simp: root_text_def represents_def split: if_splits)
  qed
  ultimately show ?thesis using False by (metis butlast_snoc path_text_dir)
qed

lemma path_text_absolute: "IsAbsolutePath (path_text r)"
  by (cases r) (simp add: path_text_def root_text_def IsAbsolutePath_def IsUnixAbsolutePath_def)

lemma path_text_represents: "good_path (False, cs) \<Longrightarrow> represents (path_text (False, cs)) (False, cs)"
proof (cases cs rule: rev_cases)
  case Nil
  then show ?thesis
    by (simp add: path_text_def represents_def slash_terminated_def dir_text_def root_text_def good_path_def)
next
  case (snoc ds c)
  assume g: "good_path (False, cs)"
  then have "good_path (False, ds)" "good_component c" using snoc by (simp_all add: good_path_def)
  from represents_push [OF this] show ?thesis
    using path_text_dir [of "(False, cs)"] snoc by (simp add: dir_text_snoc butlast_append)
qed

lemma fold_good: "list_all good_component cs \<Longrightarrow> fold path_step cs (two, ds) = (two, ds @ cs)"
  by (induction cs arbitrary: ds) (auto simp: path_step_def good_component_def)

lemma split_skip_slash:
  assumes "i < length path" "path ! i = SLASH"
  shows "fold path_step (split_from path [SLASH] i) r = fold path_step (split_from path [SLASH] (i + 1)) r"
proof -
  have "str_find [SLASH] path i = Some i" using assms by (auto simp: str_find_char str_find_if_Some_iff)
  then show ?thesis using split_token(2) [OF assms(1) refl, of r] by (simp add: substr_def)
qed

lemma good_fold: "good_path r \<Longrightarrow> list_all (\<lambda>t. SLASH \<notin> set t) ts \<Longrightarrow> good_path (fold path_step ts r)"
  by (induction ts arbitrary: r) (auto simp: good_path_step)

lemma split_no_slash: "list_all (\<lambda>t. SLASH \<notin> set t) (SplitString path [SLASH])"
proof -
  have "SLASH \<notin> set t" if "t \<in> set (split_from path [SLASH] 0)" for t
    using split_from_free [OF _ that] by (auto simp: in_set_conv_nth starts_at_Cons_iff)
  then show ?thesis by (auto simp: list_all_iff SplitString_def)
qed

lemma good_resolve: "good_path wd \<Longrightarrow> good_path (resolve wd path)"
  unfolding resolve_def
  by (rule good_fold [OF _ split_no_slash]) (auto simp: path_start_def good_path_def)

lemma resolve_path_text:
  assumes "good_path r"
  shows "path_text (resolve wd (path_text r)) = path_text r"
proof (cases r)
  case (Pair two cs)
  show ?thesis
  proof (cases "cs = []")
    case True
    have "split_from [SLASH] [SLASH] 0 = [[], []]" by code_simp
    with True Pair show ?thesis by (simp add: path_text_def resolve_def path_start_def SplitString_def)
  next
    case False
    obtain c ds where cs: "cs = c # ds" using False by (cases cs) auto
    have good: "list_all good_component cs" using assms Pair by (simp add: good_path_def)
    obtain a as where c: "c = a # as" "a \<noteq> SLASH" using good cs by (cases c) (auto simp: good_component_def)
    have free: "list_all (\<lambda>p. SLASH \<notin> set p) cs" using good by (auto simp: list_all_iff good_component_def)
    let ?p = "(if two then [[], []] else [[]]) @ cs"
    have "path_text r = join [SLASH] ?p" using False by (simp add: Pair path_text_def root_text_def join_Cons)
    then have "SplitString (path_text r) [SLASH] = ?p"
      using split_from_join [of ?p SLASH "[]"] free by (simp add: SplitString_def)
    moreover obtain ys where "join [SLASH] cs = a # ys" using cs c by (cases ds) auto
    then have "path_start wd (path_text r) = (two, [])"
      using c(2) False by (auto simp: Pair path_text_def root_text_def path_start_def nth_Cons split: nat.splits)
    ultimately show ?thesis by (simp add: resolve_def fold_good [OF good] Pair)
  qed
qed

lemma RealPath_resolve:
  assumes "path \<noteq> []" "path ! 0 \<noteq> NUL" "cwd sys = path_text (False, wd)" "good_path (False, wd)"
  shows "RealPathNotExpandSymlink sys path False = path_text (resolve (False, wd) path)"
proof -
  let ?two = "length path \<ge> 2 \<and> path ! 0 = SLASH \<and> path ! 1 = SLASH \<and> (length path = 2 \<or> path ! 2 \<noteq> SLASH)"
  define x i where "x = (if ?two then [SLASH, SLASH] else if path ! 0 = SLASH then [SLASH] else cwd sys)"
    and "i = (if ?two then 2 else if path ! 0 = SLASH then 1 else (0 :: nat))"
  have rep: "represents x (path_start (False, wd) path)"
    using represents_dir [of "(True, [])"] represents_dir [of "(False, [])"] path_text_represents [of wd] assms(3,4)
    by (auto simp: x_def path_start_def dir_text_def root_text_def good_path_def)
  have skip: "fold path_step (split_from path [SLASH] i) r = fold path_step (SplitString path [SLASH]) r" for r
    using split_skip_slash [of 0 path r] split_skip_slash [of 1 path r] assms(1)
    by (auto simp: i_def SplitString_def numeral_2_eq_2)
  from realpath_loop_represents [OF rep, of sys path i] obtain y where y:
    "realpath_loop sys False path i x = Some y" "represents y (resolve (False, wd) path)"
    by (auto simp: skip resolve_def)
  have "x \<noteq> []" using rep by (simp add: represents_def)
  moreover have "(if ?two then ([SLASH, SLASH], 2) else if path ! 0 = SLASH then ([SLASH], 1) else (cwd sys, 0)) = (x, i)"
    by (auto simp: x_def i_def)
  ultimately show ?thesis
    using assms(1,2) y(1) represents_final [OF y(2)]
    unfolding RealPathNotExpandSymlink_def by (simp add: FromNormalized_def path_text_absolute)
qed

section \<open>Properties\<close>

text \<open>C38: \<^verbatim>\<open>SplitString\<close> loses nothing and splits everywhere: joining the pieces with the
  delimiter gives the string back, no piece contains the delimiter, and \<^verbatim>\<open>ReplaceAll\<close> is
  the same splitting followed by a join with the replacement.\<close>

theorem SplitString_ReplaceAll:
  assumes "d \<noteq> []"
  shows "join d (SplitString s d) = s \<and> list_all (\<lambda>p. str_find d p 0 = None) (SplitString s d) \<and>
         ReplaceAll s d t = join t (SplitString s d)"
  using assms split_from_free [OF assms, of _ s 0]
  by (simp add: SplitString_def ReplaceAll_def join_split_from replace_from_join list_all_iff str_find_None_iff)

theorem SplitString_ReplaceAll_witness:
  "join ''::'' (SplitString ''a::b:::c'' ''::'') = ''a::b:::c'' \<and>
   list_all (\<lambda>p. str_find ''::'' p 0 = None) (SplitString ''a::b:::c'' ''::'') \<and>
   ReplaceAll ''a::b:::c'' ''::'' ''/'' = join ''/'' (SplitString ''a::b:::c'' ''::'')"
  by (rule SplitString_ReplaceAll) simp

text \<open>\<^verbatim>\<open>UpdateToRnNewlines\<close> ends on every input, leaves no line end without a carriage return,
  adds nothing but those carriage returns, and is idempotent.\<close>

theorem UpdateToRnNewlines_correct:
  "bare False (UpdateToRnNewlines s) = 0 \<and> unix_lines (UpdateToRnNewlines s) = unix_lines s \<and>
   UpdateToRnNewlines (UpdateToRnNewlines s) = UpdateToRnNewlines s"
  by (simp add: UpdateToRnNewlines_def rn_loop_crlf bare_crlf crlf_no_bare unix_lines_crlf)

text \<open>C37: Path normalisation (without existence checks) computes the stack machine on path
  components: empty and \<^verbatim>\<open>.\<close> components vanish, \<^verbatim>\<open>..\<close> pops, anything else is pushed, starting from
  the root or from the working directory.\<close>

theorem RealPath_refines_resolve:
  assumes "path \<noteq> []" "path ! 0 \<noteq> NUL" "cwd sys = path_text (False, wd)" "good_path (False, wd)"
  shows "RealPathNotExpandSymlink sys path False = path_text (resolve (False, wd) path)"
  using assms by (rule RealPath_resolve)

definition sample_posix :: posix where
  "sample_posix = \<lparr>cwd = ''/home/me'', stat = (\<lambda>p. if p = ''/home'' then Some True else None)\<rparr>"

theorem RealPath_refines_resolve_witness:
  "RealPathNotExpandSymlink sample_posix ''../x/./y//'' False =
     path_text (resolve (False, [''home'', ''me'']) ''../x/./y//'')"
  by (rule RealPath_refines_resolve) (simp_all add: sample_posix_def path_text_def root_text_def good_path_def good_component_def)

text \<open>Path normalisation is idempotent: a path it returns is returned unchanged when it is
  normalised again, from any working directory.\<close>

theorem RealPath_idempotent:
  assumes "cwd sys = path_text (False, wd)" "good_path (False, wd)"
  shows "RealPathNotExpandSymlink sys (RealPathNotExpandSymlink sys path False) False =
         RealPathNotExpandSymlink sys path False"
proof (cases "path = [] \<or> path ! 0 = NUL")
  case True
  then have "RealPathNotExpandSymlink sys path False = []"
    unfolding RealPathNotExpandSymlink_def by (elim disjE) simp_all
  moreover have "RealPathNotExpandSymlink sys [] False = []" unfolding RealPathNotExpandSymlink_def by simp
  ultimately show ?thesis by simp
next
  case False
  then have eq: "RealPathNotExpandSymlink sys path False = path_text (resolve (False, wd) path)"
    using RealPath_resolve assms by blast
  have "good_path (resolve (False, wd) path)" by (rule good_resolve [OF assms(2)])
  moreover have "path_text r \<noteq> []" "path_text r ! 0 \<noteq> NUL" for r
    by (simp_all add: path_text_def root_text_def split: prod.splits)
  ultimately show ?thesis
    using RealPath_resolve [OF _ _ assms, of "path_text (resolve (False, wd) path)"] resolve_path_text [of "resolve (False, wd) path"] unfolding eq by simp
qed

theorem RealPath_idempotent_witness:
  "RealPathNotExpandSymlink sample_posix (RealPathNotExpandSymlink sample_posix ''//srv/../a/.//b'' False) False =
   RealPathNotExpandSymlink sample_posix ''//srv/../a/.//b'' False"
  by (rule RealPath_idempotent [where wd = "[''home'', ''me'']"])
    (simp_all add: sample_posix_def path_text_def root_text_def good_path_def good_component_def)

lemma RealPath_sample: "RealPathNotExpandSymlink sample_posix ''../x/./y//'' False = ''/home/x/y''"
  by code_simp

lemma realpath_loop_ensure:
  "realpath_loop sys True path i x = Some y \<Longrightarrow> realpath_loop sys False path i x = Some y"
proof (induction "Suc (length path) - i" arbitrary: i x rule: less_induct)
  case less
  show ?case
  proof (cases "i < length path")
    case False
    with less.prems show ?thesis by (simp add: realpath_loop.simps [of sys _ path i])
  next
    case True
    define j where "j = (case str_find [SLASH] path i of None \<Rightarrow> length path | Some j \<Rightarrow> j)"
    have j: "i \<le> j" using True str_find_bound [of "[SLASH]" path i] by (auto simp: j_def split: option.splits)
    have ih: "realpath_loop sys False path (j + 1) x' = Some y" if "realpath_loop sys True path (j + 1) x' = Some y" for x'
      using less.hyps [of "j + 1" x'] that j True by simp
    from less.prems True ih show ?thesis
      unfolding realpath_loop.simps [of sys _ path i] j_def [symmetric] Let_def by (auto split: if_splits)
  qed
qed

text \<open>Existence checks only ever reject: when normalisation with \<^verbatim>\<open>ensure_exists\<close> succeeds,
  its result is the one without the checks.\<close>

theorem RealPath_ensure_exists:
  "RealPathNotExpandSymlink sys path True \<in> {[], RealPathNotExpandSymlink sys path False}"
  using realpath_loop_ensure [of sys path]
  by (auto simp: RealPathNotExpandSymlink_def Let_def split: option.splits prod.splits)

end
