(* ===== verification/Lsp_Uri.thy ===== *)
theory Lsp_Uri
  imports Lsp_Utils
begin

text \<open>
  URIs and paths: the file URIs of \<^verbatim>\<open>src/lsp/lsp.cpp\<close> (\<^verbatim>\<open>lsDocumentUri\<close>), \<^verbatim>\<open>lsp::Uri\<close> with
  percent encoding (\<^verbatim>\<open>src/lsp/uri.cpp\<close>) and the prefix remapping of
  \<^verbatim>\<open>src/lsp/path_mapping.cpp\<close>.  The repository encodes and decodes bytes in three places; the
  locale \<open>percent_coding\<close> states what an encoder and its decoder promise each other and is
  interpreted for each of the three pairs.
\<close>

unbundle bit_operations_syntax

section \<open>Percent encoding\<close>

text \<open>The bytes \<^verbatim>\<open>'%'\<close>, \<^verbatim>\<open>hex[c >> 4]\<close>, \<^verbatim>\<open>hex[c & 0xF]\<close>.\<close>

definition escape_byte :: "char \<Rightarrow> string" where
  "escape_byte c = [CHR ''%'', hex_upper (drop_bit 4 (byte_of c)), hex_upper (byte_of c AND 0xF)]"

definition IsUnreserved :: "char \<Rightarrow> bool" where
  "IsUnreserved c \<longleftrightarrow> is_alnum_ascii c \<or> c = CHR ''-'' \<or> c = CHR ''_'' \<or> c = CHR ''.'' \<or> c = CHR ''~''"

definition IsTestPathSafe :: "char \<Rightarrow> bool" where
  "IsTestPathSafe c \<longleftrightarrow> IsUnreserved c \<or> c = SLASH \<or> c = CHR '':''"

definition NormalizeTestPath :: "string \<Rightarrow> string" where
  "NormalizeTestPath path =
     dropWhile (\<lambda>c. c = SLASH) (map (\<lambda>c. if c = BACKSLASH then SLASH else c) path)"

definition PercentEncodeTestPath :: "string \<Rightarrow> string" where
  "PercentEncodeTestPath value =
     concat (map (\<lambda>c. if IsTestPathSafe c then [c] else escape_byte c) value)"

definition percent_encode_uri_component :: "string \<Rightarrow> string" where
  "percent_encode_uri_component value =
     concat (map (\<lambda>c. if IsUnreserved c then [c] else escape_byte c) value)"

fun percent_decode_uri_component :: "string \<Rightarrow> string" where
  "percent_decode_uri_component [] = []"
| "percent_decode_uri_component (c # cs) =
     (case cs of
        a # b # rest \<Rightarrow>
          if c = CHR ''%'' \<and> hex_value a \<ge> 0 \<and> hex_value b \<ge> 0
          then char_of (push_bit 4 (nat (hex_value a)) OR nat (hex_value b)) # percent_decode_uri_component rest
          else c # percent_decode_uri_component cs
      | _ \<Rightarrow> c # percent_decode_uri_component cs)"

section \<open>File URIs\<close>

definition IsWindowsDrivePath :: "string \<Rightarrow> bool" where
  "IsWindowsDrivePath path \<longleftrightarrow> length path \<ge> 2 \<and> path ! 1 = CHR '':'' \<and> is_alpha_ascii (path ! 0)"

definition ascii_lower :: "char \<Rightarrow> char" where
  "ascii_lower c = (if is_upper_ascii c then char_of (byte_of c - 65 + 97) else c)"

definition equal_ignore_case :: "char \<Rightarrow> char \<Rightarrow> bool" where
  "equal_ignore_case lhs rhs \<longleftrightarrow> ascii_lower lhs = ascii_lower rhs"

definition StartsWithFileScheme :: "string \<Rightarrow> bool" where
  "StartsWithFileScheme uri \<longleftrightarrow>
     length uri \<ge> 7 \<and> equal_ignore_case (uri ! 0) CHR ''f'' \<and> equal_ignore_case (uri ! 1) CHR ''i'' \<and>
     equal_ignore_case (uri ! 2) CHR ''l'' \<and> equal_ignore_case (uri ! 3) CHR ''e'' \<and>
     uri ! 4 = CHR '':'' \<and> uri ! 5 = SLASH \<and> uri ! 6 = SLASH"

definition IsLocalhostAuthority :: "string \<Rightarrow> bool" where
  "IsLocalhostAuthority authority \<longleftrightarrow>
     length authority = 9 \<and> list_all2 (\<lambda>a l. ascii_lower a = l) authority ''localhost''"

definition IsHex :: "char \<Rightarrow> bool" where
  "IsHex c \<longleftrightarrow> in_range CHR ''0'' CHR ''9'' c \<or> in_range CHR ''a'' CHR ''f'' c \<or> in_range CHR ''A'' CHR ''F'' c"

definition HexValue :: "char \<Rightarrow> int" where
  "HexValue c =
     (if in_range CHR ''0'' CHR ''9'' c then int (byte_of c) - 48
      else if in_range CHR ''a'' CHR ''f'' c then int (byte_of c) - 97 + 10
      else int (byte_of c) - 65 + 10)"

definition IsUnreservedUriPathByte :: "char \<Rightarrow> bool" where
  "IsUnreservedUriPathByte c \<longleftrightarrow>
     is_lower_ascii c \<or> is_upper_ascii c \<or> is_digit c \<or>
     c = CHR ''-'' \<or> c = CHR ''.'' \<or> c = CHR ''_'' \<or> c = CHR ''~''"

definition NormalizePathSeparators :: "string \<Rightarrow> string" where
  "NormalizePathSeparators path = map (\<lambda>c. if c = BACKSLASH then SLASH else c) path"

definition IsAbsoluteFilePath :: "string \<Rightarrow> bool" where
  "IsAbsoluteFilePath path \<longleftrightarrow> (path \<noteq> [] \<and> path ! 0 = SLASH) \<or> IsWindowsDrivePath path"

definition StripUriPathSuffix :: "string \<Rightarrow> string" where
  "StripUriPathSuffix path =
     (case str_find_if (\<lambda>c. c = CHR ''?'' \<or> c = CHR ''#'') path 0 of
        None \<Rightarrow> path
      | Some sfx \<Rightarrow> substr 0 sfx path)"

definition PercentEncodeFilePath :: "string \<Rightarrow> string" where
  "PercentEncodeFilePath path =
     concat (map (\<lambda>c. if c = SLASH \<or> IsUnreservedUriPathByte c then [c] else escape_byte c) path)"

fun PercentDecodeFilePath :: "string \<Rightarrow> string" where
  "PercentDecodeFilePath [] = []"
| "PercentDecodeFilePath (c # cs) =
     (case cs of
        a # b # rest \<Rightarrow>
          if c = CHR ''%'' \<and> IsHex a \<and> IsHex b
          then char_of (nat (push_bit 4 (HexValue a) + HexValue b)) # PercentDecodeFilePath rest
          else (if c = BACKSLASH then SLASH else c) # PercentDecodeFilePath cs
      | _ \<Rightarrow> (if c = BACKSLASH then SLASH else c) # PercentDecodeFilePath cs)"

definition MakeFileUriFromPath :: "string \<Rightarrow> string" where
  "MakeFileUriFromPath path0 =
     (let path1 = NormalizePathSeparators path0;
          path = (if \<not> IsAbsoluteFilePath path1 then SLASH # path1 else path1);
          encoded_path = PercentEncodeFilePath path
      in if IsWindowsDrivePath path then ''file:///'' @ encoded_path
         else if take 2 encoded_path = [SLASH, SLASH] then ''file:'' @ encoded_path
         else ''file://'' @ encoded_path)"

text \<open>The branch for other systems than Windows.\<close>

definition RawPathFromFileUri :: "string \<Rightarrow> string" where
  "RawPathFromFileUri uri =
     (if \<not> StartsWithFileScheme uri then uri
      else
        let first_delimiter = str_find_if (\<lambda>c. c = SLASH \<or> c = CHR ''?'' \<or> c = CHR ''#'') uri 7;
            (authority, path) =
              (case first_delimiter of
                 None \<Rightarrow> (drop 7 uri, [])
               | Some d \<Rightarrow>
                   if uri ! d = SLASH then (substr 7 (d - 7) uri, StripUriPathSuffix (drop d uri))
                   else (substr 7 (d - 7) uri, []))
        in if authority \<noteq> [] \<and> \<not> IsLocalhostAuthority authority
           then PercentDecodeFilePath ([SLASH, SLASH] @ authority @ path)
           else PercentDecodeFilePath path)"

definition make_file_scheme_uri :: "string \<Rightarrow> string" where
  "make_file_scheme_uri absolute_path = MakeFileUriFromPath absolute_path"

record lsDocumentUri =
  raw_uri :: string

definition SetPath :: "AbsolutePath \<Rightarrow> lsDocumentUri \<Rightarrow> lsDocumentUri" where
  "SetPath path u = u\<lparr>raw_uri := (if AbsolutePath_valid path then MakeFileUriFromPath path else [])\<rparr>"

definition FromPath :: "AbsolutePath \<Rightarrow> lsDocumentUri" where
  "FromPath path = SetPath path \<lparr>raw_uri = []\<rparr>"

definition GetRawPath :: "lsDocumentUri \<Rightarrow> string" where
  "GetRawPath u = RawPathFromFileUri (raw_uri u)"

definition GetAbsolutePath :: "posix \<Rightarrow> lsDocumentUri \<Rightarrow> AbsolutePath" where
  "GetAbsolutePath sys u =
     (if StartsWithFileScheme (raw_uri u) then NormalizePath sys (GetRawPath u) False False else [])"

definition lsDocumentUri_eq :: "lsDocumentUri \<Rightarrow> lsDocumentUri \<Rightarrow> bool" where
  "lsDocumentUri_eq a b \<longleftrightarrow> raw_uri a = raw_uri b"

section \<open>\<^verbatim>\<open>lsp::Uri\<close>\<close>

record Uri =
  raw :: string

definition from_raw :: "string \<Rightarrow> Uri" where
  "from_raw uri = \<lparr>raw = uri\<rparr>"

definition from_file_path :: "AbsolutePath \<Rightarrow> Uri" where
  "from_file_path path = \<lparr>raw = make_file_scheme_uri path\<rparr>"

definition from_test_path :: "string \<Rightarrow> Uri" where
  "from_test_path path = \<lparr>raw = ''test:///'' @ PercentEncodeTestPath (NormalizeTestPath path)\<rparr>"

definition scheme :: "Uri \<Rightarrow> string" where
  "scheme u = (case str_find '':'' (raw u) 0 of None \<Rightarrow> [] | Some pos \<Rightarrow> substr 0 pos (raw u))"

definition body :: "Uri \<Rightarrow> string" where
  "body u = (case str_find ''://'' (raw u) 0 of None \<Rightarrow> raw u | Some pos \<Rightarrow> drop (pos + 3) (raw u))"

definition to_absolute_path :: "posix \<Rightarrow> Uri \<Rightarrow> AbsolutePath" where
  "to_absolute_path sys u =
     (if scheme u = ''file'' then GetAbsolutePath sys \<lparr>raw_uri = raw u\<rparr>
      else if scheme u = ''test'' then
        (let path = percent_decode_uri_component (body u);
             path1 = (if path = [] \<or> path ! 0 \<noteq> SLASH then SLASH # path else path)
         in AbsolutePath_of sys path1)
      else [])"

definition is_test_scheme :: "Uri \<Rightarrow> bool" where
  "is_test_scheme u \<longleftrightarrow> scheme u = ''test''"

section \<open>Path mapping\<close>

definition IsPathSeparator :: "char \<Rightarrow> bool" where
  "IsPathSeparator c \<longleftrightarrow> c = SLASH \<or> c = BACKSLASH"

definition MatchesPathPrefix :: "string \<Rightarrow> string \<Rightarrow> bool" where
  "MatchesPathPrefix value pfx =
     (if \<not> lsp_StartsWith value pfx then False
      else if length value = length pfx then True
      else if pfx = [] then False
      else if IsPathSeparator (last pfx) then True
      else IsPathSeparator (value ! length pfx))"

definition RemapPrefix :: "string \<Rightarrow> string \<Rightarrow> string \<Rightarrow> string" where
  "RemapPrefix value from_prefix to_prefix =
     (if \<not> MatchesPathPrefix value from_prefix then value else to_prefix @ drop (length from_prefix) value)"

record PathMappingEntry =
  client_prefix :: string
  server_prefix :: string

type_synonym PathMapping = "PathMappingEntry list"

definition PathMapping_add :: "string \<Rightarrow> string \<Rightarrow> PathMapping \<Rightarrow> PathMapping" where
  "PathMapping_add cp sp m = m @ [\<lparr>client_prefix = cp, server_prefix = sp\<rparr>]"

fun client_to_server :: "PathMapping \<Rightarrow> string \<Rightarrow> string" where
  "client_to_server [] client_path = client_path"
| "client_to_server (entry # entries) client_path =
     (let remapped = RemapPrefix client_path (client_prefix entry) (server_prefix entry)
      in if remapped \<noteq> client_path then remapped else client_to_server entries client_path)"

fun server_to_client :: "PathMapping \<Rightarrow> string \<Rightarrow> string" where
  "server_to_client [] server_path = server_path"
| "server_to_client (entry # entries) server_path =
     (let remapped = RemapPrefix server_path (server_prefix entry) (client_prefix entry)
      in if remapped \<noteq> server_path then remapped else server_to_client entries server_path)"

definition remap_uri_to_server :: "posix \<Rightarrow> PathMapping \<Rightarrow> lsDocumentUri \<Rightarrow> lsDocumentUri" where
  "remap_uri_to_server sys m client_uri =
     (let uri = from_raw (raw_uri client_uri)
      in if is_test_scheme uri then FromPath (to_absolute_path sys uri)
         else FromPath (FromNormalized (client_to_server m (GetRawPath client_uri))))"

definition remap_uri_to_client :: "PathMapping \<Rightarrow> string \<Rightarrow> lsDocumentUri" where
  "remap_uri_to_client m server_path = FromPath (FromNormalized (server_to_client m server_path))"

section \<open>The contract of an encoder and its decoder\<close>

lemma IsHex_hex_upper: "n < 16 \<Longrightarrow> IsHex (hex_upper n)"
  using nibble_cases [of n] by (auto simp: IsHex_def hex_upper_def HEX_def in_range_def byte_of_def)

lemma HexValue_hex_upper: "n < 16 \<Longrightarrow> HexValue (hex_upper n) = int n"
  using nibble_cases [of n] by (auto simp: HexValue_def hex_upper_def HEX_def in_range_def byte_of_def)

lemma nibbles: "drop_bit 4 (byte_of c) < 16" "byte_of c AND 0xF < 16"
  "16 * drop_bit 4 (byte_of c) + (byte_of c AND 0xF) = byte_of c"
proof -
  have m: "byte_of c AND 0xF = byte_of c mod 16" using take_bit_eq_mask [of 4 "byte_of c"] by (simp add: take_bit_eq_mod mask_eq_exp_minus_1)
  have d: "drop_bit 4 (byte_of c) = byte_of c div 16" by (simp add: drop_bit_eq_div)
  show "drop_bit 4 (byte_of c) < 16" using byte_of_less [of c] by (simp add: d less_mult_imp_div_less)
  show "byte_of c AND 0xF < 16" by (simp add: m)
  show "16 * drop_bit 4 (byte_of c) + (byte_of c AND 0xF) = byte_of c" by (simp add: m d)
qed

lemma or_nibbles: "hi < 16 \<Longrightarrow> lo < 16 \<Longrightarrow> push_bit 4 hi OR lo = 16 * hi + (lo :: nat)"
proof -
  assume "hi < 16" "lo < 16"
  moreover have "\<forall>hi\<in>set [0..<16]. \<forall>lo\<in>set [0..<16]. push_bit 4 hi OR lo = 16 * hi + (lo :: nat)" by code_simp
  ultimately show ?thesis by (metis atLeastLessThan_iff le0 set_upt)
qed

locale percent_coding =
  fixes safe :: "char \<Rightarrow> bool" and enc :: "string \<Rightarrow> string" and dec :: "string \<Rightarrow> string"
  assumes enc_eq: "enc s = concat (map (\<lambda>c. if safe c then [c] else escape_byte c) s)"
    and dec_Nil: "dec [] = []"
    and dec_safe: "safe c \<Longrightarrow> dec (c # cs) = c # dec cs"
    and dec_escape: "dec (escape_byte c @ cs) = c # dec cs"
begin

lemma dec_enc_append: "dec (enc s @ t) = s @ dec t"
  by (induction s) (auto simp: enc_eq dec_safe dec_escape)

lemma dec_enc: "dec (enc s) = s"
  using dec_enc_append [of s "[]"] by (simp add: dec_Nil)

lemma enc_append: "enc (s @ t) = enc s @ enc t"
  by (simp add: enc_eq)

lemma enc_safe: "c \<in> set (enc s) \<Longrightarrow> safe c \<or> c = CHR ''%'' \<or> IsHex c"
  by (induction s) (auto simp: enc_eq escape_byte_def IsHex_hex_upper nibbles split: if_splits)

end

sublocale percent_coding < codec enc "\<lambda>s. Some (dec s)"
  by unfold_locales (simp add: dec_enc)

lemma percent_decode_escape: "percent_decode_uri_component (escape_byte c @ cs) = c # percent_decode_uri_component cs"
  by (simp add: escape_byte_def nibbles or_nibbles)

lemma percent_decode_plain: "c \<noteq> CHR ''%'' \<Longrightarrow> percent_decode_uri_component (c # cs) = c # percent_decode_uri_component cs"
  by (simp split: list.splits)

lemma file_decode_escape: "PercentDecodeFilePath (escape_byte c @ cs) = c # PercentDecodeFilePath cs"
  using nibbles(3) [of c]
  by (simp add: escape_byte_def nibbles IsHex_hex_upper HexValue_hex_upper push_bit_eq_mult nat_add_distrib nat_mult_distrib mult.commute)

lemma file_decode_plain: "c \<noteq> CHR ''%'' \<Longrightarrow> c \<noteq> BACKSLASH \<Longrightarrow> PercentDecodeFilePath (c # cs) = c # PercentDecodeFilePath cs"
  by (simp split: list.splits)

lemma unreserved_plain:
  "IsUnreserved c \<Longrightarrow> c \<noteq> CHR ''%'' \<and> c \<noteq> BACKSLASH"
  "IsUnreservedUriPathByte c \<Longrightarrow> c \<noteq> CHR ''%'' \<and> c \<noteq> BACKSLASH"
  by (auto simp: IsUnreserved_def IsUnreservedUriPathByte_def is_alnum_ascii_def is_alpha_ascii_def is_lower_ascii_def
      is_upper_ascii_def is_digit_def in_range_def byte_of_def)

interpretation component: percent_coding IsUnreserved percent_encode_uri_component percent_decode_uri_component
  by unfold_locales
    (simp_all add: percent_encode_uri_component_def percent_decode_escape percent_decode_plain unreserved_plain
      del: percent_decode_uri_component.simps(2))

interpretation test_path: percent_coding IsTestPathSafe PercentEncodeTestPath percent_decode_uri_component
  by unfold_locales
    (auto simp: PercentEncodeTestPath_def percent_decode_escape percent_decode_plain unreserved_plain IsTestPathSafe_def
      simp del: percent_decode_uri_component.simps(2))

interpretation file_path:
  percent_coding "\<lambda>c. c = SLASH \<or> IsUnreservedUriPathByte c" PercentEncodeFilePath PercentDecodeFilePath
  by unfold_locales
    (auto simp: PercentEncodeFilePath_def file_decode_escape file_decode_plain unreserved_plain
      simp del: PercentDecodeFilePath.simps(2))

text \<open>Different paths have different encodings.\<close>

lemma PercentEncodeFilePath_inject: "PercentEncodeFilePath p = PercentEncodeFilePath q \<longleftrightarrow> p = q"
  by (rule file_path.encode_inject)

section \<open>Reading back a file URI\<close>

lemma enc_file_clean: "c \<in> set (PercentEncodeFilePath s) \<Longrightarrow> c \<noteq> CHR ''?'' \<and> c \<noteq> CHR ''#''"
  using file_path.enc_safe [of c s]
  by (auto simp: IsUnreservedUriPathByte_def IsHex_def is_lower_ascii_def is_upper_ascii_def is_digit_def
      in_range_def byte_of_def)

lemma enc_file_Cons:
  "PercentEncodeFilePath (c # s) = (if c = SLASH \<or> IsUnreservedUriPathByte c then [c] else escape_byte c) @ PercentEncodeFilePath s"
  by (simp add: PercentEncodeFilePath_def)

lemma enc_file_slash [simp]: "PercentEncodeFilePath (SLASH # s) = SLASH # PercentEncodeFilePath s"
  by (simp add: enc_file_Cons)

lemma enc_file_no_slash: "SLASH \<notin> set s \<Longrightarrow> SLASH \<notin> set (PercentEncodeFilePath s)"
proof (induction s)
  case Nil
  then show ?case by (simp add: PercentEncodeFilePath_def)
next
  case (Cons c s)
  have "hex_upper n \<noteq> SLASH" if "n < 16" for n
    using nibble_cases [OF that] by (auto simp: hex_upper_def HEX_def)
  then have "SLASH \<notin> set (escape_byte c)" using nibbles [of c] by (auto simp: escape_byte_def) metis+
  with Cons show ?case by (auto simp: enc_file_Cons)
qed

lemma strip_encoded: "StripUriPathSuffix (PercentEncodeFilePath s) = PercentEncodeFilePath s"
  using enc_file_clean [of _ s] by (auto simp: StripUriPathSuffix_def str_find_if_absent)

lemma no_separator_change: "BACKSLASH \<notin> set p \<Longrightarrow> NormalizePathSeparators p = p"
  by (induction p) (auto simp: NormalizePathSeparators_def)

lemma file_scheme: "StartsWithFileScheme (''file://'' @ x)"
  by (simp add: StartsWithFileScheme_def equal_ignore_case_def)

lemma slash_path: "\<not> IsWindowsDrivePath (SLASH # q)" "IsAbsoluteFilePath (SLASH # q)"
  by (simp_all add: IsWindowsDrivePath_def IsAbsoluteFilePath_def is_alpha_ascii_def is_lower_ascii_def is_upper_ascii_def
      in_range_def byte_of_def)

lemma MakeFileUri_single:
  assumes "BACKSLASH \<notin> set (SLASH # q)" "q = [] \<or> hd q \<noteq> SLASH"
  shows "MakeFileUriFromPath (SLASH # q) = ''file://'' @ PercentEncodeFilePath (SLASH # q)"
proof -
  have "take 1 (PercentEncodeFilePath q) \<noteq> [SLASH]"
    using assms(2) by (cases q) (auto simp: enc_file_Cons escape_byte_def PercentEncodeFilePath_def)
  then show ?thesis
    using assms(1) by (auto simp: MakeFileUriFromPath_def Let_def no_separator_change slash_path numeral_2_eq_2)
qed

lemma RawPath_single:
  assumes "BACKSLASH \<notin> set (SLASH # q)" "q = [] \<or> hd q \<noteq> SLASH"
  shows "RawPathFromFileUri (MakeFileUriFromPath (SLASH # q)) = SLASH # q"
proof -
  let ?u = "''file://'' @ PercentEncodeFilePath (SLASH # q)"
  have "str_find_if (\<lambda>c. c = SLASH \<or> c = CHR ''?'' \<or> c = CHR ''#'') ?u 7 = Some 7"
    by (simp add: str_find_if_Some_iff)
  moreover have "?u ! 7 = SLASH" "drop 7 ?u = PercentEncodeFilePath (SLASH # q)" by simp_all
  ultimately have "RawPathFromFileUri ?u = PercentDecodeFilePath (PercentEncodeFilePath (SLASH # q))"
    using file_scheme [of "PercentEncodeFilePath (SLASH # q)"] strip_encoded [of "SLASH # q"]
    unfolding RawPathFromFileUri_def Let_def by (simp add: substr_def)
  then show ?thesis unfolding MakeFileUri_single [OF assms] by (simp only: file_path.dec_enc)
qed

lemma list_all2_partner: "list_all2 P xs ys \<Longrightarrow> a \<in> set xs \<Longrightarrow> \<exists>l\<in>set ys. P a l"
  by (induction rule: list_all2_induct) auto

lemma file_decode_all_plain: "\<forall>a\<in>set s. a \<noteq> CHR ''%'' \<and> a \<noteq> BACKSLASH \<Longrightarrow> PercentDecodeFilePath s = s"
  by (induction s) (simp_all add: file_decode_plain del: PercentDecodeFilePath.simps(2))

lemma file_uri_nth: "7 \<le> j \<Longrightarrow> (''file://'' @ x) ! j = x ! (j - 7)"
proof -
  assume "7 \<le> j"
  have len: "length ''file://'' = 7" by simp
  from \<open>7 \<le> j\<close> obtain k where k: "j = length ''file://'' + k" unfolding len using le_Suc_ex by blast
  then have "j - 7 = k" unfolding len by linarith
  moreover have "(''file://'' @ x) ! j = x ! k" unfolding k by (rule nth_append_length_plus)
  ultimately show ?thesis by metis
qed

lemma localhost_decode:
  assumes "IsLocalhostAuthority (PercentEncodeFilePath h)"
  shows "IsLocalhostAuthority h"
proof -
  let ?e = "PercentEncodeFilePath h"
  have "a \<noteq> CHR ''%'' \<and> a \<noteq> BACKSLASH" if "a \<in> set ?e" for a
  proof -
    from that assms have "ascii_lower a \<in> set ''localhost''"
      using list_all2_partner [of _ ?e "''localhost''" a] unfolding IsLocalhostAuthority_def by blast
    moreover have "ascii_lower CHR ''%'' \<notin> set ''localhost''" "ascii_lower BACKSLASH \<notin> set ''localhost''" by code_simp+
    ultimately show ?thesis by metis
  qed
  then have "\<forall>a\<in>set ?e. a \<noteq> CHR ''%'' \<and> a \<noteq> BACKSLASH" by blast
  then have "PercentDecodeFilePath ?e = ?e"
    by (rule file_decode_all_plain)
  then show ?thesis using assms by (simp add: file_path.dec_enc)
qed

lemma RawPath_host:
  assumes "BACKSLASH \<notin> set (h @ q)" "h \<noteq> []" "SLASH \<notin> set h" "q = [] \<or> hd q = SLASH" "\<not> IsLocalhostAuthority h"
  shows "RawPathFromFileUri (MakeFileUriFromPath ([SLASH, SLASH] @ h @ q)) = [SLASH, SLASH] @ h @ q"
proof -
  let ?p = "[SLASH, SLASH] @ h @ q" and ?e = "PercentEncodeFilePath"
  let ?u = "''file://'' @ ?e h @ ?e q"
  have enc: "?e ?p = [SLASH, SLASH] @ ?e h @ ?e q" using file_path.enc_append [of h q] by simp
  have "NormalizePathSeparators ?p = ?p" using assms(1) by (intro no_separator_change) auto
  then have u: "MakeFileUriFromPath ?p = ?u"
    using slash_path [of "SLASH # h @ q"] enc by (simp add: MakeFileUriFromPath_def Let_def)
  have h: "?e h \<noteq> []" "\<not> IsLocalhostAuthority (?e h)" "SLASH \<notin> set (?e h)"
    using assms(2,3,5) localhost_decode enc_file_no_slash file_path.dec_enc [of h] by auto
  have qe: "?e q = [] \<or> (\<exists>q'. ?e q = SLASH # q')" "q = [] \<Longrightarrow> ?e q = []"
    using assms(4) by (cases q; auto simp: PercentEncodeFilePath_def)+
  have notin: "x \<in> set (?e h) \<Longrightarrow> \<not> (x = SLASH \<or> x = CHR ''?'' \<or> x = CHR ''#'')" for x
    using h(3) enc_file_clean by blast
  have auth: "(case str_find_if (\<lambda>c. c = SLASH \<or> c = CHR ''?'' \<or> c = CHR ''#'') ?u 7 of
                 None \<Rightarrow> (drop 7 ?u, [])
               | Some d \<Rightarrow>
                   if ?u ! d = SLASH then (substr 7 (d - 7) ?u, StripUriPathSuffix (drop d ?u))
                   else (substr 7 (d - 7) ?u, [])) = (?e h, ?e q)"
  proof (cases "?e q = []")
    case True
    have "str_find_if (\<lambda>c. c = SLASH \<or> c = CHR ''?'' \<or> c = CHR ''#'') ?u 7 = None"
      unfolding str_find_if_None_iff
    proof (intro allI impI)
      fix j assume j: "7 \<le> j \<and> j < length ?u"
      then have "?u ! j = ?e h ! (j - 7)" using True file_uri_nth [of j "?e h @ ?e q"] by simp
      moreover have "?e h ! (j - 7) \<in> set (?e h)" using j True by (intro nth_mem) auto
      ultimately show "\<not> (?u ! j = SLASH \<or> ?u ! j = CHR ''?'' \<or> ?u ! j = CHR ''#'')" using notin by metis
    qed
    with True show ?thesis by simp
  next
    case False
    then obtain q' where q': "?e q = SLASH # q'" using qe by blast
    have here: "?u ! (7 + length (?e h)) = SLASH" by (simp add: q' nth_append)
    have before: "\<not> (?u ! j = SLASH \<or> ?u ! j = CHR ''?'' \<or> ?u ! j = CHR ''#'')" if "7 \<le> j" "j < 7 + length (?e h)" for j
    proof -
      have "j - 7 < length (?e h)" using that by linarith
      then have "(?e h @ ?e q) ! (j - 7) = ?e h ! (j - 7)" by (simp add: nth_append)
      then have "?u ! j = ?e h ! (j - 7)" using file_uri_nth [OF that(1), of "?e h @ ?e q"] by metis
      moreover have "?e h ! (j - 7) \<in> set (?e h)" using \<open>j - 7 < length (?e h)\<close> by (rule nth_mem)
      ultimately show ?thesis using notin by metis
    qed
    have "str_find_if (\<lambda>c. c = SLASH \<or> c = CHR ''?'' \<or> c = CHR ''#'') ?u 7 = Some (7 + length (?e h))"
      using here before by (auto simp: str_find_if_Some_iff q')
    moreover have "drop (7 + length (?e h)) ?u = ?e q" by (simp add: numeral_eq_Suc)
    ultimately show ?thesis using here strip_encoded [of q] by (simp add: substr_def)
  qed
  have "RawPathFromFileUri ?u = PercentDecodeFilePath (?e ?p)"
    using file_scheme [of "?e h @ ?e q"] h(1,2) unfolding RawPathFromFileUri_def auth Let_def enc by simp
  then show ?thesis unfolding u by (simp only: file_path.dec_enc)
qed

lemma good_path_uri:
  assumes "good_path r" "BACKSLASH \<notin> set (path_text r)"
    and "fst r \<longrightarrow> snd r \<noteq> [] \<longrightarrow> \<not> IsLocalhostAuthority (hd (snd r))"
  shows "RawPathFromFileUri (MakeFileUriFromPath (path_text r)) = path_text r"
proof (cases r)
  case (Pair two cs)
  show ?thesis
  proof (cases cs)
    case Nil
    then show ?thesis using RawPath_single [of "[]"] by (simp add: Pair path_text_def)
  next
    case (Cons c ds)
    have c: "c \<noteq> []" "SLASH \<notin> set c" using assms(1) Pair Cons by (auto simp: good_path_def good_component_def)
    then have hd: "hd c \<noteq> SLASH" using hd_in_set [of c] by metis
    obtain q where q: "join [SLASH] cs = c @ q" "q = [] \<or> hd q = SLASH" using Cons by (cases ds) auto
    show ?thesis
    proof (cases two)
      case True
      then have "path_text r = [SLASH, SLASH] @ c @ q" using q Cons by (simp add: Pair path_text_def root_text_def)
      moreover from this have "BACKSLASH \<notin> set (c @ q)" using assms(2) by simp
      ultimately show ?thesis using RawPath_host [of c q] c q(2) assms(3) True Pair Cons by simp
    next
      case False
      then have "path_text r = SLASH # (c @ q)" using q Cons by (simp add: Pair path_text_def root_text_def)
      moreover from this have "BACKSLASH \<notin> set (SLASH # (c @ q))" using assms(2) by simp
      ultimately show ?thesis using RawPath_single [of "c @ q"] c hd by simp
    qed
  qed
qed

section \<open>Properties\<close>

text \<open>Decoding a percent-encoded component gives the bytes back, whatever they are, and the
  encoded text only has unreserved characters and percent signs.\<close>

theorem percent_roundtrip:
  "percent_decode_uri_component (percent_encode_uri_component s) = s \<and>
   list_all (\<lambda>c. IsUnreserved c \<or> c = CHR ''%'') (percent_encode_uri_component s)"
proof -
  have "IsHex c \<Longrightarrow> IsUnreserved c" for c
    by (auto simp: IsHex_def IsUnreserved_def is_alnum_ascii_def is_alpha_ascii_def is_lower_ascii_def
        is_upper_ascii_def is_digit_def in_range_def byte_of_def)
  then show ?thesis using component.dec_enc component.enc_safe by (auto simp: list_all_iff)
qed

text \<open>A document URI made from a normalised path leads back to that path: for every
  normalised path without back slashes (and whose leading \<^verbatim>\<open>//host\<close>, if any, does not name the
  local host) \<^verbatim>\<open>GetAbsolutePath\<close> inverts \<^verbatim>\<open>FromPath\<close>, whatever bytes its components have.\<close>

theorem GetAbsolutePath_FromPath:
  assumes "good_path r" "BACKSLASH \<notin> set (path_text r)"
    and "fst r \<longrightarrow> snd r \<noteq> [] \<longrightarrow> \<not> IsLocalhostAuthority (hd (snd r))"
    and "cwd sys = path_text (False, wd)" "good_path (False, wd)"
  shows "GetAbsolutePath sys (FromPath (path_text r)) = path_text r"
proof -
  have "MakeFileUriFromPath p = ''file://'' @ drop 7 (MakeFileUriFromPath p)" if "p \<noteq> []" "p ! 0 = SLASH" "BACKSLASH \<notin> set p" for p
  proof -
    have "p = SLASH # tl p" using that(1,2) by (cases p) auto
    then obtain q where "p = SLASH # q" by blast
    with that(3) slash_path [of q] show ?thesis
      by (cases q) (auto simp: MakeFileUriFromPath_def Let_def no_separator_change enc_file_Cons escape_byte_def PercentEncodeFilePath_def)
  qed
  moreover have p: "path_text r \<noteq> []" "path_text r ! 0 = SLASH"
    by (simp_all add: path_text_def root_text_def split: prod.splits)
  ultimately have "StartsWithFileScheme (MakeFileUriFromPath (path_text r))"
    using file_scheme assms(2) by metis
  then show ?thesis
    using good_path_uri [OF assms(1-3)] RealPath_resolve [OF p(1) _ assms(4,5)] resolve_path_text [OF assms(1)] p(2)
    by (simp add: GetAbsolutePath_def FromPath_def SetPath_def GetRawPath_def AbsolutePath_valid_def path_text_absolute
        NormalizePath_def)
qed

theorem GetAbsolutePath_FromPath_witness:
  "GetAbsolutePath sample_posix (FromPath (path_text (True, [''srv'', ''a b%#'', ''c.h'']))) =
     path_text (True, [''srv'', ''a b%#'', ''c.h''])"
proof (rule GetAbsolutePath_FromPath [where wd = "[''home'', ''me'']"])
  show "good_path (True, [''srv'', ''a b%#'', ''c.h''])" by code_simp
  show "BACKSLASH \<notin> set (path_text (True, [''srv'', ''a b%#'', ''c.h'']))" by code_simp
  show "fst (True, [''srv'', ''a b%#'', ''c.h'']) \<longrightarrow> snd (True, [''srv'', ''a b%#'', ''c.h'']) \<noteq> [] \<longrightarrow>
      \<not> IsLocalhostAuthority (hd (snd (True, [''srv'', ''a b%#'', ''c.h''])))" by code_simp
qed (simp_all add: sample_posix_def path_text_def root_text_def good_path_def good_component_def)

text \<open>A \<^verbatim>\<open>test:\<close> URI leads back to its path: converting a path to a test URI and that to an
  absolute path is normalising the path below the root.\<close>

theorem test_uri_roundtrip:
  "to_absolute_path sys (from_test_path p) = AbsolutePath_of sys (SLASH # NormalizeTestPath p) \<and>
   is_test_scheme (from_test_path p)"
proof -
  let ?e = "PercentEncodeTestPath (NormalizeTestPath p)"
  have colon: "str_find '':'' (''test:///'' @ ?e) 0 = Some 4"
    by (simp add: str_find_def upt_conv_Cons starts_at_def del: upt_Suc)
  have sep: "str_find ''://'' (''test:///'' @ ?e) 0 = Some 4"
    by (simp add: str_find_def upt_conv_Cons starts_at_def del: upt_Suc)
  have sc: "scheme (from_test_path p) = ''test''"
    unfolding scheme_def from_test_path_def Uri.simps colon by (simp add: substr_def)
  have bd: "body (from_test_path p) = SLASH # ?e"
    unfolding body_def from_test_path_def Uri.simps sep by simp
  have "percent_decode_uri_component (SLASH # ?e) = SLASH # NormalizeTestPath p"
    by (simp add: percent_decode_plain test_path.dec_enc del: percent_decode_uri_component.simps(2))
  then show ?thesis by (simp add: to_absolute_path_def is_test_scheme_def sc bd Let_def)
qed

lemma MatchesPathPrefix_iff:
  "MatchesPathPrefix v p \<longleftrightarrow>
     (\<exists>rest. v = p @ rest \<and> (rest = [] \<or> (p \<noteq> [] \<and> (IsPathSeparator (last p) \<or> IsPathSeparator (hd rest)))))"
proof
  assume m: "MatchesPathPrefix v p"
  then have "v = p @ drop (length p) v"
    unfolding MatchesPathPrefix_def lsp_StartsWith_def by (metis append_take_drop_id)
  with m show "\<exists>rest. v = p @ rest \<and> (rest = [] \<or> (p \<noteq> [] \<and> (IsPathSeparator (last p) \<or> IsPathSeparator (hd rest))))"
    by (intro exI [of _ "drop (length p) v"]) (auto simp: MatchesPathPrefix_def lsp_StartsWith_def hd_drop_conv_nth split: if_splits)
next
  assume "\<exists>rest. v = p @ rest \<and> (rest = [] \<or> (p \<noteq> [] \<and> (IsPathSeparator (last p) \<or> IsPathSeparator (hd rest))))"
  then show "MatchesPathPrefix v p"
    by (auto simp: MatchesPathPrefix_def lsp_StartsWith_def nth_append hd_conv_nth)
qed

lemma client_to_server_skip:
  "list_all (\<lambda>e. \<not> MatchesPathPrefix p (client_prefix e)) es \<Longrightarrow> client_to_server (es @ fs) p = client_to_server fs p"
  by (induction es) (auto simp: RemapPrefix_def)

lemma server_to_client_skip:
  "list_all (\<lambda>e. \<not> MatchesPathPrefix p (server_prefix e)) es \<Longrightarrow> server_to_client (es @ fs) p = server_to_client fs p"
  by (induction es) (auto simp: RemapPrefix_def)

text \<open>A path that the client sends and the server sends back is the client's path again: the
  first matching entry maps it to the server's prefix and back, as long as no earlier entry
  matches on either side and the server prefix ends in a separator if the client's does.  A
  prefix only matches at a path component boundary.\<close>

theorem path_mapping_roundtrip:
  assumes "MatchesPathPrefix p (client_prefix e)" "server_prefix e \<noteq> []" "client_prefix e \<noteq> server_prefix e"
    and "IsPathSeparator (last (client_prefix e)) \<longrightarrow> IsPathSeparator (last (server_prefix e))"
    and "list_all (\<lambda>x. \<not> MatchesPathPrefix p (client_prefix x)) es"
    and "list_all (\<lambda>x. \<not> MatchesPathPrefix (client_to_server (es @ e # fs) p) (server_prefix x)) es"
  shows "server_to_client (es @ e # fs) (client_to_server (es @ e # fs) p) = p"
proof -
  from assms(1) obtain rest where p: "p = client_prefix e @ rest"
    and rest: "rest = [] \<or> IsPathSeparator (last (client_prefix e)) \<or> IsPathSeparator (hd rest)"
    by (auto simp: MatchesPathPrefix_iff)
  have cs: "client_to_server (es @ e # fs) p = server_prefix e @ rest"
    using client_to_server_skip [OF assms(5), of "e # fs"] assms(1,3) by (simp add: RemapPrefix_def p)
  have "MatchesPathPrefix (server_prefix e @ rest) (server_prefix e)"
    using rest assms(2,4) by (auto simp: MatchesPathPrefix_iff)
  then have "server_to_client (e # fs) (server_prefix e @ rest) = p"
    using assms(3) by (simp add: RemapPrefix_def p)
  then show ?thesis using server_to_client_skip [OF assms(6) [unfolded cs], of "e # fs"] by (simp add: cs)
qed

theorem path_mapping_roundtrip_witness:
  "server_to_client ([\<lparr>client_prefix = ''/c'', server_prefix = ''/x''\<rparr>] @ \<lparr>client_prefix = ''/w'', server_prefix = ''/src''\<rparr> # [])
     (client_to_server ([\<lparr>client_prefix = ''/c'', server_prefix = ''/x''\<rparr>] @ \<lparr>client_prefix = ''/w'', server_prefix = ''/src''\<rparr> # [])
        ''/w/a.c'') = ''/w/a.c''"
  by (rule path_mapping_roundtrip) code_simp+

end
