(* ===== verification/Working_Files.thy ===== *)
theory Working_Files
  imports Text_Position Lsp_Uri
begin

text \<open>
  The open documents of a server: \<^verbatim>\<open>src/lsp/working_files.cpp\<close>.  A \<^verbatim>\<open>WorkingFile\<close> is reached
  through shared pointers, so the files live in a heap and the table maps a path to a heap
  address; a handle a caller kept sees later edits and survives the closing of its file.  An
  invariant ties the cached line offsets to the buffer; under it the cached offset lookup is
  the plain one, and the handlers refine a store from paths to document texts, in two steps:
  with the offsets of the code, and with the offsets that the protocol defines.
\<close>

section \<open>Model\<close>

record WorkingFile =
  version :: int
  filename :: AbsolutePath
  directory :: string
  counter :: "64 word"
  buffer_content :: string
  line_offsets :: "nat list"

text \<open>\<^verbatim>\<open>Directory\<close> holds a path that ends in a slash.\<close>

definition Directory :: "AbsolutePath \<Rightarrow> string" where
  "Directory path = EnsureEndsInSlash path"

fun build_offsets :: "nat \<Rightarrow> string \<Rightarrow> nat list" where
  "build_offsets i [] = []"
| "build_offsets i (c # cs) = (if c = LF then (i + 1) # build_offsets (Suc i) cs else build_offsets (Suc i) cs)"

definition BuildLineOffsets :: "string \<Rightarrow> nat list" where
  "BuildLineOffsets content = 0 # build_offsets 0 content"

definition RebuildLineOffsets :: "WorkingFile \<Rightarrow> WorkingFile" where
  "RebuildLineOffsets file = file\<lparr>line_offsets := BuildLineOffsets (buffer_content file)\<rparr>"

definition make_WorkingFile :: "AbsolutePath \<Rightarrow> string \<Rightarrow> WorkingFile" where
  "make_WorkingFile fname content =
     RebuildLineOffsets
       \<lparr>version = 0, filename = fname, directory = Directory (FromNormalized (GetDirName fname)),
        counter = 0, buffer_content = content, line_offsets = []\<rparr>"

text \<open>The character loop is the one of \<^const>\<open>GetOffsetForPosition\<close>, written out again in the source.\<close>

definition WorkingFile_GetOffsetForPosition :: "WorkingFile \<Rightarrow> lsPosition \<Rightarrow> int" where
  "WorkingFile_GetOffsetForPosition file position =
     (if line_offsets file = [] then GetOffsetForPosition position (buffer_content file)
      else
        let i = (if unat (line position) < length (line_offsets file)
                 then line_offsets file ! unat (line position) else length (buffer_content file))
        in int_cast (skip_chars (character position) (drop i (buffer_content file)) i))"

text \<open>\<open>disk\<close> holds what was written with \<^verbatim>\<open>WriteToFile\<close>.\<close>

record WorkingFiles =
  files :: "AbsolutePath \<Rightarrow> nat option"
  heap :: "WorkingFile list"
  disk :: "string \<Rightarrow> string option"

definition empty_WorkingFiles :: "(string \<Rightarrow> string option) \<Rightarrow> WorkingFiles" where
  "empty_WorkingFiles d = \<lparr>files = (\<lambda>p. None), heap = [], disk = d\<rparr>"

record lsTextDocumentItem =
  item_uri :: lsDocumentUri
  item_version :: int
  item_text :: string

record lsTextDocumentContentChangeEvent =
  event_range :: "lsRange option"
  event_text :: string

record lsTextDocumentDidChangeParams =
  change_uri :: lsDocumentUri
  change_version :: "int option"
  contentChanges :: "lsTextDocumentContentChangeEvent list"

definition GetFileByFilename :: "WorkingFiles \<Rightarrow> AbsolutePath \<Rightarrow> nat option" where
  "GetFileByFilename ws fname = (if \<not> AbsolutePath_valid fname then None else files ws fname)"

definition CloseFilesInDirectory :: "string list \<Rightarrow> WorkingFiles \<Rightarrow> WorkingFiles" where
  "CloseFilesInDirectory directories ws =
     ws\<lparr>files := (\<lambda>p. case files ws p of
                       None \<Rightarrow> None
                     | Some a \<Rightarrow> if directory (heap ws ! a) \<in> set directories then None else Some a)\<rparr>"

text \<open>
  The opened item is passed by reference: when the file is open already its text is swapped with
  the buffer.  The result is the handle, the item and the table.
\<close>

definition OnOpen ::
  "posix \<Rightarrow> lsTextDocumentItem \<Rightarrow> WorkingFiles \<Rightarrow> nat option \<times> lsTextDocumentItem \<times> WorkingFiles" where
  "OnOpen sys opened ws =
     (let fname = GetAbsolutePath sys (item_uri opened) in
      if \<not> AbsolutePath_valid fname then (None, opened, ws)
      else case GetFileByFilename ws fname of
        Some a \<Rightarrow>
          let file = heap ws ! a;
              file1 = RebuildLineOffsets (file\<lparr>version := item_version opened, buffer_content := item_text opened\<rparr>)
          in (Some a, opened\<lparr>item_text := buffer_content file\<rparr>, ws\<lparr>heap := (heap ws)[a := file1]\<rparr>)
      | None \<Rightarrow>
          let a = length (heap ws)
          in (Some a, opened,
              ws\<lparr>files := (files ws)(fname := Some a), heap := heap ws @ [make_WorkingFile fname (item_text opened)]\<rparr>))"

text \<open>
  One content change.  \<^verbatim>\<open>replace\<close> on a range that is not within the buffer, or whose end lies
  before its start, is undefined behaviour: \<^const>\<open>None\<close>.
\<close>

definition apply_change :: "lsTextDocumentContentChangeEvent \<Rightarrow> WorkingFile \<Rightarrow> WorkingFile option" where
  "apply_change diff file =
     (case event_range diff of
        None \<Rightarrow> Some (RebuildLineOffsets (file\<lparr>buffer_content := event_text diff\<rparr>))
      | Some r \<Rightarrow>
          let start_offset = WorkingFile_GetOffsetForPosition file (range_start r);
              end_offset = WorkingFile_GetOffsetForPosition file (range_end r);
              b = buffer_content file
          in if 0 \<le> start_offset \<and> start_offset \<le> end_offset \<and> end_offset \<le> int (length b) then
               Some (RebuildLineOffsets
                 (file\<lparr>buffer_content := take (nat start_offset) b @ event_text diff @ drop (nat end_offset) b\<rparr>))
             else None)"

fun apply_changes :: "lsTextDocumentContentChangeEvent list \<Rightarrow> WorkingFile \<Rightarrow> WorkingFile option" where
  "apply_changes [] file = Some file"
| "apply_changes (diff # diffs) file =
     (case apply_change diff file of None \<Rightarrow> None | Some file1 \<Rightarrow> apply_changes diffs file1)"

definition OnChange ::
  "posix \<Rightarrow> lsTextDocumentDidChangeParams \<Rightarrow> WorkingFiles \<Rightarrow> (nat option \<times> WorkingFiles) option" where
  "OnChange sys change ws =
     (let fname = GetAbsolutePath sys (change_uri change) in
      if \<not> AbsolutePath_valid fname then Some (None, ws)
      else case GetFileByFilename ws fname of
        None \<Rightarrow> Some (None, ws)
      | Some a \<Rightarrow>
          let file = heap ws ! a;
              file1 = (case change_version change of None \<Rightarrow> file | Some v \<Rightarrow> file\<lparr>version := v\<rparr>);
              file2 = file1\<lparr>counter := counter file1 + 1\<rparr>
          in (case apply_changes (contentChanges change) file2 of
                None \<Rightarrow> None
              | Some file3 \<Rightarrow> Some (Some a, ws\<lparr>heap := (heap ws)[a := file3]\<rparr>)))"

definition OnClose :: "posix \<Rightarrow> lsDocumentUri \<Rightarrow> WorkingFiles \<Rightarrow> bool \<times> WorkingFiles" where
  "OnClose sys close ws =
     (let fname = GetAbsolutePath sys close in
      if \<not> AbsolutePath_valid fname then (False, ws)
      else case files ws fname of
        None \<Rightarrow> (False, ws)
      | Some a \<Rightarrow> (True, ws\<lparr>files := (files ws)(fname := None)\<rparr>))"

text \<open>\<^verbatim>\<open>WriteToFile\<close> truncates and writes when the file can be opened; \<^verbatim>\<open>OnSave\<close> ignores its result.\<close>

definition WriteToFile :: "(string \<Rightarrow> bool) \<Rightarrow> string \<Rightarrow> string \<Rightarrow> (string \<Rightarrow> string option) \<Rightarrow> bool \<times> (string \<Rightarrow> string option)" where
  "WriteToFile writable fname content d = (if writable fname then (True, d(fname := Some content)) else (False, d))"

definition OnSave :: "posix \<Rightarrow> (string \<Rightarrow> bool) \<Rightarrow> lsDocumentUri \<Rightarrow> WorkingFiles \<Rightarrow> nat option \<times> WorkingFiles" where
  "OnSave sys writable save ws =
     (let fname = GetAbsolutePath sys save in
      if \<not> AbsolutePath_valid fname then (None, ws)
      else case files ws fname of
        None \<Rightarrow> (None, ws)
      | Some a \<Rightarrow>
          let file = heap ws ! a
          in (Some a, ws\<lparr>disk := snd (WriteToFile writable (filename file) (buffer_content file) (disk ws))\<rparr>))"

definition GetFileBufferContent :: "WorkingFiles \<Rightarrow> nat option \<Rightarrow> string option" where
  "GetFileBufferContent ws file = (case file of None \<Rightarrow> None | Some a \<Rightarrow> Some (buffer_content (heap ws ! a)))"

definition GetFileBufferContent_by_name :: "WorkingFiles \<Rightarrow> AbsolutePath \<Rightarrow> string option" where
  "GetFileBufferContent_by_name ws fname =
     (case GetFileByFilename ws fname of None \<Rightarrow> None | Some a \<Rightarrow> GetFileBufferContent ws (Some a))"

definition WorkingFiles_Clear :: "WorkingFiles \<Rightarrow> WorkingFiles" where
  "WorkingFiles_Clear ws = ws\<lparr>files := (\<lambda>p. None)\<rparr>"

section \<open>The cached line offsets\<close>

definition file_ok :: "WorkingFile \<Rightarrow> bool" where
  "file_ok file \<longleftrightarrow> line_offsets file = BuildLineOffsets (buffer_content file)"

lemma build_offsets_shift: "build_offsets (Suc i) s = map Suc (build_offsets i s)"
  by (induction i s rule: build_offsets.induct) auto

lemma line_start_offsets:
  "line_start k s = (if k < length (BuildLineOffsets s) then BuildLineOffsets s ! k else length s)"
proof (induction s arbitrary: k)
  case Nil
  then show ?case by (simp add: BuildLineOffsets_def)
next
  case (Cons c s)
  show ?case
  proof (cases k)
    case 0
    then show ?thesis by (simp add: BuildLineOffsets_def)
  next
    case (Suc m)
    from Cons [of m] Cons [of k] show ?thesis
      by (auto simp: Suc BuildLineOffsets_def build_offsets_shift nth_Cons split: nat.splits)
  qed
qed

lemma RebuildLineOffsets_ok [simp]: "file_ok (RebuildLineOffsets f)"
  by (simp add: file_ok_def RebuildLineOffsets_def)

lemma RebuildLineOffsets_simps [simp]:
  "buffer_content (RebuildLineOffsets f) = buffer_content f" "filename (RebuildLineOffsets f) = filename f"
  "directory (RebuildLineOffsets f) = directory f" "version (RebuildLineOffsets f) = version f"
  "counter (RebuildLineOffsets f) = counter f"
  by (simp_all add: RebuildLineOffsets_def)

lemma cached_offset: "file_ok f \<Longrightarrow> WorkingFile_GetOffsetForPosition f p = GetOffsetForPosition p (buffer_content f)"
proof -
  assume ok: "file_ok f"
  have "skip_lines (line p) (buffer_content f) 0 = line_start (unat (line p)) (buffer_content f)"
    using skip_lines_eq [of "unat (line p)" "buffer_content f" 0] unat_lt2p_32 [of "line p"] by simp
  with ok show ?thesis
    by (auto simp: WorkingFile_GetOffsetForPosition_def GetOffsetForPosition_def file_ok_def line_start_offsets Let_def)
qed

section \<open>The invariant\<close>

definition ws_ok :: "WorkingFiles \<Rightarrow> bool" where
  "ws_ok ws \<longleftrightarrow>
     list_all file_ok (heap ws) \<and>
     (\<forall>p a. files ws p = Some a \<longrightarrow>
        AbsolutePath_valid p \<and> a < length (heap ws) \<and> filename (heap ws ! a) = p \<and>
        directory (heap ws ! a) = Directory (FromNormalized (GetDirName p)))"

text \<open>What the table promises of the texts: the abstract document store.\<close>

definition documents :: "WorkingFiles \<Rightarrow> AbsolutePath \<Rightarrow> string option" where
  "documents ws p = map_option (\<lambda>a. buffer_content (heap ws ! a)) (files ws p)"

text \<open>A content change on the bytes of a document, with the offsets that the code computes: the intermediate level of the refinement.\<close>

definition replace_text :: "lsTextDocumentContentChangeEvent \<Rightarrow> string \<Rightarrow> string option" where
  "replace_text diff b =
     (case event_range diff of
        None \<Rightarrow> Some (event_text diff)
      | Some r \<Rightarrow>
          let s = GetOffsetForPosition (range_start r) b; e = GetOffsetForPosition (range_end r) b
          in if 0 \<le> s \<and> s \<le> e \<and> e \<le> int (length b)
             then Some (take (nat s) b @ event_text diff @ drop (nat e) b) else None)"

fun replace_texts :: "lsTextDocumentContentChangeEvent list \<Rightarrow> string \<Rightarrow> string option" where
  "replace_texts [] b = Some b"
| "replace_texts (d # ds) b = Option.bind (replace_text d b) (replace_texts ds)"

lemma apply_change_edit:
  assumes "file_ok f"
  shows "map_option buffer_content (apply_change d f) = replace_text d (buffer_content f)"
    and "apply_change d f = Some g \<Longrightarrow>
           file_ok g \<and> filename g = filename f \<and> directory g = directory f \<and> version g = version f \<and> counter g = counter f"
  using assms
  by (auto simp: apply_change_def replace_text_def cached_offset Let_def split: option.splits if_splits)

lemma apply_changes_edit:
  assumes "file_ok f"
  shows "map_option buffer_content (apply_changes ds f) = replace_texts ds (buffer_content f)"
    and "apply_changes ds f = Some g \<Longrightarrow>
           file_ok g \<and> filename g = filename f \<and> directory g = directory f \<and> version g = version f \<and> counter g = counter f"
proof -
  show "map_option buffer_content (apply_changes ds f) = replace_texts ds (buffer_content f)"
    using assms
  proof (induction ds arbitrary: f)
    case Nil
    then show ?case by simp
  next
    case (Cons d ds)
    show ?case
    proof (cases "apply_change d f")
      case None
      then show ?thesis using apply_change_edit(1) [OF Cons.prems, of d] by simp
    next
      case (Some g)
      then have "replace_text d (buffer_content f) = Some (buffer_content g)"
        using apply_change_edit(1) [OF Cons.prems, of d] by simp
      with Some Cons.IH [of g] apply_change_edit(2) [OF Cons.prems Some] show ?thesis by simp
    qed
  qed
  show "apply_changes ds f = Some g \<Longrightarrow>
      file_ok g \<and> filename g = filename f \<and> directory g = directory f \<and> version g = version f \<and> counter g = counter f"
    using assms
  proof (induction ds arbitrary: f)
    case (Cons d ds)
    then obtain h where "apply_change d f = Some h" "apply_changes ds h = Some g" by (auto split: option.splits)
    with Cons apply_change_edit(2) [of f d h] show ?case by simp
  qed simp
qed

section \<open>Histories of a document table\<close>

datatype doc_op =
    Open lsTextDocumentItem | Change lsTextDocumentDidChangeParams | Close lsDocumentUri
  | CloseDirectories "string list" | Save lsDocumentUri | Clear

fun ws_step :: "posix \<Rightarrow> (string \<Rightarrow> bool) \<Rightarrow> doc_op \<Rightarrow> WorkingFiles \<Rightarrow> WorkingFiles option" where
  "ws_step sys writable (Open item) ws = Some (snd (snd (OnOpen sys item ws)))"
| "ws_step sys writable (Change c) ws = map_option snd (OnChange sys c ws)"
| "ws_step sys writable (Close u) ws = Some (snd (OnClose sys u ws))"
| "ws_step sys writable (CloseDirectories ds) ws = Some (CloseFilesInDirectory ds ws)"
| "ws_step sys writable (Save u) ws = Some (snd (OnSave sys writable u ws))"
| "ws_step sys writable Clear ws = Some (WorkingFiles_Clear ws)"

fun byte_spec :: "posix \<Rightarrow> doc_op \<Rightarrow> (AbsolutePath \<Rightarrow> string option) \<Rightarrow> (AbsolutePath \<Rightarrow> string option) option" where
  "byte_spec sys (Open item) docs =
     (let p = GetAbsolutePath sys (item_uri item)
      in Some (if AbsolutePath_valid p then docs(p := Some (item_text item)) else docs))"
| "byte_spec sys (Change c) docs =
     (let p = GetAbsolutePath sys (change_uri c)
      in case docs p of
           None \<Rightarrow> Some docs
         | Some b \<Rightarrow> map_option (\<lambda>b'. docs(p := Some b')) (replace_texts (contentChanges c) b))"
| "byte_spec sys (Close u) docs = Some (docs(GetAbsolutePath sys u := None))"
| "byte_spec sys (CloseDirectories ds) docs =
     Some (\<lambda>p. if Directory (FromNormalized (GetDirName p)) \<in> set ds then None else docs p)"
| "byte_spec sys (Save u) docs = Some docs"
| "byte_spec sys Clear docs = Some (\<lambda>p. None)"

lemma ws_okD:
  "ws_ok ws \<Longrightarrow> files ws p = Some a \<Longrightarrow>
     AbsolutePath_valid p \<and> a < length (heap ws) \<and> filename (heap ws ! a) = p \<and>
     directory (heap ws ! a) = Directory (FromNormalized (GetDirName p)) \<and> file_ok (heap ws ! a)"
  by (auto simp: ws_ok_def list_all_iff)

lemma ws_ok_update:
  assumes "ws_ok ws" "files ws p = Some a" "file_ok g" "filename g = p" "directory g = directory (heap ws ! a)"
  shows "ws_ok (ws\<lparr>heap := (heap ws)[a := g]\<rparr>)"
    and "documents (ws\<lparr>heap := (heap ws)[a := g]\<rparr>) = (documents ws)(p := Some (buffer_content g))"
proof -
  have other: "b \<noteq> a" if "files ws q = Some b" "q \<noteq> p" for q b
    using ws_okD [OF assms(1,2)] ws_okD [OF assms(1) that(1)] that(2) by auto
  have same: "q = p" if "files ws q = Some a" for q using other [OF that] by blast
  have "list_all file_ok ((heap ws)[a := g])"
    using assms(1,3) set_update_subset_insert [of "heap ws" a g] by (auto simp: ws_ok_def list_all_iff)
  moreover have "AbsolutePath_valid q \<and> b < length (heap ws) \<and> filename ((heap ws)[a := g] ! b) = q \<and>
      directory ((heap ws)[a := g] ! b) = Directory (FromNormalized (GetDirName q))" if "files ws q = Some b" for q b
    using that same [of q] ws_okD [OF assms(1) that] assms(4,5) by (cases "b = a") auto
  ultimately show "ws_ok (ws\<lparr>heap := (heap ws)[a := g]\<rparr>)" by (simp add: ws_ok_def)
  show "documents (ws\<lparr>heap := (heap ws)[a := g]\<rparr>) = (documents ws)(p := Some (buffer_content g))"
  proof
    fix q
    show "documents (ws\<lparr>heap := (heap ws)[a := g]\<rparr>) q = ((documents ws)(p := Some (buffer_content g))) q"
      using assms(2) ws_okD [OF assms(1,2)] other [of q]
      by (cases "files ws q") (auto simp: documents_def nth_list_update)
  qed
qed

lemma ws_ok_insert:
  assumes "ws_ok ws" "AbsolutePath_valid p"
  shows "ws_ok (ws\<lparr>files := (files ws)(p := Some (length (heap ws))), heap := heap ws @ [make_WorkingFile p b]\<rparr>)"
    and "documents (ws\<lparr>files := (files ws)(p := Some (length (heap ws))), heap := heap ws @ [make_WorkingFile p b]\<rparr>) =
         (documents ws)(p := Some b)"
proof -
  have lt: "c < length (heap ws)" if "files ws q = Some c" for q c using ws_okD [OF assms(1) that] by simp
  show "ws_ok (ws\<lparr>files := (files ws)(p := Some (length (heap ws))), heap := heap ws @ [make_WorkingFile p b]\<rparr>)"
    using assms lt by (auto simp: ws_ok_def make_WorkingFile_def nth_append less_SucI)
  show "documents (ws\<lparr>files := (files ws)(p := Some (length (heap ws))), heap := heap ws @ [make_WorkingFile p b]\<rparr>) =
      (documents ws)(p := Some b)"
  proof
    fix q
    show "documents (ws\<lparr>files := (files ws)(p := Some (length (heap ws))), heap := heap ws @ [make_WorkingFile p b]\<rparr>) q =
        ((documents ws)(p := Some b)) q"
      using lt [of q] by (cases "files ws q") (auto simp: documents_def make_WorkingFile_def nth_append)
  qed
qed

lemma ws_ok_restrict:
  assumes "ws_ok ws" "\<And>p. f p = files ws p \<or> f p = None"
  shows "ws_ok (ws\<lparr>files := f\<rparr>)"
proof -
  have "files ws p = Some a" if "f p = Some a" for p a using assms(2) [of p] that by auto
  then show ?thesis using assms(1) by (auto simp: ws_ok_def)
qed

lemma invalid_not_open: "ws_ok ws \<Longrightarrow> \<not> AbsolutePath_valid p \<Longrightarrow> files ws p = None"
  using ws_okD by (cases "files ws p") auto

lemma OnOpen_refines:
  assumes "ws_ok ws"
  shows "ws_ok (snd (snd (OnOpen sys item ws)))"
    and "Some (documents (snd (snd (OnOpen sys item ws)))) = byte_spec sys (Open item) (documents ws)"
proof -
  let ?p = "GetAbsolutePath sys (item_uri item)"
  consider "\<not> AbsolutePath_valid ?p" | "AbsolutePath_valid ?p" "files ws ?p = None"
    | a where "AbsolutePath_valid ?p" "files ws ?p = Some a" by (cases "files ws ?p") auto
  then have "ws_ok (snd (snd (OnOpen sys item ws))) \<and>
      Some (documents (snd (snd (OnOpen sys item ws)))) = byte_spec sys (Open item) (documents ws)"
  proof cases
    case 1
    then show ?thesis using assms by (simp add: OnOpen_def Let_def)
  next
    case 2
    then show ?thesis using ws_ok_insert [OF assms 2(1), of "item_text item"]
      by (simp add: OnOpen_def GetFileByFilename_def Let_def)
  next
    case (3 a)
    note ok = ws_okD [OF assms 3(2)]
    let ?g = "RebuildLineOffsets ((heap ws ! a)\<lparr>version := item_version item, buffer_content := item_text item\<rparr>)"
    have "file_ok ?g" "filename ?g = ?p" "directory ?g = directory (heap ws ! a)" using ok by simp_all
    from ws_ok_update [OF assms 3(2) this] 3 show ?thesis
      by (simp add: OnOpen_def GetFileByFilename_def Let_def)
  qed
  then show "ws_ok (snd (snd (OnOpen sys item ws)))"
    "Some (documents (snd (snd (OnOpen sys item ws)))) = byte_spec sys (Open item) (documents ws)" by simp_all
qed

lemma OnChange_refines:
  assumes "ws_ok ws"
  shows "OnChange sys c ws = Some (h, ws') \<Longrightarrow> ws_ok ws'"
    and "map_option (\<lambda>r. documents (snd r)) (OnChange sys c ws) = byte_spec sys (Change c) (documents ws)"
proof -
  let ?p = "GetAbsolutePath sys (change_uri c)"
  have "(\<forall>h ws'. OnChange sys c ws = Some (h, ws') \<longrightarrow> ws_ok ws') \<and>
      map_option (\<lambda>r. documents (snd r)) (OnChange sys c ws) = byte_spec sys (Change c) (documents ws)"
  proof (cases "files ws ?p")
    case None
    then show ?thesis using assms
      by (simp add: OnChange_def GetFileByFilename_def Let_def documents_def)
  next
    case (Some a)
    note ok = ws_okD [OF assms Some]
    define f1 where "f1 = (case change_version c of None \<Rightarrow> heap ws ! a | Some v \<Rightarrow> (heap ws ! a)\<lparr>version := v\<rparr>)"
    define f2 where "f2 = f1\<lparr>counter := counter f1 + 1\<rparr>"
    have f2: "file_ok f2" "buffer_content f2 = buffer_content (heap ws ! a)" "filename f2 = ?p"
      "directory f2 = directory (heap ws ! a)"
      using ok by (simp_all add: f2_def f1_def file_ok_def split: option.splits)
    have oc: "OnChange sys c ws =
        (case apply_changes (contentChanges c) f2 of
           None \<Rightarrow> None | Some g \<Rightarrow> Some (Some a, ws\<lparr>heap := (heap ws)[a := g]\<rparr>))"
      using ok Some by (simp add: OnChange_def GetFileByFilename_def f1_def f2_def Let_def)
    have docs: "documents ws ?p = Some (buffer_content f2)" using Some f2(2) by (simp add: documents_def)
    show ?thesis
    proof (cases "apply_changes (contentChanges c) f2")
      case None
      then show ?thesis using apply_changes_edit(1) [OF f2(1), of "contentChanges c"] docs oc by simp
    next
      case (Some g)
      then have ed: "replace_texts (contentChanges c) (buffer_content f2) = Some (buffer_content g)"
        using apply_changes_edit(1) [OF f2(1), of "contentChanges c"] by simp
      have g: "file_ok g" "filename g = ?p" "directory g = directory (heap ws ! a)"
        using apply_changes_edit(2) [OF f2(1) Some] f2 by simp_all
      from ws_ok_update [OF assms \<open>files ws ?p = Some a\<close> g] Some oc ed docs show ?thesis by simp
    qed
  qed
  then show "OnChange sys c ws = Some (h, ws') \<Longrightarrow> ws_ok ws'"
    "map_option (\<lambda>r. documents (snd r)) (OnChange sys c ws) = byte_spec sys (Change c) (documents ws)" by simp_all
qed

lemma OnClose_refines:
  assumes "ws_ok ws"
  shows "ws_ok (snd (OnClose sys u ws))"
    and "Some (documents (snd (OnClose sys u ws))) = byte_spec sys (Close u) (documents ws)"
proof -
  let ?p = "GetAbsolutePath sys u"
  have eq: "snd (OnClose sys u ws) = ws\<lparr>files := (files ws)(?p := None)\<rparr>"
    using invalid_not_open [OF assms, of ?p]
    by (auto simp: OnClose_def Let_def fun_upd_idem split: option.splits)
  show "ws_ok (snd (OnClose sys u ws))" unfolding eq by (rule ws_ok_restrict [OF assms]) simp
  show "Some (documents (snd (OnClose sys u ws))) = byte_spec sys (Close u) (documents ws)"
    unfolding eq by (auto simp: documents_def)
qed

lemma CloseFilesInDirectory_refines:
  assumes "ws_ok ws"
  shows "ws_ok (CloseFilesInDirectory ds ws)"
    and "Some (documents (CloseFilesInDirectory ds ws)) = byte_spec sys (CloseDirectories ds) (documents ws)"
proof -
  show "ws_ok (CloseFilesInDirectory ds ws)" unfolding CloseFilesInDirectory_def
    by (rule ws_ok_restrict [OF assms]) (simp split: option.splits)
  show "Some (documents (CloseFilesInDirectory ds ws)) = byte_spec sys (CloseDirectories ds) (documents ws)"
    using ws_okD [OF assms]
    by (auto simp: CloseFilesInDirectory_def documents_def split: option.splits)
qed

lemma OnSave_refines:
  assumes "ws_ok ws"
  shows "ws_ok (snd (OnSave sys writable u ws))" "documents (snd (OnSave sys writable u ws)) = documents ws"
  using assms by (auto simp: OnSave_def Let_def ws_ok_def documents_def split: option.splits)

lemma Clear_refines:
  assumes "ws_ok ws"
  shows "ws_ok (WorkingFiles_Clear ws)" "documents (WorkingFiles_Clear ws) = (\<lambda>p. None)"
  using assms by (auto simp: WorkingFiles_Clear_def ws_ok_def documents_def)

lemmas ws_refines = OnOpen_refines OnChange_refines OnClose_refines CloseFilesInDirectory_refines OnSave_refines Clear_refines

interpretation docs: functional_refinement "ws_step sys writable" ws_ok documents "byte_spec sys"
proof
  fix s op s'
  assume ok: "ws_ok s"
  show "ws_step sys writable op s = Some s' \<Longrightarrow> ws_ok s'"
    using ws_refines(1,3,5,7,9,11) [OF ok] by (cases op) (auto simp: Option.is_none_def)
  show "map_option documents (ws_step sys writable op s) = byte_spec sys op (documents s)"
    using ws_refines [OF ok] by (cases op) (simp_all add: option.map_comp o_def del: byte_spec.simps(1-4))
qed

section \<open>Documents as the protocol defines them\<close>

text \<open>
  The abstract store: a change replaces the part of the text between two positions, whose places are given by \<^const>\<open>protocol_offset\<close>.  The store is defined as long as
  the client keeps to the protocol: it changes open documents that are UTF-8 texts (below 2 GiB), and its ranges have positions of the text and an end
  that is not before the start.
\<close>

definition edit_text :: "lsTextDocumentContentChangeEvent \<Rightarrow> string \<Rightarrow> string option" where
  "edit_text diff b =
     (case event_range diff of
        None \<Rightarrow> Some (event_text diff)
      | Some r \<Rightarrow>
          if wf_text False b \<and> length b < 2 ^ 31 \<and> position_ok (range_start r) b \<and> position_ok (range_end r) b \<and>
             protocol_offset (range_start r) b \<le> protocol_offset (range_end r) b
          then Some (take (protocol_offset (range_start r) b) b @ event_text diff @ drop (protocol_offset (range_end r) b) b)
          else None)"

fun edit_texts :: "lsTextDocumentContentChangeEvent list \<Rightarrow> string \<Rightarrow> string option" where
  "edit_texts [] b = Some b"
| "edit_texts (d # ds) b = Option.bind (edit_text d b) (edit_texts ds)"

fun doc_spec :: "posix \<Rightarrow> doc_op \<Rightarrow> (AbsolutePath \<Rightarrow> string option) \<Rightarrow> (AbsolutePath \<Rightarrow> string option) option" where
  "doc_spec sys (Open item) docs =
     (let p = GetAbsolutePath sys (item_uri item)
      in Some (if AbsolutePath_valid p then docs(p := Some (item_text item)) else docs))"
| "doc_spec sys (Change c) docs =
     (let p = GetAbsolutePath sys (change_uri c)
      in case docs p of
           None \<Rightarrow> Some docs
         | Some b \<Rightarrow> map_option (\<lambda>b'. docs(p := Some b')) (edit_texts (contentChanges c) b))"
| "doc_spec sys (Close u) docs = Some (docs(GetAbsolutePath sys u := None))"
| "doc_spec sys (CloseDirectories ds) docs =
     Some (\<lambda>p. if Directory (FromNormalized (GetDirName p)) \<in> set ds then None else docs p)"
| "doc_spec sys (Save u) docs = Some docs"
| "doc_spec sys Clear docs = Some (\<lambda>p. None)"

lemma edit_is_replace: "edit_text d b = Some b' \<Longrightarrow> replace_text d b = Some b'"
  using GetOffsetForPosition_protocol [of b]
  by (auto simp: edit_text_def replace_text_def Let_def split: option.splits if_splits)

lemma edits_are_replaces: "edit_texts ds b = Some b' \<Longrightarrow> replace_texts ds b = Some b'"
  by (induction ds arbitrary: b) (auto simp: bind_eq_Some_conv edit_is_replace)

lemma doc_is_byte_spec: "doc_spec sys op docs = Some docs' \<Longrightarrow> byte_spec sys op docs = Some docs'"
  by (cases op) (auto simp: Let_def edits_are_replaces split: option.splits)

lemma docs_are_bytes: "run_ops (doc_spec sys) ops docs = Some docs' \<Longrightarrow> run_ops (byte_spec sys) ops docs = Some docs'"
  by (induction ops arbitrary: docs) (auto simp: doc_is_byte_spec split: option.splits simp: bind_eq_Some_conv)

section \<open>Properties\<close>

text \<open>C12: The document table implements the documents of the protocol: over any sequence of open, change, close,
  save and clear notifications of a client that keeps to the protocol, no operation of the table is undefined, and the buffers are the texts that the protocol
  prescribes: each ranged change replaces the part of the text between its two positions, given by line and UTF-16 code unit.\<close>

theorem working_files_refine_documents:
  assumes "run_ops (doc_spec sys) ops (\<lambda>p. None) = Some docs"
  shows "\<exists>ws. run_ops (ws_step sys writable) ops (empty_WorkingFiles d) = Some ws \<and> documents ws = docs"
proof -
  have "ws_ok (empty_WorkingFiles d)" by (simp add: empty_WorkingFiles_def ws_ok_def)
  moreover have "documents (empty_WorkingFiles d) = (\<lambda>p. None)" by (auto simp: empty_WorkingFiles_def documents_def)
  ultimately have "map_option documents (run_ops (ws_step sys writable) ops (empty_WorkingFiles d)) = run_ops (byte_spec sys) ops (\<lambda>p. None)"
    using docs.run_simulates by metis
  then show ?thesis using docs_are_bytes [OF assms] by auto
qed

text \<open>C36: In every table reached from the empty one each entry is a valid path whose file carries
  that path as its name, and each file's cached line offsets are those of its buffer, so
  that the cached offset of any position is the one computed from the text.\<close>

theorem working_files_invariant:
  assumes "run_ops (ws_step sys writable) ops (empty_WorkingFiles d) = Some ws" "files ws p = Some a"
  shows "AbsolutePath_valid p \<and> a < length (heap ws) \<and> filename (heap ws ! a) = p \<and>
    line_offsets (heap ws ! a) = BuildLineOffsets (buffer_content (heap ws ! a)) \<and>
    (\<forall>pos. WorkingFile_GetOffsetForPosition (heap ws ! a) pos = GetOffsetForPosition pos (buffer_content (heap ws ! a)))"
proof -
  have "ws_ok (empty_WorkingFiles d)" by (simp add: empty_WorkingFiles_def ws_ok_def)
  from docs.run_preserves [OF this assms(1)] have "ws_ok ws" .
  from ws_okD [OF this assms(2)] show ?thesis by (simp add: cached_offset) (simp add: file_ok_def)
qed

definition sample_uri :: lsDocumentUri where
  "sample_uri = \<lparr>raw_uri = ''file:///w/a.c''\<rparr>"

definition sample_ops :: "doc_op list" where
  "sample_ops =
     [Open \<lparr>item_uri = sample_uri, item_version = 7, item_text = ''ab'' @ [LF] @ ''cd''\<rparr>,
      Change \<lparr>change_uri = sample_uri, change_version = None, contentChanges =
        [\<lparr>event_range = Some \<lparr>range_start = \<lparr>line = 1, character = 0\<rparr>, range_end = \<lparr>line = 1, character = 1\<rparr>\<rparr>,
          event_text = ''X''\<rparr>]\<rparr>]"

lemma sample_path: "GetAbsolutePath sample_posix sample_uri = ''/w/a.c''"
  by code_simp

theorem working_files_refine_documents_witness:
  "\<exists>ws. run_ops (ws_step sample_posix (\<lambda>f. True)) sample_ops (empty_WorkingFiles (\<lambda>f. None)) = Some ws \<and>
     documents ws = (\<lambda>p. None)(''/w/a.c'' := Some (''ab'' @ [LF] @ ''Xd''))"
proof (rule working_files_refine_documents)
  let ?b = "''ab'' @ [LF] @ ''cd''" and ?p = "\<lparr>line = 1, character = 0\<rparr>" and ?q = "\<lparr>line = 1, character = 1\<rparr>"
  have "position_ok ?p ?b" "position_ok ?q ?b" "protocol_offset ?p ?b = 3" "protocol_offset ?q ?b = 4" "wf_text False ?b" "AbsolutePath_valid ''/w/a.c''"
    by code_simp+
  then show "run_ops (doc_spec sample_posix) sample_ops (\<lambda>p. None) = Some ((\<lambda>p. None)(''/w/a.c'' := Some (''ab'' @ [LF] @ ''Xd'')))"
    by (simp add: sample_ops_def edit_text_def sample_path Let_def)
qed

theorem working_files_invariant_witness:
  "\<exists>ws a. run_ops (ws_step sample_posix (\<lambda>f. True)) sample_ops (empty_WorkingFiles (\<lambda>f. None)) = Some ws \<and>
     files ws ''/w/a.c'' = Some a \<and> filename (heap ws ! a) = ''/w/a.c'' \<and>
     buffer_content (heap ws ! a) = ''ab'' @ [LF] @ ''Xd''"
proof -
  let ?r = "run_ops (ws_step sample_posix (\<lambda>f. True)) sample_ops (empty_WorkingFiles (\<lambda>f. None))"
  have r: "?r \<noteq> None" "files (the ?r) ''/w/a.c'' = Some 0" "buffer_content (heap (the ?r) ! 0) = ''ab'' @ [LF] @ ''Xd''"
    by code_simp+
  then have "?r = Some (the ?r)" by simp
  from working_files_invariant [OF this r(2)] r(3) r(2) \<open>?r = Some (the ?r)\<close> show ?thesis by blast
qed

text \<open>An edit whose range comes from two byte offsets of the document replaces exactly the
  bytes between them: the positions a client computes from offsets are mapped back to
  those offsets, with multi-byte characters before, in or after the range.\<close>

theorem ranged_edit_replaces_bytes:
  assumes "file_ok f" "b = buffer_content f" "wf_text False b" "length b < 2 ^ 31" "boundary i b" "boundary j b" "i \<le> j"
  shows "map_option buffer_content
      (apply_change \<lparr>event_range = Some \<lparr>range_start = GetPositionForOffset i b, range_end = GetPositionForOffset j b\<rparr>,
                     event_text = t\<rparr> f) = Some (take i b @ t @ drop j b)"
proof -
  have "GetOffsetForPosition (GetPositionForOffset i b) b = int i" "GetOffsetForPosition (GetPositionForOffset j b) b = int j"
    using GetOffset_GetPosition_boundary assms by blast+
  moreover have "j \<le> length b" using assms(6) by (simp add: boundary_def)
  ultimately show ?thesis
    using assms(2,7) apply_change_edit(1) [OF assms(1)] by (simp add: replace_text_def)
qed

theorem ranged_edit_replaces_bytes_witness:
  "map_option buffer_content
      (apply_change \<lparr>event_range = Some \<lparr>range_start = GetPositionForOffset 5 sample_text, range_end = GetPositionForOffset 12 sample_text\<rparr>,
                     event_text = ''!''\<rparr> (make_WorkingFile ''/a'' sample_text)) =
     Some (take 5 sample_text @ ''!'' @ drop 12 sample_text)"
proof (rule ranged_edit_replaces_bytes)
  show "file_ok (make_WorkingFile ''/a'' sample_text)" "sample_text = buffer_content (make_WorkingFile ''/a'' sample_text)"
    by (simp_all add: make_WorkingFile_def)
  show "wf_text False sample_text" by code_simp
  show "boundary 5 sample_text" "boundary 12 sample_text" by code_simp+
qed (simp_all add: sample_text_def)

text \<open>The version of a document: a file that is opened for the first time gets version 0,
  whatever version the notification carries; only opening it again, or a change that has
  a version, records it.\<close>

theorem OnOpen_version:
  assumes "ws_ok ws" "GetAbsolutePath sys (item_uri item) = p" "AbsolutePath_valid p"
  shows "\<exists>a. fst (OnOpen sys item ws) = Some a \<and>
    version (heap (snd (snd (OnOpen sys item ws))) ! a) = (if files ws p = None then 0 else item_version item)"
proof (cases "files ws p")
  case None
  then show ?thesis using assms
    by (simp add: OnOpen_def GetFileByFilename_def Let_def make_WorkingFile_def)
next
  case (Some a)
  with ws_okD [OF assms(1) Some] assms show ?thesis
    by (simp add: OnOpen_def GetFileByFilename_def Let_def)
qed

theorem OnOpen_version_witness:
  "\<exists>a. fst (OnOpen sample_posix \<lparr>item_uri = sample_uri, item_version = 7, item_text = []\<rparr> (empty_WorkingFiles (\<lambda>f. None))) = Some a \<and>
    version (heap (snd (snd (OnOpen sample_posix \<lparr>item_uri = sample_uri, item_version = 7, item_text = []\<rparr>
       (empty_WorkingFiles (\<lambda>f. None))))) ! a) = 0"
  using OnOpen_version [of "empty_WorkingFiles (\<lambda>f. None)" sample_posix
      "\<lparr>item_uri = sample_uri, item_version = 7, item_text = []\<rparr>" "''/w/a.c''"]
  by (simp add: sample_path empty_WorkingFiles_def ws_ok_def AbsolutePath_valid_def IsAbsolutePath_def IsUnixAbsolutePath_def)

end
