(* ===== verification/Std_Map.thy ===== *)
theory Std_Map
  imports Lsp_Prelude "HOL-Library.List_Lexorder" "HOL-Library.Char_ord"
begin

text \<open>
  \<^verbatim>\<open>std::map\<close> as the sources use it: an association list in ascending key order, so that its
  length is \<^verbatim>\<open>size()\<close> and its order is the iteration order.  The locale \<open>map_laws\<close> is what the
  components rely on.  The request identifier \<^verbatim>\<open>lsRequestId\<close>, the key of most of those maps,
  is a linear order (\<^verbatim>\<open>operator<\<close>).
\<close>

section \<open>Ordered association lists\<close>

type_synonym ('k, 'v) std_map = "('k \<times> 'v) list"

text \<open>\<^verbatim>\<open>m[k] = v\<close>\<close>

fun map_set :: "'k::linorder \<Rightarrow> 'v \<Rightarrow> ('k, 'v) std_map \<Rightarrow> ('k, 'v) std_map" where
  "map_set k v [] = [(k, v)]"
| "map_set k v ((k', v') # m) =
     (if k < k' then (k, v) # (k', v') # m
      else if k = k' then (k, v) # m
      else (k', v') # map_set k v m)"

text \<open>\<^verbatim>\<open>m.erase(k)\<close>\<close>

definition map_erase :: "'k \<Rightarrow> ('k, 'v) std_map \<Rightarrow> ('k, 'v) std_map" where
  "map_erase k m = filter (\<lambda>p. fst p \<noteq> k) m"

text \<open>\<^verbatim>\<open>m.emplace(k, v)\<close>: an existing entry is kept.\<close>

definition map_emplace :: "'k::linorder \<Rightarrow> 'v \<Rightarrow> ('k, 'v) std_map \<Rightarrow> ('k, 'v) std_map" where
  "map_emplace k v m = (if map_of m k = None then map_set k v m else m)"

definition map_ok :: "('k::linorder, 'v) std_map \<Rightarrow> bool" where
  "map_ok m \<longleftrightarrow> sorted_wrt (<) (map fst m)"

lemma map_ok_Nil [simp]: "map_ok []"
  by (simp add: map_ok_def)

lemma map_ok_Cons: "map_ok ((k, v) # m) \<longleftrightarrow> (\<forall>x\<in>fst ` set m. k < x) \<and> map_ok m"
  by (auto simp: map_ok_def)

lemma fst_map_set: "fst ` set (map_set k v m) = insert k (fst ` set m)"
  by (induction k v m rule: map_set.induct) auto

lemma map_ok_set: "map_ok m \<Longrightarrow> map_ok (map_set k v m)"
proof (induction m)
  case (Cons p m)
  then show ?case by (cases p) (auto simp: map_ok_Cons fst_map_set)
qed (simp add: map_ok_Cons)

lemma map_ok_erase: "map_ok m \<Longrightarrow> map_ok (map_erase k m)"
  by (induction m) (auto simp: map_ok_def map_erase_def)

lemma map_of_set: "map_ok m \<Longrightarrow> map_of (map_set k v m) = (map_of m)(k \<mapsto> v)"
proof (induction m)
  case (Cons p m)
  obtain k' v' where p: "p = (k', v')" by (cases p)
  have "k \<notin> fst ` set m" if "k < k'" using Cons.prems that by (auto simp: p map_ok_Cons)
  with Cons show ?case by (auto simp: p map_ok_Cons fun_upd_twist)
qed simp

lemma map_of_erase: "map_of (map_erase k m) = (map_of m)(k := None)"
  by (induction m) (auto simp: map_erase_def fun_eq_iff)

lemma map_ok_distinct: "map_ok m \<Longrightarrow> distinct (map fst m)"
  by (induction m) (auto simp: map_ok_def)

lemma map_of_eq_Some: "map_ok m \<Longrightarrow> map_of m k = Some v \<longleftrightarrow> (k, v) \<in> set m"
  by (simp add: map_ok_distinct)

lemma length_map_set: "map_ok m \<Longrightarrow> length (map_set k v m) = (if map_of m k = None then Suc (length m) else length m)"
proof (induction m)
  case (Cons p m)
  obtain k' v' where p: "p = (k', v')" by (cases p)
  have "map_of m k = None" if "k < k'"
    using Cons.prems that by (auto simp: p map_ok_Cons map_of_eq_None_iff)
  with Cons show ?case by (auto simp: p map_ok_Cons)
qed simp

lemma length_map_erase: "map_ok m \<Longrightarrow> length (map_erase k m) = (if map_of m k = None then length m else length m - 1)"
proof (induction m)
  case (Cons p m)
  obtain k' v' where p: "p = (k', v')" by (cases p)
  show ?case
  proof (cases "k = k'")
    case True
    then have "map_of m k = None" using Cons.prems by (auto simp: p map_ok_Cons map_of_eq_None_iff)
    then have "map_erase k m = m" by (auto simp: map_erase_def map_of_eq_None_iff intro!: filter_True)
    then show ?thesis using True by (simp add: p map_erase_def)
  next
    case False
    have "length m \<noteq> 0" if "map_of m k \<noteq> None" using that by auto
    with False Cons show ?thesis by (auto simp: p map_erase_def map_ok_Cons)
  qed
qed (simp add: map_erase_def)

text \<open>The contract of a map.\<close>

locale map_laws =
  fixes ok :: "'m \<Rightarrow> bool" and empty :: 'm and lookup :: "'m \<Rightarrow> 'k \<Rightarrow> 'v option"
    and update :: "'k \<Rightarrow> 'v \<Rightarrow> 'm \<Rightarrow> 'm" and delete :: "'k \<Rightarrow> 'm \<Rightarrow> 'm" and msize :: "'m \<Rightarrow> nat"
  assumes ok_empty: "ok empty" and ok_update: "ok m \<Longrightarrow> ok (update k v m)" and ok_delete: "ok m \<Longrightarrow> ok (delete k m)"
    and lookup_empty: "lookup empty = (\<lambda>k. None)"
    and lookup_update: "ok m \<Longrightarrow> lookup (update k v m) = (lookup m)(k \<mapsto> v)"
    and lookup_delete: "ok m \<Longrightarrow> lookup (delete k m) = (lookup m)(k := None)"
    and msize_update: "ok m \<Longrightarrow> msize (update k v m) = (if lookup m k = None then Suc (msize m) else msize m)"
    and msize_delete: "ok m \<Longrightarrow> lookup m k = Some v \<Longrightarrow> Suc (msize (delete k m)) = msize m"
    and msize_zero: "ok m \<Longrightarrow> (msize m = 0) = (lookup m = (\<lambda>k. None))"
begin

lemma update_frame: "ok m \<Longrightarrow> k' \<noteq> k \<Longrightarrow> lookup (update k v m) k' = lookup m k'"
  by (simp add: lookup_update)

lemma msize_update_le: "ok m \<Longrightarrow> msize (update k v m) \<le> Suc (msize m)"
  by (simp add: msize_update)

end

interpretation std_map: map_laws map_ok "[] :: ('k::linorder, 'v) std_map" map_of map_set map_erase length
proof
  fix m :: "('k, 'v) std_map" and k v
  show "map_ok m \<Longrightarrow> map_of m k = Some v \<Longrightarrow> Suc (length (map_erase k m)) = length m"
    by (cases m) (auto simp: length_map_erase)
  show "map_ok m \<Longrightarrow> (length m = 0) = (map_of m = (\<lambda>k. None))"
    by (cases m) (auto simp: fun_eq_iff split: if_splits)
qed (simp_all add: map_ok_set map_ok_erase map_of_set map_of_erase length_map_set fun_eq_iff)

section \<open>Request identifiers\<close>

text \<open>
  The tagged struct \<^verbatim>\<open>lsRequestId\<close>; an identifier without a value carries no text, as in
  every identifier the code builds.  The order compares the tags first.
\<close>

datatype lsRequestId = kNone | kInt int | kString string

fun has_value :: "lsRequestId \<Rightarrow> bool" where
  "has_value kNone = False"
| "has_value (kInt v) = True"
| "has_value (kString s) = True"

definition tag_of :: "lsRequestId \<Rightarrow> nat" where
  "tag_of x = (case x of kNone \<Rightarrow> 0 | kInt _ \<Rightarrow> 1 | kString _ \<Rightarrow> 2)"

definition lsRequestId_less :: "lsRequestId \<Rightarrow> lsRequestId \<Rightarrow> bool" where
  "lsRequestId_less a b \<longleftrightarrow>
     (if tag_of a \<noteq> tag_of b then tag_of a < tag_of b
      else case (a, b) of
        (kInt v, kInt w) \<Rightarrow> v < w
      | (kString s, kString t) \<Rightarrow> s < t
      | _ \<Rightarrow> False)"

instantiation lsRequestId :: linorder
begin

definition less_lsRequestId :: "lsRequestId \<Rightarrow> lsRequestId \<Rightarrow> bool" where
  "less_lsRequestId a b \<longleftrightarrow> lsRequestId_less a b"

definition less_eq_lsRequestId :: "lsRequestId \<Rightarrow> lsRequestId \<Rightarrow> bool" where
  "less_eq_lsRequestId a b \<longleftrightarrow> lsRequestId_less a b \<or> a = b"

instance
proof
  fix a b c :: lsRequestId
  show "(a < b) = (a \<le> b \<and> \<not> b \<le> a)"
    by (cases a; cases b) (auto simp: less_lsRequestId_def less_eq_lsRequestId_def lsRequestId_less_def tag_of_def)
  show "a \<le> a" by (simp add: less_eq_lsRequestId_def)
  show "a \<le> b \<Longrightarrow> b \<le> c \<Longrightarrow> a \<le> c"
    by (cases a; cases b; cases c) (auto simp: less_eq_lsRequestId_def lsRequestId_less_def tag_of_def)
  show "a \<le> b \<Longrightarrow> b \<le> a \<Longrightarrow> a = b"
    by (cases a; cases b) (auto simp: less_eq_lsRequestId_def lsRequestId_less_def tag_of_def)
  show "a \<le> b \<or> b \<le> a"
    by (cases a; cases b) (auto simp: less_eq_lsRequestId_def lsRequestId_less_def tag_of_def)
qed

end

text \<open>\<^verbatim>\<open>ToString(lsRequestId)\<close>.\<close>

definition signed_to_string :: "int \<Rightarrow> string" where
  "signed_to_string n = (if n < 0 then ''-'' @ to_string (nat (- n)) else to_string (nat n))"

definition lsRequestId_ToString :: "lsRequestId \<Rightarrow> string" where
  "lsRequestId_ToString i = (case i of kNone \<Rightarrow> [] | kString s \<Rightarrow> s | kInt v \<Rightarrow> signed_to_string v)"

end
