(* ===== verification/Rpc_Message.thy ===== *)
theory Rpc_Message
  imports Std_Map
begin

text \<open>
  JSON-RPC messages: the request identifier on the wire (\<^verbatim>\<open>src/jsonrpc/message.cpp\<close>), the tables of
  parsers and handlers by method (\<^verbatim>\<open>MessageJsonHandler.cpp\<close>, \<^verbatim>\<open>Endpoint.cpp\<close>), and
  \<^verbatim>\<open>RemoteEndPoint::parseAndClassify\<close>, which decides what a received text is.  The JSON parser
  (rapidjson) is not part of the repository: \<open>parse_json\<close> is a parameter, and so are the message
  parsers that an embedding program registers.
\<close>

section \<open>JSON values\<close>

datatype json =
    JNull | JBool bool | JNumber int | JDouble string | JString string
  | JArray "json list" | JObject "(string \<times> json) list"

text \<open>\<^verbatim>\<open>JsonReader::HasMember\<close> and \<^verbatim>\<open>operator[]\<close>.\<close>

definition HasMember :: "json \<Rightarrow> string \<Rightarrow> bool" where
  "HasMember v x = (case v of JObject ms \<Rightarrow> map_of ms x \<noteq> None | _ \<Rightarrow> False)"

definition get_member :: "json \<Rightarrow> string \<Rightarrow> json option" where
  "get_member v x = (case v of JObject ms \<Rightarrow> map_of ms x | _ \<Rightarrow> None)"

definition IsString :: "json \<Rightarrow> bool" where
  "IsString v = (case v of JString s \<Rightarrow> True | _ \<Rightarrow> False)"

text \<open>\<^verbatim>\<open>GetString\<close> goes through a C string.\<close>

definition GetString :: "json \<Rightarrow> string" where
  "GetString v = (case v of JString s \<Rightarrow> c_str s | _ \<Rightarrow> [])"

definition int64 :: "int \<Rightarrow> bool" where
  "int64 n \<longleftrightarrow> - (2 ^ 63) \<le> n \<and> n < 2 ^ 63"

text \<open>\<^verbatim>\<open>Reflect(Reader&, lsRequestId&)\<close> and its writer.\<close>

definition Reflect_id :: "json \<Rightarrow> lsRequestId" where
  "Reflect_id v =
     (case v of
        JNumber n \<Rightarrow> if int64 n then kInt n else kNone
      | JString s \<Rightarrow> kString (GetString v)
      | _ \<Rightarrow> kNone)"

definition Reflect_write_id :: "lsRequestId \<Rightarrow> json" where
  "Reflect_write_id i = (case i of kNone \<Rightarrow> JNull | kInt n \<Rightarrow> JNumber n | kString s \<Rightarrow> JString s)"

section \<open>Values\<close>

text \<open>
  The C++ values that messages carry: integers, floating point numbers (by their text), strings,
  \<^verbatim>\<open>JsonNull\<close>, an indeterminate scalar, \<^verbatim>\<open>lsp::Any\<close> (its type code and its text), \<^verbatim>\<open>optional\<close>, vectors,
  maps, pairs, and structs as the list of their reflected members.
\<close>

datatype val =
    VInt int | VBool bool | VDouble string | VString string | VUnit | VIndet
  | VId lsRequestId | VAny int string
  | VNone | VSome val | VList "val list" | VMap "(string \<times> val) list"
  | VPair val val | VStruct "val list"

section \<open>Messages\<close>

datatype Kind = REQUEST_MESSAGE | RESPONCE_MESSAGE | NOTIFICATION_MESSAGE

text \<open>
  What the endpoint looks at in a message: its kind, identifier and method, the error of an
  error response, the identifier a cancellation names, and the parameters or the result.
\<close>

record LspMessage =
  msg_kind :: Kind
  msg_id :: lsRequestId
  msg_method :: string
  msg_error :: "(int \<times> string) option"
  cancel_id :: lsRequestId
  msg_body :: val

definition ParseError :: int where "ParseError = - 32700"
definition MethodNotFound :: int where "MethodNotFound = - 32601"
definition InvalidParams :: int where "InvalidParams = - 32602"
definition InternalError :: int where "InternalError = - 32603"

definition cancel_method :: string where "cancel_method = ''$/cancelRequest''"

definition makeErrorMessage :: "lsRequestId \<Rightarrow> int \<Rightarrow> string \<Rightarrow> LspMessage" where
  "makeErrorMessage i code message =
     \<lparr>msg_kind = RESPONCE_MESSAGE, msg_id = i, msg_method = [], msg_error = Some (code, message),
      cancel_id = kNone, msg_body = VUnit\<rparr>"

section \<open>Tables of parsers and handlers\<close>

text \<open>What a registered parser does: a message, a null pointer, or an exception.\<close>

datatype parse_result = Parsed LspMessage | Null | Throws string

record MessageJsonHandler =
  method2request :: "string \<Rightarrow> (json \<Rightarrow> parse_result) option"
  method2response :: "string \<Rightarrow> (json \<Rightarrow> parse_result) option"
  method2notification :: "string \<Rightarrow> (json \<Rightarrow> parse_result) option"

definition parseRequstMessage :: "MessageJsonHandler \<Rightarrow> string \<Rightarrow> json \<Rightarrow> parse_result" where
  "parseRequstMessage h method r = (case method2request h method of None \<Rightarrow> Null | Some f \<Rightarrow> f r)"

definition parseResponseMessage :: "MessageJsonHandler \<Rightarrow> string \<Rightarrow> json \<Rightarrow> parse_result" where
  "parseResponseMessage h method r = (case method2response h method of None \<Rightarrow> Null | Some f \<Rightarrow> f r)"

definition parseNotificationMessage :: "MessageJsonHandler \<Rightarrow> string \<Rightarrow> json \<Rightarrow> parse_result" where
  "parseNotificationMessage h method r = (case method2notification h method of None \<Rightarrow> Null | Some f \<Rightarrow> f r)"

definition SetRequestJsonHandler :: "string \<Rightarrow> (json \<Rightarrow> parse_result) \<Rightarrow> MessageJsonHandler \<Rightarrow> MessageJsonHandler" where
  "SetRequestJsonHandler m f h = h\<lparr>method2request := (method2request h)(m := Some f)\<rparr>"

definition SetResponseJsonHandler :: "string \<Rightarrow> (json \<Rightarrow> parse_result) \<Rightarrow> MessageJsonHandler \<Rightarrow> MessageJsonHandler" where
  "SetResponseJsonHandler m f h = h\<lparr>method2response := (method2response h)(m := Some f)\<rparr>"

definition SetNotificationJsonHandler :: "string \<Rightarrow> (json \<Rightarrow> parse_result) \<Rightarrow> MessageJsonHandler \<Rightarrow> MessageJsonHandler" where
  "SetNotificationJsonHandler m f h = h\<lparr>method2notification := (method2notification h)(m := Some f)\<rparr>"

text \<open>\<^verbatim>\<open>GenericEndpoint\<close>: the handlers work on the state of the embedding program.\<close>

record 'u GenericEndpoint =
  ep_request :: "string \<Rightarrow> (LspMessage \<Rightarrow> 'u \<Rightarrow> bool \<times> 'u) option"
  ep_response :: "string \<Rightarrow> (LspMessage \<Rightarrow> 'u \<Rightarrow> bool \<times> 'u) option"
  ep_notification :: "string \<Rightarrow> (LspMessage \<Rightarrow> 'u \<Rightarrow> bool \<times> 'u) option"

text \<open>The result says whether the message was handled; an unhandled one is logged (the flag).\<close>

definition ep_notify :: "'u GenericEndpoint \<Rightarrow> LspMessage \<Rightarrow> 'u \<Rightarrow> bool \<times> bool \<times> 'u" where
  "ep_notify e msg u =
     (case ep_notification e (msg_method msg) of
        Some f \<Rightarrow> (case f msg u of (b, u') \<Rightarrow> (b, False, u'))
      | None \<Rightarrow> (False, True, u))"

definition ep_onResponse :: "'u GenericEndpoint \<Rightarrow> string \<Rightarrow> LspMessage \<Rightarrow> 'u \<Rightarrow> bool \<times> bool \<times> 'u" where
  "ep_onResponse e method msg u =
     (case ep_response e method of
        Some f \<Rightarrow> (case f msg u of (b, u') \<Rightarrow> (b, False, u'))
      | None \<Rightarrow> (False, True, u))"

definition ep_onRequest :: "'u GenericEndpoint \<Rightarrow> LspMessage \<Rightarrow> 'u \<Rightarrow> bool \<times> bool \<times> 'u" where
  "ep_onRequest e msg u =
     (case ep_request e (msg_method msg) of
        Some f \<Rightarrow> (case f msg u of (b, u') \<Rightarrow> (b, False, u'))
      | None \<Rightarrow> (False, True, u))"

section \<open>Classification\<close>

definition isResponseMessage :: "json \<Rightarrow> bool" where
  "isResponseMessage v =
     (if \<not> HasMember v ''id'' then False
      else if \<not> HasMember v ''result'' \<and> \<not> HasMember v ''error'' then False
      else True)"

definition method_is_string :: "json \<Rightarrow> bool" where
  "method_is_string v = (case get_member v ''method'' of Some m \<Rightarrow> IsString m | None \<Rightarrow> False)"

definition isRequestMessage :: "json \<Rightarrow> bool" where
  "isRequestMessage v =
     (if \<not> HasMember v ''method'' then False
      else if \<not> method_is_string v then False
      else if \<not> HasMember v ''id'' then False
      else True)"

definition isNotificationMessage :: "json \<Rightarrow> bool" where
  "isNotificationMessage v =
     (if \<not> HasMember v ''method'' then False
      else if \<not> method_is_string v then False
      else if HasMember v ''id'' then False
      else True)"

record ParsedMessage =
  ok :: bool
  outgoing :: bool
  kind :: Kind
  message :: "LspMessage option"
  pending :: "nat option"

definition empty_parsed :: ParsedMessage where
  "empty_parsed = \<lparr>ok = False, outgoing = False, kind = NOTIFICATION_MESSAGE, message = None, pending = None\<rparr>"

datatype log_level = LogSevere | LogWarning | LogInfo

type_synonym log_line = "log_level \<times> string"

definition version_ok :: "json \<Rightarrow> bool" where
  "version_ok v =
     (case get_member v ''jsonrpc'' of
        Some s \<Rightarrow> IsString s \<and> GetString s = ''2.0''
      | None \<Rightarrow> False)"

definition member_id :: "json \<Rightarrow> lsRequestId" where
  "member_id v = (case get_member v ''id'' of Some i \<Rightarrow> Reflect_id i | None \<Rightarrow> kNone)"

definition member_method :: "json \<Rightarrow> string" where
  "member_method v = (case get_member v ''method'' of Some m \<Rightarrow> GetString m | None \<Rightarrow> [])"

definition kind_name :: "Kind \<Rightarrow> string" where
  "kind_name k = (case k of REQUEST_MESSAGE \<Rightarrow> ''request'' | RESPONCE_MESSAGE \<Rightarrow> ''response''
                  | NOTIFICATION_MESSAGE \<Rightarrow> ''notification'')"

definition exception_log :: "Kind \<Rightarrow> string \<Rightarrow> string \<Rightarrow> log_line" where
  "exception_log k e content =
     (LogSevere, ''Reason:Exception  when process '' @ kind_name k @ '' message:'' @ [LF] @ e @ [LF] @ ''content:'' @ [LF] @ content)"

definition outgoing_error :: "lsRequestId \<Rightarrow> int \<Rightarrow> string \<Rightarrow> ParsedMessage" where
  "outgoing_error i code text =
     \<lparr>ok = True, outgoing = True, kind = RESPONCE_MESSAGE, message = Some (makeErrorMessage i code text), pending = None\<rparr>"

definition failed_response :: "lsRequestId \<Rightarrow> nat \<Rightarrow> ParsedMessage" where
  "failed_response i a =
     \<lparr>ok = True, outgoing = False, kind = RESPONCE_MESSAGE,
      message = Some (makeErrorMessage i InternalError ''Failed to parse response message.''), pending = Some a\<rparr>"

text \<open>The three branches of the classification.\<close>

definition classify_request :: "MessageJsonHandler \<Rightarrow> string \<Rightarrow> json \<Rightarrow> ParsedMessage \<times> log_line list" where
  "classify_request h content v =
     (let current_id = member_id v; method = member_method v
      in case parseRequstMessage h method v of
           Parsed msg \<Rightarrow>
             (\<lparr>ok = True, outgoing = False, kind = REQUEST_MESSAGE, message = Some msg, pending = None\<rparr>, [])
         | Null \<Rightarrow>
             (if has_value current_id then outgoing_error current_id MethodNotFound (''Method not found: '' @ method)
              else empty_parsed,
              [(LogWarning, ''Unknown support request message when consumer message:'' @ [LF] @ content)])
         | Throws e \<Rightarrow>
             (if has_value current_id then outgoing_error current_id InvalidParams e else empty_parsed,
              [exception_log REQUEST_MESSAGE e content]))"

definition classify_response ::
  "MessageJsonHandler \<Rightarrow> (lsRequestId \<Rightarrow> (nat \<times> string) option) \<Rightarrow> string \<Rightarrow> json \<Rightarrow> ParsedMessage \<times> log_line list" where
  "classify_response h getRequestInfo content v =
     (let i = member_id v
      in case getRequestInfo i of
           None \<Rightarrow>
             (empty_parsed\<lparr>ok := True, kind := RESPONCE_MESSAGE\<rparr>, [(LogInfo, ''Unknown response message :'' @ [LF] @ content)])
         | Some (a, method) \<Rightarrow>
             (case parseResponseMessage h method v of
                Parsed msg \<Rightarrow>
                  (\<lparr>ok = True, outgoing = False, kind = RESPONCE_MESSAGE, message = Some msg, pending = Some a\<rparr>, [])
              | Null \<Rightarrow> (failed_response i a, [(LogSevere, ''Unknown response message :'' @ [LF] @ content)])
              | Throws e \<Rightarrow>
                  (if has_value i then failed_response i a else empty_parsed,
                   [exception_log RESPONCE_MESSAGE e content])))"

definition classify_notification :: "MessageJsonHandler \<Rightarrow> string \<Rightarrow> json \<Rightarrow> ParsedMessage \<times> log_line list" where
  "classify_notification h content v =
     (case parseNotificationMessage h (member_method v) v of
        Parsed msg \<Rightarrow>
          (\<lparr>ok = True, outgoing = False, kind = NOTIFICATION_MESSAGE, message = Some msg, pending = None\<rparr>, [])
      | Null \<Rightarrow> (empty_parsed, [(LogSevere, ''Unknown notification message :'' @ [LF] @ content)])
      | Throws e \<Rightarrow> (empty_parsed, [exception_log NOTIFICATION_MESSAGE e content]))"

text \<open>
  \<open>parse_json\<close> returns the parsed document, or the parser's error text and the offset of the error.
\<close>

definition parseAndClassify ::
  "(string \<Rightarrow> (string \<times> nat) + json) \<Rightarrow> MessageJsonHandler \<Rightarrow> (lsRequestId \<Rightarrow> (nat \<times> string) option) \<Rightarrow>
     string \<Rightarrow> ParsedMessage \<times> log_line list" where
  "parseAndClassify parse_json h getRequestInfo content =
     (case parse_json content of
        Inl (err, off) \<Rightarrow>
          (empty_parsed,
           [(LogSevere, ''lsp msg format error:'' @ err @ [LF] @ ''ErrorContext offset:'' @ [LF] @ drop off content)])
      | Inr v \<Rightarrow>
          if \<not> version_ok v then
            (empty_parsed,
             [(LogSevere, ''Reason:Bad or missing jsonrpc version'' @ [LF] @ ''content:'' @ [LF] @ content)])
          else if isRequestMessage v then classify_request h content v
          else if isResponseMessage v then classify_response h getRequestInfo content v
          else if isNotificationMessage v then classify_notification h content v
          else (empty_parsed, [(LogWarning, ''Unknown lsp message when consumer message:'' @ [LF] @ content)]))"

section \<open>Properties\<close>

lemma HasMember_get: "HasMember v x \<longleftrightarrow> get_member v x \<noteq> None"
  by (cases v) (auto simp: HasMember_def get_member_def)

text \<open>A request identifier survives the wire: what the writer emits, the reader reads back, for
  every 64-bit number and every text without NUL bytes.\<close>

theorem request_id_roundtrip:
  assumes "case i of kNone \<Rightarrow> True | kInt n \<Rightarrow> int64 n | kString s \<Rightarrow> NUL \<notin> set s"
  shows "Reflect_id (Reflect_write_id i) = i"
proof -
  have "c_str s = s" if "NUL \<notin> set s" for s
    using that by (simp add: c_str_def takeWhile_eq_all_conv) metis
  with assms show ?thesis
    by (cases i) (auto simp: Reflect_id_def Reflect_write_id_def GetString_def)
qed

theorem request_id_roundtrip_witness: "Reflect_id (Reflect_write_id (kString ''a-1'')) = kString ''a-1''"
  by (rule request_id_roundtrip) simp

definition sample_request :: json where
  "sample_request =
     JObject [(''jsonrpc'', JString ''2.0''), (''id'', JNumber 3), (''method'', JString ''shutdown'')]"

definition sample_parser :: "string \<Rightarrow> (string \<times> nat) + json" where
  "sample_parser s = (if s = ''{}'' then Inr sample_request else Inl (''Invalid value.'', 0))"

definition no_handlers :: MessageJsonHandler where
  "no_handlers = \<lparr>method2request = (\<lambda>m. None), method2response = (\<lambda>m. None), method2notification = (\<lambda>m. None)\<rparr>"

text \<open>A response that the endpoint waits for always completes the waiting request: with the
  parsed message, or with an internal error when the message cannot be parsed.  A response nobody
  waits for carries no message.\<close>

theorem response_completes_pending:
  assumes "parse_json content = Inr v" "version_ok v" "\<not> isRequestMessage v" "isResponseMessage v" "has_value (member_id v)"
  shows "case info (member_id v) of
      Some (a, method) \<Rightarrow>
        ok (fst (parseAndClassify parse_json h info content)) \<and>
        pending (fst (parseAndClassify parse_json h info content)) = Some a \<and>
        (case parseResponseMessage h method v of
           Parsed msg \<Rightarrow> message (fst (parseAndClassify parse_json h info content)) = Some msg
         | _ \<Rightarrow> message (fst (parseAndClassify parse_json h info content)) =
                  Some (makeErrorMessage (member_id v) InternalError ''Failed to parse response message.''))
    | None \<Rightarrow> message (fst (parseAndClassify parse_json h info content)) = None"
  using assms
  by (auto simp: parseAndClassify_def classify_response_def failed_response_def empty_parsed_def Let_def
      split: option.splits parse_result.splits)

definition sample_response :: json where
  "sample_response = JObject [(''jsonrpc'', JString ''2.0''), (''id'', JNumber 3), (''result'', JNull)]"

theorem response_completes_pending_witness:
  "pending (fst (parseAndClassify (\<lambda>s. Inr sample_response) no_handlers (\<lambda>i. Some (5, ''shutdown'')) ''{}'')) = Some 5"
proof -
  have h: "version_ok sample_response" "\<not> isRequestMessage sample_response" "isResponseMessage sample_response"
    "has_value (member_id sample_response)" by code_simp+
  from response_completes_pending [of "\<lambda>s. Inr sample_response" "''{}''", OF refl h, where info = "\<lambda>i. Some (5, ''shutdown'')" and h = no_handlers]
  show ?thesis by simp
qed

text \<open>A received text that yields no message (a parse error, a wrong version, an unknown kind or
  method, a response nobody waits for) leaves exactly one line in the log.\<close>

theorem rejected_is_logged:
  "message (fst (parseAndClassify parse_json h info content)) = None \<Longrightarrow>
     length (snd (parseAndClassify parse_json h info content)) = 1"
  by (auto simp: parseAndClassify_def classify_request_def classify_response_def classify_notification_def Let_def
      empty_parsed_def outgoing_error_def failed_response_def
      split: sum.splits prod.splits option.splits parse_result.splits if_splits)

theorem rejected_is_logged_witness:
  "length (snd (parseAndClassify sample_parser no_handlers (\<lambda>i. None) ''[''))  = 1"
  by (rule rejected_is_logged) (simp add: parseAndClassify_def sample_parser_def empty_parsed_def)

end
