(* ===== verification/Session_Output.thy ===== *)
theory Session_Output
  imports Message_Framing Rpc_Message "HOL-Library.Sublist"
begin

text \<open>
  The output side of \<^verbatim>\<open>src/jsonrpc/RemoteEndPoint.cpp\<close> and \<^verbatim>\<open>RemoteEndPoint.h\<close>: every call of
  \<^verbatim>\<open>startProcessingMessages\<close> makes a \<^verbatim>\<open>SessionOutputState\<close>, which is shared between the endpoint
  and the handlers of that session, so it is an address into a list of them.  A handler
  answers through the session it was started in.  \<open>to_json\<close> stands for the serialisation of
  messages (\<^verbatim>\<open>ToJson\<close>, code generated by macros over rapidjson).  The interface of an operation
  that writes to one session is the locale \<open>session_op\<close>.
\<close>

section \<open>Model\<close>

text \<open>
  What the output stream does with a text that is written to it: it takes the whole text; it takes
  nothing and stays as it is (a stream with its fail bit set, or one that throws at once); or it
  breaks after some bytes, and \<^verbatim>\<open>bad()\<close> answers true from then on, as for \<^verbatim>\<open>std::ostream\<close> and the streams
  over descriptors and connections.  With the last two an exception may leave \<^verbatim>\<open>write\<close> or \<^verbatim>\<open>flush\<close>.
\<close>

datatype write_answer =
    Takes
  | Refuses "string option"
  | Breaks nat "string option"

text \<open>
  \<open>output_bad\<close> is what \<^verbatim>\<open>bad()\<close> answers now, \<open>write_answers\<close> what the stream will do with the next texts (it takes all
  that come after them), and \<open>written\<close> what it has taken so far.  All writers of a session hold its
  \<^verbatim>\<open>send_mutex\<close> from the test of the stream to the end of the write (\<open>has_send_mutex\<close> tells that there is one), so that
  a send is one step and the texts of two threads do not mix.
\<close>

record SessionOutputState =
  active :: bool
  has_output :: bool
  has_send_mutex :: bool
  output_bad :: bool
  write_answers :: "write_answer list"
  written :: string
  generation :: nat

type_synonym sessions = "SessionOutputState list"

text \<open>The result of an operation that may throw: the text of the exception, and the new state.\<close>

type_synonym 's throwing = "string option \<times> 's"

text \<open>\<^verbatim>\<open>output->write(value)\<close> and \<^verbatim>\<open>output->flush()\<close>.\<close>

definition write_output :: "string \<Rightarrow> SessionOutputState \<Rightarrow> SessionOutputState throwing" where
  "write_output x st =
     (case write_answers st of
        [] \<Rightarrow> (None, st\<lparr>written := written st @ x\<rparr>)
      | Takes # as \<Rightarrow> (None, st\<lparr>write_answers := as, written := written st @ x\<rparr>)
      | Refuses e # as \<Rightarrow> (e, st\<lparr>write_answers := as\<rparr>)
      | Breaks n e # as \<Rightarrow> (e, st\<lparr>write_answers := as, written := written st @ take n x, output_bad := True\<rparr>))"

definition sendSessionMessage :: "(LspMessage \<Rightarrow> string) \<Rightarrow> nat \<Rightarrow> LspMessage \<Rightarrow> sessions \<Rightarrow> sessions throwing" where
  "sendSessionMessage to_json k msg ss =
     (let st = ss ! k in
      if \<not> active st \<or> \<not> has_send_mutex st then (None, ss)
      else if \<not> active st \<or> \<not> has_output st \<or> output_bad st then (None, ss)
      else case write_output (WriterMsg (to_json msg)) st of (e, st1) \<Rightarrow> (e, ss[k := st1]))"

text \<open>
  What a registered request handler can do: return a response (or an error response), throw a
  \<^verbatim>\<open>RequestError\<close>, throw another \<^verbatim>\<open>std::exception\<close>, or throw something else.
\<close>

datatype handler_outcome =
    Responds LspMessage
  | ThrowsRequestError int string
  | ThrowsException string
  | ThrowsOther

definition sendHandlerResult ::
  "(LspMessage \<Rightarrow> string) \<Rightarrow> nat \<Rightarrow> LspMessage \<Rightarrow> lsRequestId \<Rightarrow> sessions \<Rightarrow> sessions throwing" where
  "sendHandlerResult to_json k res i ss = sendSessionMessage to_json k (res\<lparr>msg_id := i\<rparr>) ss"

definition toRspError :: "lsRequestId \<Rightarrow> int \<Rightarrow> string \<Rightarrow> LspMessage" where
  "toRspError i code text = makeErrorMessage i code text"

definition sendRspError ::
  "(LspMessage \<Rightarrow> string) \<Rightarrow> nat \<Rightarrow> lsRequestId \<Rightarrow> int \<Rightarrow> string \<Rightarrow> sessions \<Rightarrow> sessions throwing" where
  "sendRspError to_json k i code text ss = sendSessionMessage to_json k (toRspError i code text) ss"

definition sendInternalError ::
  "(LspMessage \<Rightarrow> string) \<Rightarrow> nat \<Rightarrow> lsRequestId \<Rightarrow> string \<Rightarrow> sessions \<Rightarrow> sessions throwing" where
  "sendInternalError to_json k i text ss = sendSessionMessage to_json k (makeErrorMessage i InternalError text) ss"

text \<open>
  The \<^verbatim>\<open>try\<close> block around a request handler, the same in \<^verbatim>\<open>registerSyncRequestHandler\<close>,
  \<^verbatim>\<open>registerSyncRequestHandlerWithMonitor\<close> and in the completion of \<^verbatim>\<open>completeAsyncHandler\<close>.  An
  exception of the stream while the result is sent lands in the handler for \<^verbatim>\<open>std::exception\<close>,
  which tries to send an error in its place.
\<close>

definition answer_request ::
  "(LspMessage \<Rightarrow> string) \<Rightarrow> nat \<Rightarrow> lsRequestId \<Rightarrow> handler_outcome \<Rightarrow> sessions \<Rightarrow> sessions throwing" where
  "answer_request to_json k i out ss =
     (case out of
        Responds res \<Rightarrow>
          (case sendHandlerResult to_json k res i ss of
             (None, ss1) \<Rightarrow> (None, ss1)
           | (Some e, ss1) \<Rightarrow> sendInternalError to_json k i e ss1)
      | ThrowsRequestError code text \<Rightarrow> sendRspError to_json k i code text ss
      | ThrowsException text \<Rightarrow> sendInternalError to_json k i text ss
      | ThrowsOther \<Rightarrow> sendInternalError to_json k i ''Unhandled exception.'' ss)"

text \<open>The message that answers a request with a given outcome.\<close>

definition answer_message :: "lsRequestId \<Rightarrow> handler_outcome \<Rightarrow> LspMessage" where
  "answer_message i out =
     (case out of
        Responds res \<Rightarrow> res\<lparr>msg_id := i\<rparr>
      | ThrowsRequestError code text \<Rightarrow> makeErrorMessage i code text
      | ThrowsException text \<Rightarrow> makeErrorMessage i InternalError text
      | ThrowsOther \<Rightarrow> makeErrorMessage i InternalError ''Unhandled exception.'')"

section \<open>Operations that write to one session\<close>

text \<open>A session that can be written to.\<close>

definition writable :: "SessionOutputState \<Rightarrow> bool" where
  "writable st \<longleftrightarrow> active st \<and> has_send_mutex st \<and> has_output st \<and> \<not> output_bad st"

text \<open>
  Output grows by whole frames; after them there may be the beginning of one more, and then the stream is
  bad.  A bad stream stays bad and takes nothing.
\<close>

definition cut_frame :: "string \<Rightarrow> bool" where
  "cut_frame x \<longleftrightarrow> x = [] \<or> (\<exists>m. strict_prefix x (WriterMsg m))"

definition framed_growth :: "sessions \<Rightarrow> sessions \<Rightarrow> bool" where
  "framed_growth ss ss' \<longleftrightarrow>
     (\<forall>j. (output_bad (ss ! j) \<longrightarrow> output_bad (ss' ! j) \<and> written (ss' ! j) = written (ss ! j)) \<and>
          (\<exists>ms cut. written (ss' ! j) = written (ss ! j) @ concat (map WriterMsg ms) @ cut \<and> cut_frame cut \<and>
             (cut \<noteq> [] \<longrightarrow> output_bad (ss' ! j))))"

lemma framed_growth_refl [simp]: "framed_growth ss ss"
  unfolding framed_growth_def cut_frame_def by (metis append_Nil2 concat.simps(1) list.map(1))

lemma framed_growth_trans:
  assumes "framed_growth ss ss'" "framed_growth ss' ss''"
  shows "framed_growth ss ss''"
  unfolding framed_growth_def
proof (intro allI conjI impI)
  fix j
  show "output_bad (ss ! j) \<Longrightarrow> output_bad (ss'' ! j)" "output_bad (ss ! j) \<Longrightarrow> written (ss'' ! j) = written (ss ! j)"
    using assms by (simp_all add: framed_growth_def)
  from assms(1) obtain ms cut where c: "written (ss' ! j) = written (ss ! j) @ concat (map WriterMsg ms) @ cut" "cut_frame cut"
      "cut \<noteq> [] \<longrightarrow> output_bad (ss' ! j)"
    unfolding framed_growth_def by blast
  from assms(2) obtain ms' cut' where c': "written (ss'' ! j) = written (ss' ! j) @ concat (map WriterMsg ms') @ cut'" "cut_frame cut'"
      "cut' \<noteq> [] \<longrightarrow> output_bad (ss'' ! j)"
    unfolding framed_growth_def by blast
  show "\<exists>ms cut. written (ss'' ! j) = written (ss ! j) @ concat (map WriterMsg ms) @ cut \<and> cut_frame cut \<and> (cut \<noteq> [] \<longrightarrow> output_bad (ss'' ! j))"
  proof (cases "cut = []")
    case True
    then show ?thesis using c c' by (intro exI [of _ "ms @ ms'"] exI [of _ cut']) simp
  next
    case False
    then have "output_bad (ss'' ! j) \<and> written (ss'' ! j) = written (ss' ! j)" using c(3) assms(2) by (simp add: framed_growth_def)
    then show ?thesis using c by (intro exI [of _ ms] exI [of _ cut]) simp
  qed
qed

lemma framed_growth_update:
  assumes "k < length ss \<Longrightarrow> framed_growth [ss ! k] [st]"
  shows "framed_growth ss (ss[k := st])"
proof (cases "k < length ss")
  case True
  from assms [OF True, unfolded framed_growth_def, THEN spec, of 0]
  show ?thesis
    unfolding framed_growth_def using framed_growth_refl [of ss, unfolded framed_growth_def] True by (auto simp: nth_list_update)
qed (simp add: list_update_beyond)

lemma write_growth:
  assumes "write_output (WriterMsg m) st = (e, st1)" "\<not> output_bad st"
  shows "framed_growth [st] [st1]"
proof -
  have one: "written st @ WriterMsg m = written st @ concat (map WriterMsg [m]) @ []" by simp
  have cut: "take n (WriterMsg m) = concat (map WriterMsg []) @ take n (WriterMsg m) \<and> cut_frame (take n (WriterMsg m)) \<or>
      take n (WriterMsg m) = concat (map WriterMsg [m]) @ []" for n
    by (cases "n < length (WriterMsg m)") (auto simp: cut_frame_def strict_prefix_def take_is_prefix intro!: exI [of _ m] dest: arg_cong [of _ _ length])
  have "\<exists>ms cut. written st1 = written st @ concat (map WriterMsg ms) @ cut \<and> cut_frame cut \<and> (cut \<noteq> [] \<longrightarrow> output_bad st1)"
  proof (cases "written st1 = written st")
    case True
    then show ?thesis by (intro exI [of _ "[]"] exI [of _ "[]"]) (simp add: cut_frame_def)
  next
    case False
    then consider "written st1 = written st @ WriterMsg m" | n where "written st1 = written st @ take n (WriterMsg m)" "output_bad st1"
      using assms(1) by (auto simp: write_output_def split: list.splits write_answer.splits)
    then show ?thesis
    proof cases
      case 1
      then show ?thesis by (intro exI [of _ "[m]"] exI [of _ "[]"]) (simp add: cut_frame_def)
    next
      case 2
      then show ?thesis using cut [of n] by (metis append_Nil2 cut_frame_def)
    qed
  qed
  then have "\<exists>ms cut. written ([st1] ! j) = written ([st] ! j) @ concat (map WriterMsg ms) @ cut \<and> cut_frame cut \<and> (cut \<noteq> [] \<longrightarrow> output_bad ([st1] ! j))"
    if "j = 0" for j using that by simp
  moreover have "[st1] ! j = [st] ! j" if "j \<noteq> 0" for j using that by (cases j) simp_all
  ultimately show ?thesis
    unfolding framed_growth_def using assms(2) framed_growth_refl [of "[st]", unfolded framed_growth_def] by (metis nth_Cons_0)
qed

locale session_op =
  fixes f :: "sessions \<Rightarrow> sessions throwing" and k :: nat
  assumes keeps_number: "length (snd (f ss)) = length ss"
    and only_here: "j \<noteq> k \<Longrightarrow> snd (f ss) ! j = ss ! j"
    and not_writable: "\<not> writable (ss ! k) \<Longrightarrow> f ss = (None, ss)"
    and flags_here: "k < length ss \<Longrightarrow>
      active (snd (f ss) ! k) = active (ss ! k) \<and> has_output (snd (f ss) ! k) = has_output (ss ! k) \<and>
      has_send_mutex (snd (f ss) ! k) = has_send_mutex (ss ! k) \<and> generation (snd (f ss) ! k) = generation (ss ! k)"
    and whole_frames: "framed_growth ss (snd (f ss))"
begin

lemma out_of_range: "k \<ge> length ss \<Longrightarrow> snd (f ss) = ss"
  by (intro nth_equalityI) (auto simp: keeps_number only_here)

lemma flags_kept:
  "active (snd (f ss) ! j) = active (ss ! j)" "has_output (snd (f ss) ! j) = has_output (ss ! j)"
  "has_send_mutex (snd (f ss) ! j) = has_send_mutex (ss ! j)" "generation (snd (f ss) ! j) = generation (ss ! j)"
  using flags_here [of ss] only_here [of j ss] out_of_range [of ss] by (cases "j = k"; cases "k < length ss"; simp)+

lemma bad_is_kept: "output_bad (ss ! j) \<Longrightarrow> output_bad (snd (f ss) ! j)"
  using whole_frames [of ss] by (simp add: framed_growth_def)

lemma unwritable_untouched:
  assumes "\<not> writable (ss ! j)"
  shows "snd (f ss) ! j = ss ! j"
  using assms by (cases "j = k") (simp_all add: not_writable only_here)

end

lemma sendSessionMessage_eq:
  "sendSessionMessage to_json k msg ss =
     (if writable (ss ! k) then (case write_output (WriterMsg (to_json msg)) (ss ! k) of (e, st) \<Rightarrow> (e, ss[k := st])) else (None, ss))"
  by (auto simp: sendSessionMessage_def writable_def Let_def)

lemma write_output_flags:
  assumes "write_output x st = (e, st1)"
  shows "active st1 = active st" "has_output st1 = has_output st" "has_send_mutex st1 = has_send_mutex st" "generation st1 = generation st"
  using assms by (auto simp: write_output_def split: list.splits write_answer.splits)

lemma send_growth: "framed_growth ss (snd (sendSessionMessage to_json k msg ss))"
  by (auto simp: sendSessionMessage_eq writable_def intro!: framed_growth_update write_growth split: prod.splits)

interpretation send: session_op "sendSessionMessage to_json k msg" k
proof
  show "framed_growth ss (snd (sendSessionMessage to_json k msg ss))" for ss by (rule send_growth)
qed (auto simp: sendSessionMessage_eq write_output_flags split: prod.splits)

text \<open>An answer is one send, or two when the stream throws at the first: every operation of this kind keeps the laws of \<^const>\<open>session_op\<close>.\<close>

lemma session_op_retry:
  assumes "session_op f k" "\<And>e. session_op (g e) k"
  shows "session_op (\<lambda>ss. case f ss of (None, ss1) \<Rightarrow> (None, ss1) | (Some e, ss1) \<Rightarrow> g e ss1) k"
proof -
  have eq: "snd (case f ss of (None, ss1) \<Rightarrow> (None, ss1) | (Some e, ss1) \<Rightarrow> g e ss1) =
      (case fst (f ss) of None \<Rightarrow> snd (f ss) | Some e \<Rightarrow> snd (g e (snd (f ss))))" for ss
    by (cases "f ss"; cases "fst (f ss)") auto
  note F = session_op.keeps_number [OF assms(1)] session_op.only_here [OF assms(1)] session_op.flags_kept [OF assms(1)] session_op.whole_frames [OF assms(1)]
  note G = session_op.keeps_number [OF assms(2)] session_op.only_here [OF assms(2)] session_op.flags_kept [OF assms(2)] session_op.whole_frames [OF assms(2)]
  show ?thesis
  proof (rule session_op.intro, unfold eq)
    fix ss
    show "\<not> writable (ss ! k) \<Longrightarrow> (case f ss of (None, ss1) \<Rightarrow> (None, ss1) | (Some e, ss1) \<Rightarrow> g e ss1) = (None, ss)"
      by (simp add: session_op.not_writable [OF assms(1)])
    show "framed_growth ss (case fst (f ss) of None \<Rightarrow> snd (f ss) | Some e \<Rightarrow> snd (g e (snd (f ss))))"
      by (cases "fst (f ss)") (simp_all add: F(7) framed_growth_trans [OF F(7) G(7)])
  qed (auto simp: F G split: option.splits)
qed

lemma answer_request_eq:
  "answer_request to_json k i out ss =
     (case sendSessionMessage to_json k (answer_message i out) ss of
        (None, ss1) \<Rightarrow> (None, ss1)
      | (Some e, ss1) \<Rightarrow> (case out of Responds res \<Rightarrow> sendInternalError to_json k i e ss1 | _ \<Rightarrow> (Some e, ss1)))"
  by (auto simp: answer_request_def answer_message_def sendHandlerResult_def sendRspError_def sendInternalError_def toRspError_def
      split: handler_outcome.splits option.splits prod.splits)

lemma answer_request_op: "session_op (answer_request to_json k i out) k"
proof (cases out)
  case (Responds res)
  then have "answer_request to_json k i out =
      (\<lambda>ss. case sendHandlerResult to_json k res i ss of (None, ss1) \<Rightarrow> (None, ss1) | (Some e, ss1) \<Rightarrow> sendInternalError to_json k i e ss1)"
    by (auto simp: answer_request_def fun_eq_iff)
  then show ?thesis
    using session_op_retry [of "sendHandlerResult to_json k res i" k "sendInternalError to_json k i"] send.session_op_axioms
    by (simp add: sendHandlerResult_def [abs_def] sendInternalError_def [abs_def])
qed (use send.session_op_axioms in \<open>simp_all add: answer_request_def [abs_def] sendRspError_def sendInternalError_def\<close>)

interpretation answer: session_op "answer_request to_json k i out" k
  by (rule answer_request_op)

text \<open>A request handler of the synchronous kind always answers: exactly one frame goes out, with
  the identifier of the request, to the session the request came in on, whether the handler
  returns or throws.  With the framing of \<^const>\<open>WriterMsg\<close> the other side can read it back.\<close>

theorem request_answered_once:
  assumes "k < length ss" "writable (ss ! k)" "write_answers (ss ! k) = []"
  shows "\<exists>m. msg_id m = i \<and> fst (answer_request to_json k i out ss) = None \<and>
             snd (answer_request to_json k i out ss) = ss[k := (ss ! k)\<lparr>written := written (ss ! k) @ WriterMsg (to_json m)\<rparr>]"
proof -
  have "msg_id (answer_message i out) = i"
    by (simp add: answer_message_def makeErrorMessage_def split: handler_outcome.splits)
  then show ?thesis using assms by (intro exI [of _ "answer_message i out"]) (simp add: answer_request_eq sendSessionMessage_eq write_output_def)
qed

text \<open>A response that the stream refuses with an exception is replaced by an error response with the text of the exception and the identifier of
  the request; if the stream broke in the middle of the response nothing more is written.\<close>

lemma refused_response:
  assumes "k < length ss" "writable (ss ! k)"
  shows "write_answers (ss ! k) = Refuses (Some e) # Takes # as \<Longrightarrow>
      answer_request to_json k i (Responds res) ss =
        (None, ss[k := (ss ! k)\<lparr>write_answers := as, written := written (ss ! k) @ WriterMsg (to_json (makeErrorMessage i InternalError e))\<rparr>])"
    and "write_answers (ss ! k) = Breaks n (Some e) # as \<Longrightarrow>
      answer_request to_json k i (Responds res) ss =
        (None, ss[k := (ss ! k)\<lparr>write_answers := as, written := written (ss ! k) @ take n (WriterMsg (to_json (res\<lparr>msg_id := i\<rparr>))), output_bad := True\<rparr>])"
  using assms by (simp_all add: answer_request_eq answer_message_def sendSessionMessage_eq sendInternalError_def write_output_def writable_def)

definition sample_session :: SessionOutputState where
  "sample_session =
     \<lparr>active = True, has_output = True, has_send_mutex = True, output_bad = False, write_answers = [], written = [],
      generation = 2\<rparr>"

theorem request_answered_once_witness:
  "written (snd (answer_request (\<lambda>m. ''{}'') 0 (kInt 7) ThrowsOther [sample_session]) ! 0) = WriterMsg ''{}''"
  using request_answered_once [of 0 "[sample_session]" "kInt 7" "\<lambda>m. ''{}''" ThrowsOther]
  by (auto simp: sample_session_def writable_def)

end
