(* ===== verification/Message_Routing.thy ===== *)
theory Message_Routing
  imports Rpc_Message
begin

text \<open>
  Putting parsed messages back into wire order: the locked part of \<^verbatim>\<open>submitParsedMessage\<close> in
  \<^verbatim>\<open>src/jsonrpc/RemoteEndPoint.cpp\<close>.  Texts are parsed by a pool of workers and finish in any order;
  each carries the sequence number it was received with, and the reorder buffer holds a message
  back until all earlier ones have been routed.  The results say that what comes out is in
  sequence order with no gap and no repetition, for every order of submissions, and that nothing
  is held back once its predecessors are there.
\<close>

section \<open>Model\<close>

datatype overload_policy = StopProcessing | DropNewest

record RemoteEndPointLimits =
  max_frame_size :: nat
  max_parse_queue_size :: nat
  max_reorder_buffer_size :: nat
  max_notification_queue_size :: nat
  max_parked_request_queue_size :: nat
  max_pending_cancel_requests :: nat
  max_seen_request_ids :: nat
  max_pending_outgoing_requests :: nat
  policy :: overload_policy

definition default_limits :: RemoteEndPointLimits where
  "default_limits =
     \<lparr>max_frame_size = 0, max_parse_queue_size = 0, max_reorder_buffer_size = 0, max_notification_queue_size = 0,
      max_parked_request_queue_size = 0, max_pending_cancel_requests = 0, max_seen_request_ids = 0,
      max_pending_outgoing_requests = 0, policy = StopProcessing\<rparr>"

record router =
  reorder_buffer :: "(nat, ParsedMessage) std_map"
  next_route_sequence :: nat

definition resetMessageRouting :: "nat \<Rightarrow> router \<Rightarrow> router" where
  "resetMessageRouting next_message_sequence r =
     r\<lparr>reorder_buffer := [], next_route_sequence := next_message_sequence\<rparr>"

definition clearMessageRouting :: "router \<Rightarrow> router" where
  "clearMessageRouting r = r\<lparr>reorder_buffer := []\<rparr>"

text \<open>The loop that takes the messages that are next in line out of the buffer.\<close>

function drain :: "(nat, ParsedMessage) std_map \<Rightarrow> nat \<Rightarrow> (nat \<times> ParsedMessage) list \<times> router" where
  "drain buf n =
     (case map_of buf n of
        None \<Rightarrow> ([], \<lparr>reorder_buffer = buf, next_route_sequence = n\<rparr>)
      | Some p \<Rightarrow> (case drain (map_erase n buf) (n + 1) of (ready, r) \<Rightarrow> ((n, p) # ready, r)))"
  by pat_completeness auto
termination
proof (relation "measure (\<lambda>(buf, n). length buf)", goal_cases)
  case 1
  then show ?case by simp
next
  case (2 buf n p)
  then have "(n, p) \<in> set buf" by (rule map_of_SomeD)
  then show ?case by (auto simp: map_erase_def intro!: length_filter_less)
qed

declare drain.simps [simp del]

definition reorder_overload_text :: "nat \<Rightarrow> string" where
  "reorder_overload_text n = ''reorder buffer size would exceed configured maximum '' @ to_string n @ ''.''"

text \<open>
  The part of \<^verbatim>\<open>submitParsedMessage\<close> under \<^verbatim>\<open>route_mutex\<close>, once the endpoint is known not to be
  quitting: the overload message, or the messages that are ready.
\<close>

definition submit_locked ::
  "RemoteEndPointLimits \<Rightarrow> nat \<Rightarrow> ParsedMessage \<Rightarrow> bool \<Rightarrow> router \<Rightarrow> (string + (nat \<times> ParsedMessage) list) \<times> router" where
  "submit_locked lim sequence parsed bypass r =
     (if sequence = next_route_sequence r then
        (case drain (reorder_buffer r) (next_route_sequence r + 1) of
           (ready, r1) \<Rightarrow> (Inr ((sequence, parsed) # ready), r1))
      else if \<not> bypass \<and> max_reorder_buffer_size lim \<noteq> 0 \<and> length (reorder_buffer r) \<ge> max_reorder_buffer_size lim then
        (if policy lim = DropNewest then
           (case drain (map_emplace sequence empty_parsed (reorder_buffer r)) (next_route_sequence r) of
              (ready, r1) \<Rightarrow> (Inr ready, r1))
         else (Inl (reorder_overload_text (max_reorder_buffer_size lim)), r))
      else
        (case drain (map_emplace sequence parsed (reorder_buffer r)) (next_route_sequence r) of
           (ready, r1) \<Rightarrow> (Inr ready, r1)))"

text \<open>A sequence of submissions; \<^const>\<open>None\<close> when one is refused.\<close>

fun submit_all ::
  "RemoteEndPointLimits \<Rightarrow> (nat \<times> ParsedMessage \<times> bool) list \<Rightarrow> router \<Rightarrow> ((nat \<times> ParsedMessage) list \<times> router) option" where
  "submit_all lim [] r = Some ([], r)"
| "submit_all lim ((s, p, b) # xs) r =
     (case submit_locked lim s p b r of
        (Inl _, _) \<Rightarrow> None
      | (Inr ready, r1) \<Rightarrow> map_option (\<lambda>(out, r2). (ready @ out, r2)) (submit_all lim xs r1))"

section \<open>Draining\<close>

lemma drain_map:
  assumes "map_ok buf" "drain buf n = (ready, r)"
  shows "n \<le> next_route_sequence r \<and> map fst ready = [n..<next_route_sequence r] \<and>
    (\<forall>k p. (k, p) \<in> set ready \<longrightarrow> map_of buf k = Some p) \<and>
    map_ok (reorder_buffer r) \<and> map_of buf (next_route_sequence r) = None \<and>
    map_of (reorder_buffer r) = (\<lambda>k. if n \<le> k \<and> k < next_route_sequence r then None else map_of buf k)"
  using assms
proof (induction buf n arbitrary: ready r rule: drain.induct)
  case (1 buf n)
  show ?case
  proof (cases "map_of buf n")
    case None
    with 1 show ?thesis by (auto simp: drain.simps [of buf n] fun_eq_iff)
  next
    case (Some p)
    obtain ready' r' where d: "drain (map_erase n buf) (n + 1) = (ready', r')" by (cases "drain (map_erase n buf) (n + 1)")
    with 1 Some have r: "ready = (n, p) # ready'" "r = r'" by (auto simp: drain.simps [of buf n])
    from 1(1) [OF Some map_ok_erase [OF 1(2)] d] have ih:
      "n + 1 \<le> next_route_sequence r'" "map fst ready' = [n + 1..<next_route_sequence r']"
      "\<And>k q. (k, q) \<in> set ready' \<Longrightarrow> map_of (map_erase n buf) k = Some q" "map_ok (reorder_buffer r')"
      "map_of (map_erase n buf) (next_route_sequence r') = None"
      "map_of (reorder_buffer r') = (\<lambda>k. if n + 1 \<le> k \<and> k < next_route_sequence r' then None else map_of (map_erase n buf) k)"
      by auto
    have "map_of buf (next_route_sequence r') = None" using ih(1,5) by (auto simp: map_of_erase split: if_splits)
    moreover have "map fst ready = [n..<next_route_sequence r]" using ih(1,2) r by (simp add: upt_conv_Cons)
    moreover have "map_of (reorder_buffer r') = (\<lambda>k. if n \<le> k \<and> k < next_route_sequence r' then None else map_of buf k)"
      using ih(1) by (auto simp: ih(6) map_of_erase fun_eq_iff)
    moreover have "map_of buf k = Some q" if "(k, q) \<in> set ready" for k q
      using that r ih(3) [of k q] Some by (auto simp: map_of_erase split: if_splits)
    ultimately show ?thesis using ih(1,4) r by auto
  qed
qed

section \<open>The invariant\<close>

text \<open>
  \<open>S\<close> is the set of sequence numbers submitted since routing was reset at \<open>n0\<close>: those below the
  next number have been routed, the others wait in the buffer.
\<close>

definition router_ok :: "nat \<Rightarrow> nat set \<Rightarrow> router \<Rightarrow> bool" where
  "router_ok n0 S r \<longleftrightarrow>
     map_ok (reorder_buffer r) \<and> n0 \<le> next_route_sequence r \<and> next_route_sequence r \<notin> S \<and>
     {n0..<next_route_sequence r} \<subseteq> S \<and>
     dom (map_of (reorder_buffer r)) = {k \<in> S. next_route_sequence r < k} \<and> (\<forall>k\<in>S. n0 \<le> k)"

lemma router_ok_reset: "router_ok n0 {} (resetMessageRouting n0 r)"
  by (simp add: router_ok_def resetMessageRouting_def)

lemma drain_router:
  assumes "map_ok buf" "drain buf n = (ready, r)"
    and "n0 \<le> n" "{n0..<n} \<subseteq> S" "dom (map_of buf) = {k \<in> S. n \<le> k}" "\<forall>k\<in>S. n0 \<le> k"
  shows "router_ok n0 S r \<and> map fst ready = [n..<next_route_sequence r] \<and> n \<le> next_route_sequence r"
proof -
  from drain_map [OF assms(1,2)] have d:
    "n \<le> next_route_sequence r" "map fst ready = [n..<next_route_sequence r]"
    "\<forall>k p. (k, p) \<in> set ready \<longrightarrow> map_of buf k = Some p" "map_ok (reorder_buffer r)"
    "map_of buf (next_route_sequence r) = None"
    "map_of (reorder_buffer r) = (\<lambda>k. if n \<le> k \<and> k < next_route_sequence r then None else map_of buf k)" by blast+
  have ks: "fst ` set ready = {n..<next_route_sequence r}" using d(2) by (metis set_map set_upt)
  have sub: "{n..<next_route_sequence r} \<subseteq> dom (map_of buf)"
    using d(3) unfolding ks [symmetric] by auto
  have "next_route_sequence r \<notin> S" using d(1,5) assms(5) by blast
  moreover have "{n0..<next_route_sequence r} \<subseteq> S"
  proof
    fix k assume "k \<in> {n0..<next_route_sequence r}"
    then have "k \<in> {n0..<n} \<or> k \<in> {n..<next_route_sequence r}" by auto
    then show "k \<in> S" using assms(4,5) sub by blast
  qed
  moreover have "dom (map_of (reorder_buffer r)) = {k \<in> S. next_route_sequence r < k}"
  proof -
    have "dom (map_of (reorder_buffer r)) = {k \<in> S. n \<le> k \<and> \<not> k < next_route_sequence r}"
      using assms(5) by (auto simp: d(6) dom_def split: if_splits)
    also have "\<dots> = {k \<in> S. next_route_sequence r < k}"
    proof -
      have "k \<noteq> next_route_sequence r" if "k \<in> S" for k using calculation that \<open>next_route_sequence r \<notin> S\<close> by blast
      then show ?thesis using d(1) by (auto simp: not_less le_less)
    qed
    finally show ?thesis .
  qed
  ultimately show ?thesis using d assms(3,6) by (auto simp: router_ok_def)
qed

lemma submit_locked_ok:
  assumes "router_ok n0 S r" "s \<notin> S" "n0 \<le> s" "submit_locked lim s p b r = (Inr ready, r')"
  shows "router_ok n0 (insert s S) r' \<and> map fst ready = [next_route_sequence r..<next_route_sequence r'] \<and>
    next_route_sequence r \<le> next_route_sequence r'"
proof -
  let ?n = "next_route_sequence r"
  have ok: "map_ok (reorder_buffer r)" "n0 \<le> ?n" "?n \<notin> S" "{n0..<?n} \<subseteq> S"
    "dom (map_of (reorder_buffer r)) = {k \<in> S. ?n < k}" "\<forall>k\<in>S. n0 \<le> k" using assms(1) by (simp_all add: router_ok_def)
  have lt: "?n \<le> s" using assms(2,3) ok(4) by (metis atLeastLessThan_iff not_le subsetD)
  have place: "router_ok n0 (insert s S) r1 \<and> map fst rd = [?n..<next_route_sequence r1] \<and> ?n \<le> next_route_sequence r1"
    if "s \<noteq> ?n" "drain (map_emplace s q (reorder_buffer r)) ?n = (rd, r1)" for q rd r1
  proof (rule drain_router [OF _ that(2)])
    have new: "map_of (reorder_buffer r) s = None" using assms(2) ok(5) by blast
    then show "map_ok (map_emplace s q (reorder_buffer r))" using ok(1) by (simp add: map_emplace_def map_ok_set)
    have "dom (map_of (map_emplace s q (reorder_buffer r))) = insert s {k \<in> S. ?n < k}"
      using new ok(1,5) by (simp add: map_emplace_def map_of_set)
    also have "\<dots> = {k \<in> insert s S. ?n \<le> k}" using lt ok(3) by (auto simp: le_less)
    finally show "dom (map_of (map_emplace s q (reorder_buffer r))) = {k \<in> insert s S. ?n \<le> k}" .
  qed (use ok assms(3) in auto)
  show ?thesis
  proof (cases "s = ?n")
    case True
    obtain rd where rd: "drain (reorder_buffer r) (?n + 1) = (rd, r')" "ready = (s, p) # rd"
      using assms(4) True by (auto simp: submit_locked_def split: prod.splits)
    have "router_ok n0 (insert s S) r' \<and> map fst rd = [?n + 1..<next_route_sequence r'] \<and> ?n + 1 \<le> next_route_sequence r'"
    proof (rule drain_router [OF ok(1) rd(1)])
      have "{n0..<?n + 1} \<subseteq> insert ?n {n0..<?n}" by auto
      then show "{n0..<?n + 1} \<subseteq> insert s S" using ok(4) True by blast
      show "dom (map_of (reorder_buffer r)) = {k \<in> insert s S. ?n + 1 \<le> k}" using ok(5) True by auto
    qed (use ok assms(3) in auto)
    then show ?thesis using rd(2) True by (simp add: upt_conv_Cons)
  next
    case False
    with assms(4) place show ?thesis
      by (auto simp: submit_locked_def split: prod.splits if_splits)
  qed
qed

lemma submit_all_ok:
  assumes "router_ok n0 S r" "distinct (map fst xs)" "\<forall>x\<in>set xs. fst x \<notin> S \<and> n0 \<le> fst x"
    and "submit_all lim xs r = Some (out, r')"
  shows "router_ok n0 (S \<union> fst ` set xs) r' \<and> map fst out = [next_route_sequence r..<next_route_sequence r'] \<and>
    next_route_sequence r \<le> next_route_sequence r'"
  using assms
proof (induction xs arbitrary: S r out)
  case Nil
  then show ?case by simp
next
  case (Cons x xs)
  obtain s p b where x: "x = (s, p, b)" by (cases x)
  from Cons.prems(4) obtain ready r1 out1 where st: "submit_locked lim s p b r = (Inr ready, r1)"
    "submit_all lim xs r1 = Some (out1, r')" "out = ready @ out1"
    by (auto simp: x split: prod.splits sum.splits)
  have "s \<notin> S" "n0 \<le> s" using Cons.prems(3) by (auto simp: x)
  from submit_locked_ok [OF Cons.prems(1) this st(1)] have ok: "router_ok n0 (insert s S) r1"
    "map fst ready = [next_route_sequence r..<next_route_sequence r1]" "next_route_sequence r \<le> next_route_sequence r1" by auto
  have "distinct (map fst xs)" "\<forall>y\<in>set xs. fst y \<notin> insert s S \<and> n0 \<le> fst y"
    using Cons.prems(2,3) by (auto simp: x)
  from Cons.IH [OF ok(1) this st(2)] ok st(3) show ?case
    by (auto simp: x upt_add_eq_append [symmetric] le_iff_add)
qed

text \<open>Values: a routed message is the one submitted under its number, or the empty one that replaced it.\<close>

lemma emplace_value:
  "map_ok m \<Longrightarrow> map_of (map_emplace s q m) k = Some p \<Longrightarrow> (k = s \<and> p = q) \<or> map_of m k = Some p"
  by (auto simp: map_emplace_def map_of_set split: if_splits)

definition holds_only :: "(nat \<times> ParsedMessage) set \<Rightarrow> router \<Rightarrow> bool" where
  "holds_only V r \<longleftrightarrow> (\<forall>k p. map_of (reorder_buffer r) k = Some p \<longrightarrow> (k, p) \<in> V)"

lemma submit_locked_values:
  assumes "map_ok (reorder_buffer r)" "holds_only V r" "submit_locked lim s p b r = (Inr ready, r')"
  shows "holds_only (V \<union> {(s, p), (s, empty_parsed)}) r' \<and> set ready \<subseteq> V \<union> {(s, p), (s, empty_parsed)} \<and>
    map_ok (reorder_buffer r')"
proof -
  let ?V = "V \<union> {(s, p), (s, empty_parsed)}"
  have drained: "holds_only ?V r1 \<and> set rd \<subseteq> ?V \<and> map_ok (reorder_buffer r1)"
    if "drain buf n = (rd, r1)" "map_ok buf" "\<And>k q. map_of buf k = Some q \<Longrightarrow> (k, q) \<in> ?V" for buf n rd r1
    using drain_map [OF that(2,1)] that(3) by (auto simp: holds_only_def split: if_splits)
  have em: "map_ok (map_emplace s q (reorder_buffer r))" for q using assms(1) by (simp add: map_emplace_def map_ok_set)
  have val: "(k, x) \<in> ?V" if "map_of (map_emplace s q (reorder_buffer r)) k = Some x" "q = p \<or> q = empty_parsed" for q k x
    using emplace_value [OF assms(1) that(1)] that(2) assms(2) by (auto simp: holds_only_def)
  have old: "(k, x) \<in> ?V" if "map_of (reorder_buffer r) k = Some x" for k x using that assms(2) by (auto simp: holds_only_def)
  show ?thesis
    using assms(3) drained [OF _ assms(1) old] drained [OF _ em val]
    by (fastforce simp: submit_locked_def split: prod.splits if_splits)
qed

lemma submit_all_values:
  assumes "map_ok (reorder_buffer r)" "holds_only V r" "submit_all lim xs r = Some (out, r')"
  shows "set out \<subseteq> V \<union> {(s, q) |s p b q. (s, p, b) \<in> set xs \<and> (q = p \<or> q = empty_parsed)}"
  using assms
proof (induction xs arbitrary: V r out)
  case Nil
  then show ?case by simp
next
  case (Cons x xs)
  obtain s p b where x: "x = (s, p, b)" by (cases x)
  from Cons.prems(3) obtain ready r1 out1 where st: "submit_locked lim s p b r = (Inr ready, r1)"
    "submit_all lim xs r1 = Some (out1, r')" "out = ready @ out1"
    by (auto simp: x split: prod.splits sum.splits)
  let ?V = "V \<union> {(s, p), (s, empty_parsed)}"
  from submit_locked_values [OF Cons.prems(1,2) st(1)]
  have v: "holds_only ?V r1" "set ready \<subseteq> ?V" "map_ok (reorder_buffer r1)" by blast+
  note ih = Cons.IH [OF v(3,1) st(2)]
  let ?W = "\<lambda>ys. {(s, q) |s p b q. (s, p, b) \<in> set ys \<and> (q = p \<or> q = empty_parsed)}"
  have "?V \<subseteq> V \<union> ?W (x # xs)" "?V \<union> ?W xs \<subseteq> V \<union> ?W (x # xs)" by (auto simp: x)
  from order_trans [OF v(2) this(1)] order_trans [OF ih this(2)] show ?case
    unfolding st(3) set_append by (rule Un_least)
qed

lemma drain_length: "drain buf n = (ready, r) \<Longrightarrow> length (reorder_buffer r) \<le> length buf"
proof (induction buf n arbitrary: ready r rule: drain.induct)
  case (1 buf n)
  have "length (map_erase n buf) \<le> length buf" by (simp add: map_erase_def)
  with 1 show ?case by (fastforce simp: drain.simps [of buf n] split: option.splits prod.splits)
qed

section \<open>Properties\<close>

text \<open>C10: Messages are routed in the order they were received: however the parsing workers finish,
  the routed sequence numbers are consecutive from where routing was reset, without gap or
  repetition; each carries the message submitted under that number (or the empty message that
  stands for a dropped one); and a message waits only if an earlier one has not been submitted
  yet.\<close>

theorem routed_in_wire_order:
  assumes "distinct (map fst xs)" "\<forall>x\<in>set xs. n0 \<le> fst x"
    and "submit_all lim xs (resetMessageRouting n0 r0) = Some (out, r)"
  shows "map fst out = [n0..<next_route_sequence r] \<and> next_route_sequence r \<notin> fst ` set xs \<and>
    {n0..<next_route_sequence r} \<subseteq> fst ` set xs \<and>
    set out \<subseteq> {(s, q) |s p b q. (s, p, b) \<in> set xs \<and> (q = p \<or> q = empty_parsed)}"
proof -
  have reset: "next_route_sequence (resetMessageRouting n0 r0) = n0" "reorder_buffer (resetMessageRouting n0 r0) = []"
    by (simp_all add: resetMessageRouting_def)
  from submit_all_ok [OF router_ok_reset assms(1) _ assms(3)] assms(2) reset(1)
    have "router_ok n0 (fst ` set xs) r" "map fst out = [n0..<next_route_sequence r]" by auto
  moreover have "set out \<subseteq> {} \<union> {(s, q) |s p b q. (s, p, b) \<in> set xs \<and> (q = p \<or> q = empty_parsed)}"
    by (rule submit_all_values [OF _ _ assms(3)]) (simp_all add: reset holds_only_def)
  ultimately show ?thesis by (simp add: router_ok_def)
qed

definition sample_parsed :: "nat \<Rightarrow> ParsedMessage" where
  "sample_parsed n = empty_parsed\<lparr>ok := True, message := Some (makeErrorMessage (kInt (int n)) InternalError [])\<rparr>"

definition sample_submissions :: "(nat \<times> ParsedMessage \<times> bool) list" where
  "sample_submissions = [(6, sample_parsed 6, False), (4, sample_parsed 4, False), (5, sample_parsed 5, False), (9, sample_parsed 9, False)]"

theorem routed_in_wire_order_witness:
  "\<exists>out r. submit_all default_limits sample_submissions (resetMessageRouting 4 \<lparr>reorder_buffer = [], next_route_sequence = 0\<rparr>) = Some (out, r) \<and>
     map fst out = [4..<7] \<and> next_route_sequence r = 7"
proof -
  let ?r = "submit_all default_limits sample_submissions (resetMessageRouting 4 \<lparr>reorder_buffer = [], next_route_sequence = 0\<rparr>)"
  have n: "map_option (\<lambda>x. next_route_sequence (snd x)) ?r = Some 7" by code_simp
  then obtain out r where r: "?r = Some (out, r)" "next_route_sequence r = 7" by auto
  have d: "distinct (map fst sample_submissions)" "\<forall>x\<in>set sample_submissions. 4 \<le> fst x"
    by (simp_all add: sample_submissions_def)
  from routed_in_wire_order [OF d r(1)] r show ?thesis by auto
qed

text \<open>Nothing is lost in the buffer: once the numbers submitted are exactly a whole interval from
  the reset on, in whatever order, all of them have been routed and the buffer is empty.\<close>

theorem complete_interval_is_routed:
  assumes "distinct (map fst xs)" "fst ` set xs = {n0..<n0 + k}"
    and "submit_all lim xs (resetMessageRouting n0 r0) = Some (out, r)"
  shows "map fst out = [n0..<n0 + k] \<and> reorder_buffer r = []"
proof -
  have "\<forall>x\<in>set xs. fst x \<notin> {} \<and> n0 \<le> fst x" using assms(2) by force
  from submit_all_ok [OF router_ok_reset assms(1) this assms(3)]
  have ok: "router_ok n0 {n0..<n0 + k} r" "map fst out = [n0..<next_route_sequence r]"
    using assms(2) by (auto simp: resetMessageRouting_def)
  then have "next_route_sequence r = n0 + k" "dom (map_of (reorder_buffer r)) = {}"
    by (auto simp: router_ok_def)
  with ok(2) show ?thesis using dom_map_of_conv_image_fst [of "reorder_buffer r"] by simp
qed

theorem complete_interval_is_routed_witness:
  "\<exists>out r. submit_all default_limits (take 3 sample_submissions) (resetMessageRouting 4 \<lparr>reorder_buffer = [], next_route_sequence = 0\<rparr>) = Some (out, r) \<and>
     map fst out = [4..<4 + 3] \<and> reorder_buffer r = []"
proof -
  let ?r = "submit_all default_limits (take 3 sample_submissions) (resetMessageRouting 4 \<lparr>reorder_buffer = [], next_route_sequence = 0\<rparr>)"
  have "?r \<noteq> None" by code_simp
  then obtain out r where r: "?r = Some (out, r)" by auto
  have d: "distinct (map fst (take 3 sample_submissions))" "fst ` set (take 3 sample_submissions) = {4..<4 + 3}"
    by (auto simp: sample_submissions_def)
  from complete_interval_is_routed [OF d r] r show ?thesis by blast
qed

text \<open>The reorder buffer respects its limit as long as the policy is to stop: a submission that
  does not bypass the limit never leaves more than the configured number of messages in it, and a
  refused one changes nothing.\<close>

theorem reorder_buffer_bounded:
  assumes "max_reorder_buffer_size lim \<noteq> 0" "policy lim = StopProcessing"
    and "length (reorder_buffer r) \<le> max_reorder_buffer_size lim" "map_ok (reorder_buffer r)"
  shows "length (reorder_buffer (snd (submit_locked lim s p False r))) \<le> max_reorder_buffer_size lim \<and>
    (\<forall>e. fst (submit_locked lim s p False r) = Inl e \<longrightarrow> snd (submit_locked lim s p False r) = r)"
proof -
  have "length (map_emplace s p (reorder_buffer r)) \<le> Suc (length (reorder_buffer r))"
    using assms(4) by (simp add: map_emplace_def length_map_set)
  with assms(1-3) show ?thesis
    by (auto simp: submit_locked_def split: prod.splits dest!: drain_length)
qed

theorem reorder_buffer_bounded_witness:
  "length (reorder_buffer (snd (submit_locked (default_limits\<lparr>max_reorder_buffer_size := 1\<rparr>) 9 (sample_parsed 9) False
     \<lparr>reorder_buffer = [(6, sample_parsed 6)], next_route_sequence = 4\<rparr>))) \<le> 1"
  using reorder_buffer_bounded [of "default_limits\<lparr>max_reorder_buffer_size := 1\<rparr>" "\<lparr>reorder_buffer = [(6, sample_parsed 6)], next_route_sequence = 4\<rparr>" 9 "sample_parsed 9"]
  by (simp add: default_limits_def map_ok_def)

text \<open>With the policy to drop, the message that is too much is replaced by an empty one, which still takes a place in the buffer: there the limit
  bounds the messages that are kept, not the entries.\<close>

lemma dropped_message_takes_place:
  assumes "policy lim = DropNewest" "max_reorder_buffer_size lim \<noteq> 0" "max_reorder_buffer_size lim \<le> length (reorder_buffer r)"
    and "map_ok (reorder_buffer r)" "map_of (reorder_buffer r) s = None" "s \<noteq> next_route_sequence r" "map_of (reorder_buffer r) (next_route_sequence r) = None"
  shows "submit_locked lim s p False r = (Inr [], r\<lparr>reorder_buffer := map_set s empty_parsed (reorder_buffer r)\<rparr>)"
    and "length (reorder_buffer (snd (submit_locked lim s p False r))) = Suc (length (reorder_buffer r))"
proof -
  have "map_of (map_set s empty_parsed (reorder_buffer r)) (next_route_sequence r) = None"
    using assms(4,6,7) by (simp add: map_of_set)
  then show "submit_locked lim s p False r = (Inr [], r\<lparr>reorder_buffer := map_set s empty_parsed (reorder_buffer r)\<rparr>)"
    using assms by (simp add: submit_locked_def map_emplace_def drain.simps)
  then show "length (reorder_buffer (snd (submit_locked lim s p False r))) = Suc (length (reorder_buffer r))"
    using assms(4,5) by (simp add: length_map_set)
qed

end
