(* ===== verification/Ordered_Dispatch.thy ===== *)
theory Ordered_Dispatch
  imports Message_Routing
begin

text \<open>
  The ordered dispatcher of \<^verbatim>\<open>src/jsonrpc/RemoteEndPoint.cpp\<close>: notifications run one after another on a
  thread of their own, requests run on a pool of workers, and a request that arrives behind
  unfinished notifications is parked until the last of them is done.  The definitions are the
  locked sections of \<^verbatim>\<open>enqueueNotification\<close>, \<^verbatim>\<open>enqueueRequest\<close> and \<^verbatim>\<open>notificationLoop\<close>; a step
  relation interleaves them with the notification thread.  The results are the ordering
  guarantee, the absence of stuck requests, and the bounds on the queues.
\<close>

section \<open>Model\<close>

text \<open>\<^verbatim>\<open>DispatchItem\<close>; \<open>response_state\<close> is the output session the message came in on.\<close>

record DispatchItem =
  item_seq :: nat
  item_msg :: LspMessage
  response_state :: nat

record ParkedRequest =
  gate :: nat
  parked_item :: DispatchItem

record dispatcher =
  notification_queue :: "DispatchItem list"
  parked_requests :: "ParkedRequest list"
  notification_stop :: bool
  has_last_ordered_notification :: bool
  last_ordered_notification_seq :: nat
  has_completed_notification :: bool
  completed_notification_seq :: nat

definition notificationGateSatisfied :: "nat \<Rightarrow> dispatcher \<Rightarrow> bool" where
  "notificationGateSatisfied g d \<longleftrightarrow> has_completed_notification d \<and> completed_notification_seq d \<ge> g"

text \<open>\<^verbatim>\<open>releaseParkedRequestsLocked\<close>: the requests whose gate is satisfied, in the order they were parked.\<close>

fun release_loop :: "dispatcher \<Rightarrow> ParkedRequest list \<Rightarrow> ParkedRequest list \<times> ParkedRequest list" where
  "release_loop d [] = ([], [])"
| "release_loop d (p # ps) =
     (case release_loop d ps of
        (ready, kept) \<Rightarrow> if notificationGateSatisfied (gate p) d then (p # ready, kept) else (ready, p # kept))"

definition releaseParkedRequestsLocked :: "dispatcher \<Rightarrow> ParkedRequest list \<times> dispatcher" where
  "releaseParkedRequestsLocked d =
     (case release_loop d (parked_requests d) of (ready, kept) \<Rightarrow> (ready, d\<lparr>parked_requests := kept\<rparr>))"

definition startOrderedDispatcher :: "dispatcher \<Rightarrow> dispatcher" where
  "startOrderedDispatcher d =
     \<lparr>notification_queue = [], parked_requests = [], notification_stop = False,
      has_last_ordered_notification = False, last_ordered_notification_seq = 0,
      has_completed_notification = False, completed_notification_seq = 0\<rparr>"

definition stopOrderedDispatcher :: "dispatcher \<Rightarrow> dispatcher" where
  "stopOrderedDispatcher d = d\<lparr>notification_stop := True, notification_queue := [], parked_requests := []\<rparr>"

text \<open>How an attempt to enqueue ends.\<close>

datatype enqueue_result = Ignored | Overloaded string | Queued | PostNow

definition notification_overload_text :: "nat \<Rightarrow> string" where
  "notification_overload_text n = ''notification queue size would exceed configured maximum '' @ to_string n @ ''.''"

definition enqueueNotification_locked ::
  "RemoteEndPointLimits \<Rightarrow> DispatchItem \<Rightarrow> dispatcher \<Rightarrow> enqueue_result \<times> dispatcher" where
  "enqueueNotification_locked lim it d =
     (if notification_stop d then (Ignored, d)
      else if max_notification_queue_size lim \<noteq> 0 \<and> length (notification_queue d) \<ge> max_notification_queue_size lim then
        (Overloaded (notification_overload_text (max_notification_queue_size lim)), d)
      else
        (Queued, d\<lparr>has_last_ordered_notification := True, last_ordered_notification_seq := item_seq it,
                   notification_queue := notification_queue d @ [it]\<rparr>))"

definition parked_overload_text :: "nat \<Rightarrow> string" where
  "parked_overload_text n = ''parked request queue size would exceed configured maximum '' @ to_string n @ ''.''"

definition enqueueRequest_locked ::
  "RemoteEndPointLimits \<Rightarrow> DispatchItem \<Rightarrow> dispatcher \<Rightarrow> enqueue_result \<times> dispatcher" where
  "enqueueRequest_locked lim it d =
     (if \<not> notification_stop d \<and> has_last_ordered_notification d \<and>
         \<not> notificationGateSatisfied (last_ordered_notification_seq d) d then
        (if max_parked_request_queue_size lim \<noteq> 0 \<and> length (parked_requests d) \<ge> max_parked_request_queue_size lim then
           (Overloaded (parked_overload_text (max_parked_request_queue_size lim)), d)
         else
           (Queued, d\<lparr>parked_requests := parked_requests d @ [\<lparr>gate = last_ordered_notification_seq d, parked_item = it\<rparr>]\<rparr>))
      else (PostNow, d))"

text \<open>The two locked sections of \<^verbatim>\<open>notificationLoop\<close>: taking an item, and recording that it is done.\<close>

definition take_notification :: "dispatcher \<Rightarrow> (DispatchItem \<times> dispatcher) option" where
  "take_notification d =
     (case notification_queue d of [] \<Rightarrow> None | it # q \<Rightarrow> Some (it, d\<lparr>notification_queue := q\<rparr>))"

definition finish_notification :: "nat \<Rightarrow> dispatcher \<Rightarrow> ParkedRequest list \<times> dispatcher" where
  "finish_notification seq d =
     releaseParkedRequestsLocked (d\<lparr>has_completed_notification := True, completed_notification_seq := seq\<rparr>)"

section \<open>The dispatcher at work\<close>

text \<open>
  The dispatcher with the notification its thread is busy with, and the history: the
  notifications accepted and those finished (oldest first), the requests handed to the workers,
  and a bound on the sequence numbers so far, which arrive in ascending order.
\<close>

record dispatch_state =
  disp :: dispatcher
  running :: "DispatchItem option"
  accepted :: "nat list"
  finished :: "nat list"
  posted_requests :: "nat list"
  next_seq :: nat

definition initial_dispatch :: "dispatcher \<Rightarrow> dispatch_state" where
  "initial_dispatch d =
     \<lparr>disp = startOrderedDispatcher d, running = None, accepted = [], finished = [], posted_requests = [], next_seq = 0\<rparr>"

inductive dispatch_step :: "RemoteEndPointLimits \<Rightarrow> dispatch_state \<Rightarrow> dispatch_state \<Rightarrow> bool" for lim where
  notification:
    "next_seq s \<le> item_seq it \<Longrightarrow> enqueueNotification_locked lim it (disp s) = (res, d) \<Longrightarrow>
     dispatch_step lim s (s\<lparr>disp := d, accepted := (if res = Queued then accepted s @ [item_seq it] else accepted s),
                            next_seq := Suc (item_seq it)\<rparr>)"
| request:
    "next_seq s \<le> item_seq it \<Longrightarrow> enqueueRequest_locked lim it (disp s) = (res, d) \<Longrightarrow>
     dispatch_step lim s (s\<lparr>disp := d, posted_requests := (if res = PostNow then posted_requests s @ [item_seq it] else posted_requests s),
                            next_seq := Suc (item_seq it)\<rparr>)"
| take:
    "running s = None \<Longrightarrow> take_notification (disp s) = Some (it, d) \<Longrightarrow>
     dispatch_step lim s (s\<lparr>disp := d, running := Some it\<rparr>)"
| finish:
    "running s = Some it \<Longrightarrow> finish_notification (item_seq it) (disp s) = (ready, d) \<Longrightarrow>
     dispatch_step lim s (s\<lparr>disp := d, running := None, finished := finished s @ [item_seq it],
                            posted_requests := posted_requests s @ map (\<lambda>p. item_seq (parked_item p)) ready\<rparr>)"

inductive_cases dispatch_stepE: "dispatch_step lim s s'"

inductive dispatch_reach :: "RemoteEndPointLimits \<Rightarrow> dispatch_state \<Rightarrow> bool" for lim where
  start: "dispatch_reach lim (initial_dispatch d)"
| step: "dispatch_reach lim s \<Longrightarrow> dispatch_step lim s s' \<Longrightarrow> dispatch_reach lim s'"

section \<open>The invariant\<close>

definition in_flight :: "dispatch_state \<Rightarrow> nat list" where
  "in_flight s = (case running s of None \<Rightarrow> [] | Some it \<Rightarrow> [item_seq it]) @ map item_seq (notification_queue (disp s))"

definition parked_ok :: "dispatch_state \<Rightarrow> ParkedRequest \<Rightarrow> bool" where
  "parked_ok s p \<longleftrightarrow>
     gate p \<in> set (accepted s) \<and> gate p \<notin> set (finished s) \<and> item_seq (parked_item p) < next_seq s \<and>
     (\<forall>n\<in>set (accepted s). n < item_seq (parked_item p) \<longrightarrow> n \<le> gate p)"

definition dispatch_ok :: "dispatch_state \<Rightarrow> bool" where
  "dispatch_ok s \<longleftrightarrow>
     \<not> notification_stop (disp s) \<and>
     accepted s = finished s @ in_flight s \<and> sorted_wrt (<) (accepted s) \<and> (\<forall>n\<in>set (accepted s). n < next_seq s) \<and>
     has_last_ordered_notification (disp s) = (accepted s \<noteq> []) \<and>
     (accepted s \<noteq> [] \<longrightarrow> last_ordered_notification_seq (disp s) = last (accepted s)) \<and>
     has_completed_notification (disp s) = (finished s \<noteq> []) \<and>
     (finished s \<noteq> [] \<longrightarrow> completed_notification_seq (disp s) = last (finished s)) \<and>
     (\<forall>p\<in>set (parked_requests (disp s)). parked_ok s p) \<and>
     (\<forall>r\<in>set (posted_requests s). r < next_seq s \<and> (\<forall>n\<in>set (accepted s). n < r \<longrightarrow> n \<in> set (finished s)))"

lemma release_loop_eq:
  "release_loop d ps = (filter (\<lambda>p. notificationGateSatisfied (gate p) d) ps, filter (\<lambda>p. \<not> notificationGateSatisfied (gate p) d) ps)"
  by (induction ps) auto

lemma sorted_prefix_le:
  assumes "sorted_wrt (<) (xs @ ys)" "xs \<noteq> []" "n \<in> set (xs @ ys)"
  shows "n \<in> set xs \<longleftrightarrow> n \<le> (last xs :: nat)"
proof
  assume "n \<in> set xs"
  then show "n \<le> last xs" using assms(1,2) by (induction xs) (auto simp: sorted_wrt_append less_imp_le)
next
  assume le: "n \<le> last xs"
  show "n \<in> set xs"
  proof (rule ccontr)
    assume "n \<notin> set xs"
    then have "n \<in> set ys" using assms(3) by simp
    then have "last xs < n" using assms(1,2) last_in_set [of xs] by (auto simp: sorted_wrt_append)
    then show False using le by simp
  qed
qed

lemma gate_satisfied:
  assumes "dispatch_ok s" "g \<in> set (accepted s)"
  shows "notificationGateSatisfied g (disp s) \<longleftrightarrow> g \<in> set (finished s)"
proof (cases "finished s = []")
  case True
  with assms show ?thesis by (auto simp: dispatch_ok_def notificationGateSatisfied_def)
next
  case False
  from assms(1) have s: "accepted s = finished s @ in_flight s" "sorted_wrt (<) (finished s @ in_flight s)"
    "has_completed_notification (disp s)" "completed_notification_seq (disp s) = last (finished s)"
    using False by (auto simp: dispatch_ok_def)
  from sorted_prefix_le [OF s(2) False, of g] assms(2) s show ?thesis by (simp add: notificationGateSatisfied_def)
qed

lemma dispatch_ok_start: "dispatch_ok (initial_dispatch d)"
  by (simp add: dispatch_ok_def initial_dispatch_def startOrderedDispatcher_def in_flight_def)

lemma dispatch_ok_facts:
  assumes "dispatch_ok s"
  shows "accepted s = finished s @ in_flight s" "sorted_wrt (<) (accepted s)" "\<forall>n\<in>set (accepted s). n < next_seq s"
    "\<forall>p\<in>set (parked_requests (disp s)). parked_ok s p"
    "\<forall>r\<in>set (posted_requests s). r < next_seq s \<and> (\<forall>n\<in>set (accepted s). n < r \<longrightarrow> n \<in> set (finished s))"
    "\<not> notification_stop (disp s)"
    "has_last_ordered_notification (disp s) = (accepted s \<noteq> [])"
    "accepted s \<noteq> [] \<Longrightarrow> last_ordered_notification_seq (disp s) = last (accepted s)"
    "has_completed_notification (disp s) = (finished s \<noteq> [])"
    "finished s \<noteq> [] \<Longrightarrow> completed_notification_seq (disp s) = last (finished s)"
  using assms unfolding dispatch_ok_def by blast+

lemma dispatch_ok_notification:
  assumes ok: "dispatch_ok s" and ge: "next_seq s \<le> item_seq it"
    and eq: "enqueueNotification_locked lim it (disp s) = (res, d)"
  shows "dispatch_ok (s\<lparr>disp := d, accepted := (if res = Queued then accepted s @ [item_seq it] else accepted s),
                        next_seq := Suc (item_seq it)\<rparr>)"
proof (cases "res = Queued")
  case True
  note f = dispatch_ok_facts [OF ok]
  from True have d: "d = (disp s)\<lparr>has_last_ordered_notification := True, last_ordered_notification_seq := item_seq it,
                   notification_queue := notification_queue (disp s) @ [it]\<rparr>"
    using eq by (auto simp: enqueueNotification_locked_def split: if_splits)
  let ?s = "s\<lparr>disp := d, accepted := accepted s @ [item_seq it], next_seq := Suc (item_seq it)\<rparr>"
  have lt: "n < item_seq it" if "n \<in> set (accepted s)" for n using f(3) ge that by fastforce
  have parked: "\<forall>p\<in>set (parked_requests (disp s)). parked_ok ?s p"
    using f(4) ge by (fastforce simp: parked_ok_def)
  have posted: "\<forall>r\<in>set (posted_requests s). r < Suc (item_seq it) \<and>
      (\<forall>n\<in>set (accepted s @ [item_seq it]). n < r \<longrightarrow> n \<in> set (finished s))"
    using f(5) ge by fastforce
  have flight: "in_flight ?s = in_flight s @ [item_seq it]"
    by (simp add: in_flight_def d)
  have sorted: "sorted_wrt (<) (accepted s @ [item_seq it])" using f(2) lt by (simp add: sorted_wrt_append)
  have below: "\<forall>n\<in>set (accepted s @ [item_seq it]). n < Suc (item_seq it)" using lt by fastforce
  have "dispatch_ok ?s"
    unfolding dispatch_ok_def flight using f(1,6,9,10) parked posted sorted below by (simp add: d)
  then show ?thesis using True by simp
next
  case False
  then have d: "d = disp s" using eq by (auto simp: enqueueNotification_locked_def split: if_splits)
  let ?s = "s\<lparr>disp := d, next_seq := Suc (item_seq it)\<rparr>"
  note f = dispatch_ok_facts [OF ok]
  have flight: "in_flight ?s = in_flight s" by (simp add: in_flight_def d)
  have "\<forall>p\<in>set (parked_requests (disp s)). parked_ok ?s p" using f(4) ge by (fastforce simp: parked_ok_def)
  moreover have "\<forall>n\<in>set (accepted s). n < Suc (item_seq it)"
    "\<forall>r\<in>set (posted_requests s). r < Suc (item_seq it) \<and> (\<forall>n\<in>set (accepted s). n < r \<longrightarrow> n \<in> set (finished s))"
    using f(3,5) ge by fastforce+
  ultimately have "dispatch_ok ?s" unfolding dispatch_ok_def flight using f by (simp add: d)
  then show ?thesis using False by simp
qed

lemma enqueueRequest_cases:
  assumes "enqueueRequest_locked lim it d = (res, d')"
  obtains (post) "res = PostNow" "d' = d"
      "notification_stop d \<or> \<not> has_last_ordered_notification d \<or> notificationGateSatisfied (last_ordered_notification_seq d) d"
    | (park) "res = Queued" "d' = d\<lparr>parked_requests := parked_requests d @ [\<lparr>gate = last_ordered_notification_seq d, parked_item = it\<rparr>]\<rparr>"
      "has_last_ordered_notification d" "\<not> notificationGateSatisfied (last_ordered_notification_seq d) d"
    | (overload) m where "res = Overloaded m" "d' = d"
  using assms by (auto simp: enqueueRequest_locked_def split: if_splits)

lemma last_gate:
  assumes "dispatch_ok s" "accepted s \<noteq> []"
  shows "last (accepted s) \<in> set (finished s) \<longleftrightarrow> set (finished s) = set (accepted s)"
proof
  note f = dispatch_ok_facts [OF assms(1)]
  assume "last (accepted s) \<in> set (finished s)"
  moreover have "distinct (accepted s)" using f(2) by (simp add: strict_sorted_iff)
  ultimately have "in_flight s = []"
    using f(1) last_in_set [of "in_flight s"] by (cases "in_flight s = []") (auto simp: last_append)
  then show "set (finished s) = set (accepted s)" using f(1) by simp
next
  assume "set (finished s) = set (accepted s)"
  then show "last (accepted s) \<in> set (finished s)" using assms(2) by simp
qed

lemma dispatch_ok_request:
  assumes ok: "dispatch_ok s" and ge: "next_seq s \<le> item_seq it"
    and eq: "enqueueRequest_locked lim it (disp s) = (res, d)"
  shows "dispatch_ok (s\<lparr>disp := d, posted_requests := (if res = PostNow then posted_requests s @ [item_seq it] else posted_requests s),
                        next_seq := Suc (item_seq it)\<rparr>)" (is "dispatch_ok ?s")
proof -
  note f = dispatch_ok_facts [OF ok]
  have lt: "\<forall>n\<in>set (accepted s). n < Suc (item_seq it)" using f(3) ge by fastforce
  have old: "parked_ok ?s p" if "p \<in> set (parked_requests (disp s))" for p
    using f(4) that ge by (fastforce simp: parked_ok_def)
  have posted: "\<forall>r\<in>set (posted_requests s). r < Suc (item_seq it) \<and> (\<forall>n\<in>set (accepted s). n < r \<longrightarrow> n \<in> set (finished s))"
    using f(5) ge by fastforce
  note gate = gate_satisfied [OF ok]
  from eq show ?thesis
  proof (cases rule: enqueueRequest_cases)
    case post
    have all: "set (finished s) = set (accepted s)"
    proof (cases "accepted s = []")
      case True
      then show ?thesis using f(1) by simp
    next
      case False
      with post(3) f(6-8) have "notificationGateSatisfied (last (accepted s)) (disp s)" by simp
      then show ?thesis using False gate [of "last (accepted s)"] last_gate [OF ok False] by simp
    qed
    have flight: "in_flight ?s = in_flight s" using post by (simp add: in_flight_def)
    have "\<forall>n\<in>set (accepted s). n < item_seq it \<longrightarrow> n \<in> set (finished s)" using all by blast
    then have "\<forall>r\<in>set (posted_requests ?s). r < next_seq ?s \<and> (\<forall>n\<in>set (accepted ?s). n < r \<longrightarrow> n \<in> set (finished ?s))"
      using posted post by auto
    then show ?thesis unfolding dispatch_ok_def flight
      by (intro conjI) (use f lt old in \<open>simp_all only: post\<close>, simp_all)
  next
    case park
    then have ne: "accepted s \<noteq> []" using f(7) by simp
    have flight: "in_flight ?s = in_flight s" using park by (simp add: in_flight_def)
    have g: "last (accepted s) \<in> set (accepted s)" "last (accepted s) \<notin> set (finished s)"
      using ne park(4) gate [of "last (accepted s)"] f(8) by auto
    have top: "n \<le> last (accepted s)" if "n \<in> set (accepted s)" for n
      using sorted_prefix_le [of "accepted s" "[]" n] f(2) ne that by simp
    have new: "parked_ok ?s \<lparr>gate = last_ordered_notification_seq (disp s), parked_item = it\<rparr>"
      using g top f(8) [OF ne] by (simp add: parked_ok_def)
    show ?thesis unfolding dispatch_ok_def flight using f(1,2,6-10) lt old posted new by (simp add: park)
  next
    case overload
    have flight: "in_flight ?s = in_flight s" using overload by (simp add: in_flight_def)
    show ?thesis unfolding dispatch_ok_def flight using f(1,2,6-10) lt old posted by (simp add: overload)
  qed
qed

lemma dispatch_ok_take:
  assumes "dispatch_ok s" "running s = None" "take_notification (disp s) = Some (it, d)"
  shows "dispatch_ok (s\<lparr>disp := d, running := Some it\<rparr>)"
proof -
  from assms(3) obtain q where q: "notification_queue (disp s) = it # q" "d = (disp s)\<lparr>notification_queue := q\<rparr>"
    by (auto simp: take_notification_def split: list.splits)
  have "in_flight (s\<lparr>disp := d, running := Some it\<rparr>) = in_flight s" using q assms(2) by (simp add: in_flight_def)
  moreover have "parked_ok (s\<lparr>disp := d, running := Some it\<rparr>) p = parked_ok s p" for p by (simp add: parked_ok_def)
  ultimately show ?thesis unfolding dispatch_ok_def using dispatch_ok_facts [OF assms(1)] q(2)
    by (intro conjI) simp_all
qed

lemma dispatch_ok_finish:
  assumes ok: "dispatch_ok s" and run: "running s = Some it" and eq: "finish_notification (item_seq it) (disp s) = (ready, d)"
  shows "dispatch_ok (s\<lparr>disp := d, running := None, finished := finished s @ [item_seq it],
                        posted_requests := posted_requests s @ map (\<lambda>p. item_seq (parked_item p)) ready\<rparr>)" (is "dispatch_ok ?s")
proof -
  note f = dispatch_ok_facts [OF ok]
  let ?d = "(disp s)\<lparr>has_completed_notification := True, completed_notification_seq := item_seq it\<rparr>"
  let ?sat = "\<lambda>p. gate p \<le> item_seq it"
  have sat: "notificationGateSatisfied g ?d \<longleftrightarrow> g \<le> item_seq it" for g by (simp add: notificationGateSatisfied_def)
  have d: "d = ?d\<lparr>parked_requests := filter (\<lambda>p. \<not> ?sat p) (parked_requests (disp s))\<rparr>"
    and ready: "ready = filter ?sat (parked_requests (disp s))"
    using eq by (auto simp: finish_notification_def releaseParkedRequestsLocked_def release_loop_eq sat)
  have flight: "in_flight s = item_seq it # in_flight ?s" using run by (simp add: in_flight_def d)
  define rest where "rest = in_flight ?s"
  have acc: "accepted s = (finished s @ [item_seq it]) @ rest" using f(1) flight by (simp add: rest_def)
  have le: "n \<in> set (finished s @ [item_seq it]) \<longleftrightarrow> n \<le> item_seq it" if "n \<in> set (accepted s)" for n
    using sorted_prefix_le [of "finished s @ [item_seq it]" rest n] f(2) that acc by simp
  have kept: "parked_ok ?s p" if "p \<in> set (parked_requests (disp s))" "\<not> ?sat p" for p
    using f(4) that le [of "gate p"] by (auto simp: parked_ok_def)
  have new: "r < next_seq s \<and> (\<forall>n\<in>set (accepted s). n < r \<longrightarrow> n \<in> set (finished s @ [item_seq it]))"
    if "r \<in> set (map (\<lambda>p. item_seq (parked_item p)) ready)" for r
  proof -
    from that obtain p where p: "p \<in> set (parked_requests (disp s))" "?sat p" "r = item_seq (parked_item p)"
      by (auto simp: ready)
    then have "parked_ok s p" using f(4) by blast
    then have "r < next_seq s" "\<forall>n\<in>set (accepted s). n < r \<longrightarrow> n \<le> item_seq it"
      using p by (auto simp: parked_ok_def)
    then show ?thesis using le by blast
  qed
  have posted: "\<forall>r\<in>set (posted_requests s @ map (\<lambda>p. item_seq (parked_item p)) ready).
      r < next_seq s \<and> (\<forall>n\<in>set (accepted s). n < r \<longrightarrow> n \<in> set (finished s @ [item_seq it]))"
    using f(5) new by fastforce
  have acc': "accepted ?s = finished ?s @ in_flight ?s" using acc by (simp add: rest_def)
  show ?thesis unfolding dispatch_ok_def
    by (intro conjI acc') (use f(2,3,6,7,8) kept posted in \<open>simp_all add: d\<close>)
qed

lemmas dispatch_ok_steps = dispatch_ok_notification dispatch_ok_request dispatch_ok_take dispatch_ok_finish

lemma dispatch_ok_step: "dispatch_step lim s s' \<Longrightarrow> dispatch_ok s \<Longrightarrow> dispatch_ok s'"
  by (induction rule: dispatch_step.induct) (blast intro: dispatch_ok_steps)+

lemma dispatch_ok_reach: "dispatch_reach lim s \<Longrightarrow> dispatch_ok s"
  by (induction rule: dispatch_reach.induct) (auto intro: dispatch_ok_start dispatch_ok_step)

section \<open>Properties\<close>

text \<open>C9: A request that has been handed to the workers has every accepted notification that
  arrived before it already finished: the handlers of a request see the effects of all earlier
  notifications, whatever the interleaving of arrivals with the notification thread.
\<close>

theorem request_after_notifications:
  assumes "dispatch_reach lim s" "r \<in> set (posted_requests s)" "n \<in> set (accepted s)" "n < r"
  shows "n \<in> set (finished s)"
  using dispatch_ok_facts(5) [OF dispatch_ok_reach [OF assms(1)]] assms(2-4) by blast

text \<open>Notifications are dispatched one at a time in the order of their arrival: those finished,
  the one being handled and those waiting are, in this order, exactly the accepted ones, with
  ascending sequence numbers.
\<close>

theorem notifications_in_order:
  assumes "dispatch_reach lim s"
  shows "accepted s = finished s @ in_flight s \<and> sorted_wrt (<) (accepted s)"
  using dispatch_ok_facts(1,2) [OF dispatch_ok_reach [OF assms]] by blast

lemma no_stuck_request:
  assumes "dispatch_ok s" "running s = None" "notification_queue (disp s) = []"
  shows "parked_requests (disp s) = []"
proof -
  note f = dispatch_ok_facts [OF assms(1)]
  have "set (accepted s) = set (finished s)" using f(1) assms(2,3) by (simp add: in_flight_def)
  then have "\<not> parked_ok s p" for p by (simp add: parked_ok_def)
  then show ?thesis using f(4) by (cases "parked_requests (disp s)") auto
qed

text \<open>
  The notification thread left to itself: it takes and finishes as long as there is something to
  take.  The first argument bounds the number of rounds.
\<close>

fun run_notifications :: "nat \<Rightarrow> dispatch_state \<Rightarrow> dispatch_state" where
  "run_notifications 0 s = s"
| "run_notifications (Suc k) s =
     (case running s of
        Some it \<Rightarrow>
          (case finish_notification (item_seq it) (disp s) of (ready, d) \<Rightarrow>
             run_notifications k (s\<lparr>disp := d, running := None, finished := finished s @ [item_seq it],
                                     posted_requests := posted_requests s @ map (\<lambda>p. item_seq (parked_item p)) ready\<rparr>))
      | None \<Rightarrow>
          (case take_notification (disp s) of None \<Rightarrow> s | Some (it, d) \<Rightarrow> run_notifications k (s\<lparr>disp := d, running := Some it\<rparr>)))"

definition rounds_left :: "dispatch_state \<Rightarrow> nat" where
  "rounds_left s = 2 * length (notification_queue (disp s)) + (if running s = None then 0 else 1)"

definition pending_or_posted :: "dispatch_state \<Rightarrow> nat set" where
  "pending_or_posted s = set (posted_requests s) \<union> (\<lambda>p. item_seq (parked_item p)) ` set (parked_requests (disp s))"

lemma finish_notification_queue:
  "finish_notification q d = (ready, d') \<Longrightarrow> notification_queue d' = notification_queue d"
  by (auto simp: finish_notification_def releaseParkedRequestsLocked_def split: prod.splits)

lemma finish_notification_parked:
  "finish_notification q d = (ready, d') \<Longrightarrow> set (parked_requests d) = set ready \<union> set (parked_requests d')"
  by (auto simp: finish_notification_def releaseParkedRequestsLocked_def release_loop_eq)

lemma run_notifications_drains:
  assumes "dispatch_reach lim s" "rounds_left s \<le> k"
  shows "dispatch_reach lim (run_notifications k s) \<and> rounds_left (run_notifications k s) = 0 \<and>
         accepted (run_notifications k s) = accepted s \<and> pending_or_posted (run_notifications k s) = pending_or_posted s"
  using assms
proof (induction k s rule: run_notifications.induct)
  case (1 s)
  then show ?case by simp
next
  case (2 k s)
  show ?case
  proof (cases "running s")
    case None
    show ?thesis
    proof (cases "take_notification (disp s)")
      case None
      with \<open>running s = None\<close> 2(3,4) show ?thesis
        by (auto simp: rounds_left_def take_notification_def split: list.splits)
    next
      case (Some r)
      then obtain it d where t: "take_notification (disp s) = Some (it, d)" by (cases r) simp
      let ?s = "s\<lparr>disp := d, running := Some it\<rparr>"
      have "pending_or_posted ?s = pending_or_posted s" "Suc (rounds_left ?s) = rounds_left s"
        using t None by (auto simp: rounds_left_def pending_or_posted_def take_notification_def split: list.splits)
      then show ?thesis
        using 2(1) [OF None t refl] dispatch_reach.step [OF 2(3) dispatch_step.take [OF None t]] 2(4) None t by simp
    qed
  next
    case (Some it)
    obtain ready d where t: "finish_notification (item_seq it) (disp s) = (ready, d)" by force
    let ?s = "s\<lparr>disp := d, running := None, finished := finished s @ [item_seq it],
                posted_requests := posted_requests s @ map (\<lambda>p. item_seq (parked_item p)) ready\<rparr>"
    have "pending_or_posted ?s = pending_or_posted s" "Suc (rounds_left ?s) = rounds_left s"
      using Some finish_notification_parked [OF t] finish_notification_queue [OF t]
      by (auto simp: rounds_left_def pending_or_posted_def)
    then show ?thesis
      using 2(2) [OF Some t [symmetric]] dispatch_reach.step [OF 2(3) dispatch_step.finish [OF Some t]] 2(4) Some t by simp
  qed
qed

lemma rounds_left_0: "rounds_left s = 0 \<longleftrightarrow> running s = None \<and> notification_queue (disp s) = []"
  by (auto simp: rounds_left_def)

text \<open>C32: No request waits for ever.  From every reachable state the notification thread, given as many
  rounds as there are notifications to take and to finish, completes every accepted notification,
  and then no request is parked: each one that was has been handed to the workers.
\<close>

theorem parked_requests_are_released:
  assumes "dispatch_reach lim s" "rounds_left s \<le> k"
  shows "finished (run_notifications k s) = accepted s \<and> parked_requests (disp (run_notifications k s)) = [] \<and>
         (\<lambda>p. item_seq (parked_item p)) ` set (parked_requests (disp s)) \<subseteq> set (posted_requests (run_notifications k s))"
proof -
  let ?t = "run_notifications k s"
  note d = run_notifications_drains [OF assms]
  then have idle: "running ?t = None" "notification_queue (disp ?t) = []" by (auto simp: rounds_left_0)
  have ok: "dispatch_ok ?t" using d dispatch_ok_reach by blast
  have none: "parked_requests (disp ?t) = []" using no_stuck_request [OF ok idle] .
  have "finished ?t = accepted s" using dispatch_ok_facts(1) [OF ok] d idle by (simp add: in_flight_def)
  moreover have "pending_or_posted s = set (posted_requests ?t)" using d none by (simp add: pending_or_posted_def)
  ultimately show ?thesis using none by (auto simp: pending_or_posted_def)
qed

text \<open>The two queues of the dispatcher never exceed their configured limits (a limit of zero
  means that there is none).
\<close>

theorem dispatch_queues_bounded:
  assumes "dispatch_reach lim s"
  shows "(max_notification_queue_size lim \<noteq> 0 \<longrightarrow> length (notification_queue (disp s)) \<le> max_notification_queue_size lim) \<and>
         (max_parked_request_queue_size lim \<noteq> 0 \<longrightarrow> length (parked_requests (disp s)) \<le> max_parked_request_queue_size lim)"
  using assms
proof (induction rule: dispatch_reach.induct)
  case (start d)
  then show ?case by (simp add: initial_dispatch_def startOrderedDispatcher_def)
next
  case (step s s')
  from step(2,3) show ?case
  proof (induction rule: dispatch_step.induct)
    case (notification s it res d)
    then show ?case by (auto simp: enqueueNotification_locked_def split: if_splits)
  next
    case (request s it res d)
    then show ?case by (auto simp: enqueueRequest_locked_def split: if_splits)
  next
    case (take s it d)
    then show ?case by (auto simp: take_notification_def split: list.splits)
  next
    case (finish s it ready d)
    then have "length (parked_requests d) \<le> length (parked_requests (disp s))"
      by (auto simp: finish_notification_def releaseParkedRequestsLocked_def release_loop_eq)
    with finish finish_notification_queue [OF finish(2)] show ?case by auto
  qed
qed

section \<open>A run of the dispatcher\<close>

text \<open>Notification 0 arrives and is taken, request 1 is parked behind it, then the notification finishes.\<close>

definition sample_item :: "nat \<Rightarrow> DispatchItem" where
  "sample_item n = \<lparr>item_seq = n, item_msg = makeErrorMessage (kInt 7) InternalError [], response_state = 0\<rparr>"

definition sample_parked :: dispatch_state where
  "sample_parked =
     \<lparr>disp = \<lparr>notification_queue = [sample_item 2],
              parked_requests = [\<lparr>gate = 2, parked_item = sample_item 3\<rparr>], notification_stop = False,
              has_last_ordered_notification = True, last_ordered_notification_seq = 2,
              has_completed_notification = False, completed_notification_seq = 0\<rparr>,
      running = None, accepted = [2], finished = [], posted_requests = [], next_seq = 4\<rparr>"

definition small_limits :: RemoteEndPointLimits where
  "small_limits = default_limits\<lparr>max_notification_queue_size := 2, max_parked_request_queue_size := 2\<rparr>"

lemma sample_parked_reach: "dispatch_reach small_limits sample_parked"
proof -
  define d where "d = startOrderedDispatcher (disp sample_parked)"
  let ?s0 = "initial_dispatch (disp sample_parked)"
  define d1 where "d1 = snd (enqueueNotification_locked small_limits (sample_item 2) d)"
  let ?s1 = "?s0\<lparr>disp := d1, accepted := [2], next_seq := 3\<rparr>"
  have 1: "enqueueNotification_locked small_limits (sample_item 2) (disp ?s0) = (Queued, d1)"
    by (simp add: d_def d1_def initial_dispatch_def startOrderedDispatcher_def enqueueNotification_locked_def small_limits_def default_limits_def sample_item_def)
  have r1: "dispatch_reach small_limits ?s1"
    using dispatch_reach.step [OF dispatch_reach.start dispatch_step.notification [OF _ 1]]
    by (simp add: initial_dispatch_def sample_item_def)
  define d2 where "d2 = snd (enqueueRequest_locked small_limits (sample_item 3) d1)"
  have 2: "enqueueRequest_locked small_limits (sample_item 3) (disp ?s1) = (Queued, d2)"
    by (simp add: d_def d1_def d2_def startOrderedDispatcher_def enqueueNotification_locked_def enqueueRequest_locked_def
        notificationGateSatisfied_def small_limits_def default_limits_def sample_item_def)
  have "sample_parked = ?s1\<lparr>disp := d2, next_seq := 4\<rparr>"
    by (simp add: sample_parked_def d_def d1_def d2_def initial_dispatch_def startOrderedDispatcher_def enqueueNotification_locked_def
        enqueueRequest_locked_def notificationGateSatisfied_def small_limits_def default_limits_def sample_item_def)
  then show ?thesis
    using dispatch_reach.step [OF r1 dispatch_step.request [OF _ 2]] by (simp add: initial_dispatch_def sample_item_def)
qed

lemma sample_drained: "run_notifications 2 sample_parked =
    sample_parked\<lparr>disp := (disp sample_parked)\<lparr>notification_queue := [], parked_requests := [],
        has_completed_notification := True, completed_notification_seq := 2\<rparr>,
      finished := [2], posted_requests := [3]\<rparr>"
  by (simp add: eval_nat_numeral(3) numeral_2_eq_2 sample_parked_def take_notification_def finish_notification_def
      releaseParkedRequestsLocked_def release_loop_eq notificationGateSatisfied_def sample_item_def)

lemma sample_drained_reach: "dispatch_reach small_limits (run_notifications 2 sample_parked)"
  using run_notifications_drains [OF sample_parked_reach, of 2] by (simp add: rounds_left_def sample_parked_def)

theorem request_after_notifications_witness:
  "3 \<in> set (posted_requests (run_notifications 2 sample_parked)) \<and> 2 \<in> set (finished (run_notifications 2 sample_parked))"
  using request_after_notifications [OF sample_drained_reach, of 3 2] unfolding sample_drained by (simp add: sample_parked_def)

theorem notifications_in_order_witness: "accepted sample_parked = finished sample_parked @ in_flight sample_parked"
  using notifications_in_order [OF sample_parked_reach] by simp

theorem parked_requests_are_released_witness:
  "parked_requests (disp sample_parked) \<noteq> [] \<and> parked_requests (disp (run_notifications 2 sample_parked)) = []"
  using parked_requests_are_released [OF sample_parked_reach, of 2] by (simp add: rounds_left_def sample_parked_def)

theorem dispatch_queues_bounded_witness: "length (parked_requests (disp sample_parked)) \<le> 2"
  using dispatch_queues_bounded [OF sample_parked_reach] by (simp add: small_limits_def)

end
