(* ===== verification/Pending_Requests.thy ===== *)
theory Pending_Requests
  imports Rpc_Message
begin

text \<open>
  Outgoing requests that wait for their response: \<^verbatim>\<open>PendingRequestInfo\<close> and the table
  \<^verbatim>\<open>_client_request_futures\<close> of \<^verbatim>\<open>src/jsonrpc/RemoteEndPoint.cpp\<close>.  A \<^verbatim>\<open>PendingRequestInfo\<close> is shared,
  so it is an address into \<open>infos\<close>; \<open>delivered\<close> records the calls of the response handlers, and
  \<open>posted\<close> the completions that wait in the handler pool, which runs them in any order.  The main
  result is that every handler is called at most once, whatever the interleaving.
\<close>

section \<open>Model\<close>

record PendingRequestInfo =
  info_method :: string
  has_handler :: bool
  completed :: bool
  deferred_callback :: bool

record pending_table =
  futures :: "(lsRequestId, nat) std_map"
  infos :: "PendingRequestInfo list"
  m_id :: "32 word"
  posted :: "(nat \<times> LspMessage) list"
  delivered :: "(nat \<times> LspMessage) list"

definition empty_pending :: pending_table where
  "empty_pending = \<lparr>futures = [], infos = [], m_id = 0, posted = [], delivered = []\<rparr>"

text \<open>\<^verbatim>\<open>PendingRequestInfo::complete\<close>: the flag is exchanged first, so only the first call gets on.\<close>

definition complete :: "nat \<Rightarrow> LspMessage \<Rightarrow> pending_table \<Rightarrow> pending_table" where
  "complete a msg t =
     (let info = infos t ! a in
      if completed info then t
      else
        let t1 = t\<lparr>infos := (infos t)[a := info\<lparr>completed := True\<rparr>]\<rparr>
        in if has_handler info then t1\<lparr>delivered := delivered t1 @ [(a, msg)]\<rparr> else t1)"

definition shouldDeferCallback :: "nat \<Rightarrow> pending_table \<Rightarrow> bool" where
  "shouldDeferCallback a t = deferred_callback (infos t ! a)"

text \<open>\<^verbatim>\<open>getNextRequestId\<close>: an atomic \<^verbatim>\<open>int\<close> that wraps around.\<close>

definition getNextRequestId :: "pending_table \<Rightarrow> int \<times> pending_table" where
  "getNextRequestId t = (sint (m_id t), t\<lparr>m_id := m_id t + 1\<rparr>)"

text \<open>
  \<^verbatim>\<open>pendingRequest\<close>: the new entry (or \<^const>\<open>None\<close>) and the identifier the request goes out with.
\<close>

definition pendingRequest ::
  "nat \<Rightarrow> string \<Rightarrow> lsRequestId \<Rightarrow> bool \<Rightarrow> pending_table \<Rightarrow> nat option \<times> lsRequestId \<times> pending_table" where
  "pendingRequest limit method i deferred t =
     (if limit \<noteq> 0 \<and> length (futures t) \<ge> limit then (None, i, t)
      else if has_value i \<and> map_of (futures t) i \<noteq> None then (None, i, t)
      else
        let (i1, t1) = (if \<not> has_value i then (case getNextRequestId t of (n, t') \<Rightarrow> (kInt n, t')) else (i, t));
            a = length (infos t1);
            info = \<lparr>info_method = method, has_handler = True, completed = False, deferred_callback = deferred\<rparr>
        in (Some a, i1, t1\<lparr>infos := infos t1 @ [info], futures := map_set i1 a (futures t1)\<rparr>))"

definition getRequestInfo :: "pending_table \<Rightarrow> lsRequestId \<Rightarrow> (nat \<times> string) option" where
  "getRequestInfo t i = map_option (\<lambda>a. (a, info_method (infos t ! a))) (map_of (futures t) i)"

definition removeRequestInfo :: "lsRequestId \<Rightarrow> pending_table \<Rightarrow> pending_table" where
  "removeRequestInfo i t = t\<lparr>futures := map_erase i (futures t)\<rparr>"

text \<open>The overload that only removes the expected entry.\<close>

definition removeRequestInfo_expected :: "lsRequestId \<Rightarrow> nat \<Rightarrow> pending_table \<Rightarrow> bool \<times> pending_table" where
  "removeRequestInfo_expected i expected t =
     (if map_of (futures t) i = Some expected then (True, removeRequestInfo i t) else (False, t))"

text \<open>
  \<^verbatim>\<open>completePendingResponse\<close>; \<open>can_post\<close> says that the endpoint is not quitting and has a handler
  pool.
\<close>

definition completePendingResponse :: "bool \<Rightarrow> LspMessage \<Rightarrow> nat \<Rightarrow> pending_table \<Rightarrow> pending_table" where
  "completePendingResponse can_post msg a t =
     (case removeRequestInfo_expected (msg_id msg) a t of
        (False, t1) \<Rightarrow> t1
      | (True, t1) \<Rightarrow>
          if \<not> shouldDeferCallback a t1 then complete a msg t1
          else if \<not> can_post then t1
          else t1\<lparr>posted := posted t1 @ [(a, msg)]\<rparr>)"

text \<open>A worker of the handler pool takes a posted completion.\<close>

definition run_posted :: "nat \<Rightarrow> pending_table \<Rightarrow> pending_table" where
  "run_posted k t =
     (if k < length (posted t)
      then complete (fst (posted t ! k)) (snd (posted t ! k)) (t\<lparr>posted := take k (posted t) @ drop (Suc k) (posted t)\<rparr>)
      else t)"

text \<open>\<^verbatim>\<open>stopWorkerPools\<close> drops what has not been started.\<close>

definition stop_pool :: "pending_table \<Rightarrow> pending_table" where
  "stop_pool t = t\<lparr>posted := []\<rparr>"

definition stopped_message :: "lsRequestId \<Rightarrow> LspMessage" where
  "stopped_message i = makeErrorMessage i InternalError ''Remote endpoint stopped.''"

definition failPendingRequests :: "pending_table \<Rightarrow> pending_table" where
  "failPendingRequests t =
     fold (\<lambda>e. complete (snd e) (stopped_message (fst e))) (futures t) (t\<lparr>futures := []\<rparr>)"

section \<open>The invariant\<close>

text \<open>
  An entry is in at most one of three places: the table, the pool's queue, or done.
\<close>

definition waiting :: "pending_table \<Rightarrow> nat list" where
  "waiting t = map snd (futures t) @ map fst (posted t)"

definition open_entry :: "pending_table \<Rightarrow> nat \<Rightarrow> bool" where
  "open_entry t a \<longleftrightarrow> a < length (infos t) \<and> \<not> completed (infos t ! a) \<and> has_handler (infos t ! a)"

definition done_entry :: "pending_table \<Rightarrow> nat \<Rightarrow> bool" where
  "done_entry t a \<longleftrightarrow> a < length (infos t) \<and> completed (infos t ! a)"

definition pending_ok :: "pending_table \<Rightarrow> bool" where
  "pending_ok t \<longleftrightarrow>
     map_ok (futures t) \<and> distinct (waiting t) \<and> (\<forall>a\<in>set (waiting t). open_entry t a) \<and>
     distinct (map fst (delivered t)) \<and> (\<forall>a\<in>set (map fst (delivered t)). done_entry t a)"

lemma snd_map_set: "snd ` set (map_set k v m) \<subseteq> insert v (snd ` set m)"
  by (induction k v m rule: map_set.induct) auto

lemma disjoint_insert_sub: "A \<subseteq> insert x B \<Longrightarrow> B \<inter> C = {} \<Longrightarrow> x \<notin> C \<Longrightarrow> A \<inter> C = {}"
  by blast

lemma distinct_snd_map_set: "distinct (map snd m) \<Longrightarrow> v \<notin> snd ` set m \<Longrightarrow> distinct (map snd (map_set k v m))"
proof (induction k v m rule: map_set.induct)
  case (2 k v k' v' m)
  then show ?case using snd_map_set [of k v m] by auto
qed simp

lemma complete_simps [simp]:
  "futures (complete a msg t) = futures t" "posted (complete a msg t) = posted t" "m_id (complete a msg t) = m_id t"
  "waiting (complete a msg t) = waiting t" "length (infos (complete a msg t)) = length (infos t)"
  by (simp_all add: complete_def Let_def waiting_def)

lemma fold_complete_posted: "posted (fold (\<lambda>e. complete (f e) (g e)) es t) = posted t"
  by (induction es arbitrary: t) simp_all

lemma complete_open:
  assumes "open_entry t a"
  shows "delivered (complete a msg t) = delivered t @ [(a, msg)]"
    and "infos (complete a msg t) = (infos t)[a := (infos t ! a)\<lparr>completed := True\<rparr>]"
  using assms by (simp_all add: complete_def open_entry_def Let_def)

lemma complete_ok:
  assumes "pending_ok t" "open_entry t a" "a \<notin> set (waiting t)"
  shows "pending_ok (complete a msg t)"
proof -
  note c = complete_open [OF assms(2), of msg]
  have keep: "open_entry (complete a msg t) b = open_entry t b" "done_entry (complete a msg t) b = done_entry t b" if "b \<noteq> a" for b
    using that by (simp_all add: open_entry_def done_entry_def c(2))
  have here: "done_entry (complete a msg t) a" using assms(2) by (simp add: open_entry_def done_entry_def c(2))
  have "a \<notin> set (map fst (delivered t))" using assms(1,2) by (auto simp: pending_ok_def open_entry_def done_entry_def)
  moreover have "open_entry (complete a msg t) b" if "b \<in> set (waiting t)" for b
    using that assms(1,3) keep(1) [of b] by (cases "b = a") (auto simp: pending_ok_def)
  moreover have "done_entry (complete a msg t) b" if "b \<in> set (map fst (delivered t))" for b
    using that assms(1) keep(2) [of b] here by (cases "b = a") (auto simp: pending_ok_def)
  ultimately show ?thesis using assms(1) here by (simp add: pending_ok_def c(1))
qed

text \<open>Whatever only takes entries out of the two queues keeps the invariant.\<close>

lemma pending_ok_fewer:
  assumes "pending_ok t" "map_ok fs" "distinct (map snd fs @ map fst ps)" "set (map snd fs @ map fst ps) \<subseteq> set (waiting t)"
  shows "pending_ok (t\<lparr>futures := fs, posted := ps\<rparr>)"
  using assms by (auto simp: pending_ok_def waiting_def open_entry_def done_entry_def simp del: set_append map_append)

lemma removeRequestInfo_ok:
  assumes "pending_ok t"
  shows "pending_ok (removeRequestInfo i t)"
proof -
  have "pending_ok (t\<lparr>futures := map_erase i (futures t), posted := posted t\<rparr>)"
  proof (rule pending_ok_fewer [OF assms])
    show "map_ok (map_erase i (futures t))" using assms by (simp add: pending_ok_def map_ok_erase)
  qed (use assms in \<open>auto simp: pending_ok_def waiting_def map_erase_def distinct_map_filter\<close>)
  then show ?thesis by (simp add: removeRequestInfo_def)
qed

lemma map_erase_value:
  assumes "map_ok m" "map_of m k = Some a" "distinct (map snd m)"
  shows "a \<notin> snd ` set (map_erase k m)"
proof -
  have "(k, a) \<in> set m" using map_of_eq_Some [OF assms(1)] assms(2) by blast
  then have "j = k" if "(j, a) \<in> set m" for j
    using that assms(3) by (metis distinct_map inj_on_def snd_conv fst_conv)
  then show ?thesis by (auto simp: map_erase_def)
qed

lemma removed_entry:
  assumes "pending_ok t" "map_of (futures t) i = Some a"
  shows "open_entry (removeRequestInfo i t) a" "a \<notin> set (waiting (removeRequestInfo i t))"
proof -
  have "a \<in> snd ` set (futures t)" using map_of_SomeD [OF assms(2)] by force
  with assms(1) have "open_entry t a" "a \<notin> fst ` set (posted t)" by (auto simp: pending_ok_def waiting_def)
  moreover have "a \<notin> snd ` set (map_erase i (futures t))"
    using map_erase_value [OF _ assms(2)] assms(1) by (simp add: pending_ok_def waiting_def)
  ultimately show "open_entry (removeRequestInfo i t) a" "a \<notin> set (waiting (removeRequestInfo i t))"
    by (simp_all add: removeRequestInfo_def open_entry_def waiting_def)
qed

lemma pendingRequest_push:
  assumes "pending_ok u" "\<not> completed info" "has_handler info"
  shows "pending_ok (u\<lparr>infos := infos u @ [info], futures := map_set j (length (infos u)) (futures u)\<rparr>)"
proof -
  let ?u = "u\<lparr>infos := infos u @ [info], futures := map_set j (length (infos u)) (futures u)\<rparr>"
  have fresh: "length (infos u) \<notin> set (waiting u)" using assms(1) by (auto simp: pending_ok_def open_entry_def)
  have sub: "set (waiting ?u) \<subseteq> insert (length (infos u)) (set (waiting u))"
    using snd_map_set [of j "length (infos u)" "futures u"] by (auto simp: waiting_def)
  have "snd ` set (map_set j (length (infos u)) (futures u)) \<inter> fst ` set (posted u) = {}"
  proof -
    have "snd ` set (futures u) \<inter> fst ` set (posted u) = {}" "length (infos u) \<notin> fst ` set (posted u)"
      using assms(1) fresh by (simp_all add: pending_ok_def waiting_def)
    then show ?thesis by (rule disjoint_insert_sub [OF snd_map_set])
  qed
  then have "distinct (waiting ?u)"
    using assms(1) fresh distinct_snd_map_set [of "futures u" "length (infos u)" j]
    by (simp add: pending_ok_def waiting_def)
  moreover have "open_entry ?u a" if "a \<in> set (waiting ?u)" for a
    using that sub assms by (auto simp: pending_ok_def open_entry_def nth_append less_SucI dest!: subsetD)
  moreover have "done_entry ?u a" if "a \<in> set (map fst (delivered u))" for a
    using that assms(1) by (auto simp: pending_ok_def done_entry_def nth_append less_SucI)
  ultimately show ?thesis using assms(1) by (simp add: pending_ok_def map_ok_set)
qed

lemma pendingRequest_ok:
  assumes "pending_ok t"
  shows "pending_ok (snd (snd (pendingRequest limit method i deferred t)))"
proof -
  have "pending_ok (t\<lparr>m_id := n\<rparr>)" for n
    using assms by (simp add: pending_ok_def waiting_def open_entry_def done_entry_def)
  from pendingRequest_push [OF this] pendingRequest_push [OF assms] assms show ?thesis
    by (simp add: pendingRequest_def getNextRequestId_def Let_def)
qed

lemma completePendingResponse_ok:
  assumes "pending_ok t"
  shows "pending_ok (completePendingResponse can_post msg a t)"
proof (cases "map_of (futures t) (msg_id msg) = Some a")
  case False
  then show ?thesis using assms by (simp add: completePendingResponse_def removeRequestInfo_expected_def)
next
  case True
  let ?t = "removeRequestInfo (msg_id msg) t"
  have ok: "pending_ok ?t" by (rule removeRequestInfo_ok [OF assms])
  note e = removed_entry [OF assms True]
  have "pending_ok (?t\<lparr>posted := posted ?t @ [(a, msg)]\<rparr>)"
    using ok e by (auto simp: pending_ok_def waiting_def open_entry_def done_entry_def)
  with ok complete_ok [OF ok e] True show ?thesis
    by (simp add: completePendingResponse_def removeRequestInfo_expected_def)
qed

lemma run_posted_ok:
  assumes "pending_ok t"
  shows "pending_ok (run_posted k t)"
proof (cases "k < length (posted t)")
  case True
  let ?a = "fst (posted t ! k)" and ?t = "t\<lparr>posted := take k (posted t) @ drop (Suc k) (posted t)\<rparr>"
  have p: "posted t = take k (posted t) @ posted t ! k # drop (Suc k) (posted t)" using True by (rule id_take_nth_drop)
  have w: "distinct (map snd (futures t) @ map fst (take k (posted t) @ posted t ! k # drop (Suc k) (posted t)))"
    using assms p by (simp add: pending_ok_def waiting_def)
  have "pending_ok (t\<lparr>futures := futures t, posted := take k (posted t) @ drop (Suc k) (posted t)\<rparr>)"
  proof (rule pending_ok_fewer [OF assms])
    show "distinct (map snd (futures t) @ map fst (take k (posted t) @ drop (Suc k) (posted t)))" using w by auto
    show "set (map snd (futures t) @ map fst (take k (posted t) @ drop (Suc k) (posted t))) \<subseteq> set (waiting t)"
      by (auto simp: waiting_def dest: in_set_takeD in_set_dropD)
  qed (use assms in \<open>simp add: pending_ok_def\<close>)
  then have "pending_ok ?t" by simp
  moreover have "open_entry ?t ?a" using assms True by (auto simp: pending_ok_def waiting_def open_entry_def)
  moreover have "?a \<notin> set (waiting ?t)" using w by (auto simp: waiting_def)
  ultimately show ?thesis using True by (simp add: run_posted_def complete_ok)
qed (use assms in \<open>simp add: run_posted_def\<close>)

lemma stop_pool_ok: "pending_ok t \<Longrightarrow> pending_ok (stop_pool t)"
  using pending_ok_fewer [of t "futures t" "[]"] by (auto simp: stop_pool_def pending_ok_def waiting_def)

lemma fail_fold:
  assumes "pending_ok t" "distinct (map snd es)" "\<forall>a\<in>snd ` set es. open_entry t a \<and> a \<notin> set (waiting t)"
  shows "let t' = fold (\<lambda>e. complete (snd e) (stopped_message (fst e))) es t
    in pending_ok t' \<and> futures t' = futures t \<and> posted t' = posted t \<and>
       delivered t' = delivered t @ map (\<lambda>e. (snd e, stopped_message (fst e))) es"
  using assms
proof (induction es arbitrary: t)
  case Nil
  then show ?case by simp
next
  case (Cons e es)
  let ?t = "complete (snd e) (stopped_message (fst e)) t"
  have e: "open_entry t (snd e)" "snd e \<notin> set (waiting t)" using Cons.prems(3) by auto
  have "open_entry ?t a \<and> a \<notin> set (waiting ?t)" if "a \<in> snd ` set es" for a
  proof -
    have "a \<noteq> snd e" using that Cons.prems(2) by (metis distinct.simps(2) list.simps(9) set_map)
    then show ?thesis using that Cons.prems(3) by (auto simp: open_entry_def complete_open [OF e(1)])
  qed
  with Cons.IH [of ?t] Cons.prems complete_ok [OF Cons.prems(1) e] show ?case
    by (simp add: complete_open [OF e(1)] Let_def)
qed

lemma fail_pending:
  assumes "pending_ok t"
  shows "pending_ok (failPendingRequests t)" "futures (failPendingRequests t) = []"
    and "delivered (failPendingRequests t) = delivered t @ map (\<lambda>e. (snd e, stopped_message (fst e))) (futures t)"
proof -
  have ok: "pending_ok (t\<lparr>futures := []\<rparr>)"
    using pending_ok_fewer [OF assms, of "[]" "posted t"] assms by (auto simp: pending_ok_def waiting_def)
  have d: "distinct (map snd (futures t))" using assms by (simp add: pending_ok_def waiting_def)
  have "\<forall>a\<in>snd ` set (futures t). open_entry (t\<lparr>futures := []\<rparr>) a \<and> a \<notin> set (waiting (t\<lparr>futures := []\<rparr>))"
    using assms by (auto simp: pending_ok_def waiting_def open_entry_def)
  from fail_fold [OF ok d this]
  show "pending_ok (failPendingRequests t)" "futures (failPendingRequests t) = []"
    "delivered (failPendingRequests t) = delivered t @ map (\<lambda>e. (snd e, stopped_message (fst e))) (futures t)"
    by (simp_all add: failPendingRequests_def Let_def)
qed

section \<open>Histories\<close>

text \<open>
  The steps of the table, each under its mutex or in one worker: a request goes out, a response
  arrives, a worker runs a posted completion, the pool is stopped, a wait times out, the
  endpoint stops.
\<close>

inductive pending_step :: "pending_table \<Rightarrow> pending_table \<Rightarrow> bool" where
  send: "pending_step t (snd (snd (pendingRequest limit method i deferred t)))"
| respond: "pending_step t (completePendingResponse can_post msg a t)"
| run: "pending_step t (run_posted k t)"
| stop: "pending_step t (stop_pool t)"
| time_out: "pending_step t (removeRequestInfo i t)"
| fail: "pending_step t (failPendingRequests t)"

inductive pending_reach :: "pending_table \<Rightarrow> bool" where
  init: "pending_reach empty_pending"
| step: "pending_reach t \<Longrightarrow> pending_step t t' \<Longrightarrow> pending_reach t'"

lemma pending_step_ok: "pending_step t t' \<Longrightarrow> pending_ok t \<Longrightarrow> pending_ok t'"
  by (cases rule: pending_step.cases)
    (auto simp: pendingRequest_ok completePendingResponse_ok run_posted_ok stop_pool_ok removeRequestInfo_ok fail_pending)

lemma pending_reach_ok: "pending_reach t \<Longrightarrow> pending_ok t"
proof (induction rule: pending_reach.induct)
  case init
  then show ?case by (simp add: empty_pending_def pending_ok_def waiting_def)
next
  case (step t t')
  then show ?case using pending_step_ok by blast
qed

section \<open>Properties\<close>

text \<open>C11: Over every interleaving of sends, responses, worker runs, time-outs and stops, each
  response handler is called at most once, and never while its request is still in the table or
  in the pool's queue.\<close>

theorem handler_called_at_most_once:
  assumes "pending_reach t"
  shows "distinct (map fst (delivered t)) \<and> set (map fst (delivered t)) \<inter> set (waiting t) = {}"
proof -
  have "pending_ok t" by (rule pending_reach_ok [OF assms])
  then show ?thesis unfolding pending_ok_def open_entry_def done_entry_def by blast
qed

definition sample_reply :: LspMessage where
  "sample_reply = makeErrorMessage (kInt 0) InternalError ''no''"

definition sample_pending :: pending_table where
  "sample_pending = completePendingResponse True sample_reply 0 (snd (snd (pendingRequest 0 ''shutdown'' kNone True empty_pending)))"

lemma sample_pending_reach: "pending_reach sample_pending"
  unfolding sample_pending_def
  by (rule pending_reach.step [OF pending_reach.step [OF pending_reach.init pending_step.send] pending_step.respond])

theorem handler_called_at_most_once_witness:
  "distinct (map fst (delivered (failPendingRequests (run_posted 0 sample_pending)))) \<and>
   delivered (failPendingRequests (run_posted 0 sample_pending)) = [(0, sample_reply)]"
proof -
  have "pending_reach (failPendingRequests (run_posted 0 sample_pending))"
    by (rule pending_reach.step [OF pending_reach.step [OF sample_pending_reach pending_step.run] pending_step.fail])
  moreover have "delivered (failPendingRequests (run_posted 0 sample_pending)) = [(0, sample_reply)]" by code_simp
  ultimately show ?thesis using handler_called_at_most_once by blast
qed

text \<open>A response reaches the handler of the request it answers: when a response with the
  identifier of a pending request arrives, the request leaves the table and exactly that handler
  is called with exactly that message, at once or (for deferred call-backs) when a worker runs
  the posted completion.\<close>

theorem response_reaches_its_handler:
  assumes "pending_reach t" "map_of (futures t) (msg_id msg) = Some a"
  shows "map_of (futures (completePendingResponse True msg a t)) (msg_id msg) = None \<and>
    (if shouldDeferCallback a t
     then posted (completePendingResponse True msg a t) = posted t @ [(a, msg)] \<and>
          delivered (run_posted (length (posted t)) (completePendingResponse True msg a t)) = delivered t @ [(a, msg)]
     else delivered (completePendingResponse True msg a t) = delivered t @ [(a, msg)])"
proof -
  have ok: "pending_ok t" by (rule pending_reach_ok [OF assms(1)])
  let ?t = "removeRequestInfo (msg_id msg) t"
  have e: "open_entry ?t a" by (rule removed_entry [OF ok assms(2)])
  then have e': "open_entry (?t\<lparr>posted := p\<rparr>) a" for p by (simp add: open_entry_def)
  have s: "shouldDeferCallback a ?t = shouldDeferCallback a t" "delivered ?t = delivered t" "posted ?t = posted t"
    "map_of (futures ?t) (msg_id msg) = None"
    by (simp_all add: shouldDeferCallback_def removeRequestInfo_def map_of_erase)
  from complete_open(1) [OF e, of msg] complete_open(1) [OF e', of msg] s assms(2) show ?thesis
    by (simp add: completePendingResponse_def removeRequestInfo_expected_def run_posted_def)
qed

theorem response_reaches_its_handler_witness:
  "delivered (run_posted 0 sample_pending) = [(0, sample_reply)]"
proof -
  let ?t = "snd (snd (pendingRequest 0 ''shutdown'' kNone True empty_pending))"
  have r: "pending_reach ?t" by (rule pending_reach.step [OF pending_reach.init pending_step.send])
  have f: "map_of (futures ?t) (msg_id sample_reply) = Some 0" "shouldDeferCallback 0 ?t" "posted ?t = []" "delivered ?t = []"
    by code_simp+
  from response_reaches_its_handler [OF r f(1)] f(2-4) show ?thesis by (simp add: sample_pending_def)
qed

text \<open>Stopping the endpoint leaves nobody waiting in the table: \<^verbatim>\<open>failPendingRequests\<close> empties it and
  calls the handler of every request that was in it, exactly once and in identifier order, with
  an error that carries the request's identifier.\<close>

theorem stop_fails_every_pending_request:
  assumes "pending_reach t"
  shows "futures (failPendingRequests t) = [] \<and>
    delivered (failPendingRequests t) = delivered t @ map (\<lambda>e. (snd e, stopped_message (fst e))) (futures t) \<and>
    sorted_wrt (<) (map fst (futures t))"
  using fail_pending [OF pending_reach_ok [OF assms]] pending_reach_ok [OF assms] by (simp add: pending_ok_def map_ok_def)

theorem stop_fails_every_pending_request_witness:
  "delivered (failPendingRequests (snd (snd (pendingRequest 0 ''x'' (kString ''b'') False empty_pending)))) =
     [(0, stopped_message (kString ''b''))]"
proof -
  let ?t = "snd (snd (pendingRequest 0 ''x'' (kString ''b'') False empty_pending))"
  have r: "pending_reach ?t" by (rule pending_reach.step [OF pending_reach.init pending_step.send])
  have "futures ?t = [(kString ''b'', 0)]" "delivered ?t = []" by code_simp+
  with stop_fails_every_pending_request [OF r] show ?thesis by simp
qed

text \<open>An identifier the endpoint draws itself is not checked against the table: when an
  embedding program has a request pending under the number the counter has reached, a request
  without an identifier takes over its entry, and the first request can never be answered
  (nor failed when the endpoint stops).\<close>

theorem drawn_id_overwrites_pending:
  assumes "pending_reach t" "map_of (futures t) (kInt (sint (m_id t))) = Some a" "limit = 0"
  shows "a \<notin> set (waiting (snd (snd (pendingRequest limit method kNone deferred t)))) \<and>
    \<not> completed (infos (snd (snd (pendingRequest limit method kNone deferred t))) ! a)"
proof -
  let ?i = "kInt (sint (m_id t))"
  have ok: "pending_ok t" by (rule pending_reach_ok [OF assms(1)])
  have a: "a \<in> set (waiting t)" "open_entry t a" "a \<notin> fst ` set (posted t)"
    using map_of_SomeD [OF assms(2)] ok by (force simp: pending_ok_def waiting_def)+
  have "a < length (infos t)" using a(2) by (simp add: open_entry_def)
  have only: "j = ?i" if "(j, a) \<in> set (futures t)" for j
  proof -
    have "(?i, a) \<in> set (futures t)" using map_of_SomeD [OF assms(2)] .
    then show ?thesis using that ok unfolding pending_ok_def waiting_def
      by (metis distinct_append distinct_map inj_on_def snd_conv fst_conv)
  qed
  have "a \<notin> set (map snd (map_set ?i (length (infos t)) (futures t)))"
  proof
    assume "a \<in> set (map snd (map_set ?i (length (infos t)) (futures t)))"
    then obtain j where "(j, a) \<in> set (map_set ?i (length (infos t)) (futures t))" by auto
    moreover have mo: "map_ok (futures t)" using ok by (simp add: pending_ok_def)
    ultimately have "((map_of (futures t))(?i \<mapsto> length (infos t))) j = Some a"
      using map_of_eq_Some [OF map_ok_set [OF mo]] map_of_set [OF mo] by metis
    then show False using \<open>a < length (infos t)\<close> only [of j] map_of_SomeD [of "futures t" j a]
      by (auto split: if_splits)
  qed
  then show ?thesis
    using a \<open>a < length (infos t)\<close> assms(3)
    by (simp add: pendingRequest_def getNextRequestId_def waiting_def open_entry_def nth_append Let_def)
qed

theorem drawn_id_overwrites_pending_witness:
  "0 \<notin> set (waiting (snd (snd (pendingRequest 0 ''b'' kNone False (snd (snd (pendingRequest 0 ''a'' (kInt 0) False empty_pending)))))))"
proof -
  let ?t = "snd (snd (pendingRequest 0 ''a'' (kInt 0) False empty_pending))"
  have r: "pending_reach ?t" by (rule pending_reach.step [OF pending_reach.init pending_step.send])
  have "map_of (futures ?t) (kInt (sint (m_id ?t))) = Some 0" by code_simp
  from drawn_id_overwrites_pending [OF r this refl] show ?thesis by blast
qed

text \<open>A response that arrives while the endpoint is quitting is lost to a deferred call-back: the
  request is taken out of the table before the check, so its handler is called neither with the
  response nor with the error of a stopped endpoint.\<close>

theorem deferred_callback_lost_on_quit:
  assumes "pending_reach t" "map_of (futures t) (msg_id msg) = Some a" "shouldDeferCallback a t"
  shows "a \<notin> fst ` set (delivered (failPendingRequests (completePendingResponse False msg a t))) \<and>
    a \<notin> set (waiting (failPendingRequests (completePendingResponse False msg a t)))"
proof -
  have ok: "pending_ok t" by (rule pending_reach_ok [OF assms(1)])
  let ?t = "removeRequestInfo (msg_id msg) t"
  have eq: "completePendingResponse False msg a t = ?t"
    using assms(2,3) by (simp add: completePendingResponse_def removeRequestInfo_expected_def shouldDeferCallback_def removeRequestInfo_def)
  have ok1: "pending_ok ?t" by (rule removeRequestInfo_ok [OF ok])
  note e = removed_entry [OF ok assms(2)]
  have "a \<notin> fst ` set (delivered ?t)" using ok1 e(1) by (auto simp: pending_ok_def open_entry_def done_entry_def)
  moreover have "a \<notin> set (map snd (futures ?t))" "a \<notin> set (map fst (posted ?t))" using e(2) by (auto simp: waiting_def)
  moreover have "posted (failPendingRequests ?t) = posted ?t"
    by (simp add: failPendingRequests_def fold_complete_posted)
  moreover have "fst ` set (delivered (failPendingRequests ?t)) = fst ` set (delivered ?t) \<union> set (map snd (futures ?t))"
    using fail_pending(3) [OF ok1] by (simp add: image_Un image_image)
  ultimately show ?thesis using fail_pending(2) [OF ok1] unfolding eq waiting_def by simp
qed

theorem deferred_callback_lost_on_quit_witness:
  "0 \<notin> fst ` set (delivered (failPendingRequests (completePendingResponse False sample_reply 0
     (snd (snd (pendingRequest 0 ''shutdown'' kNone True empty_pending))))))"
proof -
  let ?t = "snd (snd (pendingRequest 0 ''shutdown'' kNone True empty_pending))"
  have r: "pending_reach ?t" by (rule pending_reach.step [OF pending_reach.init pending_step.send])
  have "map_of (futures ?t) (msg_id sample_reply) = Some 0" "shouldDeferCallback 0 ?t" by code_simp+
  from deferred_callback_lost_on_quit [OF r this] show ?thesis by blast
qed

end
