(* ===== verification/Request_Cancellation.thy ===== *)
theory Request_Cancellation
  imports Std_Map "HOL-Library.Product_Lexorder"
begin

text \<open>
  Cancellation of incoming requests: \<^verbatim>\<open>src/jsonrpc/RequestCancellation.cpp\<close>, the context chain of
  \<^verbatim>\<open>Context.h\<close>, and the \<^verbatim>\<open>RequestCancellationRegistry\<close> of \<^verbatim>\<open>src/jsonrpc/RemoteEndPoint.cpp\<close> with
  the operations on it.  A cancellation flag is a \<^verbatim>\<open>shared_ptr<atomic<int>>\<close>: an address into
  \<open>flags\<close>.  A canceler is the address it stores its reason to.  The lemmas say when a
  cancellation takes effect, that an identifier that is used again is not hit by an old
  cancellation, that entries stay while they are retained, and what the limits bound.
\<close>

section \<open>Contexts\<close>

text \<open>A context is a chain of keyed values; the innermost value of a key is found first.\<close>

type_synonym 'v context_chain = "(string \<times> 'v) list"

definition Context_empty :: "'v context_chain" where
  "Context_empty = []"

fun Context_get :: "string \<Rightarrow> 'v context_chain \<Rightarrow> 'v option" where
  "Context_get k [] = None"
| "Context_get k ((k', v) # parent) = (if k' = k then Some v else Context_get k parent)"

definition Context_derive :: "string \<Rightarrow> 'v \<Rightarrow> 'v context_chain \<Rightarrow> 'v context_chain" where
  "Context_derive k v ctx = (k, v) # ctx"

text \<open>\<^verbatim>\<open>WithContext\<close>: the current context is replaced for the body and put back at the end.\<close>

definition swapCurrent :: "'v context_chain \<Rightarrow> 'v context_chain \<Rightarrow> 'v context_chain \<times> 'v context_chain" where
  "swapCurrent replacement current = (current, replacement)"

definition with_context ::
  "'v context_chain \<Rightarrow> ('v context_chain \<Rightarrow> 's \<Rightarrow> 's) \<Rightarrow> 'v context_chain \<Rightarrow> 's \<Rightarrow> 'v context_chain \<times> 's" where
  "with_context c work current s =
     (let (restore, cur1) = swapCurrent c current;
          s1 = work cur1 s;
          (_, cur2) = swapCurrent restore cur1
      in (cur2, s1))"

datatype CancelState = CancelState (cancelled: nat) (parent: "CancelState option") (state_id: lsRequestId)

definition cancelStateKey :: string where "cancelStateKey = ''g_cancelStateKey''"

definition RequestCancelled :: int where "RequestCancelled = - 32800"

section \<open>The registry\<close>

type_synonym cookie = "32 word"

record registry =
  requestCancelers :: "(lsRequestId, nat \<times> cookie) std_map"
  pendingCancelRequests :: "(lsRequestId, nat) std_map"
  pendingCancelOrder :: "(lsRequestId \<times> nat) list"
  seenRequestIds :: "(lsRequestId, nat) std_map"
  seenRequestOrder :: "(lsRequestId \<times> nat) list"
  retainedRequestCancelers :: "(lsRequestId \<times> cookie, nat) std_map"
  next_request_cookie :: cookie
  flags :: "int list"

definition empty_registry :: registry where
  "empty_registry =
     \<lparr>requestCancelers = [], pendingCancelRequests = [], pendingCancelOrder = [], seenRequestIds = [],
      seenRequestOrder = [], retainedRequestCancelers = [], next_request_cookie = 0, flags = []\<rparr>"

text \<open>
  \<^verbatim>\<open>prunePendingCancels\<close> and \<^verbatim>\<open>pruneSeenRequests\<close> are the same loop on a map and its insertion
  order.
\<close>

function prune_loop ::
  "nat \<Rightarrow> (lsRequestId, nat) std_map \<Rightarrow> (lsRequestId \<times> nat) list \<Rightarrow> (lsRequestId, nat) std_map \<times> (lsRequestId \<times> nat) list" where
  "prune_loop limit m [] = (m, [])"
| "prune_loop limit m (oldest # order) =
     (if length m > limit then
        prune_loop limit (if map_of m (fst oldest) = Some (snd oldest) then map_erase (fst oldest) m else m) order
      else (m, oldest # order))"
  by pat_completeness auto
termination
  by (relation "measure (\<lambda>(limit, m, order). length order)") auto

definition prune ::
  "nat \<Rightarrow> (lsRequestId, nat) std_map \<Rightarrow> (lsRequestId \<times> nat) list \<Rightarrow> (lsRequestId, nat) std_map \<times> (lsRequestId \<times> nat) list" where
  "prune limit m order = (if limit = 0 then (m, order) else prune_loop limit m order)"

definition prunePendingCancels :: "nat \<Rightarrow> registry \<Rightarrow> registry" where
  "prunePendingCancels limit r =
     (case prune limit (pendingCancelRequests r) (pendingCancelOrder r) of
        (m, order) \<Rightarrow> r\<lparr>pendingCancelRequests := m, pendingCancelOrder := order\<rparr>)"

definition pruneSeenRequests :: "nat \<Rightarrow> registry \<Rightarrow> registry" where
  "pruneSeenRequests limit r =
     (case prune limit (seenRequestIds r) (seenRequestOrder r) of
        (m, order) \<Rightarrow> r\<lparr>seenRequestIds := m, seenRequestOrder := order\<rparr>)"

definition recordPendingCancel :: "lsRequestId \<Rightarrow> nat \<Rightarrow> nat \<Rightarrow> registry \<Rightarrow> registry" where
  "recordPendingCancel i sequence limit r =
     prunePendingCancels limit
       (r\<lparr>pendingCancelRequests := map_set i sequence (pendingCancelRequests r),
          pendingCancelOrder := pendingCancelOrder r @ [(i, sequence)]\<rparr>)"

definition recordSeenRequest :: "lsRequestId \<Rightarrow> nat \<Rightarrow> nat \<Rightarrow> registry \<Rightarrow> registry" where
  "recordSeenRequest i sequence limit r =
     pruneSeenRequests limit
       (r\<lparr>seenRequestIds := map_set i sequence (seenRequestIds r),
          seenRequestOrder := seenRequestOrder r @ [(i, sequence)]\<rparr>)"

text \<open>Invoking a canceler.\<close>

definition invoke_canceler :: "nat \<Rightarrow> registry \<Rightarrow> registry" where
  "invoke_canceler a r = r\<lparr>flags := (flags r)[a := RequestCancelled]\<rparr>"

text \<open>\<^verbatim>\<open>cancelableTask\<close>: a new flag, and the context that carries it.\<close>

definition cancelableTask ::
  "lsRequestId \<Rightarrow> CancelState context_chain \<Rightarrow> registry \<Rightarrow> CancelState context_chain \<times> nat \<times> registry" where
  "cancelableTask i ctx r =
     (let a = length (flags r);
          state = CancelState a (Context_get cancelStateKey ctx) i
      in (Context_derive cancelStateKey state ctx, a, r\<lparr>flags := flags r @ [0]\<rparr>))"

fun find_state :: "lsRequestId \<Rightarrow> CancelState \<Rightarrow> nat option" where
  "find_state i (CancelState a p j) =
     (if i = j then Some a else case p of None \<Rightarrow> None | Some q \<Rightarrow> find_state i q)"

text \<open>The monitor reads the flag; with no cancelable task of that identifier there is none.\<close>

definition getCancelledMonitor :: "lsRequestId \<Rightarrow> CancelState context_chain \<Rightarrow> (registry \<Rightarrow> int) option" where
  "getCancelledMonitor i ctx =
     (case Context_get cancelStateKey ctx of
        None \<Rightarrow> None
      | Some st \<Rightarrow> (case find_state i st of None \<Rightarrow> None | Some a \<Rightarrow> Some (\<lambda>r. flags r ! a)))"

definition cancellationReason :: "(registry \<Rightarrow> int) option \<Rightarrow> registry \<Rightarrow> int" where
  "cancellationReason monitor r = (case monitor of None \<Rightarrow> 0 | Some f \<Rightarrow> f r)"

definition isCancellationRequested :: "(registry \<Rightarrow> int) option \<Rightarrow> registry \<Rightarrow> bool" where
  "isCancellationRequested monitor r \<longleftrightarrow> monitor \<noteq> None \<and> cancellationReason monitor r \<noteq> 0"

text \<open>\<^verbatim>\<open>RemoteEndPoint::getCancelMonitor\<close>: the constant monitor when there is none.\<close>

definition getCancelMonitor :: "lsRequestId \<Rightarrow> CancelState context_chain \<Rightarrow> registry \<Rightarrow> int" where
  "getCancelMonitor i ctx = (case getCancelledMonitor i ctx of None \<Rightarrow> (\<lambda>r. 0) | Some f \<Rightarrow> f)"

definition onCancel :: "nat \<Rightarrow> lsRequestId \<Rightarrow> nat \<Rightarrow> registry \<Rightarrow> registry" where
  "onCancel limit i sequence r =
     (case map_of (requestCancelers r) i of
        Some (a, _) \<Rightarrow> invoke_canceler a r
      | None \<Rightarrow>
          (case map_of (pendingCancelRequests r) i of
             None \<Rightarrow> recordPendingCancel i sequence limit r
           | Some s \<Rightarrow> if s < sequence then recordPendingCancel i sequence limit r else r))"

text \<open>
  \<^verbatim>\<open>cancelableRequestContext\<close>: registers the canceler, consumes a pending cancellation and
  records the identifier as seen.  The result is the context to run the request in and the
  cookie that the clean-up at the end of the request compares.
\<close>

definition cancelableRequestContext ::
  "nat \<Rightarrow> lsRequestId \<Rightarrow> nat \<Rightarrow> CancelState context_chain \<Rightarrow> registry \<Rightarrow>
     CancelState context_chain \<times> cookie \<times> registry" where
  "cancelableRequestContext limit i sequence ctx r0 =
     (let (ctx1, a, r) = cancelableTask i ctx r0;
          cookie = next_request_cookie r;
          r1 = r\<lparr>next_request_cookie := cookie + 1, requestCancelers := map_set i (a, cookie) (requestCancelers r)\<rparr>;
          pending = map_of (pendingCancelRequests r1) i;
          should_cancel = (case pending of
              None \<Rightarrow> False
            | Some s \<Rightarrow> map_of (seenRequestIds r1) i = None \<or> s > sequence);
          r2 = (if pending \<noteq> None then r1\<lparr>pendingCancelRequests := map_erase i (pendingCancelRequests r1)\<rparr> else r1);
          r3 = recordSeenRequest i sequence limit r2;
          r4 = (if should_cancel then invoke_canceler a r3 else r3)
      in (ctx1, cookie, r4))"

text \<open>Erasing the canceler of an identifier if it still has the cookie.\<close>

definition erase_canceler :: "lsRequestId \<Rightarrow> cookie \<Rightarrow> registry \<Rightarrow> registry" where
  "erase_canceler i ck r =
     (case map_of (requestCancelers r) i of
        Some (a, ck') \<Rightarrow> if ck' = ck then r\<lparr>requestCancelers := map_erase i (requestCancelers r)\<rparr> else r
      | None \<Rightarrow> r)"

text \<open>The scope exit that runs when the request's context ends.\<close>

definition request_scope_exit :: "lsRequestId \<Rightarrow> cookie \<Rightarrow> registry \<Rightarrow> registry" where
  "request_scope_exit i ck r =
     (if map_of (retainedRequestCancelers r) (i, ck) \<noteq> None then r else erase_canceler i ck r)"

definition retainRequestCancellation :: "lsRequestId \<Rightarrow> registry \<Rightarrow> (lsRequestId \<times> cookie) option \<times> registry" where
  "retainRequestCancellation i r =
     (case map_of (requestCancelers r) i of
        None \<Rightarrow> (None, r)
      | Some (a, ck) \<Rightarrow>
          let n = (case map_of (retainedRequestCancelers r) (i, ck) of None \<Rightarrow> 0 | Some n \<Rightarrow> n)
          in (Some (i, ck), r\<lparr>retainedRequestCancelers := map_set (i, ck) (n + 1) (retainedRequestCancelers r)\<rparr>))"

text \<open>The deleter of the pointer that \<^verbatim>\<open>retainRequestCancellation\<close> returns.\<close>

definition release_retained :: "lsRequestId \<times> cookie \<Rightarrow> registry \<Rightarrow> registry" where
  "release_retained key r =
     (case map_of (retainedRequestCancelers r) key of
        Some n \<Rightarrow>
          if n - 1 \<noteq> 0 then r\<lparr>retainedRequestCancelers := map_set key (n - 1) (retainedRequestCancelers r)\<rparr>
          else erase_canceler (fst key) (snd key)
                 (r\<lparr>retainedRequestCancelers := map_erase key (retainedRequestCancelers r)\<rparr>)
      | None \<Rightarrow> erase_canceler (fst key) (snd key) r)"

text \<open>The part of \<^verbatim>\<open>Data::clear\<close> on the registry: all entries go, then every canceler is invoked.\<close>

definition clear_registry :: "registry \<Rightarrow> registry" where
  "clear_registry r =
     fold (\<lambda>e. invoke_canceler (fst (snd e))) (requestCancelers r)
       (r\<lparr>requestCancelers := [], retainedRequestCancelers := [], pendingCancelRequests := [], pendingCancelOrder := [],
          seenRequestIds := [], seenRequestOrder := []\<rparr>)"

section \<open>The invariant\<close>

text \<open>
  A map and its insertion order: every entry is listed, so pruning can always find an entry to
  drop.
\<close>

definition listed :: "(lsRequestId, nat) std_map \<Rightarrow> (lsRequestId \<times> nat) list \<Rightarrow> bool" where
  "listed m order \<longleftrightarrow> map_ok m \<and> set m \<subseteq> set order"

definition registry_ok :: "registry \<Rightarrow> bool" where
  "registry_ok r \<longleftrightarrow>
     map_ok (requestCancelers r) \<and> map_ok (retainedRequestCancelers r) \<and>
     listed (pendingCancelRequests r) (pendingCancelOrder r) \<and> listed (seenRequestIds r) (seenRequestOrder r) \<and>
     (\<forall>i a ck. map_of (requestCancelers r) i = Some (a, ck) \<longrightarrow> a < length (flags r)) \<and>
     (\<forall>i j a ck ck'. map_of (requestCancelers r) i = Some (a, ck) \<longrightarrow>
        map_of (requestCancelers r) j = Some (a, ck') \<longrightarrow> i = j)"

definition within :: "nat \<Rightarrow> ('k, 'v) std_map \<Rightarrow> bool" where
  "within limit m \<longleftrightarrow> limit = 0 \<or> length m \<le> limit"

lemma set_map_erase: "set (map_erase k m) \<subseteq> set m"
  by (auto simp: map_erase_def)

lemma listed_erase: "listed m order \<Longrightarrow> listed (map_erase k m) order"
  using set_map_erase by (fastforce simp: listed_def map_ok_erase)

lemma listed_set: "listed m order \<Longrightarrow> listed (map_set k v m) (order @ [(k, v)])"
proof -
  assume l: "listed m order"
  have "set (map_set k v m) \<subseteq> insert (k, v) (set m)" by (induction k v m rule: map_set.induct) auto
  with l show ?thesis by (auto simp: listed_def map_ok_set)
qed

lemma prune_loop_bound:
  "listed m order \<Longrightarrow> prune_loop limit m order = (m', order') \<Longrightarrow>
     listed m' order' \<and> length m' \<le> limit \<and> set m' \<subseteq> set m"
proof (induction limit m order rule: prune_loop.induct)
  case (1 limit m)
  then show ?case by (auto simp: listed_def)
next
  case (2 limit m oldest order)
  show ?case
  proof (cases "length m > limit")
    case False
    with 2 show ?thesis by auto
  next
    case True
    define m1 where "m1 = (if map_of m (fst oldest) = Some (snd oldest) then map_erase (fst oldest) m else m)"
    have ok: "map_ok m" using 2(2) by (simp add: listed_def)
    have "oldest \<notin> set m1"
      using map_of_eq_Some [OF ok, of "fst oldest" "snd oldest"] by (auto simp: m1_def map_erase_def)
    moreover have sub: "set m1 \<subseteq> set m" using set_map_erase [of "fst oldest" m] by (simp add: m1_def)
    moreover have "map_ok m1" using ok by (simp add: m1_def map_ok_erase)
    ultimately have "listed m1 order" using 2(2) by (auto simp: listed_def)
    with 2 True sub show ?thesis by (auto simp: m1_def [symmetric])
  qed
qed

lemma prune_bound:
  assumes "listed m order" "prune limit m order = (m', order')"
  shows "listed m' order' \<and> within limit m'"
  using prune_loop_bound [OF assms(1), of limit m' order'] assms
  by (cases "limit = 0") (auto simp: prune_def within_def)

text \<open>A pruned entry is gone, every other one is as it was.\<close>

lemma recordSeen_simps [simp]:
  "requestCancelers (recordSeenRequest i s l r) = requestCancelers r"
  "pendingCancelRequests (recordSeenRequest i s l r) = pendingCancelRequests r"
  "pendingCancelOrder (recordSeenRequest i s l r) = pendingCancelOrder r"
  "retainedRequestCancelers (recordSeenRequest i s l r) = retainedRequestCancelers r"
  "next_request_cookie (recordSeenRequest i s l r) = next_request_cookie r"
  "flags (recordSeenRequest i s l r) = flags r"
  by (simp_all add: recordSeenRequest_def pruneSeenRequests_def split: prod.splits)

lemma recordPending_simps [simp]:
  "requestCancelers (recordPendingCancel i s l r) = requestCancelers r"
  "seenRequestIds (recordPendingCancel i s l r) = seenRequestIds r"
  "seenRequestOrder (recordPendingCancel i s l r) = seenRequestOrder r"
  "retainedRequestCancelers (recordPendingCancel i s l r) = retainedRequestCancelers r"
  "next_request_cookie (recordPendingCancel i s l r) = next_request_cookie r"
  "flags (recordPendingCancel i s l r) = flags r"
  by (simp_all add: recordPendingCancel_def prunePendingCancels_def split: prod.splits)

lemma invoke_simps [simp]:
  "requestCancelers (invoke_canceler a r) = requestCancelers r"
  "pendingCancelRequests (invoke_canceler a r) = pendingCancelRequests r"
  "pendingCancelOrder (invoke_canceler a r) = pendingCancelOrder r"
  "seenRequestIds (invoke_canceler a r) = seenRequestIds r"
  "seenRequestOrder (invoke_canceler a r) = seenRequestOrder r"
  "retainedRequestCancelers (invoke_canceler a r) = retainedRequestCancelers r"
  "next_request_cookie (invoke_canceler a r) = next_request_cookie r"
  "flags (invoke_canceler a r) = (flags r)[a := RequestCancelled]"
  by (simp_all add: invoke_canceler_def)

lemma recordSeen_ok:
  assumes "registry_ok r"
  shows "registry_ok (recordSeenRequest i s l r) \<and> within l (seenRequestIds (recordSeenRequest i s l r))"
proof -
  have "listed (map_set i s (seenRequestIds r)) (seenRequestOrder r @ [(i, s)])"
    using assms by (simp add: registry_ok_def listed_set)
  from prune_bound [OF this, of l] assms show ?thesis
    by (simp add: recordSeenRequest_def pruneSeenRequests_def registry_ok_def split: prod.splits)
qed

lemma recordPending_ok:
  assumes "registry_ok r"
  shows "registry_ok (recordPendingCancel i s l r) \<and> within l (pendingCancelRequests (recordPendingCancel i s l r))"
proof -
  have "listed (map_set i s (pendingCancelRequests r)) (pendingCancelOrder r @ [(i, s)])"
    using assms by (simp add: registry_ok_def listed_set)
  from prune_bound [OF this, of l] assms show ?thesis
    by (simp add: recordPendingCancel_def prunePendingCancels_def registry_ok_def split: prod.splits)
qed

lemma within_erase: "within l m \<Longrightarrow> within l (map_erase k m)"
  using order_trans [OF length_filter_le [of "\<lambda>p. fst p \<noteq> k" m]] by (auto simp: within_def map_erase_def)

lemma map_of_erase_SomeD: "map_of (map_erase k m) j = Some v \<Longrightarrow> j \<noteq> k \<and> map_of m j = Some v"
  by (simp add: map_of_erase split: if_splits)

lemma erase_canceler_ok: "registry_ok r \<Longrightarrow> registry_ok (erase_canceler i ck r)"
  by (auto simp: erase_canceler_def registry_ok_def map_ok_erase split: option.splits dest!: map_of_erase_SomeD)

lemma erase_canceler_simps [simp]:
  "pendingCancelRequests (erase_canceler i ck r) = pendingCancelRequests r"
  "seenRequestIds (erase_canceler i ck r) = seenRequestIds r"
  "retainedRequestCancelers (erase_canceler i ck r) = retainedRequestCancelers r"
  "flags (erase_canceler i ck r) = flags r"
  by (auto simp: erase_canceler_def split: option.splits)

text \<open>What \<^const>\<open>cancelableRequestContext\<close> does to each field.\<close>

definition cancels_now :: "registry \<Rightarrow> lsRequestId \<Rightarrow> nat \<Rightarrow> bool" where
  "cancels_now r i sequence \<longleftrightarrow>
     (\<exists>s. map_of (pendingCancelRequests r) i = Some s \<and> (map_of (seenRequestIds r) i = None \<or> sequence < s))"

lemma cancelableRequestContext_simps:
  assumes "cancelableRequestContext limit i sequence ctx r = (ctx1, ck, r')"
  shows "ctx1 = (cancelStateKey, CancelState (length (flags r)) (Context_get cancelStateKey ctx) i) # ctx"
    and "ck = next_request_cookie r" and "next_request_cookie r' = next_request_cookie r + 1"
    and "requestCancelers r' = map_set i (length (flags r), ck) (requestCancelers r)"
    and "pendingCancelRequests r' = (if map_of (pendingCancelRequests r) i = None then pendingCancelRequests r
           else map_erase i (pendingCancelRequests r))"
    and "retainedRequestCancelers r' = retainedRequestCancelers r"
    and "flags r' = flags r @ [if cancels_now r i sequence then RequestCancelled else 0]"
  using assms
  by (auto simp: cancelableRequestContext_def cancelableTask_def Context_derive_def Let_def cancels_now_def
      split: option.splits if_splits)

lemma cancelableRequestContext_ok:
  assumes ok: "registry_ok r" and begin_eq: "cancelableRequestContext limit i sequence ctx r = (ctx1, ck, r')"
  shows "registry_ok r' \<and> within limit (seenRequestIds r')"
proof -
  define r2 where "r2 = r\<lparr>flags := flags r @ [0], next_request_cookie := next_request_cookie r + 1,
      requestCancelers := map_set i (length (flags r), next_request_cookie r) (requestCancelers r),
      pendingCancelRequests := pendingCancelRequests r'\<rparr>"
  note s = cancelableRequestContext_simps [OF begin_eq]
  have r': "r' = (if cancels_now r i sequence then invoke_canceler (length (flags r)) (recordSeenRequest i sequence limit r2)
      else recordSeenRequest i sequence limit r2)"
    using begin_eq unfolding r2_def
    by (auto simp: cancelableRequestContext_def cancelableTask_def Let_def cancels_now_def split: option.splits if_splits)
  have "registry_ok r2"
    using ok by (auto simp: registry_ok_def r2_def s(5) map_ok_set map_of_set listed_erase less_SucI split: if_splits)
  then have "registry_ok (recordSeenRequest i sequence limit r2)" "within limit (seenRequestIds (recordSeenRequest i sequence limit r2))"
    using recordSeen_ok by blast+
  then show ?thesis unfolding r' by (simp add: registry_ok_def)
qed

lemma onCancel_ok:
  assumes "registry_ok r"
  shows "registry_ok (onCancel limit i s r)"
  using assms recordPending_ok [OF assms, of i s limit]
  by (auto simp: onCancel_def registry_ok_def split: option.splits)

lemma retain_ok: "registry_ok r \<Longrightarrow> registry_ok (snd (retainRequestCancellation i r))"
  by (auto simp: retainRequestCancellation_def registry_ok_def map_ok_set Let_def split: option.splits)

lemma release_ok: "registry_ok r \<Longrightarrow> registry_ok (release_retained key r)"
proof -
  assume ok: "registry_ok r"
  then have "registry_ok (r\<lparr>retainedRequestCancelers := map_erase key (retainedRequestCancelers r)\<rparr>)"
    "registry_ok (r\<lparr>retainedRequestCancelers := map_set key n (retainedRequestCancelers r)\<rparr>)" for n
    by (auto simp: registry_ok_def map_ok_erase map_ok_set)
  with ok show ?thesis by (auto simp: release_retained_def erase_canceler_ok split: option.splits)
qed

lemma scope_exit_ok: "registry_ok r \<Longrightarrow> registry_ok (request_scope_exit i ck r)"
  by (simp add: request_scope_exit_def erase_canceler_ok)

lemma fold_invoke_simps [simp]:
  "requestCancelers (fold (\<lambda>e. invoke_canceler (fst (snd e))) es r) = requestCancelers r"
  "pendingCancelRequests (fold (\<lambda>e. invoke_canceler (fst (snd e))) es r) = pendingCancelRequests r"
  "pendingCancelOrder (fold (\<lambda>e. invoke_canceler (fst (snd e))) es r) = pendingCancelOrder r"
  "seenRequestIds (fold (\<lambda>e. invoke_canceler (fst (snd e))) es r) = seenRequestIds r"
  "seenRequestOrder (fold (\<lambda>e. invoke_canceler (fst (snd e))) es r) = seenRequestOrder r"
  "retainedRequestCancelers (fold (\<lambda>e. invoke_canceler (fst (snd e))) es r) = retainedRequestCancelers r"
  "length (flags (fold (\<lambda>e. invoke_canceler (fst (snd e))) es r)) = length (flags r)"
  by (induction es arbitrary: r) simp_all

lemma clear_ok: "registry_ok (clear_registry r)"
  by (simp add: clear_registry_def registry_ok_def listed_def)

section \<open>Histories\<close>

text \<open>
  The steps of a registry whose limits are \<open>pl\<close> (pending cancellations) and \<open>sl\<close> (identifiers
  seen): each holds the registry's mutex, so they happen one after another, in any order.
\<close>

inductive registry_step :: "nat \<Rightarrow> nat \<Rightarrow> registry \<Rightarrow> registry \<Rightarrow> bool" for pl sl where
  cancel: "registry_step pl sl r (onCancel pl i s r)"
| begin_request: "cancelableRequestContext sl i s ctx r = (ctx1, ck, r') \<Longrightarrow> registry_step pl sl r r'"
| scope_exit: "registry_step pl sl r (request_scope_exit i ck r)"
| retain: "registry_step pl sl r (snd (retainRequestCancellation i r))"
| release: "registry_step pl sl r (release_retained key r)"
| clear: "registry_step pl sl r (clear_registry r)"

inductive_cases registry_stepE: "registry_step pl sl r r'"

inductive registry_reach :: "nat \<Rightarrow> nat \<Rightarrow> registry \<Rightarrow> bool" for pl sl where
  init: "registry_reach pl sl empty_registry"
| step: "registry_reach pl sl r \<Longrightarrow> registry_step pl sl r r' \<Longrightarrow> registry_reach pl sl r'"

lemma registry_step_ok:
  assumes "registry_step pl sl r r'" "registry_ok r" "within pl (pendingCancelRequests r)" "within sl (seenRequestIds r)"
  shows "registry_ok r' \<and> within pl (pendingCancelRequests r') \<and> within sl (seenRequestIds r')"
  using assms(1)
proof (cases rule: registry_step.cases)
  case (cancel i s)
  then show ?thesis using assms onCancel_ok recordPending_ok [of r i s pl]
    by (auto simp: onCancel_def split: option.splits)
next
  case (begin_request i s ctx ctx1 ck)
  then show ?thesis
    using cancelableRequestContext_ok [OF assms(2)] cancelableRequestContext_simps(5) [of sl i s ctx r ctx1 ck r'] assms(3)
    by (auto simp: within_erase)
next
  case (scope_exit i ck)
  then show ?thesis using assms scope_exit_ok by (simp add: request_scope_exit_def)
next
  case (retain i)
  then show ?thesis using assms retain_ok [OF assms(2), of i]
    by (auto simp: retainRequestCancellation_def Let_def split: option.splits)
next
  case (release key)
  then show ?thesis using assms release_ok [OF assms(2), of key]
    by (auto simp: release_retained_def split: option.splits)
next
  case clear
  then show ?thesis using clear_ok by (simp add: clear_registry_def within_def)
qed

lemma registry_reach_ok:
  "registry_reach pl sl r \<Longrightarrow>
     registry_ok r \<and> within pl (pendingCancelRequests r) \<and> within sl (seenRequestIds r)"
proof (induction rule: registry_reach.induct)
  case init
  then show ?case by (simp add: empty_registry_def registry_ok_def listed_def within_def)
next
  case (step r r')
  then show ?case using registry_step_ok by blast
qed

text \<open>A flag that is set stays set.\<close>

lemma nth_update_sticky: "xs ! a = v \<Longrightarrow> xs[b := v] ! a = v"
  by (metis list_update_id nth_list_update_neq)

lemma fold_invoke_sticky:
  "a < length (flags r) \<Longrightarrow> flags r ! a = RequestCancelled \<Longrightarrow>
     flags (fold (\<lambda>e. invoke_canceler (fst (snd e))) es r) ! a = RequestCancelled"
  by (induction es arbitrary: r) (simp_all add: nth_update_sticky)

lemma flags_sticky:
  assumes "registry_step pl sl r r'" "a < length (flags r)" "flags r ! a = RequestCancelled"
  shows "a < length (flags r') \<and> flags r' ! a = RequestCancelled"
  using assms(1)
proof (cases rule: registry_step.cases)
  case (begin_request i s ctx ctx1 ck)
  then show ?thesis using cancelableRequestContext_simps(7) [of sl i s ctx r ctx1 ck r'] assms(2,3)
    by (simp add: nth_append)
next
  case clear
  then show ?thesis using assms(2,3) by (simp add: clear_registry_def fold_invoke_sticky)
qed (use assms(2,3) in
    \<open>auto simp: onCancel_def request_scope_exit_def retainRequestCancellation_def release_retained_def
      Let_def nth_update_sticky split: option.splits\<close>)

section \<open>Properties\<close>

text \<open>In every history of the registry the two bounded maps respect their limits, every
  canceler points to its own flag, and no two requests share one.\<close>

theorem registry_bounded:
  assumes "registry_reach pl sl r"
  shows "within pl (pendingCancelRequests r) \<and> within sl (seenRequestIds r) \<and>
    (\<forall>i j a ck ck'. map_of (requestCancelers r) i = Some (a, ck) \<longrightarrow> a < length (flags r) \<and>
       (map_of (requestCancelers r) j = Some (a, ck') \<longrightarrow> i = j))"
  using registry_reach_ok [OF assms] by (auto simp: registry_ok_def)

definition sample_registry :: registry where
  "sample_registry = onCancel 2 (kInt 8) 4 (snd (snd (cancelableRequestContext 2 (kInt 7) 3 [] (onCancel 2 (kInt 7) 2 empty_registry))))"

lemma sample_registry_reach: "registry_reach 2 2 sample_registry"
proof -
  let ?r = "onCancel 2 (kInt 7) 2 empty_registry"
  obtain c k r where r: "cancelableRequestContext 2 (kInt 7) 3 [] ?r = (c, k, r)" by (metis prod_cases3)
  have "registry_reach 2 2 ?r" by (rule registry_reach.step [OF registry_reach.init registry_step.cancel])
  then have "registry_reach 2 2 r" by (rule registry_reach.step) (rule registry_step.begin_request [OF r])
  then have "registry_reach 2 2 (onCancel 2 (kInt 8) 4 r)" by (rule registry_reach.step) (rule registry_step.cancel)
  then show ?thesis by (simp add: sample_registry_def r)
qed

theorem registry_bounded_witness:
  "within 2 (pendingCancelRequests sample_registry) \<and> within 2 (seenRequestIds sample_registry) \<and>
    pendingCancelRequests sample_registry = [(kInt 8, 4)] \<and> flags sample_registry = [RequestCancelled]"
proof -
  have "pendingCancelRequests sample_registry = [(kInt 8, 4)]" "flags sample_registry = [RequestCancelled]" by code_simp+
  with registry_bounded [OF sample_registry_reach] show ?thesis by blast
qed

text \<open>When a request starts, the monitor its handler sees is set at once exactly when a
  cancellation of its identifier is waiting and either the identifier is new or the
  cancellation came after this request on the wire; a cancellation meant for an earlier request
  with the same identifier does not hit it.  The waiting cancellation is consumed either way.\<close>

theorem cancelled_at_start_iff:
  assumes "cancelableRequestContext limit i sequence ctx r = (ctx1, ck, r')"
  shows "getCancelMonitor i ctx1 r' = (if cancels_now r i sequence then RequestCancelled else 0) \<and>
    map_of (pendingCancelRequests r') i = None"
  using cancelableRequestContext_simps [OF assms]
  by (auto simp: getCancelMonitor_def getCancelledMonitor_def nth_append map_of_erase)

theorem cancelled_at_start_iff_witness:
  "getCancelMonitor (kInt 7) (fst (cancelableRequestContext 2 (kInt 7) 3 [] (onCancel 2 (kInt 7) 2 empty_registry)))
     (snd (snd (cancelableRequestContext 2 (kInt 7) 3 [] (onCancel 2 (kInt 7) 2 empty_registry)))) = RequestCancelled"
proof -
  let ?r = "onCancel 2 (kInt 7) 2 empty_registry"
  obtain c k r where r: "cancelableRequestContext 2 (kInt 7) 3 [] ?r = (c, k, r)" by (metis prod_cases3)
  have "pendingCancelRequests ?r = [(kInt 7, 2)]" "seenRequestIds ?r = []" by code_simp+
  then have "cancels_now ?r (kInt 7) 3" by (simp add: cancels_now_def)
  with cancelled_at_start_iff [OF r] show ?thesis by (simp add: r)
qed

lemma flags_sticky_steps:
  assumes "(registry_step pl sl)\<^sup>*\<^sup>* r r'" "a < length (flags r)" "flags r ! a = RequestCancelled"
  shows "a < length (flags r') \<and> flags r' ! a = RequestCancelled"
  using assms by (induction rule: rtranclp_induct) (use flags_sticky in blast)+

lemma registry_steps_ok: "(registry_step pl sl)\<^sup>*\<^sup>* r r' \<Longrightarrow> registry_reach pl sl r \<Longrightarrow> registry_ok r'"
proof -
  assume "(registry_step pl sl)\<^sup>*\<^sup>* r r'" "registry_reach pl sl r"
  then have "registry_reach pl sl r'" by (induction rule: rtranclp_induct) (auto intro: registry_reach.step)
  then show "registry_ok r'" using registry_reach_ok by blast
qed

text \<open>The flag that the monitor of a request reads, given the context it was begun in.\<close>

definition monitored_flag :: "lsRequestId \<Rightarrow> CancelState context_chain \<Rightarrow> nat option" where
  "monitored_flag i ctx = (case Context_get cancelStateKey ctx of None \<Rightarrow> None | Some st \<Rightarrow> find_state i st)"

lemma getCancelMonitor_flag:
  "getCancelMonitor i ctx r = (case monitored_flag i ctx of None \<Rightarrow> 0 | Some a \<Rightarrow> flags r ! a)"
  by (simp add: getCancelMonitor_def getCancelledMonitor_def monitored_flag_def split: option.splits)

lemma begun_flag:
  assumes "cancelableRequestContext limit i sequence ctx r = (ctx1, ck, r')"
  shows "monitored_flag i ctx1 = Some (length (flags r))" "length (flags r') = Suc (length (flags r))"
  using cancelableRequestContext_simps [OF assms] by (simp_all add: monitored_flag_def)

text \<open>C16: A running request can be cancelled until it ends.  A request begins, which gives the context its handler runs in; whatever the registry does meanwhile, as long as
  its identifier still has the canceler that was registered at the beginning (it has not ended, the endpoint was not stopped, and no later request
  took over the identifier), a cancellation notification makes the monitor of the handler return the reason, and it does so in every later
  state; no other registered request is affected by the notification.\<close>

theorem cancel_reaches_running_request:
  assumes "registry_reach pl sl r" "cancelableRequestContext sl i sequence ctx r = (ctx1, ck, r1)"
    and "(registry_step pl sl)\<^sup>*\<^sup>* r1 r2" "map_of (requestCancelers r2) i = map_of (requestCancelers r1) i"
    and "(registry_step pl sl)\<^sup>*\<^sup>* (onCancel pl i s r2) r3"
  shows "getCancelMonitor i ctx1 r3 = RequestCancelled \<and>
    (\<forall>j b ck'. map_of (requestCancelers r2) j = Some (b, ck') \<longrightarrow> j \<noteq> i \<longrightarrow> flags (onCancel pl i s r2) ! b = flags r2 ! b)"
proof -
  let ?a = "length (flags r)"
  have "registry_reach pl sl r1" using registry_reach.step [OF assms(1) registry_step.begin_request [OF assms(2)]] .
  then have ok: "registry_ok r" "registry_ok r2" using registry_reach_ok [OF assms(1)] registry_steps_ok [OF assms(3)] by blast+
  have m: "map_of (requestCancelers r2) i = Some (?a, ck)"
    using assms(4) cancelableRequestContext_simps(4) [OF assms(2)] ok(1) by (simp add: registry_ok_def map_of_set)
  then have eq: "onCancel pl i s r2 = invoke_canceler ?a r2" by (simp add: onCancel_def)
  have a: "?a < length (flags r2)" "\<And>j b ck'. map_of (requestCancelers r2) j = Some (b, ck') \<Longrightarrow> j \<noteq> i \<Longrightarrow> b \<noteq> ?a"
    using ok(2) m unfolding registry_ok_def by blast+
  then have "flags r3 ! ?a = RequestCancelled" using flags_sticky_steps [OF assms(5), of ?a] by (simp add: eq)
  then have "getCancelMonitor i ctx1 r3 = RequestCancelled" by (simp add: getCancelMonitor_flag begun_flag(1) [OF assms(2)])
  moreover have "flags (onCancel pl i s r2) ! b = flags r2 ! b"
    if "map_of (requestCancelers r2) j = Some (b, ck')" "j \<noteq> i" for j b ck'
    using a(2) [OF that] by (simp add: eq)
  ultimately show ?thesis by blast
qed

theorem cancel_reaches_running_request_witness:
  "\<exists>ctx ck r1. cancelableRequestContext 2 (kInt 9) 5 [] sample_registry = (ctx, ck, r1) \<and> getCancelMonitor (kInt 9) ctx r1 = 0 \<and>
     getCancelMonitor (kInt 9) ctx (request_scope_exit (kInt 9) ck (onCancel 2 (kInt 9) 6 (request_scope_exit (kInt 7) 0 r1))) = RequestCancelled"
proof -
  obtain ctx ck r1 where c: "cancelableRequestContext 2 (kInt 9) 5 [] sample_registry = (ctx, ck, r1)" by (metis prod_cases3)
  let ?r2 = "request_scope_exit (kInt 7) 0 r1"
  have "map_of (pendingCancelRequests sample_registry) (kInt 9) = None" by code_simp
  then have "getCancelMonitor (kInt 9) ctx r1 = 0" using cancelled_at_start_iff [OF c] by (simp add: cancels_now_def)
  moreover have "(registry_step 2 2)\<^sup>*\<^sup>* r1 ?r2" by (blast intro: registry_step.scope_exit)
  moreover have "map_of (requestCancelers ?r2) (kInt 9) = map_of (requestCancelers r1) (kInt 9)"
    by (auto simp: request_scope_exit_def erase_canceler_def map_of_erase split: option.splits)
  moreover have "(registry_step 2 2)\<^sup>*\<^sup>* r (request_scope_exit (kInt 9) ck r)" for r by (blast intro: registry_step.scope_exit)
  ultimately show ?thesis using c cancel_reaches_running_request [OF sample_registry_reach c] by (intro exI conjI) auto
qed

text \<open>Clean-up by cookie: the end of a request removes its canceler exactly when nothing
  retains it and no later request has taken over the identifier; other identifiers are never
  affected.\<close>

theorem scope_exit_removes_own:
  "map_of (requestCancelers (request_scope_exit i ck r)) =
     (if map_of (retainedRequestCancelers r) (i, ck) = None \<and> (\<exists>a. map_of (requestCancelers r) i = Some (a, ck))
      then (map_of (requestCancelers r))(i := None) else map_of (requestCancelers r))"
  by (auto simp: request_scope_exit_def erase_canceler_def map_of_erase split: option.splits)

lemma release_last:
  assumes "map_of (requestCancelers r) i = Some (a, ck)" "map_of (retainedRequestCancelers r) (i, ck) = Some 1"
  shows "map_of (requestCancelers (release_retained (i, ck) r)) i = None"
  using assms by (simp add: release_retained_def erase_canceler_def map_of_erase)

lemma release_more:
  assumes "registry_ok r" "map_of (retainedRequestCancelers r) (i, ck) = Some (Suc (Suc n))"
  shows "requestCancelers (release_retained (i, ck) r) = requestCancelers r"
    and "map_of (retainedRequestCancelers (release_retained (i, ck) r)) (i, ck) = Some (Suc n)"
  using assms by (simp_all add: release_retained_def registry_ok_def map_of_set)

lemma retain_more:
  assumes "registry_ok r" "map_of (requestCancelers r) i = Some (a, ck)"
  shows "requestCancelers (snd (retainRequestCancellation i r)) = requestCancelers r"
    and "map_of (retainedRequestCancelers (snd (retainRequestCancellation i r))) (i, ck) =
         Some (Suc (case map_of (retainedRequestCancelers r) (i, ck) of None \<Rightarrow> 0 | Some n \<Rightarrow> n))"
  using assms by (simp_all add: retainRequestCancellation_def registry_ok_def map_of_set Let_def)

definition retains :: "nat \<Rightarrow> lsRequestId \<Rightarrow> registry \<Rightarrow> registry" where
  "retains n i r = ((\<lambda>q. snd (retainRequestCancellation i q)) ^^ n) r"

definition releases :: "nat \<Rightarrow> lsRequestId \<times> cookie \<Rightarrow> registry \<Rightarrow> registry" where
  "releases n key r = (release_retained key ^^ n) r"

lemma retains_count:
  assumes "registry_ok r" "map_of (requestCancelers r) i = Some (a, ck)" "map_of (retainedRequestCancelers r) (i, ck) = None"
  shows "registry_ok (retains n i r) \<and> requestCancelers (retains n i r) = requestCancelers r \<and>
    map_of (retainedRequestCancelers (retains n i r)) (i, ck) = (if n = 0 then None else Some n)"
proof (induction n)
  case 0
  then show ?case using assms by (simp add: retains_def)
next
  case (Suc n)
  have "retains (Suc n) i r = snd (retainRequestCancellation i (retains n i r))" by (simp add: retains_def)
  with Suc assms retain_ok [of "retains n i r" i] retain_more [of "retains n i r" i a ck] show ?case by simp
qed

lemma releases_count:
  assumes "registry_ok r" "map_of (retainedRequestCancelers r) (i, ck) = Some (Suc (n + k))"
  shows "registry_ok (releases n (i, ck) r) \<and> requestCancelers (releases n (i, ck) r) = requestCancelers r \<and>
    map_of (retainedRequestCancelers (releases n (i, ck) r)) (i, ck) = Some (Suc k)"
  using assms(2)
proof (induction n arbitrary: k)
  case 0
  then show ?case using assms(1) by (simp add: releases_def)
next
  case (Suc n)
  have "releases (Suc n) (i, ck) r = release_retained (i, ck) (releases n (i, ck) r)" by (simp add: releases_def)
  with Suc.IH [of "Suc k"] Suc.prems release_ok release_more [of "releases n (i, ck) r" i ck k] show ?case by simp
qed

text \<open>Retaining a running request \<open>n + 1\<close> times keeps its canceler registered through the end of
  the request and through \<open>n\<close> releases; the last release removes it.\<close>

theorem retained_until_last_release:
  assumes "registry_ok r" "map_of (requestCancelers r) i = Some (a, ck)" "map_of (retainedRequestCancelers r) (i, ck) = None"
  shows "map_of (requestCancelers (releases n (i, ck) (request_scope_exit i ck (retains (n + 1) i r)))) i = Some (a, ck) \<and>
    map_of (requestCancelers (releases (n + 1) (i, ck) (request_scope_exit i ck (retains (n + 1) i r)))) i = None"
proof -
  note c = retains_count [OF assms, of "n + 1"]
  have ex: "request_scope_exit i ck (retains (n + 1) i r) = retains (n + 1) i r"
    using c by (simp add: request_scope_exit_def)
  have rel: "registry_ok (releases n (i, ck) (retains (n + 1) i r))"
    "requestCancelers (releases n (i, ck) (retains (n + 1) i r)) = requestCancelers r"
    "map_of (retainedRequestCancelers (releases n (i, ck) (retains (n + 1) i r))) (i, ck) = Some (Suc 0)"
    using releases_count [of "retains (n + 1) i r" i ck n 0] c by auto
  moreover have "releases (n + 1) (i, ck) x = release_retained (i, ck) (releases n (i, ck) x)" for x
    by (simp add: releases_def)
  ultimately show ?thesis using assms(2) release_last [of "releases n (i, ck) (retains (n + 1) i r)" i a ck] unfolding ex by simp
qed

theorem retained_until_last_release_witness:
  "map_of (requestCancelers (releases 1 (kInt 7, 0) (request_scope_exit (kInt 7) 0 (retains (1 + 1) (kInt 7) sample_registry)))) (kInt 7) =
     Some (0, 0) \<and>
   map_of (requestCancelers (releases (1 + 1) (kInt 7, 0) (request_scope_exit (kInt 7) 0 (retains (1 + 1) (kInt 7) sample_registry)))) (kInt 7) =
     None"
proof (rule retained_until_last_release)
  show "registry_ok sample_registry" using registry_reach_ok [OF sample_registry_reach] by blast
qed code_simp+

text \<open>The limits bound the maps but not the insertion orders kept beside them: a client that
  uses one request identifier again and again makes the order list grow by one per request,
  under any limit.\<close>

theorem seen_order_unbounded:
  assumes "0 < limit"
  shows "\<exists>r. seenRequestIds r = [(i, n)] \<and> length (seenRequestOrder r) = Suc n \<and>
    r = fold (\<lambda>s. recordSeenRequest i s limit) [0..<Suc n] empty_registry"
proof -
  have step: "recordSeenRequest i s limit r = r\<lparr>seenRequestIds := [(i, s)], seenRequestOrder := seenRequestOrder r @ [(i, s)]\<rparr>"
    if "seenRequestIds r = [(i, t)] \<or> seenRequestIds r = []" for r s t
  proof -
    have "map_set i s (seenRequestIds r) = [(i, s)]" using that by auto
    moreover have "prune limit [(i, s)] (seenRequestOrder r @ [(i, s)]) = ([(i, s)], seenRequestOrder r @ [(i, s)])"
      using assms by (cases "seenRequestOrder r @ [(i, s)]") (auto simp: prune_def)
    ultimately show ?thesis by (simp add: recordSeenRequest_def pruneSeenRequests_def)
  qed
  have "seenRequestIds (fold (\<lambda>s. recordSeenRequest i s limit) [0..<Suc n] empty_registry) = [(i, n)] \<and>
    length (seenRequestOrder (fold (\<lambda>s. recordSeenRequest i s limit) [0..<Suc n] empty_registry)) = Suc n"
  proof (induction n)
    case 0
    then show ?case using step [of empty_registry] by (simp add: empty_registry_def)
  next
    case (Suc n)
    then show ?case using step [of "fold (\<lambda>s. recordSeenRequest i s limit) [0..<Suc n] empty_registry"] by simp
  qed
  then show ?thesis by blast
qed

theorem seen_order_unbounded_witness:
  "\<exists>r. seenRequestIds r = [(kInt 1, 5)] \<and> length (seenRequestOrder r) = Suc 5 \<and>
    r = fold (\<lambda>s. recordSeenRequest (kInt 1) s 1) [0..<Suc 5] empty_registry"
  by (rule seen_order_unbounded) simp

end
