(* ===== verification/Remote_Endpoint.thy ===== *)
theory Remote_Endpoint
  imports Session_Output Ordered_Dispatch Pending_Requests Request_Cancellation
begin

text \<open>
  \<^verbatim>\<open>RemoteEndPoint\<close> as a whole (\<^verbatim>\<open>src/jsonrpc/RemoteEndPoint.cpp\<close>): the state of \<^verbatim>\<open>Data\<close>, composed of
  the router, the ordered dispatcher, the cancellation registry, the table of outgoing
  requests and the output sessions, with every operation on it, and a step relation that
  interleaves them: the producer thread delivers texts, parsing workers parse and submit,
  the notification thread and the handler workers run handlers, futures of asynchronous
  handlers become ready, the embedding program sends, starts and stops.  What a handler does
  is left open in the relation.
\<close>

section \<open>State\<close>

datatype request_kind = SyncHandler | SyncHandlerWithMonitor | AsyncHandler | AsyncHandlerWithMonitor

text \<open>A request whose handler is running: its identifier, method, session, context and cookie.\<close>

record running_request =
  run_id :: lsRequestId
  run_kind :: request_kind
  run_session :: nat
  run_context :: "CancelState context_chain"
  run_cookie :: cookie

text \<open>A completion of \<^verbatim>\<open>completeAsyncHandler\<close>, with what the closure captures besides the future.\<close>

record async_completion =
  async_id :: lsRequestId
  async_session :: nat
  async_retainer :: "(lsRequestId \<times> cookie) option"

text \<open>A message posted to the handler pool.\<close>

record handler_task =
  task_msg :: LspMessage
  task_seq :: nat
  task_session :: nat
  task_pending :: "nat option"

record endpoint =
  limits :: RemoteEndPointLimits
  json_handler :: MessageJsonHandler
  request_handlers :: "string \<Rightarrow> request_kind option"
  response_handlers :: "string list"
  notification_handlers :: "string list"
  quit :: bool
  working :: bool
  has_producer_thread :: bool
  keepRunning :: bool
  input_interrupted :: bool
  routing_stuck :: bool
  has_pools :: bool
  next_message_sequence :: nat
  parse_queue_size :: nat
  parse_tasks :: "(string \<times> nat) list"
  parsed_tasks :: "(ParsedMessage \<times> nat) list"
  handler_tasks :: "handler_task list"
  route :: router
  concurrent_notifications :: "string list"
  dispatch :: dispatcher
  running_notification :: "DispatchItem option"
  running_requests :: "running_request list"
  cancellation_registry :: registry
  client_requests :: pending_table
  output_sessions :: sessions
  session_output_state :: nat
  next_session_generation :: nat
  async_completions :: "async_completion list"
  async_completion_stop :: bool
  log_lines :: "log_line list"

definition log :: "log_line list \<Rightarrow> endpoint \<Rightarrow> endpoint" where
  "log ls s = s\<lparr>log_lines := log_lines s @ ls\<rparr>"

definition fresh_session :: SessionOutputState where
  "fresh_session =
     \<lparr>active = True, has_output = False, has_send_mutex = True, output_bad = False, write_answers = [], written = [],
      generation = 0\<rparr>"

text \<open>The constructor, which also registers the parser of the cancel notification.\<close>

definition make_RemoteEndPoint :: "RemoteEndPointLimits \<Rightarrow> (json \<Rightarrow> parse_result) \<Rightarrow> MessageJsonHandler \<Rightarrow> endpoint" where
  "make_RemoteEndPoint lim parse_cancel h =
     \<lparr>limits = lim, json_handler = SetNotificationJsonHandler cancel_method parse_cancel h,
      request_handlers = (\<lambda>m. None), response_handlers = [], notification_handlers = [],
      quit = False, working = False, has_producer_thread = False, keepRunning = False, input_interrupted = False,
      routing_stuck = False, has_pools = False, next_message_sequence = 0, parse_queue_size = 0, parse_tasks = [], parsed_tasks = [], handler_tasks = [],
      route = \<lparr>reorder_buffer = [], next_route_sequence = 0\<rparr>, concurrent_notifications = [],
      dispatch = \<lparr>notification_queue = [], parked_requests = [], notification_stop = False,
                  has_last_ordered_notification = False, last_ordered_notification_seq = 0,
                  has_completed_notification = False, completed_notification_seq = 0\<rparr>,
      running_notification = None, running_requests = [], cancellation_registry = empty_registry,
      client_requests = empty_pending, output_sessions = [fresh_session], session_output_state = 0,
      next_session_generation = 0, async_completions = [], async_completion_stop = False, log_lines = []\<rparr>"

section \<open>Stopping\<close>

definition stopAsyncCompletionLoop :: "endpoint \<Rightarrow> endpoint" where
  "stopAsyncCompletionLoop s =
     s\<lparr>async_completion_stop := True, async_completions := [],
       cancellation_registry :=
         fold (\<lambda>c r. case async_retainer c of None \<Rightarrow> r | Some key \<Rightarrow> release_retained key r)
           (async_completions s) (cancellation_registry s)\<rparr>"

text \<open>
  \<^verbatim>\<open>stopWorkerPools\<close>: work that has not started is dropped.  The slot of a dropped parse task is
  not given back: the guard that does so is made when the task runs.
\<close>

definition stopWorkerPools :: "endpoint \<Rightarrow> endpoint" where
  "stopWorkerPools s =
     (if has_pools s then s\<lparr>parse_tasks := [], handler_tasks := [], client_requests := stop_pool (client_requests s)\<rparr> else s)"

text \<open>\<^verbatim>\<open>Data::clear\<close>, in its order.\<close>

definition clear :: "endpoint \<Rightarrow> endpoint" where
  "clear s =
     (let s1 = s\<lparr>quit := True, route := clearMessageRouting (route s), keepRunning := False, input_interrupted := True\<rparr>;
          k = session_output_state s1;
          s2 = s1\<lparr>output_sessions := (output_sessions s1)[k := (output_sessions s1 ! k)\<lparr>active := False, has_output := False\<rparr>]\<rparr>;
          s3 = s2\<lparr>cancellation_registry := clear_registry (cancellation_registry s2)\<rparr>;
          s4 = s3\<lparr>client_requests := failPendingRequests (client_requests s3)\<rparr>;
          s5 = s4\<lparr>dispatch := stopOrderedDispatcher (dispatch s4)\<rparr>
      in stopWorkerPools (stopAsyncCompletionLoop s5))"

definition stop :: "endpoint \<Rightarrow> endpoint" where
  "stop s =
     (if \<not> working s \<and> \<not> has_producer_thread s then s
      else (clear s)\<lparr>has_producer_thread := False, working := False\<rparr>)"

text \<open>\<^verbatim>\<open>handleOverload\<close>: True when the caller may go on (the newest message is dropped).\<close>

definition handleOverload :: "string \<Rightarrow> endpoint \<Rightarrow> bool \<times> endpoint" where
  "handleOverload text s =
     (let s1 = log [(LogWarning, ''RemoteEndPoint overload: '' @ text)] s in
      if policy (limits s) = DropNewest then (True, s1) else (False, stop s1))"

section \<open>Starting\<close>

definition startAsyncCompletionLoop :: "endpoint \<Rightarrow> endpoint" where
  "startAsyncCompletionLoop s = s\<lparr>async_completion_stop := False\<rparr>"

text \<open>
  \<^verbatim>\<open>startProcessingMessages\<close> in two parts.  The first opens the new session (the new output is
  described by what it will answer) and lets messages through again; the second makes new worker pools,
  where replacing the old ones waits for the tasks they are still running, and starts the
  dispatcher, the routing and the producer thread, whose \<^verbatim>\<open>listen\<close> sets \<^verbatim>\<open>keepRunning\<close>.
\<close>

definition open_session :: "bool \<Rightarrow> write_answer list \<Rightarrow> endpoint \<Rightarrow> endpoint" where
  "open_session bad ws s =
     (let gen = next_session_generation s + 1;
          st = fresh_session\<lparr>has_output := True, output_bad := bad, write_answers := ws, generation := gen\<rparr>
      in startAsyncCompletionLoop
           (s\<lparr>working := True, quit := False, input_interrupted := False,
              output_sessions := output_sessions s @ [st], session_output_state := length (output_sessions s),
              next_session_generation := gen\<rparr>))"

definition start_threads :: "endpoint \<Rightarrow> endpoint" where
  "start_threads s =
     (let s1 = s\<lparr>has_pools := True, parse_tasks := [], handler_tasks := []\<rparr>;
          s2 = s1\<lparr>dispatch := startOrderedDispatcher (dispatch s1)\<rparr>
      in s2\<lparr>route := resetMessageRouting (next_message_sequence s2) (route s2), has_producer_thread := True,
            keepRunning := True\<rparr>)"

definition startProcessingMessages :: "bool \<Rightarrow> write_answer list \<Rightarrow> endpoint \<Rightarrow> endpoint" where
  "startProcessingMessages bad ws s =
     (if working s then log [(LogWarning, ''RemoteEndPoint is already processing messages.'')] s
      else start_threads (open_session bad ws s))"

definition isWorking :: "endpoint \<Rightarrow> bool" where
  "isWorking s = working s"

section \<open>Registration\<close>

text \<open>Every registration is refused once the endpoint works.\<close>

definition canRegisterBeforeStart :: "string \<Rightarrow> endpoint \<Rightarrow> bool \<times> endpoint" where
  "canRegisterBeforeStart operation s =
     (if \<not> working s then (True, s)
      else (False, log [(LogWarning, operation @ '' must be called before startProcessingMessages().'')] s))"

definition allowConcurrentNotification :: "string \<Rightarrow> endpoint \<Rightarrow> bool \<times> endpoint" where
  "allowConcurrentNotification method s =
     (case canRegisterBeforeStart ''allowConcurrentNotification'' s of
        (False, s1) \<Rightarrow> (False, s1)
      | (True, s1) \<Rightarrow> (True, s1\<lparr>concurrent_notifications := List.insert method (concurrent_notifications s1)\<rparr>))"

definition allowsConcurrentNotification :: "string \<Rightarrow> endpoint \<Rightarrow> bool" where
  "allowsConcurrentNotification method s \<longleftrightarrow> method \<in> set (concurrent_notifications s)"

text \<open>
  \<^verbatim>\<open>registerHandler\<close> for requests of the four kinds; the parser of the method is only set when the
  method has none.
\<close>

definition registerRequestHandler :: "request_kind \<Rightarrow> string \<Rightarrow> (json \<Rightarrow> parse_result) \<Rightarrow> endpoint \<Rightarrow> bool \<times> endpoint" where
  "registerRequestHandler k method reflect s =
     (case canRegisterBeforeStart ''registerHandler'' s of
        (False, s1) \<Rightarrow> (False, s1)
      | (True, s1) \<Rightarrow>
          (True,
           s1\<lparr>json_handler := (if method2request (json_handler s1) method = None
                               then SetRequestJsonHandler method reflect (json_handler s1) else json_handler s1),
              request_handlers := (request_handlers s1)(method := Some k)\<rparr>))"

definition registerNotificationHandler :: "string \<Rightarrow> (json \<Rightarrow> parse_result) \<Rightarrow> endpoint \<Rightarrow> bool \<times> endpoint" where
  "registerNotificationHandler method reflect s =
     (case canRegisterBeforeStart ''registerHandler'' s of
        (False, s1) \<Rightarrow> (False, s1)
      | (True, s1) \<Rightarrow>
          (True,
           s1\<lparr>json_handler := (if method2notification (json_handler s1) method = None
                               then SetNotificationJsonHandler method reflect (json_handler s1) else json_handler s1),
              notification_handlers := List.insert method (notification_handlers s1)\<rparr>))"

definition overrideRequestParser :: "string \<Rightarrow> (json \<Rightarrow> parse_result) \<Rightarrow> endpoint \<Rightarrow> bool \<times> endpoint" where
  "overrideRequestParser method f s =
     (case canRegisterBeforeStart ''overrideRequestParser'' s of
        (False, s1) \<Rightarrow> (False, s1)
      | (True, s1) \<Rightarrow> (True, s1\<lparr>json_handler := SetRequestJsonHandler method f (json_handler s1)\<rparr>))"

definition overrideResponseParser :: "string \<Rightarrow> (json \<Rightarrow> parse_result) \<Rightarrow> endpoint \<Rightarrow> bool \<times> endpoint" where
  "overrideResponseParser method f s =
     (case canRegisterBeforeStart ''overrideResponseParser'' s of
        (False, s1) \<Rightarrow> (False, s1)
      | (True, s1) \<Rightarrow> (True, s1\<lparr>json_handler := SetResponseJsonHandler method f (json_handler s1)\<rparr>))"

definition ensureResponseJsonHandler :: "string \<Rightarrow> (json \<Rightarrow> parse_result) \<Rightarrow> endpoint \<Rightarrow> bool \<times> endpoint" where
  "ensureResponseJsonHandler method f s =
     (if method2response (json_handler s) method \<noteq> None then (True, s)
      else case canRegisterBeforeStart ''registerResponseJsonHandler'' s of
             (False, s1) \<Rightarrow> (False, s1)
           | (True, s1) \<Rightarrow> (True, s1\<lparr>json_handler := SetResponseJsonHandler method f (json_handler s1)\<rparr>))"

section \<open>Incoming messages\<close>

definition releaseParseQueueSlot :: "endpoint \<Rightarrow> endpoint" where
  "releaseParseQueueSlot s = s\<lparr>parse_queue_size := parse_queue_size s - 1\<rparr>"

definition postToWorker :: "LspMessage \<Rightarrow> nat \<Rightarrow> nat \<Rightarrow> nat option \<Rightarrow> endpoint \<Rightarrow> endpoint" where
  "postToWorker msg sequence k pend s =
     (if quit s \<or> \<not> has_pools s then s
      else s\<lparr>handler_tasks := handler_tasks s @ [\<lparr>task_msg = msg, task_seq = sequence, task_session = k, task_pending = pend\<rparr>]\<rparr>)"

text \<open>
  An overload that is found while a message is routed.  The thread holds \<^verbatim>\<open>route_dispatch_mutex\<close>
  (\<^verbatim>\<open>submitParsedMessage\<close>), and with the policy to stop, \<^verbatim>\<open>handleOverload\<close> calls \<^verbatim>\<open>stop\<close>, which sets \<^verbatim>\<open>quit\<close> and
  then, in \<^verbatim>\<open>clearMessageRouting\<close>, locks the same mutex again: the thread waits for itself, with the mutexes
  of routing and of \<^verbatim>\<open>stop\<close> locked for ever.  The reorder buffer reports its overload after unlocking.
\<close>

definition overload_while_routing :: "string \<Rightarrow> endpoint \<Rightarrow> endpoint" where
  "overload_while_routing text s =
     (let s1 = log [(LogWarning, ''RemoteEndPoint overload: '' @ text)] s in
      if policy (limits s) = DropNewest then s1 else s1\<lparr>quit := True, routing_stuck := True\<rparr>)"

definition enqueueNotification :: "LspMessage \<Rightarrow> nat \<Rightarrow> nat \<Rightarrow> endpoint \<Rightarrow> endpoint" where
  "enqueueNotification msg sequence k s =
     (if quit s then s
      else
        case enqueueNotification_locked (limits s) \<lparr>item_seq = sequence, item_msg = msg, response_state = k\<rparr> (dispatch s) of
          (Overloaded text, d) \<Rightarrow> overload_while_routing text (s\<lparr>dispatch := d\<rparr>)
        | (_, d) \<Rightarrow> s\<lparr>dispatch := d\<rparr>)"

definition enqueueRequest :: "LspMessage \<Rightarrow> nat \<Rightarrow> nat \<Rightarrow> endpoint \<Rightarrow> endpoint" where
  "enqueueRequest msg sequence k s =
     (if quit s then s
      else
        case enqueueRequest_locked (limits s) \<lparr>item_seq = sequence, item_msg = msg, response_state = k\<rparr> (dispatch s) of
          (Overloaded text, d) \<Rightarrow> overload_while_routing text (s\<lparr>dispatch := d\<rparr>)
        | (PostNow, d) \<Rightarrow> postToWorker msg sequence k None (s\<lparr>dispatch := d\<rparr>)
        | (_, d) \<Rightarrow> s\<lparr>dispatch := d\<rparr>)"

definition on_cancel :: "LspMessage \<Rightarrow> nat \<Rightarrow> endpoint \<Rightarrow> endpoint" where
  "on_cancel msg sequence s =
     s\<lparr>cancellation_registry :=
         onCancel (max_pending_cancel_requests (limits s)) (cancel_id msg) sequence (cancellation_registry s)\<rparr>"

text \<open>
  \<^verbatim>\<open>routeParsedIncoming\<close>.  An exception of the stream while the error response of a rejected
  request is sent is not caught in the worker (the process ends): the first component.
\<close>

definition routeParsedIncoming :: "(LspMessage \<Rightarrow> string) \<Rightarrow> ParsedMessage \<Rightarrow> nat \<Rightarrow> endpoint \<Rightarrow> endpoint throwing" where
  "routeParsedIncoming to_json parsed sequence s =
     (case message parsed of
        None \<Rightarrow> (None, s)
      | Some msg \<Rightarrow>
          if \<not> ok parsed \<or> quit s then (None, s)
          else
            let k = session_output_state s in
            if outgoing parsed then
              (case sendSessionMessage to_json k msg (output_sessions s) of (e, ss) \<Rightarrow> (e, s\<lparr>output_sessions := ss\<rparr>))
            else if kind parsed = NOTIFICATION_MESSAGE then
              (None,
               if msg_method msg = cancel_method then on_cancel msg sequence s
               else if allowsConcurrentNotification (msg_method msg) s then postToWorker msg sequence k None s
               else enqueueNotification msg sequence k s)
            else if kind parsed = REQUEST_MESSAGE then (None, enqueueRequest msg sequence k s)
            else
              (None,
               case pending parsed of
                 Some a \<Rightarrow> s\<lparr>client_requests := completePendingResponse (\<not> quit s \<and> has_pools s) msg a (client_requests s)\<rparr>
               | None \<Rightarrow> postToWorker msg sequence k None s))"

fun route_all :: "(LspMessage \<Rightarrow> string) \<Rightarrow> (nat \<times> ParsedMessage) list \<Rightarrow> endpoint \<Rightarrow> endpoint throwing" where
  "route_all to_json [] s = (None, s)"
| "route_all to_json ((sequence, parsed) # ready) s =
     (case routeParsedIncoming to_json parsed sequence s of
        (Some e, s1) \<Rightarrow> (Some e, s1)
      | (None, s1) \<Rightarrow> route_all to_json ready s1)"

definition submitParsedMessage ::
  "(LspMessage \<Rightarrow> string) \<Rightarrow> nat \<Rightarrow> ParsedMessage \<Rightarrow> bool \<Rightarrow> endpoint \<Rightarrow> endpoint throwing" where
  "submitParsedMessage to_json sequence parsed bypass s =
     (if quit s then (None, s)
      else
        case submit_locked (limits s) sequence parsed bypass (route s) of
          (Inl text, r) \<Rightarrow> (None, snd (handleOverload text (s\<lparr>route := r\<rparr>)))
        | (Inr ready, r) \<Rightarrow> route_all to_json ready (s\<lparr>route := r\<rparr>))"

definition parse_overload_text :: "nat \<Rightarrow> string" where
  "parse_overload_text n = ''parse queue size would exceed configured maximum '' @ to_string n @ ''.''"

text \<open>
  \<^verbatim>\<open>acquireParseQueueSlot\<close>; the compare-and-exchange loop is one atomic increment.  A refused text
  leaves an empty message in its place, so that the order of the others is kept.
\<close>

definition acquireParseQueueSlot :: "(LspMessage \<Rightarrow> string) \<Rightarrow> nat \<Rightarrow> endpoint \<Rightarrow> bool \<times> endpoint throwing" where
  "acquireParseQueueSlot to_json sequence s =
     (if max_parse_queue_size (limits s) \<noteq> 0 \<and> parse_queue_size s \<ge> max_parse_queue_size (limits s) then
        (case handleOverload (parse_overload_text (max_parse_queue_size (limits s))) s of
           (True, s1) \<Rightarrow> (False, submitParsedMessage to_json sequence empty_parsed True s1)
         | (False, s1) \<Rightarrow> (False, None, s1))
      else (True, None, s\<lparr>parse_queue_size := parse_queue_size s + 1\<rparr>))"

definition postParseTask :: "(LspMessage \<Rightarrow> string) \<Rightarrow> string \<Rightarrow> nat \<Rightarrow> endpoint \<Rightarrow> endpoint throwing" where
  "postParseTask to_json text sequence s =
     (if quit s \<or> \<not> has_pools s then (None, s)
      else
        case acquireParseQueueSlot to_json sequence s of
          (False, e, s1) \<Rightarrow> (e, s1)
        | (True, e, s1) \<Rightarrow> (None, s1\<lparr>parse_tasks := parse_tasks s1 @ [(text, sequence)]\<rparr>))"

text \<open>The callback of the producer thread: a text gets its number and a parse task.\<close>

definition receive :: "(LspMessage \<Rightarrow> string) \<Rightarrow> string \<Rightarrow> endpoint \<Rightarrow> endpoint throwing" where
  "receive to_json text s =
     postParseTask to_json text (next_message_sequence s) (s\<lparr>next_message_sequence := next_message_sequence s + 1\<rparr>)"

text \<open>
  How the endpoint sets up the producer of the standard style: frames above the limit go to \<^const>\<open>handleOverload\<close>,
  the others to \<^const>\<open>receive\<close>; \<^verbatim>\<open>keepRunning\<close> is what stopping left it, and an exception ends the thread.
\<close>

definition endpoint_producer :: "(LspMessage \<Rightarrow> string) \<Rightarrow> RemoteEndPointLimits \<Rightarrow> endpoint producer" where
  "endpoint_producer to_json lim =
     \<lparr>maxFrameSize = max_frame_size lim, overloadHandler = Some handleOverload,
      callBack = (\<lambda>m s. case receive to_json m s of (e, s1) \<Rightarrow> (s1, e = None \<and> keepRunning s1))\<rparr>"

text \<open>A worker takes a parse task, parses it, and later submits the result and gives the slot back, unless it is stuck in routing.\<close>

definition run_parse :: "(string \<Rightarrow> (string \<times> nat) + json) \<Rightarrow> nat \<Rightarrow> endpoint \<Rightarrow> endpoint" where
  "run_parse parse_json n s =
     (if n < length (parse_tasks s) then
        (case parse_tasks s ! n of (text, sequence) \<Rightarrow>
           case parseAndClassify parse_json (json_handler s) (getRequestInfo (client_requests s)) text of (parsed, ls) \<Rightarrow>
             log ls (s\<lparr>parse_tasks := take n (parse_tasks s) @ drop (Suc n) (parse_tasks s),
                       parsed_tasks := parsed_tasks s @ [(parsed, sequence)]\<rparr>))
      else s)"

definition finish_parse :: "(LspMessage \<Rightarrow> string) \<Rightarrow> nat \<Rightarrow> endpoint \<Rightarrow> endpoint throwing" where
  "finish_parse to_json n s =
     (if n < length (parsed_tasks s) then
        (case parsed_tasks s ! n of (parsed, sequence) \<Rightarrow>
           case submitParsedMessage to_json sequence parsed False
                  (s\<lparr>parsed_tasks := take n (parsed_tasks s) @ drop (Suc n) (parsed_tasks s)\<rparr>) of
             (e, s1) \<Rightarrow> (e, if routing_stuck s1 then s1 else releaseParseQueueSlot s1))
      else (None, s))"

section \<open>Handlers\<close>

definition take_nth :: "nat \<Rightarrow> 'a list \<Rightarrow> 'a list" where
  "take_nth n xs = take n xs @ drop (Suc n) xs"

text \<open>\<^verbatim>\<open>mainLoopCatching\<close>: an exception that leaves \<^verbatim>\<open>mainLoop\<close> is logged.\<close>

definition catch_log :: "Kind \<Rightarrow> endpoint throwing \<Rightarrow> endpoint" where
  "catch_log k r =
     (case r of
        (None, s) \<Rightarrow> s
      | (Some e, s) \<Rightarrow>
          log [(LogSevere, ''Reason:Exception  when process '' @ kind_name k @ '' message:'' @ [LF] @ e @ [LF])] s)"

definition missing_handler :: "string \<Rightarrow> string \<Rightarrow> log_line" where
  "missing_handler table json = (LogSevere, ''can't find '' @ table @ '':'' @ [LF] @ json @ [LF])"

text \<open>
  The request branch of \<^verbatim>\<open>mainLoop\<close>, up to the call of the handler: a method without handler is
  answered at once, and then the request's context ends.
\<close>

definition begin_request :: "(LspMessage \<Rightarrow> string) \<Rightarrow> LspMessage \<Rightarrow> nat \<Rightarrow> nat \<Rightarrow> endpoint \<Rightarrow> endpoint throwing" where
  "begin_request to_json msg sequence k s =
     (case cancelableRequestContext (max_seen_request_ids (limits s)) (msg_id msg) sequence Context_empty (cancellation_registry s) of
        (ctx, ck, r) \<Rightarrow>
          let s1 = s\<lparr>cancellation_registry := r\<rparr> in
          case request_handlers s1 (msg_method msg) of
            Some rk \<Rightarrow>
              (None, s1\<lparr>running_requests := running_requests s1 @
                         [\<lparr>run_id = msg_id msg, run_kind = rk, run_session = k, run_context = ctx, run_cookie = ck\<rparr>]\<rparr>)
          | None \<Rightarrow>
              let s2 = log [missing_handler ''method2request for request'' (to_json msg)] s1 in
              case sendSessionMessage to_json k (makeErrorMessage (msg_id msg) MethodNotFound (''Method not found: '' @ msg_method msg))
                     (output_sessions s2) of
                (e, ss) \<Rightarrow> (e, s2\<lparr>output_sessions := ss,
                                   cancellation_registry := request_scope_exit (msg_id msg) ck (cancellation_registry s2)\<rparr>))"

definition run_response :: "(LspMessage \<Rightarrow> string) \<Rightarrow> LspMessage \<Rightarrow> nat option \<Rightarrow> endpoint \<Rightarrow> endpoint" where
  "run_response to_json msg pend s =
     (case (case pend of Some a \<Rightarrow> Some a | None \<Rightarrow> map_option fst (getRequestInfo (client_requests s) (msg_id msg))) of
        Some a \<Rightarrow> s\<lparr>client_requests := completePendingResponse (\<not> quit s \<and> has_pools s) msg a (client_requests s)\<rparr>
      | None \<Rightarrow>
          if msg_method msg \<in> set (response_handlers s) then s
          else log [missing_handler ''method2response for response'' (to_json msg)] s)"

text \<open>\<open>thrown\<close> is what the handler of the notification throws, if it does.\<close>

definition run_notification :: "(LspMessage \<Rightarrow> string) \<Rightarrow> LspMessage \<Rightarrow> nat \<Rightarrow> string option \<Rightarrow> endpoint \<Rightarrow> endpoint throwing" where
  "run_notification to_json msg sequence thrown s =
     (if msg_method msg = cancel_method then (None, on_cancel msg sequence s)
      else if msg_method msg \<in> set (notification_handlers s) then (thrown, s)
      else (None, log [missing_handler ''method2notification for notification'' (to_json msg)] s))"

definition mainLoop ::
  "(LspMessage \<Rightarrow> string) \<Rightarrow> LspMessage \<Rightarrow> nat \<Rightarrow> nat \<Rightarrow> nat option \<Rightarrow> string option \<Rightarrow> endpoint \<Rightarrow> endpoint throwing" where
  "mainLoop to_json msg sequence k pend thrown s =
     (if quit s then (None, s)
      else case msg_kind msg of
             REQUEST_MESSAGE \<Rightarrow> begin_request to_json msg sequence k s
           | RESPONCE_MESSAGE \<Rightarrow> (None, run_response to_json msg pend s)
           | NOTIFICATION_MESSAGE \<Rightarrow> run_notification to_json msg sequence thrown s)"

definition mainLoopCatching ::
  "(LspMessage \<Rightarrow> string) \<Rightarrow> LspMessage \<Rightarrow> nat \<Rightarrow> nat \<Rightarrow> nat option \<Rightarrow> string option \<Rightarrow> endpoint \<Rightarrow> endpoint" where
  "mainLoopCatching to_json msg sequence k pend thrown s =
     catch_log (msg_kind msg) (mainLoop to_json msg sequence k pend thrown s)"

text \<open>A worker of the handler pool takes a task.\<close>

definition run_handler_task :: "(LspMessage \<Rightarrow> string) \<Rightarrow> nat \<Rightarrow> string option \<Rightarrow> endpoint \<Rightarrow> endpoint" where
  "run_handler_task to_json n thrown s =
     (if n < length (handler_tasks s) then
        let t = handler_tasks s ! n
        in mainLoopCatching to_json (task_msg t) (task_seq t) (task_session t) (task_pending t) thrown
             (s\<lparr>handler_tasks := take_nth n (handler_tasks s)\<rparr>)
      else s)"

text \<open>
  The end of a request: the answer, or for an asynchronous handler the completion that waits
  for its future (\<^verbatim>\<open>completeAsyncHandler\<close>); then the request's context ends.
\<close>

datatype request_end = Ended handler_outcome | ReturnsFuture

definition is_async :: "request_kind \<Rightarrow> bool" where
  "is_async k \<longleftrightarrow> k = AsyncHandler \<or> k = AsyncHandlerWithMonitor"

definition postAsyncCompletion :: "async_completion \<Rightarrow> endpoint \<Rightarrow> endpoint" where
  "postAsyncCompletion c s =
     (if async_completion_stop s \<or> quit s then
        s\<lparr>cancellation_registry :=
            (case async_retainer c of None \<Rightarrow> cancellation_registry s | Some key \<Rightarrow> release_retained key (cancellation_registry s))\<rparr>
      else s\<lparr>async_completions := async_completions s @ [c]\<rparr>)"

definition completeAsyncHandler :: "lsRequestId \<Rightarrow> nat \<Rightarrow> endpoint \<Rightarrow> endpoint" where
  "completeAsyncHandler i k s =
     (case retainRequestCancellation i (cancellation_registry s) of
        (key, r) \<Rightarrow> postAsyncCompletion \<lparr>async_id = i, async_session = k, async_retainer = key\<rparr> (s\<lparr>cancellation_registry := r\<rparr>))"

definition finish_request :: "(LspMessage \<Rightarrow> string) \<Rightarrow> nat \<Rightarrow> request_end \<Rightarrow> endpoint \<Rightarrow> endpoint" where
  "finish_request to_json n res s =
     (if n < length (running_requests s) then
        let q = running_requests s ! n;
            s1 = s\<lparr>running_requests := take_nth n (running_requests s)\<rparr>;
            r = (case res of
                   ReturnsFuture \<Rightarrow> (None, if is_async (run_kind q) then completeAsyncHandler (run_id q) (run_session q) s1 else s1)
                 | Ended out \<Rightarrow>
                     (case answer_request to_json (run_session q) (run_id q) out (output_sessions s1) of
                        (e, ss) \<Rightarrow> (e, s1\<lparr>output_sessions := ss\<rparr>)));
            s2 = snd r
        in catch_log REQUEST_MESSAGE
             (fst r, s2\<lparr>cancellation_registry := request_scope_exit (run_id q) (run_cookie q) (cancellation_registry s2)\<rparr>)
      else s)"

text \<open>What the monitor passed to a handler of the kinds with monitor returns while it runs.\<close>

definition monitor_value :: "running_request \<Rightarrow> endpoint \<Rightarrow> int" where
  "monitor_value q s = getCancelMonitor (run_id q) (run_context q) (cancellation_registry s)"

text \<open>
  One round of \<^verbatim>\<open>asyncCompletionLoop\<close>: the first completion is taken; if its future is not ready
  it goes to the end of the queue, otherwise it answers and lets go of the cancellation.
\<close>

definition async_round :: "(LspMessage \<Rightarrow> string) \<Rightarrow> handler_outcome option \<Rightarrow> endpoint \<Rightarrow> endpoint" where
  "async_round to_json ready s =
     (if async_completion_stop s then s
      else case async_completions s of
             [] \<Rightarrow> s
           | c # cs \<Rightarrow>
               (case ready of
                  None \<Rightarrow> s\<lparr>async_completions := cs @ [c]\<rparr>
                | Some out \<Rightarrow>
                    (case answer_request to_json (async_session c) (async_id c) out (output_sessions s) of
                       (e, ss) \<Rightarrow>
                         s\<lparr>async_completions := cs, output_sessions := ss,
                           cancellation_registry :=
                             (case async_retainer c of None \<Rightarrow> cancellation_registry s
                              | Some key \<Rightarrow> release_retained key (cancellation_registry s))\<rparr>)))"

section \<open>The notification thread\<close>

definition take_next_notification :: "endpoint \<Rightarrow> endpoint" where
  "take_next_notification s =
     (case running_notification s of
        Some _ \<Rightarrow> s
      | None \<Rightarrow>
          (case take_notification (dispatch s) of
             None \<Rightarrow> s
           | Some (it, d) \<Rightarrow> s\<lparr>dispatch := d, running_notification := Some it\<rparr>))"

definition postReadyParkedRequests :: "ParkedRequest list \<Rightarrow> endpoint \<Rightarrow> endpoint" where
  "postReadyParkedRequests ready s =
     fold (\<lambda>p. postToWorker (item_msg (parked_item p)) (item_seq (parked_item p)) (response_state (parked_item p)) None) ready s"

definition finish_running_notification :: "(LspMessage \<Rightarrow> string) \<Rightarrow> string option \<Rightarrow> endpoint \<Rightarrow> endpoint" where
  "finish_running_notification to_json thrown s =
     (case running_notification s of
        None \<Rightarrow> s
      | Some it \<Rightarrow>
          let s1 = mainLoopCatching to_json (item_msg it) (item_seq it) (response_state it) None thrown (s\<lparr>running_notification := None\<rparr>)
          in case finish_notification (item_seq it) (dispatch s1) of
               (ready, d) \<Rightarrow> postReadyParkedRequests ready (s1\<lparr>dispatch := d\<rparr>))"

section \<open>Sending\<close>

text \<open>\<^verbatim>\<open>sendMsg\<close>: through the session of the current context, or the endpoint's session outside of handlers.\<close>

definition getSessionOutputState :: "nat option \<Rightarrow> endpoint \<Rightarrow> nat" where
  "getSessionOutputState ctx s = (case ctx of Some k \<Rightarrow> k | None \<Rightarrow> session_output_state s)"

definition sendMsg :: "(LspMessage \<Rightarrow> string) \<Rightarrow> nat option \<Rightarrow> LspMessage \<Rightarrow> endpoint \<Rightarrow> endpoint throwing" where
  "sendMsg to_json ctx msg s =
     (case sendSessionMessage to_json (getSessionOutputState ctx s) msg (output_sessions s) of
        (e, ss) \<Rightarrow> (e, s\<lparr>output_sessions := ss\<rparr>))"

datatype send_result = Sent | Refused | SendThrows string

definition internalSendRequestWithPolicy ::
  "(LspMessage \<Rightarrow> string) \<Rightarrow> LspMessage \<Rightarrow> bool \<Rightarrow> endpoint \<Rightarrow> send_result \<times> lsRequestId \<times> endpoint" where
  "internalSendRequestWithPolicy to_json info deferred s =
     (let k = session_output_state s; st = output_sessions s ! k in
      if \<not> active st \<or> \<not> has_output st \<or> output_bad st then
        (Refused, msg_id info, log [(LogWarning, ''Output isn't good any more:'' @ [LF])] s)
      else
        case pendingRequest (max_pending_outgoing_requests (limits s)) (msg_method info) (msg_id info) deferred (client_requests s) of
          (None, i, t) \<Rightarrow>
            (Refused, i, log [(LogWarning, ''Duplicate id  which of request:'' @ to_json info @ [LF])] (s\<lparr>client_requests := t\<rparr>))
        | (Some a, i, t) \<Rightarrow>
            (case write_output (WriterMsg (to_json (info\<lparr>msg_id := i\<rparr>))) st of
               (Some e, st1) \<Rightarrow>
                 (SendThrows e, i, s\<lparr>client_requests := snd (removeRequestInfo_expected i a t), output_sessions := (output_sessions s)[k := st1]\<rparr>)
             | (None, st1) \<Rightarrow> (Sent, i, s\<lparr>client_requests := t, output_sessions := (output_sessions s)[k := st1]\<rparr>)))"

definition cancelRequest :: "(LspMessage \<Rightarrow> string) \<Rightarrow> nat option \<Rightarrow> (lsRequestId \<Rightarrow> LspMessage) \<Rightarrow> lsRequestId \<Rightarrow> endpoint \<Rightarrow> bool \<times> endpoint throwing" where
  "cancelRequest to_json ctx cancel_notify i s =
     (if \<not> isWorking s then (False, None, s)
      else if getRequestInfo (client_requests s) i \<noteq> None then (True, sendMsg to_json ctx (cancel_notify i) s)
      else (False, None, s))"

end
