(* ===== verification/Endpoint_Properties.thy ===== *)
theory Endpoint_Properties
  imports Remote_Endpoint
begin

text \<open>
  The endpoint at work.  Its step relation interleaves the operations of \<^verbatim>\<open>Remote_Endpoint\<close>;
  every operation is shown to move the parts of the state by the steps of their own theories
  (\<open>evolves\<close>), so that the component results hold of the whole endpoint.  On top of that: output
  of an ended session, the bound on parsing work, what stopping leaves behind, and two
  defects around stopping and restarting.
\<close>

section \<open>How operations change the state\<close>

definition live :: "SessionOutputState \<Rightarrow> bool" where
  "live st \<longleftrightarrow> active st \<and> has_output st"

text \<open>
  Sessions that are not live write nothing and stay so, the table and the registry move by their own
  steps, work waiting to be parsed stays or is dropped as a whole, and the endpoint may stop,
  which ends its session.
\<close>

definition evolves :: "endpoint \<Rightarrow> endpoint \<Rightarrow> bool" where
  "evolves s s' \<longleftrightarrow>
     limits s' = limits s \<and> length (output_sessions s') = length (output_sessions s) \<and>
     session_output_state s' = session_output_state s \<and>
     (\<forall>j. \<not> live (output_sessions s ! j) \<longrightarrow>
        \<not> live (output_sessions s' ! j) \<and> written (output_sessions s' ! j) = written (output_sessions s ! j)) \<and>
     framed_growth (output_sessions s) (output_sessions s') \<and>
     (working s' = working s \<or>
      \<not> working s' \<and> (session_output_state s < length (output_sessions s) \<longrightarrow> \<not> live (output_sessions s' ! session_output_state s))) \<and>
     pending_step\<^sup>*\<^sup>* (client_requests s) (client_requests s') \<and>
     (registry_step (max_pending_cancel_requests (limits s)) (max_seen_request_ids (limits s)))\<^sup>*\<^sup>*
        (cancellation_registry s) (cancellation_registry s') \<and>
     parse_queue_size s' = parse_queue_size s \<and> parsed_tasks s' = parsed_tasks s \<and>
     (parse_tasks s' = parse_tasks s \<or> parse_tasks s' = []) \<and>
     next_message_sequence s' = next_message_sequence s"

lemma evolves_refl [simp, intro]: "evolves s s"
  by (simp add: evolves_def)

lemma evolves_trans [trans]: "evolves s s' \<Longrightarrow> evolves s' s'' \<Longrightarrow> evolves s s''"
  by (auto simp: evolves_def elim: rtranclp_trans framed_growth_trans)

text \<open>The parts of the state that the relation does not look at.\<close>

lemma evolves_frame [simp]:
  "evolves s (s'\<lparr>dispatch := x1\<rparr>) = evolves s s'" "evolves (s\<lparr>dispatch := x1\<rparr>) s' = evolves s s'"
  "evolves s (s'\<lparr>route := x2\<rparr>) = evolves s s'" "evolves (s\<lparr>route := x2\<rparr>) s' = evolves s s'"
  "evolves s (s'\<lparr>handler_tasks := x3\<rparr>) = evolves s s'" "evolves (s\<lparr>handler_tasks := x3\<rparr>) s' = evolves s s'"
  "evolves s (s'\<lparr>log_lines := x4\<rparr>) = evolves s s'" "evolves (s\<lparr>log_lines := x4\<rparr>) s' = evolves s s'"
  "evolves s (s'\<lparr>quit := x5\<rparr>) = evolves s s'" "evolves (s\<lparr>quit := x5\<rparr>) s' = evolves s s'"
  "evolves s (s'\<lparr>keepRunning := x6\<rparr>) = evolves s s'" "evolves s (s'\<lparr>input_interrupted := x7\<rparr>) = evolves s s'"
  "evolves s (s'\<lparr>running_notification := x8\<rparr>) = evolves s s'" "evolves (s\<lparr>running_notification := x8\<rparr>) s' = evolves s s'"
  "evolves s (s'\<lparr>running_requests := x9\<rparr>) = evolves s s'" "evolves (s\<lparr>running_requests := x9\<rparr>) s' = evolves s s'"
  "evolves s (s'\<lparr>async_completions := y1\<rparr>) = evolves s s'" "evolves s (s'\<lparr>async_completion_stop := y2\<rparr>) = evolves s s'"
  "evolves s (s'\<lparr>has_producer_thread := y3\<rparr>) = evolves s s'"
  "evolves s (s'\<lparr>routing_stuck := y8\<rparr>) = evolves s s'" "evolves (s\<lparr>routing_stuck := y8\<rparr>) s' = evolves s s'"
  "evolves s (s'\<lparr>json_handler := y4\<rparr>) = evolves s s'" "evolves s (s'\<lparr>request_handlers := y5\<rparr>) = evolves s s'"
  "evolves s (s'\<lparr>notification_handlers := y6\<rparr>) = evolves s s'" "evolves s (s'\<lparr>concurrent_notifications := y7\<rparr>) = evolves s s'"
  by (simp_all add: evolves_def)

lemma evolves_log [simp]: "evolves s (log ls s') = evolves s s'" "evolves (log ls s) s' = evolves s s'"
  by (simp_all add: log_def)

lemma evolves_table:
  assumes "evolves s s'" "pending_step\<^sup>*\<^sup>* (client_requests s') t"
  shows "evolves s (s'\<lparr>client_requests := t\<rparr>)"
  using assms by (auto simp: evolves_def)

lemma evolves_registry:
  assumes "evolves s s'" "(registry_step (max_pending_cancel_requests (limits s')) (max_seen_request_ids (limits s')))\<^sup>*\<^sup>* (cancellation_registry s') r"
  shows "evolves s (s'\<lparr>cancellation_registry := r\<rparr>)"
  using assms by (auto simp: evolves_def)

lemma writable_live: "writable st \<Longrightarrow> live st"
  by (simp add: writable_def live_def)

text \<open>Writing to a session.\<close>

lemma evolves_sessions:
  assumes "evolves s s'" "length ss = length (output_sessions s')"
    "\<And>j. \<not> live (output_sessions s' ! j) \<Longrightarrow> ss ! j = output_sessions s' ! j" "framed_growth (output_sessions s') ss"
  shows "evolves s (s'\<lparr>output_sessions := ss\<rparr>)"
proof -
  have "evolves s' (s'\<lparr>output_sessions := ss\<rparr>)" using assms(2-4) by (simp add: evolves_def)
  then show ?thesis using assms(1) evolves_trans by blast
qed

lemma evolves_send:
  assumes "evolves s s'" "sendSessionMessage to_json k msg (output_sessions s') = (e, ss)"
  shows "evolves s (s'\<lparr>output_sessions := ss\<rparr>)"
  using evolves_sessions [OF assms(1), of ss] send.keeps_number [of to_json k msg "output_sessions s'"]
    send.unwritable_untouched [of "output_sessions s'" _ to_json k msg] send.whole_frames [of "output_sessions s'" to_json k msg]
    assms(2) writable_live by auto

lemma evolves_answer:
  assumes "evolves s s'" "answer_request to_json k i out (output_sessions s') = (e, ss)"
  shows "evolves s (s'\<lparr>output_sessions := ss\<rparr>)"
  using evolves_sessions [OF assms(1), of ss] answer.keeps_number [of to_json k i out "output_sessions s'"]
    answer.unwritable_untouched [of "output_sessions s'" _ to_json k i out] answer.whole_frames [of "output_sessions s'" to_json k i out]
    assms(2) writable_live by auto

section \<open>Operations\<close>

lemma stop_async_eq:
  "fold (\<lambda>c r. case async_retainer c of None \<Rightarrow> r | Some key \<Rightarrow> release_retained key r) cs r =
   fold release_retained (map (\<lambda>c. the (async_retainer c)) (filter (\<lambda>c. async_retainer c \<noteq> None) cs)) r"
  by (induction cs arbitrary: r) (auto split: option.splits)

lemma fold_release_steps: "(registry_step pl sl)\<^sup>*\<^sup>* r (fold release_retained keys r)"
proof (induction keys arbitrary: r)
  case (Cons key keys)
  have "registry_step pl sl r (release_retained key r)" by (rule registry_step.release)
  then show ?case using Cons by (auto intro: converse_rtranclp_into_rtranclp)
qed simp

definition killed :: "sessions \<Rightarrow> nat \<Rightarrow> sessions" where
  "killed ss k = ss[k := (ss ! k)\<lparr>active := False, has_output := False\<rparr>]"

lemma killed_nth:
  "killed ss k ! j = (if j = k \<and> k < length ss then (ss ! k)\<lparr>active := False, has_output := False\<rparr> else ss ! j)"
  by (cases "k < length ss") (auto simp: killed_def list_update_beyond)

lemma killed_simps [simp]:
  "length (killed ss k) = length ss" "written (killed ss k ! j) = written (ss ! j)" "output_bad (killed ss k ! j) = output_bad (ss ! j)"
  "\<not> live (ss ! j) \<Longrightarrow> \<not> live (killed ss k ! j)" "k < length ss \<Longrightarrow> \<not> live (killed ss k ! k)"
  by (simp_all add: killed_def) (simp_all add: killed_def [symmetric] killed_nth live_def)

lemma framed_growth_killed [simp]: "framed_growth ss (killed ss k)"
  unfolding framed_growth_def by (auto simp: cut_frame_def intro: exI [of _ "[]"])

lemma clear_simps [simp]:
  "limits (clear s) = limits s" "quit (clear s)" "\<not> keepRunning (clear s)" "input_interrupted (clear s)"
  "session_output_state (clear s) = session_output_state s"
  "output_sessions (clear s) = killed (output_sessions s) (session_output_state s)"
  "dispatch (clear s) = stopOrderedDispatcher (dispatch s)" "route (clear s) = clearMessageRouting (route s)"
  "async_completion_stop (clear s)" "async_completions (clear s) = []"
  "cancellation_registry (clear s) =
     fold release_retained (map (\<lambda>c. the (async_retainer c)) (filter (\<lambda>c. async_retainer c \<noteq> None) (async_completions s)))
       (clear_registry (cancellation_registry s))"
  "client_requests (clear s) =
     (let t = failPendingRequests (client_requests s) in if has_pools s then stop_pool t else t)"
  "parse_tasks (clear s) = (if has_pools s then [] else parse_tasks s)"
  "handler_tasks (clear s) = (if has_pools s then [] else handler_tasks s)"
  "parsed_tasks (clear s) = parsed_tasks s" "parse_queue_size (clear s) = parse_queue_size s"
  "next_message_sequence (clear s) = next_message_sequence s" "running_requests (clear s) = running_requests s"
  "has_pools (clear s) = has_pools s" "routing_stuck (clear s) = routing_stuck s"
  by (simp_all add: clear_def Let_def stopWorkerPools_def stopAsyncCompletionLoop_def stop_async_eq killed_def)

lemma evolves_clear: "evolves s ((clear s)\<lparr>working := False\<rparr>)"
proof -
  let ?t = "failPendingRequests (client_requests s)"
  have reg: "(registry_step pl sl)\<^sup>*\<^sup>* (cancellation_registry s) (fold release_retained keys (clear_registry (cancellation_registry s)))" for pl sl keys
    by (rule converse_rtranclp_into_rtranclp [OF registry_step.clear fold_release_steps])
  have "pending_step (client_requests s) ?t" "pending_step ?t (stop_pool ?t)"
    by (rule pending_step.fail, rule pending_step.stop)
  then have tab: "pending_step\<^sup>*\<^sup>* (client_requests s) ?t" "pending_step\<^sup>*\<^sup>* (client_requests s) (stop_pool ?t)"
    by (auto intro: rtranclp.rtrancl_into_rtrancl)
  show ?thesis
    unfolding evolves_def using reg tab by (simp add: Let_def)
qed

lemma evolves_stop: "evolves s (stop s)"
proof -
  have "evolves s (s'\<lparr>has_producer_thread := y, working := w\<rparr>) = evolves s (s'\<lparr>working := w\<rparr>)" for s' y w
    by (simp add: evolves_def)
  then show ?thesis using evolves_clear [of s] by (simp add: stop_def)
qed

lemma evolves_handleOverload:
  assumes "evolves s s'"
  shows "evolves s (snd (handleOverload text s'))"
proof -
  have "evolves s' (stop (log ls s'))" for ls using evolves_stop [of "log ls s'"] by simp
  then have "evolves s' (snd (handleOverload text s'))" by (simp add: handleOverload_def Let_def)
  then show ?thesis using assms evolves_trans by blast
qed

lemma evolves_postToWorker [simp]: "evolves s (postToWorker msg n k pend s') = evolves s s'"
  by (simp add: postToWorker_def)

lemma evolves_on_cancel [simp]: "evolves s (on_cancel msg n s)"
proof -
  have "evolves s (s\<lparr>cancellation_registry := onCancel (max_pending_cancel_requests (limits s)) i n (cancellation_registry s)\<rparr>)" for i
    by (rule evolves_registry) (auto intro: registry_step.cancel)
  then show ?thesis by (simp add: on_cancel_def)
qed

lemma evolves_overload_while_routing [simp]: "evolves s (overload_while_routing text s') = evolves s s'"
  by (simp add: overload_while_routing_def Let_def)

lemma evolves_enqueue [simp]:
  "evolves s (enqueueNotification msg n k s)" "evolves s (enqueueRequest msg n k s)"
  by (auto simp: enqueueNotification_def enqueueRequest_def split: enqueue_result.splits prod.splits)

lemma evolves_complete:
  "evolves s s' \<Longrightarrow> evolves s (s'\<lparr>client_requests := completePendingResponse b msg a (client_requests s')\<rparr>)"
  by (rule evolves_table) (auto intro: pending_step.respond)

lemma evolves_routeParsedIncoming: "evolves s (snd (routeParsedIncoming to_json parsed n s))"
  by (auto simp: routeParsedIncoming_def Let_def intro: evolves_complete evolves_send split: option.splits prod.splits)

lemma evolves_route_all: "evolves s s' \<Longrightarrow> evolves s (snd (route_all to_json ready s'))"
proof (induction to_json ready s' rule: route_all.induct)
  case (2 to_json n parsed ready s')
  obtain e s1 where r: "routeParsedIncoming to_json parsed n s' = (e, s1)" by force
  then have "evolves s s1" using evolves_routeParsedIncoming [of s' to_json parsed n] 2(2) evolves_trans by auto
  then show ?case using 2(1) [OF r [symmetric]] r by (cases e) auto
qed simp

lemma evolves_submit: "evolves s (snd (submitParsedMessage to_json n parsed b s))"
  using evolves_handleOverload [of s "s\<lparr>route := r\<rparr>" m for r m] evolves_route_all [of s "s\<lparr>route := r\<rparr>" to_json for r]
  by (auto simp: submitParsedMessage_def split: sum.splits prod.splits)

lemma evolves_catch_log [simp]: "evolves s (catch_log k r) = evolves s (snd r)"
  by (auto simp: catch_log_def split: option.splits prod.splits)

lemma evolves_scope_exit:
  "evolves s s' \<Longrightarrow> evolves s (s'\<lparr>cancellation_registry := request_scope_exit i ck (cancellation_registry s')\<rparr>)"
  by (rule evolves_registry) (auto intro: registry_step.scope_exit)

lemma evolves_begin_request: "evolves s (snd (begin_request to_json msg n k s))"
proof -
  obtain ctx ck r where c: "cancelableRequestContext (max_seen_request_ids (limits s)) (msg_id msg) n Context_empty (cancellation_registry s) = (ctx, ck, r)"
    by (cases "cancelableRequestContext (max_seen_request_ids (limits s)) (msg_id msg) n Context_empty (cancellation_registry s)") auto
  have s1: "evolves s (s\<lparr>cancellation_registry := r\<rparr>)"
    by (rule evolves_registry) (use c in \<open>auto intro: registry_step.begin_request\<close>)
  show ?thesis
  proof (cases "request_handlers s (msg_method msg)")
    case None
    let ?s2 = "log [missing_handler ''method2request for request'' (to_json msg)] (s\<lparr>cancellation_registry := r\<rparr>)"
    obtain e ss where e: "sendSessionMessage to_json k (makeErrorMessage (msg_id msg) MethodNotFound (''Method not found: '' @ msg_method msg))
        (output_sessions ?s2) = (e, ss)" by force
    have "evolves s (?s2\<lparr>output_sessions := ss\<rparr>)" by (rule evolves_send [OF _ e]) (simp add: s1)
    then have "evolves s (?s2\<lparr>output_sessions := ss,
        cancellation_registry := request_scope_exit (msg_id msg) ck (cancellation_registry (?s2\<lparr>output_sessions := ss\<rparr>))\<rparr>)"
      by (rule evolves_scope_exit)
    then show ?thesis using None c e by (simp add: begin_request_def Let_def)
  next
    case (Some rk)
    then show ?thesis using c s1 by (simp add: begin_request_def)
  qed
qed

lemma evolves_mainLoop: "evolves s (mainLoopCatching to_json msg n k pend thrown s)"
  using evolves_begin_request [of s to_json msg n k]
  by (auto simp: mainLoopCatching_def mainLoop_def run_response_def run_notification_def intro: evolves_complete
      split: Kind.splits option.splits)

lemma evolves_run_handler_task: "evolves s (run_handler_task to_json n thrown s)"
  using evolves_mainLoop [of "s\<lparr>handler_tasks := take_nth n (handler_tasks s)\<rparr>" to_json]
  by (simp add: run_handler_task_def Let_def)

lemma evolves_release:
  "evolves s s' \<Longrightarrow> evolves s (s'\<lparr>cancellation_registry :=
     (case key of None \<Rightarrow> cancellation_registry s' | Some k \<Rightarrow> release_retained k (cancellation_registry s'))\<rparr>)"
  by (cases key) (auto intro!: evolves_registry intro: registry_step.release)

lemma evolves_completeAsync: "evolves s (completeAsyncHandler i k s)"
proof -
  obtain key r where k: "retainRequestCancellation i (cancellation_registry s) = (key, r)" by force
  have "registry_step pl sl (cancellation_registry s) r" for pl sl
    using registry_step.retain [of pl sl "cancellation_registry s" i] k by simp
  then have s1: "evolves s (s\<lparr>cancellation_registry := r\<rparr>)" by (intro evolves_registry) auto
  show ?thesis using evolves_release [OF s1, of key] s1 by (simp add: completeAsyncHandler_def k postAsyncCompletion_def)
qed

lemma evolves_finish_request: "evolves s (finish_request to_json n res s)"
proof (cases "n < length (running_requests s)")
  case True
  let ?q = "running_requests s ! n"
  let ?s1 = "s\<lparr>running_requests := take_nth n (running_requests s)\<rparr>"
  obtain e s2 where r: "(case res of
                   ReturnsFuture \<Rightarrow> (None, if is_async (run_kind ?q) then completeAsyncHandler (run_id ?q) (run_session ?q) ?s1 else ?s1)
                 | Ended out \<Rightarrow>
                     (case answer_request to_json (run_session ?q) (run_id ?q) out (output_sessions ?s1) of
                        (e, ss) \<Rightarrow> (e, ?s1\<lparr>output_sessions := ss\<rparr>))) = (e, s2)" by force
  have "evolves s ?s1" by simp
  then have "evolves s s2"
    using r evolves_completeAsync [of ?s1 "run_id ?q" "run_session ?q"] evolves_answer [of s ?s1 to_json "run_session ?q" "run_id ?q"]
    by (auto split: request_end.splits prod.splits if_splits)
  from evolves_scope_exit [OF this] show ?thesis using True r by (simp add: finish_request_def Let_def)
qed (simp add: finish_request_def)

lemma evolves_async_round: "evolves s (async_round to_json ready s)"
proof (cases "async_completion_stop s \<or> async_completions s = [] \<or> ready = None")
  case True
  then show ?thesis by (auto simp: async_round_def split: list.splits)
next
  case False
  then obtain c cs out where c: "\<not> async_completion_stop s" "async_completions s = c # cs" "ready = Some out"
    by (cases "async_completions s") auto
  obtain e ss where e: "answer_request to_json (async_session c) (async_id c) out (output_sessions s) = (e, ss)" by force
  have "evolves s (s\<lparr>async_completions := cs, output_sessions := ss\<rparr>)"
    using evolves_answer [of s "s\<lparr>async_completions := cs\<rparr>" to_json "async_session c" "async_id c" out e ss] e by simp
  from evolves_release [OF this, of "async_retainer c"] show ?thesis by (cases "async_retainer c") (simp_all add: async_round_def c e)
qed

lemma evolves_notification_thread:
  "evolves s (take_next_notification s)" "evolves s (finish_running_notification to_json thrown s)"
proof -
  show "evolves s (take_next_notification s)" by (auto simp: take_next_notification_def split: option.splits)
  have post: "evolves t (postReadyParkedRequests ready t') = evolves t t'" for t t' ready
    by (induction ready arbitrary: t') (simp_all add: postReadyParkedRequests_def)
  show "evolves s (finish_running_notification to_json thrown s)"
    using evolves_mainLoop [of "s\<lparr>running_notification := None\<rparr>" to_json]
    by (auto simp: finish_running_notification_def Let_def post split: option.splits prod.splits)
qed

lemma evolves_sendMsg: "evolves s (snd (sendMsg to_json ctx msg s))"
  by (auto simp: sendMsg_def intro: evolves_send split: prod.splits)

lemma evolves_sendRequest: "evolves s (snd (snd (internalSendRequestWithPolicy to_json info deferred s)))"
proof -
  let ?k = "session_output_state s"
  let ?st = "output_sessions s ! ?k"
  obtain a i t where p: "pendingRequest (max_pending_outgoing_requests (limits s)) (msg_method info) (msg_id info) deferred (client_requests s) = (a, i, t)"
    by (cases "pendingRequest (max_pending_outgoing_requests (limits s)) (msg_method info) (msg_id info) deferred (client_requests s)") auto
  have st: "pending_step (client_requests s) t"
    using pending_step.send [of "client_requests s" "max_pending_outgoing_requests (limits s)" "msg_method info" "msg_id info" deferred] p by simp
  have rm: "pending_step\<^sup>*\<^sup>* t (snd (removeRequestInfo_expected i b t))" for b
    by (auto simp: removeRequestInfo_expected_def intro: pending_step.time_out)
  have t: "evolves s (s\<lparr>client_requests := t\<rparr>)" by (rule evolves_table) (use st in auto)
  have t': "evolves s (s\<lparr>client_requests := snd (removeRequestInfo_expected i b t)\<rparr>)" for b
    by (rule evolves_table) (use st rm in \<open>auto intro: converse_rtranclp_into_rtranclp\<close>)
  have w: "evolves s (s'\<lparr>output_sessions := (output_sessions s)[?k := st]\<rparr>)"
    if "evolves s s'" "output_sessions s' = output_sessions s" "live ?st" "\<not> output_bad ?st" "write_output (WriterMsg m) ?st = (e, st)" for s' m e st
    using evolves_sessions [OF that(1), of "(output_sessions s)[?k := st]"] that framed_growth_update write_growth
    by (auto intro: nth_list_update_neq)
  show ?thesis
    using t t' w [OF t] w [OF t'] by (auto simp: internalSendRequestWithPolicy_def p Let_def live_def split: option.splits prod.splits)
qed

lemma evolves_cancelRequest: "evolves s (snd (snd (cancelRequest to_json ctx notify i s)))"
  using evolves_sendMsg by (simp add: cancelRequest_def)

lemma evolves_register:
  "evolves s (snd (registerRequestHandler k m f s))" "evolves s (snd (registerNotificationHandler m f s))"
  "evolves s (snd (overrideRequestParser m f s))" "evolves s (snd (overrideResponseParser m f s))"
  "evolves s (snd (ensureResponseJsonHandler m f s))" "evolves s (snd (allowConcurrentNotification m s))"
  by (simp_all add: registerRequestHandler_def registerNotificationHandler_def overrideRequestParser_def overrideResponseParser_def
      ensureResponseJsonHandler_def allowConcurrentNotification_def canRegisterBeforeStart_def)

text \<open>The output stream of a session may also become bad by itself, between two writes.\<close>

definition output_fails :: "nat \<Rightarrow> endpoint \<Rightarrow> endpoint" where
  "output_fails j s = s\<lparr>output_sessions := (output_sessions s)[j := (output_sessions s ! j)\<lparr>output_bad := True\<rparr>]\<rparr>"

lemma evolves_output_fails: "evolves s (output_fails j s)"
proof -
  let ?ss = "(output_sessions s)[j := (output_sessions s ! j)\<lparr>output_bad := True\<rparr>]"
  have eq: "written (?ss ! i) = written (output_sessions s ! i)" "live (?ss ! i) = live (output_sessions s ! i)"
    "output_bad (output_sessions s ! i) \<longrightarrow> output_bad (?ss ! i)" for i
    by (cases "i = j"; cases "j < length (output_sessions s)"; simp add: live_def list_update_beyond)+
  have "framed_growth (output_sessions s) ?ss"
    unfolding framed_growth_def eq(1) using eq(3) by (auto simp: cut_frame_def intro!: exI [of _ "[]"])
  then show ?thesis by (simp add: output_fails_def evolves_def eq)
qed

section \<open>The step relation\<close>

text \<open>
  One step is one locked section or one task; the arguments that the relation leaves open are
  the choices of the environment.  Between \<^const>\<open>open_session\<close> and \<^const>\<open>start_threads\<close> the old
  workers may still run; replacing their pools waits for them.  Once a thread is stuck in routing the steps
  that need its mutexes are not taken: nothing is routed, and the endpoint neither stops nor starts.
\<close>

inductive endpoint_step ::
  "(LspMessage \<Rightarrow> string) \<Rightarrow> (string \<Rightarrow> (string \<times> nat) + json) \<Rightarrow> endpoint \<Rightarrow> endpoint \<Rightarrow> bool"
  for to_json parse_json where
  receive: "endpoint_step to_json parse_json s (snd (receive to_json input_text s))"
| frame_overload: "\<not> routing_stuck s \<Longrightarrow> endpoint_step to_json parse_json s (snd (handleOverload message_text s))"
| parse: "endpoint_step to_json parse_json s (run_parse parse_json n s)"
| submit: "\<not> routing_stuck s \<Longrightarrow> endpoint_step to_json parse_json s (snd (finish_parse to_json n s))"
| handler: "endpoint_step to_json parse_json s (run_handler_task to_json n thrown s)"
| finish: "endpoint_step to_json parse_json s (finish_request to_json n res s)"
| deferred: "endpoint_step to_json parse_json s (s\<lparr>client_requests := run_posted n (client_requests s)\<rparr>)"
| async: "endpoint_step to_json parse_json s (async_round to_json ready s)"
| take_next: "endpoint_step to_json parse_json s (take_next_notification s)"
| notification_done: "endpoint_step to_json parse_json s (finish_running_notification to_json thrown s)"
| send: "endpoint_step to_json parse_json s (snd (sendMsg to_json ctx msg s))"
| send_request: "endpoint_step to_json parse_json s (snd (snd (internalSendRequestWithPolicy to_json info deferred s)))"
| forget_request: "endpoint_step to_json parse_json s (s\<lparr>client_requests := removeRequestInfo i (client_requests s)\<rparr>)"
| cancel_request: "endpoint_step to_json parse_json s (snd (snd (cancelRequest to_json ctx notify i s)))"
| register_request: "endpoint_step to_json parse_json s (snd (registerRequestHandler k m f s))"
| register_notification: "endpoint_step to_json parse_json s (snd (registerNotificationHandler m f s))"
| override_request: "endpoint_step to_json parse_json s (snd (overrideRequestParser m f s))"
| override_response: "endpoint_step to_json parse_json s (snd (overrideResponseParser m f s))"
| ensure_response: "endpoint_step to_json parse_json s (snd (ensureResponseJsonHandler m f s))"
| allow_concurrent: "endpoint_step to_json parse_json s (snd (allowConcurrentNotification m s))"
| output_fails: "endpoint_step to_json parse_json s (output_fails j s)"
| stop: "\<not> routing_stuck s \<Longrightarrow> endpoint_step to_json parse_json s (stop s)"
| start_open: "\<not> working s \<Longrightarrow> \<not> routing_stuck s \<Longrightarrow> endpoint_step to_json parse_json s (open_session bad ws s)"
| start_again: "working s \<Longrightarrow> endpoint_step to_json parse_json s (startProcessingMessages bad ws s)"
| start_threads: "\<not> routing_stuck s \<Longrightarrow> working s \<Longrightarrow> \<not> has_producer_thread s \<Longrightarrow> parsed_tasks s = [] \<Longrightarrow> endpoint_step to_json parse_json s (start_threads s)"

inductive endpoint_reach ::
  "(LspMessage \<Rightarrow> string) \<Rightarrow> (string \<Rightarrow> (string \<times> nat) + json) \<Rightarrow> endpoint \<Rightarrow> bool" for to_json parse_json where
  init: "endpoint_reach to_json parse_json (make_RemoteEndPoint lim parse_cancel h)"
| step: "endpoint_reach to_json parse_json s \<Longrightarrow> endpoint_step to_json parse_json s s' \<Longrightarrow> endpoint_reach to_json parse_json s'"

text \<open>What the relation \<^const>\<open>evolves\<close> says of a step, apart from parsing work and from starting.\<close>

definition component_steps :: "endpoint \<Rightarrow> endpoint \<Rightarrow> bool" where
  "component_steps s s' \<longleftrightarrow>
     limits s' = limits s \<and> pending_step\<^sup>*\<^sup>* (client_requests s) (client_requests s') \<and>
     (registry_step (max_pending_cancel_requests (limits s)) (max_seen_request_ids (limits s)))\<^sup>*\<^sup>*
        (cancellation_registry s) (cancellation_registry s')"

definition session_steps :: "endpoint \<Rightarrow> endpoint \<Rightarrow> bool" where
  "session_steps s s' \<longleftrightarrow>
     length (output_sessions s') = length (output_sessions s) \<and> session_output_state s' = session_output_state s \<and>
     (\<forall>j. \<not> live (output_sessions s ! j) \<longrightarrow>
        \<not> live (output_sessions s' ! j) \<and> written (output_sessions s' ! j) = written (output_sessions s ! j)) \<and>
     framed_growth (output_sessions s) (output_sessions s') \<and>
     (working s' = working s \<or>
      \<not> working s' \<and> (session_output_state s < length (output_sessions s) \<longrightarrow> \<not> live (output_sessions s' ! session_output_state s)))"

lemma evolves_parts: "evolves s s' \<Longrightarrow> component_steps s s' \<and> session_steps s s'"
  by (auto simp: evolves_def component_steps_def session_steps_def)

lemma parse_parts:
  assumes "s' \<in> {snd (receive to_json m s), run_parse parse_json n s, snd (finish_parse to_json n s)}"
  shows "component_steps s s' \<and> session_steps s s'"
proof -
  have eq: "component_steps (s\<lparr>next_message_sequence := x\<rparr>) t = component_steps s t" "session_steps (s\<lparr>next_message_sequence := x\<rparr>) t = session_steps s t"
    "component_steps s (t\<lparr>parse_queue_size := y\<rparr>) = component_steps s t" "session_steps s (t\<lparr>parse_queue_size := y\<rparr>) = session_steps s t"
    "component_steps s (t\<lparr>parse_tasks := z\<rparr>) = component_steps s t" "session_steps s (t\<lparr>parse_tasks := z\<rparr>) = session_steps s t"
    "component_steps s (t\<lparr>parsed_tasks := v\<rparr>) = component_steps s t" "session_steps s (t\<lparr>parsed_tasks := v\<rparr>) = session_steps s t"
    "component_steps (s\<lparr>parsed_tasks := v\<rparr>) t = component_steps s t" "session_steps (s\<lparr>parsed_tasks := v\<rparr>) t = session_steps s t"
    for s t x y z v by (simp_all add: component_steps_def session_steps_def)
  have acq: "component_steps t (snd (snd (acquireParseQueueSlot to_json n t))) \<and> session_steps t (snd (snd (acquireParseQueueSlot to_json n t)))" for t n
  proof -
    have "evolves t (snd (submitParsedMessage to_json n empty_parsed True s1))" if "handleOverload m t = (b, s1)" for m b s1
      using evolves_handleOverload [of t t m] evolves_submit evolves_trans that by (metis evolves_refl snd_conv)
    moreover have "evolves t s1" if "handleOverload m t = (b, s1)" for m b s1
      using evolves_handleOverload [of t t m] that by simp
    ultimately show ?thesis
      using evolves_parts [OF evolves_refl] by (auto simp: acquireParseQueueSlot_def eq evolves_parts split: prod.splits bool.splits)
  qed
  have post: "component_steps t (snd (postParseTask to_json m n t)) \<and> session_steps t (snd (postParseTask to_json m n t))" for t m n
    using acq [of t n] evolves_parts [OF evolves_refl] by (auto simp: postParseTask_def eq split: prod.splits bool.splits)
  have sub: "component_steps t (snd (submitParsedMessage to_json n p b t)) \<and> session_steps t (snd (submitParsedMessage to_json n p b t))" for t n p b
    using evolves_parts [OF evolves_submit] .
  from assms consider "s' = snd (receive to_json m s)" | "s' = run_parse parse_json n s" | "s' = snd (finish_parse to_json n s)" by blast
  then show ?thesis
  proof cases
    case 1
    then show ?thesis using post [of "s\<lparr>next_message_sequence := next_message_sequence s + 1\<rparr>" m "next_message_sequence s"] by (simp add: receive_def eq)
  next
    case 2
    have "component_steps s (log ls t) = component_steps s t" "session_steps s (log ls t) = session_steps s t" for ls t
      by (simp_all add: log_def component_steps_def session_steps_def)
    then show ?thesis using 2 evolves_parts [OF evolves_refl, of s] by (auto simp: run_parse_def eq split: prod.splits)
  next
    case 3
    show ?thesis
    proof (cases "n < length (parsed_tasks s)")
      case True
      let ?s = "s\<lparr>parsed_tasks := take n (parsed_tasks s) @ drop (Suc n) (parsed_tasks s)\<rparr>"
      obtain p q where pq: "parsed_tasks s ! n = (p, q)" by force
      obtain e s1 where e: "submitParsedMessage to_json q p False ?s = (e, s1)" by force
      have "component_steps s s1 \<and> session_steps s s1" using sub [of ?s q p False] e by (simp add: eq)
      moreover have "s' = (if routing_stuck s1 then s1 else releaseParseQueueSlot s1)" using 3 True pq e by (simp add: finish_parse_def)
      ultimately show ?thesis by (simp add: eq releaseParseQueueSlot_def)
    next
      case False
      then show ?thesis using 3 evolves_parts [OF evolves_refl, of s] by (simp add: finish_parse_def)
    qed
  qed
qed

lemmas evolves_operations =
  evolves_run_handler_task evolves_finish_request evolves_async_round evolves_notification_thread
  evolves_sendMsg evolves_sendRequest evolves_cancelRequest evolves_register evolves_output_fails evolves_stop

lemma endpoint_step_split:
  assumes "endpoint_step to_json parse_json s s'"
  obtains (op) "evolves s s'"
    | (parsing) m n where "s' \<in> {snd (receive to_json m s), run_parse parse_json n s, snd (finish_parse to_json n s)}"
    | (new_session) bad ws where "\<not> working s" "s' = open_session bad ws s"
    | (threads) "s' = start_threads s"
  using assms
proof (cases rule: endpoint_step.cases)
  case (deferred n)
  have "evolves s (s\<lparr>client_requests := run_posted n (client_requests s)\<rparr>)" by (rule evolves_table) (auto intro: pending_step.run)
  then show ?thesis using deferred op by simp
next
  case (forget_request i)
  have "evolves s (s\<lparr>client_requests := removeRequestInfo i (client_requests s)\<rparr>)" by (rule evolves_table) (auto intro: pending_step.time_out)
  then show ?thesis using forget_request op by simp
next
  case (frame_overload message_text)
  then show ?thesis using evolves_handleOverload [OF evolves_refl] op by simp
qed (blast intro: parsing, blast intro: parsing, blast intro: parsing, simp_all add: evolves_operations startProcessingMessages_def that)

lemma endpoint_step_parts:
  assumes "endpoint_step to_json parse_json s s'"
  shows "component_steps s s' \<and>
    (session_steps s s' \<or> (\<exists>bad ws. \<not> working s \<and> s' = open_session bad ws s) \<or> s' = start_threads s)"
  using assms
proof (cases rule: endpoint_step_split)
  case op
  then show ?thesis using evolves_parts by blast
next
  case (parsing m n)
  then show ?thesis using parse_parts by blast
next
  case (new_session bad ws)
  then show ?thesis by (auto simp: component_steps_def open_session_def startAsyncCompletionLoop_def Let_def)
next
  case threads
  then show ?thesis by (auto simp: component_steps_def start_threads_def Let_def)
qed

section \<open>Properties of the whole endpoint\<close>

subsection \<open>Components\<close>

lemma pending_steps_reach: "pending_step\<^sup>*\<^sup>* t t' \<Longrightarrow> pending_reach t \<Longrightarrow> pending_reach t'"
  by (induction rule: rtranclp_induct) (auto intro: pending_reach.step)

lemma registry_steps_reach: "(registry_step pl sl)\<^sup>*\<^sup>* r r' \<Longrightarrow> registry_reach pl sl r \<Longrightarrow> registry_reach pl sl r'"
  by (induction rule: rtranclp_induct) (auto intro: registry_reach.step)

lemma endpoint_components:
  "endpoint_reach to_json parse_json s \<Longrightarrow>
     pending_reach (client_requests s) \<and>
     registry_reach (max_pending_cancel_requests (limits s)) (max_seen_request_ids (limits s)) (cancellation_registry s)"
proof (induction rule: endpoint_reach.induct)
  case (init lim parse_cancel h)
  then show ?case by (simp add: make_RemoteEndPoint_def pending_reach.init registry_reach.init)
next
  case (step s s')
  from endpoint_step_parts [OF step(2)] have "component_steps s s'" by blast
  with step show ?case using pending_steps_reach registry_steps_reach by (auto simp: component_steps_def)
qed

text \<open>The results on the parts hold of the endpoint as a whole: whatever the threads do, the
  handler of an outgoing request is called at most once, and the registry keeps its limits.\<close>

theorem endpoint_components_safe:
  assumes "endpoint_reach to_json parse_json s"
  shows "distinct (map fst (delivered (client_requests s))) \<and>
         within (max_pending_cancel_requests (limits s)) (pendingCancelRequests (cancellation_registry s)) \<and>
         within (max_seen_request_ids (limits s)) (seenRequestIds (cancellation_registry s))"
  using endpoint_components [OF assms] pending_reach_ok registry_reach_ok by (auto simp: pending_ok_def)

subsection \<open>Output of ended sessions\<close>

definition sessions_ok :: "endpoint \<Rightarrow> bool" where
  "sessions_ok s \<longleftrightarrow>
     session_output_state s < length (output_sessions s) \<and>
     (\<forall>j<length (output_sessions s). live (output_sessions s ! j) \<longrightarrow> j = session_output_state s \<and> working s)"

lemma sessions_ok_steps: "session_steps s s' \<Longrightarrow> sessions_ok s \<Longrightarrow> sessions_ok s'"
  unfolding session_steps_def sessions_ok_def by metis

lemma sessions_ok_start:
  assumes "sessions_ok s"
  shows "\<not> working s \<Longrightarrow> sessions_ok (open_session bad ws s)" "sessions_ok (start_threads s)"
  using assms
  by (auto simp: sessions_ok_def open_session_def start_threads_def startAsyncCompletionLoop_def Let_def nth_append less_Suc_eq)

lemma endpoint_sessions_ok: "endpoint_reach to_json parse_json s \<Longrightarrow> sessions_ok s"
proof (induction rule: endpoint_reach.induct)
  case (init lim parse_cancel h)
  then show ?case by (simp add: sessions_ok_def make_RemoteEndPoint_def fresh_session_def live_def)
next
  case (step s s')
  then show ?case using endpoint_step_parts [OF step(2)] sessions_ok_steps sessions_ok_start by blast
qed

text \<open>C7: Output only ever goes to the session that is current and running: once an endpoint has been
  stopped, or stopped and started again, whatever handlers, futures and completions end late, nothing more is
  written to the output of the earlier session.\<close>

theorem no_output_after_session:
  assumes "endpoint_reach to_json parse_json s" "endpoint_step to_json parse_json s s'"
    and "j < length (output_sessions s)" "written (output_sessions s' ! j) \<noteq> written (output_sessions s ! j)"
  shows "j = session_output_state s \<and> working s \<and> live (output_sessions s ! j)"
proof -
  have "live (output_sessions s ! j)"
  proof (rule ccontr)
    assume dead: "\<not> live (output_sessions s ! j)"
    from endpoint_step_parts [OF assms(2)] consider "session_steps s s'" | bad ws where "s' = open_session bad ws s" | "s' = start_threads s" by blast
    then have "written (output_sessions s' ! j) = written (output_sessions s ! j)"
    proof cases
      case 1
      then show ?thesis using dead by (simp add: session_steps_def)
    next
      case 2
      then show ?thesis using assms(3) by (simp add: open_session_def startAsyncCompletionLoop_def Let_def nth_append)
    next
      case 3
      then show ?thesis by (simp add: start_threads_def Let_def)
    qed
    then show False using assms(4) by simp
  qed
  then show ?thesis using endpoint_sessions_ok [OF assms(1)] assms(3) by (simp add: sessions_ok_def)
qed

subsection \<open>Whole frames\<close>

text \<open>The output of a session is a sequence of whole frames, after which there may be the beginning of one more if the stream has
  become bad.\<close>

definition framed :: "SessionOutputState \<Rightarrow> bool" where
  "framed st \<longleftrightarrow>
     (\<exists>ms cut. written st = concat (map WriterMsg ms) @ cut \<and> cut_frame cut \<and> (cut \<noteq> [] \<longrightarrow> output_bad st))"

lemma framed_empty: "written st = [] \<Longrightarrow> framed st"
  unfolding framed_def cut_frame_def by (intro exI [of _ "[]"]) simp

lemma framed_growth_framed:
  assumes "framed_growth ss ss'" "framed (ss ! j)"
  shows "framed (ss' ! j)"
proof -
  from assms(2) obtain ms cut where c: "written (ss ! j) = concat (map WriterMsg ms) @ cut" "cut_frame cut" "cut \<noteq> [] \<longrightarrow> output_bad (ss ! j)"
    unfolding framed_def by blast
  from assms(1) obtain ms' cut' where c': "written (ss' ! j) = written (ss ! j) @ concat (map WriterMsg ms') @ cut'" "cut_frame cut'"
      "cut' \<noteq> [] \<longrightarrow> output_bad (ss' ! j)" and bad: "output_bad (ss ! j) \<longrightarrow> output_bad (ss' ! j) \<and> written (ss' ! j) = written (ss ! j)"
    unfolding framed_growth_def by blast
  show ?thesis
  proof (cases "cut = []")
    case True
    then show ?thesis unfolding framed_def using c c' by (intro exI [of _ "ms @ ms'"] exI [of _ cut']) simp
  next
    case False
    then show ?thesis unfolding framed_def using c bad by (intro exI [of _ ms] exI [of _ cut]) simp
  qed
qed

lemma endpoint_output_framed:
  "endpoint_reach to_json parse_json s \<Longrightarrow> j < length (output_sessions s) \<Longrightarrow> framed (output_sessions s ! j)"
proof (induction arbitrary: j rule: endpoint_reach.induct)
  case (init lim parse_cancel h)
  then show ?case by (simp add: make_RemoteEndPoint_def fresh_session_def framed_empty)
next
  case (step s s')
  from endpoint_step_parts [OF step(2)] consider "session_steps s s'" | bad ws where "s' = open_session bad ws s" | "s' = start_threads s" by blast
  then show ?case
  proof cases
    case 1
    then show ?thesis using step(3,4) framed_growth_framed by (auto simp: session_steps_def)
  next
    case 2
    then show ?thesis using step(3,4)
      by (auto simp: open_session_def startAsyncCompletionLoop_def Let_def nth_append fresh_session_def less_Suc_eq framed_empty)
  next
    case 3
    then show ?thesis using step(3,4) by (simp add: start_threads_def Let_def)
  qed
qed

subsection \<open>Stopping\<close>

lemma release_retained_flags [simp]: "flags (release_retained key r) = flags r"
  by (auto simp: release_retained_def erase_canceler_def split: option.splits)

lemma fold_release_flags [simp]: "flags (fold release_retained keys r) = flags r"
  by (induction keys arbitrary: r) simp_all

lemma fold_release_empty [simp]: "requestCancelers r = [] \<Longrightarrow> requestCancelers (fold release_retained keys r) = []"
proof (induction keys arbitrary: r)
  case (Cons key keys)
  have "requestCancelers (release_retained key r) = []"
    using Cons(2) by (auto simp: release_retained_def erase_canceler_def split: option.splits)
  then show ?case using Cons(1) by simp
qed simp

lemma fold_invoke_sets:
  "e \<in> set es \<Longrightarrow> fst (snd e) < length (flags r) \<Longrightarrow>
     flags (fold (\<lambda>e. invoke_canceler (fst (snd e))) es r) ! fst (snd e) = RequestCancelled"
proof (induction es arbitrary: r)
  case (Cons d es)
  show ?case
  proof (cases "e \<in> set es")
    case True
    then show ?thesis using Cons by simp
  next
    case False
    then have "d = e" using Cons(2) by simp
    then show ?thesis using Cons(3) by (simp add: fold_invoke_sticky)
  qed
qed simp

lemma clear_registry_cancels:
  assumes "registry_ok r" "map_of (requestCancelers r) i = Some (a, ck)"
  shows "flags (clear_registry r) ! a = RequestCancelled"
proof -
  have "(i, a, ck) \<in> set (requestCancelers r)" "a < length (flags r)"
    using assms map_of_SomeD by (fastforce simp: registry_ok_def)+
  then show ?thesis
    using fold_invoke_sets [of "(i, a, ck)" "requestCancelers r" "r\<lparr>requestCancelers := [], retainedRequestCancelers := [],
        pendingCancelRequests := [], pendingCancelOrder := [], seenRequestIds := [], seenRequestOrder := []\<rparr>"]
    by (simp add: clear_registry_def)
qed

text \<open>A running request that can be cancelled: its identifier has the canceler of the flag that its own monitor reads.\<close>

definition cancelable :: "running_request \<Rightarrow> endpoint \<Rightarrow> bool" where
  "cancelable q s \<longleftrightarrow>
     (case map_of (requestCancelers (cancellation_registry s)) (run_id q) of
        None \<Rightarrow> False
      | Some (a, ck) \<Rightarrow> monitored_flag (run_id q) (run_context q) = Some a)"

text \<open>A request is cancelable when its handler begins.\<close>

lemma begun_cancelable:
  assumes "endpoint_reach to_json parse_json s" "request_handlers s (msg_method msg) = Some rk"
  shows "\<exists>q. running_requests (snd (begin_request to_json msg n k s)) = running_requests s @ [q] \<and> run_id q = msg_id msg \<and>
    cancelable q (snd (begin_request to_json msg n k s))"
proof -
  obtain ctx ck r where c: "cancelableRequestContext (max_seen_request_ids (limits s)) (msg_id msg) n Context_empty (cancellation_registry s) = (ctx, ck, r)"
    by (metis prod_cases3)
  have "map_ok (requestCancelers (cancellation_registry s))"
    using endpoint_components [OF assms(1)] registry_reach_ok by (auto simp: registry_ok_def)
  then have "map_of (requestCancelers r) (msg_id msg) = Some (length (flags (cancellation_registry s)), ck)"
    using cancelableRequestContext_simps(4) [OF c] by (simp add: map_of_set)
  then show ?thesis using assms(2) begun_flag(1) [OF c] by (simp add: begin_request_def c cancelable_def)
qed

text \<open>C23: Stopping a working endpoint ends everything at once: no message is let through any more, the
  session is closed, nothing is queued, every outgoing request that was pending is completed with an
  error, no canceler is left, and the monitor of every running request that could be cancelled until then (whose
  identifier was not taken over by a later request) returns the reason.\<close>

theorem stop_quiesces:
  assumes "endpoint_reach to_json parse_json s" "working s" "has_pools s"
  shows "quit (stop s) \<and> \<not> working (stop s) \<and> \<not> live (output_sessions (stop s) ! session_output_state (stop s)) \<and>
         parse_tasks (stop s) = [] \<and> handler_tasks (stop s) = [] \<and> reorder_buffer (route (stop s)) = [] \<and>
         notification_queue (dispatch (stop s)) = [] \<and> parked_requests (dispatch (stop s)) = [] \<and>
         async_completions (stop s) = [] \<and> posted (client_requests (stop s)) = [] \<and>
         futures (client_requests (stop s)) = [] \<and>
         (\<forall>i a. (i, a) \<in> set (futures (client_requests s)) \<longrightarrow> (a, stopped_message i) \<in> set (delivered (client_requests (stop s)))) \<and>
         requestCancelers (cancellation_registry (stop s)) = [] \<and> running_requests (stop s) = running_requests s \<and>
         (\<forall>q. q \<in> set (running_requests s) \<and> cancelable q s \<longrightarrow> monitor_value q (stop s) = RequestCancelled)"
proof -
  note c = endpoint_components [OF assms(1)]
  have stop: "stop s = (clear s)\<lparr>has_producer_thread := False, working := False\<rparr>" using assms(2) by (simp add: stop_def)
  have ok: "session_output_state s < length (output_sessions s)" using endpoint_sessions_ok [OF assms(1)] by (simp add: sessions_ok_def)
  have p: "pending_ok (client_requests s)" "registry_ok (cancellation_registry s)"
    using c pending_reach_ok registry_reach_ok by blast+
  have fut: "futures (failPendingRequests (client_requests s)) = []"
    "delivered (failPendingRequests (client_requests s)) =
       delivered (client_requests s) @ map (\<lambda>e. (snd e, stopped_message (fst e))) (futures (client_requests s))"
    using fail_pending [OF p(1)] by blast+
  have del: "(a, stopped_message i) \<in> set (delivered (failPendingRequests (client_requests s)))" if "(i, a) \<in> set (futures (client_requests s))" for i a
    using that by (force simp: fut)
  have reg: "requestCancelers (clear_registry r) = []" for r by (simp add: clear_registry_def)
  have mon: "monitor_value q (stop s) = RequestCancelled" if can: "cancelable q s" for q
  proof -
    obtain a ck where a: "map_of (requestCancelers (cancellation_registry s)) (run_id q) = Some (a, ck)" "monitored_flag (run_id q) (run_context q) = Some a"
      using can by (auto simp: cancelable_def split: option.splits)
    show ?thesis using clear_registry_cancels [OF p(2) a(1)] by (simp add: monitor_value_def getCancelMonitor_flag a(2) stop)
  qed
  have rest: "quit (stop s) \<and> \<not> working (stop s) \<and> \<not> live (output_sessions (stop s) ! session_output_state (stop s)) \<and>
         parse_tasks (stop s) = [] \<and> handler_tasks (stop s) = [] \<and> reorder_buffer (route (stop s)) = [] \<and>
         notification_queue (dispatch (stop s)) = [] \<and> parked_requests (dispatch (stop s)) = [] \<and>
         async_completions (stop s) = [] \<and> posted (client_requests (stop s)) = [] \<and> futures (client_requests (stop s)) = [] \<and>
         (\<forall>i a. (i, a) \<in> set (futures (client_requests s)) \<longrightarrow> (a, stopped_message i) \<in> set (delivered (client_requests (stop s)))) \<and>
         requestCancelers (cancellation_registry (stop s)) = [] \<and> running_requests (stop s) = running_requests s"
    unfolding stop using ok fut del reg assms(3)
    by (simp add: Let_def stop_pool_def clearMessageRouting_def stopOrderedDispatcher_def)
  then show ?thesis using mon by blast
qed

subsection \<open>Parsing work\<close>

definition slots_ok :: "endpoint \<Rightarrow> bool" where
  "slots_ok s \<longleftrightarrow>
     (max_parse_queue_size (limits s) \<noteq> 0 \<longrightarrow> parse_queue_size s \<le> max_parse_queue_size (limits s)) \<and>
     length (parse_tasks s) + length (parsed_tasks s) \<le> parse_queue_size s"

lemma slots_ok_evolves: "evolves s s' \<Longrightarrow> slots_ok s \<Longrightarrow> slots_ok s'"
  by (auto simp: evolves_def slots_ok_def)

lemma slots_ok_receive:
  assumes "slots_ok s"
  shows "slots_ok (snd (receive to_json m s))"
proof -
  let ?s = "s\<lparr>next_message_sequence := next_message_sequence s + 1\<rparr>"
  let ?n = "next_message_sequence s"
  have ok: "slots_ok ?s" using assms by (simp add: slots_ok_def)
  show ?thesis
  proof (cases "quit s \<or> \<not> has_pools s")
    case True
    then show ?thesis using ok by (auto simp: receive_def postParseTask_def)
  next
    case False
    show ?thesis
    proof (cases "max_parse_queue_size (limits s) \<noteq> 0 \<and> parse_queue_size s \<ge> max_parse_queue_size (limits s)")
      case True
      obtain b s1 where o: "handleOverload (parse_overload_text (max_parse_queue_size (limits ?s))) ?s = (b, s1)" by force
      then have "evolves ?s s1" using evolves_handleOverload [OF evolves_refl, of ?s] by (metis snd_conv)
      then have "slots_ok s1" "slots_ok (snd (submitParsedMessage to_json ?n empty_parsed True s1))"
        using ok slots_ok_evolves evolves_submit by blast+
      then show ?thesis using True False o
        by (cases b; cases "submitParsedMessage to_json ?n empty_parsed True s1") (simp_all add: receive_def postParseTask_def acquireParseQueueSlot_def)
    next
      case room: False
      then show ?thesis using False ok by (auto simp: receive_def postParseTask_def acquireParseQueueSlot_def slots_ok_def)
    qed
  qed
qed

lemma take_drop_length: "n < length xs \<Longrightarrow> length (take n xs @ drop (Suc n) xs) = length xs - 1"
  by simp

lemma slots_ok_run_parse: "slots_ok s \<Longrightarrow> slots_ok (run_parse parse_json n s)"
  by (auto simp: run_parse_def slots_ok_def log_def split: prod.splits)

lemma slots_ok_finish_parse:
  assumes "slots_ok s"
  shows "slots_ok (snd (finish_parse to_json n s))"
proof (cases "n < length (parsed_tasks s)")
  case True
  let ?s = "s\<lparr>parsed_tasks := take n (parsed_tasks s) @ drop (Suc n) (parsed_tasks s)\<rparr>"
  obtain p q where pq: "parsed_tasks s ! n = (p, q)" by force
  obtain e s1 where e: "submitParsedMessage to_json q p False ?s = (e, s1)" by force
  have "evolves ?s s1" using evolves_submit [of ?s to_json q p False] e by simp
  then have "limits s1 = limits s" "parse_queue_size s1 = parse_queue_size s" "length (parse_tasks s1) \<le> length (parse_tasks s)"
    "Suc (length (parsed_tasks s1)) = length (parsed_tasks s)"
    using True by (auto simp: evolves_def)
  moreover have "snd (finish_parse to_json n s) = (if routing_stuck s1 then s1 else releaseParseQueueSlot s1)" using True pq e by (simp add: finish_parse_def)
  ultimately show ?thesis using assms by (auto simp: slots_ok_def releaseParseQueueSlot_def)
qed (use assms in \<open>simp add: finish_parse_def\<close>)

lemma endpoint_slots_ok: "endpoint_reach to_json parse_json s \<Longrightarrow> slots_ok s"
proof (induction rule: endpoint_reach.induct)
  case (init lim parse_cancel h)
  then show ?case by (simp add: slots_ok_def make_RemoteEndPoint_def)
next
  case (step s s')
  from step(2) show ?case
  proof (cases rule: endpoint_step_split)
    case op
    then show ?thesis using step(3) slots_ok_evolves by blast
  next
    case (parsing m n)
    then show ?thesis using step(3) slots_ok_receive slots_ok_run_parse slots_ok_finish_parse by blast
  next
    case (new_session bad ws)
    then show ?thesis using step(3) by (simp add: slots_ok_def open_session_def startAsyncCompletionLoop_def Let_def)
  next
    case threads
    then show ?thesis using step(3) by (simp add: slots_ok_def start_threads_def Let_def)
  qed
qed

text \<open>C35: The limit on parsing work is kept: in every reachable state the texts that wait for a parsing worker and
  those that a worker has taken and not yet submitted are together no more than the configured maximum.  (A message that waits in the reorder buffer has been
  submitted and its slot is free again: it is not counted here.)\<close>

theorem parse_work_bounded:
  assumes "endpoint_reach to_json parse_json s" "max_parse_queue_size (limits s) \<noteq> 0"
  shows "length (parse_tasks s) + length (parsed_tasks s) \<le> max_parse_queue_size (limits s)"
  using endpoint_slots_ok [OF assms(1)] assms(2) by (auto simp: slots_ok_def)

section \<open>An overload that stops the endpoint while a message is routed\<close>

text \<open>A thread that is stuck in routing stays so: whatever the other threads do, nothing is routed any more, and the endpoint neither
  stops nor can it be started again.\<close>

definition same_routing :: "endpoint \<Rightarrow> endpoint \<Rightarrow> bool" where
  "same_routing s s' \<longleftrightarrow> routing_stuck s' = routing_stuck s \<and> quit s' = quit s \<and> working s' = working s \<and> route s' = route s"

lemma same_routing_post [simp]: "same_routing s (postToWorker m n k p s') = same_routing s s'"
  by (simp add: postToWorker_def same_routing_def)

lemma same_routing_ready: "same_routing s (postReadyParkedRequests ready s') = same_routing s s'"
  by (induction ready arbitrary: s') (simp_all add: postReadyParkedRequests_def)

lemmas routing_untouched = same_routing_def log_def catch_log_def run_parse_def run_handler_task_def mainLoopCatching_def mainLoop_def finish_request_def
  completeAsyncHandler_def postAsyncCompletion_def async_round_def take_next_notification_def sendMsg_def internalSendRequestWithPolicy_def cancelRequest_def
  registerRequestHandler_def registerNotificationHandler_def overrideRequestParser_def overrideResponseParser_def ensureResponseJsonHandler_def
  allowConcurrentNotification_def canRegisterBeforeStart_def output_fails_def receive_def postParseTask_def startProcessingMessages_def Let_def

lemma stuck_step:
  assumes "endpoint_step to_json parse_json s s'" "routing_stuck s" "quit s" "working s"
  shows "same_routing s s'"
  using assms(1)
proof (cases rule: endpoint_step.cases)
  case (notification_done thrown)
  have "same_routing s s" "same_routing s (s\<lparr>running_notification := None, dispatch := d\<rparr>)" for d by (simp_all add: same_routing_def)
  then show ?thesis using assms(3) notification_done
    by (auto simp: finish_running_notification_def same_routing_ready mainLoopCatching_def mainLoop_def catch_log_def Let_def
        split: option.splits prod.splits)
qed (use assms(2-4) in \<open>auto simp: routing_untouched split: prod.splits option.splits list.splits request_end.splits\<close>)

lemma stuck_for_ever:
  assumes "(endpoint_step to_json parse_json)\<^sup>*\<^sup>* s s'" "routing_stuck s" "quit s" "working s"
  shows "same_routing s s'"
  using assms(1)
proof (induction rule: rtranclp_induct)
  case base
  show ?case by (simp add: same_routing_def)
next
  case (step s1 s2)
  then have "same_routing s1 s2" using stuck_step [OF step(2)] assms(2-4) by (simp add: same_routing_def)
  then show ?case using step(3) by (simp add: same_routing_def)
qed

lemma route_all_quit: "quit s \<Longrightarrow> route_all to_json ready s = (None, s)"
  by (induction ready) (auto simp: routeParsedIncoming_def split: option.splits)

text \<open>So it is when the policy is to stop and the next message to be routed is a request for which the queue of parked requests has no room.\<close>

theorem overload_stop_never_returns:
  assumes "working s" "\<not> quit s" "policy (limits s) \<noteq> DropNewest" "n < length (parsed_tasks s)"
    and "parsed_tasks s ! n = (p, next_route_sequence (route s))" "ok p" "\<not> outgoing p" "kind p = REQUEST_MESSAGE" "message p = Some m"
    and "fst (enqueueRequest_locked (limits s) \<lparr>item_seq = next_route_sequence (route s), item_msg = m, response_state = session_output_state s\<rparr> (dispatch s)) =
      Overloaded text"
    and "(endpoint_step to_json parse_json)\<^sup>*\<^sup>* (snd (finish_parse to_json n s)) s'"
  shows "routing_stuck s' \<and> working s' \<and> route s' = route (snd (finish_parse to_json n s))"
proof -
  let ?i = "next_route_sequence (route s)" and ?s = "s\<lparr>parsed_tasks := take n (parsed_tasks s) @ drop (Suc n) (parsed_tasks s)\<rparr>"
  obtain d where d: "enqueueRequest_locked (limits s) \<lparr>item_seq = ?i, item_msg = m, response_state = session_output_state s\<rparr> (dispatch s) = (Overloaded text, d)"
    using assms(10) by (cases "enqueueRequest_locked (limits s) \<lparr>item_seq = ?i, item_msg = m, response_state = session_output_state s\<rparr> (dispatch s)") auto
  obtain ready r1 where dr: "drain (reorder_buffer (route s)) (Suc ?i) = (ready, r1)" by force
  have "routeParsedIncoming to_json p ?i (?s\<lparr>route := r1\<rparr>) = (None, overload_while_routing text (?s\<lparr>route := r1, dispatch := d\<rparr>))"
    using assms(2,6-9) d by (simp add: routeParsedIncoming_def enqueueRequest_def Let_def)
  then have "submitParsedMessage to_json ?i p False ?s = (None, overload_while_routing text (?s\<lparr>route := r1, dispatch := d\<rparr>))"
    using assms(2,3) dr by (simp add: submitParsedMessage_def submit_locked_def route_all_quit overload_while_routing_def log_def Let_def)
  then have "snd (finish_parse to_json n s) = overload_while_routing text (?s\<lparr>route := r1, dispatch := d\<rparr>)"
    using assms(3-5) by (simp add: finish_parse_def overload_while_routing_def log_def Let_def)
  then have "routing_stuck (snd (finish_parse to_json n s))" "quit (snd (finish_parse to_json n s))" "working (snd (finish_parse to_json n s))"
    using assms(1,3) by (simp_all add: overload_while_routing_def log_def Let_def)
  from stuck_for_ever [OF assms(11) this] this show ?thesis by (simp add: same_routing_def)
qed

section \<open>Two defects around restarting\<close>

lemma stop_simps:
  assumes "working s"
  shows "working (stop s) = False" "has_pools (stop s) = has_pools s" "parsed_tasks (stop s) = parsed_tasks s"
    "parse_queue_size (stop s) = parse_queue_size s" "limits (stop s) = limits s" "route (stop s) = clearMessageRouting (route s)"
    "length (output_sessions (stop s)) = length (output_sessions s)" "next_message_sequence (stop s) = next_message_sequence s" "routing_stuck (stop s) = routing_stuck s"
  using assms by (simp_all add: stop_def)

text \<open>Stopping loses the slots of the texts that were waiting for a parser: they are dropped, but the count is
  neither given back nor reset when the endpoint starts again.  If the limit was reached, the new session
  refuses every text, although it has no parsing work at all.\<close>

theorem restart_leaks_parse_slots:
  assumes "endpoint_reach to_json parse_json s" "working s" "has_pools s"
    and "max_parse_queue_size (limits s) \<noteq> 0" "length (parse_tasks s) = max_parse_queue_size (limits s)"
  shows "working (startProcessingMessages bad ws (stop s)) \<and>
         parse_tasks (startProcessingMessages bad ws (stop s)) = [] \<and> parsed_tasks (startProcessingMessages bad ws (stop s)) = [] \<and>
         parse_tasks (snd (receive to_json m (startProcessingMessages bad ws (stop s)))) = []"
proof -
  let ?s = "startProcessingMessages bad ws (stop s)"
  have "parse_queue_size s = max_parse_queue_size (limits s) \<and> length (parsed_tasks s) = 0"
    using endpoint_slots_ok [OF assms(1)] assms(4,5) unfolding slots_ok_def by linarith
  then have full: "parse_queue_size s = max_parse_queue_size (limits s)" "parsed_tasks s = []" by simp_all
  have s: "working ?s" "parse_tasks ?s = []" "parsed_tasks ?s = []" "parse_queue_size ?s = max_parse_queue_size (limits ?s)"
    "limits ?s = limits s" "has_pools ?s" "\<not> quit ?s"
    using full by (simp_all add: startProcessingMessages_def stop_simps [OF assms(2)] start_threads_def open_session_def
        startAsyncCompletionLoop_def Let_def)
  let ?t = "?s\<lparr>next_message_sequence := next_message_sequence ?s + 1\<rparr>"
  obtain b s1 where o: "handleOverload (parse_overload_text (max_parse_queue_size (limits ?t))) ?t = (b, s1)" by force
  then have "evolves ?t s1" using evolves_handleOverload [OF evolves_refl, of ?t] by (metis snd_conv)
  then have "parse_tasks s1 = []" "parse_tasks (snd (submitParsedMessage to_json (next_message_sequence ?s) empty_parsed True s1)) = []"
    using s(2) evolves_submit [of s1 to_json "next_message_sequence ?s" empty_parsed True] by (auto simp: evolves_def)
  then have "parse_tasks (snd (receive to_json m ?s)) = []"
    using s(4,5,6,7) assms(4) o
    by (cases b; cases "submitParsedMessage to_json (next_message_sequence ?s) empty_parsed True s1")
      (simp_all add: receive_def postParseTask_def acquireParseQueueSlot_def)
  then show ?thesis using s by simp
qed

text \<open>A worker that is still busy with a text of the old session while the endpoint is stopped and
  started again: the new session lets messages through before the old workers are waited for, so the
  error response to a request of the old session is written to the output of the new one.\<close>

theorem restart_race:
  assumes "endpoint_reach to_json parse_json s" "working s" "\<not> routing_stuck s"
    and "parsed_tasks s = [(outgoing_error i code m, next_route_sequence (route s))]"
  shows "endpoint_reach to_json parse_json (open_session False [] (stop s)) \<and>
         session_output_state (open_session False [] (stop s)) = length (output_sessions s) \<and>
         written (output_sessions (snd (finish_parse to_json 0 (open_session False [] (stop s)))) ! length (output_sessions s)) =
           WriterMsg (to_json (makeErrorMessage i code m))"
proof -
  let ?s = "open_session False [] (stop s)"
  let ?k = "length (output_sessions s)"
  define p where "p = outgoing_error i code m"
  have p: "ok p" "outgoing p" "message p = Some (makeErrorMessage i code m)" by (simp_all add: p_def outgoing_error_def)
  have "endpoint_reach to_json parse_json (stop s)" using endpoint_reach.step [OF assms(1) endpoint_step.stop] assms(3) by blast
  then have r: "endpoint_reach to_json parse_json ?s"
    by (rule endpoint_reach.step [OF _ endpoint_step.start_open]) (simp_all add: stop_simps [OF assms(2)] assms(3))
  have o: "parsed_tasks ?s = [(p, next_route_sequence (route s))]" "\<not> quit ?s"
    "reorder_buffer (route ?s) = []" "next_route_sequence (route ?s) = next_route_sequence (route s)"
    "session_output_state ?s = ?k"
    "output_sessions ?s ! ?k = fresh_session\<lparr>has_output := True, generation := next_session_generation (stop s) + 1\<rparr>"
    "?k < length (output_sessions ?s)"
    using assms(2,4)
    by (simp_all add: p_def open_session_def startAsyncCompletionLoop_def Let_def stop_simps [OF assms(2)] clearMessageRouting_def
        nth_append fresh_session_def)

  have sub: "submit_locked (limits ?s) (next_route_sequence (route s)) p False (route ?s) =
      (Inr [(next_route_sequence (route s), p)],
       \<lparr>reorder_buffer = [], next_route_sequence = next_route_sequence (route s) + 1\<rparr>)"
    using o(3,4) by (simp add: submit_locked_def drain.simps)
  have w: "writable (output_sessions ?s ! ?k)" "write_answers (output_sessions ?s ! ?k) = []" "written (output_sessions ?s ! ?k) = []"
    by (simp_all add: o(6) writable_def fresh_session_def)
  have "written (output_sessions (snd (finish_parse to_json 0 ?s)) ! ?k) = WriterMsg (to_json (makeErrorMessage i code m))"
    using o(1,2,5,7) w
    by (simp add: finish_parse_def submitParsedMessage_def sub routeParsedIncoming_def p Let_def
        sendSessionMessage_eq write_output_def releaseParseQueueSlot_def)
  then show ?thesis using r o(5) by simp
qed

section \<open>A run of the endpoint\<close>

text \<open>An endpoint with room for two texts is started and receives two requests for a method it does not know.\<close>

definition sample_json :: "LspMessage \<Rightarrow> string" where
  "sample_json m = ''{}''"

definition sample_started :: endpoint where
  "sample_started =
     start_threads (open_session False []
       (make_RemoteEndPoint (default_limits\<lparr>max_parse_queue_size := 2, policy := DropNewest\<rparr>) (\<lambda>v. Null) no_handlers))"

definition sample_full :: endpoint where
  "sample_full = snd (receive sample_json ''{}'' (snd (receive sample_json ''{}'' sample_started)))"

definition sample_busy :: endpoint where
  "sample_busy = run_parse sample_parser 0 (snd (receive sample_json ''{}'' sample_started))"

lemma sample_started_reach: "endpoint_reach sample_json sample_parser sample_started"
proof -
  let ?s = "make_RemoteEndPoint (default_limits\<lparr>max_parse_queue_size := 2, policy := DropNewest\<rparr>) (\<lambda>v. Null) no_handlers"
  have "endpoint_reach sample_json sample_parser (open_session False [] ?s)"
    by (rule endpoint_reach.step [OF endpoint_reach.init endpoint_step.start_open]) (simp_all add: make_RemoteEndPoint_def)
  then show ?thesis unfolding sample_started_def
    by (rule endpoint_reach.step [OF _ endpoint_step.start_threads])
      (simp_all add: open_session_def startAsyncCompletionLoop_def Let_def make_RemoteEndPoint_def)
qed

lemma sample_full_reach: "endpoint_reach sample_json sample_parser sample_full"
  unfolding sample_full_def using sample_started_reach by (blast intro: endpoint_reach.step endpoint_step.receive)

lemma sample_busy_reach: "endpoint_reach sample_json sample_parser sample_busy"
  unfolding sample_busy_def using sample_started_reach by (blast intro: endpoint_reach.step endpoint_step.receive endpoint_step.parse)

lemmas sample_defs = sample_full_def sample_busy_def sample_started_def receive_def postParseTask_def acquireParseQueueSlot_def
  start_threads_def open_session_def startAsyncCompletionLoop_def make_RemoteEndPoint_def default_limits_def Let_def

lemma sample_full_state:
  "working sample_full" "has_pools sample_full" "max_parse_queue_size (limits sample_full) = 2" "length (parse_tasks sample_full) = 2"
  "client_requests sample_full = empty_pending" "cancellation_registry sample_full = empty_registry"
  by (simp_all add: sample_defs)

text \<open>The error response for the request that \<^const>\<open>sample_parser\<close> finds.\<close>

lemma sample_classified:
  "fst (parseAndClassify sample_parser (SetNotificationJsonHandler cancel_method (\<lambda>v. Null) no_handlers) (getRequestInfo empty_pending) ''{}'') =
     outgoing_error (kInt 3) MethodNotFound (''Method not found: '' @ ''shutdown'')"
proof -
  have "version_ok sample_request" "isRequestMessage sample_request" "has_value (member_id sample_request)" "member_id sample_request = kInt 3"
    "member_method sample_request = ''shutdown''" by code_simp+
  then show ?thesis
    by (simp add: parseAndClassify_def sample_parser_def classify_request_def parseRequstMessage_def SetNotificationJsonHandler_def no_handlers_def)
qed

lemma sample_busy_state:
  "working sample_busy" "\<not> routing_stuck sample_busy" "next_route_sequence (route sample_busy) = 0" "length (output_sessions sample_busy) = 2"
  "parsed_tasks sample_busy = [(outgoing_error (kInt 3) MethodNotFound (''Method not found: '' @ ''shutdown''), 0)]"
  by (use sample_classified in \<open>auto simp: sample_defs run_parse_def log_def resetMessageRouting_def split: prod.splits\<close>)

theorem endpoint_components_safe_witness: "distinct (map fst (delivered (client_requests sample_full)))"
  using endpoint_components_safe [OF sample_full_reach] by simp

theorem stop_quiesces_witness: "parse_tasks sample_full \<noteq> [] \<and> parse_tasks (stop sample_full) = [] \<and> quit (stop sample_full)"
  using stop_quiesces [OF sample_full_reach sample_full_state(1,2)] sample_full_state(4) by auto

theorem parse_work_bounded_witness: "length (parse_tasks sample_full) + length (parsed_tasks sample_full) \<le> 2"
  using parse_work_bounded [OF sample_full_reach] sample_full_state(3) by simp

theorem restart_leaks_parse_slots_witness:
  "parse_tasks (snd (receive sample_json ''{}'' (startProcessingMessages False [] (stop sample_full)))) = []"
  using restart_leaks_parse_slots [OF sample_full_reach sample_full_state(1,2)] sample_full_state(3,4) by simp

theorem restart_race_witness:
  "written (output_sessions (snd (finish_parse sample_json 0 (open_session False [] (stop sample_busy)))) ! 2) = WriterMsg ''{}''"
  using restart_race [OF sample_busy_reach sample_busy_state(1,2)] sample_busy_state(3-5) by (simp add: sample_json_def)

text \<open>The started endpoint sends a message.\<close>

definition sample_sent :: endpoint where
  "sample_sent = snd (sendMsg sample_json None (makeErrorMessage (kInt 3) InternalError []) sample_started)"

lemma sample_sent_step: "endpoint_step sample_json sample_parser sample_started sample_sent"
  unfolding sample_sent_def by (rule endpoint_step.send)

lemma sample_sent_reach: "endpoint_reach sample_json sample_parser sample_sent"
  by (rule endpoint_reach.step [OF sample_started_reach sample_sent_step])

lemma sample_sent_state:
  "output_sessions sample_started ! Suc 0 = fresh_session\<lparr>has_output := True, generation := Suc 0\<rparr>"
  "length (output_sessions sample_started) = 2" "session_output_state sample_started = Suc 0"
  "written (output_sessions sample_sent ! Suc 0) = WriterMsg ''{}''" "length (output_sessions sample_sent) = 2"
proof -
  show st: "output_sessions sample_started ! Suc 0 = fresh_session\<lparr>has_output := True, generation := Suc 0\<rparr>"
    "length (output_sessions sample_started) = 2" "session_output_state sample_started = Suc 0"
    by (simp_all add: sample_defs fresh_session_def)
  show "written (output_sessions sample_sent ! Suc 0) = WriterMsg ''{}''" "length (output_sessions sample_sent) = 2"
    by (simp_all add: sample_sent_def sendMsg_def getSessionOutputState_def sendSessionMessage_eq write_output_def st writable_def fresh_session_def sample_json_def)
qed

theorem no_output_after_session_witness:
  "session_output_state sample_started = 1 \<and> working sample_started"
proof -
  have "WriterMsg ''{}'' \<noteq> []" by (simp add: WriterMsg_def)
  then show ?thesis
    using no_output_after_session [OF sample_started_reach sample_sent_step, of "Suc 0"] sample_sent_state by (simp add: fresh_session_def)
qed

end
