(* ===== verification/Threaded_Queue.thy ===== *)
theory Threaded_Queue
  imports Lsp_Prelude "HOL-Library.Word"
begin

text \<open>
  The queue between threads of \<^verbatim>\<open>include/LibLsp/JsonRpc/threaded_queue.h\<close>, with its waiter
  (\<^verbatim>\<open>src/jsonrpc/threaded_queue.cpp\<close>), and the one-place mailbox of \<^verbatim>\<open>Condition.h\<close>.  Every operation
  holds the mutex, so it is a function on the state; an operation that would block has no
  result.  The count that \<^verbatim>\<open>Size\<close> and \<^verbatim>\<open>IsEmpty\<close> read without the lock is a 32-bit integer.
\<close>

section \<open>Model\<close>

record 'a ThreadedQueue =
  total_count :: "32 word"
  priority_queue :: "'a list"
  normal_queue :: "'a list"

definition empty_ThreadedQueue :: "'a ThreadedQueue" where
  "empty_ThreadedQueue = \<lparr>total_count = 0, priority_queue = [], normal_queue = []\<rparr>"

definition Size :: "'a ThreadedQueue \<Rightarrow> int" where
  "Size q = sint (total_count q)"

definition IsEmpty :: "'a ThreadedQueue \<Rightarrow> bool" where
  "IsEmpty q \<longleftrightarrow> total_count q = 0"

definition Enqueue :: "'a \<Rightarrow> bool \<Rightarrow> 'a ThreadedQueue \<Rightarrow> 'a ThreadedQueue" where
  "Enqueue t priority q =
     (let q1 = (if priority then q\<lparr>priority_queue := priority_queue q @ [t]\<rparr> else q\<lparr>normal_queue := normal_queue q @ [t]\<rparr>)
      in q1\<lparr>total_count := total_count q1 + 1\<rparr>)"

fun push_each :: "'a list \<Rightarrow> bool \<Rightarrow> 'a ThreadedQueue \<Rightarrow> 'a ThreadedQueue" where
  "push_each [] priority q = q"
| "push_each (t # ts) priority q =
     push_each ts priority
       (if priority then q\<lparr>priority_queue := priority_queue q @ [t]\<rparr> else q\<lparr>normal_queue := normal_queue q @ [t]\<rparr>)"

definition EnqueueAll :: "'a list \<Rightarrow> bool \<Rightarrow> 'a ThreadedQueue \<Rightarrow> 'a ThreadedQueue" where
  "EnqueueAll elements priority q =
     (if elements = [] then q
      else push_each elements priority (q\<lparr>total_count := total_count q + of_nat (length elements)\<rparr>))"

definition pop_priority :: "'a ThreadedQueue \<Rightarrow> 'a \<times> 'a ThreadedQueue" where
  "pop_priority q = (hd (priority_queue q), q\<lparr>priority_queue := tl (priority_queue q), total_count := total_count q - 1\<rparr>)"

definition pop_normal :: "'a ThreadedQueue \<Rightarrow> 'a \<times> 'a ThreadedQueue" where
  "pop_normal q = (hd (normal_queue q), q\<lparr>normal_queue := tl (normal_queue q), total_count := total_count q - 1\<rparr>)"

text \<open>\<^verbatim>\<open>Dequeue\<close> waits until there is an element: \<^const>\<open>None\<close> while there is none.\<close>

definition Dequeue :: "'a ThreadedQueue \<Rightarrow> ('a \<times> 'a ThreadedQueue) option" where
  "Dequeue q =
     (if priority_queue q = [] \<and> normal_queue q = [] then None
      else if priority_queue q \<noteq> [] then Some (pop_priority q)
      else Some (pop_normal q))"

definition TryDequeue :: "bool \<Rightarrow> 'a ThreadedQueue \<Rightarrow> 'a option \<times> 'a ThreadedQueue" where
  "TryDequeue priority q =
     (if priority then
        if priority_queue q \<noteq> [] then (case pop_priority q of (v, q1) \<Rightarrow> (Some v, q1))
        else if normal_queue q \<noteq> [] then (case pop_normal q of (v, q1) \<Rightarrow> (Some v, q1))
        else (None, q)
      else
        if normal_queue q \<noteq> [] then (case pop_normal q of (v, q1) \<Rightarrow> (Some v, q1))
        else if priority_queue q \<noteq> [] then (case pop_priority q of (v, q1) \<Rightarrow> (Some v, q1))
        else (None, q))"

definition DequeueAll :: "'a ThreadedQueue \<Rightarrow> 'a list \<times> 'a ThreadedQueue" where
  "DequeueAll q = (priority_queue q @ normal_queue q, \<lparr>total_count = 0, priority_queue = [], normal_queue = []\<rparr>)"

text \<open>The two loops of \<^verbatim>\<open>TryDequeueSome\<close>: they move elements until the number or the queue is used up.\<close>

fun move_some :: "nat \<Rightarrow> 'a list \<Rightarrow> 'a list \<Rightarrow> nat \<times> 'a list \<times> 'a list" where
  "move_some 0 q result = (0, q, result)"
| "move_some (Suc num) [] result = (Suc num, [], result)"
| "move_some (Suc num) (x # q) result = move_some num q (result @ [x])"

definition TryDequeueSome :: "nat \<Rightarrow> 'a ThreadedQueue \<Rightarrow> 'a list \<times> 'a ThreadedQueue" where
  "TryDequeueSome num0 q =
     (let num = min num0 (length (priority_queue q) + length (normal_queue q));
          (num1, p1, result1) = move_some num (priority_queue q) [];
          (num2, n1, result2) = move_some num1 (normal_queue q) result1
      in (result2, \<lparr>total_count = total_count q - of_nat num, priority_queue = p1, normal_queue = n1\<rparr>))"

definition Iterate :: "('a \<Rightarrow> 's \<Rightarrow> 's) \<Rightarrow> 'a ThreadedQueue \<Rightarrow> 's \<Rightarrow> 's" where
  "Iterate fn q s = fold fn (normal_queue q) (fold fn (priority_queue q) s)"

text \<open>\<^verbatim>\<open>MultiQueueWaiter\<close>: a waiter over several queues wakes up when one of them is not empty.\<close>

fun HasState :: "'a ThreadedQueue list \<Rightarrow> bool" where
  "HasState [] = False"
| "HasState (q # queues) = (if \<not> IsEmpty q then True else HasState queues)"

fun ValidateWaiter :: "nat \<Rightarrow> nat list \<Rightarrow> bool" where
  "ValidateWaiter self [] = True"
| "ValidateWaiter self (w # waiters) = (if w \<noteq> self then False else ValidateWaiter self waiters)"

text \<open>\<^verbatim>\<open>Condition<T>\<close>: \<^verbatim>\<open>notify\<close> swaps its argument in; \<^verbatim>\<open>wait\<close> takes the content out, or gives up at the time-out.\<close>

definition Condition_notify :: "'m option \<Rightarrow> 'm option \<Rightarrow> 'm option" where
  "Condition_notify data any = data"

datatype 'm wait_result = Waits | GivesUp | Takes 'm

definition Condition_wait :: "bool \<Rightarrow> 'm option \<Rightarrow> 'm wait_result \<times> 'm option" where
  "Condition_wait timed_out any =
     (case any of Some m \<Rightarrow> (Takes m, None) | None \<Rightarrow> if timed_out then (GivesUp, None) else (Waits, None))"

section \<open>Histories\<close>

text \<open>An operation on the queue, and the elements of each class that it puts in and takes out.\<close>

datatype 'a queue_op = DoEnqueue 'a bool | DoEnqueueAll "'a list" bool | DoDequeue | DoTryDequeue bool | DoDequeueAll | DoTryDequeueSome nat

fun queue_step :: "'a queue_op \<Rightarrow> 'a ThreadedQueue \<Rightarrow> 'a list \<times> 'a ThreadedQueue" where
  "queue_step (DoEnqueue t b) q = ([], Enqueue t b q)"
| "queue_step (DoEnqueueAll ts b) q = ([], EnqueueAll ts b q)"
| "queue_step DoDequeue q = (case Dequeue q of None \<Rightarrow> ([], q) | Some (v, q1) \<Rightarrow> ([v], q1))"
| "queue_step (DoTryDequeue b) q = (case TryDequeue b q of (None, q1) \<Rightarrow> ([], q1) | (Some v, q1) \<Rightarrow> ([v], q1))"
| "queue_step DoDequeueAll q = DequeueAll q"
| "queue_step (DoTryDequeueSome n) q = TryDequeueSome n q"

fun queue_run :: "'a queue_op list \<Rightarrow> 'a ThreadedQueue \<Rightarrow> 'a list \<times> 'a ThreadedQueue" where
  "queue_run [] q = ([], q)"
| "queue_run (x # xs) q = (case queue_step x q of (out, q1) \<Rightarrow> case queue_run xs q1 of (outs, q2) \<Rightarrow> (out @ outs, q2))"

fun op_input :: "bool \<Rightarrow> 'a queue_op \<Rightarrow> 'a list" where
  "op_input b (DoEnqueue t b') = (if b' = b then [t] else [])"
| "op_input b (DoEnqueueAll ts b') = (if b' = b then ts else [])"
| "op_input b _ = []"

definition channel :: "bool \<Rightarrow> 'a ThreadedQueue \<Rightarrow> 'a list" where
  "channel b q = (if b then priority_queue q else normal_queue q)"

definition queue_ok :: "'a ThreadedQueue \<Rightarrow> bool" where
  "queue_ok q \<longleftrightarrow> total_count q = of_nat (length (priority_queue q) + length (normal_queue q))"

lemma push_each_simps [simp]:
  "priority_queue (push_each ts b q) = priority_queue q @ (if b then ts else [])"
  "normal_queue (push_each ts b q) = normal_queue q @ (if b then [] else ts)"
  "total_count (push_each ts b q) = total_count q"
  by (induction ts b q rule: push_each.induct) auto

lemma move_some_eq:
  "move_some n q r = (n - length q, drop n q, r @ take n q)"
  by (induction n q r rule: move_some.induct) auto

text \<open>
  What one operation takes out consists of a front part of each class, and what is put in is
  added at the end of its class.
\<close>

lemma shuffles_append: "xs @ ys \<in> shuffles xs ys"
  by (induction xs) (auto simp: Cons_in_shuffles_iff)

lemma append_in_shuffles: "x \<in> shuffles a b \<Longrightarrow> y \<in> shuffles c d \<Longrightarrow> x @ y \<in> shuffles (a @ c) (b @ d)"
proof (induction x arbitrary: a b)
  case (Cons z x)
  then show ?case by (fastforce simp: Cons_in_shuffles_iff)
qed simp

lemma queue_step_channels:
  assumes "queue_step x q = (out, q')"
  obtains p n where "out \<in> shuffles p n"
    "channel True q @ op_input True x = p @ channel True q'" "channel False q @ op_input False x = n @ channel False q'"
proof (cases x)
  case (DoTryDequeueSome k)
  let ?k = "min k (length (priority_queue q) + length (normal_queue q))"
  have "out = take ?k (priority_queue q) @ take (?k - length (priority_queue q)) (normal_queue q)"
    "channel True q' = drop ?k (priority_queue q)" "channel False q' = drop (?k - length (priority_queue q)) (normal_queue q)"
    using assms DoTryDequeueSome by (auto simp: TryDequeueSome_def move_some_eq Let_def channel_def)
  then show ?thesis
    using DoTryDequeueSome by (intro that [of "take ?k (priority_queue q)" "take (?k - length (priority_queue q)) (normal_queue q)"])
      (simp_all add: channel_def shuffles_append)
next
  case DoDequeueAll
  then show ?thesis using assms by (intro that [of "priority_queue q" "normal_queue q"]) (auto simp: DequeueAll_def channel_def shuffles_append)
next
  case DoDequeue
  consider "priority_queue q = []" "normal_queue q = []" | y ys where "priority_queue q = y # ys"
    | y ys where "priority_queue q = []" "normal_queue q = y # ys" by (cases "priority_queue q"; cases "normal_queue q") auto
  then show ?thesis
  proof cases
    case 1
    then show ?thesis using assms DoDequeue by (intro that [of "[]" "[]"]) (auto simp: Dequeue_def channel_def)
  next
    case 2
    then show ?thesis using assms DoDequeue by (intro that [of "[y]" "[]"]) (auto simp: Dequeue_def pop_priority_def channel_def)
  next
    case 3
    then show ?thesis using assms DoDequeue by (intro that [of "[]" "[y]"]) (auto simp: Dequeue_def pop_normal_def channel_def)
  qed
next
  case (DoTryDequeue b)
  consider "out = []" "q' = q" | y ys where "priority_queue q = y # ys" "out = [y]" "q' = snd (pop_priority q)"
    | y ys where "normal_queue q = y # ys" "out = [y]" "q' = snd (pop_normal q)"
    using assms DoTryDequeue by (cases "priority_queue q"; cases "normal_queue q"; cases b) (auto simp: TryDequeue_def pop_normal_def pop_priority_def)
  then show ?thesis
  proof cases
    case 1
    then show ?thesis using DoTryDequeue by (intro that [of "[]" "[]"]) (auto simp: channel_def)
  next
    case 2
    then show ?thesis using DoTryDequeue by (intro that [of "[y]" "[]"]) (auto simp: pop_priority_def channel_def)
  next
    case 3
    then show ?thesis using DoTryDequeue by (intro that [of "[]" "[y]"]) (auto simp: pop_normal_def channel_def)
  qed
next
  case (DoEnqueue t b)
  then show ?thesis using assms by (intro that [of "[]" "[]"]) (auto simp: Enqueue_def channel_def Let_def)
next
  case (DoEnqueueAll ts b)
  then show ?thesis using assms by (intro that [of "[]" "[]"]) (auto simp: EnqueueAll_def channel_def)
qed

lemma queue_step_ok:
  assumes "queue_ok q" "queue_step x q = (out, q')"
  shows "queue_ok q'"
proof (cases x)
  case (DoTryDequeueSome k)
  let ?p = "length (priority_queue q)" and ?n = "length (normal_queue q)"
  let ?k = "min k (?p + ?n)"
  have q': "total_count q' = total_count q - of_nat ?k" "length (priority_queue q') + length (normal_queue q') = ?p + ?n - ?k"
    using assms(2) DoTryDequeueSome by (auto simp: TryDequeueSome_def move_some_eq Let_def)
  have "total_count q' = (of_nat (?p + ?n) - of_nat ?k :: 32 word)" using q'(1) assms(1) by (simp only: queue_ok_def)
  also have "\<dots> = of_nat (?p + ?n - ?k)" by (rule of_nat_diff [symmetric]) simp
  finally show ?thesis by (simp only: queue_ok_def q'(2))
next
  case DoDequeue
  then show ?thesis using assms
    by (cases "priority_queue q"; cases "normal_queue q") (auto simp: Dequeue_def pop_priority_def pop_normal_def queue_ok_def)
next
  case (DoTryDequeue b)
  then show ?thesis using assms
    by (cases "priority_queue q"; cases "normal_queue q"; cases b) (auto simp: TryDequeue_def pop_priority_def pop_normal_def queue_ok_def)
qed (use assms in \<open>auto simp: Enqueue_def EnqueueAll_def DequeueAll_def queue_ok_def Let_def split: if_splits\<close>)

section \<open>Properties\<close>

text \<open>C39: Nothing is lost, made up or reordered: over any sequence of operations by any threads, what came out
  is an interleaving of a front part of the priority elements and a front part of the
  others, each in the order they were put in, and the rest is still there, in order.  The
  count agrees with the content, so \<^verbatim>\<open>IsEmpty\<close> is right as long as there are fewer than $2^{32}$
  elements.\<close>

theorem queue_fifo:
  "\<exists>p n. fst (queue_run xs empty_ThreadedQueue) \<in> shuffles p n \<and>
     concat (map (op_input True) xs) = p @ priority_queue (snd (queue_run xs empty_ThreadedQueue)) \<and>
     concat (map (op_input False) xs) = n @ normal_queue (snd (queue_run xs empty_ThreadedQueue)) \<and>
     total_count (snd (queue_run xs empty_ThreadedQueue)) =
       of_nat (length (priority_queue (snd (queue_run xs empty_ThreadedQueue))) + length (normal_queue (snd (queue_run xs empty_ThreadedQueue))))"
proof -
  have "\<exists>p n. fst (queue_run xs q) \<in> shuffles p n \<and>
      channel True q @ concat (map (op_input True) xs) = p @ channel True (snd (queue_run xs q)) \<and>
      channel False q @ concat (map (op_input False) xs) = n @ channel False (snd (queue_run xs q)) \<and>
      queue_ok (snd (queue_run xs q))" if "queue_ok q" for q
    using that
  proof (induction xs arbitrary: q)
    case (Cons x xs)
    obtain out q1 where x: "queue_step x q = (out, q1)" by force
    obtain p n where pn: "out \<in> shuffles p n" "channel True q @ op_input True x = p @ channel True q1"
        "channel False q @ op_input False x = n @ channel False q1"
      using queue_step_channels [OF x] by metis
    obtain outs q2 where xs: "queue_run xs q1 = (outs, q2)" by force
    obtain p' n' where pn': "outs \<in> shuffles p' n'" "channel True q1 @ concat (map (op_input True) xs) = p' @ channel True q2"
        "channel False q1 @ concat (map (op_input False) xs) = n' @ channel False q2" "queue_ok q2"
      using Cons.IH [OF queue_step_ok [OF Cons.prems x]] xs by auto
    have "channel b q @ op_input b x @ concat (map (op_input b) xs) = (if b then p @ p' else n @ n') @ channel b q2" for b
      using pn(2,3) pn'(2,3) by (cases b) (metis append.assoc)+
    then show ?case using append_in_shuffles [OF pn(1) pn'(1)] pn'(4) x xs
      by (intro exI [of _ "p @ p'"] exI [of _ "n @ n'"]) (simp add: all_bool_eq)
  qed (auto intro: exI [of _ "[]"])
  from this [of empty_ThreadedQueue] show ?thesis by (simp add: queue_ok_def empty_ThreadedQueue_def channel_def)
qed

lemma IsEmpty_iff:
  assumes "queue_ok q" "length (priority_queue q) + length (normal_queue q) < 2 ^ 32"
  shows "IsEmpty q \<longleftrightarrow> priority_queue q = [] \<and> normal_queue q = []"
proof -
  have "unat (total_count q) = length (priority_queue q) + length (normal_queue q)"
    using assms by (simp add: queue_ok_def unat_of_nat take_bit_nat_eq_self del: of_nat_add)
  then show ?thesis by (metis IsEmpty_def add_is_0 length_0_conv unat_eq_zero)
qed

text \<open>A waiter over several queues is woken exactly when one of them has an element.\<close>

theorem HasState_iff:
  assumes "\<forall>q\<in>set qs. queue_ok q \<and> length (priority_queue q) + length (normal_queue q) < 2 ^ 32"
  shows "HasState qs \<longleftrightarrow> (\<exists>q\<in>set qs. priority_queue q \<noteq> [] \<or> normal_queue q \<noteq> [])"
  using assms by (induction qs) (auto simp: IsEmpty_iff)

end
