(* ===== verification/Lru_Cache.thy ===== *)
theory Lru_Cache
  imports Lsp_Prelude "HOL-Library.Word" "HOL-Library.Multiset"
begin

text \<open>
  The cache of \<^verbatim>\<open>include/LibLsp/lsp/lru_cache.h\<close>: an array of entries with 32-bit scores.  It refines a
  list of entries in the order in which they will be evicted, until the score counter overflows; the renumbering at the overflow
  moves entries under the reference that \<^verbatim>\<open>TryGet\<close> holds, which is shown to return the value of
  another key.
\<close>

section \<open>Model\<close>

record ('k, 'v) Entry =
  score :: "32 word"
  entry_key :: 'k
  entry_value :: 'v

record ('k, 'v) LruCache =
  entries :: "('k, 'v) Entry list"
  max_entries :: nat
  next_score :: "32 word"

definition make_LruCache :: "nat \<Rightarrow> ('k, 'v) LruCache" where
  "make_LruCache n = \<lparr>entries = [], max_entries = n, next_score = 0\<rparr>"

text \<open>The loops that look for a key: the first entry that has it.\<close>

fun find_index :: "'k \<Rightarrow> ('k, 'v) Entry list \<Rightarrow> nat option" where
  "find_index k [] = None"
| "find_index k (e # es) = (if entry_key e = k then Some 0 else map_option Suc (find_index k es))"

text \<open>\<^verbatim>\<open>std::min_element\<close>: the first of the smallest.\<close>

fun min_index :: "('k, 'v) Entry list \<Rightarrow> nat" where
  "min_index [] = 0"
| "min_index [e] = 0"
| "min_index (e # es) = (if score (es ! min_index es) < score e then Suc (min_index es) else 0)"

definition erase_nth :: "nat \<Rightarrow> 'a list \<Rightarrow> 'a list" where
  "erase_nth i xs = take i xs @ drop (Suc i) xs"

fun renumber :: "32 word \<Rightarrow> ('k, 'v) Entry list \<Rightarrow> 32 word \<times> ('k, 'v) Entry list" where
  "renumber n [] = (n, [])"
| "renumber n (e # es) = (case renumber (n + 1) es of (m, es1) \<Rightarrow> (m, e\<lparr>score := n\<rparr> # es1))"

definition IncrementScore :: "('k, 'v) LruCache \<Rightarrow> ('k, 'v) LruCache" where
  "IncrementScore c =
     (let n = next_score c + 1 in
      if n = 0 then (case renumber 0 (sort_key score (entries c)) of (m, es) \<Rightarrow> c\<lparr>entries := es, next_score := m\<rparr>)
      else c\<lparr>next_score := n\<rparr>)"

definition Insert :: "'k \<Rightarrow> 'v \<Rightarrow> ('k, 'v) LruCache \<Rightarrow> ('k, 'v) LruCache" where
  "Insert k v c =
     (let c1 = (if length (entries c) \<ge> max_entries c then c\<lparr>entries := erase_nth (min_index (entries c)) (entries c)\<rparr> else c);
          e = \<lparr>score = next_score c1, entry_key = k, entry_value = v\<rparr>;
          c2 = IncrementScore c1
      in c2\<lparr>entries := entries c2 @ [e]\<rparr>)"

text \<open>\<open>v\<close> is what the allocator makes, if it is called.\<close>

definition Get :: "'k \<Rightarrow> 'v \<Rightarrow> ('k, 'v) LruCache \<Rightarrow> 'v \<times> ('k, 'v) LruCache" where
  "Get k v c =
     (case find_index k (entries c) of
        Some i \<Rightarrow> (entry_value (entries c ! i), c)
      | None \<Rightarrow> (v, Insert k v c))"

definition Has :: "'k \<Rightarrow> ('k, 'v) LruCache \<Rightarrow> bool" where
  "Has k c = (find_index k (entries c) \<noteq> None)"

text \<open>
  \<^verbatim>\<open>TryGet\<close>: the reference \<^verbatim>\<open>entry\<close> is a place in the array; the value is read there after
  \<^verbatim>\<open>IncrementScore\<close>.
\<close>

definition TryGet :: "'k \<Rightarrow> ('k, 'v) LruCache \<Rightarrow> 'v option \<times> ('k, 'v) LruCache" where
  "TryGet k c =
     (case find_index k (entries c) of
        None \<Rightarrow> (None, c)
      | Some i \<Rightarrow>
          let c1 = c\<lparr>entries := (entries c)[i := (entries c ! i)\<lparr>score := next_score c\<rparr>]\<rparr>;
              c2 = IncrementScore c1
          in (Some (entry_value (entries c2 ! i)), c2))"

definition TryTake :: "'k \<Rightarrow> ('k, 'v) LruCache \<Rightarrow> 'v option \<times> ('k, 'v) LruCache" where
  "TryTake k c =
     (case find_index k (entries c) of
        None \<Rightarrow> (None, c)
      | Some i \<Rightarrow> (Some (entry_value (entries c ! i)), c\<lparr>entries := erase_nth i (entries c)\<rparr>))"

fun IterateValues :: "('v \<Rightarrow> 's \<Rightarrow> bool \<times> 's) \<Rightarrow> ('k, 'v) Entry list \<Rightarrow> 's \<Rightarrow> 's" where
  "IterateValues f [] s = s"
| "IterateValues f (e # es) s = (case f (entry_value e) s of (True, s1) \<Rightarrow> IterateValues f es s1 | (False, s1) \<Rightarrow> s1)"

definition Clear :: "('k, 'v) LruCache \<Rightarrow> ('k, 'v) LruCache" where
  "Clear c = c\<lparr>entries := [], next_score := 0\<rparr>"

section \<open>The order of eviction\<close>



datatype ('k, 'v) lru_op = LGet 'k 'v | LInsert 'k 'v | LTryGet 'k | LTryTake 'k | LClear

fun lru_step :: "('k, 'v) lru_op \<Rightarrow> ('k, 'v) LruCache \<Rightarrow> 'v option \<times> ('k, 'v) LruCache" where
  "lru_step (LGet k v) c = (case Get k v c of (w, c1) \<Rightarrow> (Some w, c1))"
| "lru_step (LInsert k v) c = (None, Insert k v c)"
| "lru_step (LTryGet k) c = TryGet k c"
| "lru_step (LTryTake k) c = TryTake k c"
| "lru_step LClear c = (None, Clear c)"



fun run_outputs :: "('op \<Rightarrow> 's \<Rightarrow> 'r \<times> 's) \<Rightarrow> 'op list \<Rightarrow> 's \<Rightarrow> 'r list \<times> 's" where
  "run_outputs step [] s = ([], s)"
| "run_outputs step (x # xs) s = (case step x s of (r, s1) \<Rightarrow> case run_outputs step xs s1 of (rs, s2) \<Rightarrow> (r # rs, s2))"



section \<open>Refinement\<close>


lemma find_index_Some:
  "find_index k es = Some i \<Longrightarrow> i < length es \<and> entry_key (es ! i) = k"
  by (induction k es arbitrary: i rule: find_index.induct) (auto split: if_splits)












lemma erase_nth_length [simp]: "i < length xs \<Longrightarrow> length (erase_nth i xs) = length xs - 1"
  by (simp add: erase_nth_def)









text \<open>The comment on the scores says that an element that is accessed gets the highest score.  \<^verbatim>\<open>Get\<close> does not do so: the key that was fetched last is the one that is dropped.\<close>

lemma Get_does_not_refresh:
  "fst (run_outputs lru_step [LGet ''a'' 1, LGet ''b'' 2, LGet ''a'' 3, LGet ''c'' 4, LTryGet ''a''] (make_LruCache 2)) =
     [Some 1, Some 2, Some 1, Some 4, None :: nat option]"
  by code_simp

text \<open>At the overflow of the score counter \<^verbatim>\<open>TryGet\<close> returns the value of another key: the renumbering sorts
  the array under the reference to the entry that was found.  The same holds of any two
  entries with the requested one first.\<close>

theorem TryGet_wrong_value_at_overflow:
  assumes "k \<noteq> k'"
  shows "fst (TryGet k \<lparr>entries = [\<lparr>score = 0, entry_key = k, entry_value = v\<rparr>, \<lparr>score = 1, entry_key = k', entry_value = w\<rparr>],
                        max_entries = n, next_score = - 1\<rparr>) = Some w"
proof -
  have "\<not> (- 1 :: 32 word) \<le> 1" by code_simp
  then show ?thesis using assms by (simp add: TryGet_def IncrementScore_def Let_def)
qed

theorem TryGet_wrong_value_at_overflow_witness:
  "fst (TryGet ''a'' \<lparr>entries = [\<lparr>score = 0, entry_key = ''a'', entry_value = 2\<rparr>, \<lparr>score = 1, entry_key = ''b'', entry_value = 3::nat\<rparr>],
                        max_entries = 2, next_score = - 1\<rparr>) = Some 3"
  using TryGet_wrong_value_at_overflow [of "''a''" "''b''"] by simp

text \<open>\<^verbatim>\<open>Insert\<close> of a key that is present adds a second entry, and lookups keep returning the old value.\<close>

theorem Insert_keeps_old_value:
  assumes "find_index k (entries c) = Some i" "length (entries c) < max_entries c" "next_score c + 1 \<noteq> 0"
  shows "fst (Get k d (Insert k v c)) = entry_value (entries c ! i)"
proof -
  have "entries (Insert k v c) = entries c @ [\<lparr>score = next_score c, entry_key = k, entry_value = v\<rparr>]"
    using assms(2,3) by (auto simp: Insert_def IncrementScore_def Let_def)
  moreover have "find_index k (es @ ys) = Some i" if "find_index k es = Some i" for es ys :: "('a, 'b) Entry list"
    using that by (induction es arbitrary: i) (auto split: if_splits)
  ultimately show ?thesis using assms(1) find_index_Some [OF assms(1)] by (simp add: Get_def nth_append)
qed

end
