(* ===== verification/String_Ref.thy ===== *)
theory String_Ref
  imports Lsp_Prelude
begin

text \<open>
  The class \<^verbatim>\<open>string_ref\<close> (\<^verbatim>\<open>include/LibLsp/lsp/Markup/string_ref.h\<close>), a \<^verbatim>\<open>std::string\<close> with the operations
  that the markup renderer uses.  Iterators are offsets, a method that changes the string returns the new one.
  \<^verbatim>\<open>char\<close> is signed, as on the common targets, which matters for comparisons with bytes from 128 on
  (\<^term>\<open>schar\<close>).  A standard exception and undefined behaviour (a range past the end, signed overflow, division by
  zero) are \<^const>\<open>None\<close>, as is a loop that never ends.  Not modelled: \<^verbatim>\<open>format\<close>, \<^verbatim>\<open>float_num\<close>
  and \<^verbatim>\<open>compare_nocase\<close>, which hand over to the C library.
\<close>

section \<open>Splitting and joining\<close>

text \<open>\<^verbatim>\<open>v.size() >= limit - 1\<close>, where the subtraction wraps; the default limit is \<^verbatim>\<open>npos\<close>, the greatest value.\<close>

definition limit_reached :: "64 word \<Rightarrow> string list \<Rightarrow> bool" where
  "limit_reached limit v \<longleftrightarrow> unat (limit - 1) \<le> length v"

definition is_split_space :: "char \<Rightarrow> bool" where
  "is_split_space c \<longleftrightarrow> c = CHR '' '' \<or> c = LF \<or> c = TAB \<or> c = CR"

text \<open>The string between two offsets, and what a split leaves when the loop is over.\<close>

definition slice_of :: "nat \<Rightarrow> nat \<Rightarrow> string \<Rightarrow> string" where
  "slice_of a b s = take (b - a) (drop a s)"

definition rest_of_split :: "string \<Rightarrow> nat \<Rightarrow> string list \<Rightarrow> string list" where
  "rest_of_split s lst v = (if lst \<noteq> length s then v @ [slice_of lst (length s) s] else v)"

function split_space_loop :: "64 word \<Rightarrow> string \<Rightarrow> nat \<Rightarrow> nat \<Rightarrow> string list \<Rightarrow> string list" where
  "split_space_loop limit s i lst v =
     (if i < length s then
        (if is_split_space (s ! i) then
           (if i + 1 < length s \<and> is_split_space (s ! (i + 1)) then split_space_loop limit s (i + 1) lst v
            else
              (let v1 = v @ [slice_of lst i s]; lst1 = i + 1 in
               if limit_reached limit v1 then v1 @ [slice_of lst1 (length s) s]
               else split_space_loop limit s (i + 1) lst1 v1))
         else split_space_loop limit s (i + 1) lst v)
      else rest_of_split s lst v)"
  by pat_completeness auto
termination by (relation "measure (\<lambda>(limit, s, i, lst, v). length s - i)") auto

definition split_space :: "string \<Rightarrow> 64 word \<Rightarrow> string list" where
  "split_space s limit = split_space_loop limit s 0 0 []"

function split_char_loop :: "char \<Rightarrow> 64 word \<Rightarrow> string \<Rightarrow> nat \<Rightarrow> nat \<Rightarrow> string list \<Rightarrow> string list" where
  "split_char_loop separator limit s i lst v =
     (if i < length s then
        (if s ! i = separator then
           (let v1 = v @ [slice_of lst i s]; lst1 = i + 1 in
            if limit_reached limit v1 then v1 @ [slice_of lst1 (length s) s]
            else split_char_loop separator limit s (i + 1) lst1 v1)
         else split_char_loop separator limit s (i + 1) lst v)
      else rest_of_split s lst v)"
  by pat_completeness auto
termination by (relation "measure (\<lambda>(c, limit, s, i, lst, v). length s - i)") auto

definition split_char :: "string \<Rightarrow> char \<Rightarrow> 64 word \<Rightarrow> string list" where
  "split_char s separator limit = split_char_loop separator limit s 0 0 []"

text \<open>
  The split at a string compares \<^verbatim>\<open>string(i, i + separator.length())\<close> at every offset, also where that range
  ends past the end of the string, and does not step over a separator it has found, so that the next
  piece can begin after it ends.
\<close>

function split_string_loop :: "string \<Rightarrow> 64 word \<Rightarrow> string \<Rightarrow> nat \<Rightarrow> nat \<Rightarrow> string list \<Rightarrow> string list option" where
  "split_string_loop separator limit s i lst v =
     (if i < length s then
        (if length s < i + length separator then None
         else if slice_of i (i + length separator) s = separator then
           (if i < lst then None
            else
              (let v1 = v @ [slice_of lst i s]; lst1 = i + length separator in
               if limit_reached limit v1 then Some (v1 @ [slice_of lst1 (length s) s])
               else split_string_loop separator limit s (i + 1) lst1 v1))
         else split_string_loop separator limit s (i + 1) lst v)
      else Some (rest_of_split s lst v))"
  by pat_completeness auto
termination by (relation "measure (\<lambda>(c, limit, s, i, lst, v). length s - i)") auto

definition split_string :: "string \<Rightarrow> string \<Rightarrow> 64 word \<Rightarrow> string list option" where
  "split_string s separator limit = split_string_loop separator limit s 0 0 []"

function chunk_loop :: "nat \<Rightarrow> string \<Rightarrow> nat \<Rightarrow> nat \<Rightarrow> nat \<Rightarrow> string list \<Rightarrow> string list" where
  "chunk_loop chunklen s i n lst v =
     (if i < length s then
        (if n = chunklen then chunk_loop chunklen s (i + 1) 1 i (v @ [slice_of lst i s])
         else chunk_loop chunklen s (i + 1) (n + 1) lst v)
      else rest_of_split s lst v)"
  by pat_completeness auto
termination by (relation "measure (\<lambda>(c, s, i, n, lst, v). length s - i)") auto

definition chunk_split :: "string \<Rightarrow> nat \<Rightarrow> string list option" where
  "chunk_split s chunklen = (if chunklen = 0 then None else Some (chunk_loop chunklen s 0 0 0 []))"

text \<open>\<^verbatim>\<open>join\<close> erases the last glue, which throws when there is none.\<close>

definition join_string :: "string \<Rightarrow> string list \<Rightarrow> string option" where
  "join_string glue xs =
     (let retval = concat (map (\<lambda>x. x @ glue) xs) in
      if length retval < length glue then None else Some (take (length retval - length glue) retval))"

definition join_char :: "char \<Rightarrow> string list \<Rightarrow> string option" where
  "join_char glue xs =
     (let retval = concat (map (\<lambda>x. x @ [glue]) xs) in
      if retval = [] then None else Some (take (length retval - 1) retval))"

section \<open>Numbers\<close>

fun integer_loop :: "int \<Rightarrow> string \<Rightarrow> int option" where
  "integer_loop retval [] = Some retval"
| "integer_loop retval (c # cs) =
     (if is_digit c then
        (let r = retval * 10 + int (digit_value c) in if LONG_MAX < r then None else integer_loop r cs)
      else Some retval)"

definition integer :: "string \<Rightarrow> int option" where
  "integer s =
     (if s \<noteq> [] \<and> hd s = CHR ''-'' then map_option (\<lambda>r. r * - 1) (integer_loop 0 (tl s))
      else if s \<noteq> [] \<and> hd s = CHR ''+'' then integer_loop 0 (tl s)
      else integer_loop 0 s)"

section \<open>Replacing\<close>

definition replace_at :: "nat \<Rightarrow> nat \<Rightarrow> string \<Rightarrow> string \<Rightarrow> string" where
  "replace_at pos n r s = take pos s @ r @ drop (pos + n) s"

partial_function (option) replace_loop :: "string \<Rightarrow> string \<Rightarrow> nat \<Rightarrow> string \<Rightarrow> string option" where
  "replace_loop needle r lastpos s =
     (case str_find needle s lastpos of
        None \<Rightarrow> Some s
      | Some thispos \<Rightarrow> replace_loop needle r (thispos + 1) (replace_at thispos (length needle) r s))"

definition replace :: "string \<Rightarrow> string \<Rightarrow> string \<Rightarrow> string option" where
  "replace needle r s = replace_loop needle r 0 s"

definition replace_first :: "string \<Rightarrow> string \<Rightarrow> string \<Rightarrow> string" where
  "replace_first needle r s =
     (case str_find needle s 0 of None \<Rightarrow> s | Some thispos \<Rightarrow> replace_at thispos (length needle) r s)"

definition replace_char :: "char \<Rightarrow> char \<Rightarrow> string \<Rightarrow> string" where
  "replace_char needle c s = map (\<lambda>x. if x = needle then c else x) s"

definition repeat_string :: "string \<Rightarrow> nat \<Rightarrow> string" where
  "repeat_string s n = concat (replicate n s)"

section \<open>Case and classes\<close>

definition schar :: "char \<Rightarrow> int" where
  "schar c = (if byte_of c < 128 then int (byte_of c) else int (byte_of c) - 256)"

definition shift_char :: "char \<Rightarrow> int \<Rightarrow> char" where
  "shift_char c d = char_of (nat ((int (byte_of c) + d) mod 256))"

definition tolower :: "string \<Rightarrow> string" where
  "tolower s = map (\<lambda>c. if schar c \<ge> schar CHR ''A'' \<and> schar c \<le> schar CHR ''Z'' then shift_char c 32 else c) s"

definition toupper :: "string \<Rightarrow> string" where
  "toupper s = map (\<lambda>c. if schar c \<ge> schar CHR ''a'' \<and> schar c \<le> schar CHR ''z'' then shift_char c (- 32) else c) s"

definition swapcase :: "string \<Rightarrow> string" where
  "swapcase s =
     map (\<lambda>c. if schar c \<ge> schar CHR ''A'' \<and> schar c \<le> schar CHR ''Z'' then shift_char c 32
              else if schar c \<ge> schar CHR ''a'' \<and> schar c \<le> schar CHR ''z'' then shift_char c (- 32)
              else c) s"

function count_loop :: "string \<Rightarrow> string \<Rightarrow> nat \<Rightarrow> nat \<Rightarrow> nat" where
  "count_loop str s lst n =
     (case str_find str s (lst + 1) of None \<Rightarrow> n | Some cur \<Rightarrow> count_loop str s cur (n + 1))"
  by pat_completeness auto
termination by (relation "measure (\<lambda>(str, s, lst, n). length s - lst)") (auto simp: str_find_Some_iff)

definition count_substr :: "string \<Rightarrow> string \<Rightarrow> nat" where
  "count_substr str s = count_loop str s 0 0"

definition is_alnum :: "string \<Rightarrow> bool" where
  "is_alnum s \<longleftrightarrow> length s \<noteq> 0 \<and>
     list_all (\<lambda>c. \<not> ((schar c < schar CHR ''A'' \<or> schar c > schar CHR ''Z'') \<and>
                      (schar c < schar CHR ''0'' \<or> schar c > schar CHR ''9'') \<and>
                      (schar c < schar CHR ''a'' \<or> schar c > schar CHR ''z''))) s"

definition is_alpha :: "string \<Rightarrow> bool" where
  "is_alpha s \<longleftrightarrow> length s \<noteq> 0 \<and>
     list_all (\<lambda>c. \<not> (schar c < schar CHR ''A'' \<or>
                      (schar c > schar CHR ''Z'' \<and> (schar c < schar CHR ''a'' \<or> schar c > schar CHR ''z'')))) s"

definition is_numeric :: "string \<Rightarrow> bool" where
  "is_numeric s \<longleftrightarrow> length s \<noteq> 0 \<and> list_all (\<lambda>c. \<not> (schar c < schar CHR ''0'' \<or> schar c > schar CHR ''9'')) s"

definition is_lower :: "string \<Rightarrow> bool" where
  "is_lower s \<longleftrightarrow> length s \<noteq> 0 \<and> list_all (\<lambda>c. \<not> (schar c < schar CHR ''a'' \<or> schar c < schar CHR ''z'')) s"

definition is_upper :: "string \<Rightarrow> bool" where
  "is_upper s \<longleftrightarrow> length s \<noteq> 0 \<and> list_all (\<lambda>c. \<not> (schar c < schar CHR ''A'' \<or> schar c > schar CHR ''Z'')) s"

section \<open>Prefixes, suffixes, trimming\<close>

definition start_with :: "string \<Rightarrow> string \<Rightarrow> bool" where
  "start_with s str \<longleftrightarrow> str_find str s 0 = Some 0"

definition end_with :: "string \<Rightarrow> string \<Rightarrow> bool" where
  "end_with s str \<longleftrightarrow>
     length str \<le> length s \<and> str_find str s (length s - length str) = Some (length s - length str)"

definition drop_front :: "nat \<Rightarrow> string \<Rightarrow> string option" where
  "drop_front n s = (if n \<le> length s then Some (drop n s) else None)"

text \<open>\<^verbatim>\<open>size() - N\<close> wraps to a huge count when the string is too short, which keeps all of it.\<close>

definition drop_back :: "nat \<Rightarrow> string \<Rightarrow> string" where
  "drop_back n s = (if n \<le> length s then take (length s - n) s else s)"

definition take_back :: "nat \<Rightarrow> string \<Rightarrow> string" where
  "take_back n s = (if length s \<le> n then s else drop (length s - n) s)"

definition drop_while :: "(char \<Rightarrow> bool) \<Rightarrow> string \<Rightarrow> string" where
  "drop_while F s = (case str_find_if (\<lambda>c. \<not> F c) s 0 of None \<Rightarrow> [] | Some i \<Rightarrow> drop i s)"

definition drop_until :: "(char \<Rightarrow> bool) \<Rightarrow> string \<Rightarrow> string" where
  "drop_until F s = (case str_find_if F s 0 of None \<Rightarrow> [] | Some i \<Rightarrow> drop i s)"

definition consume_front :: "string \<Rightarrow> string \<Rightarrow> bool \<times> string" where
  "consume_front p s = (if \<not> start_with s p then (False, s) else (True, drop (length p) s))"

definition consume_back :: "string \<Rightarrow> string \<Rightarrow> bool \<times> string" where
  "consume_back p s = (if \<not> end_with s p then (False, s) else (True, drop_back (length p) s))"

definition trim_left :: "char \<Rightarrow> string \<Rightarrow> string" where
  "trim_left ch s = (case str_find_if (\<lambda>c. c \<noteq> ch) s 0 of None \<Rightarrow> s | Some off \<Rightarrow> drop off s)"

definition trim_right :: "char \<Rightarrow> string \<Rightarrow> string" where
  "trim_right ch s = (case str_rfind_if (\<lambda>c. c \<noteq> ch) s of None \<Rightarrow> [] | Some off \<Rightarrow> take (off + 1) s)"

definition trim :: "char \<Rightarrow> string \<Rightarrow> string" where
  "trim ch s = trim_right ch (trim_left ch s)"

declare split_space_loop.simps [simp del] split_char_loop.simps [simp del] split_string_loop.simps [simp del]
  chunk_loop.simps [simp del] count_loop.simps [simp del]

section \<open>Prefixes and trimming in terms of the list library\<close>

lemma start_with_iff [simp]: "start_with s p \<longleftrightarrow> prefix p s"
  by (auto simp: start_with_def str_find_Some_iff starts_at_def prefix_def) (metis append_take_drop_id)

lemma end_with_iff [simp]: "end_with s p \<longleftrightarrow> suffix p s"
proof
  assume "end_with s p"
  then have "drop (length s - length p) s = p" "length p \<le> length s"
    by (auto simp: end_with_def str_find_Some_iff starts_at_def)
  then show "suffix p s" by (metis suffix_drop)
next
  assume "suffix p s"
  then show "end_with s p" by (auto simp: end_with_def str_find_Some_iff starts_at_def suffix_def)
qed

lemma find_if_dropWhile:
  "(case str_find_if (\<lambda>c. \<not> P c) s 0 of None \<Rightarrow> d | Some i \<Rightarrow> drop i s) = (if list_all P s then d else dropWhile P s)"
proof (cases "str_find_if (\<lambda>c. \<not> P c) s 0")
  case None
  then have "list_all P s" by (auto simp: str_find_if_None_iff list_all_length)
  with None show ?thesis by simp
next
  case (Some i)
  then have i: "i < length s" "\<not> P (s ! i)" "\<forall>j<i. P (s ! j)" by (auto simp: str_find_if_Some_iff)
  then have "takeWhile P s = take i s" by (intro takeWhile_eq_take_P_nth) auto
  then have "length (takeWhile P s) = i" using i(1) by simp
  then have "dropWhile P s = drop i s" using dropWhile_eq_drop [of P s] by simp
  with i Some show ?thesis by (auto simp: list_all_length)
qed

lemma drop_while_eq [simp]: "drop_while P s = dropWhile P s"
  using find_if_dropWhile [where P = P and s = s and d = "[]"] dropWhile_eq_Nil_conv [of P s]
  by (auto simp: drop_while_def list_all_iff simp del: dropWhile_eq_Nil_conv)

lemma drop_until_eq [simp]: "drop_until P s = dropWhile (\<lambda>c. \<not> P c) s"
  using find_if_dropWhile [where P = "\<lambda>c. \<not> P c" and s = s and d = "[]"] dropWhile_eq_Nil_conv [of "\<lambda>c. \<not> P c" s]
  by (auto simp: drop_until_def list_all_iff simp del: dropWhile_eq_Nil_conv)

text \<open>A string of nothing but the trimmed character is left as it is by \<^const>\<open>trim_left\<close>.\<close>

lemma trim_left_eq: "trim_left ch s = (if list_all (\<lambda>c. c = ch) s then s else dropWhile (\<lambda>c. c = ch) s)"
  using find_if_dropWhile [where P = "\<lambda>c. c = ch" and s = s and d = s] by (simp add: trim_left_def)

lemma trim_right_snoc: "trim_right ch (s @ [c]) = (if c = ch then trim_right ch s else s @ [c])"
proof -
  have "str_rfind_if P (s @ [c]) = (if P c then Some (length s) else str_rfind_if P s)" for P
  proof -
    have "find (\<lambda>i. P ((s @ [c]) ! i)) (rev [0..<length s]) = find (\<lambda>i. P (s ! i)) (rev [0..<length s])"
      by (intro find_cong) (auto simp: nth_append)
    then show ?thesis by (simp add: str_rfind_if_def)
  qed
  moreover have "i < length s" if "str_rfind_if P s = Some i" for P i
    using that by (auto simp: str_rfind_if_def find_Some_iff rev_nth)
  ultimately show ?thesis by (fastforce simp: trim_right_def split: option.splits)
qed

lemma trim_right_Nil [simp]: "trim_right ch [] = []"
  by (simp add: trim_right_def str_rfind_if_def)

lemma trim_right_eq: "trim_right ch s = rev (dropWhile (\<lambda>c. c = ch) (rev s))"
  by (induction s rule: rev_induct) (auto simp: trim_right_snoc)

lemma trim_eq: "trim ch s = rev (dropWhile (\<lambda>c. c = ch) (rev (dropWhile (\<lambda>c. c = ch) s)))"
proof (cases "list_all (\<lambda>c. c = ch) s")
  case True
  then have e: "dropWhile (\<lambda>c. c = ch) s = []" "dropWhile (\<lambda>c. c = ch) (rev s) = []" by (auto simp: list_all_iff)
  show ?thesis using True unfolding trim_def trim_left_eq trim_right_eq by (simp only: e if_True rev.simps dropWhile.simps)
qed (simp add: trim_def trim_left_eq trim_right_eq)

section \<open>Splitting at a character\<close>

text \<open>The pieces between separators, and the same without an empty last piece.\<close>

fun pieces :: "char \<Rightarrow> string \<Rightarrow> string \<Rightarrow> string list" where
  "pieces c acc [] = [acc]"
| "pieces c acc (x # xs) = (if x = c then acc # pieces c [] xs else pieces c (acc @ [x]) xs)"

definition drop_empty_end :: "string list \<Rightarrow> string list" where
  "drop_empty_end ps = (if ps \<noteq> [] \<and> last ps = [] then butlast ps else ps)"

lemma pieces_not_Nil [simp]: "pieces c acc xs \<noteq> []"
  by (induction xs arbitrary: acc) auto

lemma drop_empty_end_Cons: "ps \<noteq> [] \<Longrightarrow> drop_empty_end (p # ps) = p # drop_empty_end ps"
  by (simp add: drop_empty_end_def)

lemma slice_snoc: "a \<le> i \<Longrightarrow> i < length s \<Longrightarrow> slice_of a i s @ [s ! i] = slice_of a (Suc i) s"
  by (simp add: slice_of_def Suc_diff_le take_Suc_conv_app_nth)

lemma limit_npos: "length v < 2 ^ 64 - 2 \<Longrightarrow> \<not> limit_reached (- 1) v"
proof -
  have "unat (- 1 - 1 :: 64 word) = 2 ^ 64 - 2" by (simp add: unsigned_minus_1_eq_mask mask_eq_exp_minus_1)
  then show "length v < 2 ^ 64 - 2 \<Longrightarrow> \<not> limit_reached (- 1) v" by (simp add: limit_reached_def)
qed

lemma split_char_loop_eq:
  "lst \<le> i \<Longrightarrow> i \<le> length s \<Longrightarrow> length v \<le> i \<Longrightarrow> length s < 2 ^ 64 - 2 \<Longrightarrow>
   split_char_loop c (- 1) s i lst v = v @ drop_empty_end (pieces c (slice_of lst i s) (drop i s))"
proof (induction c "- 1 :: 64 word" s i lst v rule: split_char_loop.induct)
  case (1 c s i lst v)
  show ?case
  proof (cases "i < length s")
    case False
    then have "i = length s" using "1.prems" by simp
    then show ?thesis using "1.prems" by (auto simp: split_char_loop.simps rest_of_split_def drop_empty_end_def slice_of_def)
  next
    case True
    then have d: "drop i s = s ! i # drop (Suc i) s" by (simp add: Cons_nth_drop_Suc)
    show ?thesis
    proof (cases "s ! i = c")
      case True
      have "\<not> limit_reached (- 1) (v @ [slice_of lst i s])" using "1.prems" \<open>i < length s\<close> by (intro limit_npos) simp
      moreover have "split_char_loop c (- 1) s (i + 1) (i + 1) (v @ [slice_of lst i s]) =
          (v @ [slice_of lst i s]) @ drop_empty_end (pieces c (slice_of (i + 1) (i + 1) s) (drop (i + 1) s))"
        using "1.hyps"(1) [OF \<open>i < length s\<close> True refl refl] "1.prems" \<open>i < length s\<close> calculation by simp
      ultimately show ?thesis using True \<open>i < length s\<close> d
        by (simp add: split_char_loop.simps [of c _ s i] drop_empty_end_Cons slice_of_def)
    next
      case False
      then show ?thesis using "1.hyps"(2) [OF \<open>i < length s\<close> False] "1.prems" \<open>i < length s\<close> d
        by (simp add: split_char_loop.simps [of c _ s i] slice_snoc)
    qed
  qed
qed

lemma pieces_join:
  "concat (map (\<lambda>x. x @ [c]) (pieces c acc s)) = acc @ s @ [c]"
  by (induction s arbitrary: acc) auto

lemma pieces_free: "c \<notin> set acc \<Longrightarrow> list_all (\<lambda>p. c \<notin> set p) (pieces c acc s)"
  by (induction s arbitrary: acc) auto

lemma last_pieces: "last (pieces c acc s) = [] \<longleftrightarrow> (if s = [] then acc = [] else last s = c)"
  by (induction s arbitrary: acc) auto

text \<open>
  Splitting at a character and joining again gives the string back, except that a separator at the very end
  is lost; no piece contains the separator.
\<close>

lemma split_char_join:
  assumes "s \<noteq> []" "length s < 2 ^ 64 - 2"
  shows "join_char c (split_char s c (- 1)) = Some (if last s = c then butlast s else s)"
    and "list_all (\<lambda>p. c \<notin> set p) (split_char s c (- 1))"
proof -
  let ?ps = "pieces c [] s"
  have sp: "split_char s c (- 1) = drop_empty_end ?ps"
    using split_char_loop_eq [of 0 0 s "[]" c] assms(2) by (simp add: split_char_def slice_of_def)
  have j: "concat (map (\<lambda>x. x @ [c]) ?ps) = s @ [c]" by (simp add: pieces_join)
  show "list_all (\<lambda>p. c \<notin> set p) (split_char s c (- 1))"
    using pieces_free [of c "[]" s] by (auto simp: sp drop_empty_end_def list_all_iff dest: in_set_butlastD)
  show "join_char c (split_char s c (- 1)) = Some (if last s = c then butlast s else s)"
  proof (cases "last s = c")
    case True
    then have "last ?ps = []" using assms(1) by (simp add: last_pieces)
    then obtain qs where qs: "?ps = qs @ [[]]" by (metis append_butlast_last_id pieces_not_Nil)
    then have "concat (map (\<lambda>x. x @ [c]) qs) = s" using j by simp
    moreover have "split_char s c (- 1) = qs" by (simp add: sp drop_empty_end_def qs)
    ultimately show ?thesis using assms(1) True by (simp add: join_char_def Let_def butlast_conv_take)
  next
    case False
    then have "split_char s c (- 1) = ?ps" using assms(1) by (simp add: sp drop_empty_end_def last_pieces)
    then show ?thesis using False j by (simp add: join_char_def Let_def)
  qed
qed

section \<open>Reading numbers\<close>

lemma integer_loop_digits:
  "list_all is_digit ds \<Longrightarrow> int (foldl (\<lambda>v c. 10 * v + digit_value c) n ds) \<le> LONG_MAX \<Longrightarrow>
   integer_loop (int n) ds = Some (int (foldl (\<lambda>v c. 10 * v + digit_value c) n ds))"
proof (induction ds arbitrary: n)
  case (Cons d ds)
  have mono: "m \<le> foldl (\<lambda>v c. 10 * v + digit_value c) m ds" for m
  proof (induction ds arbitrary: m)
    case (Cons d ds)
    from Cons [of "10 * m + digit_value d"] show ?case by simp
  qed simp
  from Cons.prems mono [of "10 * n + digit_value d"] have "int (10 * n + digit_value d) \<le> LONG_MAX" by auto
  moreover have "int n * 10 + int (digit_value d) = int (10 * n + digit_value d)" by simp
  ultimately have "integer_loop (int n) (d # ds) = integer_loop (int (10 * n + digit_value d)) ds"
    using Cons.prems(1) by (auto simp: Let_def algebra_simps)
  then show ?case using Cons.IH [of "10 * n + digit_value d"] Cons.prems by simp
qed simp

lemma integer_loop_overflow:
  "list_all is_digit ds \<Longrightarrow> int n \<le> LONG_MAX \<Longrightarrow> LONG_MAX < int (foldl (\<lambda>v c. 10 * v + digit_value c) n ds) \<Longrightarrow>
   integer_loop (int n) ds = None"
proof (induction ds arbitrary: n)
  case (Cons d ds)
  have e: "int n * 10 + int (digit_value d) = int (10 * n + digit_value d)" by simp
  show ?case
    unfolding integer_loop.simps Let_def e using Cons.IH [of "10 * n + digit_value d"] Cons.prems by auto
qed simp

lemma integer_to_string:
  assumes "int n \<le> LONG_MAX"
  shows "integer (to_string n) = Some (int n)" and "integer (CHR ''-'' # to_string n) = Some (- int n)"
proof -
  have l: "integer_loop 0 (to_string n) = Some (int n)"
    using integer_loop_digits [OF to_string_digits, of 0 n] assms digits_value_to_string [of n] by (simp add: digits_value_def)
  obtain d ds where d: "to_string n = d # ds" by (cases "to_string n") auto
  then have "is_digit d" using to_string_digits [of n] by simp
  then show "integer (to_string n) = Some (int n)" using l d is_digit_not_space [of d] by (simp add: integer_def)
  show "integer (CHR ''-'' # to_string n) = Some (- int n)" using l by (simp add: integer_def)
qed

section \<open>Chunks\<close>

lemma chunk_loop_eq:
  "0 < k \<Longrightarrow> lst \<le> i \<Longrightarrow> i \<le> length s \<Longrightarrow> n = i - lst \<Longrightarrow> n \<le> k \<Longrightarrow> (lst < i \<or> i = 0) \<Longrightarrow>
    \<exists>ps. chunk_loop k s i n lst v = v @ ps \<and> concat ps = drop lst s \<and>
         (\<forall>j<length ps. 0 < length (ps ! j) \<and> length (ps ! j) \<le> k \<and> (Suc j < length ps \<longrightarrow> length (ps ! j) = k))"
proof (induction k s i n lst v rule: chunk_loop.induct)
  case (1 k s i n lst v)
  show ?case
  proof (cases "i < length s")
    case False
    then have "i = length s" using "1.prems" by simp
    then show ?thesis using "1.prems"
      by (cases "lst = length s") (auto simp: chunk_loop.simps [of k s "length s"] chunk_loop.simps [of k "[]"] rest_of_split_def slice_of_def)
  next
    case True
    show ?thesis
    proof (cases "n = k")
      case True
      then obtain ps where ps: "chunk_loop k s (i + 1) 1 i (v @ [slice_of lst i s]) = (v @ [slice_of lst i s]) @ ps"
          "concat ps = drop i s"
          "\<forall>j<length ps. 0 < length (ps ! j) \<and> length (ps ! j) \<le> k \<and> (Suc j < length ps \<longrightarrow> length (ps ! j) = k)"
        using "1.IH"(1) [OF \<open>i < length s\<close> True] "1.prems" \<open>i < length s\<close> by auto
      have len: "length (slice_of lst i s) = k" using "1.prems" True by (simp add: slice_of_def)
      have "slice_of lst i s @ drop i s = drop lst s"
        using "1.prems"(2) append_take_drop_id [of "i - lst" "drop lst s"] by (simp add: slice_of_def)
      moreover have "chunk_loop k s i n lst v = v @ slice_of lst i s # ps" using ps(1) True \<open>i < length s\<close> by (simp add: chunk_loop.simps [of k s i])
      ultimately show ?thesis using ps(2,3) len "1.prems"(1)
        by (intro exI [of _ "slice_of lst i s # ps"]) (auto simp: nth_Cons split: nat.splits)
    next
      case False
      then have "chunk_loop k s i n lst v = chunk_loop k s (i + 1) (n + 1) lst v" using \<open>i < length s\<close> by (simp add: chunk_loop.simps [of k s i])
      then show ?thesis using "1.IH"(2) [OF \<open>i < length s\<close> False] False "1.prems" \<open>i < length s\<close>
        by (simp add: Suc_diff_le)
    qed
  qed
qed

text \<open>The chunks make up the string, and all but the last have the given length.\<close>

lemma chunk_split_correct:
  assumes "0 < k"
  shows "\<exists>ps. chunk_split s k = Some ps \<and> concat ps = s \<and>
    (\<forall>j<length ps. 0 < length (ps ! j) \<and> length (ps ! j) \<le> k \<and> (Suc j < length ps \<longrightarrow> length (ps ! j) = k))"
  using chunk_loop_eq [OF assms, of 0 0 s 0 "[]"] assms by (simp add: chunk_split_def)

section \<open>Where the operations differ from their descriptions\<close>

text \<open>A replacement that contains the needle after its first character is replaced again and again.\<close>

definition grows_for_ever :: "string \<Rightarrow> string \<Rightarrow> nat \<Rightarrow> string \<Rightarrow> bool" where
  "grows_for_ever n r p t \<longleftrightarrow> p < length t \<and> set t \<subseteq> {CHR ''a''} \<and> n = ''a'' \<and> r = ''aa''"

lemma grows_step:
  assumes "grows_for_ever n r p t"
  shows "str_find n t p = Some p" "grows_for_ever n r (p + 1) (replace_at p (length n) r t)"
proof -
  have "t ! p = CHR ''a''" using assms nth_mem [of p t] unfolding grows_for_ever_def by blast
  then show "str_find n t p = Some p" using assms by (auto simp: grows_for_ever_def str_find_Some_iff starts_at_Cons_iff)
  show "grows_for_ever n r (p + 1) (replace_at p (length n) r t)"
    using assms by (auto simp: grows_for_ever_def replace_at_def dest: in_set_takeD in_set_dropD)
qed

lemma replace_loop_diverges: "replace_loop n r p t = Some y \<Longrightarrow> \<not> grows_for_ever n r p t"
proof (rule replace_loop.raw_induct [where P = "\<lambda>n r p t y. \<not> grows_for_ever n r p t"])
  fix loop :: "string \<Rightarrow> string \<Rightarrow> nat \<Rightarrow> string \<Rightarrow> string option" and n r :: string and p :: nat and t y :: string
  assume IH: "\<And>n r p t y. loop n r p t = Some y \<Longrightarrow> \<not> grows_for_ever n r p t"
    and eq: "(case str_find n t p of None \<Rightarrow> Some t | Some q \<Rightarrow> loop n r (q + 1) (replace_at q (length n) r t)) = Some y"
  show "\<not> grows_for_ever n r p t"
    using eq IH grows_step by fastforce
qed

lemma replace_diverges: "replace ''a'' ''aa'' ''a'' = None"
  using replace_loop_diverges [of "''a''" "''aa''" 0 "''a''"]
  by (cases "replace_loop ''a'' ''aa'' 0 ''a''") (auto simp: replace_def grows_for_ever_def)

text \<open>Erasing skips an occurrence that has moved to the place of the one before.\<close>

lemma replace_skips: "replace ''ab'' [] ''abab'' = Some ''ab''"
proof -
  have "str_find ''ab'' ''abab'' 0 = Some 0" "replace_at 0 (length ''ab'') [] ''abab'' = ''ab''" "str_find ''ab'' ''ab'' (0 + 1) = None"
    by code_simp+
  then show ?thesis unfolding replace_def by (subst replace_loop.simps, simp only: option.case) (subst replace_loop.simps, simp only: option.case)
qed

text \<open>An occurrence at the beginning is not counted.\<close>

lemma count_misses_first: "count_substr ''a'' ''aba'' = 1"
  by code_simp

text \<open>Lower-case letters other than the last one are refused, and other characters are accepted.\<close>

lemma is_lower_wrong: "\<not> is_lower ''abc'' \<and> is_lower ''z|}''"
  by code_simp

text \<open>A separator of two or more bytes makes the comparison run past the end.\<close>

lemma split_string_past_end:
  "2 \<le> length separator \<Longrightarrow> i < length s \<Longrightarrow> length v \<le> i \<Longrightarrow> length s < 2 ^ 64 - 2 \<Longrightarrow>
   split_string_loop separator (- 1) s i lst v = None"
proof (induction separator "- 1 :: 64 word" s i lst v rule: split_string_loop.induct)
  case (1 separator s i lst v)
  show ?case
  proof (cases "length s < i + length separator")
    case False
    then have i: "i + 1 < length s" using "1.prems" by simp
    have "\<not> limit_reached (- 1) (v @ [slice_of lst i s])" using "1.prems" by (intro limit_npos) simp
    then have "split_string_loop separator (- 1) s (i + 1) (i + length separator) (v @ [slice_of lst i s]) = None"
      if "slice_of i (i + length separator) s = separator" "\<not> i < lst"
      using "1.hyps"(1) [OF \<open>i < length s\<close> False that refl refl] "1.prems" i by simp
    moreover have "split_string_loop separator (- 1) s (i + 1) lst v = None" if "slice_of i (i + length separator) s \<noteq> separator"
      using "1.hyps"(2) [OF \<open>i < length s\<close> False that] "1.prems" i by simp
    ultimately show ?thesis using False \<open>i < length s\<close> \<open>\<not> limit_reached (- 1) (v @ [slice_of lst i s])\<close>
      by (simp add: split_string_loop.simps [of separator _ s i] Let_def)
  qed (use "1.prems" in \<open>simp add: split_string_loop.simps\<close>)
qed

text \<open>Swapping the case of letters twice changes nothing.\<close>

definition swap_char :: "char \<Rightarrow> char" where
  "swap_char c = hd (swapcase [c])"

lemma swapcase_map: "swapcase s = map swap_char s"
  by (simp add: swap_char_def swapcase_def)

lemma byte_of_shift_char:
  "byte_of c + d < 256 \<Longrightarrow> byte_of (shift_char c (int d)) = byte_of c + d"
  "d \<le> byte_of c \<Longrightarrow> byte_of (shift_char c (- int d)) = byte_of c - d"
proof -
  assume "byte_of c + d < 256"
  then have "(int (byte_of c) + int d) mod 256 = int (byte_of c + d)" by simp
  then show "byte_of (shift_char c (int d)) = byte_of c + d" using \<open>byte_of c + d < 256\<close> by (simp add: shift_char_def del: of_nat_add)
next
  assume "d \<le> byte_of c"
  moreover have b: "byte_of c < 256" by simp
  ultimately have "(int (byte_of c) - int d) mod 256 = int (byte_of c) - int d" by (intro mod_pos_pos_trivial) linarith+
  then have "(int (byte_of c) + - int d) mod 256 = int (byte_of c - d)" using \<open>d \<le> byte_of c\<close> by (simp add: of_nat_diff)
  then show "byte_of (shift_char c (- int d)) = byte_of c - d" using b by (simp add: shift_char_def)
qed

lemma byte_of_swap_char:
  "byte_of (swap_char c) =
     (if 65 \<le> byte_of c \<and> byte_of c \<le> 90 then byte_of c + 32 else if 97 \<le> byte_of c \<and> byte_of c \<le> 122 then byte_of c - 32 else byte_of c)"
proof -
  have k: "schar CHR ''A'' = 65" "schar CHR ''Z'' = 90" "schar CHR ''a'' = 97" "schar CHR ''z'' = 122"
    by (simp_all add: schar_def byte_of_def)
  have "65 \<le> schar c \<and> schar c \<le> 90 \<longleftrightarrow> 65 \<le> byte_of c \<and> byte_of c \<le> 90"
    "97 \<le> schar c \<and> schar c \<le> 122 \<longleftrightarrow> 97 \<le> byte_of c \<and> byte_of c \<le> 122"
    using byte_of_less [of c] unfolding schar_def by (auto split: if_splits simp del: byte_of_less)
  then show ?thesis
    using byte_of_shift_char(1) [of c 32] byte_of_shift_char(2) [of 32 c] by (simp add: swap_char_def swapcase_def k)
qed

lemma swap_char_swap_char: "swap_char (swap_char c) = c"
proof -
  have "byte_of (swap_char (swap_char c)) = byte_of c"
    unfolding byte_of_swap_char [of "swap_char c"] byte_of_swap_char [of c] by (auto split: if_splits)
  then show ?thesis by simp
qed

lemma swapcase_involutive: "swapcase (swapcase s) = s"
  by (simp add: swapcase_map swap_char_swap_char o_def)

end
