(* ===== verification/Markup.thy ===== *)
theory Markup
  imports String_Ref
begin

text \<open>
  The markup renderer (\<^verbatim>\<open>src/lsp/Markup.cpp\<close>): hexadecimal and decimal conversions, escaping of text for
  markdown, code spans and fences, and documents of blocks with their two renderings.  A stream that a
  block is rendered to is the string it appends.  Assertions are compiled out, as in a release build; what they
  claim is stated separately where it fails.  \<^verbatim>\<open>unsigned\<close> counters of characters are kept at 32 bits where a
  result depends on them.
\<close>

section \<open>Characters and numbers\<close>

definition hexdigit :: "nat \<Rightarrow> bool \<Rightarrow> char" where
  "hexdigit X LowerCase =
     (if X < 10 then char_of (byte_of CHR ''0'' + X)
      else char_of (byte_of (if LowerCase then CHR ''a'' else CHR ''A'') + X - 10))"

definition toStringRef :: "bool \<Rightarrow> string" where
  "toStringRef B = (if B then ''true'' else ''false'')"

text \<open>
  \<^verbatim>\<open>~0U\<close> marks what is no digit.  The table has 255 entries, so looking up the byte 255 reads past it; the
  argument \<open>past\<close> is what that read delivers.
\<close>

definition no_digit :: "32 word" where
  "no_digit = - 1"

definition hexDigitValue :: "32 word \<Rightarrow> char \<Rightarrow> 32 word" where
  "hexDigitValue past C =
     (let i = byte_of C in
      if i = 255 then past
      else if 48 \<le> i \<and> i < 58 then of_nat (i - 48)
      else if 65 \<le> i \<and> i < 71 then of_nat (10 + (i - 65))
      else if 97 \<le> i \<and> i < 103 then of_nat (10 + (i - 97))
      else no_digit)"

definition isDigit :: "char \<Rightarrow> bool" where
  "isDigit C \<longleftrightarrow> schar CHR ''0'' \<le> schar C \<and> schar C \<le> schar CHR ''9''"

definition isHexDigit :: "32 word \<Rightarrow> char \<Rightarrow> bool" where
  "isHexDigit past C \<longleftrightarrow> hexDigitValue past C \<noteq> no_digit"

definition isAlpha :: "char \<Rightarrow> bool" where
  "isAlpha C \<longleftrightarrow> (schar CHR ''a'' \<le> schar C \<and> schar C \<le> schar CHR ''z'') \<or>
                 (schar CHR ''A'' \<le> schar C \<and> schar C \<le> schar CHR ''Z'')"

definition isAlnum :: "char \<Rightarrow> bool" where
  "isAlnum C \<longleftrightarrow> isAlpha C \<or> isDigit C"

definition isASCII :: "char \<Rightarrow> bool" where
  "isASCII C \<longleftrightarrow> byte_of C \<le> 127"

fun isASCII_string :: "string \<Rightarrow> bool" where
  "isASCII_string [] = True"
| "isASCII_string (C # S) = (if \<not> isASCII C then True else isASCII_string S)"

definition isPrint :: "char \<Rightarrow> bool" where
  "isPrint C \<longleftrightarrow> 0x20 \<le> byte_of C \<and> byte_of C \<le> 0x7E"

definition isSpace :: "char \<Rightarrow> bool" where
  "isSpace C \<longleftrightarrow> C = CHR '' '' \<or> C = CHR 0x0C \<or> C = LF \<or> C = CR \<or> C = TAB \<or> C = CHR 0x0B"

definition toLower :: "char \<Rightarrow> char" where
  "toLower x = (if schar CHR ''A'' \<le> schar x \<and> schar x \<le> schar CHR ''Z'' then shift_char x 32 else x)"

definition toUpper :: "char \<Rightarrow> char" where
  "toUpper x = (if schar CHR ''a'' \<le> schar x \<and> schar x \<le> schar CHR ''z'' then shift_char x (- 32) else x)"

text \<open>The digits are written from the end of a buffer, here in front of those already written.\<close>

fun utohex_loop :: "nat \<Rightarrow> bool \<Rightarrow> string \<Rightarrow> string" where
  "utohex_loop X LowerCase buf =
     (if X = 0 then buf else utohex_loop (X div 16) LowerCase (hexdigit (X mod 16) LowerCase # buf))"

definition utohexstr :: "64 word \<Rightarrow> bool \<Rightarrow> string" where
  "utohexstr X LowerCase = utohex_loop (unat X) LowerCase (if X = 0 then ''0'' else [])"

definition toHex :: "string \<Rightarrow> bool \<Rightarrow> string" where
  "toHex Input LowerCase =
     (let offset = (if LowerCase then 32 else 0) in
      concat (map (\<lambda>c. [char_of (or (byte_of (HEX ! (byte_of c div 16))) offset),
                        char_of (or (byte_of (HEX ! (byte_of c mod 16))) offset)]) Input))"

definition tryGetHexFromNibbles :: "32 word \<Rightarrow> char \<Rightarrow> char \<Rightarrow> char option" where
  "tryGetHexFromNibbles past MSB LSB =
     (let U1 = hexDigitValue past MSB; U2 = hexDigitValue past LSB in
      if U1 = no_digit \<or> U2 = no_digit then None
      else Some (char_of (unat (ucast (or (push_bit 4 U1) U2) :: 8 word))))"

definition hexFromNibbles :: "32 word \<Rightarrow> char \<Rightarrow> char \<Rightarrow> char" where
  "hexFromNibbles past MSB LSB = (case tryGetHexFromNibbles past MSB LSB of Some h \<Rightarrow> h | None \<Rightarrow> NUL)"

text \<open>The pairs of the loop; a single byte is never left, as the length is even there.\<close>

fun hex_pairs :: "32 word \<Rightarrow> string \<Rightarrow> string \<Rightarrow> bool \<times> string" where
  "hex_pairs past (a # b # Input) Output =
     (case tryGetHexFromNibbles past a b of
        None \<Rightarrow> (False, Output)
      | Some Hex \<Rightarrow> hex_pairs past Input (Output @ [Hex]))"
| "hex_pairs past [] Output = (True, Output)"
| "hex_pairs past [a] Output = (False, Output)"

definition tryGetFromHex :: "32 word \<Rightarrow> string \<Rightarrow> string \<Rightarrow> bool \<times> string" where
  "tryGetFromHex past Input Output =
     (if Input = [] then (True, Output)
      else if length Input mod 2 = 1 then
        (case tryGetHexFromNibbles past CHR ''0'' (hd Input) of
           None \<Rightarrow> (False, Output)
         | Some Hex \<Rightarrow> hex_pairs past (tl Input) (Output @ [Hex]))
      else hex_pairs past Input Output)"

definition fromHex :: "32 word \<Rightarrow> string \<Rightarrow> string" where
  "fromHex past Input = snd (tryGetFromHex past Input [])"

fun utostr_loop :: "nat \<Rightarrow> string \<Rightarrow> string" where
  "utostr_loop X buf = (if X = 0 then buf else utostr_loop (X div 10) (char_of (byte_of CHR ''0'' + X mod 10) # buf))"

definition utostr :: "64 word \<Rightarrow> bool \<Rightarrow> string" where
  "utostr X isNeg =
     (let ds = utostr_loop (unat X) (if X = 0 then ''0'' else []) in if isNeg then CHR ''-'' # ds else ds)"

definition itostr :: "64 word \<Rightarrow> string" where
  "itostr X = (if sint X < 0 then utostr (1 + not X) True else utostr X False)"

definition getOrdinalSuffix :: "32 word \<Rightarrow> string" where
  "getOrdinalSuffix Val =
     (if unat Val mod 100 \<in> {11, 12, 13} then ''th''
      else if unat Val mod 10 = 1 then ''st''
      else if unat Val mod 10 = 2 then ''nd''
      else if unat Val mod 10 = 3 then ''rd''
      else ''th'')"

declare utohex_loop.simps [simp del] utostr_loop.simps [simp del]

section \<open>Joining\<close>

fun join_rest :: "string \<Rightarrow> string \<Rightarrow> string list \<Rightarrow> string" where
  "join_rest S Separator [] = S"
| "join_rest S Separator (x # xs) = join_rest (S @ Separator @ x) Separator xs"

definition join_impl :: "string list \<Rightarrow> string \<Rightarrow> string" where
  "join_impl R Separator = (case R of [] \<Rightarrow> [] | x # xs \<Rightarrow> join_rest x Separator xs)"

fun join_items_impl :: "string \<Rightarrow> string \<Rightarrow> string list \<Rightarrow> string" where
  "join_items_impl Result Separator [] = Result"
| "join_items_impl Result Separator [Item] = Result @ Item"
| "join_items_impl Result Separator (A1 # Items) = join_items_impl (Result @ A1 @ Separator) Separator Items"

fun join_items_size :: "string list \<Rightarrow> nat" where
  "join_items_size [] = 0"
| "join_items_size [A] = length A"
| "join_items_size (A # Items) = length A + join_items_size Items"

definition join_items :: "string \<Rightarrow> string list \<Rightarrow> string" where
  "join_items Separator Items = (if Items = [] then [] else join_items_impl [] Separator Items)"

record ListSeparator =
  First :: bool
  Separator :: string

definition make_ListSeparator :: "string \<Rightarrow> ListSeparator" where
  "make_ListSeparator sep = \<lparr>First = True, Separator = sep\<rparr>"

definition next_separator :: "ListSeparator \<Rightarrow> string \<times> ListSeparator" where
  "next_separator ls = (if First ls then ([], ls\<lparr>First := False\<rparr>) else (Separator ls, ls))"

section \<open>Escaping text\<close>

fun tag_rest :: "string \<Rightarrow> bool" where
  "tag_rest [] = True"
| "tag_rest (c # cs) =
     (if isAlnum c \<or> isSpace c then tag_rest cs
      else if c = CHR ''>'' \<or> start_with (c # cs) ''/>'' then True
      else if c = CHR ''='' then True
      else False)"

definition looksLikeTag :: "string \<Rightarrow> bool" where
  "looksLikeTag Contents =
     (if Contents = [] then False
      else if hd Contents = CHR ''!'' \<or> hd Contents = CHR ''?'' \<or> hd Contents = SLASH then True
      else if \<not> isAlpha (hd Contents) then False
      else tag_rest (drop_while isSpace
             (drop_while (\<lambda>C. isAlnum C \<or> C = CHR ''-'' \<or> C = CHR ''_'' \<or> C = CHR '':'') Contents)))"

text \<open>
  \<^verbatim>\<open>RulerLength\<close> trims \<^verbatim>\<open>After\<close> in place, so what is looked at later is the trimmed string; the result is the
  length and that string.
\<close>

definition RulerLength :: "char \<Rightarrow> string \<Rightarrow> string \<Rightarrow> bool \<Rightarrow> nat \<times> string" where
  "RulerLength C Before After StartsLine =
     (if \<not> StartsLine \<or> Before \<noteq> [] then (0, After)
      else (let A = trim_right CHR '' '' After in (if list_all (\<lambda>D. C = D) A then 1 + length A else 0, A)))"

definition IsBullet :: "string \<Rightarrow> string \<Rightarrow> bool \<Rightarrow> bool" where
  "IsBullet Before After StartsLine \<longleftrightarrow> StartsLine \<and> Before = [] \<and> (After = [] \<or> start_with After '' '')"

definition SpaceSurrounds :: "string \<Rightarrow> string \<Rightarrow> bool" where
  "SpaceSurrounds Before After \<longleftrightarrow>
     (After = [] \<or> is_c_space (hd After)) \<and> (Before = [] \<or> is_c_space (last Before))"

definition WordSurrounds :: "string \<Rightarrow> string \<Rightarrow> bool" where
  "WordSurrounds Before After \<longleftrightarrow>
     (After \<noteq> [] \<and> is_alnum_ascii (hd After)) \<and> (Before \<noteq> [] \<and> is_alnum_ascii (last Before))"

definition entity_reference :: "32 word \<Rightarrow> string \<Rightarrow> bool" where
  "entity_reference past After =
     (case str_find '';'' After 0 of
        None \<Rightarrow> False
      | Some End \<Rightarrow>
          (case consume_front ''#'' (substr 0 End After) of
             (True, Content1) \<Rightarrow>
               (case consume_front ''x'' Content1 of
                  (True, Content2) \<Rightarrow> list_all (isHexDigit past) Content2
                | (False, Content2) \<Rightarrow>
                    (case consume_front ''X'' Content2 of
                       (True, Content3) \<Rightarrow> list_all (isHexDigit past) Content3
                     | (False, Content3) \<Rightarrow> list_all isDigit Content3))
           | (False, Content1) \<Rightarrow> list_all isAlpha Content1))"

definition needsLeadingEscape :: "32 word \<Rightarrow> char \<Rightarrow> string \<Rightarrow> string \<Rightarrow> bool \<Rightarrow> bool" where
  "needsLeadingEscape past C Before After StartsLine =
     (if C = BACKSLASH then True
      else if C = BACKTICK then True
      else if C = CHR ''~'' then StartsLine \<and> Before = [] \<and> start_with After ''~~''
      else if C = CHR ''#'' then
        (if \<not> StartsLine \<or> Before \<noteq> [] then False
         else (let Rest = trim_left C After in Rest = [] \<or> start_with Rest '' ''))
      else if C = CHR '']'' then start_with After '':'' \<or> start_with After ''(''
      else if C = CHR ''='' then fst (RulerLength C Before After StartsLine) > 0
      else if C = CHR ''_'' then
        (case RulerLength C Before After StartsLine of (n, After1) \<Rightarrow>
           if n \<ge> 3 then True else \<not> (SpaceSurrounds Before After1 \<or> WordSurrounds Before After1))
      else if C = CHR ''-'' then
        (case RulerLength C Before After StartsLine of (n, After1) \<Rightarrow>
           if n > 0 then True else IsBullet Before After1 StartsLine)
      else if C = CHR ''+'' then IsBullet Before After StartsLine
      else if C = CHR ''*'' then
        (IsBullet Before After StartsLine \<or>
         (case RulerLength C Before After StartsLine of (n, After1) \<Rightarrow> n \<ge> 3 \<or> \<not> SpaceSurrounds Before After1))
      else if C = CHR ''<'' then looksLikeTag After
      else if C = CHR ''>'' then StartsLine \<and> Before = []
      else if C = CHR ''&'' then entity_reference past After
      else if C = CHR ''.'' \<or> C = CHR '')'' then
        StartsLine \<and> Before \<noteq> [] \<and> list_all isDigit Before \<and> start_with After '' ''
      else False)"

text \<open>The index is \<^verbatim>\<open>unsigned\<close>; the loop is the one below for inputs shorter than 4 GiB.\<close>

definition renderText :: "32 word \<Rightarrow> string \<Rightarrow> bool \<Rightarrow> string" where
  "renderText past Input StartsLine =
     concat (map (\<lambda>I. (if needsLeadingEscape past (Input ! I) (take I Input) (drop (I + 1) Input) StartsLine
                       then [BACKSLASH] else []) @ [Input ! I]) [0..<length Input])"

section \<open>Code\<close>

function inline_loop :: "string \<Rightarrow> nat \<Rightarrow> string \<Rightarrow> string" where
  "inline_loop Input From R =
     (if From < length Input then
        (case str_find ''`'' Input From of
           None \<Rightarrow> R @ drop From Input
         | Some Next \<Rightarrow> inline_loop Input (Next + 1) (R @ substr From (Next - From) Input @ ''``''))
      else R)"
  by pat_completeness auto
termination by (relation "measure (\<lambda>(s, f, r). length s - f)") (auto simp: str_find_Some_iff)

definition renderInlineBlock :: "string \<Rightarrow> string" where
  "renderInlineBlock Input =
     (let R = inline_loop Input 0 [] in
      if start_with R ''`'' \<or> end_with R ''`'' then ''` '' @ R @ '' `''
      else if start_with R '' '' \<and> end_with R '' '' then ''` '' @ R @ '' `''
      else ''`'' @ R @ ''`'')"

fun backtick_loop :: "32 word \<Rightarrow> 32 word \<Rightarrow> string \<Rightarrow> 32 word \<times> 32 word" where
  "backtick_loop MaxBackticks Backticks [] = (MaxBackticks, Backticks)"
| "backtick_loop MaxBackticks Backticks (C # Input) =
     (if C = BACKTICK then backtick_loop MaxBackticks (Backticks + 1) Input
      else backtick_loop (max MaxBackticks Backticks) 0 Input)"

definition getMarkerForCodeBlock :: "string \<Rightarrow> string" where
  "getMarkerForCodeBlock Input =
     (case backtick_loop 0 0 Input of (MaxBackticks, Backticks) \<Rightarrow>
        replicate (unat (max 3 (max Backticks MaxBackticks + 1))) BACKTICK)"

section \<open>White space\<close>

function split_fragments :: "string \<Rightarrow> string \<Rightarrow> nat option \<Rightarrow> string list \<Rightarrow> string list" where
  "split_fragments Source Delimiters start OutFragments =
     (case start of
        None \<Rightarrow> OutFragments
      | Some st \<Rightarrow>
          (case str_find_if (\<lambda>c. c \<in> set Delimiters) Source st of
             None \<Rightarrow> OutFragments @ [substr st (length Source - st) Source]
           | Some en \<Rightarrow>
               split_fragments Source Delimiters (str_find_if (\<lambda>c. c \<notin> set Delimiters) Source en)
                 (OutFragments @ [substr st (en - st) Source])))"
  by pat_completeness auto
termination
proof (relation "measure (\<lambda>(s, d, st, out). case st of None \<Rightarrow> 0 | Some i \<Rightarrow> Suc (length s) - i)", simp)
  fix Source Delimiters :: string and start OutFragments st en
  assume start: "start = Some st" and en: "str_find_if (\<lambda>c. c \<in> set Delimiters) Source st = Some en"
  have "st < st'" "st' < length Source" if "str_find_if (\<lambda>c. c \<notin> set Delimiters) Source en = Some st'" for st'
  proof -
    have "en \<noteq> st'" using en that by (auto simp: str_find_if_Some_iff)
    then show "st < st'" "st' < length Source" using en that by (auto simp: str_find_if_Some_iff)
  qed
  moreover have "st < length Source" using en by (auto simp: str_find_if_Some_iff)
  ultimately show "((Source, Delimiters, str_find_if (\<lambda>c. c \<notin> set Delimiters) Source en, OutFragments @ [substr st (en - st) Source]),
      Source, Delimiters, start, OutFragments)
    \<in> measure (\<lambda>(s, d, st, out). case st of None \<Rightarrow> 0 | Some i \<Rightarrow> Suc (length s) - i)"
    using start by (auto split: option.splits)
qed

declare split_fragments.simps [simp del] inline_loop.simps [simp del]

definition Markup_SplitString :: "string \<Rightarrow> string \<Rightarrow> string list" where
  "Markup_SplitString Source Delimiters =
     split_fragments Source Delimiters (str_find_if (\<lambda>c. c \<notin> set Delimiters) Source 0) []"

definition space_delimiters :: string where
  "space_delimiters = [CHR '' '', TAB, LF, CHR 0x0B, CHR 0x0C, CR]"

definition canonicalizeSpaces :: "string \<Rightarrow> string" where
  "canonicalizeSpaces Input = join_impl (Markup_SplitString Input space_delimiters) '' ''"

section \<open>Blocks and documents\<close>

datatype chunk_kind = PlainText | InlineCode

record Chunk =
  Kind :: chunk_kind
  Preserve :: bool
  Contents :: string
  SpaceBefore :: bool
  SpaceAfter :: bool

text \<open>A document is the list of its blocks, a bullet list the list of its items.\<close>

datatype Block =
    Ruler
  | CodeBlock string string
  | Paragraph "Chunk list"
  | Heading nat "Chunk list"
  | BulletList "Block list list"

type_synonym Document = "Block list"

definition isRuler :: "Block \<Rightarrow> bool" where
  "isRuler b \<longleftrightarrow> b = Ruler"

fun render_loop :: "(Block \<Rightarrow> string) \<Rightarrow> bool \<Rightarrow> Block list \<Rightarrow> string" where
  "render_loop RenderFunc LastBlockWasRuler [] = []"
| "render_loop RenderFunc LastBlockWasRuler (C # Children) =
     (if isRuler C \<and> LastBlockWasRuler then render_loop RenderFunc LastBlockWasRuler Children
      else RenderFunc C @ render_loop RenderFunc (isRuler C) Children)"

definition limit_newlines :: "string \<Rightarrow> string" where
  "limit_newlines TrimmedText =
     concat (map (\<lambda>i. if end_with (take (i + 1) TrimmedText) [LF, LF, LF] then [] else [TrimmedText ! i])
               [0..<length TrimmedText])"

definition renderBlocks :: "(Block \<Rightarrow> string) \<Rightarrow> Block list \<Rightarrow> string" where
  "renderBlocks RenderFunc Children =
     limit_newlines (trim CHR '' '' (render_loop RenderFunc True (filter (\<lambda>C. \<not> isRuler C) Children)))"

lemma render_loop_cong:
  "(\<And>b. b \<in> set bs \<Longrightarrow> f b = g b) \<Longrightarrow> render_loop f r bs = render_loop g r bs"
  by (induction bs arbitrary: r) auto

lemma renderBlocks_cong [fundef_cong]:
  "bs = cs \<Longrightarrow> (\<And>b. b \<in> set cs \<Longrightarrow> f b = g b) \<Longrightarrow> renderBlocks f bs = renderBlocks g cs"
  using render_loop_cong [of "filter (\<lambda>C. \<not> isRuler C) cs" f g True] by (simp add: renderBlocks_def)

definition indentLines :: "string \<Rightarrow> string" where
  "indentLines Input = concat (map (\<lambda>C. if C = LF then [C] @ ''  '' else [C]) Input)"

fun paragraph_markdown :: "32 word \<Rightarrow> bool \<Rightarrow> bool \<Rightarrow> Chunk list \<Rightarrow> string" where
  "paragraph_markdown past NeedsSpace HasChunks [] = ''  '' @ [LF]"
| "paragraph_markdown past NeedsSpace HasChunks (C # Chunks) =
     (if SpaceBefore C \<or> NeedsSpace then '' '' else []) @
     (case Kind C of
        PlainText \<Rightarrow> renderText past (Contents C) (\<not> HasChunks)
      | InlineCode \<Rightarrow> renderInlineBlock (Contents C)) @
     paragraph_markdown past (SpaceAfter C) True Chunks"

definition chooseMarker :: "string list \<Rightarrow> string \<Rightarrow> string" where
  "chooseMarker Options Text =
     (case find (\<lambda>S. str_find_if (\<lambda>c. c \<in> set S) Text 0 = None) Options of
        Some S \<Rightarrow> S
      | None \<Rightarrow> hd Options)"

fun paragraph_plain :: "bool \<Rightarrow> Chunk list \<Rightarrow> string" where
  "paragraph_plain NeedsSpace [] = [LF]"
| "paragraph_plain NeedsSpace (C # Chunks) =
     (if SpaceBefore C \<or> NeedsSpace then '' '' else []) @
     (let Marker = (if Preserve C \<and> Kind C = InlineCode then chooseMarker [''`'', [CHR 0x27], [DQUOTE]] (Contents C) else [])
      in Marker @ Contents C @ Marker) @
     paragraph_plain (SpaceAfter C) Chunks"

definition ruler_markdown :: string where
  [simp]: "ruler_markdown = [LF] @ ''---'' @ [LF]"

definition ruler_plain :: string where
  [simp]: "ruler_plain = [LF]"

definition code_block_markdown :: "string \<Rightarrow> string \<Rightarrow> string" where
  [simp]: "code_block_markdown contents language =
     (let Marker = getMarkerForCodeBlock contents in Marker @ language @ [LF] @ contents @ [LF] @ Marker @ [LF])"

definition code_block_plain :: "string \<Rightarrow> string" where
  [simp]: "code_block_plain contents = [LF] @ contents @ [LF, LF]"

definition heading_markdown :: "32 word \<Rightarrow> nat \<Rightarrow> Chunk list \<Rightarrow> string" where
  [simp]: "heading_markdown past Level Chunks = replicate Level CHR ''#'' @ '' '' @ paragraph_markdown past False False Chunks"

fun renderMarkdown :: "32 word \<Rightarrow> Block \<Rightarrow> string" where
  "renderMarkdown past Ruler = ruler_markdown"
| "renderMarkdown past (CodeBlock contents language) = code_block_markdown contents language"
| "renderMarkdown past (Paragraph Chunks) = paragraph_markdown past False False Chunks"
| "renderMarkdown past (Heading Level Chunks) = heading_markdown past Level Chunks"
| "renderMarkdown past (BulletList Items) =
     concat (map (\<lambda>D. ''- '' @ indentLines (renderBlocks (renderMarkdown past) D) @ [LF]) Items) @ [LF]"

fun renderPlainText :: "Block \<Rightarrow> string" where
  "renderPlainText Ruler = ruler_plain"
| "renderPlainText (CodeBlock contents language) = code_block_plain contents"
| "renderPlainText (Paragraph Chunks) = paragraph_plain False Chunks"
| "renderPlainText (Heading Level Chunks) = paragraph_plain False Chunks"
| "renderPlainText (BulletList Items) =
     concat (map (\<lambda>D. ''- '' @ indentLines (renderBlocks renderPlainText D) @ [LF]) Items)"

definition Block_asMarkdown :: "32 word \<Rightarrow> Block \<Rightarrow> string" where
  "Block_asMarkdown past b = trim CHR '' '' (renderMarkdown past b)"

definition Block_asPlainText :: "Block \<Rightarrow> string" where
  "Block_asPlainText b = c_str (trim CHR '' '' (renderPlainText b))"

definition asMarkdown :: "32 word \<Rightarrow> Document \<Rightarrow> string" where
  "asMarkdown past d = renderBlocks (renderMarkdown past) d"

definition asPlainText :: "Document \<Rightarrow> string" where
  "asPlainText d = renderBlocks renderPlainText d"

subsection \<open>Building paragraphs and documents\<close>

definition appendSpace :: "Chunk list \<Rightarrow> Chunk list" where
  "appendSpace Chunks = (if Chunks \<noteq> [] then butlast Chunks @ [(last Chunks)\<lparr>SpaceAfter := True\<rparr>] else Chunks)"

definition appendText :: "string \<Rightarrow> Chunk list \<Rightarrow> Chunk list" where
  "appendText Text Chunks =
     (let Norm = canonicalizeSpaces Text in
      if Norm = [] then Chunks
      else Chunks @ [\<lparr>Kind = PlainText, Preserve = False, Contents = Norm,
                      SpaceBefore = is_c_space (hd Text), SpaceAfter = is_c_space (last Text)\<rparr>])"

definition appendCode :: "string \<Rightarrow> bool \<Rightarrow> Chunk list \<Rightarrow> Chunk list" where
  "appendCode Code preserve Chunks =
     (let AdjacentCode = (Chunks \<noteq> [] \<and> Kind (last Chunks) = InlineCode); Norm = canonicalizeSpaces Code in
      if Norm = [] then Chunks
      else Chunks @ [\<lparr>Kind = InlineCode, Preserve = preserve, Contents = Norm,
                      SpaceBefore = AdjacentCode, SpaceAfter = False\<rparr>])"

text \<open>A heading has no \<^verbatim>\<open>clone\<close> of its own, so it is copied as a paragraph.\<close>

fun clone :: "Block \<Rightarrow> Block" where
  "clone Ruler = Ruler"
| "clone (CodeBlock contents language) = CodeBlock contents language"
| "clone (Paragraph Chunks) = Paragraph Chunks"
| "clone (Heading Level Chunks) = Paragraph Chunks"
| "clone (BulletList Items) = BulletList (map (map clone) Items)"

definition Document_assign :: "Document \<Rightarrow> Document" where
  "Document_assign Other = map clone Other"

text \<open>
  \<^verbatim>\<open>append\<close> takes its argument by value: it is the copy that \<open>Document_assign\<close> makes, unless the caller moves the
  document.  The operations that return a reference to the new part
  (\<^verbatim>\<open>addParagraph\<close>, \<^verbatim>\<open>addHeading\<close>, \<^verbatim>\<open>addBulletList\<close>, \<^verbatim>\<open>addItem\<close>) put it at the end, where the caller goes on to
  change it.
\<close>

definition Document_append :: "Document \<Rightarrow> Document \<Rightarrow> Document" where
  "Document_append d Other = d @ Other"

definition addParagraph :: "Document \<Rightarrow> Document" where
  "addParagraph d = d @ [Paragraph []]"

definition addRuler :: "Document \<Rightarrow> Document" where
  "addRuler d = d @ [Ruler]"

definition addCodeBlock :: "string \<Rightarrow> string \<Rightarrow> Document \<Rightarrow> Document" where
  "addCodeBlock Code Language d = d @ [CodeBlock Code Language]"

definition addHeading :: "nat \<Rightarrow> Document \<Rightarrow> Document" where
  "addHeading Level d = d @ [Heading Level []]"

definition addBulletList :: "Document \<Rightarrow> Document" where
  "addBulletList d = d @ [BulletList []]"

definition addItem :: "Document list \<Rightarrow> Document list" where
  "addItem Items = Items @ [[]]"

section \<open>Conversions of numbers\<close>

lemma byte_of_HEX:
  assumes "n < 16" "off = 0 \<or> off = 32"
  shows "byte_of (char_of (or (byte_of (HEX ! n)) off)) = (if n < 10 then 48 + n else if off = 0 then 55 + n else 87 + n)"
  using assms(2) nibble_cases [OF assms(1)] unfolding insert_iff empty_iff
  by (elim disjE) (simp_all add: HEX_def byte_of_def)

lemma hexDigitValue_HEX:
  assumes "n < 16" "off = 0 \<or> off = 32"
  shows "hexDigitValue past (char_of (or (byte_of (HEX ! n)) off)) = of_nat n"
  using assms(1) by (auto simp: hexDigitValue_def Let_def byte_of_HEX [OF assms])

lemma nibbles_byte:
  assumes "a < 16" "b < 16"
  shows "unat (ucast (or (push_bit 4 (of_nat a)) (of_nat b) :: 32 word) :: 8 word) = 16 * a + b"
proof -
  have b: "take_bit 4 b = b" using assms(2) by (simp add: take_bit_nat_eq_self)
  have "and (push_bit 4 a) (take_bit 4 b) = 0" by (simp add: bit_eq_iff bit_simps)
  then have o: "or (push_bit 4 a) b = 16 * a + b"
    using disjunctive_add_eq_or [of "push_bit 4 a" "take_bit 4 b"] b by (simp add: push_bit_eq_mult)
  have "(or (push_bit 4 (of_nat a)) (of_nat b) :: 32 word) = of_nat (or (push_bit 4 a) b)"
    by (simp add: of_nat_or_eq push_bit_of_nat)
  then have "(or (push_bit 4 (of_nat a)) (of_nat b) :: 32 word) = of_nat (16 * a + b)" unfolding o .
  then show ?thesis using assms by (simp add: unsigned_ucast_eq unsigned_of_nat take_bit_nat_eq_self del: of_nat_add of_nat_mult)
qed

lemma toHex_Cons: "toHex (c # s) low = toHex [c] low @ toHex s low"
  by (simp add: toHex_def Let_def)

lemma nibbles_toHex:
  "\<exists>a b. toHex [c] low = [a, b] \<and> tryGetHexFromNibbles past a b = Some c"
proof -
  have n: "byte_of c div 16 < 16" "byte_of c mod 16 < 16" using byte_of_less [of c] by linarith simp
  define off :: nat where "off = (if low then 32 else 0)"
  have off: "off = 0 \<or> off = 32" by (simp add: off_def)
  let ?a = "char_of (or (byte_of (HEX ! (byte_of c div 16))) off) :: char"
  let ?b = "char_of (or (byte_of (HEX ! (byte_of c mod 16))) off) :: char"
  have small: "(of_nat k :: 32 word) \<noteq> no_digit" if "k < 16" for k
  proof
    assume "(of_nat k :: 32 word) = no_digit"
    then have "unat (of_nat k :: 32 word) = 2 ^ 32 - 1" by (simp add: no_digit_def unsigned_minus_1_eq_mask mask_eq_exp_minus_1)
    then show False using that by (simp add: unsigned_of_nat take_bit_nat_eq_self)
  qed
  have "tryGetHexFromNibbles past ?a ?b = Some (char_of (16 * (byte_of c div 16) + byte_of c mod 16))"
    unfolding tryGetHexFromNibbles_def Let_def hexDigitValue_HEX [OF n(1) off] hexDigitValue_HEX [OF n(2) off] nibbles_byte [OF n]
    using small [OF n(1)] small [OF n(2)] by simp
  moreover have "16 * (byte_of c div 16) + byte_of c mod 16 = byte_of c" by simp
  moreover have "toHex [c] low = [?a, ?b]" by (simp add: toHex_def off_def Let_def)
  ultimately show ?thesis by auto
qed

lemma hex_pairs_toHex: "hex_pairs past (toHex s low) out = (True, out @ s)"
proof (induction s arbitrary: out)
  case Nil
  then show ?case by (simp add: toHex_def)
next
  case (Cons c s)
  obtain a b where "toHex [c] low = [a, b]" "tryGetHexFromNibbles past a b = Some c"
    using nibbles_toHex by blast
  then show ?case using Cons by (simp add: toHex_Cons [of c s])
qed

lemma length_toHex: "length (toHex s low) = 2 * length s"
  by (induction s) (simp_all add: toHex_def Let_def)

lemma tryGetFromHex_toHex: "tryGetFromHex past (toHex s low) [] = (True, s)"
  using hex_pairs_toHex [of past s low "[]"] length_toHex [of s low] by (auto simp: tryGetFromHex_def)

text \<open>Reading back the hexadecimal form of a byte string gives the string, in either case of the digits.\<close>

theorem hex_roundtrip: "tryGetFromHex past (toHex s low) [] = (True, s) \<and> length (toHex s low) = 2 * length s"
  using tryGetFromHex_toHex length_toHex by simp

interpretation hex: codec "\<lambda>s. toHex s low" "\<lambda>h. case tryGetFromHex past h [] of (True, s) \<Rightarrow> Some s | (False, s) \<Rightarrow> None"
  by unfold_locales (simp add: tryGetFromHex_toHex)

text \<open>Different strings have different hexadecimal forms.\<close>

lemma toHex_inject: "toHex s low = toHex t low \<longleftrightarrow> s = t"
  by (rule hex.encode_inject)

lemma utostr_loop_eq: "utostr_loop n buf = (if n = 0 then buf else to_string n @ buf)"
proof (induction n buf rule: utostr_loop.induct)
  case (1 n buf)
  have d: "char_of (byte_of CHR ''0'' + n mod 10) = digit_char (n mod 10)" by (simp add: digit_char_def byte_of_def)
  show ?case
  proof (cases "n < 10")
    case True
    then show ?thesis using d by (simp add: utostr_loop.simps [of n] utostr_loop.simps [of 0] to_string.simps [of n])
  next
    case False
    then have "n div 10 \<noteq> 0" by simp
    then show ?thesis using 1 d False by (simp add: utostr_loop.simps [of n] to_string.simps [of n])
  qed
qed

lemma utostr_eq: "utostr X isNeg = (if isNeg then CHR ''-'' # to_string (unat X) else to_string (unat X))"
proof -
  have "to_string 0 = ''0''" by code_simp
  then show ?thesis by (auto simp: utostr_def utostr_loop_eq Let_def unat_eq_0)
qed

lemma itostr_eq: "itostr X = (if sint X < 0 then CHR ''-'' # to_string (nat (- sint X)) else to_string (nat (sint X)))"
proof -
  have "(1 + not X :: 64 word) = word_of_int (- sint X)" by (simp add: not_eq_complement)
  moreover have "- sint X < 2 ^ 64" using sint_greater_eq [of X] by simp
  ultimately have "sint X < 0 \<Longrightarrow> unat (1 + not X) = nat (- sint X)"
    by (simp only:) (simp only: unat_eq_nat_uint unsigned_of_int, simp add: take_bit_int_eq_self)
  moreover have "\<not> sint X < 0 \<Longrightarrow> unat X = nat (sint X)"
  proof -
    assume "\<not> sint X < 0"
    moreover have "sint X < 2 ^ 64" using sint_less [of X] by simp
    ultimately have "uint (word_of_int (sint X) :: 64 word) = sint X" by (simp only: unsigned_of_int) (simp add: take_bit_int_eq_self)
    then show "unat X = nat (sint X)" by (simp add: unat_eq_nat_uint)
  qed
  ultimately show ?thesis by (simp add: itostr_def utostr_eq)
qed

text \<open>Reading back the decimal form of a 64-bit integer gives the integer, except for the least one, whose digits
  overflow while they are read.\<close>

theorem itostr_integer:
  "String_Ref.integer (itostr X) = (if sint X = LONG_MIN then None else Some (sint X))"
proof -
  have r: "- (2 ^ 63) \<le> sint X" "sint X < 2 ^ 63" using sint_greater_eq [of X] sint_less [of X] by simp_all
  show ?thesis
  proof (cases "sint X = LONG_MIN")
    case True
    then have "itostr X = CHR ''-'' # to_string (2 ^ 63)" by (simp add: itostr_eq LONG_MIN_def)
    moreover have "integer_loop (int 0) (to_string (2 ^ 63)) = None"
      using digits_value_to_string [of "2 ^ 63"] by (intro integer_loop_overflow [OF to_string_digits]) (simp_all add: LONG_MAX_def digits_value_def)
    ultimately show ?thesis using True by (simp add: integer_def)
  next
    case False
    then have "- LONG_MAX \<le> sint X" "sint X \<le> LONG_MAX" using r by (auto simp: LONG_MAX_def LONG_MIN_def)
    then show ?thesis using False integer_to_string [of "nat (- sint X)"] integer_to_string [of "nat (sint X)"]
      by (auto simp: itostr_eq)
  qed
qed

lemma length_to_string: "0 < k \<Longrightarrow> n < 10 ^ k \<Longrightarrow> length (to_string n) \<le> k"
proof (induction n arbitrary: k rule: to_string.induct)
  case (1 n)
  show ?case
  proof (cases "n < 10")
    case True
    then show ?thesis using "1.prems" by (simp add: to_string.simps [of n])
  next
    case False
    then obtain j where j: "k = Suc j" "0 < j" using "1.prems" by (cases k; cases "k = 1") auto
    then have "n div 10 < 10 ^ j" using "1.prems" by (simp add: div_less_iff_less_mult)
    then show ?thesis using "1.IH" [OF False j(2)] False j(1) by (simp add: to_string.simps [of n])
  qed
qed

lemma length_utohex_loop: "n < 16 ^ k \<Longrightarrow> length (utohex_loop n low buf) \<le> k + length buf"
proof (induction k arbitrary: n buf)
  case 0
  then show ?case by (simp add: utohex_loop.simps [of 0])
next
  case (Suc k)
  then have "n div 16 < 16 ^ k" by (simp add: div_less_iff_less_mult)
  from Suc.IH [OF this, of "hexdigit (n mod 16) low # buf"] show ?case by (simp add: utohex_loop.simps [of n])
qed

text \<open>The numbers fit into the buffers of 21 and of 17 bytes that they are written to.\<close>

theorem number_buffers_suffice: "length (utostr X isNeg) \<le> 21 \<and> length (utohexstr X low) \<le> 17"
proof -
  have "unat X < 2 ^ 64" using unsigned_less [of X] by simp
  then have "unat X < 10 ^ 20" "unat X < 16 ^ 16" by simp_all
  then have "length (to_string (unat X)) \<le> 20" "length (utohex_loop (unat X) low buf) \<le> 16 + length buf" for buf
    using length_to_string [of 20] length_utohex_loop by (simp_all del: power_numeral)
  from this(1) this(2) [of "if X = 0 then ''0'' else []"] show ?thesis by (auto simp: utostr_eq utohexstr_def split: if_splits)
qed

section \<open>Code fences\<close>

lemma sublist_separated:
  assumes "sublist xs (ys @ c # zs)" "c \<notin> set xs"
  shows "sublist xs ys \<or> sublist xs zs"
proof -
  obtain as bs where e: "ys @ c # zs = as @ xs @ bs" using assms(1) by (auto simp: sublist_def)
  show ?thesis
  proof (cases "length as \<le> length ys")
    case True
    then obtain us where us: "ys = as @ us" "us @ c # zs = xs @ bs"
      using e append_eq_longer [of ys "c # zs" as "xs @ bs"] by auto
    then have "length xs \<le> length us"
    proof (rule_tac ccontr)
      assume "\<not> length xs \<le> length us"
      then have "xs ! length us = c" using us(2) by (metis linorder_not_le nth_append nth_append_length)
      then show False using assms(2) \<open>\<not> length xs \<le> length us\<close> by (metis linorder_not_le nth_mem)
    qed
    then have "prefix xs us" using us(2) by (metis prefix_def prefix_length_prefix)
    then show ?thesis using us(1) by (auto simp: prefix_def sublist_def)
  next
    case False
    then obtain us where "as = ys @ c # us" "zs = us @ xs @ bs"
      using e append_eq_shorter [of ys "c # zs" as "xs @ bs"] by (auto simp: Cons_eq_append_conv)
    then show ?thesis by (auto simp: sublist_def)
  qed
qed

lemma backtick_loop_max:
  assumes "unat B + length s < 2 ^ 32" "backtick_loop M B s = (M', B')" 
  shows "unat M \<le> unat M' \<and> unat M' \<le> max (unat M) (unat B + length s) \<and> unat B' \<le> unat B + length s \<and>
         (sublist (replicate k BACKTICK) (replicate (unat B) BACKTICK @ s) \<longrightarrow> k \<le> max (unat M') (unat B'))"
  using assms
proof (induction s arbitrary: M B)
  case Nil
  then show ?case by (auto dest: sublist_length_le)
next
  case (Cons c s)
  show ?case
  proof (cases "c = BACKTICK")
    case True
    have B: "unat (B + 1) = unat B + 1" using Cons.prems(1) unat_add_lem [of B 1] by simp
    then have "replicate (unat (B + 1)) BACKTICK @ s = replicate (unat B) BACKTICK @ c # s"
      by (simp add: True replicate_app_Cons_same)
    then show ?thesis using Cons.IH [of "B + 1" M] Cons.prems B True by simp
  next
    case False
    have "unat (max M B) = max (unat M) (unat B)" by (simp add: max_def word_le_nat_alt)
    moreover have "sublist (replicate k BACKTICK) (replicate (unat B) BACKTICK @ c # s) \<Longrightarrow>
        k \<le> unat B \<or> sublist (replicate k BACKTICK) s"
      using sublist_separated [of "replicate k BACKTICK" "replicate (unat B) BACKTICK" c s] False
      by (auto dest: sublist_length_le)
    ultimately show ?thesis using Cons.IH [of 0 "max M B"] Cons.prems False by auto
  qed
qed

lemma getMarkerForCodeBlock_runs:
  assumes "length s < 2 ^ 32 - 1"
  shows "3 \<le> length (getMarkerForCodeBlock s) \<and> set (getMarkerForCodeBlock s) = {BACKTICK} \<and>
         \<not> sublist (getMarkerForCodeBlock s) s"
proof -
  obtain M B where l: "backtick_loop 0 0 s = (M, B)" by force
  let ?k = "unat (max 3 (max B M + 1))"
  have b: "unat M \<le> length s \<and> unat B \<le> length s \<and> (sublist (replicate ?k BACKTICK) s \<longrightarrow> ?k \<le> max (unat M) (unat B))"
    using backtick_loop_max [of 0 s 0 M B ?k] assms l by simp
  have mx: "unat (max a b) = max (unat a) (unat b)" for a b :: "32 word" by (simp add: max_def word_le_nat_alt)
  have "unat (max B M + 1) = max (unat B) (unat M) + 1" using b assms unat_add_lem [of "max B M" 1] by (simp add: mx)
  then have k: "?k = max 3 (max (unat B) (unat M) + 1)" by (simp add: mx)
  then have "\<not> sublist (replicate ?k BACKTICK) s" using b by auto
  moreover have "3 \<le> ?k" using k by simp
  ultimately show ?thesis by (simp add: getMarkerForCodeBlock_def l)
qed

text \<open>C17: A fence is longer than every run of backticks in the code, so the first line of a rendered code block
  that begins with the fence is the one that closes it.\<close>

theorem code_block_closes:
  assumes "length s < 2 ^ 32 - 1"
  shows "\<exists>m. set m = {BACKTICK} \<and> 3 \<le> length m \<and> \<not> sublist m s \<and>
           renderMarkdown past (CodeBlock s language) = m @ language @ [LF] @ s @ [LF] @ m @ [LF] \<and>
           str_find (LF # m) (s @ [LF] @ m @ [LF]) 0 = Some (length s)"
proof -
  define m where "m = getMarkerForCodeBlock s"
  have m: "3 \<le> length m" "set m = {BACKTICK}" "\<not> sublist m s" using getMarkerForCodeBlock_runs [OF assms] by (simp_all add: m_def)
  have "\<not> starts_at (s @ LF # m @ [LF]) j (LF # m)" if j: "j < length s" for j
  proof
    assume a: "starts_at (s @ LF # m @ [LF]) j (LF # m)"
    then have st: "take (length m) (drop (Suc j) (s @ LF # m @ [LF])) = m" unfolding starts_at_Cons_iff by (simp only: starts_at_def)
    show False
    proof (cases "Suc j + length m \<le> length s")
      case True
      then have "m = take (length m) (drop (Suc j) s)" using st j by simp
      then have "sublist m s" by (metis sublist_order.order_trans sublist_drop sublist_take)
      then show False using m(3) by simp
    next
      case False
      then have "m ! (length s - Suc j) = LF"
        using arg_cong [OF st, of "\<lambda>x. x ! (length s - Suc j)"] j by (simp add: nth_append)
      moreover have "m ! (length s - Suc j) \<in> set m" using False j by (intro nth_mem) simp
      ultimately show False using m(2) by simp
    qed
  qed
  moreover have "starts_at (s @ LF # m @ [LF]) (length s) (LF # m)" by (simp add: starts_at_def)
  ultimately have "str_find (LF # m) (s @ LF # m @ [LF]) 0 = Some (length s)" by (simp add: str_find_Some_iff)
  then show ?thesis using m by (intro exI [of _ m]) (simp add: m_def Let_def)
qed

theorem code_block_closes_witness:
  "\<exists>m. \<not> sublist m ''a```b'' \<and> renderMarkdown 0 (CodeBlock ''a```b'' ''cpp'') = m @ ''cpp'' @ [LF] @ ''a```b'' @ [LF] @ m @ [LF]"
  using code_block_closes [of "''a```b''" 0 "''cpp''"] by auto

section \<open>Escaping\<close>

text \<open>What a reader of markdown makes of backslashes: each stands for the character after it.\<close>

fun unescape :: "string \<Rightarrow> string" where
  "unescape [] = []"
| "unescape [c] = [c]"
| "unescape (c # d # s) = (if c = BACKSLASH then d # unescape s else c # unescape (d # s))"

lemma needsLeadingEscape_backslash: "needsLeadingEscape past BACKSLASH Before After StartsLine"
  by (simp add: needsLeadingEscape_def)

lemma unescape_marked:
  "(\<And>f c. (f, c) \<in> set l \<Longrightarrow> c = BACKSLASH \<Longrightarrow> f) \<Longrightarrow>
   unescape (concat (map (\<lambda>(f, c). (if f then [BACKSLASH] else []) @ [c]) l)) = map snd l"
proof (induction l)
  case (Cons x l)
  obtain f c where x: "x = (f, c)" by force
  let ?r = "concat (map (\<lambda>(f, c). (if f then [BACKSLASH] else []) @ [c]) l)"
  have IH: "unescape ?r = map snd l" using Cons by auto
  show ?case
  proof (cases f)
    case True
    then show ?thesis using IH by (simp add: x)
  next
    case False
    then have "c \<noteq> BACKSLASH" using Cons.prems x by auto
    then show ?thesis using False IH by (cases ?r) (simp_all add: x)
  qed
qed simp

lemma unescape_renderText: "unescape (renderText past s StartsLine) = s"
proof -
  let ?n = "\<lambda>i. needsLeadingEscape past (s ! i) (take i s) (drop (i + 1) s) StartsLine"
  let ?l = "map (\<lambda>i. (?n i, s ! i)) [0..<length s]"
  have "renderText past s StartsLine = concat (map (\<lambda>(f, c). (if f then [BACKSLASH] else []) @ [c]) ?l)"
    by (simp add: renderText_def o_def)
  moreover have "f" if "(f, c) \<in> set ?l" "c = BACKSLASH" for f c 
  proof -
    from that(1) obtain i where "f = ?n i" "c = s ! i" by auto
    then show f using needsLeadingEscape_backslash that(2) by simp
  qed
  then have "unescape (concat (map (\<lambda>(f, c). (if f then [BACKSLASH] else []) @ [c]) ?l)) = map snd ?l" by (rule unescape_marked)
  moreover have "map snd ?l = s" by (simp add: o_def map_nth)
  ultimately show ?thesis by simp
qed

interpretation escape: codec "\<lambda>s. renderText past s StartsLine" "\<lambda>t. Some (unescape t)"
  by unfold_locales (simp add: unescape_renderText)

text \<open>Escaping loses nothing: a reader that takes each backslash for the character after it sees the
  text, so different texts have different escaped forms.\<close>

theorem renderText_unescape:
  "unescape (renderText past s StartsLine) = s \<and>
   (renderText past s StartsLine = renderText past t StartsLine \<longleftrightarrow> s = t)"
  using unescape_renderText escape.encode_inject by blast

section \<open>Line breaks\<close>

lemma sublist_snoc: "sublist xs (ys @ [c]) \<longleftrightarrow> sublist xs ys \<or> suffix xs (ys @ [c])"
proof -
  have "sublist (rev xs) (c # rev ys) \<longleftrightarrow> prefix (rev xs) (c # rev ys) \<or> sublist (rev xs) (rev ys)"
    by (rule sublist_Cons_right)
  moreover have "sublist (rev xs) (c # rev ys) \<longleftrightarrow> sublist xs (ys @ [c])" "prefix (rev xs) (c # rev ys) \<longleftrightarrow> suffix xs (ys @ [c])"
    using sublist_rev [of xs "ys @ [c]"] suffix_to_prefix [of xs "ys @ [c]"] by simp_all
  ultimately show ?thesis by auto
qed

lemma limit_newlines_snoc:
  "limit_newlines (s @ [c]) = limit_newlines s @ (if suffix [LF, LF, LF] (s @ [c]) then [] else [c])"
proof -
  define t where "t = [LF, LF, LF]"
  have l: "limit_newlines u = concat (map (\<lambda>i. if suffix t (take (i + 1) u) then [] else [u ! i]) [0..<length u])" for u
    by (simp add: limit_newlines_def t_def)
  let ?g = "\<lambda>u i. if suffix t (take (i + 1) u) then [] else [u ! i]"
  have "map (?g (s @ [c])) [0..<length s] = map (?g s) [0..<length s]" by (simp add: nth_append)
  moreover have "?g (s @ [c]) (length s) = (if suffix t (s @ [c]) then [] else [c])" by (simp del: suffix_snoc)
  ultimately have "limit_newlines (s @ [c]) = limit_newlines s @ (if suffix t (s @ [c]) then [] else [c])"
    unfolding l by (simp only: length_append list.size add_0 add_Suc_right upt_Suc_append le0 map_append concat_append
        list.map concat.simps append_Nil2 Nat.add_0_right)
  then show ?thesis by (simp only: t_def)
qed

lemma suffix_snoc2: "suffix [a, b] (s @ [c]) \<longleftrightarrow> b = c \<and> suffix [a] s" "suffix [a, b, d] (s @ [c]) \<longleftrightarrow> d = c \<and> suffix [a, b] s"
  using suffix_snoc [of "[a, b]" s c] suffix_snoc [of "[a, b, d]" s c] by (auto simp: append_eq_Cons_conv)

lemma limit_newlines_inv:
  "\<not> sublist [LF, LF, LF] (limit_newlines s) \<and> (suffix [LF] (limit_newlines s) \<longleftrightarrow> suffix [LF] s) \<and>
   (suffix [LF, LF] (limit_newlines s) \<longleftrightarrow> suffix [LF, LF] s) \<and>
   filter (\<lambda>c. c \<noteq> LF) (limit_newlines s) = filter (\<lambda>c. c \<noteq> LF) s"
proof (induction s rule: rev_induct)
  case Nil
  then show ?case by (simp add: limit_newlines_def)
next
  case (snoc c s)
  show ?case
  proof (cases "suffix [LF, LF, LF] (s @ [c])")
    case True
    then have "c = LF" "suffix [LF, LF] s" by (auto simp: suffix_snoc2)
    moreover have "suffix [LF] s" using calculation(2) by (auto simp: suffix_def)
    ultimately show ?thesis using snoc True by (simp add: limit_newlines_snoc suffix_snoc2)
  next
    case False
    then show ?thesis using snoc by (auto simp: limit_newlines_snoc suffix_snoc2 sublist_snoc)
  qed
qed

lemma render_loop_no_rulers:
  "list_all (\<lambda>C. \<not> isRuler C) bs \<Longrightarrow> render_loop f r bs = concat (map f bs)"
  by (induction bs arbitrary: r) simp_all

text \<open>A rendered document has never more than one empty line in a row, and apart from line breaks it
  is the concatenation of its blocks without the rulers, without spaces at the two ends.\<close>

theorem renderBlocks_correct:
  "\<not> sublist [LF, LF, LF] (renderBlocks f bs) \<and>
   filter (\<lambda>c. c \<noteq> LF) (renderBlocks f bs) =
   filter (\<lambda>c. c \<noteq> LF) (trim CHR '' '' (concat (map f (filter (\<lambda>C. \<not> isRuler C) bs))))"
  using limit_newlines_inv by (simp add: renderBlocks_def render_loop_no_rulers list_all_iff)

section \<open>White space\<close>

text \<open>The words of a text: its longest pieces without white space.\<close>

function words :: "string \<Rightarrow> string list" where
  "words s = (let t = dropWhile isSpace s in
     if t = [] then [] else takeWhile (\<lambda>c. \<not> isSpace c) t # words (dropWhile (\<lambda>c. \<not> isSpace c) t))"
  by pat_completeness auto
termination
proof (relation "measure length", simp)
  fix s t assume t: "t = dropWhile isSpace s" "t \<noteq> []"
  then obtain c u where c: "t = c # u" "\<not> isSpace c" by (metis hd_dropWhile list.exhaust_sel)
  then have "length (dropWhile (\<lambda>c. \<not> isSpace c) t) \<le> length u" by (simp add: length_dropWhile_le)
  also have "\<dots> < length t" using c by simp
  also have "\<dots> \<le> length s" using t by (simp add: length_dropWhile_le)
  finally show "(dropWhile (\<lambda>c. \<not> isSpace c) t, s) \<in> measure length" by simp
qed

declare words.simps [simp del]

lemma space_delimiters_iff: "c \<in> set space_delimiters \<longleftrightarrow> isSpace c"
  by (auto simp: space_delimiters_def isSpace_def)

lemma find_if_Some_drop:
  assumes "str_find_if P s i = Some k"
  shows "dropWhile (\<lambda>c. \<not> P c) (drop i s) = drop k s" "takeWhile (\<lambda>c. \<not> P c) (drop i s) = substr i (k - i) s"
proof -
  have k: "i \<le> k" "k < length s" "P (s ! k)" "\<forall>j. i \<le> j \<and> j < k \<longrightarrow> \<not> P (s ! j)" using assms by (auto simp: str_find_if_Some_iff)
  show tw: "takeWhile (\<lambda>c. \<not> P c) (drop i s) = substr i (k - i) s"
    unfolding substr_def using k by (intro takeWhile_eq_take_P_nth) auto
  then have "length (takeWhile (\<lambda>c. \<not> P c) (drop i s)) = k - i" using k by (simp add: substr_def)
  then show "dropWhile (\<lambda>c. \<not> P c) (drop i s) = drop k s" using k dropWhile_eq_drop [of "\<lambda>c. \<not> P c" "drop i s"] by simp
qed

lemma find_if_None_drop:
  assumes "str_find_if P s i = None"
  shows "dropWhile (\<lambda>c. \<not> P c) (drop i s) = []" "takeWhile (\<lambda>c. \<not> P c) (drop i s) = drop i s"
proof -
  have "\<forall>c\<in>set (drop i s). \<not> P c" using assms by (auto simp: str_find_if_None_iff in_set_conv_nth)
  then show "dropWhile (\<lambda>c. \<not> P c) (drop i s) = []" "takeWhile (\<lambda>c. \<not> P c) (drop i s) = drop i s"
    by (simp_all add: takeWhile_eq_all_conv)
qed

lemma words_skip: "words (dropWhile isSpace s) = words s"
  by (simp add: words.simps [of "dropWhile isSpace s"] words.simps [of s])

lemma words_Nil [simp]: "words [] = []"
  by (simp add: words.simps [of "[]"])

lemma words_word:
  assumes "s \<noteq> []" "\<not> isSpace (hd s)"
  shows "words s = takeWhile (\<lambda>c. \<not> isSpace c) s # words (dropWhile (\<lambda>c. \<not> isSpace c) s)"
proof -
  have "dropWhile isSpace s = s" using assms by (cases s) auto
  then show ?thesis using assms by (simp add: words.simps [of s])
qed

lemma split_fragments_words:
  "(\<And>st. start = Some st \<Longrightarrow> st < length s \<and> \<not> isSpace (s ! st)) \<Longrightarrow>
   split_fragments s space_delimiters start out = out @ (case start of None \<Rightarrow> [] | Some st \<Rightarrow> words (drop st s))"
proof (induction s space_delimiters start out rule: split_fragments.induct)
  case (1 s start out)
  show ?case
  proof (cases start)
    case None
    then show ?thesis by (simp add: split_fragments.simps)
  next
    case (Some st)
    then have st: "drop st s \<noteq> []" "\<not> isSpace (hd (drop st s))" using "1.prems" by (auto simp: hd_drop_conv_nth)
    note d = space_delimiters_iff
    show ?thesis
    proof (cases "str_find_if (\<lambda>c. c \<in> set space_delimiters) s st")
      case None
      then have "words (drop st s) = [drop st s]" using words_word [OF st] find_if_None_drop [OF None] by (simp add: d del: dropWhile_eq_Nil_conv takeWhile_eq_all_conv)
      then show ?thesis using Some None by (simp add: split_fragments.simps [of s _ "Some st"] substr_def)
    next
      case (Some en)
      let ?next = "str_find_if (\<lambda>c. c \<notin> set space_delimiters) s en"
      have w: "words (drop st s) = substr st (en - st) s # words (drop en s)"
        using words_word [OF st] find_if_Some_drop [OF Some] by (simp add: d)
      have n: "words (drop en s) = (case ?next of None \<Rightarrow> [] | Some k \<Rightarrow> words (drop k s))"
      proof (cases ?next)
        case None
        then show ?thesis using find_if_None_drop(1) [OF None] words_skip [of "drop en s"] by (simp add: d del: dropWhile_eq_Nil_conv)
      next
        case (Some k)
        then show ?thesis using find_if_Some_drop(1) [OF Some] words_skip [of "drop en s"] by (simp add: d)
      qed
      have "split_fragments s space_delimiters ?next (out @ [substr st (en - st) s]) =
          (out @ [substr st (en - st) s]) @ (case ?next of None \<Rightarrow> [] | Some k \<Rightarrow> words (drop k s))"
        by (rule "1.hyps" [OF \<open>start = Some st\<close> Some]) (simp add: str_find_if_Some_iff d)
      then show ?thesis using \<open>start = Some st\<close> Some w n by (simp add: split_fragments.simps [of s _ "Some st"])
    qed
  qed
qed

lemma Markup_SplitString_words: "Markup_SplitString s space_delimiters = words s"
proof (cases "str_find_if (\<lambda>c. c \<notin> set space_delimiters) s 0")
  case None
  then show ?thesis using find_if_None_drop(1) [OF None] words_skip [of s]
    by (simp add: Markup_SplitString_def split_fragments.simps [of s _ None] space_delimiters_iff del: dropWhile_eq_Nil_conv)
next
  case (Some k)
  then have "k < length s \<and> \<not> isSpace (s ! k)" by (simp add: str_find_if_Some_iff space_delimiters_iff)
  then show ?thesis using Some find_if_Some_drop(1) [OF Some] words_skip [of s]
    split_fragments_words [of "Some k" s "[]"]
    by (simp add: Markup_SplitString_def space_delimiters_iff)
qed

lemma join_rest_eq: "join_rest w sep ws = w @ concat (map (\<lambda>x. sep @ x) ws)"
  by (induction ws arbitrary: w) simp_all

definition is_word :: "string \<Rightarrow> bool" where
  "is_word w \<longleftrightarrow> w \<noteq> [] \<and> list_all (\<lambda>c. \<not> isSpace c) w"

lemma words_are_words: "list_all is_word (words s)"
proof (induction s rule: words.induct)
  case (1 s)
  let ?t = "dropWhile isSpace s"
  show ?case
  proof (cases "?t = []")
    case False
    then have "\<not> isSpace (hd ?t)" by (rule hd_dropWhile)
    then have "is_word (takeWhile (\<lambda>c. \<not> isSpace c) ?t)" using False
      by (cases ?t) (auto simp: is_word_def list_all_iff dest: set_takeWhileD)
    then show ?thesis using 1 [OF refl False] False by (simp add: words.simps [of s] Let_def)
  qed (simp add: words.simps [of s])
qed

lemma words_space: "words (CHR '' '' # s) = words s"
  using words_skip [of "CHR '' '' # s"] words_skip [of s] by (simp add: isSpace_def)

lemma words_join_rest:
  "is_word w \<Longrightarrow> list_all is_word ws \<Longrightarrow> words (w @ concat (map (\<lambda>x. '' '' @ x) ws)) = w # ws"
proof (induction ws arbitrary: w)
  case Nil
  then show ?case using words_word [of w] takeWhile_all_append [of "\<lambda>c. \<not> isSpace c" w "[]"] dropWhile_all_append [of "\<lambda>c. \<not> isSpace c" w "[]"]
    by (cases w) (auto simp: is_word_def simp del: dropWhile_eq_Nil_conv takeWhile_eq_all_conv)
next
  case (Cons x ws)
  have w: "list_all (\<lambda>c. \<not> isSpace c) w" "w \<noteq> []" "\<not> isSpace (hd w)" using Cons.prems by (auto simp: is_word_def neq_Nil_conv)
  have sp: "isSpace CHR '' ''" by (simp add: isSpace_def)
  have "words (w @ concat (map (\<lambda>x. '' '' @ x) (x # ws))) = w # words (CHR '' '' # x @ concat (map (\<lambda>x. '' '' @ x) ws))"
    using words_word [of "w @ concat (map (\<lambda>x. '' '' @ x) (x # ws))"] w sp
    by (simp add: takeWhile_all_append dropWhile_all_append)
  then show ?case using Cons by (simp add: words_space)
qed

lemma words_canonicalizeSpaces: "words (canonicalizeSpaces s) = words s"
  using words_are_words [of s] words_join_rest
  by (cases "words s") (simp_all add: canonicalizeSpaces_def Markup_SplitString_words join_impl_def join_rest_eq)

text \<open>Canonicalizing the white space of a text keeps its words and separates them by exactly one space, with none
  at the ends; doing it again changes nothing.\<close>

theorem canonicalizeSpaces_correct:
  "words (canonicalizeSpaces s) = words s \<and> canonicalizeSpaces s = join_impl (words s) '' '' \<and>
   canonicalizeSpaces (canonicalizeSpaces s) = canonicalizeSpaces s"
  using words_canonicalizeSpaces by (simp add: canonicalizeSpaces_def Markup_SplitString_words)

section \<open>Separators\<close>

fun separated :: "ListSeparator \<Rightarrow> string list \<Rightarrow> string" where
  "separated ls [] = []"
| "separated ls (x # xs) = (case next_separator ls of (sep, ls1) \<Rightarrow> sep @ x @ separated ls1 xs)"

lemma separated_rest: "separated \<lparr>First = False, Separator = sep\<rparr> xs = concat (map (\<lambda>x. sep @ x) xs)"
  by (induction xs) (simp_all add: next_separator_def)

lemma join_items_impl_eq: "join_items_impl r sep (x # xs) = r @ x @ concat (map (\<lambda>x. sep @ x) xs)"
  by (induction xs arbitrary: r x) simp_all

lemma join_items_size_Cons: "join_items_size (x # xs) = length x + join_items_size xs"
  by (cases xs) simp_all

text \<open>A loop that writes a \<^verbatim>\<open>ListSeparator\<close> before each element, \<^verbatim>\<open>join\<close> and \<^verbatim>\<open>join_items\<close> write the same text, and
  \<^verbatim>\<open>join_items\<close> stays within the space it reserves.\<close>

lemma joins_agree:
  "separated (make_ListSeparator sep) xs = join_impl xs sep" "join_items sep xs = join_impl xs sep"
  by (cases xs; simp add: make_ListSeparator_def next_separator_def separated_rest join_impl_def join_rest_eq
      join_items_def join_items_impl_eq)+

lemma join_items_reserved:
  "xs \<noteq> [] \<Longrightarrow> length (join_items sep xs) = join_items_size xs + (length xs - 1) * length sep"
proof (induction xs rule: list_nonempty_induct)
  case (single x)
  then show ?case by (simp add: join_items_def)
next
  case (cons x xs)
  then obtain y ys where "xs = y # ys" by (cases xs) auto
  with cons show ?case by (simp add: join_items_def join_items_impl_eq join_items_size_Cons)
qed

section \<open>Code spans\<close>

definition double_backticks :: "string \<Rightarrow> string" where
  "double_backticks s = concat (map (\<lambda>c. if c = BACKTICK then ''``'' else [c]) s)"

lemma double_backticks_free: "list_all (\<lambda>c. c \<noteq> BACKTICK) s \<Longrightarrow> double_backticks s = s"
  by (induction s) (auto simp: double_backticks_def)

lemma inline_loop_eq: "i \<le> length s \<Longrightarrow> inline_loop s i r = r @ double_backticks (drop i s)"
proof (induction s i r rule: inline_loop.induct)
  case (1 s i r)
  show ?case
  proof (cases "i < length s")
    case False
    then show ?thesis using "1.prems" by (simp add: inline_loop.simps double_backticks_def)
  next
    case True
    show ?thesis
    proof (cases "str_find ''`'' s i")
      case None
      then have "list_all (\<lambda>c. c \<noteq> BACKTICK) (drop i s)"
        by (auto simp: str_find_char str_find_if_None_iff list_all_length)
      then show ?thesis using True None by (simp add: inline_loop.simps [of s i] double_backticks_free)
    next
      case (Some n)
      then have n: "i \<le> n" "n < length s" "s ! n = BACKTICK" and f: "\<forall>j. i \<le> j \<and> j < n \<longrightarrow> s ! j \<noteq> BACKTICK"
        by (auto simp: str_find_char str_find_if_Some_iff)
      have "drop i s = substr i (n - i) s @ drop n s"
        using n(1) append_take_drop_id [of "n - i" "drop i s"] by (simp add: substr_def)
      also have "drop n s = BACKTICK # drop (n + 1) s" using n Cons_nth_drop_Suc [of n s] by simp
      finally have "drop i s = substr i (n - i) s @ BACKTICK # drop (n + 1) s" .
      moreover have "list_all (\<lambda>c. c \<noteq> BACKTICK) (substr i (n - i) s)" using f n by (auto simp: list_all_length substr_def)
      then have "double_backticks (substr i (n - i) s) = substr i (n - i) s" by (rule double_backticks_free)
      ultimately have "double_backticks (drop i s) = substr i (n - i) s @ ''``'' @ double_backticks (drop (n + 1) s)"
        by (simp add: double_backticks_def)
      moreover have "inline_loop s (n + 1) (r @ substr i (n - i) s @ ''``'') = (r @ substr i (n - i) s @ ''``'') @ double_backticks (drop (n + 1) s)"
        using "1.IH" [OF True Some] n by simp
      ultimately show ?thesis using True Some by (simp add: inline_loop.simps [of s i])
    qed
  qed
qed

text \<open>A code span is its contents with every backtick doubled between single backticks, with a space on either side when
  the contents begin or end with a backtick or are padded by spaces.\<close>

lemma renderInlineBlock_eq:
  "\<exists>pad. (pad = [] \<or> pad = '' '') \<and> renderInlineBlock s = ''`'' @ pad @ double_backticks s @ pad @ ''`''"
proof -
  have "inline_loop s 0 [] = double_backticks s" by (simp add: inline_loop_eq)
  then have "renderInlineBlock s = ''` '' @ double_backticks s @ '' `'' \<or> renderInlineBlock s = ''`'' @ double_backticks s @ ''`''"
    unfolding renderInlineBlock_def Let_def by presburger
  then show ?thesis by (elim disjE) (rule exI [of _ "'' ''"], simp, rule exI [of _ "[]"], simp)
qed

section \<open>Where the renderer differs from its descriptions\<close>

text \<open>The test for ASCII strings accepts every string.\<close>

lemma isASCII_string_True: "isASCII_string s"
  by (induction s) simp_all

text \<open>Rulers are removed, not only at the ends: a document with rulers renders as the one without.\<close>

lemma rulers_vanish: "renderBlocks f (xs @ Ruler # ys) = renderBlocks f (xs @ ys)"
  by (simp add: renderBlocks_def isRuler_def)

text \<open>Trimming removes spaces only, so a document whose last block is a paragraph ends with a line break.\<close>

lemma paragraph_markdown_end: "\<exists>t. paragraph_markdown past n h cs = t @ ''  '' @ [LF]"
proof (induction cs arbitrary: n h)
  case (Cons c cs)
  obtain t where "paragraph_markdown past (SpaceAfter c) True cs = t @ ''  '' @ [LF]" using Cons by blast
  then show ?case by (metis append_assoc paragraph_markdown.simps(2))
qed simp

lemma trim_end: "c \<noteq> CHR '' '' \<Longrightarrow> suffix [c] (trim CHR '' '' (s @ [c]))"
  by (simp add: trim_eq) (induction s, auto simp: suffix_def)

lemma asMarkdown_ends_in_newline:
  "suffix [LF] (asMarkdown past [Paragraph cs])"
proof -
  obtain t where "paragraph_markdown past False False cs = (t @ ''  '') @ [LF]" using paragraph_markdown_end by fastforce
  then have "renderBlocks (renderMarkdown past) [Paragraph cs] = limit_newlines (trim CHR '' '' ((t @ ''  '') @ [LF]))"
    by (simp add: renderBlocks_def isRuler_def)
  moreover have "suffix [LF] (trim CHR '' '' ((t @ ''  '') @ [LF]))" by (rule trim_end) simp
  ultimately show ?thesis using limit_newlines_inv unfolding asMarkdown_def by metis
qed

text \<open>A line of nothing but number signs is a heading in markdown, but is not escaped.\<close>

lemma hashes_not_escaped: "renderText past ''##'' True = ''##''"
  by code_simp

text \<open>Copying a document turns its headings into paragraphs.\<close>

lemma heading_lost_by_copy: "Document_assign [Heading n cs] = [Paragraph cs]"
  by (simp add: Document_assign_def)

end
