(* ===== verification/Json_Reflect.thy ===== *)
theory Json_Reflect
  imports Rpc_Message
begin

text \<open>
  Serialization by reflection: \<^verbatim>\<open>include/LibLsp/JsonRpc/serializer.h\<close>, \<^verbatim>\<open>json.h\<close> and
  \<^verbatim>\<open>src/jsonrpc/serializer.cpp\<close>.  The C++ overload set \<^verbatim>\<open>Reflect(Reader&, T&)\<close> and
  \<^verbatim>\<open>Reflect(Writer&, T&)\<close> is a family indexed by the static type \<^verbatim>\<open>T\<close>: here the types are a
  datatype \<open>ty\<close>, their values a datatype \<open>val\<close>, and \<open>Reflect_read\<close> and \<open>Reflect_write\<close> are defined by
  recursion on them, one equation per overload.  The reader walks the JSON value that the parser
  (rapidjson, not part of the repository) built; the writer emits the calls it makes on rapidjson's
  SAX writer.
\<close>

section \<open>The JSON library\<close>

text \<open>
  What the sources use of rapidjson that is not a matter of the JSON value itself: the text of a
  value, the parser on such a text, and the double an integer converts to.  A double is named by its
  text.
\<close>

record jsonlib =
  print_value :: "json \<Rightarrow> string"
  parse_value :: "string \<Rightarrow> json option"
  double_of_int :: "int \<Rightarrow> string"

text \<open>\<^verbatim>\<open>JsonReader::IsBool\<close> and the other tests of the kind of the current value.\<close>

definition IsBool :: "json \<Rightarrow> bool" where
  "IsBool j = (case j of JBool b \<Rightarrow> True | _ \<Rightarrow> False)"

definition IsNull :: "json \<Rightarrow> bool" where
  "IsNull j = (case j of JNull \<Rightarrow> True | _ \<Rightarrow> False)"

definition IsArray :: "json \<Rightarrow> bool" where
  "IsArray j = (case j of JArray js \<Rightarrow> True | _ \<Rightarrow> False)"

definition IsObject :: "json \<Rightarrow> bool" where
  "IsObject j = (case j of JObject ms \<Rightarrow> True | _ \<Rightarrow> False)"

definition IsInt :: "json \<Rightarrow> bool" where
  "IsInt j = (case j of JNumber n \<Rightarrow> - (2 ^ 31) \<le> n \<and> n < 2 ^ 31 | _ \<Rightarrow> False)"

definition IsInt64 :: "json \<Rightarrow> bool" where
  "IsInt64 j = (case j of JNumber n \<Rightarrow> int64 n | _ \<Rightarrow> False)"

definition IsUint64 :: "json \<Rightarrow> bool" where
  "IsUint64 j = (case j of JNumber n \<Rightarrow> 0 \<le> n \<and> n < 2 ^ 64 | _ \<Rightarrow> False)"

definition IsNumber :: "json \<Rightarrow> bool" where
  "IsNumber j = (case j of JNumber n \<Rightarrow> True | JDouble d \<Rightarrow> True | _ \<Rightarrow> False)"

definition GetNumber :: "json \<Rightarrow> int" where
  "GetNumber j = (case j of JNumber n \<Rightarrow> n | _ \<Rightarrow> 0)"

definition GetBool :: "json \<Rightarrow> bool" where
  "GetBool j = (case j of JBool b \<Rightarrow> b | _ \<Rightarrow> False)"

definition GetDouble :: "jsonlib \<Rightarrow> json \<Rightarrow> string" where
  "GetDouble L j = (case j of JDouble d \<Rightarrow> d | JNumber n \<Rightarrow> double_of_int L n | _ \<Rightarrow> [])"

definition GetUint32 :: "json \<Rightarrow> int" where
  "GetUint32 j = GetNumber j mod 2 ^ 32"

section \<open>The reader\<close>

text \<open>
  What a call of a reader does: it returns, it throws \<^verbatim>\<open>std::invalid_argument\<close> with a text, or it
  violates a precondition of rapidjson (an assertion, undefined without assertions).  A \<^verbatim>\<open>JsonReader\<close>
  is moved to a member or element by assigning \<^verbatim>\<open>m_\<close> and moved back after the callback; an exception
  skips the second assignment, so it carries the value \<^verbatim>\<open>m_\<close> is left at.
\<close>

datatype 'a rd = Value 'a | Throw string json | Undefined

fun rd_bind :: "'a rd \<Rightarrow> ('a \<Rightarrow> 'b rd) \<Rightarrow> 'b rd" where
  "rd_bind (Value a) f = f a"
| "rd_bind (Throw e j) f = Throw e j"
| "rd_bind Undefined f = Undefined"

fun rd_map :: "('a \<Rightarrow> 'b) \<Rightarrow> 'a rd \<Rightarrow> 'b rd" where
  "rd_map f (Value a) = Value (f a)"
| "rd_map f (Throw e j) = Throw e j"
| "rd_map f Undefined = Undefined"

fun rd_fold :: "('x \<Rightarrow> 'a \<Rightarrow> 'a rd) \<Rightarrow> 'x list \<Rightarrow> 'a \<Rightarrow> 'a rd" where
  "rd_fold f [] a = Value a"
| "rd_fold f (x # xs) a = rd_bind (f x a) (rd_fold f xs)"

fun rd_traverse :: "('x \<Rightarrow> 'a rd) \<Rightarrow> 'x list \<Rightarrow> 'a list rd" where
  "rd_traverse f [] = Value []"
| "rd_traverse f (x # xs) = rd_bind (f x) (\<lambda>a. rd_map (Cons a) (rd_traverse f xs))"

definition IterMap :: "(string \<Rightarrow> json \<Rightarrow> 'a \<Rightarrow> 'a rd) \<Rightarrow> json \<Rightarrow> 'a \<Rightarrow> 'a rd" where
  "IterMap fn j a =
     (case j of
        JObject ms \<Rightarrow> rd_fold (\<lambda>(k, j'). fn (c_str k) j') ms a
      | _ \<Rightarrow> Undefined)"

definition IterArray :: "(json \<Rightarrow> 'a \<Rightarrow> 'a rd) \<Rightarrow> json \<Rightarrow> 'a \<Rightarrow> 'a rd" where
  "IterArray fn j a =
     (case j of
        JArray js \<Rightarrow> rd_fold fn js a
      | _ \<Rightarrow> Throw ''array'' j)"

definition DoMember :: "string \<Rightarrow> (json \<Rightarrow> 'a \<Rightarrow> 'a rd) \<Rightarrow> json \<Rightarrow> 'a \<Rightarrow> 'a rd" where
  "DoMember name fn j a =
     (case j of
        JObject ms \<Rightarrow> (case map_of ms name of Some j' \<Rightarrow> fn j' a | None \<Rightarrow> Value a)
      | _ \<Rightarrow> Value a)"

section \<open>Types and values\<close>

text \<open>The integer overloads.\<close>

datatype ikind = Uint8 | Short | UnsignedShort | CInt | Unsigned | Long | UnsignedLong | LongLong | UnsignedLongLong

text \<open>
  How the reader of a \<^verbatim>\<open>std::pair<optional<A>, optional<B>>\<close> chooses a side: one constructor per
  overload (\<^verbatim>\<open>pair<optional<bool>, ...>\<close>, \<^verbatim>\<open>pair<optional<std::string>, ...>\<close>, the general template
  that tries the second and then the first, and the overloads of the protocol's own pairs).
\<close>

datatype chooser =
    PickBool | PickString | PickTry
  | PickArray | PickScalar | PickMember string | PickUnless string | PickCommand

text \<open>
  A struct is the list of its reflected members in the order of the macro: the name, the type, and
  the value of the member's initializer if it has one.  \<open>TRef\<close> is a struct that contains itself
  (behind a vector or a pointer), looked up by name in an environment.  \<open>TNames\<close> is an enumeration
  written by name: the value for a JSON value that is not a string, the names the reader knows and
  the names the writer uses.
\<close>

datatype ty =
    TInt ikind | TBool | TDouble | TString | TJsonNull | TAny | TRequestId
  | TOptional ty | TNullable ty | TVector ty | TMap ty
  | TPair chooser ty ty | TLocations ty ty | THover ty ty
  | TStruct "(string \<times> ty \<times> val option) list" | TRef string
  | TTuple "ty list" | TNames int "(string \<times> int) list" "(int \<times> string) list"
  | TKeyData | TMarkedString

type_synonym member = "string \<times> ty \<times> val option"
type_synonym tenv = "string \<Rightarrow> member list"

text \<open>
  The value of a variable declared without initializer: an integer, a floating point number or an
  enumeration is indeterminate, the other types have default constructors.
\<close>

fun fresh0 :: "ty \<Rightarrow> val" where
  "fresh0 TString = VString []"
| "fresh0 TJsonNull = VUnit"
| "fresh0 TAny = VAny (- 1) []"
| "fresh0 TRequestId = VId kNone"
| "fresh0 (TOptional t) = VNone"
| "fresh0 (TNullable t) = VNone"
| "fresh0 (TVector t) = VList []"
| "fresh0 (TMap t) = VMap []"
| "fresh0 (TPair c t1 t2) = VPair VNone VNone"
| "fresh0 (TLocations t1 t2) = VPair VNone VNone"
| "fresh0 (THover t1 t2) = VPair VNone VNone"
| "fresh0 (TStruct ms) = VStruct (map (\<lambda>(n, t, i). case i of Some v \<Rightarrow> v | None \<Rightarrow> fresh0 t) ms)"
| "fresh0 (TTuple ts) = VStruct (map fresh0 ts)"
| "fresh0 TKeyData = VStruct [VNone, VNone, VNone]"
| "fresh0 TMarkedString = VStruct [VNone, VString []]"
| "fresh0 t = VIndet"

definition member_name :: "member \<Rightarrow> string" where
  "member_name m = fst m"

definition member_type :: "member \<Rightarrow> ty" where
  "member_type m = fst (snd m)"

definition fresh_member :: "member \<Rightarrow> val" where
  "fresh_member m = (case m of (n, t, i) \<Rightarrow> case i of Some v \<Rightarrow> v | None \<Rightarrow> fresh0 t)"

definition fresh :: "tenv \<Rightarrow> ty \<Rightarrow> val" where
  "fresh E t = (case t of TRef s \<Rightarrow> VStruct (map fresh_member (E s)) | _ \<Rightarrow> fresh0 t)"

section \<open>Reading\<close>

definition accepts :: "ikind \<Rightarrow> json \<Rightarrow> bool" where
  "accepts k j =
     (case k of
        Uint8 \<Rightarrow> IsInt j | Short \<Rightarrow> IsInt j | UnsignedShort \<Rightarrow> IsInt j | CInt \<Rightarrow> IsInt j
      | Unsigned \<Rightarrow> IsUint64 j | Long \<Rightarrow> IsInt64 j | UnsignedLong \<Rightarrow> IsUint64 j
      | LongLong \<Rightarrow> IsInt64 j | UnsignedLongLong \<Rightarrow> IsUint64 j)"

text \<open>The casts after the test; \<^verbatim>\<open>short\<close> has 16 bits in two's complement, \<^verbatim>\<open>long\<close> has 64.\<close>

definition narrow :: "ikind \<Rightarrow> json \<Rightarrow> int" where
  "narrow k j =
     (case k of
        Uint8 \<Rightarrow> GetNumber j mod 2 ^ 8
      | Short \<Rightarrow> (GetNumber j + 2 ^ 15) mod 2 ^ 16 - 2 ^ 15
      | UnsignedShort \<Rightarrow> GetNumber j mod 2 ^ 16
      | Unsigned \<Rightarrow> GetUint32 j
      | _ \<Rightarrow> GetNumber j)"

definition ikind_name :: "ikind \<Rightarrow> string" where
  "ikind_name k =
     (case k of
        Uint8 \<Rightarrow> ''uint8_t'' | Short \<Rightarrow> ''short'' | UnsignedShort \<Rightarrow> ''unsigned short'' | CInt \<Rightarrow> ''int''
      | Unsigned \<Rightarrow> ''unsigned'' | Long \<Rightarrow> ''long'' | UnsignedLong \<Rightarrow> ''unsigned long''
      | LongLong \<Rightarrow> ''long long'' | UnsignedLongLong \<Rightarrow> ''unsigned long long'')"

definition Reflect_int :: "ikind \<Rightarrow> json \<Rightarrow> val rd" where
  "Reflect_int k j = (if \<not> accepts k j then Throw (ikind_name k) j else Value (VInt (narrow k j)))"

definition Reflect_double :: "jsonlib \<Rightarrow> json \<Rightarrow> val rd" where
  "Reflect_double L j = (if \<not> IsNumber j then Throw ''double'' j else Value (VDouble (GetDouble L j)))"

definition Reflect_bool :: "json \<Rightarrow> val rd" where
  "Reflect_bool j = (if \<not> IsBool j then Throw ''bool'' j else Value (VBool (GetBool j)))"

definition Reflect_string :: "json \<Rightarrow> val rd" where
  "Reflect_string j = (if \<not> IsString j then Throw ''std::string'' j else Value (VString (GetString j)))"

text \<open>\<^verbatim>\<open>m_->GetType()\<close>, as the numbers of \<^verbatim>\<open>lsp::Any::Type\<close> that \<^verbatim>\<open>convert\<close> returns.\<close>

definition type_code :: "json \<Rightarrow> int" where
  "type_code j =
     (case j of JNull \<Rightarrow> 0 | JBool b \<Rightarrow> (if b then 2 else 1) | JObject ms \<Rightarrow> 3 | JArray js \<Rightarrow> 4
      | JString s \<Rightarrow> 5 | JNumber n \<Rightarrow> 6 | JDouble d \<Rightarrow> 6)"

definition ToString_json :: "jsonlib \<Rightarrow> json \<Rightarrow> string" where
  "ToString_json L j = c_str (print_value L j)"

definition Reflect_any :: "jsonlib \<Rightarrow> json \<Rightarrow> val rd" where
  "Reflect_any L j = Value (VAny (type_code j) (ToString_json L j))"

text \<open>Which side of a pair the reader assigns; \<open>True\<close> is the first.\<close>

definition picks_first :: "chooser \<Rightarrow> json \<Rightarrow> bool" where
  "picks_first c j =
     (case c of
        PickBool \<Rightarrow> IsBool j
      | PickString \<Rightarrow> IsString j
      | PickTry \<Rightarrow> False
      | PickArray \<Rightarrow> IsArray j
      | PickScalar \<Rightarrow> \<not> IsObject j
      | PickMember n \<Rightarrow> HasMember j n
      | PickUnless n \<Rightarrow> \<not> HasMember j n
      | PickCommand \<Rightarrow>
          HasMember j ''command'' \<and> (case get_member j ''command'' of Some m \<Rightarrow> IsString m | None \<Rightarrow> False))"

fun pair_first :: "val \<Rightarrow> val" where
  "pair_first (VPair a b) = a"
| "pair_first v = VNone"

fun pair_second :: "val \<Rightarrow> val" where
  "pair_second (VPair a b) = b"
| "pair_second v = VNone"

definition set_first :: "val \<Rightarrow> val \<Rightarrow> val" where
  "set_first p a = VPair a (pair_second p)"

definition set_second :: "val \<Rightarrow> val \<Rightarrow> val" where
  "set_second p b = VPair (pair_first p) b"

fun elems :: "val \<Rightarrow> val list" where
  "elems (VList vs) = vs"
| "elems (VStruct vs) = vs"
| "elems v = []"

fun entries :: "val \<Rightarrow> (string \<times> val) list" where
  "entries (VMap kvs) = kvs"
| "entries v = []"

definition marked_members :: "member list" where
  "marked_members = [(''language'', TOptional TString, None), (''value'', TString, None)]"

text \<open>The readers of enumerations written by name: \<^verbatim>\<open>lsTrace\<close>, \<^verbatim>\<open>TypeHierarchyDirection\<close>.\<close>

definition Reflect_names :: "int \<Rightarrow> (string \<times> int) list \<Rightarrow> json \<Rightarrow> val \<Rightarrow> val rd" where
  "Reflect_names d rt j cur =
     (if \<not> IsString j then Value (VInt d)
      else case map_of rt (GetString j) of Some n \<Rightarrow> Value (VInt n) | None \<Rightarrow> Value cur)"

definition Reflect_keydata :: "json \<Rightarrow> val \<Rightarrow> val rd" where
  "Reflect_keydata j cur =
     (if IsBool j then rd_map (\<lambda>v. VStruct ((elems cur)[0 := VSome v])) (Reflect_bool j)
      else if IsInt j \<or> IsInt64 j \<or> IsUint64 j then
        rd_map (\<lambda>v. VStruct ((elems cur)[1 := VSome v])) (Reflect_int CInt j)
      else if IsString j then rd_map (\<lambda>v. VStruct ((elems cur)[2 := VSome v])) (Reflect_string j)
      else Value cur)"

text \<open>Congruence rules: a callback is only applied to the elements of the list or of the JSON value.\<close>

lemma rd_map_cong [fundef_cong]: "x = y \<Longrightarrow> (\<And>a. y = Value a \<Longrightarrow> f a = g a) \<Longrightarrow> rd_map f x = rd_map g y"
  by (cases y) auto

lemma rd_fold_cong [fundef_cong]:
  "xs = ys \<Longrightarrow> a = b \<Longrightarrow> (\<And>x c. x \<in> set ys \<Longrightarrow> f x c = g x c) \<Longrightarrow> rd_fold f xs a = rd_fold g ys b"
proof (induction xs arbitrary: ys a b)
  case (Cons x xs)
  have "rd_fold f xs = rd_fold g xs" using Cons.IH [OF refl] Cons.prems by fastforce
  with Cons.prems show ?case by auto
qed simp

lemma rd_traverse_cong [fundef_cong]:
  "xs = ys \<Longrightarrow> (\<And>x. x \<in> set ys \<Longrightarrow> f x = g x) \<Longrightarrow> rd_traverse f xs = rd_traverse g ys"
  by (induction xs arbitrary: ys) auto

definition children :: "json \<Rightarrow> json list" where
  "children j = (case j of JArray js \<Rightarrow> js | JObject ms \<Rightarrow> map snd ms | _ \<Rightarrow> [])"

lemma IterMap_cong [fundef_cong]:
  assumes "j = k" "a = b" "\<And>n x c. x \<in> set (children k) \<Longrightarrow> f n x c = g n x c"
  shows "IterMap f j a = IterMap g k b"
  using assms by (force simp: IterMap_def children_def intro!: rd_fold_cong split: json.split)

lemma IterArray_cong [fundef_cong]:
  assumes "j = k" "a = b" "\<And>x c. x \<in> set (children k) \<Longrightarrow> f x c = g x c"
  shows "IterArray f j a = IterArray g k b"
  using assms by (auto simp: IterArray_def children_def intro!: rd_fold_cong split: json.split)

lemma DoMember_cong [fundef_cong]:
  assumes "n = m" "j = k" "a = b" "\<And>x c. x \<in> set (children k) \<Longrightarrow> f x c = g x c"
  shows "DoMember n f j a = DoMember m g k b"
proof -
  have "f x c = g x c" if "map_of ms m = Some x" "k = JObject ms" for ms x c
    using assms(4) that by (force simp: children_def dest: map_of_SomeD)
  with assms(1-3) show ?thesis by (auto simp: DoMember_def split: json.split option.split)
qed

lemma size_children: "x \<in> set (children j) \<Longrightarrow> size x < size j"
proof (cases j)
  case (JArray js)
  assume "x \<in> set (children j)"
  then have "size x \<le> size_list size js"
    using size_list_estimation' [of x js "size x" size] by (simp add: children_def JArray)
  then show ?thesis by (simp add: JArray)
next
  case (JObject ms)
  assume "x \<in> set (children j)"
  then obtain n where "(n, x) \<in> set ms" by (auto simp: children_def JObject)
  then have "size x \<le> size_list (size_prod f size) ms" for f :: "string \<Rightarrow> nat"
    using size_list_estimation' [of "(n, x)" ms "size x"] by simp
  then show ?thesis by (simp add: JObject less_Suc_eq_le)
qed (auto simp: children_def)

text \<open>
  The readers.  A struct reads its members with \<^verbatim>\<open>DoMember\<close>, each over the value the member has;
  an \<^verbatim>\<open>optional\<close>, an element of a vector and an entry of a map are read into a new variable.
\<close>

function Reflect_read :: "jsonlib \<Rightarrow> tenv \<Rightarrow> ty \<Rightarrow> json \<Rightarrow> val \<Rightarrow> val rd" where
  "Reflect_read L E (TInt k) j cur = Reflect_int k j"
| "Reflect_read L E TBool j cur = Reflect_bool j"
| "Reflect_read L E TDouble j cur = Reflect_double L j"
| "Reflect_read L E TString j cur = Reflect_string j"
| "Reflect_read L E TJsonNull j cur = Value VUnit"
| "Reflect_read L E TAny j cur = Reflect_any L j"
| "Reflect_read L E TRequestId j cur = Value (VId (Reflect_id j))"
| "Reflect_read L E (TOptional t) j cur =
     (if IsNull j then Value cur else rd_map VSome (Reflect_read L E t j (fresh E t)))"
| "Reflect_read L E (TNullable t) j cur =
     (if IsNull j then Value VNone else rd_map VSome (Reflect_read L E t j (fresh E t)))"
| "Reflect_read L E (TVector t) j cur =
     IterArray (\<lambda>j' c. rd_map (\<lambda>v. VList (elems c @ [v])) (Reflect_read L E t j' (fresh E t))) j cur"
| "Reflect_read L E (TMap t) j cur =
     IterMap (\<lambda>k j' c. rd_map (\<lambda>v. VMap (map_set k v (entries c))) (Reflect_read L E t j' (fresh E t))) j cur"
| "Reflect_read L E (TPair c t1 t2) j cur =
     (if IsNull j then Value cur
      else if c = PickTry then
        (case Reflect_read L E t2 j (fresh E t2) of
           Value v \<Rightarrow> Value (set_second cur (VSome v))
         | Throw e j' \<Rightarrow>
             (if IsNull j' then Value cur
              else rd_map (\<lambda>v. set_first cur (VSome v)) (Reflect_read L E t1 j' (fresh E t1)))
         | Undefined \<Rightarrow> Undefined)
      else if picks_first c j then rd_map (\<lambda>v. set_first cur (VSome v)) (Reflect_read L E t1 j (fresh E t1))
      else rd_map (\<lambda>v. set_second cur (VSome v)) (Reflect_read L E t2 j (fresh E t2)))"
| "Reflect_read L E (TLocations t1 t2) j cur =
     (case j of
        JArray js \<Rightarrow>
          (case js of
             [] \<Rightarrow> rd_map (\<lambda>v. set_first cur (VSome v)) (Reflect_read L E (TVector t1) j (VList []))
           | d # ds \<Rightarrow>
               (if \<not> IsObject d then Undefined
                else if HasMember d ''originSelectionRange'' then
                  rd_map (\<lambda>v. set_second cur (VSome v)) (Reflect_read L E (TVector t2) j (VList []))
                else rd_map (\<lambda>v. set_first cur (VSome v)) (Reflect_read L E (TVector t1) j (VList []))))
      | _ \<Rightarrow> rd_map (\<lambda>v. VPair (VSome (VList [v])) VNone) (Reflect_read L E t1 j (fresh E t1)))"
| "Reflect_read L E (THover t1 t2) j cur =
     (if IsArray j then rd_map (\<lambda>v. set_first cur (VSome v)) (Reflect_read L E (TVector t1) j (VList []))
      else if IsString j then
        rd_map (\<lambda>v. set_first cur (VSome (VList [VPair (VSome v) VNone]))) (Reflect_string j)
      else if IsObject j then rd_map (\<lambda>v. set_second cur (VSome v)) (Reflect_read L E t2 j (fresh E t2))
      else Value cur)"
| "Reflect_read L E (TStruct ms) j cur =
     rd_map VStruct
       (rd_traverse (\<lambda>m. DoMember (member_name (fst m)) (\<lambda>j' c. Reflect_read L E (member_type (fst m)) j' c) j (snd m))
         (zip ms (elems cur)))"
| "Reflect_read L E (TRef s) j cur =
     rd_map VStruct
       (rd_traverse (\<lambda>m. DoMember (member_name (fst m)) (\<lambda>j' c. Reflect_read L E (member_type (fst m)) j' c) j (snd m))
         (zip (E s) (elems cur)))"
| "Reflect_read L E TMarkedString j cur =
     rd_map VStruct
       (rd_traverse (\<lambda>m. DoMember (member_name (fst m)) (\<lambda>j' c. Reflect_read L E (member_type (fst m)) j' c) j (snd m))
         (zip marked_members (elems cur)))"
| "Reflect_read L E (TTuple ts) j cur =
     rd_map snd
       (IterArray
         (\<lambda>j' (i, c).
            if i < length ts then
              rd_map (\<lambda>v. (Suc i, VStruct ((elems c)[i := v]))) (Reflect_read L E (ts ! i) j' (elems c ! i))
            else Value (Suc i, c))
         j (0, cur))"
| "Reflect_read L E (TNames d rt wt) j cur = Reflect_names d rt j cur"
| "Reflect_read L E TKeyData j cur = Reflect_keydata j cur"
  by pat_completeness auto

text \<open>
  Termination.  Every overload but one moves to a part of the JSON value, or stays there with a part
  of the type.  The general reader of pairs continues where the exception left the reader: that
  value is never larger than the one it started from, which is proved on the domain of the
  function first.
\<close>

primrec rank :: "ty \<Rightarrow> nat" where
  "rank (TInt k) = 1" | "rank TBool = 1" | "rank TDouble = 1" | "rank TString = 1" | "rank TJsonNull = 1"
| "rank TAny = 1" | "rank TRequestId = 1" | "rank (TOptional t) = Suc (rank t)" | "rank (TNullable t) = Suc (rank t)"
| "rank (TVector t) = Suc (rank t)" | "rank (TMap t) = Suc (rank t)" | "rank (TPair c t1 t2) = Suc (rank t1 + rank t2)"
| "rank (TLocations t1 t2) = Suc (Suc (rank t1 + rank t2))" | "rank (THover t1 t2) = Suc (Suc (rank t1 + rank t2))"
| "rank (TStruct ms) = 1" | "rank (TRef s) = 1" | "rank (TTuple ts) = 1" | "rank (TNames d rt w) = 1"
| "rank TKeyData = 1" | "rank TMarkedString = 1"

lemma rd_map_Throw [simp]: "rd_map f x = Throw e j \<longleftrightarrow> x = Throw e j"
  by (cases x) auto

lemma rd_map_Value: "rd_map f x = Value b \<longleftrightarrow> (\<exists>a. x = Value a \<and> b = f a)"
  by (cases x) auto

lemma rd_bind_Throw: "rd_bind x f = Throw e j \<longleftrightarrow> x = Throw e j \<or> (\<exists>a. x = Value a \<and> f a = Throw e j)"
  by (cases x) auto

lemma rd_bind_Value: "rd_bind x f = Value b \<longleftrightarrow> (\<exists>a. x = Value a \<and> f a = Value b)"
  by (cases x) auto

lemma rd_fold_Throw: "rd_fold f xs a = Throw e j \<Longrightarrow> \<exists>x\<in>set xs. \<exists>c. f x c = Throw e j"
  by (induction xs arbitrary: a) (auto simp: rd_bind_Throw)

lemma rd_traverse_Throw: "rd_traverse f xs = Throw e j \<Longrightarrow> \<exists>x\<in>set xs. f x = Throw e j"
  by (induction xs) (auto simp: rd_bind_Throw)

lemma IterArray_Throw:
  "IterArray f j a = Throw e k \<Longrightarrow> k = j \<or> (\<exists>x\<in>set (children j). \<exists>c. f x c = Throw e k)"
  by (auto simp: IterArray_def children_def dest: rd_fold_Throw split: json.splits)

lemma IterMap_Throw: "IterMap f j a = Throw e k \<Longrightarrow> \<exists>x\<in>set (children j). \<exists>n c. f n x c = Throw e k"
  by (force simp: IterMap_def children_def dest: rd_fold_Throw split: json.splits)

lemma DoMember_Throw: "DoMember n f j a = Throw e k \<Longrightarrow> \<exists>x\<in>set (children j). f x a = Throw e k"
  by (force simp: DoMember_def children_def dest: map_of_SomeD split: json.splits option.splits)

lemmas scalar_Throw =
  Reflect_int_def Reflect_bool_def Reflect_double_def Reflect_string_def Reflect_any_def Reflect_names_def
  Reflect_keydata_def

lemma struct_Throw:
  assumes "rd_traverse (\<lambda>m. DoMember (member_name (fst m)) (R (member_type (fst m))) j (snd m)) ms = Throw e k"
    and "\<And>m x v. m \<in> set ms \<Longrightarrow> x \<in> set (children j) \<Longrightarrow> R (member_type (fst m)) x v = Throw e k \<Longrightarrow> size k \<le> size x"
  shows "size k \<le> size j"
  using assms by (fastforce dest!: rd_traverse_Throw DoMember_Throw dest: size_children)

lemma Reflect_read_Throw_dom:
  "Reflect_read_dom (L, E, t, j, cur) \<Longrightarrow> Reflect_read L E t j cur = Throw e k \<Longrightarrow> size k \<le> size j"
proof (induction L E t j cur arbitrary: e k rule: Reflect_read.pinduct)
  case (10 L E t j cur)
  then show ?case
    by (fastforce simp: Reflect_read.psimps dest!: IterArray_Throw dest: size_children)
next
  case (11 L E t j cur)
  then show ?case
    by (fastforce simp: Reflect_read.psimps dest!: IterMap_Throw dest: size_children)
next
  case (12 L E c t1 t2 j cur)
  show ?case
  proof (cases "c = PickTry \<and> \<not> IsNull j")
    case True
    with 12 show ?thesis
      by (fastforce simp: Reflect_read.psimps split: rd.splits if_splits)
  next
    case False
    with 12 show ?thesis by (auto simp: Reflect_read.psimps split: if_splits)
  qed
next
  case (13 L E t1 t2 j cur)
  then show ?case
    by (auto simp: Reflect_read.psimps split: json.splits list.splits if_splits)
next
  case (15 L E ms j cur)
  from 15(3) have "rd_traverse (\<lambda>m. DoMember (member_name (fst m)) (Reflect_read L E (member_type (fst m))) j (snd m))
      (zip ms (elems cur)) = Throw e k"
    by (simp add: Reflect_read.psimps 15(1))
  then show ?case by (rule struct_Throw) (rule 15(2))
next
  case (16 L E s j cur)
  from 16(3) have "rd_traverse (\<lambda>m. DoMember (member_name (fst m)) (Reflect_read L E (member_type (fst m))) j (snd m))
      (zip (E s) (elems cur)) = Throw e k"
    by (simp add: Reflect_read.psimps 16(1))
  then show ?case by (rule struct_Throw) (rule 16(2))
next
  case (17 L E j cur)
  from 17(3) have "rd_traverse (\<lambda>m. DoMember (member_name (fst m)) (Reflect_read L E (member_type (fst m))) j (snd m))
      (zip marked_members (elems cur)) = Throw e k"
    by (simp add: Reflect_read.psimps 17(1))
  then show ?case by (rule struct_Throw) (rule 17(2))
next
  case (18 L E ts j cur)
  obtain x i c where x: "x \<in> set (children j)" "i < length ts"
      "Reflect_read L E (ts ! i) x (elems c ! i) = Throw e k" if "k \<noteq> j"
    using 18(3) by (auto simp: Reflect_read.psimps 18(1) dest!: IterArray_Throw split: if_splits)
  show ?case
  proof (cases "k = j")
    case False
    then have "size k \<le> size x" using 18(2) x by blast
    with size_children [OF x(1) [OF False]] show ?thesis by simp
  qed simp
qed (auto simp: Reflect_read.psimps scalar_Throw split: if_splits option.splits)

termination Reflect_read
proof (relation "measures [\<lambda>(L, E, t, j, cur). size j, \<lambda>(L, E, t, j, cur). rank t]")
qed (auto dest: size_children Reflect_read_Throw_dom)

lemmas [simp del] = Reflect_read.simps

section \<open>Writing\<close>

text \<open>
  The calls on rapidjson's \<^verbatim>\<open>Writer\<close>.  \<open>ERaw\<close> is \<^verbatim>\<open>RawValue\<close>; \<open>EIndet\<close> is a call whose argument is an
  indeterminate value.
\<close>

datatype event =
    ENull | EBool bool | ENumber int | EDouble string | EString string | ERaw string | EIndet
  | EStartArray | EEndArray | EStartObject | EEndObject | EKey string

text \<open>
  \<^verbatim>\<open>ReflectMember(Writer&, name, value)\<close>: the overload for \<^verbatim>\<open>optional\<close> omits the key of an empty
  member.  The second argument is what the value writes.
\<close>

definition is_optional :: "ty \<Rightarrow> bool" where
  "is_optional t = (case t of TOptional t' \<Rightarrow> True | _ \<Rightarrow> False)"

definition ReflectMember_write :: "member \<Rightarrow> val \<Rightarrow> event list \<Rightarrow> event list" where
  "ReflectMember_write m v es = (if is_optional (member_type m) \<and> v = VNone then [] else EKey (member_name m) # es)"

definition write_id :: "lsRequestId \<Rightarrow> event" where
  "write_id i = (case i of kNone \<Rightarrow> ENull | kInt n \<Rightarrow> ENumber n | kString s \<Rightarrow> EString s)"

definition write_names :: "(int \<times> string) list \<Rightarrow> int \<Rightarrow> event list" where
  "write_names wt n = (case map_of wt n of Some s \<Rightarrow> [EString s] | None \<Rightarrow> [])"

definition write_array :: "event list list \<Rightarrow> event list" where
  "write_array ess = EStartArray # concat ess @ [EEndArray]"

definition write_object :: "event list list \<Rightarrow> event list" where
  "write_object ess = EStartObject # concat ess @ [EEndObject]"

text \<open>\<^verbatim>\<open>KeyData\<close>: the first of the three optional members that has a value, and nothing if none has.\<close>

fun write_keydata :: "val list \<Rightarrow> event list" where
  "write_keydata (VSome (VBool b) # vs) = [EBool b]"
| "write_keydata (VNone # VSome (VInt n) # vs) = [ENumber n]"
| "write_keydata (VNone # VNone # VSome (VString s) # vs) = [EString s]"
| "write_keydata vs = []"

fun write_marked :: "val list \<Rightarrow> event list" where
  "write_marked [VSome (VString l), VString s] = write_object [[EKey ''language'', EString l], [EKey ''value'', EString s]]"
| "write_marked [VNone, VString s] = [EString s]"
| "write_marked vs = []"

text \<open>
  An indeterminate value makes the call's argument indeterminate.  A value of another type than the
  static one does not occur in C++; the model writes nothing for it.
\<close>

fun write_scalar :: "val \<Rightarrow> event list" where
  "write_scalar (VInt n) = [ENumber n]"
| "write_scalar (VBool b) = [EBool b]"
| "write_scalar (VDouble d) = [EDouble d]"
| "write_scalar (VString s) = [EString s]"
| "write_scalar VUnit = [ENull]"
| "write_scalar (VAny k d) = [ERaw d]"
| "write_scalar (VId i) = [write_id i]"
| "write_scalar VIndet = [EIndet]"
| "write_scalar v = []"

function (sequential) Reflect_write :: "tenv \<Rightarrow> ty \<Rightarrow> val \<Rightarrow> event list" where
  "Reflect_write E (TOptional t) v =
     (case v of VNone \<Rightarrow> [ENull] | VSome v' \<Rightarrow> Reflect_write E t v' | _ \<Rightarrow> [])"
| "Reflect_write E (TNullable t) v =
     (case v of VNone \<Rightarrow> [ENull] | VSome v' \<Rightarrow> Reflect_write E t v' | _ \<Rightarrow> [])"
| "Reflect_write E (TVector t) v =
     (case v of VList vs \<Rightarrow> write_array (map (\<lambda>v'. Reflect_write E t v') vs) | _ \<Rightarrow> [])"
| "Reflect_write E (TMap t) v =
     (case v of
        VMap kvs \<Rightarrow> write_object (map (\<lambda>p. EKey (c_str (fst p)) # Reflect_write E t (snd p)) kvs)
      | _ \<Rightarrow> [])"
| "Reflect_write E (TPair c t1 t2) v =
     (case v of
        VPair (VSome v') w \<Rightarrow> Reflect_write E t1 v'
      | VPair VNone (VSome v') \<Rightarrow> Reflect_write E t2 v'
      | VPair VNone VNone \<Rightarrow> [ENull]
      | _ \<Rightarrow> [])"
| "Reflect_write E (TLocations t1 t2) v =
     (case v of
        VPair (VSome v') w \<Rightarrow> Reflect_write E (TVector t1) v'
      | VPair VNone (VSome v') \<Rightarrow> Reflect_write E (TVector t2) v'
      | VPair VNone VNone \<Rightarrow> [ENull]
      | _ \<Rightarrow> [])"
| "Reflect_write E (THover t1 t2) v =
     (case v of
        VPair (VSome v') w \<Rightarrow> Reflect_write E (TVector t1) v'
      | VPair VNone (VSome v') \<Rightarrow> Reflect_write E t2 v'
      | VPair VNone VNone \<Rightarrow> [ENull]
      | _ \<Rightarrow> [])"
| "Reflect_write E (TStruct ms) v =
     (case v of
        VStruct vs \<Rightarrow>
          write_object
            (map (\<lambda>p. ReflectMember_write (fst p) (snd p) (Reflect_write E (member_type (fst p)) (snd p))) (zip ms vs))
      | _ \<Rightarrow> [])"
| "Reflect_write E (TRef s) v =
     (case v of
        VStruct vs \<Rightarrow>
          write_object
            (map (\<lambda>p. ReflectMember_write (fst p) (snd p) (Reflect_write E (member_type (fst p)) (snd p))) (zip (E s) vs))
      | _ \<Rightarrow> [])"
| "Reflect_write E (TTuple ts) v =
     (case v of
        VStruct vs \<Rightarrow> write_array (map (\<lambda>p. Reflect_write E (fst p) (snd p)) (zip ts vs))
      | _ \<Rightarrow> [])"
| "Reflect_write E (TNames d rt wt) v = (case v of VInt n \<Rightarrow> write_names wt n | VIndet \<Rightarrow> [EIndet] | _ \<Rightarrow> [])"
| "Reflect_write E TKeyData v = write_keydata (elems v)"
| "Reflect_write E TMarkedString v = write_marked (elems v)"
| "Reflect_write E t v = write_scalar v"
  by pat_completeness auto

lemma size_elem: "v \<in> set vs \<Longrightarrow> size v < Suc (size_list size vs)"
  using size_list_estimation' [of v vs "size v" size] by (simp add: less_Suc_eq_le)

lemma size_entry: "p \<in> set kvs \<Longrightarrow> size (snd p) < Suc (size_list (size_prod (\<lambda>k. 0) size) kvs)"
  using size_list_estimation' [of p kvs "size (snd p)" "size_prod (\<lambda>k. 0) size"]
  by (cases p) (simp add: less_Suc_eq_le)

lemma size_zipped: "p \<in> set (zip ms vs) \<Longrightarrow> size (snd p) < Suc (size_list size vs)"
  by (cases p) (auto dest: set_zip_rightD intro: size_elem)

termination Reflect_write
  by (relation "measures [\<lambda>(E, t, v). size v, \<lambda>(E, t, v). rank t]")
     (auto dest: size_elem size_entry size_zipped)

section \<open>The document a writer produces\<close>

text \<open>
  rapidjson's writer accepts the calls in the order of a JSON document.  \<open>document\<close> is the value the
  calls describe, if they describe exactly one: a stack of open arrays and objects (with the key that
  waits for its value), and the root.
\<close>

datatype open_value = InArray "json list" | InObject "(string \<times> json) list" "string option"

type_synonym builder = "open_value list \<times> json option"

fun put_value :: "json \<Rightarrow> builder \<Rightarrow> builder option" where
  "put_value j ([], None) = Some ([], Some j)"
| "put_value j ([], Some r) = None"
| "put_value j (InArray js # st, r) = Some (InArray (js @ [j]) # st, r)"
| "put_value j (InObject ms (Some k) # st, r) = Some (InObject (ms @ [(k, j)]) None # st, r)"
| "put_value j (InObject ms None # st, r) = None"

fun build :: "jsonlib \<Rightarrow> event \<Rightarrow> builder \<Rightarrow> builder option" where
  "build L ENull b = put_value JNull b"
| "build L (EBool x) b = put_value (JBool x) b"
| "build L (ENumber n) b = put_value (JNumber n) b"
| "build L (EDouble d) b = put_value (JDouble d) b"
| "build L (EString s) b = put_value (JString s) b"
| "build L (ERaw d) b = (case parse_value L d of Some j \<Rightarrow> put_value j b | None \<Rightarrow> None)"
| "build L EIndet b = None"
| "build L EStartArray (st, r) = Some (InArray [] # st, r)"
| "build L EStartObject (st, r) = Some (InObject [] None # st, r)"
| "build L EEndArray (InArray js # st, r) = put_value (JArray js) (st, r)"
| "build L EEndObject (InObject ms None # st, r) = put_value (JObject ms) (st, r)"
| "build L (EKey k) (InObject ms None # st, r) = Some (InObject ms (Some k) # st, r)"
| "build L e b = None"

fun build_all :: "jsonlib \<Rightarrow> event list \<Rightarrow> builder \<Rightarrow> builder option" where
  "build_all L [] b = Some b"
| "build_all L (e # es) b = (case build L e b of Some b' \<Rightarrow> build_all L es b' | None \<Rightarrow> None)"

definition document :: "jsonlib \<Rightarrow> event list \<Rightarrow> json option" where
  "document L es = (case build_all L es ([], None) of Some ([], Some j) \<Rightarrow> Some j | _ \<Rightarrow> None)"

end
