(* ===== verification/Protocol_Core.thy ===== *)
theory Protocol_Core
  imports Json_Reflect
begin

text \<open>
  The data types of the protocol that several messages share: positions, ranges, locations, edits,
  diagnostics, commands, code actions, and the types of protocol version 3.18.
  Each definition is one struct: its reflected members in the order of the \<^verbatim>\<open>MAKE_REFLECT_STRUCT\<close>
  macro, with the types of their declarations and the values of their initializers.
\<close>

text \<open>
  The enumerations written by name (\<^verbatim>\<open>src/lsp/initialize.cpp\<close>, \<^verbatim>\<open>src/lsp/textDocument.cpp\<close>): the
  value for a JSON value that is not a string, the names that are read, the names that are written.
\<close>

definition lsTrace_t :: ty where
  "lsTrace_t = TNames 0
     [(''off'', 0), (''messages'', 1), (''verbose'', 2)]
     [(0, ''off''), (1, ''messages''), (2, ''verbose'')]"

definition TypeHierarchyDirection_t :: ty where
  "TypeHierarchyDirection_t = TNames 2
     [(''Children'', 2), (''Parents'', 1), (''Both'', 2)]
     [(0, ''Children''), (1, ''Parents''), (2, ''Both'')]"

text \<open>\<^verbatim>\<open>include/LibLsp/JsonRpc/Cancellation.h\<close>\<close>

definition Cancellation_Params_t :: ty where
  "Cancellation_Params_t = TStruct
    [(''id'', TRequestId, None)]"

text \<open>\<^verbatim>\<open>include/LibLsp/lsp/lsPosition.h\<close>\<close>

definition lsPosition_t :: ty where
  "lsPosition_t = TStruct
    [(''line'', TInt Unsigned, Some (VInt 0)),
     (''character'', TInt Unsigned, Some (VInt 0))]"

text \<open>\<^verbatim>\<open>include/LibLsp/lsp/lsRange.h\<close>\<close>

definition lsRange_t :: ty where
  "lsRange_t = TStruct
    [(''start'', lsPosition_t, None),
     (''end'', lsPosition_t, None)]"

text \<open>\<^verbatim>\<open>include/LibLsp/lsp/lsp_diagnostic.h\<close>\<close>

definition DiagnosticCodeDescription_t :: ty where
  "DiagnosticCodeDescription_t = TStruct
    [(''href'', TString, None)]"

definition lsDiagnostic_t :: ty where
  "lsDiagnostic_t = TStruct
    [(''range'', lsRange_t, None),
     (''severity'', TOptional (TInt CInt), None),
     (''code'', TOptional (TPair PickString TString (TInt CInt)), None),
     (''codeDescription'', TOptional DiagnosticCodeDescription_t, None),
     (''source'', TOptional TString, None),
     (''message'', TString, None),
     (''tags'', TOptional (TVector (TInt Uint8)), None),
     (''data'', TOptional TAny, None)]"

text \<open>\<^verbatim>\<open>include/LibLsp/lsp/CodeActionParams.h\<close>\<close>

definition lsCodeActionContext_t :: ty where
  "lsCodeActionContext_t = TStruct
    [(''diagnostics'', TVector lsDiagnostic_t, None),
     (''only'', TOptional (TVector TString), None)]"

text \<open>\<^verbatim>\<open>include/LibLsp/lsp/lsTextDocumentIdentifier.h\<close>\<close>

definition lsTextDocumentIdentifier_t :: ty where
  "lsTextDocumentIdentifier_t = TStruct
    [(''uri'', TString, None)]"

text \<open>\<^verbatim>\<open>include/LibLsp/lsp/CodeActionParams.h\<close>\<close>

definition lsCodeActionParams_t :: ty where
  "lsCodeActionParams_t = TStruct
    [(''textDocument'', lsTextDocumentIdentifier_t, None),
     (''range'', lsRange_t, None),
     (''context'', lsCodeActionContext_t, None)]"

text \<open>\<^verbatim>\<open>include/LibLsp/lsp/ExecuteCommandParams.h\<close>\<close>

definition ExecuteCommandParams_t :: ty where
  "ExecuteCommandParams_t = TStruct
    [(''command'', TString, None),
     (''arguments'', TOptional (TVector TAny), None)]"

text \<open>\<^verbatim>\<open>include/LibLsp/lsp/ResourceOperation.h\<close>\<close>

definition ResourceOperation_t :: ty where
  "ResourceOperation_t = TStruct
    [(''kind'', TString, None)]"

definition CreateFileOptions_t :: ty where
  "CreateFileOptions_t = TStruct
    [(''overwrite'', TOptional TBool, Some (VSome (VBool False))),
     (''ignoreIfExists'', TOptional TBool, Some (VSome (VBool False)))]"

definition lsCreateFile_t :: ty where
  "lsCreateFile_t = TStruct
    [(''kind'', TString, Some (VString ''create'')),
     (''uri'', TString, None),
     (''options'', TOptional CreateFileOptions_t, None),
     (''annotationId'', TOptional TString, None)]"

definition DeleteFileOptions_t :: ty where
  "DeleteFileOptions_t = TStruct
    [(''recursive'', TOptional TBool, Some (VSome (VBool False))),
     (''ignoreIfNotExists'', TOptional TBool, Some (VSome (VBool False)))]"

definition lsDeleteFile_t :: ty where
  "lsDeleteFile_t = TStruct
    [(''kind'', TString, Some (VString ''delete'')),
     (''uri'', TString, None),
     (''options'', TOptional DeleteFileOptions_t, None)]"

definition lsRenameFile_t :: ty where
  "lsRenameFile_t = TStruct
    [(''kind'', TString, Some (VString ''rename'')),
     (''oldUri'', TString, None),
     (''newUri'', TString, None),
     (''options'', TOptional CreateFileOptions_t, None),
     (''annotationId'', TOptional TString, None)]"

text \<open>\<^verbatim>\<open>include/LibLsp/lsp/lsTextDocumentPositionParams.h\<close>\<close>

definition lsTextDocumentPositionParams_t :: ty where
  "lsTextDocumentPositionParams_t = TStruct
    [(''textDocument'', lsTextDocumentIdentifier_t, None),
     (''position'', lsPosition_t, None),
     (''uri'', TOptional TString, None)]"

text \<open>\<^verbatim>\<open>include/LibLsp/lsp/lsFormattingOptions.h\<close>\<close>

definition lsFormattingOptions_t :: ty where
  "lsFormattingOptions_t = TStruct
    [(''tabSize'', TInt CInt, Some (VInt 4)),
     (''insertSpaces'', TBool, Some (VBool True)),
     (''trimTrailingWhitespace'', TOptional TBool, None),
     (''insertFinalNewline'', TOptional TBool, None),
     (''trimFinalNewlines'', TOptional TBool, None),
     (''key'', TOptional TKeyData, None)]"

text \<open>\<^verbatim>\<open>include/LibLsp/lsp/lsTextEdit.h\<close>\<close>

definition lsTextEdit_t :: ty where
  "lsTextEdit_t = TStruct
    [(''range'', lsRange_t, None),
     (''newText'', TString, None),
     (''annotationId'', TOptional TString, None)]"

text \<open>\<^verbatim>\<open>include/LibLsp/lsp/lsVersionedTextDocumentIdentifier.h\<close>\<close>

definition lsVersionedTextDocumentIdentifier_t :: ty where
  "lsVersionedTextDocumentIdentifier_t = TStruct
    [(''uri'', TString, None),
     (''version'', TOptional (TInt CInt), None)]"

text \<open>\<^verbatim>\<open>include/LibLsp/lsp/lsTextDocumentEdit.h\<close>\<close>

definition lsTextDocumentEdit_t :: ty where
  "lsTextDocumentEdit_t = TStruct
    [(''textDocument'', lsVersionedTextDocumentIdentifier_t, None),
     (''edits'', TVector lsTextEdit_t, None)]"

text \<open>\<^verbatim>\<open>include/LibLsp/lsp/lsTextEdit.h\<close>\<close>

definition lsChangeAnnotation_t :: ty where
  "lsChangeAnnotation_t = TStruct
    [(''label'', TString, None),
     (''needsConfirmation'', TOptional TBool, None),
     (''description'', TOptional TString, None)]"

text \<open>\<^verbatim>\<open>include/LibLsp/lsp/lsWorkspaceEdit.h\<close>\<close>

definition lsChangeAnnotations_t :: ty where
  "lsChangeAnnotations_t = TStruct
    [(''id'', lsChangeAnnotation_t, None)]"

definition lsWorkspaceEditMetadata_t :: ty where
  "lsWorkspaceEditMetadata_t = TStruct
    [(''isRefactoring'', TOptional TBool, None)]"

definition lsWorkspaceEdit_t :: ty where
  "lsWorkspaceEdit_t = TStruct
    [(''changes'', TOptional (TMap (TVector lsTextEdit_t)), None),
     (''documentChanges'', TOptional (TVector (TPair (PickMember ''textDocument'') lsTextDocumentEdit_t TAny)), None),
     (''changeAnnotations'', TOptional lsChangeAnnotations_t, None),
     (''metadata'', TOptional lsWorkspaceEditMetadata_t, None)]"

text \<open>\<^verbatim>\<open>include/LibLsp/lsp/lsMarkedString.h\<close>\<close>

definition MarkupContent_t :: ty where
  "MarkupContent_t = TStruct
    [(''kind'', TString, None),
     (''value'', TString, None)]"

text \<open>\<^verbatim>\<open>lsCommand<T>\<close>, by the type of its arguments.\<close>

definition lsCommand_t :: "ty \<Rightarrow> ty" where
  "lsCommand_t a = TStruct
    [(''title'', TString, None),
     (''command'', TString, None),
     (''arguments'', TOptional a, None),
     (''tooltip'', TOptional (TPair PickString TString MarkupContent_t), None)]"

text \<open>\<^verbatim>\<open>include/LibLsp/lsp/protocol_3_18.h\<close>\<close>

definition TextDocumentContentClientCapabilities_t :: ty where
  "TextDocumentContentClientCapabilities_t = TStruct
    [(''dynamicRegistration'', TOptional TBool, None)]"

definition WorkspaceDiagnosticClientCapabilities_t :: ty where
  "WorkspaceDiagnosticClientCapabilities_t = TStruct
    [(''refreshSupport'', TOptional TBool, None)]"

definition DocumentRangeFormattingClientCapabilities_t :: ty where
  "DocumentRangeFormattingClientCapabilities_t = TStruct
    [(''dynamicRegistration'', TOptional TBool, None),
     (''rangesSupport'', TOptional TBool, None)]"

definition CodeLensResolveSupport_t :: ty where
  "CodeLensResolveSupport_t = TStruct
    [(''properties'', TVector TString, None)]"

definition CodeLensClientCapabilities_t :: ty where
  "CodeLensClientCapabilities_t = TStruct
    [(''dynamicRegistration'', TOptional TBool, None),
     (''resolveSupport'', TOptional CodeLensResolveSupport_t, None)]"

definition DiagnosticClientCapabilities_t :: ty where
  "DiagnosticClientCapabilities_t = TStruct
    [(''dynamicRegistration'', TOptional TBool, None),
     (''relatedDocumentSupport'', TOptional TBool, None)]"

definition InlineValueClientCapabilities_t :: ty where
  "InlineValueClientCapabilities_t = TStruct
    [(''dynamicRegistration'', TOptional TBool, None)]"

definition InlineCompletionClientCapabilities_t :: ty where
  "InlineCompletionClientCapabilities_t = TStruct
    [(''dynamicRegistration'', TOptional TBool, None)]"

definition CodeActionKindDocumentation_t :: ty where
  "CodeActionKindDocumentation_t = TStruct
    [(''kind'', TString, None),
     (''command'', lsCommand_t (TVector TAny), None)]"

definition DocumentRangeFormattingOptions_t :: ty where
  "DocumentRangeFormattingOptions_t = TStruct
    [(''workDoneProgress'', TOptional TBool, None),
     (''rangesSupport'', TOptional TBool, None)]"

definition TextDocumentContentOptions_t :: ty where
  "TextDocumentContentOptions_t = TStruct
    [(''schemes'', TVector TString, None)]"

definition DiagnosticOptions_t :: ty where
  "DiagnosticOptions_t = TStruct
    [(''identifier'', TOptional TString, None),
     (''interFileDependencies'', TOptional TBool, None),
     (''workspaceDiagnostics'', TOptional TBool, None)]"

definition InlineValueOptions_t :: ty where
  "InlineValueOptions_t = TStruct
    [(''workDoneProgress'', TOptional TBool, None)]"

definition InlineCompletionOptions_t :: ty where
  "InlineCompletionOptions_t = TStruct
    [(''workDoneProgress'', TOptional TBool, None)]"

text \<open>\<^verbatim>\<open>include/LibLsp/lsp/location_type.h\<close>\<close>

definition lsLocation_t :: ty where
  "lsLocation_t = TStruct
    [(''uri'', TString, None),
     (''range'', lsRange_t, None)]"

definition LinkLocation_t :: ty where
  "LinkLocation_t = TStruct
    [(''uri'', TString, None),
     (''range'', lsRange_t, None),
     (''displayName'', TString, None),
     (''kind'', TString, None)]"

definition LocationLink_t :: ty where
  "LocationLink_t = TStruct
    [(''originSelectionRange'', TOptional lsRange_t, None),
     (''targetUri'', TString, None),
     (''targetRange'', lsRange_t, None),
     (''targetSelectionRange'', lsRange_t, None)]"

text \<open>\<^verbatim>\<open>include/LibLsp/lsp/lsCodeAction.h\<close>\<close>

definition CodeAction_t :: ty where
  "CodeAction_t = TStruct
    [(''title'', TString, None),
     (''kind'', TOptional TString, None),
     (''diagnostics'', TOptional (TVector lsDiagnostic_t), None),
     (''edit'', TOptional lsWorkspaceEdit_t, None),
     (''command'', TOptional (lsCommand_t (TVector TAny)), None)]"

text \<open>\<^verbatim>\<open>include/LibLsp/lsp/lsResponseError.h\<close>\<close>

definition lsResponseError_t :: ty where
  "lsResponseError_t = TStruct
    [(''code'', TInt CInt, Some (VInt (- 32001))),
     (''message'', TString, None),
     (''data'', TOptional TAny, None)]"

text \<open>\<^verbatim>\<open>include/LibLsp/lsp/lsTextDocumentItem.h\<close>\<close>

definition lsTextDocumentItem_t :: ty where
  "lsTextDocumentItem_t = TStruct
    [(''uri'', TString, None),
     (''languageId'', TString, None),
     (''version'', TInt CInt, Some (VInt 0)),
     (''text'', TString, None)]"

text \<open>\<^verbatim>\<open>include/LibLsp/lsp/lsp_code_action.h\<close>\<close>

definition CommandArgs_t :: ty where
  "CommandArgs_t = TTuple [TString, TVector lsTextEdit_t]"

definition lsCodeLensUserData_t :: ty where
  "lsCodeLensUserData_t = TStruct
    []"

text \<open>\<^verbatim>\<open>include/LibLsp/lsp/lsp_completion.h\<close>\<close>

definition lsCompletionItem_t :: ty where
  "lsCompletionItem_t = TStruct
    [(''label'', TString, None),
     (''kind'', TOptional (TInt CInt), None),
     (''detail'', TOptional TString, None),
     (''documentation'', TOptional (TPair PickString TString MarkupContent_t), None),
     (''sortText'', TOptional TString, None),
     (''insertText'', TOptional TString, None),
     (''filterText'', TOptional TString, None),
     (''insertTextFormat'', TOptional (TInt CInt), None),
     (''textEdit'', TOptional lsTextEdit_t, None),
     (''deprecated'', TOptional TBool, None),
     (''preselect'', TOptional TBool, None),
     (''additionalTextEdits'', TOptional (TVector lsTextEdit_t), None),
     (''commitCharacters'', TOptional (TVector TString), None),
     (''command'', TOptional (lsCommand_t (TVector TAny)), None),
     (''data'', TOptional TAny, None)]"

definition CompletionList_t :: ty where
  "CompletionList_t = TStruct
    [(''isIncomplete'', TBool, Some (VBool False)),
     (''items'', TVector lsCompletionItem_t, None),
     (''applyKind'', TOptional (TInt CInt), None)]"

text \<open>\<^verbatim>\<open>include/LibLsp/lsp/lsp_diagnostic.h\<close>\<close>

definition DiagnosticRelatedInformation_t :: ty where
  "DiagnosticRelatedInformation_t = TStruct
    [(''location'', lsLocation_t, None),
     (''message'', TString, None)]"

definition Rsp_Error_t :: ty where
  "Rsp_Error_t = TStruct
    [(''jsonrpc'', TString, Some (VString ''2.0'')),
     (''id'', TRequestId, None),
     (''error'', lsResponseError_t, None)]"

text \<open>\<^verbatim>\<open>include/LibLsp/lsp/protocol_3_18.h\<close>\<close>

definition RelativePattern_t :: ty where
  "RelativePattern_t = TStruct
    [(''baseUri'', TAny, None),
     (''pattern'', TString, None)]"

definition NotebookDocumentFilter_t :: ty where
  "NotebookDocumentFilter_t = TStruct
    [(''notebookType'', TOptional TString, None),
     (''scheme'', TOptional TString, None),
     (''pattern'', TOptional TString, None)]"

definition NotebookDocumentIdentifier_t :: ty where
  "NotebookDocumentIdentifier_t = TStruct
    [(''uri'', TString, None)]"

definition VersionedNotebookDocumentIdentifier_t :: ty where
  "VersionedNotebookDocumentIdentifier_t = TStruct
    [(''uri'', TString, None),
     (''version'', TOptional (TInt CInt), None)]"

definition TextDocumentContentParams_t :: ty where
  "TextDocumentContentParams_t = TStruct
    [(''uri'', TString, None)]"

definition TextDocumentContentResult_t :: ty where
  "TextDocumentContentResult_t = TStruct
    [(''text'', TString, None)]"

definition DocumentDiagnosticParams_t :: ty where
  "DocumentDiagnosticParams_t = TStruct
    [(''textDocument'', lsTextDocumentIdentifier_t, None),
     (''identifier'', TOptional TString, None),
     (''previousResultId'', TOptional TString, None)]"

definition PreviousResultId_t :: ty where
  "PreviousResultId_t = TStruct
    [(''uri'', TString, None),
     (''value'', TString, None)]"

definition WorkspaceDiagnosticParams_t :: ty where
  "WorkspaceDiagnosticParams_t = TStruct
    [(''identifier'', TOptional TString, None),
     (''previousResultIds'', TOptional (TVector PreviousResultId_t), None)]"

definition FullDocumentDiagnosticReport_t :: ty where
  "FullDocumentDiagnosticReport_t = TStruct
    [(''kind'', TString, Some (VString ''full'')),
     (''resultId'', TOptional TString, None),
     (''items'', TVector lsDiagnostic_t, None)]"

definition WorkspaceDocumentDiagnosticReport_t :: ty where
  "WorkspaceDocumentDiagnosticReport_t = TStruct
    [(''uri'', TString, None),
     (''version'', TOptional (TInt CInt), None),
     (''report'', FullDocumentDiagnosticReport_t, None)]"

definition WorkspaceDiagnosticReport_t :: ty where
  "WorkspaceDiagnosticReport_t = TStruct
    [(''items'', TVector WorkspaceDocumentDiagnosticReport_t, None)]"

definition InlineValueContext_t :: ty where
  "InlineValueContext_t = TStruct
    [(''frameId'', TInt CInt, Some (VInt 0)),
     (''stoppedLocation'', lsRange_t, None)]"

definition InlineValueParams_t :: ty where
  "InlineValueParams_t = TStruct
    [(''textDocument'', lsTextDocumentIdentifier_t, None),
     (''range'', lsRange_t, None),
     (''context'', InlineValueContext_t, None)]"

definition InlineValue_t :: ty where
  "InlineValue_t = TStruct
    [(''range'', lsRange_t, None),
     (''text'', TOptional TString, None),
     (''variableName'', TOptional TString, None),
     (''caseSensitiveLookup'', TOptional TBool, None),
     (''expression'', TOptional TString, None)]"

definition SelectedCompletionInfo_t :: ty where
  "SelectedCompletionInfo_t = TStruct
    [(''range'', lsRange_t, None),
     (''text'', TString, None)]"

definition InlineCompletionContext_t :: ty where
  "InlineCompletionContext_t = TStruct
    [(''triggerKind'', TInt CInt, Some (VInt 1)),
     (''selectedCompletionInfo'', TOptional SelectedCompletionInfo_t, None)]"

definition InlineCompletionParams_t :: ty where
  "InlineCompletionParams_t = TStruct
    [(''textDocument'', lsTextDocumentIdentifier_t, None),
     (''position'', lsPosition_t, None),
     (''context'', InlineCompletionContext_t, None)]"

definition InlineCompletionItem_t :: ty where
  "InlineCompletionItem_t = TStruct
    [(''insertText'', TString, None),
     (''range'', TOptional lsRange_t, None),
     (''command'', TOptional (lsCommand_t (TVector TAny)), None)]"

definition InlineCompletionList_t :: ty where
  "InlineCompletionList_t = TStruct
    [(''items'', TVector InlineCompletionItem_t, None)]"

definition DocumentRangesFormattingParams_t :: ty where
  "DocumentRangesFormattingParams_t = TStruct
    [(''textDocument'', lsTextDocumentIdentifier_t, None),
     (''ranges'', TVector lsRange_t, None),
     (''options'', lsFormattingOptions_t, None)]"

definition SnippetTextEdit_t :: ty where
  "SnippetTextEdit_t = TStruct
    [(''range'', lsRange_t, None),
     (''snippet'', TString, None),
     (''annotationId'', TOptional TString, None)]"

text \<open>\<^verbatim>\<open>include/LibLsp/lsp/symbol.h\<close>\<close>

definition lsDocumentHighlight_t :: ty where
  "lsDocumentHighlight_t = TStruct
    [(''range'', lsRange_t, None),
     (''kind'', TOptional (TInt CInt), None)]"

definition lsSymbolInformation_t :: ty where
  "lsSymbolInformation_t = TStruct
    [(''name'', TString, None),
     (''kind'', TInt Uint8, None),
     (''deprecated'', TOptional TBool, None),
     (''location'', lsLocation_t, None),
     (''containerName'', TOptional TString, None)]"

definition lsDocumentSymbol_members :: "member list" where
  "lsDocumentSymbol_members =
    [(''name'', TString, None),
     (''kind'', TInt Uint8, Some (VInt 0)),
     (''range'', lsRange_t, None),
     (''selectionRange'', lsRange_t, None),
     (''detail'', TOptional TString, None),
     (''deprecated'', TOptional TBool, None),
     (''children'', TOptional (TVector (TRef ''lsDocumentSymbol'')), None),
     (''flags'', TInt CInt, Some (VInt 0))]"

definition lsDocumentSymbol_t :: ty where
  "lsDocumentSymbol_t = TStruct lsDocumentSymbol_members"

section \<open>The list of the types\<close>

definition core_types :: "(string \<times> ty) list" where
  "core_types =
    [(''Cancellation::Params'', Cancellation_Params_t),
     (''lsPosition'', lsPosition_t),
     (''lsRange'', lsRange_t),
     (''DiagnosticCodeDescription'', DiagnosticCodeDescription_t),
     (''lsDiagnostic'', lsDiagnostic_t),
     (''lsCodeActionContext'', lsCodeActionContext_t),
     (''lsTextDocumentIdentifier'', lsTextDocumentIdentifier_t),
     (''lsCodeActionParams'', lsCodeActionParams_t),
     (''ExecuteCommandParams'', ExecuteCommandParams_t),
     (''ResourceOperation'', ResourceOperation_t),
     (''CreateFileOptions'', CreateFileOptions_t),
     (''lsCreateFile'', lsCreateFile_t),
     (''DeleteFileOptions'', DeleteFileOptions_t),
     (''lsDeleteFile'', lsDeleteFile_t),
     (''lsRenameFile'', lsRenameFile_t),
     (''lsTextDocumentPositionParams'', lsTextDocumentPositionParams_t),
     (''lsFormattingOptions'', lsFormattingOptions_t),
     (''lsTextEdit'', lsTextEdit_t),
     (''lsVersionedTextDocumentIdentifier'', lsVersionedTextDocumentIdentifier_t),
     (''lsTextDocumentEdit'', lsTextDocumentEdit_t),
     (''lsChangeAnnotation'', lsChangeAnnotation_t),
     (''lsChangeAnnotations'', lsChangeAnnotations_t),
     (''lsWorkspaceEditMetadata'', lsWorkspaceEditMetadata_t),
     (''lsWorkspaceEdit'', lsWorkspaceEdit_t),
     (''MarkupContent'', MarkupContent_t),
     (''TextDocumentContentClientCapabilities'', TextDocumentContentClientCapabilities_t),
     (''WorkspaceDiagnosticClientCapabilities'', WorkspaceDiagnosticClientCapabilities_t),
     (''DocumentRangeFormattingClientCapabilities'', DocumentRangeFormattingClientCapabilities_t),
     (''CodeLensResolveSupport'', CodeLensResolveSupport_t),
     (''CodeLensClientCapabilities'', CodeLensClientCapabilities_t),
     (''DiagnosticClientCapabilities'', DiagnosticClientCapabilities_t),
     (''InlineValueClientCapabilities'', InlineValueClientCapabilities_t),
     (''InlineCompletionClientCapabilities'', InlineCompletionClientCapabilities_t),
     (''CodeActionKindDocumentation'', CodeActionKindDocumentation_t),
     (''DocumentRangeFormattingOptions'', DocumentRangeFormattingOptions_t),
     (''TextDocumentContentOptions'', TextDocumentContentOptions_t),
     (''DiagnosticOptions'', DiagnosticOptions_t),
     (''InlineValueOptions'', InlineValueOptions_t),
     (''InlineCompletionOptions'', InlineCompletionOptions_t),
     (''lsLocation'', lsLocation_t),
     (''LinkLocation'', LinkLocation_t),
     (''LocationLink'', LocationLink_t),
     (''CodeAction'', CodeAction_t),
     (''lsResponseError'', lsResponseError_t),
     (''lsTextDocumentItem'', lsTextDocumentItem_t),
     (''CommandArgs'', CommandArgs_t),
     (''lsCodeLensUserData'', lsCodeLensUserData_t),
     (''lsCompletionItem'', lsCompletionItem_t),
     (''CompletionList'', CompletionList_t),
     (''DiagnosticRelatedInformation'', DiagnosticRelatedInformation_t),
     (''Rsp_Error'', Rsp_Error_t),
     (''RelativePattern'', RelativePattern_t),
     (''NotebookDocumentFilter'', NotebookDocumentFilter_t),
     (''NotebookDocumentIdentifier'', NotebookDocumentIdentifier_t),
     (''VersionedNotebookDocumentIdentifier'', VersionedNotebookDocumentIdentifier_t),
     (''TextDocumentContentParams'', TextDocumentContentParams_t),
     (''TextDocumentContentResult'', TextDocumentContentResult_t),
     (''DocumentDiagnosticParams'', DocumentDiagnosticParams_t),
     (''PreviousResultId'', PreviousResultId_t),
     (''WorkspaceDiagnosticParams'', WorkspaceDiagnosticParams_t),
     (''FullDocumentDiagnosticReport'', FullDocumentDiagnosticReport_t),
     (''WorkspaceDocumentDiagnosticReport'', WorkspaceDocumentDiagnosticReport_t),
     (''WorkspaceDiagnosticReport'', WorkspaceDiagnosticReport_t),
     (''InlineValueContext'', InlineValueContext_t),
     (''InlineValueParams'', InlineValueParams_t),
     (''InlineValue'', InlineValue_t),
     (''SelectedCompletionInfo'', SelectedCompletionInfo_t),
     (''InlineCompletionContext'', InlineCompletionContext_t),
     (''InlineCompletionParams'', InlineCompletionParams_t),
     (''InlineCompletionItem'', InlineCompletionItem_t),
     (''InlineCompletionList'', InlineCompletionList_t),
     (''DocumentRangesFormattingParams'', DocumentRangesFormattingParams_t),
     (''SnippetTextEdit'', SnippetTextEdit_t),
     (''lsDocumentHighlight'', lsDocumentHighlight_t),
     (''lsSymbolInformation'', lsSymbolInformation_t),
     (''lsDocumentSymbol'', lsDocumentSymbol_t)]"

lemmas core_types_defs =
  Cancellation_Params_t_def
  lsPosition_t_def
  lsRange_t_def
  DiagnosticCodeDescription_t_def
  lsDiagnostic_t_def
  lsCodeActionContext_t_def
  lsTextDocumentIdentifier_t_def
  lsCodeActionParams_t_def
  ExecuteCommandParams_t_def
  ResourceOperation_t_def
  CreateFileOptions_t_def
  lsCreateFile_t_def
  DeleteFileOptions_t_def
  lsDeleteFile_t_def
  lsRenameFile_t_def
  lsTextDocumentPositionParams_t_def
  lsFormattingOptions_t_def
  lsTextEdit_t_def
  lsVersionedTextDocumentIdentifier_t_def
  lsTextDocumentEdit_t_def
  lsChangeAnnotation_t_def
  lsChangeAnnotations_t_def
  lsWorkspaceEditMetadata_t_def
  lsWorkspaceEdit_t_def
  MarkupContent_t_def
  TextDocumentContentClientCapabilities_t_def
  WorkspaceDiagnosticClientCapabilities_t_def
  DocumentRangeFormattingClientCapabilities_t_def
  CodeLensResolveSupport_t_def
  CodeLensClientCapabilities_t_def
  DiagnosticClientCapabilities_t_def
  InlineValueClientCapabilities_t_def
  InlineCompletionClientCapabilities_t_def
  CodeActionKindDocumentation_t_def
  DocumentRangeFormattingOptions_t_def
  TextDocumentContentOptions_t_def
  DiagnosticOptions_t_def
  InlineValueOptions_t_def
  InlineCompletionOptions_t_def
  lsLocation_t_def
  LinkLocation_t_def
  LocationLink_t_def
  CodeAction_t_def
  lsResponseError_t_def
  lsTextDocumentItem_t_def
  CommandArgs_t_def
  lsCodeLensUserData_t_def
  lsCompletionItem_t_def
  CompletionList_t_def
  DiagnosticRelatedInformation_t_def
  Rsp_Error_t_def
  RelativePattern_t_def
  NotebookDocumentFilter_t_def
  NotebookDocumentIdentifier_t_def
  VersionedNotebookDocumentIdentifier_t_def
  TextDocumentContentParams_t_def
  TextDocumentContentResult_t_def
  DocumentDiagnosticParams_t_def
  PreviousResultId_t_def
  WorkspaceDiagnosticParams_t_def
  FullDocumentDiagnosticReport_t_def
  WorkspaceDocumentDiagnosticReport_t_def
  WorkspaceDiagnosticReport_t_def
  InlineValueContext_t_def
  InlineValueParams_t_def
  InlineValue_t_def
  SelectedCompletionInfo_t_def
  InlineCompletionContext_t_def
  InlineCompletionParams_t_def
  InlineCompletionItem_t_def
  InlineCompletionList_t_def
  DocumentRangesFormattingParams_t_def
  SnippetTextEdit_t_def
  lsDocumentHighlight_t_def
  lsSymbolInformation_t_def
  lsDocumentSymbol_t_def

end
