(* ===== verification/Protocol_Capabilities.thy ===== *)
theory Protocol_Capabilities
  imports Protocol_Core
begin

text \<open>
  The data types of the general messages: initialization parameters, and the capabilities of client
  and server (\<^verbatim>\<open>include/LibLsp/lsp/general/\<close>).
  Each definition is one struct: its reflected members in the order of the \<^verbatim>\<open>MAKE_REFLECT_STRUCT\<close>
  macro, with the types of their declarations and the values of their initializers.
\<close>

text \<open>\<^verbatim>\<open>include/LibLsp/lsp/general/InitializeParams.h\<close>\<close>

definition ClientInfo_t :: ty where
  "ClientInfo_t = TStruct
    [(''name'', TString, None),
     (''version'', TOptional TString, None)]"

text \<open>\<^verbatim>\<open>include/LibLsp/lsp/general/lsWorkspaceClientCapabilites.h\<close>\<close>

definition lschangeAnnotationSupport_t :: ty where
  "lschangeAnnotationSupport_t = TStruct
    [(''groupsOnLabel'', TOptional TBool, None)]"

definition WorkspaceEditCapabilities_t :: ty where
  "WorkspaceEditCapabilities_t = TStruct
    [(''documentChanges'', TOptional TBool, None),
     (''resourceChanges'', TOptional TBool, None),
     (''resourceOperations'', TOptional (TVector TString), None),
     (''failureHandling'', TOptional TString, None),
     (''normalizesLineEndings'', TOptional TBool, None),
     (''changeAnnotationSupport'', TOptional lschangeAnnotationSupport_t, None),
     (''metadataSupport'', TOptional TBool, None)]"

definition DynamicRegistrationCapabilities_t :: ty where
  "DynamicRegistrationCapabilities_t = TStruct
    [(''dynamicRegistration'', TOptional TBool, None)]"

definition SymbolKindCapabilities_t :: ty where
  "SymbolKindCapabilities_t = TStruct
    [(''valueSet'', TOptional (TVector (TInt Uint8)), None)]"

definition SymbolCapabilities_t :: ty where
  "SymbolCapabilities_t = TStruct
    [(''symbolKind'', TOptional SymbolKindCapabilities_t, None),
     (''dynamicRegistration'', TOptional TBool, None)]"

definition lsFileOperations_t :: ty where
  "lsFileOperations_t = TStruct
    [(''dynamicRegistration'', TOptional TBool, None),
     (''didCreate'', TOptional TBool, None),
     (''willCreate'', TOptional TBool, None),
     (''didRename'', TOptional TBool, None),
     (''willRename'', TOptional TBool, None),
     (''didDelete'', TOptional TBool, None),
     (''willDelete'', TOptional TBool, None)]"

definition lsWorkspaceClientCapabilites_t :: ty where
  "lsWorkspaceClientCapabilites_t = TStruct
    [(''applyEdit'', TOptional TBool, None),
     (''workspaceEdit'', TOptional WorkspaceEditCapabilities_t, None),
     (''didChangeConfiguration'', TOptional DynamicRegistrationCapabilities_t, None),
     (''didChangeWatchedFiles'', TOptional DynamicRegistrationCapabilities_t, None),
     (''symbol'', TOptional SymbolCapabilities_t, None),
     (''executeCommand'', TOptional DynamicRegistrationCapabilities_t, None),
     (''workspaceFolders'', TOptional TBool, None),
     (''configuration'', TOptional TBool, None),
     (''semanticTokens'', TOptional DynamicRegistrationCapabilities_t, None),
     (''codeLens'', TOptional DynamicRegistrationCapabilities_t, None),
     (''fileOperations'', TOptional lsFileOperations_t, None),
     (''textDocumentContent'', TOptional TextDocumentContentClientCapabilities_t, None),
     (''diagnostics'', TOptional WorkspaceDiagnosticClientCapabilities_t, None)]"

text \<open>\<^verbatim>\<open>include/LibLsp/lsp/general/lsTextDocumentClientCapabilities.h\<close>\<close>

definition SynchronizationCapabilities_t :: ty where
  "SynchronizationCapabilities_t = TStruct
    [(''dynamicRegistration'', TOptional TBool, None),
     (''willSave'', TOptional TBool, None),
     (''willSaveWaitUntil'', TOptional TBool, None),
     (''didSave'', TOptional TBool, None)]"

definition CompletionItemCapabilities_t :: ty where
  "CompletionItemCapabilities_t = TStruct
    [(''snippetSupport'', TOptional TBool, None),
     (''commitCharactersSupport'', TOptional TBool, None),
     (''documentationFormat'', TOptional (TVector TString), None),
     (''deprecatedSupport'', TOptional TBool, None),
     (''preselectSupport'', TOptional TBool, None)]"

definition CompletionItemKindCapabilities_t :: ty where
  "CompletionItemKindCapabilities_t = TStruct
    [(''valueSet'', TOptional (TVector (TInt CInt)), None)]"

definition CompletionCapabilities_t :: ty where
  "CompletionCapabilities_t = TStruct
    [(''dynamicRegistration'', TOptional TBool, None),
     (''completionItem'', TOptional CompletionItemCapabilities_t, None),
     (''completionItemKind'', TOptional CompletionItemKindCapabilities_t, None)]"

definition HoverCapabilities_t :: ty where
  "HoverCapabilities_t = TStruct
    [(''dynamicRegistration'', TOptional TBool, None),
     (''contentFormat'', TOptional (TVector TString), None)]"

definition ParameterInformationCapabilities_t :: ty where
  "ParameterInformationCapabilities_t = TStruct
    [(''labelOffsetSupport'', TOptional TBool, None)]"

definition SignatureInformationCapabilities_t :: ty where
  "SignatureInformationCapabilities_t = TStruct
    [(''documentationFormat'', TVector TString, None),
     (''parameterInformation'', ParameterInformationCapabilities_t, None)]"

definition SignatureHelpCapabilities_t :: ty where
  "SignatureHelpCapabilities_t = TStruct
    [(''dynamicRegistration'', TOptional TBool, None),
     (''signatureInformation'', TOptional SignatureInformationCapabilities_t, None)]"

definition DeclarationCapabilities_t :: ty where
  "DeclarationCapabilities_t = TStruct
    [(''dynamicRegistration'', TOptional TBool, None),
     (''linkSupport'', TOptional TBool, None)]"

definition DocumentSymbolCapabilities_t :: ty where
  "DocumentSymbolCapabilities_t = TStruct
    [(''dynamicRegistration'', TOptional TBool, None),
     (''symbolKind'', TOptional SymbolKindCapabilities_t, None),
     (''hierarchicalDocumentSymbolSupport'', TOptional TBool, None)]"

definition CodeActionKindCapabilities_t :: ty where
  "CodeActionKindCapabilities_t = TStruct
    [(''valueSet'', TOptional (TVector TString), None)]"

definition CodeActionLiteralSupportCapabilities_t :: ty where
  "CodeActionLiteralSupportCapabilities_t = TStruct
    [(''codeActionKind'', TOptional CodeActionKindCapabilities_t, None)]"

definition CodeActionCapabilities_t :: ty where
  "CodeActionCapabilities_t = TStruct
    [(''dynamicRegistration'', TOptional TBool, None),
     (''codeActionLiteralSupport'', TOptional CodeActionLiteralSupportCapabilities_t, None)]"

definition RenameCapabilities_t :: ty where
  "RenameCapabilities_t = TStruct
    [(''dynamicRegistration'', TOptional TBool, None),
     (''prepareSupport'', TOptional TBool, None)]"

definition DiagnosticsTagSupport_t :: ty where
  "DiagnosticsTagSupport_t = TStruct
    [(''valueSet'', TVector (TInt Uint8), None)]"

definition PublishDiagnosticsClientCapabilities_t :: ty where
  "PublishDiagnosticsClientCapabilities_t = TStruct
    [(''dynamicRegistration'', TOptional TBool, None),
     (''relatedInformation'', TOptional TBool, None),
     (''tagSupport'', TOptional (TPair PickBool TBool DiagnosticsTagSupport_t), None),
     (''versionSupport'', TOptional TBool, None),
     (''codeDescriptionSupport'', TOptional TBool, None),
     (''dataSupport'', TOptional TBool, None)]"

definition FoldingRangeCapabilities_t :: ty where
  "FoldingRangeCapabilities_t = TStruct
    [(''dynamicRegistration'', TOptional TBool, None),
     (''rangeLimit'', TOptional (TInt CInt), None),
     (''lineFoldingOnly'', TOptional TBool, None)]"

definition SemanticHighlightingCapabilities_t :: ty where
  "SemanticHighlightingCapabilities_t = TStruct
    [(''dynamicRegistration'', TOptional TBool, None),
     (''semanticHighlighting'', TOptional TBool, None)]"

definition SemanticTokensClientCapabilitiesRequestsFull_t :: ty where
  "SemanticTokensClientCapabilitiesRequestsFull_t = TStruct
    [(''delta'', TBool, Some (VBool False))]"

definition SemanticTokensClientCapabilities_lsRequests_t :: ty where
  "SemanticTokensClientCapabilities_lsRequests_t = TStruct
    [(''range'', TOptional (TPair PickBool TBool SemanticTokensClientCapabilitiesRequestsFull_t), None),
     (''full'', TOptional (TPair PickBool TBool TAny), None)]"

definition SemanticTokensClientCapabilities_t :: ty where
  "SemanticTokensClientCapabilities_t = TStruct
    [(''dynamicRegistration'', TOptional TBool, None),
     (''requests'', SemanticTokensClientCapabilities_lsRequests_t, None),
     (''tokenTypes'', TVector TString, None),
     (''tokenModifiers'', TVector TString, None),
     (''formats'', TVector TString, None),
     (''overlappingTokenSupport'', TOptional TBool, None),
     (''multilineTokenSupport'', TOptional TBool, None)]"

text \<open>\<^verbatim>\<open>include/LibLsp/lsp/general/lsWorkspaceClientCapabilites.h\<close>\<close>

definition InlayHintLazyProperties_t :: ty where
  "InlayHintLazyProperties_t = TStruct
    [(''properties'', TOptional (TVector TString), None)]"

definition InlayHintClientCapabilities_t :: ty where
  "InlayHintClientCapabilities_t = TStruct
    [(''dynamicRegistration'', TOptional TBool, None),
     (''resolveSupport'', TOptional InlayHintLazyProperties_t, None)]"

text \<open>\<^verbatim>\<open>include/LibLsp/lsp/general/lsTextDocumentClientCapabilities.h\<close>\<close>

definition lsTextDocumentClientCapabilities_t :: ty where
  "lsTextDocumentClientCapabilities_t = TStruct
    [(''synchronization'', SynchronizationCapabilities_t, None),
     (''completion'', TOptional CompletionCapabilities_t, None),
     (''hover'', TOptional HoverCapabilities_t, None),
     (''signatureHelp'', TOptional SignatureHelpCapabilities_t, None),
     (''implementation'', TOptional DeclarationCapabilities_t, None),
     (''references'', TOptional DynamicRegistrationCapabilities_t, None),
     (''documentHighlight'', TOptional DynamicRegistrationCapabilities_t, None),
     (''documentSymbol'', TOptional DocumentSymbolCapabilities_t, None),
     (''formatting'', TOptional DynamicRegistrationCapabilities_t, None),
     (''rangeFormatting'', TOptional DocumentRangeFormattingClientCapabilities_t, None),
     (''onTypeFormatting'', TOptional DynamicRegistrationCapabilities_t, None),
     (''declaration'', TOptional DeclarationCapabilities_t, None),
     (''definition'', TOptional DeclarationCapabilities_t, None),
     (''typeDefinition'', TOptional DeclarationCapabilities_t, None),
     (''implementation'', TOptional DeclarationCapabilities_t, None),
     (''codeAction'', TOptional CodeActionCapabilities_t, None),
     (''codeLens'', TOptional CodeLensClientCapabilities_t, None),
     (''documentLink'', TOptional DynamicRegistrationCapabilities_t, None),
     (''colorProvider'', TOptional DynamicRegistrationCapabilities_t, None),
     (''rename'', TOptional RenameCapabilities_t, None),
     (''publishDiagnostics'', TOptional PublishDiagnosticsClientCapabilities_t, None),
     (''foldingRange'', TOptional FoldingRangeCapabilities_t, None),
     (''semanticHighlightingCapabilities'', TOptional SemanticHighlightingCapabilities_t, None),
     (''typeHierarchyCapabilities'', TOptional DynamicRegistrationCapabilities_t, None),
     (''callHierarchy'', TOptional DynamicRegistrationCapabilities_t, None),
     (''selectionRange'', TOptional DynamicRegistrationCapabilities_t, None),
     (''linkedEditingRange'', TOptional DynamicRegistrationCapabilities_t, None),
     (''semanticTokens'', TOptional SemanticTokensClientCapabilities_t, None),
     (''moniker'', TOptional DynamicRegistrationCapabilities_t, None),
     (''inlayHint'', TOptional InlayHintClientCapabilities_t, None),
     (''diagnostic'', TOptional DiagnosticClientCapabilities_t, None),
     (''inlineValue'', TOptional InlineValueClientCapabilities_t, None),
     (''inlineCompletion'', TOptional InlineCompletionClientCapabilities_t, None)]"

text \<open>\<^verbatim>\<open>include/LibLsp/lsp/general/lsClientCapabilities.h\<close>\<close>

definition lsClientCapabilities_t :: ty where
  "lsClientCapabilities_t = TStruct
    [(''workspace'', TOptional lsWorkspaceClientCapabilites_t, None),
     (''textDocument'', TOptional lsTextDocumentClientCapabilities_t, None),
     (''window'', TOptional TAny, None),
     (''experimental'', TOptional TAny, None)]"

text \<open>\<^verbatim>\<open>include/LibLsp/lsp/general/InitializeParams.h\<close>\<close>

definition lsInitializeError_t :: ty where
  "lsInitializeError_t = TStruct
    [(''retry'', TBool, None)]"

text \<open>\<^verbatim>\<open>include/LibLsp/lsp/general/lsTextDocumentClientCapabilities.h\<close>\<close>

definition lsSaveOptions_t :: ty where
  "lsSaveOptions_t = TStruct
    [(''includeText'', TBool, Some (VBool False))]"

definition lsTextDocumentSyncOptions_t :: ty where
  "lsTextDocumentSyncOptions_t = TStruct
    [(''openClose'', TOptional TBool, None),
     (''change'', TOptional (TInt CInt), None),
     (''willSave'', TOptional TBool, None),
     (''willSaveWaitUntil'', TOptional TBool, None),
     (''save'', TOptional lsSaveOptions_t, None)]"

definition lsCompletionOptions_t :: ty where
  "lsCompletionOptions_t = TStruct
    [(''workDoneProgress'', TOptional TBool, None),
     (''resolveProvider'', TOptional TBool, Some (VSome (VBool False))),
     (''triggerCharacters'', TOptional (TVector TString), None),
     (''allCommitCharacters'', TOptional (TVector TString), None)]"

definition lsSignatureHelpOptions_t :: ty where
  "lsSignatureHelpOptions_t = TStruct
    [(''workDoneProgress'', TOptional TBool, None),
     (''triggerCharacters'', TVector TString, None)]"

definition WorkDoneProgressOptions_t :: ty where
  "WorkDoneProgressOptions_t = TStruct
    [(''workDoneProgress'', TOptional TBool, None)]"

text \<open>\<^verbatim>\<open>include/LibLsp/lsp/general/lsServerCapabilities.h\<close>\<close>

definition DocumentFilter_t :: ty where
  "DocumentFilter_t = TStruct
    [(''language'', TOptional TString, None),
     (''scheme'', TOptional TString, None),
     (''pattern'', TOptional TString, None)]"

definition StaticRegistrationOptions_t :: ty where
  "StaticRegistrationOptions_t = TStruct
    [(''documentSelector'', TOptional (TVector DocumentFilter_t), None),
     (''id'', TOptional TString, None)]"

definition CodeActionOptions_t :: ty where
  "CodeActionOptions_t = TStruct
    [(''workDoneProgress'', TOptional TBool, None),
     (''codeActionKinds'', TVector TString, None),
     (''documentation'', TOptional (TVector CodeActionKindDocumentation_t), None)]"

definition CodeLensOptions_t :: ty where
  "CodeLensOptions_t = TStruct
    [(''workDoneProgress'', TOptional TBool, None),
     (''resolveProvider'', TOptional TBool, None)]"

definition lsDocumentOnTypeFormattingOptions_t :: ty where
  "lsDocumentOnTypeFormattingOptions_t = TStruct
    [(''workDoneProgress'', TOptional TBool, None),
     (''firstTriggerCharacter'', TString, None),
     (''moreTriggerCharacter'', TVector TString, None)]"

definition RenameOptions_t :: ty where
  "RenameOptions_t = TStruct
    [(''workDoneProgress'', TOptional TBool, None),
     (''prepareProvider'', TOptional TBool, None)]"

definition lsDocumentLinkOptions_t :: ty where
  "lsDocumentLinkOptions_t = TStruct
    [(''workDoneProgress'', TOptional TBool, None),
     (''resolveProvider'', TOptional TBool, None)]"

definition lsExecuteCommandOptions_t :: ty where
  "lsExecuteCommandOptions_t = TStruct
    [(''workDoneProgress'', TOptional TBool, None),
     (''commands'', TVector TString, None)]"

definition WorkspaceFoldersOptions_t :: ty where
  "WorkspaceFoldersOptions_t = TStruct
    [(''supported'', TOptional TBool, None),
     (''changeNotifications'', TOptional (TPair PickString TString TBool), None)]"

definition lsFileOperationPatternOptions_t :: ty where
  "lsFileOperationPatternOptions_t = TStruct
    [(''ignoreCase'', TOptional TBool, None)]"

definition lsFileOperationPattern_t :: ty where
  "lsFileOperationPattern_t = TStruct
    [(''glob'', TString, None),
     (''matches'', TOptional (TInt CInt), None),
     (''options'', TOptional lsFileOperationPatternOptions_t, None)]"

definition lsFileOperationFilter_t :: ty where
  "lsFileOperationFilter_t = TStruct
    [(''scheme'', TOptional TString, None),
     (''pattern'', TOptional lsFileOperationPattern_t, None)]"

definition lsFileOperationRegistrationOptions_t :: ty where
  "lsFileOperationRegistrationOptions_t = TStruct
    [(''filters'', TOptional (TVector lsFileOperationFilter_t), None)]"

definition WorkspaceServerCapabilities_lsFileOperations_t :: ty where
  "WorkspaceServerCapabilities_lsFileOperations_t = TStruct
    [(''didCreate'', TOptional lsFileOperationRegistrationOptions_t, None),
     (''willCreate'', TOptional lsFileOperationRegistrationOptions_t, None),
     (''didRename'', TOptional lsFileOperationRegistrationOptions_t, None),
     (''willRename'', TOptional lsFileOperationRegistrationOptions_t, None),
     (''didDelete'', TOptional lsFileOperationRegistrationOptions_t, None),
     (''willDelete'', TOptional lsFileOperationRegistrationOptions_t, None)]"

definition WorkspaceServerCapabilities_t :: ty where
  "WorkspaceServerCapabilities_t = TStruct
    [(''workspaceFolders'', WorkspaceFoldersOptions_t, None),
     (''fileOperations'', TOptional WorkspaceServerCapabilities_lsFileOperations_t, None),
     (''textDocumentContentProvider'', TOptional TextDocumentContentOptions_t, None)]"

definition SemanticHighlightingServerCapabilities_t :: ty where
  "SemanticHighlightingServerCapabilities_t = TStruct
    [(''scopes'', TVector (TVector TString), None)]"

definition SemanticTokensServerFull_t :: ty where
  "SemanticTokensServerFull_t = TStruct
    [(''delta'', TBool, Some (VBool False))]"

definition InlayHintOptions_t :: ty where
  "InlayHintOptions_t = TStruct
    [(''workDoneProgress'', TOptional TBool, None),
     (''resolveProvider'', TOptional TBool, None)]"

text \<open>\<^verbatim>\<open>include/LibLsp/lsp/general/lsClientCapabilities.h\<close>\<close>

definition MarkdownClientCapabilities_t :: ty where
  "MarkdownClientCapabilities_t = TStruct
    [(''parser'', TString, None),
     (''version'', TOptional TString, None)]"

text \<open>\<^verbatim>\<open>include/LibLsp/lsp/general/lsServerCapabilities.h\<close>\<close>

definition TextDocumentRegistrationOptions_t :: ty where
  "TextDocumentRegistrationOptions_t = TStruct
    [(''documentSelector'', TOptional (TVector DocumentFilter_t), None)]"

text \<open>\<^verbatim>\<open>include/LibLsp/lsp/general/progress.h\<close>\<close>

definition ProgressParams_t :: ty where
  "ProgressParams_t = TStruct
    [(''token'', TPair PickString TString (TInt CInt), None),
     (''value'', TAny, None)]"

section \<open>The list of the types\<close>

definition capability_types :: "(string \<times> ty) list" where
  "capability_types =
    [(''ClientInfo'', ClientInfo_t),
     (''lschangeAnnotationSupport'', lschangeAnnotationSupport_t),
     (''WorkspaceEditCapabilities'', WorkspaceEditCapabilities_t),
     (''DynamicRegistrationCapabilities'', DynamicRegistrationCapabilities_t),
     (''SymbolKindCapabilities'', SymbolKindCapabilities_t),
     (''SymbolCapabilities'', SymbolCapabilities_t),
     (''lsFileOperations'', lsFileOperations_t),
     (''lsWorkspaceClientCapabilites'', lsWorkspaceClientCapabilites_t),
     (''SynchronizationCapabilities'', SynchronizationCapabilities_t),
     (''CompletionItemCapabilities'', CompletionItemCapabilities_t),
     (''CompletionItemKindCapabilities'', CompletionItemKindCapabilities_t),
     (''CompletionCapabilities'', CompletionCapabilities_t),
     (''HoverCapabilities'', HoverCapabilities_t),
     (''ParameterInformationCapabilities'', ParameterInformationCapabilities_t),
     (''SignatureInformationCapabilities'', SignatureInformationCapabilities_t),
     (''SignatureHelpCapabilities'', SignatureHelpCapabilities_t),
     (''DeclarationCapabilities'', DeclarationCapabilities_t),
     (''DocumentSymbolCapabilities'', DocumentSymbolCapabilities_t),
     (''CodeActionKindCapabilities'', CodeActionKindCapabilities_t),
     (''CodeActionLiteralSupportCapabilities'', CodeActionLiteralSupportCapabilities_t),
     (''CodeActionCapabilities'', CodeActionCapabilities_t),
     (''RenameCapabilities'', RenameCapabilities_t),
     (''DiagnosticsTagSupport'', DiagnosticsTagSupport_t),
     (''PublishDiagnosticsClientCapabilities'', PublishDiagnosticsClientCapabilities_t),
     (''FoldingRangeCapabilities'', FoldingRangeCapabilities_t),
     (''SemanticHighlightingCapabilities'', SemanticHighlightingCapabilities_t),
     (''SemanticTokensClientCapabilitiesRequestsFull'', SemanticTokensClientCapabilitiesRequestsFull_t),
     (''SemanticTokensClientCapabilities::lsRequests'', SemanticTokensClientCapabilities_lsRequests_t),
     (''SemanticTokensClientCapabilities'', SemanticTokensClientCapabilities_t),
     (''InlayHintLazyProperties'', InlayHintLazyProperties_t),
     (''InlayHintClientCapabilities'', InlayHintClientCapabilities_t),
     (''lsTextDocumentClientCapabilities'', lsTextDocumentClientCapabilities_t),
     (''lsClientCapabilities'', lsClientCapabilities_t),
     (''lsInitializeError'', lsInitializeError_t),
     (''lsSaveOptions'', lsSaveOptions_t),
     (''lsTextDocumentSyncOptions'', lsTextDocumentSyncOptions_t),
     (''lsCompletionOptions'', lsCompletionOptions_t),
     (''lsSignatureHelpOptions'', lsSignatureHelpOptions_t),
     (''WorkDoneProgressOptions'', WorkDoneProgressOptions_t),
     (''DocumentFilter'', DocumentFilter_t),
     (''StaticRegistrationOptions'', StaticRegistrationOptions_t),
     (''CodeActionOptions'', CodeActionOptions_t),
     (''CodeLensOptions'', CodeLensOptions_t),
     (''lsDocumentOnTypeFormattingOptions'', lsDocumentOnTypeFormattingOptions_t),
     (''RenameOptions'', RenameOptions_t),
     (''lsDocumentLinkOptions'', lsDocumentLinkOptions_t),
     (''lsExecuteCommandOptions'', lsExecuteCommandOptions_t),
     (''WorkspaceFoldersOptions'', WorkspaceFoldersOptions_t),
     (''lsFileOperationPatternOptions'', lsFileOperationPatternOptions_t),
     (''lsFileOperationPattern'', lsFileOperationPattern_t),
     (''lsFileOperationFilter'', lsFileOperationFilter_t),
     (''lsFileOperationRegistrationOptions'', lsFileOperationRegistrationOptions_t),
     (''WorkspaceServerCapabilities::lsFileOperations'', WorkspaceServerCapabilities_lsFileOperations_t),
     (''WorkspaceServerCapabilities'', WorkspaceServerCapabilities_t),
     (''SemanticHighlightingServerCapabilities'', SemanticHighlightingServerCapabilities_t),
     (''SemanticTokensServerFull'', SemanticTokensServerFull_t),
     (''InlayHintOptions'', InlayHintOptions_t),
     (''MarkdownClientCapabilities'', MarkdownClientCapabilities_t),
     (''TextDocumentRegistrationOptions'', TextDocumentRegistrationOptions_t),
     (''ProgressParams'', ProgressParams_t)]"

lemmas capability_types_defs =
  ClientInfo_t_def
  lschangeAnnotationSupport_t_def
  WorkspaceEditCapabilities_t_def
  DynamicRegistrationCapabilities_t_def
  SymbolKindCapabilities_t_def
  SymbolCapabilities_t_def
  lsFileOperations_t_def
  lsWorkspaceClientCapabilites_t_def
  SynchronizationCapabilities_t_def
  CompletionItemCapabilities_t_def
  CompletionItemKindCapabilities_t_def
  CompletionCapabilities_t_def
  HoverCapabilities_t_def
  ParameterInformationCapabilities_t_def
  SignatureInformationCapabilities_t_def
  SignatureHelpCapabilities_t_def
  DeclarationCapabilities_t_def
  DocumentSymbolCapabilities_t_def
  CodeActionKindCapabilities_t_def
  CodeActionLiteralSupportCapabilities_t_def
  CodeActionCapabilities_t_def
  RenameCapabilities_t_def
  DiagnosticsTagSupport_t_def
  PublishDiagnosticsClientCapabilities_t_def
  FoldingRangeCapabilities_t_def
  SemanticHighlightingCapabilities_t_def
  SemanticTokensClientCapabilitiesRequestsFull_t_def
  SemanticTokensClientCapabilities_lsRequests_t_def
  SemanticTokensClientCapabilities_t_def
  InlayHintLazyProperties_t_def
  InlayHintClientCapabilities_t_def
  lsTextDocumentClientCapabilities_t_def
  lsClientCapabilities_t_def
  lsInitializeError_t_def
  lsSaveOptions_t_def
  lsTextDocumentSyncOptions_t_def
  lsCompletionOptions_t_def
  lsSignatureHelpOptions_t_def
  WorkDoneProgressOptions_t_def
  DocumentFilter_t_def
  StaticRegistrationOptions_t_def
  CodeActionOptions_t_def
  CodeLensOptions_t_def
  lsDocumentOnTypeFormattingOptions_t_def
  RenameOptions_t_def
  lsDocumentLinkOptions_t_def
  lsExecuteCommandOptions_t_def
  WorkspaceFoldersOptions_t_def
  lsFileOperationPatternOptions_t_def
  lsFileOperationPattern_t_def
  lsFileOperationFilter_t_def
  lsFileOperationRegistrationOptions_t_def
  WorkspaceServerCapabilities_lsFileOperations_t_def
  WorkspaceServerCapabilities_t_def
  SemanticHighlightingServerCapabilities_t_def
  SemanticTokensServerFull_t_def
  InlayHintOptions_t_def
  MarkdownClientCapabilities_t_def
  TextDocumentRegistrationOptions_t_def
  ProgressParams_t_def

end
