(* ===== verification/Protocol_Features.thy ===== *)
theory Protocol_Features
  imports Protocol_Capabilities
begin

text \<open>
  The parameters and results of the document, workspace, window and client messages.
  Each definition is one struct: its reflected members in the order of the \<^verbatim>\<open>MAKE_REFLECT_STRUCT\<close>
  macro, with the types of their declarations and the values of their initializers.
\<close>

text \<open>\<^verbatim>\<open>include/LibLsp/lsp/client/registerCapability.h\<close>\<close>

definition Registration_t :: ty where
  "Registration_t = TStruct
    [(''id'', TString, None),
     (''method'', TString, None)]"

definition RegistrationParams_t :: ty where
  "RegistrationParams_t = TStruct
    [(''registrations'', TVector Registration_t, None)]"

text \<open>\<^verbatim>\<open>include/LibLsp/lsp/client/unregisterCapability.h\<close>\<close>

definition Unregistration_t :: ty where
  "Unregistration_t = TStruct
    [(''id'', TString, None),
     (''method'', TString, None)]"

definition UnregistrationParams_t :: ty where
  "UnregistrationParams_t = TStruct
    [(''unregisterations'', TVector Unregistration_t, None)]"

text \<open>\<^verbatim>\<open>include/LibLsp/lsp/workspace/workspaceFolders.h\<close>\<close>

definition WorkspaceFolder_t :: ty where
  "WorkspaceFolder_t = TStruct
    [(''uri'', TString, None),
     (''name'', TString, None)]"

text \<open>\<^verbatim>\<open>include/LibLsp/lsp/general/InitializeParams.h\<close>\<close>

definition lsInitializeParams_t :: ty where
  "lsInitializeParams_t = TStruct
    [(''processId'', TOptional (TInt CInt), None),
     (''rootPath'', TOptional TString, None),
     (''rootUri'', TOptional TString, None),
     (''initializationOptions'', TOptional TAny, None),
     (''capabilities'', lsClientCapabilities_t, None),
     (''clientName'', TOptional TString, None),
     (''clientInfo'', TOptional ClientInfo_t, None),
     (''trace'', lsTrace_t, Some (VInt 0)),
     (''workspaceFolders'', TOptional (TVector WorkspaceFolder_t), None),
     (''locale'', TOptional TString, None),
     (''workDoneToken'', TOptional (TPair PickString TString (TInt CInt)), None)]"

text \<open>\<^verbatim>\<open>include/LibLsp/lsp/textDocument/SemanticTokens.h\<close>\<close>

definition SemanticTokensLegend_t :: ty where
  "SemanticTokensLegend_t = TStruct
    [(''tokenTypes'', TVector TString, None),
     (''tokenModifiers'', TVector TString, None)]"

text \<open>\<^verbatim>\<open>include/LibLsp/lsp/general/lsServerCapabilities.h\<close>\<close>

definition SemanticTokensWithRegistrationOptions_t :: ty where
  "SemanticTokensWithRegistrationOptions_t = TStruct
    [(''legend'', SemanticTokensLegend_t, None),
     (''range'', TOptional (TPair PickBool TBool TAny), None),
     (''full'', TOptional (TPair PickBool TBool SemanticTokensServerFull_t), None),
     (''documentSelector'', TOptional (TVector DocumentFilter_t), None),
     (''id'', TOptional TString, None)]"

definition lsServerCapabilities_t :: ty where
  "lsServerCapabilities_t = TStruct
    [(''textDocumentSync'', TOptional (TPair PickScalar (TInt CInt) lsTextDocumentSyncOptions_t), None),
     (''hoverProvider'', TOptional TBool, None),
     (''completionProvider'', TOptional lsCompletionOptions_t, None),
     (''signatureHelpProvider'', TOptional lsSignatureHelpOptions_t, None),
     (''definitionProvider'', TOptional (TPair PickBool TBool WorkDoneProgressOptions_t), None),
     (''typeDefinitionProvider'', TOptional (TPair PickBool TBool StaticRegistrationOptions_t), None),
     (''implementationProvider'', TOptional (TPair PickBool TBool StaticRegistrationOptions_t), None),
     (''referencesProvider'', TOptional (TPair PickBool TBool WorkDoneProgressOptions_t), None),
     (''documentHighlightProvider'', TOptional (TPair PickBool TBool WorkDoneProgressOptions_t), None),
     (''documentSymbolProvider'', TOptional (TPair PickBool TBool WorkDoneProgressOptions_t), None),
     (''workspaceSymbolProvider'', TOptional (TPair PickBool TBool WorkDoneProgressOptions_t), None),
     (''codeActionProvider'', TOptional (TPair PickBool TBool CodeActionOptions_t), None),
     (''codeLensProvider'', TOptional CodeLensOptions_t, None),
     (''documentFormattingProvider'', TOptional (TPair PickBool TBool WorkDoneProgressOptions_t), None),
     (''documentRangeFormattingProvider'', TOptional (TPair PickBool TBool DocumentRangeFormattingOptions_t), None),
     (''documentOnTypeFormattingProvider'', TOptional lsDocumentOnTypeFormattingOptions_t, None),
     (''renameProvider'', TOptional (TPair PickBool TBool RenameOptions_t), None),
     (''documentLinkProvider'', TOptional lsDocumentLinkOptions_t, None),
     (''executeCommandProvider'', TOptional lsExecuteCommandOptions_t, None),
     (''workspace'', TOptional WorkspaceServerCapabilities_t, None),
     (''semanticHighlighting'', TOptional SemanticHighlightingServerCapabilities_t, None),
     (''typeHierarchyProvider'', TOptional (TPair PickBool TBool StaticRegistrationOptions_t), None),
     (''callHierarchyProvider'', TOptional (TPair PickBool TBool StaticRegistrationOptions_t), None),
     (''selectionRangeProvider'', TOptional (TPair PickBool TBool StaticRegistrationOptions_t), None),
     (''experimental'', TOptional TAny, None),
     (''colorProvider'', TOptional (TPair PickBool TBool WorkDoneProgressOptions_t), None),
     (''foldingRangeProvider'', TOptional (TPair PickBool TBool WorkDoneProgressOptions_t), None),
     (''linkedEditingRangeProvider'', TOptional (TPair PickBool TBool StaticRegistrationOptions_t), None),
     (''monikerProvider'', TOptional (TPair PickBool TBool StaticRegistrationOptions_t), None),
     (''semanticTokensProvider'', TOptional SemanticTokensWithRegistrationOptions_t, None),
     (''inlayHintProvider'', TOptional (TPair PickBool TBool InlayHintOptions_t), None),
     (''diagnosticProvider'', TOptional DiagnosticOptions_t, None),
     (''inlineValueProvider'', TOptional (TPair PickBool TBool InlineValueOptions_t), None),
     (''inlineCompletionProvider'', TOptional (TPair PickBool TBool InlineCompletionOptions_t), None)]"

text \<open>\<^verbatim>\<open>include/LibLsp/lsp/general/initialize.h\<close>\<close>

definition InitializeResult_t :: ty where
  "InitializeResult_t = TStruct
    [(''capabilities'', lsServerCapabilities_t, None)]"

text \<open>\<^verbatim>\<open>include/LibLsp/lsp/textDocument/SemanticTokens.h\<close>\<close>

definition SemanticTokens_t :: ty where
  "SemanticTokens_t = TStruct
    [(''data'', TVector (TInt CInt), None),
     (''resultId'', TOptional TString, None)]"

definition SemanticTokensParams_t :: ty where
  "SemanticTokensParams_t = TStruct
    [(''textDocument'', lsTextDocumentIdentifier_t, None)]"

definition SemanticTokensDeltaParams_t :: ty where
  "SemanticTokensDeltaParams_t = TStruct
    [(''textDocument'', lsTextDocumentIdentifier_t, None),
     (''previousResultId'', TString, None)]"

definition SemanticTokensEdit_t :: ty where
  "SemanticTokensEdit_t = TStruct
    [(''startToken'', TInt Unsigned, Some (VInt 0)),
     (''deleteTokens'', TInt Unsigned, Some (VInt 0)),
     (''tokens'', TVector (TInt CInt), None)]"

definition SemanticTokensOrDelta_t :: ty where
  "SemanticTokensOrDelta_t = TStruct
    [(''resultId'', TOptional TString, None),
     (''edits'', TOptional (TVector SemanticTokensEdit_t), None),
     (''tokens'', TOptional (TVector (TInt CInt)), None)]"

text \<open>\<^verbatim>\<open>include/LibLsp/lsp/textDocument/callHierarchy.h\<close>\<close>

definition CallHierarchyPrepareParams_t :: ty where
  "CallHierarchyPrepareParams_t = TStruct
    [(''textDocument'', lsTextDocumentIdentifier_t, None),
     (''position'', lsPosition_t, None)]"

definition CallHierarchyItem_t :: ty where
  "CallHierarchyItem_t = TStruct
    [(''name'', TString, None),
     (''kind'', TInt Uint8, None),
     (''tags'', TOptional (TVector (TInt CInt)), None),
     (''detail'', TOptional TString, None),
     (''uri'', TString, None),
     (''range'', lsRange_t, None),
     (''selectionRange'', lsRange_t, None),
     (''data'', TOptional TAny, None)]"

definition CallHierarchyIncomingCallsParams_t :: ty where
  "CallHierarchyIncomingCallsParams_t = TStruct
    [(''item'', CallHierarchyItem_t, None)]"

definition CallHierarchyIncomingCall_t :: ty where
  "CallHierarchyIncomingCall_t = TStruct
    [(''from'', CallHierarchyItem_t, None),
     (''fromRanges'', TVector lsRange_t, None)]"

definition CallHierarchyOutgoingCallsParams_t :: ty where
  "CallHierarchyOutgoingCallsParams_t = TStruct
    [(''item'', CallHierarchyItem_t, None)]"

definition CallHierarchyOutgoingCall_t :: ty where
  "CallHierarchyOutgoingCall_t = TStruct
    [(''to'', CallHierarchyItem_t, None),
     (''fromRanges'', TVector lsRange_t, None)]"

text \<open>\<^verbatim>\<open>include/LibLsp/lsp/textDocument/code_lens.h\<close>\<close>

definition lsDocumentCodeLensParams_t :: ty where
  "lsDocumentCodeLensParams_t = TStruct
    [(''textDocument'', lsTextDocumentIdentifier_t, None)]"

definition lsCodeLens_t :: ty where
  "lsCodeLens_t = TStruct
    [(''range'', lsRange_t, None),
     (''command'', TOptional (lsCommand_t (TVector TAny)), None),
     (''data'', TOptional TAny, None)]"

text \<open>\<^verbatim>\<open>include/LibLsp/lsp/textDocument/documentColor.h\<close>\<close>

definition TextDocument_Color_t :: ty where
  "TextDocument_Color_t = TStruct
    [(''red'', TDouble, Some (VDouble ''0'')),
     (''green'', TDouble, Some (VDouble ''0'')),
     (''blue'', TDouble, Some (VDouble ''0'')),
     (''alpha'', TDouble, Some (VDouble ''0''))]"

text \<open>\<^verbatim>\<open>include/LibLsp/lsp/textDocument/colorPresentation.h\<close>\<close>

definition ColorPresentationParams_t :: ty where
  "ColorPresentationParams_t = TStruct
    [(''textDocument'', lsTextDocumentIdentifier_t, None),
     (''range'', lsRange_t, None),
     (''color'', TextDocument_Color_t, None)]"

definition ColorPresentation_t :: ty where
  "ColorPresentation_t = TStruct
    [(''label'', TString, None),
     (''textEdit'', lsTextEdit_t, None),
     (''additionalTextEdits'', TVector lsTextEdit_t, None)]"

text \<open>\<^verbatim>\<open>include/LibLsp/lsp/textDocument/completion.h\<close>\<close>

definition lsCompletionContext_t :: ty where
  "lsCompletionContext_t = TStruct
    [(''triggerKind'', TInt CInt, Some (VInt 1)),
     (''triggerCharacter'', TOptional TString, None)]"

definition lsCompletionParams_t :: ty where
  "lsCompletionParams_t = TStruct
    [(''textDocument'', lsTextDocumentIdentifier_t, None),
     (''position'', lsPosition_t, None),
     (''context'', TOptional lsCompletionContext_t, None)]"

text \<open>\<^verbatim>\<open>include/LibLsp/lsp/textDocument/didRenameFiles.h\<close>\<close>

definition FileRenameEvent_t :: ty where
  "FileRenameEvent_t = TStruct
    [(''oldUri'', TString, None),
     (''newUri'', TString, None)]"

definition FileRenameParams_t :: ty where
  "FileRenameParams_t = TStruct
    [(''files'', TVector FileRenameEvent_t, None)]"

text \<open>\<^verbatim>\<open>include/LibLsp/lsp/textDocument/did_change.h\<close>\<close>

definition lsTextDocumentContentChangeEvent_t :: ty where
  "lsTextDocumentContentChangeEvent_t = TStruct
    [(''range'', TOptional lsRange_t, None),
     (''rangeLength'', TOptional (TInt CInt), None),
     (''text'', TString, None)]"

definition lsTextDocumentDidChangeParams_t :: ty where
  "lsTextDocumentDidChangeParams_t = TStruct
    [(''textDocument'', lsVersionedTextDocumentIdentifier_t, None),
     (''contentChanges'', TVector lsTextDocumentContentChangeEvent_t, None),
     (''uri'', TOptional TString, None)]"

text \<open>\<^verbatim>\<open>include/LibLsp/lsp/textDocument/did_close.h\<close>\<close>

definition TextDocumentDidClose_Params_t :: ty where
  "TextDocumentDidClose_Params_t = TStruct
    [(''textDocument'', lsTextDocumentIdentifier_t, None)]"

text \<open>\<^verbatim>\<open>include/LibLsp/lsp/textDocument/did_open.h\<close>\<close>

definition TextDocumentDidOpen_Params_t :: ty where
  "TextDocumentDidOpen_Params_t = TStruct
    [(''textDocument'', lsTextDocumentItem_t, None),
     (''text'', TOptional TString, None)]"

text \<open>\<^verbatim>\<open>include/LibLsp/lsp/textDocument/did_save.h\<close>\<close>

definition TextDocumentDidSave_Params_t :: ty where
  "TextDocumentDidSave_Params_t = TStruct
    [(''textDocument'', lsTextDocumentIdentifier_t, None),
     (''text'', TOptional TString, None)]"

text \<open>\<^verbatim>\<open>include/LibLsp/lsp/textDocument/documentColor.h\<close>\<close>

definition DocumentColorParams_t :: ty where
  "DocumentColorParams_t = TStruct
    [(''textDocument'', lsTextDocumentIdentifier_t, None)]"

definition ColorInformation_t :: ty where
  "ColorInformation_t = TStruct
    [(''range'', lsRange_t, None),
     (''color'', TextDocument_Color_t, None)]"

text \<open>\<^verbatim>\<open>include/LibLsp/lsp/textDocument/document_link.h\<close>\<close>

definition TextDocumentDocumentLink_Params_t :: ty where
  "TextDocumentDocumentLink_Params_t = TStruct
    [(''textDocument'', lsTextDocumentIdentifier_t, None)]"

definition lsDocumentLink_t :: ty where
  "lsDocumentLink_t = TStruct
    [(''range'', lsRange_t, None),
     (''target'', TOptional TString, None),
     (''data'', TOptional TAny, None)]"

text \<open>\<^verbatim>\<open>include/LibLsp/lsp/textDocument/document_symbol.h\<close>\<close>

definition lsDocumentSymbolParams_t :: ty where
  "lsDocumentSymbolParams_t = TStruct
    [(''textDocument'', lsTextDocumentIdentifier_t, None),
     (''workDoneToken'', TOptional (TPair PickString TString (TInt CInt)), None),
     (''partialResultToken'', TOptional (TPair PickString TString (TInt CInt)), None)]"

text \<open>\<^verbatim>\<open>include/LibLsp/lsp/textDocument/foldingRange.h\<close>\<close>

definition FoldingRangeRequestParams_t :: ty where
  "FoldingRangeRequestParams_t = TStruct
    [(''textDocument'', lsTextDocumentIdentifier_t, None)]"

definition FoldingRange_t :: ty where
  "FoldingRange_t = TStruct
    [(''startLine'', TInt CInt, None),
     (''endLine'', TInt CInt, None),
     (''startCharacter'', TInt CInt, None),
     (''endCharacter'', TInt CInt, None),
     (''kind'', TString, None)]"

text \<open>\<^verbatim>\<open>include/LibLsp/lsp/textDocument/formatting.h\<close>\<close>

definition TextDocumentFormatting_Params_t :: ty where
  "TextDocumentFormatting_Params_t = TStruct
    [(''textDocument'', lsTextDocumentIdentifier_t, None),
     (''options'', lsFormattingOptions_t, None)]"

text \<open>\<^verbatim>\<open>include/LibLsp/lsp/textDocument/hover.h\<close>\<close>

definition TextDocumentHover_Result_t :: ty where
  "TextDocumentHover_Result_t = TStruct
    [(''contents'', THover (TPair PickString TString TMarkedString) MarkupContent_t, None),
     (''range'', TOptional lsRange_t, None)]"

text \<open>\<^verbatim>\<open>include/LibLsp/lsp/textDocument/inlayHint.h\<close>\<close>

definition TextDocumentInlayHint_Params_t :: ty where
  "TextDocumentInlayHint_Params_t = TStruct
    [(''textDocument'', lsTextDocumentIdentifier_t, None),
     (''range'', lsRange_t, None)]"

definition lsInlayHintLabelPart_t :: ty where
  "lsInlayHintLabelPart_t = TStruct
    [(''value'', TString, None),
     (''tooltip'', TOptional TString, None),
     (''location'', TOptional lsLocation_t, None),
     (''command'', TOptional (lsCommand_t TAny), None)]"

definition lsInlayHint_t :: ty where
  "lsInlayHint_t = TStruct
    [(''position'', lsPosition_t, None),
     (''label'', TString, None),
     (''kind'', TOptional (TInt CInt), None),
     (''textEdits'', TOptional (TVector lsTextEdit_t), None),
     (''tooltip'', TOptional TString, None),
     (''paddingLeft'', TOptional TBool, None),
     (''paddingRight'', TOptional TBool, None),
     (''data'', TOptional TAny, None)]"

text \<open>\<^verbatim>\<open>include/LibLsp/lsp/textDocument/linkedEditingRange.h\<close>\<close>

definition LinkedEditingRangeParams_t :: ty where
  "LinkedEditingRangeParams_t = TStruct
    [(''textDocument'', lsTextDocumentIdentifier_t, None),
     (''position'', lsPosition_t, None)]"

definition LinkedEditingRanges_t :: ty where
  "LinkedEditingRanges_t = TStruct
    [(''ranges'', TVector lsRange_t, None),
     (''wordPattern'', TOptional TString, None)]"

text \<open>\<^verbatim>\<open>include/LibLsp/lsp/textDocument/onTypeFormatting.h\<close>\<close>

definition lsDocumentOnTypeFormattingParams_t :: ty where
  "lsDocumentOnTypeFormattingParams_t = TStruct
    [(''textDocument'', lsTextDocumentIdentifier_t, None),
     (''position'', lsPosition_t, None),
     (''options'', lsFormattingOptions_t, None),
     (''ch'', TString, None)]"

text \<open>\<^verbatim>\<open>include/LibLsp/lsp/textDocument/prepareRename.h\<close>\<close>

definition PrepareRenameResult_t :: ty where
  "PrepareRenameResult_t = TStruct
    [(''range'', lsRange_t, None),
     (''placeholder'', TString, None)]"

text \<open>\<^verbatim>\<open>include/LibLsp/lsp/textDocument/publishDiagnostics.h\<close>\<close>

definition TextDocumentPublishDiagnostics_Params_t :: ty where
  "TextDocumentPublishDiagnostics_Params_t = TStruct
    [(''uri'', TString, None),
     (''diagnostics'', TVector lsDiagnostic_t, None)]"

text \<open>\<^verbatim>\<open>include/LibLsp/lsp/textDocument/range_formatting.h\<close>\<close>

definition lsTextDocumentRangeFormattingParams_t :: ty where
  "lsTextDocumentRangeFormattingParams_t = TStruct
    [(''textDocument'', lsTextDocumentIdentifier_t, None),
     (''range'', lsRange_t, None),
     (''options'', lsFormattingOptions_t, None)]"

text \<open>\<^verbatim>\<open>include/LibLsp/lsp/textDocument/references.h\<close>\<close>

definition TextDocumentReferences_lsReferenceContext_t :: ty where
  "TextDocumentReferences_lsReferenceContext_t = TStruct
    [(''includeDeclaration'', TOptional TBool, None)]"

definition TextDocumentReferences_Params_t :: ty where
  "TextDocumentReferences_Params_t = TStruct
    [(''textDocument'', lsTextDocumentIdentifier_t, None),
     (''position'', lsPosition_t, None),
     (''context'', TextDocumentReferences_lsReferenceContext_t, None)]"

text \<open>\<^verbatim>\<open>include/LibLsp/lsp/textDocument/rename.h\<close>\<close>

definition TextDocumentRename_Params_t :: ty where
  "TextDocumentRename_Params_t = TStruct
    [(''textDocument'', lsTextDocumentIdentifier_t, None),
     (''position'', lsPosition_t, None),
     (''newName'', TString, None)]"

text \<open>\<^verbatim>\<open>include/LibLsp/lsp/textDocument/typeHierarchy.h\<close>\<close>

definition TypeHierarchyItem_members :: "member list" where
  "TypeHierarchyItem_members =
    [(''name'', TString, None),
     (''detail'', TOptional TString, None),
     (''kind'', TInt Uint8, None),
     (''deprecated'', TOptional TBool, None),
     (''uri'', TString, None),
     (''range'', lsRange_t, None),
     (''selectionRange'', lsRange_t, None),
     (''parents'', TOptional (TVector (TRef ''TypeHierarchyItem'')), None),
     (''children'', TOptional (TVector (TRef ''TypeHierarchyItem'')), None),
     (''data'', TOptional TAny, None)]"

definition TypeHierarchyItem_t :: ty where
  "TypeHierarchyItem_t = TStruct TypeHierarchyItem_members"

text \<open>\<^verbatim>\<open>include/LibLsp/lsp/textDocument/resolveTypeHierarchy.h\<close>\<close>

definition ResolveTypeHierarchyItemParams_t :: ty where
  "ResolveTypeHierarchyItemParams_t = TStruct
    [(''item'', TypeHierarchyItem_t, None),
     (''resolve'', TOptional (TInt CInt), None),
     (''direction'', TypeHierarchyDirection_t, None)]"

text \<open>\<^verbatim>\<open>include/LibLsp/lsp/textDocument/selectionRange.h\<close>\<close>

definition SelectionRangeParams_t :: ty where
  "SelectionRangeParams_t = TStruct
    [(''textDocument'', lsTextDocumentIdentifier_t, None),
     (''positions'', TVector lsPosition_t, None)]"

definition SelectionRange_members :: "member list" where
  "SelectionRange_members =
    [(''range'', lsRange_t, None),
     (''parent'', TOptional (TRef ''SelectionRange''), None)]"

definition SelectionRange_t :: ty where
  "SelectionRange_t = TStruct SelectionRange_members"

text \<open>\<^verbatim>\<open>include/LibLsp/lsp/textDocument/semanticHighlighting.h\<close>\<close>

definition SemanticHighlightingInformation_t :: ty where
  "SemanticHighlightingInformation_t = TStruct
    [(''line'', TInt CInt, Some (VInt 0)),
     (''tokens'', TString, None)]"

definition SemanticHighlightingParams_t :: ty where
  "SemanticHighlightingParams_t = TStruct
    [(''textDocument'', lsVersionedTextDocumentIdentifier_t, None),
     (''lines'', TVector SemanticHighlightingInformation_t, None)]"

text \<open>\<^verbatim>\<open>include/LibLsp/lsp/textDocument/signature_help.h\<close>\<close>

definition lsParameterInformation_t :: ty where
  "lsParameterInformation_t = TStruct
    [(''label'', TString, None),
     (''documentation'', TOptional (TPair PickString TString MarkupContent_t), None)]"

definition lsSignatureInformation_t :: ty where
  "lsSignatureInformation_t = TStruct
    [(''label'', TString, None),
     (''documentation'', TOptional (TPair PickString TString MarkupContent_t), None),
     (''parameters'', TVector lsParameterInformation_t, None),
     (''activeParameter'', TOptional (TInt CInt), None)]"

definition lsSignatureHelp_t :: ty where
  "lsSignatureHelp_t = TStruct
    [(''signatures'', TVector lsSignatureInformation_t, None),
     (''activeSignature'', TOptional (TInt CInt), None),
     (''activeParameter'', TOptional (TInt CInt), None)]"

text \<open>\<^verbatim>\<open>include/LibLsp/lsp/textDocument/typeHierarchy.h\<close>\<close>

definition TypeHierarchyParams_t :: ty where
  "TypeHierarchyParams_t = TStruct
    [(''textDocument'', lsTextDocumentIdentifier_t, None),
     (''position'', lsPosition_t, None),
     (''resolve'', TOptional (TInt CInt), None),
     (''direction'', TOptional TypeHierarchyDirection_t, None)]"

text \<open>\<^verbatim>\<open>include/LibLsp/lsp/textDocument/willSave.h\<close>\<close>

definition WillSaveTextDocumentParams_Params_t :: ty where
  "WillSaveTextDocumentParams_Params_t = TStruct
    [(''textDocument'', lsTextDocumentIdentifier_t, None),
     (''reason'', TOptional (TInt CInt), None)]"

text \<open>\<^verbatim>\<open>include/LibLsp/lsp/windows/MessageNotify.h\<close>\<close>

definition MessageParams_t :: ty where
  "MessageParams_t = TStruct
    [(''type'', TInt CInt, Some (VInt 1)),
     (''message'', TString, None)]"

definition MessageActionItem_t :: ty where
  "MessageActionItem_t = TStruct
    [(''title'', TString, None)]"

definition ShowMessageRequestParams_t :: ty where
  "ShowMessageRequestParams_t = TStruct
    [(''type'', TInt CInt, Some (VInt 1)),
     (''message'', TString, None),
     (''actions'', TVector MessageActionItem_t, None)]"

text \<open>\<^verbatim>\<open>include/LibLsp/lsp/workspace/applyEdit.h\<close>\<close>

definition ApplyWorkspaceEditParams_t :: ty where
  "ApplyWorkspaceEditParams_t = TStruct
    [(''edit'', lsWorkspaceEdit_t, None),
     (''label'', TString, None),
     (''metadata'', TOptional lsWorkspaceEditMetadata_t, None)]"

definition ApplyWorkspaceEditResponse_t :: ty where
  "ApplyWorkspaceEditResponse_t = TStruct
    [(''applied'', TBool, None),
     (''failureReason'', TOptional TString, None)]"

text \<open>\<^verbatim>\<open>include/LibLsp/lsp/workspace/configuration.h\<close>\<close>

definition ConfigurationItem_t :: ty where
  "ConfigurationItem_t = TStruct
    [(''scopeUri'', TString, None),
     (''section'', TString, None)]"

definition ConfigurationParams_t :: ty where
  "ConfigurationParams_t = TStruct
    [(''items'', TVector ConfigurationItem_t, None)]"

text \<open>\<^verbatim>\<open>include/LibLsp/lsp/workspace/didChangeWorkspaceFolders.h\<close>\<close>

definition WorkspaceFoldersChangeEvent_t :: ty where
  "WorkspaceFoldersChangeEvent_t = TStruct
    [(''added'', TVector WorkspaceFolder_t, None),
     (''removed'', TVector WorkspaceFolder_t, None)]"

definition DidChangeWorkspaceFoldersParams_t :: ty where
  "DidChangeWorkspaceFoldersParams_t = TStruct
    [(''event'', WorkspaceFoldersChangeEvent_t, None)]"

text \<open>\<^verbatim>\<open>include/LibLsp/lsp/workspace/did_change_configuration.h\<close>\<close>

definition lsDidChangeConfigurationParams_t :: ty where
  "lsDidChangeConfigurationParams_t = TStruct
    [(''settings'', TAny, None)]"

text \<open>\<^verbatim>\<open>include/LibLsp/lsp/workspace/did_change_watched_files.h\<close>\<close>

definition lsFileEvent_t :: ty where
  "lsFileEvent_t = TStruct
    [(''uri'', TString, None),
     (''type'', TInt CInt, None)]"

definition lsDidChangeWatchedFilesParams_t :: ty where
  "lsDidChangeWatchedFilesParams_t = TStruct
    [(''changes'', TVector lsFileEvent_t, None)]"

section \<open>Structs that contain themselves\<close>

definition protocol_env :: tenv where
  "protocol_env s =
     (if s = ''lsDocumentSymbol'' then lsDocumentSymbol_members
      else if s = ''TypeHierarchyItem'' then TypeHierarchyItem_members
      else if s = ''SelectionRange'' then SelectionRange_members
      else [])"

section \<open>The list of the types\<close>

definition feature_types :: "(string \<times> ty) list" where
  "feature_types =
    [(''Registration'', Registration_t),
     (''RegistrationParams'', RegistrationParams_t),
     (''Unregistration'', Unregistration_t),
     (''UnregistrationParams'', UnregistrationParams_t),
     (''WorkspaceFolder'', WorkspaceFolder_t),
     (''lsInitializeParams'', lsInitializeParams_t),
     (''SemanticTokensLegend'', SemanticTokensLegend_t),
     (''SemanticTokensWithRegistrationOptions'', SemanticTokensWithRegistrationOptions_t),
     (''lsServerCapabilities'', lsServerCapabilities_t),
     (''InitializeResult'', InitializeResult_t),
     (''SemanticTokens'', SemanticTokens_t),
     (''SemanticTokensParams'', SemanticTokensParams_t),
     (''SemanticTokensDeltaParams'', SemanticTokensDeltaParams_t),
     (''SemanticTokensEdit'', SemanticTokensEdit_t),
     (''SemanticTokensOrDelta'', SemanticTokensOrDelta_t),
     (''CallHierarchyPrepareParams'', CallHierarchyPrepareParams_t),
     (''CallHierarchyItem'', CallHierarchyItem_t),
     (''CallHierarchyIncomingCallsParams'', CallHierarchyIncomingCallsParams_t),
     (''CallHierarchyIncomingCall'', CallHierarchyIncomingCall_t),
     (''CallHierarchyOutgoingCallsParams'', CallHierarchyOutgoingCallsParams_t),
     (''CallHierarchyOutgoingCall'', CallHierarchyOutgoingCall_t),
     (''lsDocumentCodeLensParams'', lsDocumentCodeLensParams_t),
     (''lsCodeLens'', lsCodeLens_t),
     (''TextDocument::Color'', TextDocument_Color_t),
     (''ColorPresentationParams'', ColorPresentationParams_t),
     (''ColorPresentation'', ColorPresentation_t),
     (''lsCompletionContext'', lsCompletionContext_t),
     (''lsCompletionParams'', lsCompletionParams_t),
     (''FileRenameEvent'', FileRenameEvent_t),
     (''FileRenameParams'', FileRenameParams_t),
     (''lsTextDocumentContentChangeEvent'', lsTextDocumentContentChangeEvent_t),
     (''lsTextDocumentDidChangeParams'', lsTextDocumentDidChangeParams_t),
     (''TextDocumentDidClose::Params'', TextDocumentDidClose_Params_t),
     (''TextDocumentDidOpen::Params'', TextDocumentDidOpen_Params_t),
     (''TextDocumentDidSave::Params'', TextDocumentDidSave_Params_t),
     (''DocumentColorParams'', DocumentColorParams_t),
     (''ColorInformation'', ColorInformation_t),
     (''TextDocumentDocumentLink::Params'', TextDocumentDocumentLink_Params_t),
     (''lsDocumentLink'', lsDocumentLink_t),
     (''lsDocumentSymbolParams'', lsDocumentSymbolParams_t),
     (''FoldingRangeRequestParams'', FoldingRangeRequestParams_t),
     (''FoldingRange'', FoldingRange_t),
     (''TextDocumentFormatting::Params'', TextDocumentFormatting_Params_t),
     (''TextDocumentHover::Result'', TextDocumentHover_Result_t),
     (''TextDocumentInlayHint::Params'', TextDocumentInlayHint_Params_t),
     (''lsInlayHintLabelPart'', lsInlayHintLabelPart_t),
     (''lsInlayHint'', lsInlayHint_t),
     (''LinkedEditingRangeParams'', LinkedEditingRangeParams_t),
     (''LinkedEditingRanges'', LinkedEditingRanges_t),
     (''lsDocumentOnTypeFormattingParams'', lsDocumentOnTypeFormattingParams_t),
     (''PrepareRenameResult'', PrepareRenameResult_t),
     (''TextDocumentPublishDiagnostics::Params'', TextDocumentPublishDiagnostics_Params_t),
     (''lsTextDocumentRangeFormattingParams'', lsTextDocumentRangeFormattingParams_t),
     (''TextDocumentReferences::lsReferenceContext'', TextDocumentReferences_lsReferenceContext_t),
     (''TextDocumentReferences::Params'', TextDocumentReferences_Params_t),
     (''TextDocumentRename::Params'', TextDocumentRename_Params_t),
     (''TypeHierarchyItem'', TypeHierarchyItem_t),
     (''ResolveTypeHierarchyItemParams'', ResolveTypeHierarchyItemParams_t),
     (''SelectionRangeParams'', SelectionRangeParams_t),
     (''SelectionRange'', SelectionRange_t),
     (''SemanticHighlightingInformation'', SemanticHighlightingInformation_t),
     (''SemanticHighlightingParams'', SemanticHighlightingParams_t),
     (''lsParameterInformation'', lsParameterInformation_t),
     (''lsSignatureInformation'', lsSignatureInformation_t),
     (''lsSignatureHelp'', lsSignatureHelp_t),
     (''TypeHierarchyParams'', TypeHierarchyParams_t),
     (''WillSaveTextDocumentParams::Params'', WillSaveTextDocumentParams_Params_t),
     (''MessageParams'', MessageParams_t),
     (''MessageActionItem'', MessageActionItem_t),
     (''ShowMessageRequestParams'', ShowMessageRequestParams_t),
     (''ApplyWorkspaceEditParams'', ApplyWorkspaceEditParams_t),
     (''ApplyWorkspaceEditResponse'', ApplyWorkspaceEditResponse_t),
     (''ConfigurationItem'', ConfigurationItem_t),
     (''ConfigurationParams'', ConfigurationParams_t),
     (''WorkspaceFoldersChangeEvent'', WorkspaceFoldersChangeEvent_t),
     (''DidChangeWorkspaceFoldersParams'', DidChangeWorkspaceFoldersParams_t),
     (''lsDidChangeConfigurationParams'', lsDidChangeConfigurationParams_t),
     (''lsFileEvent'', lsFileEvent_t),
     (''lsDidChangeWatchedFilesParams'', lsDidChangeWatchedFilesParams_t)]"

lemmas feature_types_defs =
  Registration_t_def
  RegistrationParams_t_def
  Unregistration_t_def
  UnregistrationParams_t_def
  WorkspaceFolder_t_def
  lsInitializeParams_t_def
  SemanticTokensLegend_t_def
  SemanticTokensWithRegistrationOptions_t_def
  lsServerCapabilities_t_def
  InitializeResult_t_def
  SemanticTokens_t_def
  SemanticTokensParams_t_def
  SemanticTokensDeltaParams_t_def
  SemanticTokensEdit_t_def
  SemanticTokensOrDelta_t_def
  CallHierarchyPrepareParams_t_def
  CallHierarchyItem_t_def
  CallHierarchyIncomingCallsParams_t_def
  CallHierarchyIncomingCall_t_def
  CallHierarchyOutgoingCallsParams_t_def
  CallHierarchyOutgoingCall_t_def
  lsDocumentCodeLensParams_t_def
  lsCodeLens_t_def
  TextDocument_Color_t_def
  ColorPresentationParams_t_def
  ColorPresentation_t_def
  lsCompletionContext_t_def
  lsCompletionParams_t_def
  FileRenameEvent_t_def
  FileRenameParams_t_def
  lsTextDocumentContentChangeEvent_t_def
  lsTextDocumentDidChangeParams_t_def
  TextDocumentDidClose_Params_t_def
  TextDocumentDidOpen_Params_t_def
  TextDocumentDidSave_Params_t_def
  DocumentColorParams_t_def
  ColorInformation_t_def
  TextDocumentDocumentLink_Params_t_def
  lsDocumentLink_t_def
  lsDocumentSymbolParams_t_def
  FoldingRangeRequestParams_t_def
  FoldingRange_t_def
  TextDocumentFormatting_Params_t_def
  TextDocumentHover_Result_t_def
  TextDocumentInlayHint_Params_t_def
  lsInlayHintLabelPart_t_def
  lsInlayHint_t_def
  LinkedEditingRangeParams_t_def
  LinkedEditingRanges_t_def
  lsDocumentOnTypeFormattingParams_t_def
  PrepareRenameResult_t_def
  TextDocumentPublishDiagnostics_Params_t_def
  lsTextDocumentRangeFormattingParams_t_def
  TextDocumentReferences_lsReferenceContext_t_def
  TextDocumentReferences_Params_t_def
  TextDocumentRename_Params_t_def
  TypeHierarchyItem_t_def
  ResolveTypeHierarchyItemParams_t_def
  SelectionRangeParams_t_def
  SelectionRange_t_def
  SemanticHighlightingInformation_t_def
  SemanticHighlightingParams_t_def
  lsParameterInformation_t_def
  lsSignatureInformation_t_def
  lsSignatureHelp_t_def
  TypeHierarchyParams_t_def
  WillSaveTextDocumentParams_Params_t_def
  MessageParams_t_def
  MessageActionItem_t_def
  ShowMessageRequestParams_t_def
  ApplyWorkspaceEditParams_t_def
  ApplyWorkspaceEditResponse_t_def
  ConfigurationItem_t_def
  ConfigurationParams_t_def
  WorkspaceFoldersChangeEvent_t_def
  DidChangeWorkspaceFoldersParams_t_def
  lsDidChangeConfigurationParams_t_def
  lsFileEvent_t_def
  lsDidChangeWatchedFilesParams_t_def

end
