(* ===== verification/Protocol_Extensions.thy ===== *)
theory Protocol_Extensions
  imports Protocol_Features
begin

text \<open>
  The data types of the extensions of the protocol: the Java and Sonar servers and the language
  notifications (\<^verbatim>\<open>include/LibLsp/lsp/extention/\<close>, \<^verbatim>\<open>lsp/language/\<close>).
  Each definition is one struct: its reflected members in the order of the \<^verbatim>\<open>MAKE_REFLECT_STRUCT\<close>
  macro, with the types of their declarations and the values of their initializers.
\<close>

text \<open>\<^verbatim>\<open>include/LibLsp/lsp/extention/jdtls/OverridableMethod.h\<close>\<close>

definition OverridableMethod_t :: ty where
  "OverridableMethod_t = TStruct
    [(''bindingKey'', TString, None),
     (''name'', TString, None),
     (''parameters'', TVector TString, None),
     (''unimplemented'', TBool, Some (VBool False)),
     (''declaringClass'', TString, None),
     (''declaringClassType'', TString, None)]"

definition OverridableMethodsResponse_t :: ty where
  "OverridableMethodsResponse_t = TStruct
    [(''type'', TString, None),
     (''methods'', TVector OverridableMethod_t, None)]"

text \<open>\<^verbatim>\<open>include/LibLsp/lsp/extention/jdtls/WorkspaceSymbolParams.h\<close>\<close>

definition WorkspaceSymbolParams_t :: ty where
  "WorkspaceSymbolParams_t = TStruct
    [(''query'', TString, None)]"

text \<open>\<^verbatim>\<open>include/LibLsp/lsp/extention/jdtls/addOverridableMethods.h\<close>\<close>

definition AddOverridableMethodParams_t :: ty where
  "AddOverridableMethodParams_t = TStruct
    [(''context'', lsCodeActionParams_t, None),
     (''overridableMethods'', TVector OverridableMethod_t, None)]"

text \<open>\<^verbatim>\<open>include/LibLsp/lsp/extention/jdtls/checkConstructorsStatus.h\<close>\<close>

definition LspMethodBinding_t :: ty where
  "LspMethodBinding_t = TStruct
    [(''bindingKey'', TString, None),
     (''name'', TString, None),
     (''parameters'', TVector TString, None)]"

text \<open>\<^verbatim>\<open>include/LibLsp/lsp/extention/jdtls/checkHashCodeEqualsStatus.h\<close>\<close>

definition LspVariableBinding_t :: ty where
  "LspVariableBinding_t = TStruct
    [(''bindingKey'', TString, None),
     (''name'', TString, None),
     (''type'', TString, None),
     (''isField'', TBool, None)]"

text \<open>\<^verbatim>\<open>include/LibLsp/lsp/extention/jdtls/checkConstructorsStatus.h\<close>\<close>

definition CheckConstructorsResponse_t :: ty where
  "CheckConstructorsResponse_t = TStruct
    [(''constructors'', TVector LspMethodBinding_t, None),
     (''fields'', TVector LspVariableBinding_t, None)]"

text \<open>\<^verbatim>\<open>include/LibLsp/lsp/extention/jdtls/checkDelegateMethodsStatus.h\<close>\<close>

definition LspDelegateField_t :: ty where
  "LspDelegateField_t = TStruct
    [(''field'', LspVariableBinding_t, None),
     (''delegateMethods'', TVector LspMethodBinding_t, None)]"

definition CheckDelegateMethodsResponse_t :: ty where
  "CheckDelegateMethodsResponse_t = TStruct
    [(''delegateFields'', TVector LspDelegateField_t, None)]"

text \<open>\<^verbatim>\<open>include/LibLsp/lsp/extention/jdtls/checkHashCodeEqualsStatus.h\<close>\<close>

definition CheckHashCodeEqualsResponse_t :: ty where
  "CheckHashCodeEqualsResponse_t = TStruct
    [(''type'', TString, None),
     (''fields'', TVector LspVariableBinding_t, None),
     (''type'', TString, None),
     (''existingMethods'', TVector TString, None)]"

text \<open>\<^verbatim>\<open>include/LibLsp/lsp/extention/jdtls/checkToStringStatus.h\<close>\<close>

definition CheckToStringResponse_t :: ty where
  "CheckToStringResponse_t = TStruct
    [(''type'', TString, None),
     (''fields'', TVector LspVariableBinding_t, None),
     (''exists'', TBool, None)]"

text \<open>\<^verbatim>\<open>include/LibLsp/lsp/extention/jdtls/findLinks.h\<close>\<close>

definition FindLinksParams_t :: ty where
  "FindLinksParams_t = TStruct
    [(''type'', TString, None),
     (''position'', lsTextDocumentPositionParams_t, None)]"

text \<open>\<^verbatim>\<open>include/LibLsp/lsp/extention/jdtls/resolveUnimplementedAccessors.h\<close>\<close>

definition AccessorField_t :: ty where
  "AccessorField_t = TStruct
    [(''fieldName'', TString, None),
     (''isStatic'', TBool, Some (VBool False)),
     (''generateGetter'', TBool, Some (VBool False)),
     (''generateSetter'', TBool, Some (VBool False))]"

text \<open>\<^verbatim>\<open>include/LibLsp/lsp/extention/jdtls/generateAccessors.h\<close>\<close>

definition GenerateAccessorsParams_t :: ty where
  "GenerateAccessorsParams_t = TStruct
    [(''context'', lsCodeActionParams_t, None),
     (''accessors'', TVector AccessorField_t, None)]"

text \<open>\<^verbatim>\<open>include/LibLsp/lsp/extention/jdtls/generateConstructors.h\<close>\<close>

definition GenerateConstructorsParams_t :: ty where
  "GenerateConstructorsParams_t = TStruct
    [(''context'', lsCodeActionParams_t, None),
     (''fields'', TVector LspVariableBinding_t, None)]"

text \<open>\<^verbatim>\<open>include/LibLsp/lsp/extention/jdtls/generateDelegateMethods.h\<close>\<close>

definition LspDelegateEntry_t :: ty where
  "LspDelegateEntry_t = TStruct
    [(''field'', LspVariableBinding_t, None),
     (''delegateMethod'', LspMethodBinding_t, None)]"

definition GenerateDelegateMethodsParams_t :: ty where
  "GenerateDelegateMethodsParams_t = TStruct
    [(''context'', lsCodeActionParams_t, None),
     (''delegateEntries'', TVector LspDelegateEntry_t, None)]"

text \<open>\<^verbatim>\<open>include/LibLsp/lsp/extention/jdtls/generateHashCodeEquals.h\<close>\<close>

definition GenerateHashCodeEqualsParams_t :: ty where
  "GenerateHashCodeEqualsParams_t = TStruct
    [(''context'', lsCodeActionParams_t, None),
     (''fields'', TVector LspVariableBinding_t, None),
     (''regenerate'', TBool, Some (VBool False))]"

text \<open>\<^verbatim>\<open>include/LibLsp/lsp/extention/jdtls/generateToString.h\<close>\<close>

definition GenerateToStringParams_t :: ty where
  "GenerateToStringParams_t = TStruct
    [(''context'', lsCodeActionParams_t, None),
     (''fields'', TVector LspVariableBinding_t, None)]"

text \<open>\<^verbatim>\<open>include/LibLsp/lsp/extention/jdtls/getMoveDestinations.h\<close>\<close>

definition MoveParams_t :: ty where
  "MoveParams_t = TStruct
    [(''moveKind'', TString, None),
     (''sourceUris'', TVector TString, None),
     (''params'', TOptional lsCodeActionParams_t, None),
     (''destination'', TAny, None),
     (''updateReferences'', TBool, None)]"

definition MoveDestinationsResponse_t :: ty where
  "MoveDestinationsResponse_t = TStruct
    [(''errorMessage'', TString, None),
     (''destinations'', TVector TAny, None)]"

text \<open>\<^verbatim>\<open>include/LibLsp/lsp/extention/jdtls/getRefactorEdit.h\<close>\<close>

definition RenamePosition_t :: ty where
  "RenamePosition_t = TStruct
    [(''uri'', TString, None),
     (''offset'', TInt CInt, Some (VInt 0)),
     (''length'', TInt CInt, Some (VInt 0))]"

definition GetRefactorEditParams_t :: ty where
  "GetRefactorEditParams_t = TStruct
    [(''command'', TString, None),
     (''context'', lsCodeActionParams_t, None),
     (''options'', TOptional lsFormattingOptions_t, None)]"

definition RefactorWorkspaceEdit_t :: ty where
  "RefactorWorkspaceEdit_t = TStruct
    [(''edit'', lsWorkspaceEdit_t, None),
     (''command'', TOptional (lsCommand_t (TVector TAny)), None),
     (''errorMessage'', TOptional TString, None)]"

text \<open>\<^verbatim>\<open>include/LibLsp/lsp/extention/jdtls/searchSymbols.h\<close>\<close>

definition SearchSymbolParams_t :: ty where
  "SearchSymbolParams_t = TStruct
    [(''query'', TString, None),
     (''projectName'', TOptional TString, None),
     (''sourceOnly'', TOptional TBool, None),
     (''maxResults'', TOptional (TInt CInt), None)]"

text \<open>\<^verbatim>\<open>include/LibLsp/lsp/extention/sonarlint/protocol.h\<close>\<close>

definition LintRule_t :: ty where
  "LintRule_t = TStruct
    [(''key'', TString, None),
     (''name'', TString, None),
     (''activeByDefault'', TBool, Some (VBool True)),
     (''severity'', TOptional TString, None),
     (''type'', TOptional TString, None)]"

definition RuleParameter_t :: ty where
  "RuleParameter_t = TStruct
    [(''name'', TString, None),
     (''description'', TOptional TString, None),
     (''defaultValue'', TOptional TString, None)]"

definition ShowRuleDescriptionParams_t :: ty where
  "ShowRuleDescriptionParams_t = TStruct
    [(''key'', TOptional TString, None),
     (''name'', TOptional TString, None),
     (''htmlDescription'', TOptional TString, None),
     (''type'', TOptional TString, None),
     (''severity'', TOptional TString, None),
     (''parameters'', TOptional (TVector RuleParameter_t), None)]"

definition GetJavaConfigResponse_t :: ty where
  "GetJavaConfigResponse_t = TStruct
    [(''projectRoot'', TString, None),
     (''sourceLevel'', TString, None),
     (''classpath'', TVector TString, None),
     (''isTest'', TBool, None),
     (''vmLocation'', TString, None)]"

definition SetTraceNotificationParams_t :: ty where
  "SetTraceNotificationParams_t = TStruct
    [(''value'', lsTrace_t, None)]"

definition ServerConnectionSettings_t :: ty where
  "ServerConnectionSettings_t = TStruct
    [(''connectionId'', TString, None),
     (''serverUrl'', TString, None),
     (''token'', TString, None),
     (''organizationKey'', TOptional TString, None)]"

definition RuleSetting_t :: ty where
  "RuleSetting_t = TStruct
    [(''level'', TString, Some (VString ''on'')),
     (''parameters'', TOptional (TMap TString), None)]"

definition ConsoleParams_t :: ty where
  "ConsoleParams_t = TStruct
    [(''showAnalyzerLogs'', TOptional TBool, None),
     (''showVerboseLogs'', TOptional TBool, None)]"

definition SonarLintWorkspaceSettings_t :: ty where
  "SonarLintWorkspaceSettings_t = TStruct
    [(''disableTelemetry'', TOptional TBool, None),
     (''connectedMode'', TOptional (TMap ServerConnectionSettings_t), None),
     (''rules'', TOptional (TMap RuleSetting_t), None),
     (''output'', TOptional ConsoleParams_t, None),
     (''pathToNodeExecutable'', TOptional TString, None)]"

text \<open>\<^verbatim>\<open>include/LibLsp/lsp/language/language.h\<close>\<close>

definition StatusReport_t :: ty where
  "StatusReport_t = TStruct
    [(''type'', TString, None),
     (''message'', TString, None)]"

definition ActionableNotification_t :: ty where
  "ActionableNotification_t = TStruct
    [(''severity'', TInt CInt, None),
     (''message'', TString, None),
     (''data'', TOptional TAny, None),
     (''commands'', TVector (lsCommand_t (TVector TAny)), None)]"

definition ProgressReport_t :: ty where
  "ProgressReport_t = TStruct
    [(''id'', TString, None),
     (''task'', TString, None),
     (''subTask'', TString, None),
     (''status'', TString, None),
     (''workDone'', TInt CInt, Some (VInt 0)),
     (''complete'', TBool, Some (VBool False))]"

definition EventNotification_t :: ty where
  "EventNotification_t = TStruct
    [(''eventType'', TInt CInt, None),
     (''data'', TAny, None)]"

section \<open>The list of the types\<close>

definition extension_types :: "(string \<times> ty) list" where
  "extension_types =
    [(''OverridableMethod'', OverridableMethod_t),
     (''OverridableMethodsResponse'', OverridableMethodsResponse_t),
     (''WorkspaceSymbolParams'', WorkspaceSymbolParams_t),
     (''AddOverridableMethodParams'', AddOverridableMethodParams_t),
     (''LspMethodBinding'', LspMethodBinding_t),
     (''LspVariableBinding'', LspVariableBinding_t),
     (''CheckConstructorsResponse'', CheckConstructorsResponse_t),
     (''LspDelegateField'', LspDelegateField_t),
     (''CheckDelegateMethodsResponse'', CheckDelegateMethodsResponse_t),
     (''CheckHashCodeEqualsResponse'', CheckHashCodeEqualsResponse_t),
     (''CheckToStringResponse'', CheckToStringResponse_t),
     (''FindLinksParams'', FindLinksParams_t),
     (''AccessorField'', AccessorField_t),
     (''GenerateAccessorsParams'', GenerateAccessorsParams_t),
     (''GenerateConstructorsParams'', GenerateConstructorsParams_t),
     (''LspDelegateEntry'', LspDelegateEntry_t),
     (''GenerateDelegateMethodsParams'', GenerateDelegateMethodsParams_t),
     (''GenerateHashCodeEqualsParams'', GenerateHashCodeEqualsParams_t),
     (''GenerateToStringParams'', GenerateToStringParams_t),
     (''MoveParams'', MoveParams_t),
     (''MoveDestinationsResponse'', MoveDestinationsResponse_t),
     (''RenamePosition'', RenamePosition_t),
     (''GetRefactorEditParams'', GetRefactorEditParams_t),
     (''RefactorWorkspaceEdit'', RefactorWorkspaceEdit_t),
     (''SearchSymbolParams'', SearchSymbolParams_t),
     (''LintRule'', LintRule_t),
     (''RuleParameter'', RuleParameter_t),
     (''ShowRuleDescriptionParams'', ShowRuleDescriptionParams_t),
     (''GetJavaConfigResponse'', GetJavaConfigResponse_t),
     (''SetTraceNotificationParams'', SetTraceNotificationParams_t),
     (''ServerConnectionSettings'', ServerConnectionSettings_t),
     (''RuleSetting'', RuleSetting_t),
     (''ConsoleParams'', ConsoleParams_t),
     (''SonarLintWorkspaceSettings'', SonarLintWorkspaceSettings_t),
     (''StatusReport'', StatusReport_t),
     (''ActionableNotification'', ActionableNotification_t),
     (''ProgressReport'', ProgressReport_t),
     (''EventNotification'', EventNotification_t)]"

lemmas extension_types_defs =
  OverridableMethod_t_def
  OverridableMethodsResponse_t_def
  WorkspaceSymbolParams_t_def
  AddOverridableMethodParams_t_def
  LspMethodBinding_t_def
  LspVariableBinding_t_def
  CheckConstructorsResponse_t_def
  LspDelegateField_t_def
  CheckDelegateMethodsResponse_t_def
  CheckHashCodeEqualsResponse_t_def
  CheckToStringResponse_t_def
  FindLinksParams_t_def
  AccessorField_t_def
  GenerateAccessorsParams_t_def
  GenerateConstructorsParams_t_def
  LspDelegateEntry_t_def
  GenerateDelegateMethodsParams_t_def
  GenerateHashCodeEqualsParams_t_def
  GenerateToStringParams_t_def
  MoveParams_t_def
  MoveDestinationsResponse_t_def
  RenamePosition_t_def
  GetRefactorEditParams_t_def
  RefactorWorkspaceEdit_t_def
  SearchSymbolParams_t_def
  LintRule_t_def
  RuleParameter_t_def
  ShowRuleDescriptionParams_t_def
  GetJavaConfigResponse_t_def
  SetTraceNotificationParams_t_def
  ServerConnectionSettings_t_def
  RuleSetting_t_def
  ConsoleParams_t_def
  SonarLintWorkspaceSettings_t_def
  StatusReport_t_def
  ActionableNotification_t_def
  ProgressReport_t_def
  EventNotification_t_def

end
