(* ===== verification/Protocol_Messages.thy ===== *)
theory Protocol_Messages
  imports Protocol_Extensions
begin

text \<open>
  The messages of the protocol: one definition per \<^verbatim>\<open>DEFINE_REQUEST_RESPONSE_TYPE\<close> and
  \<^verbatim>\<open>DEFINE_NOTIFICATION_TYPE\<close>, with the method and the types of its parameters and result, and the
  structs the macros declare for them (\<^verbatim>\<open>include/LibLsp/JsonRpc/RequestInMessage.h\<close>,
  \<^verbatim>\<open>NotificationInMessage.h\<close>, \<^verbatim>\<open>lsResponseMessage.h\<close>).
\<close>

section \<open>Requests, responses, notifications\<close>

record rpc =
  rpc_method :: string
  rpc_params :: ty
  rpc_result :: ty

record rpc_notify =
  notify_method :: string
  notify_params :: ty

text \<open>
  \<^verbatim>\<open>jsonrpc\<close> is a member of \<^verbatim>\<open>LspMessage\<close> with its initializer; the constructors of \<^verbatim>\<open>lsRequest\<close> and
  \<^verbatim>\<open>lsNotificationInMessage\<close> set the method.
\<close>

definition version_member :: member where
  "version_member = (''jsonrpc'', TString, Some (VString ''2.0''))"

definition request_type :: "rpc \<Rightarrow> ty" where
  "request_type r = TStruct
    [version_member,
     (''id'', TRequestId, None),
     (''method'', TString, Some (VString (rpc_method r))),
     (''params'', rpc_params r, None)]"

definition response_type :: "rpc \<Rightarrow> ty" where
  "response_type r = TStruct
    [version_member,
     (''id'', TRequestId, None),
     (''result'', rpc_result r, None)]"

definition notify_type :: "rpc_notify \<Rightarrow> ty" where
  "notify_type n = TStruct
    [version_member,
     (''method'', TString, Some (VString (notify_method n))),
     (''params'', notify_params n, None)]"

section \<open>The messages\<close>

text \<open>\<^verbatim>\<open>include/LibLsp/JsonRpc/Cancellation.h\<close>\<close>

definition Notify_Cancellation :: rpc_notify where
  "Notify_Cancellation = \<lparr>notify_method = ''$/cancelRequest'', notify_params = Cancellation_Params_t\<rparr>"

text \<open>\<^verbatim>\<open>include/LibLsp/lsp/client/registerCapability.h\<close>\<close>

definition Req_ClientRegisterCapability :: rpc where
  "Req_ClientRegisterCapability = \<lparr>rpc_method = ''client/registerCapability'', rpc_params = RegistrationParams_t,
     rpc_result = TJsonNull\<rparr>"

text \<open>\<^verbatim>\<open>include/LibLsp/lsp/client/unregisterCapability.h\<close>\<close>

definition Req_ClientUnregisterCapability :: rpc where
  "Req_ClientUnregisterCapability = \<lparr>rpc_method = ''client/unregisterCapability'', rpc_params = UnregistrationParams_t,
     rpc_result = TJsonNull\<rparr>"

text \<open>\<^verbatim>\<open>include/LibLsp/lsp/extention/jdtls/Move.h\<close>\<close>

definition java_move :: rpc where
  "java_move = \<lparr>rpc_method = ''java/move'', rpc_params = MoveParams_t,
     rpc_result = RefactorWorkspaceEdit_t\<rparr>"

text \<open>\<^verbatim>\<open>include/LibLsp/lsp/extention/jdtls/addOverridableMethods.h\<close>\<close>

definition java_addOverridableMethods :: rpc where
  "java_addOverridableMethods = \<lparr>rpc_method = ''java/addOverridableMethods'', rpc_params = AddOverridableMethodParams_t,
     rpc_result = lsWorkspaceEdit_t\<rparr>"

text \<open>\<^verbatim>\<open>include/LibLsp/lsp/extention/jdtls/buildWorkspace.h\<close>\<close>

definition java_buildWorkspace :: rpc where
  "java_buildWorkspace = \<lparr>rpc_method = ''java/buildWorkspace'', rpc_params = TBool,
     rpc_result = TInt Uint8\<rparr>"

text \<open>\<^verbatim>\<open>include/LibLsp/lsp/extention/jdtls/checkConstructorsStatus.h\<close>\<close>

definition java_checkConstructorsStatus :: rpc where
  "java_checkConstructorsStatus = \<lparr>rpc_method = ''java/checkConstructorsStatus'', rpc_params = lsCodeActionParams_t,
     rpc_result = CheckConstructorsResponse_t\<rparr>"

text \<open>\<^verbatim>\<open>include/LibLsp/lsp/extention/jdtls/checkDelegateMethodsStatus.h\<close>\<close>

definition java_checkDelegateMethodsStatus :: rpc where
  "java_checkDelegateMethodsStatus = \<lparr>rpc_method = ''java/checkDelegateMethodsStatus'', rpc_params = lsCodeActionParams_t,
     rpc_result = CheckDelegateMethodsResponse_t\<rparr>"

text \<open>\<^verbatim>\<open>include/LibLsp/lsp/extention/jdtls/checkHashCodeEqualsStatus.h\<close>\<close>

definition java_checkHashCodeEqualsStatus :: rpc where
  "java_checkHashCodeEqualsStatus = \<lparr>rpc_method = ''java/checkHashCodeEqualsStatus'', rpc_params = lsCodeActionParams_t,
     rpc_result = CheckHashCodeEqualsResponse_t\<rparr>"

text \<open>\<^verbatim>\<open>include/LibLsp/lsp/extention/jdtls/checkToStringStatus.h\<close>\<close>

definition java_checkToStringStatus :: rpc where
  "java_checkToStringStatus = \<lparr>rpc_method = ''java/checkToStringStatus'', rpc_params = lsCodeActionParams_t,
     rpc_result = CheckToStringResponse_t\<rparr>"

text \<open>\<^verbatim>\<open>include/LibLsp/lsp/extention/jdtls/classFileContents.h\<close>\<close>

definition java_classFileContents :: rpc where
  "java_classFileContents = \<lparr>rpc_method = ''java/classFileContents'', rpc_params = lsTextDocumentIdentifier_t,
     rpc_result = TString\<rparr>"

text \<open>\<^verbatim>\<open>include/LibLsp/lsp/extention/jdtls/executeCommand.h\<close>\<close>

definition java_executeCommand :: rpc where
  "java_executeCommand = \<lparr>rpc_method = ''java/executeCommand'', rpc_params = ExecuteCommandParams_t,
     rpc_result = lsWorkspaceEdit_t\<rparr>"

text \<open>\<^verbatim>\<open>include/LibLsp/lsp/extention/jdtls/findLinks.h\<close>\<close>

definition java_findLinks :: rpc where
  "java_findLinks = \<lparr>rpc_method = ''java/findLinks'', rpc_params = FindLinksParams_t,
     rpc_result = TAny\<rparr>"

text \<open>\<^verbatim>\<open>include/LibLsp/lsp/extention/jdtls/generateAccessors.h\<close>\<close>

definition java_generateAccessors :: rpc where
  "java_generateAccessors = \<lparr>rpc_method = ''java/generateAccessors'', rpc_params = GenerateAccessorsParams_t,
     rpc_result = lsWorkspaceEdit_t\<rparr>"

text \<open>\<^verbatim>\<open>include/LibLsp/lsp/extention/jdtls/generateConstructors.h\<close>\<close>

definition java_generateConstructors :: rpc where
  "java_generateConstructors = \<lparr>rpc_method = ''java/generateConstructors'', rpc_params = GenerateConstructorsParams_t,
     rpc_result = lsWorkspaceEdit_t\<rparr>"

text \<open>\<^verbatim>\<open>include/LibLsp/lsp/extention/jdtls/generateDelegateMethods.h\<close>\<close>

definition java_generateDelegateMethods :: rpc where
  "java_generateDelegateMethods = \<lparr>rpc_method = ''java/generateDelegateMethods'', rpc_params = GenerateDelegateMethodsParams_t,
     rpc_result = lsWorkspaceEdit_t\<rparr>"

text \<open>\<^verbatim>\<open>include/LibLsp/lsp/extention/jdtls/generateHashCodeEquals.h\<close>\<close>

definition java_generateHashCodeEquals :: rpc where
  "java_generateHashCodeEquals = \<lparr>rpc_method = ''java/generateHashCodeEquals'', rpc_params = GenerateHashCodeEqualsParams_t,
     rpc_result = lsWorkspaceEdit_t\<rparr>"

text \<open>\<^verbatim>\<open>include/LibLsp/lsp/extention/jdtls/generateToString.h\<close>\<close>

definition java_generateToString :: rpc where
  "java_generateToString = \<lparr>rpc_method = ''java/generateToString'', rpc_params = GenerateToStringParams_t,
     rpc_result = lsWorkspaceEdit_t\<rparr>"

text \<open>\<^verbatim>\<open>include/LibLsp/lsp/extention/jdtls/getMoveDestinations.h\<close>\<close>

definition java_getMoveDestinations :: rpc where
  "java_getMoveDestinations = \<lparr>rpc_method = ''java/getMoveDestinations'', rpc_params = MoveParams_t,
     rpc_result = MoveDestinationsResponse_t\<rparr>"

text \<open>\<^verbatim>\<open>include/LibLsp/lsp/extention/jdtls/getRefactorEdit.h\<close>\<close>

definition java_getRefactorEdit :: rpc where
  "java_getRefactorEdit = \<lparr>rpc_method = ''java/getRefactorEdit'', rpc_params = GetRefactorEditParams_t,
     rpc_result = RefactorWorkspaceEdit_t\<rparr>"

text \<open>\<^verbatim>\<open>include/LibLsp/lsp/extention/jdtls/listOverridableMethods.h\<close>\<close>

definition java_listOverridableMethods :: rpc where
  "java_listOverridableMethods = \<lparr>rpc_method = ''java/listOverridableMethods'', rpc_params = lsCodeActionParams_t,
     rpc_result = OverridableMethodsResponse_t\<rparr>"

text \<open>\<^verbatim>\<open>include/LibLsp/lsp/extention/jdtls/organizeImports.h\<close>\<close>

definition java_organizeImports :: rpc where
  "java_organizeImports = \<lparr>rpc_method = ''java/organizeImports'', rpc_params = lsCodeActionParams_t,
     rpc_result = lsWorkspaceEdit_t\<rparr>"

text \<open>\<^verbatim>\<open>include/LibLsp/lsp/extention/jdtls/projectConfigurationUpdate.h\<close>\<close>

definition java_projectConfigurationUpdate :: rpc_notify where
  "java_projectConfigurationUpdate = \<lparr>notify_method = ''java/projectConfigurationUpdate'', notify_params = lsTextDocumentIdentifier_t\<rparr>"

text \<open>\<^verbatim>\<open>include/LibLsp/lsp/extention/jdtls/resolveUnimplementedAccessors.h\<close>\<close>

definition java_resolveUnimplementedAccessors :: rpc where
  "java_resolveUnimplementedAccessors = \<lparr>rpc_method = ''java/resolveUnimplementedAccessors'', rpc_params = lsCodeActionParams_t,
     rpc_result = TVector AccessorField_t\<rparr>"

text \<open>\<^verbatim>\<open>include/LibLsp/lsp/extention/jdtls/searchSymbols.h\<close>\<close>

definition java_searchSymbols :: rpc where
  "java_searchSymbols = \<lparr>rpc_method = ''java/searchSymbols'', rpc_params = SearchSymbolParams_t,
     rpc_result = TVector lsSymbolInformation_t\<rparr>"

text \<open>\<^verbatim>\<open>include/LibLsp/lsp/extention/sonarlint/protocol.h\<close>\<close>

definition slls_listAllRules :: rpc where
  "slls_listAllRules = \<lparr>rpc_method = ''sonarlint/listAllRules'', rpc_params = TJsonNull,
     rpc_result = TAny\<rparr>"

definition Notify_didClasspathUpdate :: rpc_notify where
  "Notify_didClasspathUpdate = \<lparr>notify_method = ''sonarlint/didClasspathUpdate'', notify_params = TString\<rparr>"

definition Notify_didJavaServerModeChange :: rpc_notify where
  "Notify_didJavaServerModeChange = \<lparr>notify_method = ''sonarlint/didJavaServerModeChange'', notify_params = TString\<rparr>"

definition slls_showSonarLintOutput :: rpc where
  "slls_showSonarLintOutput = \<lparr>rpc_method = ''sonarlint/showSonarLintOutput'', rpc_params = TJsonNull,
     rpc_result = TJsonNull\<rparr>"

definition slls_openJavaHomeSettings :: rpc where
  "slls_openJavaHomeSettings = \<lparr>rpc_method = ''sonarlint/openJavaHomeSettings'', rpc_params = TJsonNull,
     rpc_result = TJsonNull\<rparr>"

definition slls_openPathToNodeSettings :: rpc where
  "slls_openPathToNodeSettings = \<lparr>rpc_method = ''sonarlint/openPathToNodeSettings'', rpc_params = TJsonNull,
     rpc_result = TJsonNull\<rparr>"

definition slls_showRuleDescription :: rpc where
  "slls_showRuleDescription = \<lparr>rpc_method = ''sonarlint/showRuleDescription'', rpc_params = ShowRuleDescriptionParams_t,
     rpc_result = TJsonNull\<rparr>"

definition slls_getJavaConfig :: rpc where
  "slls_getJavaConfig = \<lparr>rpc_method = ''sonarlint/getJavaConfig'', rpc_params = TString,
     rpc_result = GetJavaConfigResponse_t\<rparr>"

definition slls_setTraceNotification :: rpc_notify where
  "slls_setTraceNotification = \<lparr>notify_method = ''$/setTraceNotification'', notify_params = SetTraceNotificationParams_t\<rparr>"

text \<open>\<^verbatim>\<open>include/LibLsp/lsp/general/exit.h\<close>\<close>

definition Notify_Exit :: rpc_notify where
  "Notify_Exit = \<lparr>notify_method = ''exit'', notify_params = TOptional TJsonNull\<rparr>"

text \<open>\<^verbatim>\<open>include/LibLsp/lsp/general/initialize.h\<close>\<close>

definition td_initialize :: rpc where
  "td_initialize = \<lparr>rpc_method = ''initialize'', rpc_params = lsInitializeParams_t,
     rpc_result = InitializeResult_t\<rparr>"

text \<open>\<^verbatim>\<open>include/LibLsp/lsp/general/initialized.h\<close>\<close>

definition Notify_InitializedNotification :: rpc_notify where
  "Notify_InitializedNotification = \<lparr>notify_method = ''initialized'', notify_params = TJsonNull\<rparr>"

text \<open>\<^verbatim>\<open>include/LibLsp/lsp/general/progress.h\<close>\<close>

definition Notify_Progress :: rpc_notify where
  "Notify_Progress = \<lparr>notify_method = ''$/progress'', notify_params = ProgressParams_t\<rparr>"

text \<open>\<^verbatim>\<open>include/LibLsp/lsp/general/shutdown.h\<close>\<close>

definition td_shutdown :: rpc where
  "td_shutdown = \<lparr>rpc_method = ''shutdown'', rpc_params = TOptional TJsonNull,
     rpc_result = TOptional TAny\<rparr>"

text \<open>\<^verbatim>\<open>include/LibLsp/lsp/language/language.h\<close>\<close>

definition lang_status :: rpc_notify where
  "lang_status = \<lparr>notify_method = ''language/status'', notify_params = StatusReport_t\<rparr>"

definition lang_actionableNotification :: rpc_notify where
  "lang_actionableNotification = \<lparr>notify_method = ''language/actionableNotification'', notify_params = ActionableNotification_t\<rparr>"

definition lang_progressReport :: rpc_notify where
  "lang_progressReport = \<lparr>notify_method = ''language/progressReport'', notify_params = ProgressReport_t\<rparr>"

definition lang_eventNotification :: rpc_notify where
  "lang_eventNotification = \<lparr>notify_method = ''language/eventNotification'', notify_params = EventNotification_t\<rparr>"

text \<open>\<^verbatim>\<open>include/LibLsp/lsp/protocol_3_18.h\<close>\<close>

definition workspace_textDocumentContent :: rpc where
  "workspace_textDocumentContent = \<lparr>rpc_method = ''workspace/textDocumentContent'', rpc_params = TextDocumentContentParams_t,
     rpc_result = TextDocumentContentResult_t\<rparr>"

definition workspace_textDocumentContent_refresh :: rpc where
  "workspace_textDocumentContent_refresh = \<lparr>rpc_method = ''workspace/textDocumentContent/refresh'', rpc_params = TJsonNull,
     rpc_result = TJsonNull\<rparr>"

definition td_diagnostic :: rpc where
  "td_diagnostic = \<lparr>rpc_method = ''textDocument/diagnostic'', rpc_params = DocumentDiagnosticParams_t,
     rpc_result = FullDocumentDiagnosticReport_t\<rparr>"

definition workspace_diagnostic :: rpc where
  "workspace_diagnostic = \<lparr>rpc_method = ''workspace/diagnostic'', rpc_params = WorkspaceDiagnosticParams_t,
     rpc_result = WorkspaceDiagnosticReport_t\<rparr>"

definition td_inlineValue :: rpc where
  "td_inlineValue = \<lparr>rpc_method = ''textDocument/inlineValue'', rpc_params = InlineValueParams_t,
     rpc_result = TVector InlineValue_t\<rparr>"

definition workspace_inlineValue_refresh :: rpc where
  "workspace_inlineValue_refresh = \<lparr>rpc_method = ''workspace/inlineValue/refresh'', rpc_params = TJsonNull,
     rpc_result = TJsonNull\<rparr>"

definition td_inlineCompletion :: rpc where
  "td_inlineCompletion = \<lparr>rpc_method = ''textDocument/inlineCompletion'', rpc_params = InlineCompletionParams_t,
     rpc_result = TOptional InlineCompletionList_t\<rparr>"

definition td_rangesFormatting :: rpc where
  "td_rangesFormatting = \<lparr>rpc_method = ''textDocument/rangesFormatting'', rpc_params = DocumentRangesFormattingParams_t,
     rpc_result = TVector lsTextEdit_t\<rparr>"

definition workspace_foldingRange_refresh :: rpc where
  "workspace_foldingRange_refresh = \<lparr>rpc_method = ''workspace/foldingRange/refresh'', rpc_params = TJsonNull,
     rpc_result = TJsonNull\<rparr>"

definition workspace_semanticTokens_refresh :: rpc where
  "workspace_semanticTokens_refresh = \<lparr>rpc_method = ''workspace/semanticTokens/refresh'', rpc_params = TJsonNull,
     rpc_result = TJsonNull\<rparr>"

definition workspace_inlayHint_refresh :: rpc where
  "workspace_inlayHint_refresh = \<lparr>rpc_method = ''workspace/inlayHint/refresh'', rpc_params = TJsonNull,
     rpc_result = TJsonNull\<rparr>"

definition workspace_diagnostic_refresh :: rpc where
  "workspace_diagnostic_refresh = \<lparr>rpc_method = ''workspace/diagnostic/refresh'', rpc_params = TJsonNull,
     rpc_result = TJsonNull\<rparr>"

definition codeAction_resolve :: rpc where
  "codeAction_resolve = \<lparr>rpc_method = ''codeAction/resolve'', rpc_params = CodeAction_t,
     rpc_result = CodeAction_t\<rparr>"

definition workspaceSymbol_resolve :: rpc where
  "workspaceSymbol_resolve = \<lparr>rpc_method = ''workspaceSymbol/resolve'', rpc_params = lsSymbolInformation_t,
     rpc_result = lsSymbolInformation_t\<rparr>"

text \<open>\<^verbatim>\<open>include/LibLsp/lsp/textDocument/SemanticTokens.h\<close>\<close>

definition td_semanticTokens_full :: rpc where
  "td_semanticTokens_full = \<lparr>rpc_method = ''textDocument/semanticTokens/full'', rpc_params = SemanticTokensParams_t,
     rpc_result = TOptional SemanticTokens_t\<rparr>"

definition td_semanticTokens_full_delta :: rpc where
  "td_semanticTokens_full_delta = \<lparr>rpc_method = ''textDocument/semanticTokens/full/delta'', rpc_params = SemanticTokensDeltaParams_t,
     rpc_result = TOptional SemanticTokensOrDelta_t\<rparr>"

text \<open>\<^verbatim>\<open>include/LibLsp/lsp/textDocument/callHierarchy.h\<close>\<close>

definition td_prepareCallHierarchy :: rpc where
  "td_prepareCallHierarchy = \<lparr>rpc_method = ''textDocument/prepareCallHierarchy'', rpc_params = CallHierarchyPrepareParams_t,
     rpc_result = TOptional (TVector CallHierarchyItem_t)\<rparr>"

definition td_incomingCalls :: rpc where
  "td_incomingCalls = \<lparr>rpc_method = ''callHierarchy/incomingCalls'', rpc_params = CallHierarchyIncomingCallsParams_t,
     rpc_result = TOptional (TVector CallHierarchyIncomingCall_t)\<rparr>"

definition td_outgoingCalls :: rpc where
  "td_outgoingCalls = \<lparr>rpc_method = ''callHierarchy/CallHierarchyOutgoingCall'', rpc_params = CallHierarchyOutgoingCallsParams_t,
     rpc_result = TOptional (TVector CallHierarchyOutgoingCall_t)\<rparr>"

text \<open>\<^verbatim>\<open>include/LibLsp/lsp/textDocument/code_action.h\<close>\<close>

definition td_codeAction :: rpc where
  "td_codeAction = \<lparr>rpc_method = ''textDocument/codeAction'', rpc_params = lsCodeActionParams_t,
     rpc_result = TVector (lsCommand_t (TVector TAny))\<rparr>"

text \<open>\<^verbatim>\<open>include/LibLsp/lsp/textDocument/code_lens.h\<close>\<close>

definition td_codeLens :: rpc where
  "td_codeLens = \<lparr>rpc_method = ''textDocument/codeLens'', rpc_params = lsDocumentCodeLensParams_t,
     rpc_result = TVector lsCodeLens_t\<rparr>"

text \<open>\<^verbatim>\<open>include/LibLsp/lsp/textDocument/colorPresentation.h\<close>\<close>

definition td_colorPresentation :: rpc where
  "td_colorPresentation = \<lparr>rpc_method = ''textDocument/colorPresentation'', rpc_params = ColorPresentationParams_t,
     rpc_result = TVector ColorPresentation_t\<rparr>"

text \<open>\<^verbatim>\<open>include/LibLsp/lsp/textDocument/completion.h\<close>\<close>

definition td_completion :: rpc where
  "td_completion = \<lparr>rpc_method = ''textDocument/completion'', rpc_params = lsCompletionParams_t,
     rpc_result = CompletionList_t\<rparr>"

text \<open>\<^verbatim>\<open>include/LibLsp/lsp/textDocument/declaration_definition.h\<close>\<close>

definition td_declaration :: rpc where
  "td_declaration = \<lparr>rpc_method = ''textDocument/declaration'', rpc_params = lsTextDocumentPositionParams_t,
     rpc_result = TLocations lsLocation_t LocationLink_t\<rparr>"

definition td_definition :: rpc where
  "td_definition = \<lparr>rpc_method = ''textDocument/definition'', rpc_params = lsTextDocumentPositionParams_t,
     rpc_result = TLocations lsLocation_t LocationLink_t\<rparr>"

text \<open>\<^verbatim>\<open>include/LibLsp/lsp/textDocument/didRenameFiles.h\<close>\<close>

definition td_didRenameFiles :: rpc where
  "td_didRenameFiles = \<lparr>rpc_method = ''java/didRenameFiles'', rpc_params = FileRenameParams_t,
     rpc_result = TOptional lsWorkspaceEdit_t\<rparr>"

definition td_willRenameFiles :: rpc where
  "td_willRenameFiles = \<lparr>rpc_method = ''java/willRenameFiles'', rpc_params = FileRenameParams_t,
     rpc_result = TOptional lsWorkspaceEdit_t\<rparr>"

text \<open>\<^verbatim>\<open>include/LibLsp/lsp/textDocument/did_change.h\<close>\<close>

definition Notify_TextDocumentDidChange :: rpc_notify where
  "Notify_TextDocumentDidChange = \<lparr>notify_method = ''textDocument/didChange'', notify_params = lsTextDocumentDidChangeParams_t\<rparr>"

text \<open>\<^verbatim>\<open>include/LibLsp/lsp/textDocument/did_close.h\<close>\<close>

definition Notify_TextDocumentDidClose :: rpc_notify where
  "Notify_TextDocumentDidClose = \<lparr>notify_method = ''textDocument/didClose'', notify_params = TextDocumentDidClose_Params_t\<rparr>"

text \<open>\<^verbatim>\<open>include/LibLsp/lsp/textDocument/did_open.h\<close>\<close>

definition Notify_TextDocumentDidOpen :: rpc_notify where
  "Notify_TextDocumentDidOpen = \<lparr>notify_method = ''textDocument/didOpen'', notify_params = TextDocumentDidOpen_Params_t\<rparr>"

text \<open>\<^verbatim>\<open>include/LibLsp/lsp/textDocument/did_save.h\<close>\<close>

definition Notify_TextDocumentDidSave :: rpc_notify where
  "Notify_TextDocumentDidSave = \<lparr>notify_method = ''textDocument/didSave'', notify_params = TextDocumentDidSave_Params_t\<rparr>"

text \<open>\<^verbatim>\<open>include/LibLsp/lsp/textDocument/documentColor.h\<close>\<close>

definition td_documentColor :: rpc where
  "td_documentColor = \<lparr>rpc_method = ''textDocument/documentColor'', rpc_params = DocumentColorParams_t,
     rpc_result = TVector ColorInformation_t\<rparr>"

text \<open>\<^verbatim>\<open>include/LibLsp/lsp/textDocument/document_link.h\<close>\<close>

definition td_links :: rpc where
  "td_links = \<lparr>rpc_method = ''textDocument/documentLink'', rpc_params = TextDocumentDocumentLink_Params_t,
     rpc_result = TVector lsDocumentLink_t\<rparr>"

definition td_linkResolve :: rpc where
  "td_linkResolve = \<lparr>rpc_method = ''documentLink/resolve'', rpc_params = lsDocumentLink_t,
     rpc_result = lsDocumentLink_t\<rparr>"

text \<open>\<^verbatim>\<open>include/LibLsp/lsp/textDocument/document_symbol.h\<close>\<close>

definition td_symbol :: rpc where
  "td_symbol = \<lparr>rpc_method = ''textDocument/documentSymbol'', rpc_params = lsDocumentSymbolParams_t,
     rpc_result = TVector (TRef ''lsDocumentSymbol'')\<rparr>"

text \<open>\<^verbatim>\<open>include/LibLsp/lsp/textDocument/foldingRange.h\<close>\<close>

definition td_foldingRange :: rpc where
  "td_foldingRange = \<lparr>rpc_method = ''textDocument/foldingRange'', rpc_params = FoldingRangeRequestParams_t,
     rpc_result = TVector FoldingRange_t\<rparr>"

text \<open>\<^verbatim>\<open>include/LibLsp/lsp/textDocument/formatting.h\<close>\<close>

definition td_formatting :: rpc where
  "td_formatting = \<lparr>rpc_method = ''textDocument/formatting'', rpc_params = TextDocumentFormatting_Params_t,
     rpc_result = TVector lsTextEdit_t\<rparr>"

text \<open>\<^verbatim>\<open>include/LibLsp/lsp/textDocument/highlight.h\<close>\<close>

definition td_highlight :: rpc where
  "td_highlight = \<lparr>rpc_method = ''textDocument/documentHighlight'', rpc_params = lsTextDocumentPositionParams_t,
     rpc_result = TVector lsDocumentHighlight_t\<rparr>"

text \<open>\<^verbatim>\<open>include/LibLsp/lsp/textDocument/hover.h\<close>\<close>

definition td_hover :: rpc where
  "td_hover = \<lparr>rpc_method = ''textDocument/hover'', rpc_params = lsTextDocumentPositionParams_t,
     rpc_result = TextDocumentHover_Result_t\<rparr>"

text \<open>\<^verbatim>\<open>include/LibLsp/lsp/textDocument/implementation.h\<close>\<close>

definition td_implementation :: rpc where
  "td_implementation = \<lparr>rpc_method = ''textDocument/implementation'', rpc_params = lsTextDocumentPositionParams_t,
     rpc_result = TLocations lsLocation_t LocationLink_t\<rparr>"

text \<open>\<^verbatim>\<open>include/LibLsp/lsp/textDocument/inlayHint.h\<close>\<close>

definition td_inlayHint :: rpc where
  "td_inlayHint = \<lparr>rpc_method = ''textDocument/inlayHint'', rpc_params = TextDocumentInlayHint_Params_t,
     rpc_result = TVector lsInlayHint_t\<rparr>"

definition td_inlayHintResolve :: rpc where
  "td_inlayHintResolve = \<lparr>rpc_method = ''inlayHint/resolve'', rpc_params = lsInlayHint_t,
     rpc_result = lsInlayHint_t\<rparr>"

text \<open>\<^verbatim>\<open>include/LibLsp/lsp/textDocument/linkedEditingRange.h\<close>\<close>

definition td_linkedEditingRange :: rpc where
  "td_linkedEditingRange = \<lparr>rpc_method = ''textDocument/linkedEditingRange'', rpc_params = LinkedEditingRangeParams_t,
     rpc_result = TOptional (TVector LinkedEditingRanges_t)\<rparr>"

text \<open>\<^verbatim>\<open>include/LibLsp/lsp/textDocument/onTypeFormatting.h\<close>\<close>

definition td_onTypeFormatting :: rpc where
  "td_onTypeFormatting = \<lparr>rpc_method = ''textDocument/onTypeFormatting'', rpc_params = lsDocumentOnTypeFormattingParams_t,
     rpc_result = TVector lsTextEdit_t\<rparr>"

text \<open>\<^verbatim>\<open>include/LibLsp/lsp/textDocument/prepareRename.h\<close>\<close>

definition td_prepareRename :: rpc where
  "td_prepareRename = \<lparr>rpc_method = ''textDocument/prepareRename'', rpc_params = lsTextDocumentPositionParams_t,
     rpc_result = TPair (PickUnless ''placeholder'') lsRange_t PrepareRenameResult_t\<rparr>"

text \<open>\<^verbatim>\<open>include/LibLsp/lsp/textDocument/publishDiagnostics.h\<close>\<close>

definition Notify_TextDocumentPublishDiagnostics :: rpc_notify where
  "Notify_TextDocumentPublishDiagnostics = \<lparr>notify_method = ''textDocument/publishDiagnostics'', notify_params = TextDocumentPublishDiagnostics_Params_t\<rparr>"

text \<open>\<^verbatim>\<open>include/LibLsp/lsp/textDocument/range_formatting.h\<close>\<close>

definition td_rangeFormatting :: rpc where
  "td_rangeFormatting = \<lparr>rpc_method = ''textDocument/rangeFormatting'', rpc_params = lsTextDocumentRangeFormattingParams_t,
     rpc_result = TVector lsTextEdit_t\<rparr>"

text \<open>\<^verbatim>\<open>include/LibLsp/lsp/textDocument/references.h\<close>\<close>

definition td_references :: rpc where
  "td_references = \<lparr>rpc_method = ''textDocument/references'', rpc_params = TextDocumentReferences_Params_t,
     rpc_result = TVector lsLocation_t\<rparr>"

text \<open>\<^verbatim>\<open>include/LibLsp/lsp/textDocument/rename.h\<close>\<close>

definition td_rename :: rpc where
  "td_rename = \<lparr>rpc_method = ''textDocument/rename'', rpc_params = TextDocumentRename_Params_t,
     rpc_result = lsWorkspaceEdit_t\<rparr>"

text \<open>\<^verbatim>\<open>include/LibLsp/lsp/textDocument/resolveCodeLens.h\<close>\<close>

definition codeLens_resolve :: rpc where
  "codeLens_resolve = \<lparr>rpc_method = ''codeLens/resolve'', rpc_params = lsCodeLens_t,
     rpc_result = lsCodeLens_t\<rparr>"

text \<open>\<^verbatim>\<open>include/LibLsp/lsp/textDocument/resolveCompletionItem.h\<close>\<close>

definition completionItem_resolve :: rpc where
  "completionItem_resolve = \<lparr>rpc_method = ''completionItem/resolve'', rpc_params = lsCompletionItem_t,
     rpc_result = lsCompletionItem_t\<rparr>"

text \<open>\<^verbatim>\<open>include/LibLsp/lsp/textDocument/resolveTypeHierarchy.h\<close>\<close>

definition typeHierarchy_resolve :: rpc where
  "typeHierarchy_resolve = \<lparr>rpc_method = ''typeHierarchy/resolve'', rpc_params = ResolveTypeHierarchyItemParams_t,
     rpc_result = TypeHierarchyItem_t\<rparr>"

text \<open>\<^verbatim>\<open>include/LibLsp/lsp/textDocument/selectionRange.h\<close>\<close>

definition td_selectionRange :: rpc where
  "td_selectionRange = \<lparr>rpc_method = ''textDocument/selectionRange'', rpc_params = SelectionRangeParams_t,
     rpc_result = TVector (TRef ''SelectionRange'')\<rparr>"

text \<open>\<^verbatim>\<open>include/LibLsp/lsp/textDocument/semanticHighlighting.h\<close>\<close>

definition Notify_semanticHighlighting :: rpc_notify where
  "Notify_semanticHighlighting = \<lparr>notify_method = ''textDocument/semanticHighlighting'', notify_params = SemanticHighlightingParams_t\<rparr>"

text \<open>\<^verbatim>\<open>include/LibLsp/lsp/textDocument/signature_help.h\<close>\<close>

definition td_signatureHelp :: rpc where
  "td_signatureHelp = \<lparr>rpc_method = ''textDocument/signatureHelp'', rpc_params = lsTextDocumentPositionParams_t,
     rpc_result = lsSignatureHelp_t\<rparr>"

text \<open>\<^verbatim>\<open>include/LibLsp/lsp/textDocument/typeHierarchy.h\<close>\<close>

definition td_typeHierarchy :: rpc where
  "td_typeHierarchy = \<lparr>rpc_method = ''textDocument/typeHierarchy'', rpc_params = TypeHierarchyParams_t,
     rpc_result = TypeHierarchyItem_t\<rparr>"

text \<open>\<^verbatim>\<open>include/LibLsp/lsp/textDocument/type_definition.h\<close>\<close>

definition td_typeDefinition :: rpc where
  "td_typeDefinition = \<lparr>rpc_method = ''textDocument/typeDefinition'', rpc_params = lsTextDocumentPositionParams_t,
     rpc_result = TLocations lsLocation_t LocationLink_t\<rparr>"

text \<open>\<^verbatim>\<open>include/LibLsp/lsp/textDocument/willSave.h\<close>\<close>

definition td_willSave :: rpc_notify where
  "td_willSave = \<lparr>notify_method = ''textDocument/willSave'', notify_params = WillSaveTextDocumentParams_Params_t\<rparr>"

definition td_willSaveWaitUntil :: rpc where
  "td_willSaveWaitUntil = \<lparr>rpc_method = ''textDocument/willSaveWaitUntil'', rpc_params = WillSaveTextDocumentParams_Params_t,
     rpc_result = TVector lsTextEdit_t\<rparr>"

text \<open>\<^verbatim>\<open>include/LibLsp/lsp/windows/MessageNotify.h\<close>\<close>

definition Notify_LogMessage :: rpc_notify where
  "Notify_LogMessage = \<lparr>notify_method = ''window/logMessage'', notify_params = MessageParams_t\<rparr>"

definition Notify_ShowMessage :: rpc_notify where
  "Notify_ShowMessage = \<lparr>notify_method = ''window/showMessage'', notify_params = MessageParams_t\<rparr>"

definition WindowShowMessage :: rpc where
  "WindowShowMessage = \<lparr>rpc_method = ''window/showMessage'', rpc_params = ShowMessageRequestParams_t,
     rpc_result = MessageActionItem_t\<rparr>"

text \<open>\<^verbatim>\<open>include/LibLsp/lsp/workspace/applyEdit.h\<close>\<close>

definition WorkspaceApply :: rpc where
  "WorkspaceApply = \<lparr>rpc_method = ''workspace/applyEdit'', rpc_params = ApplyWorkspaceEditParams_t,
     rpc_result = ApplyWorkspaceEditResponse_t\<rparr>"

text \<open>\<^verbatim>\<open>include/LibLsp/lsp/workspace/configuration.h\<close>\<close>

definition WorkspaceConfiguration :: rpc where
  "WorkspaceConfiguration = \<lparr>rpc_method = ''workspace/configuration'', rpc_params = ConfigurationParams_t,
     rpc_result = TVector TAny\<rparr>"

text \<open>\<^verbatim>\<open>include/LibLsp/lsp/workspace/didChangeWorkspaceFolders.h\<close>\<close>

definition Notify_WorkspaceDidChangeWorkspaceFolders :: rpc_notify where
  "Notify_WorkspaceDidChangeWorkspaceFolders = \<lparr>notify_method = ''workspace/didChangeWorkspaceFolders'', notify_params = DidChangeWorkspaceFoldersParams_t\<rparr>"

text \<open>\<^verbatim>\<open>include/LibLsp/lsp/workspace/did_change_configuration.h\<close>\<close>

definition Notify_WorkspaceDidChangeConfiguration :: rpc_notify where
  "Notify_WorkspaceDidChangeConfiguration = \<lparr>notify_method = ''workspace/didChangeConfiguration'', notify_params = lsDidChangeConfigurationParams_t\<rparr>"

text \<open>\<^verbatim>\<open>include/LibLsp/lsp/workspace/did_change_watched_files.h\<close>\<close>

definition Notify_WorkspaceDidChangeWatchedFiles :: rpc_notify where
  "Notify_WorkspaceDidChangeWatchedFiles = \<lparr>notify_method = ''workspace/didChangeWatchedFiles'', notify_params = lsDidChangeWatchedFilesParams_t\<rparr>"

text \<open>\<^verbatim>\<open>include/LibLsp/lsp/workspace/execute_command.h\<close>\<close>

definition wp_executeCommand :: rpc where
  "wp_executeCommand = \<lparr>rpc_method = ''workspace/executeCommand'', rpc_params = ExecuteCommandParams_t,
     rpc_result = TAny\<rparr>"

definition Notify_sendNotification :: rpc_notify where
  "Notify_sendNotification = \<lparr>notify_method = ''workspace/notify'', notify_params = ExecuteCommandParams_t\<rparr>"

text \<open>\<^verbatim>\<open>include/LibLsp/lsp/workspace/symbol.h\<close>\<close>

definition wp_symbol :: rpc where
  "wp_symbol = \<lparr>rpc_method = ''workspace/symbol'', rpc_params = WorkspaceSymbolParams_t,
     rpc_result = TVector lsSymbolInformation_t\<rparr>"

text \<open>\<^verbatim>\<open>include/LibLsp/lsp/workspace/workspaceFolders.h\<close>\<close>

definition WorkspaceFolders :: rpc where
  "WorkspaceFolders = \<lparr>rpc_method = ''workspace/workspaceFolders'', rpc_params = TOptional TJsonNull,
     rpc_result = TNullable (TVector WorkspaceFolder_t)\<rparr>"

lemmas message_defs =
  Req_ClientRegisterCapability_def
  Req_ClientUnregisterCapability_def
  java_move_def
  java_addOverridableMethods_def
  java_buildWorkspace_def
  java_checkConstructorsStatus_def
  java_checkDelegateMethodsStatus_def
  java_checkHashCodeEqualsStatus_def
  java_checkToStringStatus_def
  java_classFileContents_def
  java_executeCommand_def
  java_findLinks_def
  java_generateAccessors_def
  java_generateConstructors_def
  java_generateDelegateMethods_def
  java_generateHashCodeEquals_def
  java_generateToString_def
  java_getMoveDestinations_def
  java_getRefactorEdit_def
  java_listOverridableMethods_def
  java_organizeImports_def
  java_resolveUnimplementedAccessors_def
  java_searchSymbols_def
  slls_listAllRules_def
  slls_showSonarLintOutput_def
  slls_openJavaHomeSettings_def
  slls_openPathToNodeSettings_def
  slls_showRuleDescription_def
  slls_getJavaConfig_def
  td_initialize_def
  td_shutdown_def
  workspace_textDocumentContent_def
  workspace_textDocumentContent_refresh_def
  td_diagnostic_def
  workspace_diagnostic_def
  td_inlineValue_def
  workspace_inlineValue_refresh_def
  td_inlineCompletion_def
  td_rangesFormatting_def
  workspace_foldingRange_refresh_def
  workspace_semanticTokens_refresh_def
  workspace_inlayHint_refresh_def
  workspace_diagnostic_refresh_def
  codeAction_resolve_def
  workspaceSymbol_resolve_def
  td_semanticTokens_full_def
  td_semanticTokens_full_delta_def
  td_prepareCallHierarchy_def
  td_incomingCalls_def
  td_outgoingCalls_def
  td_codeAction_def
  td_codeLens_def
  td_colorPresentation_def
  td_completion_def
  td_declaration_def
  td_definition_def
  td_didRenameFiles_def
  td_willRenameFiles_def
  td_documentColor_def
  td_links_def
  td_linkResolve_def
  td_symbol_def
  td_foldingRange_def
  td_formatting_def
  td_highlight_def
  td_hover_def
  td_implementation_def
  td_inlayHint_def
  td_inlayHintResolve_def
  td_linkedEditingRange_def
  td_onTypeFormatting_def
  td_prepareRename_def
  td_rangeFormatting_def
  td_references_def
  td_rename_def
  codeLens_resolve_def
  completionItem_resolve_def
  typeHierarchy_resolve_def
  td_selectionRange_def
  td_signatureHelp_def
  td_typeHierarchy_def
  td_typeDefinition_def
  td_willSaveWaitUntil_def
  WindowShowMessage_def
  WorkspaceApply_def
  WorkspaceConfiguration_def
  wp_executeCommand_def
  wp_symbol_def
  WorkspaceFolders_def
  Notify_Cancellation_def
  java_projectConfigurationUpdate_def
  Notify_didClasspathUpdate_def
  Notify_didJavaServerModeChange_def
  slls_setTraceNotification_def
  Notify_Exit_def
  Notify_InitializedNotification_def
  Notify_Progress_def
  lang_status_def
  lang_actionableNotification_def
  lang_progressReport_def
  lang_eventNotification_def
  Notify_TextDocumentDidChange_def
  Notify_TextDocumentDidClose_def
  Notify_TextDocumentDidOpen_def
  Notify_TextDocumentDidSave_def
  Notify_TextDocumentPublishDiagnostics_def
  Notify_semanticHighlighting_def
  td_willSave_def
  Notify_LogMessage_def
  Notify_ShowMessage_def
  Notify_WorkspaceDidChangeWorkspaceFolders_def
  Notify_WorkspaceDidChangeConfiguration_def
  Notify_WorkspaceDidChangeWatchedFiles_def
  Notify_sendNotification_def

end
