(* ===== verification/Json_Typing.thy ===== *)
theory Json_Typing
  imports Json_Reflect
begin

text \<open>
  The typing of the values that reflection reads and writes, and type soundness of the readers: what
  the reader of a type assigns to a variable of that type is a value of that type, whatever the JSON
  value is.
\<close>

section \<open>Values of a type\<close>

definition int_range :: "ikind \<Rightarrow> int \<Rightarrow> bool" where
  "int_range k n =
     (case k of
        Uint8 \<Rightarrow> 0 \<le> n \<and> n < 2 ^ 8
      | Short \<Rightarrow> - (2 ^ 15) \<le> n \<and> n < 2 ^ 15
      | UnsignedShort \<Rightarrow> 0 \<le> n \<and> n < 2 ^ 16
      | CInt \<Rightarrow> - (2 ^ 31) \<le> n \<and> n < 2 ^ 31
      | Unsigned \<Rightarrow> 0 \<le> n \<and> n < 2 ^ 32
      | Long \<Rightarrow> - (2 ^ 63) \<le> n \<and> n < 2 ^ 63
      | UnsignedLong \<Rightarrow> 0 \<le> n \<and> n < 2 ^ 64
      | LongLong \<Rightarrow> - (2 ^ 63) \<le> n \<and> n < 2 ^ 63
      | UnsignedLongLong \<Rightarrow> 0 \<le> n \<and> n < 2 ^ 64)"

text \<open>
  The typing of values: what a variable of the type may hold, indeterminate scalars included.  The
  value decreases, so a struct that contains itself is no problem.
\<close>

fun opt_type :: "(val \<Rightarrow> bool) \<Rightarrow> val \<Rightarrow> bool" where
  "opt_type P VNone = True"
| "opt_type P (VSome v) = P v"
| "opt_type P v = False"

lemma opt_type_cong [fundef_cong]:
  "v = w \<Longrightarrow> (\<And>x. w = VSome x \<Longrightarrow> P x = Q x) \<Longrightarrow> opt_type P v = opt_type Q w"
  by (cases w) auto

function (sequential) has_type :: "tenv \<Rightarrow> ty \<Rightarrow> val \<Rightarrow> bool" where
  "has_type E (TInt k) v = (case v of VInt n \<Rightarrow> int_range k n | VIndet \<Rightarrow> True | _ \<Rightarrow> False)"
| "has_type E TBool v = (case v of VBool b \<Rightarrow> True | VIndet \<Rightarrow> True | _ \<Rightarrow> False)"
| "has_type E TDouble v = (case v of VDouble d \<Rightarrow> True | VIndet \<Rightarrow> True | _ \<Rightarrow> False)"
| "has_type E TString v = (case v of VString s \<Rightarrow> True | _ \<Rightarrow> False)"
| "has_type E TJsonNull v = (v = VUnit)"
| "has_type E TAny v = (case v of VAny k d \<Rightarrow> True | _ \<Rightarrow> False)"
| "has_type E TRequestId v = (case v of VId i \<Rightarrow> True | _ \<Rightarrow> False)"
| "has_type E (TOptional t) v = opt_type (\<lambda>v'. has_type E t v') v"
| "has_type E (TNullable t) v = opt_type (\<lambda>v'. has_type E t v') v"
| "has_type E (TVector t) v = (case v of VList vs \<Rightarrow> list_all (\<lambda>v'. has_type E t v') vs | _ \<Rightarrow> False)"
| "has_type E (TMap t) v =
     (case v of VMap kvs \<Rightarrow> map_ok kvs \<and> list_all (\<lambda>p. has_type E t (snd p)) kvs | _ \<Rightarrow> False)"
| "has_type E (TPair c t1 t2) v =
     (case v of
        VPair a b \<Rightarrow> opt_type (\<lambda>v'. has_type E t1 v') a \<and> opt_type (\<lambda>v'. has_type E t2 v') b
      | _ \<Rightarrow> False)"
| "has_type E (TLocations t1 t2) v =
     (case v of
        VPair a b \<Rightarrow>
          opt_type (\<lambda>v'. has_type E (TVector t1) v') a \<and> opt_type (\<lambda>v'. has_type E (TVector t2) v') b
      | _ \<Rightarrow> False)"
| "has_type E (THover t1 t2) v =
     (case v of
        VPair a b \<Rightarrow> opt_type (\<lambda>v'. has_type E (TVector t1) v') a \<and> opt_type (\<lambda>v'. has_type E t2 v') b
      | _ \<Rightarrow> False)"
| "has_type E (TStruct ms) v =
     (case v of VStruct vs \<Rightarrow> list_all2 (\<lambda>m v'. has_type E (member_type m) v') ms vs | _ \<Rightarrow> False)"
| "has_type E (TRef s) v =
     (case v of VStruct vs \<Rightarrow> list_all2 (\<lambda>m v'. has_type E (member_type m) v') (E s) vs | _ \<Rightarrow> False)"
| "has_type E (TTuple ts) v =
     (case v of VStruct vs \<Rightarrow> list_all2 (\<lambda>t v'. has_type E t v') ts vs | _ \<Rightarrow> False)"
| "has_type E (TNames d rt wt) v = (case v of VInt n \<Rightarrow> True | VIndet \<Rightarrow> True | _ \<Rightarrow> False)"
| "has_type E TKeyData v =
     (case v of VStruct [a, b, c] \<Rightarrow>
        opt_type (\<lambda>x. case x of VBool y \<Rightarrow> True | _ \<Rightarrow> False) a
        \<and> opt_type (\<lambda>x. case x of VInt y \<Rightarrow> int_range CInt y | _ \<Rightarrow> False) b
        \<and> opt_type (\<lambda>x. case x of VString y \<Rightarrow> True | _ \<Rightarrow> False) c
      | _ \<Rightarrow> False)"
| "has_type E TMarkedString v =
     (case v of VStruct vs \<Rightarrow> list_all2 (\<lambda>m v'. has_type E (member_type m) v') marked_members vs | _ \<Rightarrow> False)"
  by pat_completeness auto
termination
  by (relation "measures [\<lambda>(E, t, v). size v, \<lambda>(E, t, v). rank t]")
     (auto dest: size_elem size_entry)

lemma has_type_iff:
  "has_type E (TOptional t) v \<longleftrightarrow> v = VNone \<or> (\<exists>x. v = VSome x \<and> has_type E t x)"
  "has_type E (TNullable t) v \<longleftrightarrow> v = VNone \<or> (\<exists>x. v = VSome x \<and> has_type E t x)"
  "has_type E (TVector t) v \<longleftrightarrow> (\<exists>vs. v = VList vs \<and> (\<forall>x\<in>set vs. has_type E t x))"
  "has_type E (TMap t) v \<longleftrightarrow> (\<exists>kvs. v = VMap kvs \<and> map_ok kvs \<and> (\<forall>p\<in>set kvs. has_type E t (snd p)))"
  "has_type E (TPair c t1 t2) v \<longleftrightarrow>
     (\<exists>a b. v = VPair a b \<and> has_type E (TOptional t1) a \<and> has_type E (TOptional t2) b)"
  "has_type E (TLocations t1 t2) v \<longleftrightarrow>
     (\<exists>a b. v = VPair a b \<and> has_type E (TOptional (TVector t1)) a \<and> has_type E (TOptional (TVector t2)) b)"
  "has_type E (THover t1 t2) v \<longleftrightarrow>
     (\<exists>a b. v = VPair a b \<and> has_type E (TOptional (TVector t1)) a \<and> has_type E (TOptional t2) b)"
  "has_type E (TStruct ms) v \<longleftrightarrow> (\<exists>vs. v = VStruct vs \<and> list_all2 (\<lambda>m. has_type E (member_type m)) ms vs)"
  "has_type E (TRef s) v \<longleftrightarrow> (\<exists>vs. v = VStruct vs \<and> list_all2 (\<lambda>m. has_type E (member_type m)) (E s) vs)"
  "has_type E TMarkedString v \<longleftrightarrow> (\<exists>vs. v = VStruct vs \<and> list_all2 (\<lambda>m. has_type E (member_type m)) marked_members vs)"
  "has_type E (TTuple ts) v \<longleftrightarrow> (\<exists>vs. v = VStruct vs \<and> list_all2 (has_type E) ts vs)"
  "has_type E TKeyData v \<longleftrightarrow>
     (\<exists>a b c. v = VStruct [a, b, c] \<and> has_type E (TOptional TBool) a \<and> a \<noteq> VSome VIndet
        \<and> has_type E (TOptional (TInt CInt)) b \<and> b \<noteq> VSome VIndet \<and> has_type E (TOptional TString) c)"
  by (cases v; auto simp: list_all_iff elim!: opt_type.elims split: list.splits val.splits)+

lemmas [simp del] = has_type.simps

lemmas has_type_scalar = has_type.simps(1-7,18)

text \<open>
  The initializers of a type's members have the members' types, and no struct contains itself by
  value.
\<close>

fun inits_ok :: "tenv \<Rightarrow> ty \<Rightarrow> bool" where
  "inits_ok E (TOptional t) = inits_ok E t"
| "inits_ok E (TNullable t) = inits_ok E t"
| "inits_ok E (TVector t) = inits_ok E t"
| "inits_ok E (TMap t) = inits_ok E t"
| "inits_ok E (TPair c t1 t2) = (inits_ok E t1 \<and> inits_ok E t2)"
| "inits_ok E (TLocations t1 t2) = (inits_ok E t1 \<and> inits_ok E t2)"
| "inits_ok E (THover t1 t2) =
     (inits_ok E t1 \<and> inits_ok E t2 \<and> (case t1 of TPair c TString t' \<Rightarrow> True | _ \<Rightarrow> False))"
| "inits_ok E (TStruct ms) =
     list_all (\<lambda>(n, t, i). inits_ok E t \<and> has_type E t (case i of Some v \<Rightarrow> v | None \<Rightarrow> fresh0 t)) ms"
| "inits_ok E (TTuple ts) = list_all (\<lambda>t. inits_ok E t \<and> has_type E t (fresh0 t)) ts"
| "inits_ok E t = True"

definition env_ok :: "tenv \<Rightarrow> bool" where
  "env_ok E \<longleftrightarrow> (\<forall>s. inits_ok E (TStruct (E s)))"

lemma inits_ok_struct:
  "inits_ok E (TStruct ms) \<longleftrightarrow> (\<forall>m\<in>set ms. inits_ok E (member_type m) \<and> has_type E (member_type m) (fresh_member m))"
  by (auto simp: list_all_iff member_type_def fresh_member_def)

lemma fresh0_struct: "fresh0 (TStruct ms) = VStruct (map fresh_member ms)"
  by (auto simp: fresh_member_def)

lemma list_all2_members: "list_all2 (\<lambda>m v. P m v) ms (map f ms) \<longleftrightarrow> (\<forall>m\<in>set ms. P m (f m))"
  by (simp add: list_all2_conv_all_nth all_set_conv_all_nth)

lemma has_type_fresh:
  assumes "env_ok E" "inits_ok E t"
  shows "has_type E t (fresh E t)"
proof (cases t)
  case (TStruct ms)
  with assms show ?thesis
    by (simp add: fresh_def fresh0_struct inits_ok_struct list_all2_members has_type_iff del: inits_ok.simps fresh0.simps)
next
  case (TRef s)
  with assms show ?thesis
    by (simp add: fresh_def env_ok_def inits_ok_struct list_all2_members has_type_iff del: inits_ok.simps)
next
  case (TTuple ts)
  with assms show ?thesis by (simp add: fresh_def list_all2_members list_all_iff has_type_iff)
qed (auto simp: fresh_def member_type_def marked_members_def has_type_iff has_type_scalar)

lemma rd_fold_inv:
  assumes "rd_fold f xs a = Value b" "P a"
    and "\<And>x c d. x \<in> set xs \<Longrightarrow> P c \<Longrightarrow> f x c = Value d \<Longrightarrow> P d"
  shows "P b"
  using assms by (induction xs arbitrary: a) (auto simp: rd_bind_Value)

lemma IterArray_inv:
  assumes "IterArray f j a = Value b" "P a"
    and "\<And>x c d. x \<in> set (children j) \<Longrightarrow> P c \<Longrightarrow> f x c = Value d \<Longrightarrow> P d"
  shows "P b"
  using assms by (auto simp: IterArray_def children_def split: json.splits intro: rd_fold_inv [where P = P])

lemma IterMap_inv:
  assumes "IterMap f j a = Value b" "P a"
    and "\<And>n x c d. x \<in> set (children j) \<Longrightarrow> P c \<Longrightarrow> f n x c = Value d \<Longrightarrow> P d"
  shows "P b"
proof -
  obtain ms where j: "j = JObject ms" using assms(1) by (auto simp: IterMap_def split: json.splits)
  have "rd_fold (\<lambda>p. case p of (k, x) \<Rightarrow> f (c_str k) x) ms a = Value b"
    using assms(1) by (simp add: IterMap_def j)
  then show ?thesis
  proof (rule rd_fold_inv [where P = P])
    fix p c d assume p: "p \<in> set ms" "P c" "(case p of (k, x) \<Rightarrow> f (c_str k) x) c = Value d"
    then have "snd p \<in> set (children j)" by (auto simp: j children_def)
    with p assms(3) [of "snd p" c "c_str (fst p)" d] show "P d" by (simp add: split_beta)
  qed (rule assms(2))
qed

lemma DoMember_inv:
  assumes "DoMember n f j a = Value b" "P a" "\<And>x. x \<in> set (children j) \<Longrightarrow> f x a = Value b \<Longrightarrow> P b"
  shows "P b"
  using assms by (force simp: DoMember_def children_def split: json.splits option.splits dest: map_of_SomeD)

lemma rd_traverse_Value:
  "rd_traverse f xs = Value ys \<longleftrightarrow> list_all2 (\<lambda>x y. f x = Value y) xs ys"
  by (induction xs arbitrary: ys) (auto simp: rd_bind_Value rd_map_Value list_all2_Cons1)

lemma members_typed:
  assumes "rd_traverse (\<lambda>m. DoMember (member_name (fst m)) (R (member_type (fst m))) j (snd m)) (zip ms cs) = Value vs"
    and "list_all2 (\<lambda>m c. T (member_type m) c) ms cs"
    and "\<And>m x c v. m \<in> set (zip ms cs) \<Longrightarrow> x \<in> set (children j) \<Longrightarrow> T (member_type (fst m)) c \<Longrightarrow>
           R (member_type (fst m)) x c = Value v \<Longrightarrow> T (member_type (fst m)) v"
  shows "list_all2 (\<lambda>m v. T (member_type m) v) ms vs"
proof -
  have "length (zip ms cs) = length vs" using assms(1) by (auto simp: rd_traverse_Value dest: list_all2_lengthD)
  moreover have "length ms = length cs" using assms(2) by (rule list_all2_lengthD)
  ultimately have len: "length ms = length cs" "length vs = length ms" by auto
  have "T (member_type (ms ! i)) (vs ! i)" if i: "i < length ms" for i
  proof -
    have z: "(ms ! i, cs ! i) \<in> set (zip ms cs)" using i len by (metis in_set_zip fst_conv snd_conv)
    have "DoMember (member_name (ms ! i)) (R (member_type (ms ! i))) j (cs ! i) = Value (vs ! i)"
      using assms(1) i len by (simp add: rd_traverse_Value list_all2_conv_all_nth)
    moreover have "T (member_type (ms ! i)) (cs ! i)" using assms(2) i len by (simp add: list_all2_conv_all_nth)
    ultimately show ?thesis using assms(3) [OF z] by (auto elim: DoMember_inv)
  qed
  with len show ?thesis by (simp add: list_all2_conv_all_nth)
qed

text \<open>Reading preserves types: what the reader of a type assigns is a value of that type.\<close>

lemma narrow_range: "accepts k j \<Longrightarrow> int_range k (narrow k j)"
  by (cases k; cases j)
     (auto simp: accepts_def narrow_def int_range_def IsInt_def IsInt64_def IsUint64_def int64_def GetNumber_def GetUint32_def)

lemma has_type_first: "has_type E (TPair c t1 t2) p \<Longrightarrow> has_type E t1 v \<Longrightarrow> has_type E (TPair c t1 t2) (set_first p (VSome v))"
  by (cases p) (auto simp: set_first_def has_type_iff)

lemma has_type_second: "has_type E (TPair c t1 t2) p \<Longrightarrow> has_type E t2 v \<Longrightarrow> has_type E (TPair c t1 t2) (set_second p (VSome v))"
  by (cases p) (auto simp: set_second_def has_type_iff)

lemma locations_pair: "has_type E (TLocations t1 t2) v \<longleftrightarrow> has_type E (TPair PickTry (TVector t1) (TVector t2)) v"
  by (simp add: has_type_iff)

lemma hover_pair: "has_type E (THover t1 t2) v \<longleftrightarrow> has_type E (TPair PickTry (TVector t1) t2) v"
  by (simp add: has_type_iff)

lemma inits_ok_member: "inits_ok E (TStruct ms) \<Longrightarrow> m \<in> set (zip ms cs) \<Longrightarrow> inits_ok E (member_type (fst m))"
  by (cases m) (auto simp: inits_ok_struct dest: set_zip_leftD simp del: inits_ok.simps)

lemma struct_typed:
  assumes "rd_map VStruct (rd_traverse (\<lambda>m. DoMember (member_name (fst m)) (R (member_type (fst m))) j (snd m)) (zip ms (elems cur))) = Value v"
    and "has_type E (TStruct ms) cur" "inits_ok E (TStruct ms)"
    and "\<And>m x c w. m \<in> set (zip ms (elems cur)) \<Longrightarrow> x \<in> set (children j) \<Longrightarrow> inits_ok E (member_type (fst m)) \<Longrightarrow>
           has_type E (member_type (fst m)) c \<Longrightarrow> R (member_type (fst m)) x c = Value w \<Longrightarrow> has_type E (member_type (fst m)) w"
  shows "has_type E (TStruct ms) v"
proof -
  obtain vs where vs: "v = VStruct vs"
      "rd_traverse (\<lambda>m. DoMember (member_name (fst m)) (R (member_type (fst m))) j (snd m)) (zip ms (elems cur)) = Value vs"
    using assms(1) by (auto simp: rd_map_Value)
  have cs: "list_all2 (\<lambda>m. has_type E (member_type m)) ms (elems cur)" using assms(2) by (auto simp: has_type_iff)
  from vs(2) cs have "list_all2 (\<lambda>m. has_type E (member_type m)) ms vs"
    by (rule members_typed) (blast intro: assms(4) inits_ok_member [OF assms(3)])
  then show ?thesis by (simp add: vs has_type_iff)
qed

lemma list_all2_update_right:
  "list_all2 P xs ys \<Longrightarrow> (i < length xs \<Longrightarrow> P (xs ! i) y) \<Longrightarrow> list_all2 P xs (ys[i := y])"
  by (metis list_all2_conv_all_nth length_list_update nth_list_update_eq nth_list_update_neq)

lemma set_map_set: "p \<in> set (map_set k v m) \<Longrightarrow> p = (k, v) \<or> p \<in> set m"
  by (induction k v m rule: map_set.induct) (auto split: if_splits)

lemma Reflect_keydata_typed:
  "has_type E TKeyData cur \<Longrightarrow> Reflect_keydata j cur = Value v \<Longrightarrow> has_type E TKeyData v"
  using narrow_range [of CInt j]
  by (auto simp: has_type_iff has_type_scalar scalar_Throw rd_map_Value split: if_splits)

lemma Reflect_read_typed_lemma:
  "env_ok E \<Longrightarrow> inits_ok E t \<Longrightarrow> has_type E t cur \<Longrightarrow> Reflect_read L E t j cur = Value v \<Longrightarrow> has_type E t v"
proof (induction L E t j cur arbitrary: v rule: Reflect_read.induct)
  case (10 L E t j cur)
  note fr = has_type_fresh [OF 10(2), of t]
  from 10(5) have "IterArray (\<lambda>j' c. rd_map (\<lambda>v. VList (elems c @ [v])) (Reflect_read L E t j' (fresh E t))) j cur = Value v"
    by (simp add: Reflect_read.simps)
  then show ?case
  proof (rule IterArray_inv [where P = "has_type E (TVector t)"])
    fix x c d
    assume "x \<in> set (children j)" "has_type E (TVector t) c"
      and "rd_map (\<lambda>v. VList (elems c @ [v])) (Reflect_read L E t x (fresh E t)) = Value d"
    then show "has_type E (TVector t) d"
      using 10(1) [OF _ 10(2)] 10(3) fr by (auto simp: rd_map_Value has_type_iff)
  qed (rule 10(4))
next
  case (11 L E t j cur)
  note fr = has_type_fresh [OF 11(2), of t]
  from 11(5) have "IterMap (\<lambda>k j' c. rd_map (\<lambda>v. VMap (map_set k v (entries c))) (Reflect_read L E t j' (fresh E t))) j cur = Value v"
    by (simp add: Reflect_read.simps)
  then show ?case
  proof (rule IterMap_inv [where P = "has_type E (TMap t)"])
    fix n x c d
    assume "x \<in> set (children j)" "has_type E (TMap t) c"
      and "rd_map (\<lambda>v. VMap (map_set n v (entries c))) (Reflect_read L E t x (fresh E t)) = Value d"
    then show "has_type E (TMap t) d"
      using 11(1) [OF _ 11(2)] 11(3) fr
      by (auto simp: rd_map_Value map_ok_set has_type_iff dest!: set_map_set)
  qed (rule 11(4))
next
  case (12 L E c t1 t2 j cur)
  have i: "inits_ok E t1" "inits_ok E t2" using 12(6) by auto
  note fr = has_type_fresh [OF 12(5) i(1)] has_type_fresh [OF 12(5) i(2)]
  show ?case
  proof (cases "c = PickTry")
    case True
    with 12(8) 12(7) show ?thesis
      by (auto simp: Reflect_read.simps(12) rd_map_Value split: if_splits rd.splits
            intro!: has_type_first has_type_second 12(1,2) 12(5) i fr)
  next
    case False
    with 12(8) 12(7) show ?thesis
      by (auto simp: Reflect_read.simps(12) rd_map_Value split: if_splits
            intro!: has_type_first has_type_second 12(3,4) 12(5) i fr)
  qed
next
  case (8 L E t j cur)
  with has_type_fresh [OF 8(2), of t] show ?case
    by (auto simp: Reflect_read.simps has_type_iff rd_map_Value split: if_splits)
next
  case (9 L E t j cur)
  with has_type_fresh [OF 9(2), of t] show ?case
    by (auto simp: Reflect_read.simps has_type_iff rd_map_Value split: if_splits)
next
  case (13 L E t1 t2 j cur)
  have i: "inits_ok E (TVector t1)" "inits_ok E (TVector t2)" "has_type E (TVector t) (VList [])" for t
    using 13(11) by (auto simp: has_type_iff)
  have fr: "inits_ok E t1" "has_type E t1 (fresh E t1)" using 13(11) has_type_fresh [OF 13(10)] by auto
  show ?case
  proof (cases "IsArray j")
    case True
    then obtain js where j: "j = JArray js" by (auto simp: IsArray_def split: json.splits)
    note pair = has_type_first [OF 13(12) [unfolded locations_pair]] has_type_second [OF 13(12) [unfolded locations_pair]]
    show ?thesis
    proof (cases js)
      case Nil
      from 13(13) show ?thesis
        by (auto simp: Reflect_read.simps(13) j Nil rd_map_Value locations_pair
              intro!: pair 13(6) [OF j Nil 13(10) i(1) i(3)])
    next
      case (Cons d ds)
      note iv = 13(7) [OF j Cons _ _ 13(10) i(2) i(3)] 13(8) [OF j Cons _ _ 13(10) i(1) i(3)]
      from 13(13) show ?thesis
        by (auto simp: Reflect_read.simps(13) j Cons rd_map_Value locations_pair split: if_splits
              intro!: pair dest: iv [unfolded j Cons not_not])
    qed
  next
    case False
    with 13(13) have "\<exists>w. Reflect_read L E t1 j (fresh E t1) = Value w \<and> v = VPair (VSome (VList [w])) VNone"
      by (auto simp: Reflect_read.simps(13) rd_map_Value IsArray_def split: json.splits)
    moreover have "has_type E t1 w" if "Reflect_read L E t1 j (fresh E t1) = Value w" for w
      using that False 13(1-5,9) [OF _ 13(10) fr] by (cases j) (auto simp: IsArray_def)
    ultimately show ?thesis by (auto simp: has_type_iff)
  qed
next
  case (14 L E t1 t2 j cur)
  have i: "inits_ok E (TVector t1)" "inits_ok E t2" "has_type E (TVector t1) (VList [])"
    using 14(4) by (auto simp: has_type_iff)
  have "has_type E t1 (VPair (VSome (VString s)) VNone)" for s
    using 14(4) by (auto simp: has_type_iff has_type_scalar split: ty.splits)
  then have str: "has_type E (TVector t1) (VList [VPair (VSome (VString s)) VNone])" for s
    by (simp add: has_type_iff)
  from 14(5,6) show ?case
    by (auto simp: Reflect_read.simps(14) rd_map_Value hover_pair Reflect_string_def
          intro!: has_type_first has_type_second 14(1,2) 14(3) i str has_type_fresh split: if_splits)
next
  case (15 L E ms j cur)
  show ?case
    by (rule struct_typed [OF 15(5) [unfolded Reflect_read.simps] 15(4) 15(3)]) (rule 15(1) [OF _ _ 15(2)])
next
  case (16 L E s j cur)
  have "has_type E (TStruct (E s)) v"
  proof (rule struct_typed [OF 16(5) [unfolded Reflect_read.simps]])
    show "inits_ok E (TStruct (E s))" using 16(2) by (simp only: env_ok_def)
  qed (use 16(4) in \<open>auto simp: has_type_iff intro: 16(1) [OF _ _ 16(2)]\<close>)
  then show ?case by (simp add: has_type_iff)
next
  case (17 L E j cur)
  have "has_type E (TStruct marked_members) v"
  proof (rule struct_typed [OF 17(5) [unfolded Reflect_read.simps]])
    show "inits_ok E (TStruct marked_members)" by (simp add: marked_members_def has_type_iff has_type_scalar)
  qed (use 17(4) in \<open>auto simp: has_type_iff intro: 17(1) [OF _ _ 17(2)]\<close>)
  then show ?case by (simp add: has_type_iff)
next
  case (18 L E ts j cur)
  let ?f = "\<lambda>j' (i, c). if i < length ts then
              rd_map (\<lambda>v. (Suc i, VStruct ((elems c)[i := v]))) (Reflect_read L E (ts ! i) j' (elems c ! i))
            else Value (Suc i, c)"
  obtain n where n: "IterArray ?f j (0, cur) = Value (n, v)"
    using 18(5) by (auto simp: Reflect_read.simps(18) rd_map_Value)
  then have "(case (n, v) of (i, c) \<Rightarrow> has_type E (TTuple ts) c)"
  proof (rule IterArray_inv [where P = "\<lambda>(i, c). has_type E (TTuple ts) c"])
    fix x c d assume x: "x \<in> set (children j)" "case c of (i, c) \<Rightarrow> has_type E (TTuple ts) c" "?f x c = Value d"
    obtain i w where c: "c = (i, w)" by (cases c)
    obtain ws where ws: "w = VStruct ws" "list_all2 (has_type E) ts ws" using x(2) by (auto simp: c has_type_iff)
    have "has_type E (ts ! i) u" if "i < length ts" "Reflect_read L E (ts ! i) x (ws ! i) = Value u" for u
      using that 18(1) [OF x(1) refl _ 18(2), of i w u] 18(3) ws by (auto simp: list_all2_conv_all_nth list_all_length)
    with x(3) ws show "case d of (i, c) \<Rightarrow> has_type E (TTuple ts) c"
      by (auto simp: c rd_map_Value has_type_iff split: if_splits intro!: list_all2_update_right)
  qed (use 18(4) in simp)
  then show ?case by simp
qed (auto simp: Reflect_read.simps has_type_scalar scalar_Throw narrow_range intro: Reflect_keydata_typed
      split: if_splits option.splits)

end
