(* ===== verification/Json_Document.thy ===== *)
theory Json_Document
  imports Json_Typing
begin

text \<open>
  The specification of the writers: the JSON value that a value of a type denotes (\<open>json_of\<close>), the
  values that may be sent (\<open>sendable\<close>), and that the calls a writer makes describe exactly the one JSON
  value that the specification names.
\<close>

section \<open>The JSON value of a value\<close>

text \<open>
  The specification of the writers: the JSON value that a value of a type denotes.
\<close>

definition member_json :: "member \<Rightarrow> val \<Rightarrow> json \<Rightarrow> (string \<times> json) list" where
  "member_json m v j = (if is_optional (member_type m) \<and> v = VNone then [] else [(member_name m, j)])"

fun scalar_json :: "jsonlib \<Rightarrow> val \<Rightarrow> json" where
  "scalar_json L (VInt n) = JNumber n"
| "scalar_json L (VBool b) = JBool b"
| "scalar_json L (VDouble d) = JDouble d"
| "scalar_json L (VString s) = JString s"
| "scalar_json L (VAny k d) = (case parse_value L d of Some j \<Rightarrow> j | None \<Rightarrow> JNull)"
| "scalar_json L (VId i) = Reflect_write_id i"
| "scalar_json L v = JNull"

fun keydata_json :: "val list \<Rightarrow> json" where
  "keydata_json (VSome (VBool b) # vs) = JBool b"
| "keydata_json (VNone # VSome (VInt n) # vs) = JNumber n"
| "keydata_json (VNone # VNone # VSome (VString s) # vs) = JString s"
| "keydata_json vs = JNull"

fun marked_json :: "val list \<Rightarrow> json" where
  "marked_json [VSome (VString l), VString s] = JObject [(''language'', JString l), (''value'', JString s)]"
| "marked_json [VNone, VString s] = JString s"
| "marked_json vs = JNull"

function (sequential) json_of :: "jsonlib \<Rightarrow> tenv \<Rightarrow> ty \<Rightarrow> val \<Rightarrow> json" where
  "json_of L E (TOptional t) v = (case v of VSome v' \<Rightarrow> json_of L E t v' | _ \<Rightarrow> JNull)"
| "json_of L E (TNullable t) v = (case v of VSome v' \<Rightarrow> json_of L E t v' | _ \<Rightarrow> JNull)"
| "json_of L E (TVector t) v = (case v of VList vs \<Rightarrow> JArray (map (\<lambda>v'. json_of L E t v') vs) | _ \<Rightarrow> JNull)"
| "json_of L E (TMap t) v =
     (case v of VMap kvs \<Rightarrow> JObject (map (\<lambda>p. (c_str (fst p), json_of L E t (snd p))) kvs) | _ \<Rightarrow> JNull)"
| "json_of L E (TPair c t1 t2) v =
     (case v of
        VPair (VSome v') w \<Rightarrow> json_of L E t1 v'
      | VPair VNone (VSome v') \<Rightarrow> json_of L E t2 v'
      | _ \<Rightarrow> JNull)"
| "json_of L E (TLocations t1 t2) v =
     (case v of
        VPair (VSome v') w \<Rightarrow> json_of L E (TVector t1) v'
      | VPair VNone (VSome v') \<Rightarrow> json_of L E (TVector t2) v'
      | _ \<Rightarrow> JNull)"
| "json_of L E (THover t1 t2) v =
     (case v of
        VPair (VSome v') w \<Rightarrow> json_of L E (TVector t1) v'
      | VPair VNone (VSome v') \<Rightarrow> json_of L E t2 v'
      | _ \<Rightarrow> JNull)"
| "json_of L E (TStruct ms) v =
     (case v of
        VStruct vs \<Rightarrow>
          JObject (concat (map (\<lambda>p. member_json (fst p) (snd p) (json_of L E (member_type (fst p)) (snd p))) (zip ms vs)))
      | _ \<Rightarrow> JNull)"
| "json_of L E (TRef s) v =
     (case v of
        VStruct vs \<Rightarrow>
          JObject (concat (map (\<lambda>p. member_json (fst p) (snd p) (json_of L E (member_type (fst p)) (snd p))) (zip (E s) vs)))
      | _ \<Rightarrow> JNull)"
| "json_of L E (TTuple ts) v =
     (case v of VStruct vs \<Rightarrow> JArray (map (\<lambda>p. json_of L E (fst p) (snd p)) (zip ts vs)) | _ \<Rightarrow> JNull)"
| "json_of L E (TNames d rt wt) v =
     (case v of VInt n \<Rightarrow> (case map_of wt n of Some s \<Rightarrow> JString s | None \<Rightarrow> JNull) | _ \<Rightarrow> JNull)"
| "json_of L E TKeyData v = keydata_json (elems v)"
| "json_of L E TMarkedString v = marked_json (elems v)"
| "json_of L E t v = scalar_json L v"
  by pat_completeness auto
termination
  by (relation "measures [\<lambda>(L, E, t, v). size v, \<lambda>(L, E, t, v). rank t]")
     (auto dest: size_elem size_entry size_zipped)

text \<open>
  The values a program may send and expect back: every scalar is initialized, a string has no NUL (the
  reader goes through a C string), an \<^verbatim>\<open>lsp::Any\<close> holds the text of a JSON value other than null, a
  pair has exactly one side, a list of locations is in the first form.
\<close>

definition nul_free :: "string \<Rightarrow> bool" where
  "nul_free s \<longleftrightarrow> c_str s = s"

definition sendable_any :: "jsonlib \<Rightarrow> int \<Rightarrow> string \<Rightarrow> bool" where
  "sendable_any L k d =
     (case parse_value L d of
        Some j \<Rightarrow> \<not> IsNull j \<and> ToString_json L j = d \<and> k = type_code j
      | None \<Rightarrow> False)"

fun some_type :: "(val \<Rightarrow> bool) \<Rightarrow> val \<Rightarrow> bool" where
  "some_type P (VSome v) = P v"
| "some_type P v = False"

lemma some_type_cong [fundef_cong]:
  "v = w \<Longrightarrow> (\<And>x. w = VSome x \<Longrightarrow> P x = Q x) \<Longrightarrow> some_type P v = some_type Q w"
  by (cases w) auto

definition sendable_keydata :: "val list \<Rightarrow> bool" where
  "sendable_keydata vs =
     (case vs of
        [a, b, c] \<Rightarrow>
          some_type (\<lambda>v. case v of VBool x \<Rightarrow> True | _ \<Rightarrow> False) a \<and> b = VNone \<and> c = VNone
          \<or> a = VNone \<and> some_type (\<lambda>v. case v of VInt n \<Rightarrow> int_range CInt n | _ \<Rightarrow> False) b \<and> c = VNone
          \<or> a = VNone \<and> b = VNone \<and> some_type (\<lambda>v. case v of VString s \<Rightarrow> nul_free s | _ \<Rightarrow> False) c
      | _ \<Rightarrow> False)"

fun sendable_marked :: "val list \<Rightarrow> bool" where
  "sendable_marked [VSome (VString l), VString s] = (nul_free l \<and> nul_free s)"
| "sendable_marked vs = False"

text \<open>An \<^verbatim>\<open>lsp::Any\<close> on the second side of a pair must not look like the first side.\<close>

definition any_guard :: "jsonlib \<Rightarrow> chooser \<Rightarrow> ty \<Rightarrow> val \<Rightarrow> bool" where
  "any_guard L c t v = (case t of TAny \<Rightarrow> \<not> picks_first c (scalar_json L v) | _ \<Rightarrow> True)"

function (sequential) sendable :: "jsonlib \<Rightarrow> tenv \<Rightarrow> ty \<Rightarrow> val \<Rightarrow> bool" where
  "sendable L E (TInt k) v = (case v of VInt n \<Rightarrow> int_range k n | _ \<Rightarrow> False)"
| "sendable L E TBool v = (case v of VBool b \<Rightarrow> True | _ \<Rightarrow> False)"
| "sendable L E TDouble v = (case v of VDouble d \<Rightarrow> True | _ \<Rightarrow> False)"
| "sendable L E TString v = (case v of VString s \<Rightarrow> nul_free s | _ \<Rightarrow> False)"
| "sendable L E TJsonNull v = (v = VUnit)"
| "sendable L E TAny v = (case v of VAny k d \<Rightarrow> sendable_any L k d | _ \<Rightarrow> False)"
| "sendable L E TRequestId v =
     (case v of VId i \<Rightarrow> (case i of kNone \<Rightarrow> True | kInt n \<Rightarrow> int64 n | kString s \<Rightarrow> nul_free s) | _ \<Rightarrow> False)"
| "sendable L E (TOptional t) v = opt_type (\<lambda>v'. sendable L E t v') v"
| "sendable L E (TNullable t) v = opt_type (\<lambda>v'. sendable L E t v') v"
| "sendable L E (TVector t) v = (case v of VList vs \<Rightarrow> list_all (\<lambda>v'. sendable L E t v') vs | _ \<Rightarrow> False)"
| "sendable L E (TMap t) v =
     (case v of
        VMap kvs \<Rightarrow> map_ok kvs \<and> list_all (\<lambda>p. nul_free (fst p) \<and> sendable L E t (snd p)) kvs
      | _ \<Rightarrow> False)"
| "sendable L E (TPair c t1 t2) v =
     (case v of
        VPair a b \<Rightarrow>
          some_type (\<lambda>v'. sendable L E t1 v') a \<and> b = VNone
          \<or> a = VNone \<and> some_type (\<lambda>v'. sendable L E t2 v' \<and> any_guard L c t2 v') b
      | _ \<Rightarrow> False)"
| "sendable L E (TLocations t1 t2) v =
     (case v of VPair a b \<Rightarrow> some_type (\<lambda>v'. sendable L E (TVector t1) v') a \<and> b = VNone | _ \<Rightarrow> False)"
| "sendable L E (THover t1 t2) v =
     (case v of
        VPair a b \<Rightarrow>
          some_type (\<lambda>v'. sendable L E (TVector t1) v') a \<and> b = VNone \<or> a = VNone \<and> some_type (\<lambda>v'. sendable L E t2 v') b
      | _ \<Rightarrow> False)"
| "sendable L E (TStruct ms) v =
     (case v of VStruct vs \<Rightarrow> list_all2 (\<lambda>m v'. sendable L E (member_type m) v') ms vs | _ \<Rightarrow> False)"
| "sendable L E (TRef s) v =
     (case v of VStruct vs \<Rightarrow> list_all2 (\<lambda>m v'. sendable L E (member_type m) v') (E s) vs | _ \<Rightarrow> False)"
| "sendable L E (TTuple ts) v =
     (case v of VStruct vs \<Rightarrow> list_all2 (\<lambda>t v'. sendable L E t v') ts vs | _ \<Rightarrow> False)"
| "sendable L E (TNames d rt wt) v = (case v of VInt n \<Rightarrow> n \<in> fst ` set wt | _ \<Rightarrow> False)"
| "sendable L E TKeyData v = (case v of VStruct vs \<Rightarrow> sendable_keydata vs | _ \<Rightarrow> False)"
| "sendable L E TMarkedString v = (case v of VStruct vs \<Rightarrow> sendable_marked vs | _ \<Rightarrow> False)"
  by pat_completeness auto
termination
  by (relation "measures [\<lambda>(L, E, t, v). size v, \<lambda>(L, E, t, v). rank t]")
     (auto dest: size_elem size_entry)

lemma opt_type_iff: "opt_type P v \<longleftrightarrow> v = VNone \<or> (\<exists>x. v = VSome x \<and> P x)"
  by (cases v) auto

lemma some_type_iff: "some_type P v \<longleftrightarrow> (\<exists>x. v = VSome x \<and> P x)"
  by (cases v) auto

lemma val_case_iff:
  "(case v of VBool x \<Rightarrow> P x | _ \<Rightarrow> False) \<longleftrightarrow> (\<exists>x. v = VBool x \<and> P x)"
  "(case v of VInt n \<Rightarrow> Q n | _ \<Rightarrow> False) \<longleftrightarrow> (\<exists>n. v = VInt n \<and> Q n)"
  "(case v of VString s \<Rightarrow> R s | _ \<Rightarrow> False) \<longleftrightarrow> (\<exists>s. v = VString s \<and> R s)"
  "(case v of VList vs \<Rightarrow> S vs | _ \<Rightarrow> False) \<longleftrightarrow> (\<exists>vs. v = VList vs \<and> S vs)"
  "(case v of VMap kvs \<Rightarrow> T kvs | _ \<Rightarrow> False) \<longleftrightarrow> (\<exists>kvs. v = VMap kvs \<and> T kvs)"
  "(case v of VStruct vs \<Rightarrow> S vs | _ \<Rightarrow> False) \<longleftrightarrow> (\<exists>vs. v = VStruct vs \<and> S vs)"
  "(case v of VPair a b \<Rightarrow> U a b | _ \<Rightarrow> False) \<longleftrightarrow> (\<exists>a b. v = VPair a b \<and> U a b)"
  by (cases v; simp)+

lemma sendable_keydata_iff:
  "sendable_keydata vs \<longleftrightarrow>
     (\<exists>b. vs = [VSome (VBool b), VNone, VNone])
     \<or> (\<exists>n. vs = [VNone, VSome (VInt n), VNone] \<and> int_range CInt n)
     \<or> (\<exists>s. vs = [VNone, VNone, VSome (VString s)] \<and> nul_free s)"
  by (auto simp: sendable_keydata_def some_type_iff val_case_iff split: list.splits)

lemma sendable_iff:
  "sendable L E (TOptional t) v \<longleftrightarrow> v = VNone \<or> (\<exists>x. v = VSome x \<and> sendable L E t x)"
  "sendable L E (TNullable t) v \<longleftrightarrow> v = VNone \<or> (\<exists>x. v = VSome x \<and> sendable L E t x)"
  "sendable L E (TVector t) v \<longleftrightarrow> (\<exists>vs. v = VList vs \<and> (\<forall>x\<in>set vs. sendable L E t x))"
  "sendable L E (TMap t) v \<longleftrightarrow>
     (\<exists>kvs. v = VMap kvs \<and> map_ok kvs \<and> (\<forall>p\<in>set kvs. nul_free (fst p) \<and> sendable L E t (snd p)))"
  "sendable L E (TPair c t1 t2) v \<longleftrightarrow>
     (\<exists>x. v = VPair (VSome x) VNone \<and> sendable L E t1 x
        \<or> v = VPair VNone (VSome x) \<and> sendable L E t2 x \<and> any_guard L c t2 x)"
  "sendable L E (TLocations t1 t2) v \<longleftrightarrow> (\<exists>x. v = VPair (VSome x) VNone \<and> sendable L E (TVector t1) x)"
  "sendable L E (THover t1 t2) v \<longleftrightarrow>
     (\<exists>x. v = VPair (VSome x) VNone \<and> sendable L E (TVector t1) x \<or> v = VPair VNone (VSome x) \<and> sendable L E t2 x)"
  "sendable L E (TStruct ms) v \<longleftrightarrow> (\<exists>vs. v = VStruct vs \<and> list_all2 (\<lambda>m. sendable L E (member_type m)) ms vs)"
  "sendable L E (TRef s) v \<longleftrightarrow> (\<exists>vs. v = VStruct vs \<and> list_all2 (\<lambda>m. sendable L E (member_type m)) (E s) vs)"
  "sendable L E (TTuple ts) v \<longleftrightarrow> (\<exists>vs. v = VStruct vs \<and> list_all2 (sendable L E) ts vs)"
  "sendable L E TKeyData v \<longleftrightarrow>
     (\<exists>b. v = VStruct [VSome (VBool b), VNone, VNone])
     \<or> (\<exists>n. v = VStruct [VNone, VSome (VInt n), VNone] \<and> int_range CInt n)
     \<or> (\<exists>s. v = VStruct [VNone, VNone, VSome (VString s)] \<and> nul_free s)"
  "sendable L E TMarkedString v \<longleftrightarrow>
     (\<exists>l s. v = VStruct [VSome (VString l), VString s] \<and> nul_free l \<and> nul_free s)"
  by (auto simp: list_all_iff opt_type_iff some_type_iff sendable_keydata_iff val_case_iff elim!: sendable_marked.elims)

lemmas [simp del] = sendable.simps

lemmas sendable_scalar = sendable.simps(1-7,18)

section \<open>A writer writes one JSON value\<close>

lemma build_all_append:
  "build_all L (es @ fs) b = Option.bind (build_all L es b) (build_all L fs)"
  by (induction es arbitrary: b) (auto split: option.split)

text \<open>\<open>writes L es j\<close>: in every context the calls \<open>es\<close> have the effect of putting the value \<open>j\<close>.\<close>

definition writes :: "jsonlib \<Rightarrow> event list \<Rightarrow> json \<Rightarrow> bool" where
  "writes L es j \<longleftrightarrow> (\<forall>b. build_all L es b = put_value j b)"

lemma writes_array:
  assumes "list_all2 (writes L) ess js"
  shows "writes L (write_array ess) (JArray js)"
proof -
  have "build_all L (concat ess) (InArray acc # st, r) = Some (InArray (acc @ js) # st, r)" for acc st r
    using assms
  proof (induction ess js arbitrary: acc rule: list_all2_induct)
    case (Cons es ess j js)
    then show ?case by (simp add: build_all_append writes_def)
  qed simp
  then show ?thesis
    by (auto simp: writes_def write_array_def build_all_append split: option.split)
qed

lemma writes_object:
  assumes "list_all2 (\<lambda>es ms. es = [] \<and> ms = [] \<or> (\<exists>k j fs. es = EKey k # fs \<and> ms = [(k, j)] \<and> writes L fs j)) ess mss"
  shows "writes L (write_object ess) (JObject (concat mss))"
proof -
  have "build_all L (concat ess) (InObject acc None # st, r) = Some (InObject (acc @ concat mss) None # st, r)" for acc st r
    using assms
  proof (induction ess mss arbitrary: acc rule: list_all2_induct)
    case (Cons es ess ms mss)
    then show ?case by (auto simp: build_all_append writes_def)
  qed simp
  then show ?thesis
    by (auto simp: writes_def write_object_def build_all_append split: option.split)
qed

lemma writes_members:
  assumes "\<And>p. p \<in> set ps \<Longrightarrow> writes L (w p) (f p)"
  shows "writes L (write_object (map (\<lambda>p. ReflectMember_write (fst p) (snd p) (w p)) ps))
     (JObject (concat (map (\<lambda>p. member_json (fst p) (snd p) (f p)) ps)))"
  using assms by (intro writes_object) (auto simp: list_all2_conv_all_nth ReflectMember_write_def member_json_def)

lemma list_all2_zip_set: "list_all2 P xs ys \<Longrightarrow> p \<in> set (zip xs ys) \<Longrightarrow> P (fst p) (snd p)"
  by (auto simp: list_all2_iff)

lemma writes_single:
  "writes L [ENull] JNull" "writes L [EBool b] (JBool b)" "writes L [ENumber n] (JNumber n)" "writes L [EDouble d] (JDouble d)"
  "writes L [EString s] (JString s)" "writes L [write_id i] (Reflect_write_id i)"
  "parse_value L r = Some j \<Longrightarrow> writes L [ERaw r] j"
  by (auto simp: writes_def write_id_def Reflect_write_id_def split: option.split lsRequestId.split)

lemma writes_names: "n \<in> fst ` set wt \<Longrightarrow>
  writes L (write_names wt n) (case map_of wt n of Some s \<Rightarrow> JString s | None \<Rightarrow> JNull)"
  by (auto simp: write_names_def writes_single map_of_eq_None_iff split: option.split)

lemma writes_marked:
  "writes L (write_object [[EKey a, EString l], [EKey b, EString s]]) (JObject [(a, JString l), (b, JString s)])"
  using writes_object [of L "[[EKey a, EString l], [EKey b, EString s]]" "[[(a, JString l)], [(b, JString s)]]"]
  by (simp add: writes_single)

lemma writes_json: "sendable L E t v \<Longrightarrow> writes L (Reflect_write E t v) (json_of L E t v)"
proof (induction L E t v rule: json_of.induct)
  case (3 L E t v)
  then show ?case
    by (auto simp: sendable_iff list_all2_conv_all_nth intro!: writes_array)
next
  case (4 L E t v)
  then obtain kvs where v: "v = VMap kvs" and k: "\<forall>p\<in>set kvs. sendable L E t (snd p)" by (auto simp: sendable_iff)
  have "writes L (write_object (map (\<lambda>p. EKey (c_str (fst p)) # Reflect_write E t (snd p)) kvs))
      (JObject (concat (map (\<lambda>p. [(c_str (fst p), json_of L E t (snd p))]) kvs)))"
    using 4(1) [OF v] k by (intro writes_object) (auto simp: list_all2_conv_all_nth)
  then show ?case by (simp add: v concat_map_singleton)
next
  case (8 L E ms v)
  then obtain vs where v: "v = VStruct vs" "list_all2 (\<lambda>m. sendable L E (member_type m)) ms vs"
    by (auto simp: sendable_iff)
  with 8(1) [OF v(1) _ list_all2_zip_set [OF v(2)]] show ?case by (simp add: writes_members)
next
  case (9 L E s v)
  then obtain vs where v: "v = VStruct vs" "list_all2 (\<lambda>m. sendable L E (member_type m)) (E s) vs"
    by (auto simp: sendable_iff)
  with 9(1) [OF v(1) _ list_all2_zip_set [OF v(2)]] show ?case by (simp add: writes_members)
next
  case (10 L E ts v)
  then obtain vs where v: "v = VStruct vs" "list_all2 (sendable L E) ts vs" by (auto simp: sendable_iff)
  with 10(1) [OF v(1) _ list_all2_zip_set [OF v(2)]] show ?case
    by (auto simp: list_all2_map1 list_all2_map2 list_all2_same intro!: writes_array)
next
  case (11 L E d rt wt v)
  then obtain n where "v = VInt n" "n \<in> fst ` set wt" by (auto simp: sendable_scalar val_case_iff)
  then show ?case by (simp add: writes_names)
qed (auto simp: sendable_iff sendable_scalar val_case_iff writes_single writes_marked sendable_any_def
       split: option.splits val.splits)

end
