(* ===== verification/Json_Roundtrip.thy ===== *)
theory Json_Roundtrip
  imports Json_Document
begin

text \<open>
  The round trip of serialization: the calls of a writer describe exactly one JSON value, and the
  reader of the type gives the value back, for every type that passes the executable check \<open>rt_ty\<close>
  and every value that satisfies \<open>sendable\<close>.
\<close>

section \<open>Kinds of JSON values\<close>

datatype kind = KNull | KBool | KNumber | KString | KArray | KObject

definition kind_of :: "json \<Rightarrow> kind" where
  "kind_of j =
     (case j of JNull \<Rightarrow> KNull | JBool b \<Rightarrow> KBool | JNumber n \<Rightarrow> KNumber | JDouble d \<Rightarrow> KNumber
      | JString s \<Rightarrow> KString | JArray js \<Rightarrow> KArray | JObject ms \<Rightarrow> KObject)"

text \<open>The kinds that the writer of a type produces.\<close>

primrec kinds :: "ty \<Rightarrow> kind list" where
  "kinds (TInt k) = [KNumber]" | "kinds TBool = [KBool]" | "kinds TDouble = [KNumber]" | "kinds TString = [KString]"
| "kinds TJsonNull = [KNull]" | "kinds TAny = [KBool, KNumber, KString, KArray, KObject]"
| "kinds TRequestId = [KNull, KNumber, KString]" | "kinds (TOptional t) = KNull # kinds t"
| "kinds (TNullable t) = KNull # kinds t" | "kinds (TVector t) = [KArray]" | "kinds (TMap t) = [KObject]"
| "kinds (TPair c t1 t2) = kinds t1 @ kinds t2" | "kinds (TLocations t1 t2) = [KArray]"
| "kinds (THover t1 t2) = KArray # kinds t2" | "kinds (TStruct ms) = [KObject]" | "kinds (TRef s) = [KObject]"
| "kinds (TTuple ts) = [KArray]" | "kinds (TNames d rt wt) = [KString]" | "kinds TKeyData = [KBool, KNumber, KString]"
| "kinds TMarkedString = [KObject]"

lemma kind_of_any: "\<not> IsNull j \<Longrightarrow> kind_of j \<in> set (kinds TAny)"
  by (cases j) (auto simp: kind_of_def IsNull_def)

lemma kind_of_json: "sendable L E t v \<Longrightarrow> kind_of (json_of L E t v) \<in> set (kinds t)"
proof (induction L E t v rule: json_of.induct)
  case (11 L E d rt wt v)
  then show ?case
    by (force simp: sendable_scalar val_case_iff kind_of_def map_of_eq_None_iff split: option.split)
next
  case (5 L E c t1 t2 v)
  obtain x where "v = VPair (VSome x) VNone \<and> sendable L E t1 x \<or> v = VPair VNone (VSome x) \<and> sendable L E t2 x"
    using 5(3) by (auto simp: sendable_iff)
  with 5(1,2) show ?case by auto
next
  case (7 L E t1 t2 v)
  obtain x where "v = VPair (VSome x) VNone \<and> sendable L E (TVector t1) x \<or> v = VPair VNone (VSome x) \<and> sendable L E t2 x"
    using 7(3) by (auto simp: sendable_iff)
  with 7(1,2) show ?case by auto
qed (use kind_of_any in \<open>auto simp: sendable_iff sendable_scalar sendable_any_def kind_of_def Reflect_write_id_def val_case_iff
       split: option.splits lsRequestId.splits val.splits\<close>)

lemma kind_tests:
  "IsNull j \<longleftrightarrow> kind_of j = KNull" "IsBool j \<longleftrightarrow> kind_of j = KBool" "IsString j \<longleftrightarrow> kind_of j = KString"
  "IsArray j \<longleftrightarrow> kind_of j = KArray" "IsObject j \<longleftrightarrow> kind_of j = KObject"
  by (cases j; simp add: kind_of_def IsNull_def IsBool_def IsString_def IsArray_def IsObject_def)+

section \<open>Types whose values come back\<close>

text \<open>
  A reader works on the value that a variable already has.  \<open>neutral\<close>: reading over this value gives
  the value that was written, because what the reader leaves unchanged is what the writer leaves out.
\<close>

function (sequential) neutral :: "tenv \<Rightarrow> ty \<Rightarrow> val \<Rightarrow> bool" where
  "neutral E (TOptional t) c = (c = VNone)"
| "neutral E (TVector t) c = (c = VList [])"
| "neutral E (TMap t) c = (c = VMap [])"
| "neutral E (TPair ch t1 t2) c = (c = VPair VNone VNone)"
| "neutral E (TLocations t1 t2) c = (c = VPair VNone VNone)"
| "neutral E (THover t1 t2) c = (c = VPair VNone VNone)"
| "neutral E (TStruct ms) c =
     (case c of VStruct cs \<Rightarrow> list_all2 (\<lambda>m c'. neutral E (member_type m) c') ms cs | _ \<Rightarrow> False)"
| "neutral E (TRef s) c =
     (case c of VStruct cs \<Rightarrow> list_all2 (\<lambda>m c'. neutral E (member_type m) c') (E s) cs | _ \<Rightarrow> False)"
| "neutral E (TTuple ts) c = (case c of VStruct cs \<Rightarrow> list_all2 (\<lambda>t c'. neutral E t c') ts cs | _ \<Rightarrow> False)"
| "neutral E TKeyData c = (c = VStruct [VNone, VNone, VNone])"
| "neutral E TMarkedString c = (case c of VStruct cs \<Rightarrow> length cs = 2 | _ \<Rightarrow> False)"
| "neutral E t c = True"
  by pat_completeness auto
termination
  by (relation "measure (\<lambda>(E, t, v). size v)") (auto dest: size_elem)

definition members_of :: "tenv \<Rightarrow> ty \<Rightarrow> member list option" where
  "members_of E t = (case t of TStruct ms \<Rightarrow> Some ms | TRef s \<Rightarrow> Some (E s) | _ \<Rightarrow> None)"

definition always_member :: "tenv \<Rightarrow> ty \<Rightarrow> string \<Rightarrow> bool" where
  "always_member E t n =
     (case members_of E t of
        Some ms \<Rightarrow> list_ex (\<lambda>m. member_name m = n \<and> \<not> is_optional (member_type m)) ms
      | None \<Rightarrow> False)"

definition never_member :: "tenv \<Rightarrow> ty \<Rightarrow> string \<Rightarrow> bool" where
  "never_member E t n =
     (case members_of E t of
        Some ms \<Rightarrow> list_all (\<lambda>m. member_name m \<noteq> n) ms
      | None \<Rightarrow> KObject \<notin> set (kinds t))"

text \<open>The reader of a pair finds the side that was written.\<close>

definition first_ok :: "tenv \<Rightarrow> chooser \<Rightarrow> ty \<Rightarrow> bool" where
  "first_ok E c t =
     (case c of
        PickBool \<Rightarrow> set (kinds t) \<subseteq> {KBool}
      | PickString \<Rightarrow> set (kinds t) \<subseteq> {KString}
      | PickArray \<Rightarrow> set (kinds t) \<subseteq> {KArray}
      | PickScalar \<Rightarrow> KObject \<notin> set (kinds t)
      | PickMember n \<Rightarrow> always_member E t n
      | PickUnless n \<Rightarrow> never_member E t n
      | PickCommand \<Rightarrow>
          always_member E t ''command''
          \<and> (case members_of E t of
               Some ms \<Rightarrow> list_all (\<lambda>m. member_name m = ''command'' \<longrightarrow> set (kinds (member_type m)) \<subseteq> {KString}) ms
             | None \<Rightarrow> False)
      | PickTry \<Rightarrow> False)"

definition second_ok :: "tenv \<Rightarrow> chooser \<Rightarrow> ty \<Rightarrow> bool" where
  "second_ok E c t =
     (case c of
        PickBool \<Rightarrow> KBool \<notin> set (kinds t)
      | PickString \<Rightarrow> KString \<notin> set (kinds t)
      | PickArray \<Rightarrow> KArray \<notin> set (kinds t)
      | PickScalar \<Rightarrow> set (kinds t) \<subseteq> {KObject}
      | PickMember n \<Rightarrow> never_member E t n
      | PickUnless n \<Rightarrow> always_member E t n
      | PickCommand \<Rightarrow>
          (case members_of E t of
             Some ms \<Rightarrow> list_all (\<lambda>m. member_name m = ''command'' \<longrightarrow> KString \<notin> set (kinds (member_type m))) ms
           | None \<Rightarrow> False)
      | PickTry \<Rightarrow> False)"

definition pick_ok :: "tenv \<Rightarrow> chooser \<Rightarrow> ty \<Rightarrow> ty \<Rightarrow> bool" where
  "pick_ok E c t1 t2 \<longleftrightarrow> first_ok E c t1 \<and> (case t2 of TAny \<Rightarrow> c \<noteq> PickTry | _ \<Rightarrow> second_ok E c t2)"

fun rt_ty :: "tenv \<Rightarrow> ty \<Rightarrow> bool" where
  "rt_ty E (TOptional t) = (KNull \<notin> set (kinds t) \<and> neutral E t (fresh E t) \<and> rt_ty E t)"
| "rt_ty E (TNullable t) = (KNull \<notin> set (kinds t) \<and> neutral E t (fresh E t) \<and> rt_ty E t)"
| "rt_ty E (TVector t) = (neutral E t (fresh E t) \<and> rt_ty E t)"
| "rt_ty E (TMap t) = (neutral E t (fresh E t) \<and> rt_ty E t)"
| "rt_ty E (TPair c t1 t2) =
     (KNull \<notin> set (kinds t1 @ kinds t2) \<and> pick_ok E c t1 t2
      \<and> neutral E t1 (fresh E t1) \<and> neutral E t2 (fresh E t2) \<and> rt_ty E t1 \<and> rt_ty E t2)"
| "rt_ty E (TLocations t1 t2) =
     (set (kinds t1) \<subseteq> {KObject} \<and> never_member E t1 ''originSelectionRange'' \<and> neutral E t1 (fresh E t1) \<and> rt_ty E t1)"
| "rt_ty E (THover t1 t2) =
     (set (kinds t2) \<subseteq> {KObject} \<and> neutral E t1 (fresh E t1) \<and> neutral E t2 (fresh E t2) \<and> rt_ty E t1 \<and> rt_ty E t2)"
| "rt_ty E (TStruct ms) =
     (distinct (map fst ms)
      \<and> list_all (\<lambda>(n, t, i). neutral E t (case i of Some v \<Rightarrow> v | None \<Rightarrow> fresh0 t) \<and> rt_ty E t) ms)"
| "rt_ty E (TTuple ts) = list_all (rt_ty E) ts"
| "rt_ty E (TNames d rt wt) = list_all (\<lambda>(n, s). nul_free s \<and> map_of rt s = Some n) wt"
| "rt_ty E t = True"

definition env_rt :: "tenv \<Rightarrow> bool" where
  "env_rt E \<longleftrightarrow> (\<forall>s. rt_ty E (TStruct (E s)))"

lemma rt_ty_struct:
  "rt_ty E (TStruct ms) \<longleftrightarrow>
     distinct (map member_name ms) \<and> (\<forall>m\<in>set ms. neutral E (member_type m) (fresh_member m) \<and> rt_ty E (member_type m))"
  by (auto simp: list_all_iff member_type_def fresh_member_def member_name_def [abs_def] split_beta)

section \<open>Reading back\<close>

text \<open>Scalars.\<close>

lemma read_int: "int_range k n \<Longrightarrow> Reflect_int k (JNumber n) = Value (VInt n)"
  by (cases k) (auto simp: int_range_def Reflect_int_def accepts_def narrow_def IsInt_def IsInt64_def IsUint64_def
      int64_def GetNumber_def GetUint32_def)

lemma read_string: "nul_free s \<Longrightarrow> Reflect_string (JString s) = Value (VString s)"
  by (simp add: Reflect_string_def IsString_def GetString_def nul_free_def)

lemma read_any: "sendable_any L k d \<Longrightarrow> Reflect_any L (scalar_json L (VAny k d)) = Value (VAny k d)"
  by (auto simp: sendable_any_def Reflect_any_def split: option.splits)

lemma read_id:
  "(case i of kNone \<Rightarrow> True | kInt n \<Rightarrow> int64 n | kString s \<Rightarrow> nul_free s) \<Longrightarrow> Reflect_id (Reflect_write_id i) = i"
  by (cases i) (auto simp: Reflect_id_def Reflect_write_id_def GetString_def nul_free_def)

lemma read_names:
  assumes "rt_ty E (TNames d rt wt)" "n \<in> fst ` set wt"
  shows "Reflect_names d rt (case map_of wt n of Some s \<Rightarrow> JString s | None \<Rightarrow> JNull) c = Value (VInt n)"
proof -
  obtain s where s: "map_of wt n = Some s" using assms(2) by (metis map_of_eq_None_iff not_Some_eq)
  then have "nul_free s" "map_of rt s = Some n" using assms(1) map_of_SomeD [OF s] by (auto simp: list_all_iff)
  then show ?thesis by (simp add: s Reflect_names_def IsString_def GetString_def nul_free_def)
qed

lemma read_keydata:
  "sendable L E TKeyData (VStruct vs) \<Longrightarrow> Reflect_keydata (keydata_json vs) (VStruct [VNone, VNone, VNone]) = Value (VStruct vs)"
  by (auto simp: sendable_iff Reflect_keydata_def IsBool_def IsInt_def IsInt64_def IsUint64_def IsString_def int_range_def
      Reflect_bool_def GetBool_def read_string read_int)

text \<open>Vectors and maps: elements are appended in order, and entries arrive in ascending order of their keys.\<close>

lemma fold_vector:
  assumes "\<And>v. v \<in> set vs \<Longrightarrow> R (f v) = Value v"
  shows "rd_fold (\<lambda>j c. rd_map (\<lambda>v. VList (elems c @ [v])) (R j)) (map f vs) (VList acc) = Value (VList (acc @ vs))"
  using assms by (induction vs arbitrary: acc) auto

lemma map_set_last: "(\<forall>x\<in>fst ` set m. x < k) \<Longrightarrow> map_set k v m = m @ [(k, v)]"
proof (induction m)
  case (Cons p m)
  then have "fst p < k" by simp
  with Cons show ?case by (cases p) (auto dest: less_asym)
qed simp

lemma fold_map:
  assumes "\<And>p. p \<in> set kvs \<Longrightarrow> R (f (snd p)) = Value (snd p)" "\<And>p. p \<in> set kvs \<Longrightarrow> nul_free (fst p)"
    and "map_ok (acc @ kvs)"
  shows "rd_fold (\<lambda>(k, j) c. rd_map (\<lambda>v. VMap (map_set (c_str k) v (entries c))) (R j))
           (map (\<lambda>p. (c_str (fst p), f (snd p))) kvs) (VMap acc) = Value (VMap (acc @ kvs))"
  using assms
proof (induction kvs arbitrary: acc)
  case (Cons p kvs)
  have "\<forall>x\<in>fst ` set acc. x < fst p" using Cons.prems(3) by (auto simp: map_ok_def sorted_wrt_append)
  then have "map_set (fst p) (snd p) acc = acc @ [p]" by (simp add: map_set_last)
  with Cons.IH [of "acc @ [p]"] Cons.prems show ?case by (auto simp: nul_free_def)
qed simp

text \<open>Structs: a member is found under its name, or left out because it is an empty optional.\<close>

lemma map_of_members:
  assumes "distinct (map member_name ms)" "p \<in> set (zip ms vs)"
  shows "map_of (concat (map (\<lambda>p. member_json (fst p) (snd p) (f p)) (zip ms vs))) (member_name (fst p)) =
     (if is_optional (member_type (fst p)) \<and> snd p = VNone then None else Some (f p))"
  using assms
proof (induction ms arbitrary: vs)
  case (Cons m ms)
  then obtain v vs' where vs: "vs = v # vs'" by (cases vs) auto
  have other: "map_of (concat (map (\<lambda>p. member_json (fst p) (snd p) (f p)) (zip ms vs'))) (member_name m) = None"
    using Cons.prems(1) by (force simp: map_of_eq_None_iff member_json_def dest: set_zip_leftD split: if_splits)
  show ?case
  proof (cases "p = (m, v)")
    case True
    then show ?thesis using other by (auto simp: vs member_json_def map_add_def)
  next
    case False
    then have p: "p \<in> set (zip ms vs')" using Cons.prems(2) by (auto simp: vs)
    then have "fst p \<in> set ms" by (metis prod.collapse set_zip_leftD)
    then have "member_name (fst p) \<noteq> member_name m" using Cons.prems(1) by (metis distinct.simps(2) image_eqI list.set_map list.simps(9))
    then show ?thesis using Cons.IH [of vs'] Cons.prems(1) p by (auto simp: vs member_json_def map_add_def)
  qed
qed simp

lemma read_members:
  assumes d: "distinct (map member_name ms)"
    and n: "list_all2 (\<lambda>m. neutral E (member_type m)) ms cs" and l: "length ms = length vs"
    and R: "\<And>p c. p \<in> set (zip ms vs) \<Longrightarrow> neutral E (member_type (fst p)) c \<Longrightarrow> R (member_type (fst p)) (f p) c = Value (snd p)"
  shows "rd_traverse (\<lambda>m. DoMember (member_name (fst m)) (R (member_type (fst m)))
           (JObject (concat (map (\<lambda>p. member_json (fst p) (snd p) (f p)) (zip ms vs)))) (snd m)) (zip ms cs) = Value vs"
proof -
  have len: "length cs = length ms" using n by (simp add: list_all2_lengthD)
  have "DoMember (member_name (ms ! i)) (R (member_type (ms ! i)))
          (JObject (concat (map (\<lambda>p. member_json (fst p) (snd p) (f p)) (zip ms vs)))) (cs ! i) = Value (vs ! i)"
    if i: "i < length ms" for i
  proof -
    have p: "(ms ! i, vs ! i) \<in> set (zip ms vs)" using i l by (metis in_set_zip fst_conv snd_conv)
    have c: "neutral E (member_type (ms ! i)) (cs ! i)" using n i by (simp add: list_all2_conv_all_nth)
    show ?thesis
    proof (cases "is_optional (member_type (ms ! i)) \<and> vs ! i = VNone")
      case True
      then have "cs ! i = VNone" using c by (auto simp: is_optional_def split: ty.splits)
      with True map_of_members [OF d p, of f] show ?thesis by (simp add: DoMember_def)
    next
      case False
      with map_of_members [OF d p, of f] R [OF p, of "cs ! i"] c show ?thesis by (simp add: DoMember_def)
    qed
  qed
  then show ?thesis using len l by (simp add: rd_traverse_Value list_all2_conv_all_nth)
qed

lemma json_nonnull: "KNull \<notin> set (kinds t) \<Longrightarrow> sendable L E t v \<Longrightarrow> \<not> IsNull (json_of L E t v)"
  by (metis kind_of_json kind_tests(1))

text \<open>What the reader of a pair sees of a struct.\<close>

lemma sendable_members:
  "members_of E t = Some ms \<Longrightarrow> sendable L E t v \<longleftrightarrow> (\<exists>vs. v = VStruct vs \<and> list_all2 (\<lambda>m. sendable L E (member_type m)) ms vs)"
  by (cases t) (auto simp: members_of_def sendable_iff)

lemma json_of_members:
  "members_of E t = Some ms \<Longrightarrow> json_of L E t (VStruct vs) =
     JObject (concat (map (\<lambda>p. member_json (fst p) (snd p) (json_of L E (member_type (fst p)) (snd p))) (zip ms vs)))"
  by (cases t) (auto simp: members_of_def)

lemma HasMember_Some: "HasMember j n \<longleftrightarrow> (\<exists>x. get_member j n = Some x)"
  by (cases j) (auto simp: HasMember_def get_member_def)

lemma get_member_json:
  assumes "members_of E t = Some ms" "sendable L E t v" "get_member (json_of L E t v) n = Some j"
  shows "\<exists>m\<in>set ms. member_name m = n \<and> kind_of j \<in> set (kinds (member_type m))"
proof -
  obtain vs where v: "v = VStruct vs" and s: "list_all2 (\<lambda>m. sendable L E (member_type m)) ms vs"
    using assms(1,2) by (auto simp: sendable_members)
  obtain p where p: "p \<in> set (zip ms vs)" "member_name (fst p) = n" "j = json_of L E (member_type (fst p)) (snd p)"
    using assms(3) by (auto simp: v json_of_members [OF assms(1)] get_member_def member_json_def dest!: map_of_SomeD split: if_splits)
  have "fst p \<in> set ms" using p(1) by (metis prod.collapse set_zip_leftD)
  then show ?thesis using p list_all2_zip_set [OF s p(1)] by (auto intro: kind_of_json)
qed

lemma always_member_json:
  assumes "always_member E t n" "sendable L E t v"
  shows "HasMember (json_of L E t v) n"
proof -
  obtain ms m where ms: "members_of E t = Some ms" "m \<in> set ms" "member_name m = n" "\<not> is_optional (member_type m)"
    using assms(1) by (auto simp: always_member_def list_ex_iff split: option.splits)
  obtain vs where v: "v = VStruct vs" "length ms = length vs"
    using assms(2) ms(1) by (auto simp: sendable_members list_all2_iff)
  then obtain p where "p \<in> set (zip ms vs)" "fst p = m"
    using ms(2) by (metis in_set_impl_in_set_zip1 fst_conv)
  then have "(n, json_of L E (member_type (fst p)) (snd p)) \<in> set (concat (map (\<lambda>p. member_json (fst p) (snd p) (json_of L E (member_type (fst p)) (snd p))) (zip ms vs)))"
    using ms by (auto simp: member_json_def intro!: bexI [of _ p])
  then show ?thesis by (force simp: v json_of_members [OF ms(1)] HasMember_def map_of_eq_None_iff)
qed

lemma never_member_json:
  assumes "never_member E t n" "sendable L E t v"
  shows "\<not> HasMember (json_of L E t v) n"
proof (cases "members_of E t")
  case None
  then have "kind_of (json_of L E t v) \<noteq> KObject" using assms kind_of_json by (fastforce simp: never_member_def)
  then show ?thesis by (auto simp: HasMember_def kind_of_def split: json.splits)
next
  case (Some ms)
  then have "get_member (json_of L E t v) n \<noteq> Some j" for j
    using get_member_json [OF Some assms(2)] assms(1) by (auto simp: never_member_def list_all_iff)
  then show ?thesis by (simp add: HasMember_Some)
qed

lemma pick_first:
  assumes "first_ok E c t" "sendable L E t v"
  shows "picks_first c (json_of L E t v)"
proof (cases c)
  case PickCommand
  then have "HasMember (json_of L E t v) ''command''" using assms by (auto simp: first_ok_def intro: always_member_json)
  then obtain j ms where j: "get_member (json_of L E t v) ''command'' = Some j" and ms: "members_of E t = Some ms"
    using assms(1) by (auto simp: PickCommand first_ok_def HasMember_Some split: option.splits)
  then have "kind_of j = KString"
    using get_member_json [OF ms assms(2) j] assms(1) by (force simp: PickCommand first_ok_def list_all_iff)
  with j show ?thesis by (simp add: PickCommand picks_first_def HasMember_Some kind_tests)
qed (use assms kind_of_json [OF assms(2)] in \<open>auto simp: first_ok_def picks_first_def kind_tests always_member_json never_member_json\<close>)

lemma pick_second:
  assumes "second_ok E c t" "sendable L E t v"
  shows "\<not> picks_first c (json_of L E t v)"
proof (cases c)
  case PickCommand
  then obtain ms where ms: "members_of E t = Some ms"
    using assms(1) by (auto simp: second_ok_def split: option.splits)
  then have "\<not> IsString j" if "get_member (json_of L E t v) ''command'' = Some j" for j
    using get_member_json [OF ms assms(2) that] assms(1) by (auto simp: PickCommand second_ok_def list_all_iff kind_tests)
  then show ?thesis by (auto simp: PickCommand picks_first_def split: option.splits)
qed (use assms kind_of_json [OF assms(2)] in \<open>auto simp: second_ok_def picks_first_def kind_tests always_member_json never_member_json\<close>)

lemma pick_sides:
  assumes "pick_ok E c t1 t2"
  shows "c \<noteq> PickTry" "sendable L E t1 v \<Longrightarrow> picks_first c (json_of L E t1 v)"
    "sendable L E t2 v \<Longrightarrow> any_guard L c t2 v \<Longrightarrow> \<not> picks_first c (json_of L E t2 v)"
proof -
  show "c \<noteq> PickTry" using assms by (auto simp: pick_ok_def first_ok_def)
  show "sendable L E t1 v \<Longrightarrow> picks_first c (json_of L E t1 v)" using assms by (auto simp: pick_ok_def pick_first)
  show "sendable L E t2 v \<Longrightarrow> any_guard L c t2 v \<Longrightarrow> \<not> picks_first c (json_of L E t2 v)"
    using assms by (cases "t2 = TAny") (auto simp: pick_ok_def any_guard_def split: ty.splits dest: pick_second)
qed

text \<open>A struct, by its list of members.\<close>

lemma read_struct:
  assumes "rt_ty E (TStruct ms)" "list_all2 (\<lambda>m. neutral E (member_type m)) ms cs" "length ms = length vs"
    and "\<And>p c. p \<in> set (zip ms vs) \<Longrightarrow> rt_ty E (member_type (fst p)) \<Longrightarrow> neutral E (member_type (fst p)) c \<Longrightarrow>
           R (member_type (fst p)) (f p) c = Value (snd p)"
  shows "rd_map VStruct (rd_traverse (\<lambda>m. DoMember (member_name (fst m)) (R (member_type (fst m)))
           (JObject (concat (map (\<lambda>p. member_json (fst p) (snd p) (f p)) (zip ms vs)))) (snd m)) (zip ms (elems (VStruct cs))))
         = Value (VStruct vs)"
proof -
  have r: "rt_ty E (member_type (fst p))" if "p \<in> set (zip ms vs)" for p
  proof -
    have "fst p \<in> set ms" using that by (metis prod.collapse set_zip_leftD)
    with assms(1) show ?thesis by (simp add: rt_ty_struct del: rt_ty.simps)
  qed
  have "distinct (map member_name ms)" using assms(1) by (simp add: rt_ty_struct del: rt_ty.simps)
  from read_members [where R = R and f = f, OF this assms(2,3)] assms(4) r show ?thesis by simp
qed

text \<open>A tuple: the elements in order.\<close>

lemma fold_tuple:
  assumes "length ts = length vs" "k + length ds = length vs" "length cs = length vs"
    and "\<And>i c. i < length ts \<Longrightarrow> P (ts ! i) c \<Longrightarrow> R (ts ! i) (f (ts ! i) (vs ! i)) c = Value (vs ! i)"
    and "\<And>i. k \<le> i \<Longrightarrow> i < length ts \<Longrightarrow> P (ts ! i) (cs ! i)"
    and "ds = drop k (zip ts vs)" "take k cs = take k vs"
  shows "rd_fold (\<lambda>j (i, c). if i < length ts then
              rd_map (\<lambda>v. (Suc i, VStruct ((elems c)[i := v]))) (R (ts ! i) j (elems c ! i)) else Value (Suc i, c))
           (map (\<lambda>p. f (fst p) (snd p)) ds) (k, VStruct cs) = Value (length vs, VStruct vs)"
  using assms
proof (induction ds arbitrary: k cs)
  case Nil
  then show ?case by simp
next
  case (Cons d ds)
  have k: "k < length vs" using Cons.prems(2) by simp
  have d: "d = (ts ! k, vs ! k)" "ds = drop (Suc k) (zip ts vs)"
    using Cons.prems(1,6) k by (metis Cons_nth_drop_Suc length_zip list.inject min.idem nth_zip)+
  have tk: "take (Suc k) (cs[k := vs ! k]) = take (Suc k) vs"
    using Cons.prems(3,7) k by (simp add: take_Suc_conv_app_nth)
  have "rd_fold (\<lambda>j (i, c). if i < length ts then
              rd_map (\<lambda>v. (Suc i, VStruct ((elems c)[i := v]))) (R (ts ! i) j (elems c ! i)) else Value (Suc i, c))
           (map (\<lambda>p. f (fst p) (snd p)) ds) (Suc k, VStruct (cs[k := vs ! k])) = Value (length vs, VStruct vs)"
    using Cons.prems d tk by (intro Cons.IH) auto
  then show ?case using Cons.prems(1,4,5) k by (simp add: d)
qed

text \<open>The round trip of reading.\<close>

lemma read_pair:
  assumes "rt_ty E (TPair c t1 t2)"
    and "v = VPair (VSome x) VNone \<and> sendable L E t1 x \<and> Reflect_read L E t1 (json_of L E t1 x) (fresh E t1) = Value x
         \<or> v = VPair VNone (VSome x) \<and> sendable L E t2 x \<and> any_guard L c t2 x
           \<and> Reflect_read L E t2 (json_of L E t2 x) (fresh E t2) = Value x"
  shows "Reflect_read L E (TPair c t1 t2) (json_of L E (TPair c t1 t2) v) (VPair VNone VNone) = Value v"
proof -
  have c: "pick_ok E c t1 t2" using assms(1) by simp
  show ?thesis using assms pick_sides [OF c]
    by (auto simp: Reflect_read.simps(12) json_nonnull set_first_def set_second_def)
qed

lemma read_locations:
  assumes "rt_ty E (TLocations t1 t2)" "sendable L E (TVector t1) x"
    and "Reflect_read L E (TVector t1) (json_of L E (TVector t1) x) (VList []) = Value x"
  shows "Reflect_read L E (TLocations t1 t2) (json_of L E (TVector t1) x) (VPair VNone VNone) = Value (VPair (VSome x) VNone)"
proof -
  obtain vs where vs: "x = VList vs" "\<forall>v\<in>set vs. sendable L E t1 v" using assms(2) by (auto simp: sendable_iff)
  show ?thesis
  proof (cases vs)
    case Nil
    then show ?thesis using assms(3) by (simp add: Reflect_read.simps(13) vs set_first_def)
  next
    case (Cons d ds)
    then have d: "sendable L E t1 d" using vs(2) by simp
    have "IsObject (json_of L E t1 d)" using kind_of_json [OF d] assms(1) by (auto simp: kind_tests)
    moreover have "\<not> HasMember (json_of L E t1 d) ''originSelectionRange''"
      by (rule never_member_json [OF _ d]) (use assms(1) in simp)
    ultimately show ?thesis using assms(3) by (simp add: Reflect_read.simps(13) vs Cons set_first_def)
  qed
qed

lemma read_hover:
  assumes "rt_ty E (THover t1 t2)"
    and "v = VPair (VSome x) VNone \<and> sendable L E (TVector t1) x
           \<and> Reflect_read L E (TVector t1) (json_of L E (TVector t1) x) (VList []) = Value x
         \<or> v = VPair VNone (VSome x) \<and> sendable L E t2 x \<and> Reflect_read L E t2 (json_of L E t2 x) (fresh E t2) = Value x"
  shows "Reflect_read L E (THover t1 t2) (json_of L E (THover t1 t2) v) (VPair VNone VNone) = Value v"
  using assms(2)
proof
  assume a: "v = VPair (VSome x) VNone \<and> sendable L E (TVector t1) x
      \<and> Reflect_read L E (TVector t1) (json_of L E (TVector t1) x) (VList []) = Value x"
  then have "IsArray (json_of L E (TVector t1) x)" using kind_of_json [of L E "TVector t1" x] by (simp add: kind_tests)
  with a show ?thesis by (simp add: Reflect_read.simps(14) set_first_def del: json_of.simps(3))
next
  assume a: "v = VPair VNone (VSome x) \<and> sendable L E t2 x \<and> Reflect_read L E t2 (json_of L E t2 x) (fresh E t2) = Value x"
  then have "kind_of (json_of L E t2 x) = KObject" using kind_of_json [of L E t2 x] assms(1) by auto
  with a show ?thesis by (simp add: Reflect_read.simps(14) set_second_def kind_tests)
qed

lemma read_tuple:
  assumes "list_all2 (sendable L E) ts vs" "list_all2 (neutral E) ts cs"
    and "\<And>p c. p \<in> set (zip ts vs) \<Longrightarrow> neutral E (fst p) c \<Longrightarrow>
           Reflect_read L E (fst p) (json_of L E (fst p) (snd p)) c = Value (snd p)"
  shows "Reflect_read L E (TTuple ts) (json_of L E (TTuple ts) (VStruct vs)) (VStruct cs) = Value (VStruct vs)"
proof -
  have len: "length ts = length vs" "length cs = length vs" using assms(1,2) by (auto simp: list_all2_lengthD dest: list_all2_lengthD)
  have r: "Reflect_read L E (ts ! i) (json_of L E (ts ! i) (vs ! i)) c = Value (vs ! i)"
    if "i < length ts" "neutral E (ts ! i) c" for i c
    using assms(3) [of "(ts ! i, vs ! i)" c] that len by (metis fst_conv in_set_zip snd_conv)
  have n: "neutral E (ts ! i) (cs ! i)" if "i < length ts" for i using assms(2) that by (simp add: list_all2_conv_all_nth)
  have "rd_fold (\<lambda>j (i, c). if i < length ts then
              rd_map (\<lambda>v. (Suc i, VStruct ((elems c)[i := v]))) (Reflect_read L E (ts ! i) j (elems c ! i)) else Value (Suc i, c))
           (map (\<lambda>p. json_of L E (fst p) (snd p)) (zip ts vs)) (0, VStruct cs) = Value (length vs, VStruct vs)"
    by (rule fold_tuple [where R = "Reflect_read L E" and P = "neutral E" and f = "json_of L E" and k = 0])
       (use len r n in auto)
  then show ?thesis by (simp add: Reflect_read.simps(18) IterArray_def)
qed

lemma read_marked:
  "nul_free l \<Longrightarrow> nul_free s \<Longrightarrow> length cs = 2 \<Longrightarrow>
   Reflect_read L E TMarkedString (marked_json [VSome (VString l), VString s]) (VStruct cs) = Value (VStruct [VSome (VString l), VString s])"
  by (auto simp: Reflect_read.simps marked_members_def member_name_def member_type_def DoMember_def read_string IsNull_def
      length_Suc_conv numeral_2_eq_2)

lemma read_json:
  "env_rt E \<Longrightarrow> rt_ty E t \<Longrightarrow> sendable L E t v \<Longrightarrow> neutral E t cur \<Longrightarrow>
   Reflect_read L E t (json_of L E t v) cur = Value v"
proof (induction L E t v arbitrary: cur rule: json_of.induct)
  case (1 L E t v)
  then show ?case by (auto simp: Reflect_read.simps(8) sendable_iff json_nonnull) (simp add: IsNull_def)
next
  case (2 L E t v)
  then show ?case by (auto simp: Reflect_read.simps(9) sendable_iff json_nonnull) (simp add: IsNull_def)
next
  case (3 L E t v)
  then obtain vs where v: "v = VList vs" "\<forall>x\<in>set vs. sendable L E t x" by (auto simp: sendable_iff)
  have "Reflect_read L E t (json_of L E t x) (fresh E t) = Value x" if "x \<in> set vs" for x
    using 3(1) [OF v(1) that 3(2)] 3(3) v(2) that by simp
  then show ?case using 3(5) fold_vector [where R = "\<lambda>j. Reflect_read L E t j (fresh E t)" and f = "json_of L E t" and acc = "[]"]
    by (simp add: Reflect_read.simps(10) IterArray_def v)
next
  case (4 L E t v)
  then obtain kvs where v: "v = VMap kvs" "map_ok kvs" "\<forall>p\<in>set kvs. nul_free (fst p) \<and> sendable L E t (snd p)"
    by (auto simp: sendable_iff)
  have "Reflect_read L E t (json_of L E t (snd p)) (fresh E t) = Value (snd p)" if "p \<in> set kvs" for p
    using 4(1) [OF v(1) that 4(2)] 4(3) v(3) that by simp
  then show ?case using 4(5) v(2,3) fold_map [where R = "\<lambda>j. Reflect_read L E t j (fresh E t)" and f = "json_of L E t" and acc = "[]" and kvs = kvs]
    by (simp add: Reflect_read.simps(11) IterMap_def v)
next
  case (5 L E c t1 t2 v)
  then obtain x where x: "v = VPair (VSome x) VNone \<and> sendable L E t1 x
      \<or> v = VPair VNone (VSome x) \<and> sendable L E t2 x \<and> any_guard L c t2 x"
    by (auto simp: sendable_iff)
  show ?case unfolding 5(6) [unfolded neutral.simps]
  proof (rule read_pair [OF 5(4), of v x])
    show "v = VPair (VSome x) VNone \<and> sendable L E t1 x \<and> Reflect_read L E t1 (json_of L E t1 x) (fresh E t1) = Value x
         \<or> v = VPair VNone (VSome x) \<and> sendable L E t2 x \<and> any_guard L c t2 x
           \<and> Reflect_read L E t2 (json_of L E t2 x) (fresh E t2) = Value x"
      using x 5(1,2,3,4) by auto
  qed
next
  case (8 L E ms v)
  then obtain vs cs where v: "v = VStruct vs" "cur = VStruct cs" "list_all2 (\<lambda>m. sendable L E (member_type m)) ms vs"
      "list_all2 (\<lambda>m. neutral E (member_type m)) ms cs"
    by (auto simp: sendable_iff val_case_iff)
  show ?case unfolding Reflect_read.simps(15) v(1,2) json_of.simps val.case
    using 8(3) v(4) list_all2_lengthD [OF v(3)]
  proof (rule read_struct)
    fix p c assume "p \<in> set (zip ms vs)" "rt_ty E (member_type (fst p))" "neutral E (member_type (fst p)) c"
    then show "Reflect_read L E (member_type (fst p)) (json_of L E (member_type (fst p)) (snd p)) c = Value (snd p)"
      using 8(1) [OF v(1) _ 8(2)] list_all2_zip_set [OF v(3)] by blast
  qed
next
  case (9 L E s v)
  then obtain vs cs where v: "v = VStruct vs" "cur = VStruct cs" "list_all2 (\<lambda>m. sendable L E (member_type m)) (E s) vs"
      "list_all2 (\<lambda>m. neutral E (member_type m)) (E s) cs"
    by (auto simp: sendable_iff val_case_iff)
  have "rt_ty E (TStruct (E s))" using 9(2) by (simp only: env_rt_def)
  then show ?case unfolding Reflect_read.simps(16) v(1,2) json_of.simps val.case
    using v(4) list_all2_lengthD [OF v(3)]
  proof (rule read_struct)
    fix p c assume "p \<in> set (zip (E s) vs)" "rt_ty E (member_type (fst p))" "neutral E (member_type (fst p)) c"
    then show "Reflect_read L E (member_type (fst p)) (json_of L E (member_type (fst p)) (snd p)) c = Value (snd p)"
      using 9(1) [OF v(1) _ 9(2)] list_all2_zip_set [OF v(3)] by blast
  qed
next
  case (6 L E t1 t2 v)
  then obtain x where x: "v = VPair (VSome x) VNone" "sendable L E (TVector t1) x" by (auto simp: sendable_iff)
  have "Reflect_read L E (TVector t1) (json_of L E (TVector t1) x) (VList []) = Value x"
    using 6(2) [OF x(1) refl 6(3)] 6(4) x(2) by auto
  from read_locations [OF 6(4) x(2) this] 6(6) show ?case by (simp add: x)
next
  case (7 L E t1 t2 v)
  then obtain x where x: "v = VPair (VSome x) VNone \<and> sendable L E (TVector t1) x \<or> v = VPair VNone (VSome x) \<and> sendable L E t2 x"
    by (auto simp: sendable_iff)
  show ?case unfolding 7(6) [unfolded neutral.simps]
  proof (rule read_hover [OF 7(4), of v x])
    show "v = VPair (VSome x) VNone \<and> sendable L E (TVector t1) x
           \<and> Reflect_read L E (TVector t1) (json_of L E (TVector t1) x) (VList []) = Value x
         \<or> v = VPair VNone (VSome x) \<and> sendable L E t2 x \<and> Reflect_read L E t2 (json_of L E t2 x) (fresh E t2) = Value x"
      using x 7(1,2,3,4) by auto
  qed
next
  case (10 L E ts v)
  then obtain vs cs where v: "v = VStruct vs" "cur = VStruct cs" "list_all2 (sendable L E) ts vs" "list_all2 (neutral E) ts cs"
    by (auto simp: sendable_iff val_case_iff)
  show ?case unfolding v(1,2) using v(3,4)
  proof (rule read_tuple)
    fix p c assume p: "p \<in> set (zip ts vs)" "neutral E (fst p) c"
    have "fst p \<in> set ts" using p(1) by (metis prod.collapse set_zip_leftD)
    then have "rt_ty E (fst p)" using 10(3) by (simp add: list_all_iff)
    then show "Reflect_read L E (fst p) (json_of L E (fst p) (snd p)) c = Value (snd p)"
      using 10(1) [OF v(1) p(1) 10(2)] list_all2_zip_set [OF v(3) p(1)] p(2) by blast
  qed
next
  case (11 L E d rt wt v)
  then obtain n where n: "v = VInt n" "n \<in> fst ` set wt" by (auto simp: sendable_scalar val_case_iff)
  from read_names [OF 11(2) n(2)] show ?case by (simp add: Reflect_read.simps(19) n(1))
next
  case (12 L E v)
  then obtain vs where "v = VStruct vs" by (auto simp: sendable_iff)
  with 12 show ?case using read_keydata [of L E vs] by (simp add: Reflect_read.simps(20))
next
  case (13 L E v)
  then show ?case by (auto simp: sendable_iff val_case_iff intro!: read_marked simp del: marked_json.simps)
qed (auto simp: Reflect_read.simps sendable_scalar val_case_iff read_int read_string read_id read_any Reflect_bool_def
       Reflect_double_def IsBool_def GetBool_def IsNumber_def GetDouble_def split: val.splits simp del: scalar_json.simps(5))

section \<open>Types as wire formats\<close>

text \<open>
  What the messages rely on: a type whose writer and reader agree.  The laws are executable checks of
  the type; what follows from them is the round trip, and that no two values share a document.
\<close>

locale wire_format =
  fixes E :: tenv and t :: ty
  assumes environment: "env_rt E"
    and returning: "rt_ty E t"
    and constructed: "neutral E t (fresh E t)"
begin

lemma written: "sendable L E t v \<Longrightarrow> document L (Reflect_write E t v) = Some (json_of L E t v)"
  using writes_json [of L E t v] by (simp add: writes_def document_def)

lemma read_back: "sendable L E t v \<Longrightarrow> Reflect_read L E t (json_of L E t v) (fresh E t) = Value v"
  by (rule read_json [OF environment returning _ constructed])

lemma document_determines_value:
  assumes "sendable L E t v" "sendable L E t w" "document L (Reflect_write E t v) = document L (Reflect_write E t w)"
  shows "v = w"
proof -
  have "json_of L E t v = json_of L E t w" using assms by (simp add: written)
  then have "Value v = Value w" by (metis read_back [OF assms(1)] read_back [OF assms(2)])
  then show ?thesis by simp
qed

end

text \<open>The formats of the protocol's elementary data.\<close>

lemma env_rt_empty: "env_rt (\<lambda>s. [])"
  by (simp add: env_rt_def)

interpretation string_wire: wire_format "\<lambda>s. []" TString
  by (rule wire_format.intro) (simp_all add: env_rt_empty)

interpretation id_wire: wire_format "\<lambda>s. []" TRequestId
  by (rule wire_format.intro) (simp_all add: env_rt_empty)

end
