(* ===== verification/Protocol_Handler.thy ===== *)
theory Protocol_Handler
  imports Protocol_Messages Json_Roundtrip
begin

text \<open>
  The parser table of the protocol (\<^verbatim>\<open>src/lsp/ProtocolJsonHandler.cpp\<close>): the parsers that it registers
  by method, built from the readers of the message structs, and what the endpoint's classification
  makes of the messages that the writers of those structs produce.
\<close>

section \<open>Parsers of messages\<close>

fun id_value :: "val \<Rightarrow> lsRequestId" where
  "id_value (VId i) = i"
| "id_value v = kNone"

fun string_value :: "val \<Rightarrow> string" where
  "string_value (VString s) = s"
| "string_value v = []"

fun int_value :: "val \<Rightarrow> int" where
  "int_value (VInt n) = n"
| "int_value v = 0"

text \<open>
  What the endpoint sees of a message struct (\<^verbatim>\<open>GetKid\<close>, \<^verbatim>\<open>id\<close>, \<^verbatim>\<open>GetMethodType\<close>, \<^verbatim>\<open>IsErrorType\<close>, and
  \<^verbatim>\<open>params.id\<close> of a cancellation).
\<close>

definition request_message :: "val \<Rightarrow> LspMessage" where
  "request_message v =
     \<lparr>msg_kind = REQUEST_MESSAGE, msg_id = id_value (elems v ! 1), msg_method = string_value (elems v ! 2),
      msg_error = None, cancel_id = kNone, msg_body = elems v ! 3\<rparr>"

definition response_message :: "val \<Rightarrow> LspMessage" where
  "response_message v =
     \<lparr>msg_kind = RESPONCE_MESSAGE, msg_id = id_value (elems v ! 1), msg_method = [],
      msg_error = None, cancel_id = kNone, msg_body = elems v ! 2\<rparr>"

definition notification_message :: "val \<Rightarrow> LspMessage" where
  "notification_message v =
     \<lparr>msg_kind = NOTIFICATION_MESSAGE, msg_id = kNone, msg_method = string_value (elems v ! 1), msg_error = None,
      cancel_id =
        (if string_value (elems v ! 1) = notify_method Notify_Cancellation then id_value (elems (elems v ! 2) ! 0) else kNone),
      msg_body = elems v ! 2\<rparr>"

definition error_message :: "val \<Rightarrow> LspMessage" where
  "error_message v =
     \<lparr>msg_kind = RESPONCE_MESSAGE, msg_id = id_value (elems v ! 1), msg_method = [],
      msg_error = Some (int_value (elems (elems v ! 2) ! 0), string_value (elems (elems v ! 2) ! 1)),
      cancel_id = kNone, msg_body = elems v ! 2\<rparr>"

text \<open>
  \<^verbatim>\<open>ReflectReader\<close>: a new message is read from the document.  A violated precondition of rapidjson is an
  assertion of that library; it is counted as an exception here.
\<close>

definition ReflectReader :: "jsonlib \<Rightarrow> ty \<Rightarrow> (val \<Rightarrow> LspMessage) \<Rightarrow> json \<Rightarrow> parse_result" where
  "ReflectReader L t f j =
     (case Reflect_read L protocol_env t j (fresh protocol_env t) of
        Value v \<Rightarrow> Parsed (f v)
      | Throw e k \<Rightarrow> Throws e
      | Undefined \<Rightarrow> Throws ''assertion'')"

definition read_error :: "jsonlib \<Rightarrow> json \<Rightarrow> parse_result" where
  "read_error L = ReflectReader L Rsp_Error_t error_message"

definition read_request :: "jsonlib \<Rightarrow> rpc \<Rightarrow> json \<Rightarrow> parse_result" where
  "read_request L r = ReflectReader L (request_type r) request_message"

definition read_response :: "jsonlib \<Rightarrow> rpc \<Rightarrow> json \<Rightarrow> parse_result" where
  "read_response L r j =
     (if HasMember j ''error'' then read_error L j else ReflectReader L (response_type r) response_message j)"

definition read_request_or_error :: "jsonlib \<Rightarrow> rpc \<Rightarrow> json \<Rightarrow> parse_result" where
  "read_request_or_error L r j = (if HasMember j ''error'' then read_error L j else read_request L r j)"

definition read_notification :: "jsonlib \<Rightarrow> rpc_notify \<Rightarrow> json \<Rightarrow> parse_result" where
  "read_notification L n = ReflectReader L (notify_type n) notification_message"

section \<open>The registrations\<close>

datatype registration = OnResponse rpc | OnRequest rpc | OnRequestOrError rpc | OnNotification rpc_notify

text \<open>An assignment \<^verbatim>\<open>handler.method2...[kMethodInfo] = ...\<close>.\<close>

definition register :: "jsonlib \<Rightarrow> registration \<Rightarrow> MessageJsonHandler \<Rightarrow> MessageJsonHandler" where
  "register L g h =
     (case g of
        OnResponse r \<Rightarrow> SetResponseJsonHandler (rpc_method r) (read_response L r) h
      | OnRequest r \<Rightarrow> SetRequestJsonHandler (rpc_method r) (read_request L r) h
      | OnRequestOrError r \<Rightarrow> SetRequestJsonHandler (rpc_method r) (read_request_or_error L r) h
      | OnNotification n \<Rightarrow> SetNotificationJsonHandler (notify_method n) (read_notification L n) h)"

definition AddStadardResponseJsonRpcMethod_1 :: "registration list" where
  "AddStadardResponseJsonRpcMethod_1 =
    [OnResponse td_initialize,
     OnResponse td_shutdown,
     OnResponse td_codeAction,
     OnResponse td_codeLens,
     OnResponse td_completion,
     OnResponse td_definition,
     OnResponse td_declaration,
     OnResponse td_willSaveWaitUntil,
     OnResponse td_highlight,
     OnResponse td_links,
     OnResponse td_linkResolve,
     OnResponse td_symbol,
     OnResponse td_formatting,
     OnResponse td_hover,
     OnResponse td_implementation,
     OnResponse td_rangeFormatting]"

definition AddStadardResponseJsonRpcMethod_2 :: "registration list" where
  "AddStadardResponseJsonRpcMethod_2 =
    [OnResponse td_references,
     OnResponse td_rename,
     OnResponse td_signatureHelp,
     OnResponse td_typeDefinition,
     OnResponse wp_executeCommand,
     OnResponse wp_symbol,
     OnResponse td_typeHierarchy,
     OnResponse completionItem_resolve,
     OnResponse codeLens_resolve,
     OnResponse td_colorPresentation,
     OnResponse td_documentColor,
     OnResponse td_foldingRange,
     OnResponse td_prepareRename,
     OnResponse typeHierarchy_resolve,
     OnResponse td_selectionRange,
     OnResponse td_semanticTokens_full]"

definition AddStadardResponseJsonRpcMethod_3 :: "registration list" where
  "AddStadardResponseJsonRpcMethod_3 =
    [OnResponse td_semanticTokens_full_delta,
     OnResponse td_inlayHint,
     OnResponse td_inlayHintResolve,
     OnResponse td_diagnostic,
     OnResponse workspace_diagnostic,
     OnResponse td_inlineValue,
     OnResponse td_inlineCompletion,
     OnResponse td_rangesFormatting,
     OnResponse workspace_textDocumentContent,
     OnResponse workspace_textDocumentContent_refresh,
     OnResponse workspace_foldingRange_refresh,
     OnResponse workspace_inlineValue_refresh,
     OnResponse codeAction_resolve,
     OnResponse workspaceSymbol_resolve]"

definition AddStadardResponseJsonRpcMethod :: "registration list" where
  "AddStadardResponseJsonRpcMethod = AddStadardResponseJsonRpcMethod_1 @ AddStadardResponseJsonRpcMethod_2 @ AddStadardResponseJsonRpcMethod_3"

definition AddJdtlsExtensionJsonRpcMethod_1 :: "registration list" where
  "AddJdtlsExtensionJsonRpcMethod_1 =
    [OnResponse java_classFileContents,
     OnResponse java_buildWorkspace,
     OnResponse java_listOverridableMethods,
     OnResponse java_listOverridableMethods,
     OnResponse java_checkHashCodeEqualsStatus,
     OnResponse java_addOverridableMethods,
     OnResponse java_checkConstructorsStatus,
     OnResponse java_checkDelegateMethodsStatus,
     OnResponse java_checkToStringStatus,
     OnResponse java_generateAccessors,
     OnResponse java_generateConstructors,
     OnResponse java_generateDelegateMethods,
     OnResponse java_generateHashCodeEquals,
     OnResponse java_generateToString,
     OnResponse java_generateToString]"

definition AddJdtlsExtensionJsonRpcMethod_2 :: "registration list" where
  "AddJdtlsExtensionJsonRpcMethod_2 =
    [OnResponse java_getMoveDestinations,
     OnResponse java_getRefactorEdit,
     OnResponse java_move,
     OnResponse java_organizeImports,
     OnResponse java_resolveUnimplementedAccessors,
     OnResponse java_searchSymbols,
     OnResponse td_didRenameFiles,
     OnResponse td_willRenameFiles,
     OnRequest td_didRenameFiles,
     OnRequest td_willRenameFiles,
     OnNotification java_projectConfigurationUpdate]"

definition AddJdtlsExtensionJsonRpcMethod :: "registration list" where
  "AddJdtlsExtensionJsonRpcMethod = AddJdtlsExtensionJsonRpcMethod_1 @ AddJdtlsExtensionJsonRpcMethod_2"

definition AddClientRequestJsonRpcMethod :: "registration list" where
  "AddClientRequestJsonRpcMethod =
    [OnRequest WorkspaceConfiguration,
     OnRequest WorkspaceFolders]"

definition AddNotifyJsonRpcMethod :: "registration list" where
  "AddNotifyJsonRpcMethod =
    [OnNotification Notify_Exit,
     OnNotification Notify_InitializedNotification,
     OnNotification Notify_TextDocumentDidChange,
     OnNotification Notify_TextDocumentDidClose,
     OnNotification Notify_TextDocumentDidOpen,
     OnNotification Notify_TextDocumentDidSave,
     OnNotification Notify_TextDocumentPublishDiagnostics,
     OnNotification Notify_semanticHighlighting,
     OnNotification td_willSave,
     OnNotification Notify_LogMessage,
     OnNotification Notify_ShowMessage,
     OnNotification Notify_Progress,
     OnNotification Notify_WorkspaceDidChangeWorkspaceFolders,
     OnNotification Notify_WorkspaceDidChangeConfiguration,
     OnNotification Notify_WorkspaceDidChangeWatchedFiles,
     OnNotification Notify_sendNotification,
     OnNotification lang_status,
     OnNotification lang_actionableNotification,
     OnNotification lang_progressReport,
     OnNotification lang_eventNotification]"

definition AddRequstJsonRpcMethod :: "registration list" where
  "AddRequstJsonRpcMethod =
    [OnRequest Req_ClientRegisterCapability,
     OnRequest Req_ClientUnregisterCapability]"

definition AddStandardRequestJsonRpcMethod :: "registration list" where
  "AddStandardRequestJsonRpcMethod =
    [OnRequest td_initialize,
     OnRequest td_shutdown,
     OnRequest td_codeAction,
     OnRequest td_codeLens,
     OnRequest td_completion,
     OnRequest td_definition,
     OnRequest td_declaration,
     OnRequest td_references,
     OnRequest td_rename,
     OnRequest wp_symbol,
     OnRequestOrError td_willSaveWaitUntil,
     OnRequest td_highlight,
     OnRequest td_links,
     OnRequest td_linkResolve,
     OnRequest td_symbol,
     OnRequest td_formatting,
     OnRequest td_hover,
     OnRequest td_signatureHelp,
     OnRequest td_implementation,
     OnRequest td_foldingRange,
     OnRequest wp_executeCommand,
     OnRequest td_semanticTokens_full,
     OnRequest td_semanticTokens_full_delta,
     OnRequest td_inlayHint,
     OnRequest td_inlayHintResolve,
     OnRequest td_diagnostic,
     OnRequest workspace_diagnostic,
     OnRequest td_inlineValue,
     OnRequest td_inlineCompletion,
     OnRequest td_rangesFormatting,
     OnRequest workspace_textDocumentContent,
     OnRequest workspace_textDocumentContent_refresh,
     OnRequest workspace_foldingRange_refresh,
     OnRequest workspace_inlineValue_refresh,
     OnRequest codeAction_resolve,
     OnRequest workspaceSymbol_resolve]"

definition AddExperimentalStandardRequestJsonRpcMethod :: "registration list" where
  "AddExperimentalStandardRequestJsonRpcMethod =
    [OnRequest td_prepareRename,
     OnRequest td_selectionRange,
     OnRequest td_typeDefinition,
     OnRequest td_rangeFormatting,
     OnRequest td_onTypeFormatting,
     OnRequest WorkspaceApply,
     OnResponse td_onTypeFormatting,
     OnResponse WorkspaceApply]"

definition AddServerRefreshRequestJsonRpcMethod :: "registration list" where
  "AddServerRefreshRequestJsonRpcMethod =
    [OnRequest workspace_semanticTokens_refresh,
     OnRequest workspace_inlayHint_refresh,
     OnRequest workspace_diagnostic_refresh,
     OnResponse workspace_semanticTokens_refresh,
     OnResponse workspace_inlayHint_refresh,
     OnResponse workspace_diagnostic_refresh]"

record ProtocolJsonHandlerOptions =
  enableJdtlsExtensions :: bool
  enableExperimentalStandardRequests :: bool
  enableServerRefreshRequests :: bool

text \<open>The constructor: the groups in its order.\<close>

definition registrations :: "ProtocolJsonHandlerOptions \<Rightarrow> registration list" where
  "registrations options =
     AddStadardResponseJsonRpcMethod @ AddNotifyJsonRpcMethod @ AddStandardRequestJsonRpcMethod
     @ AddRequstJsonRpcMethod @ AddClientRequestJsonRpcMethod
     @ (if enableJdtlsExtensions options then AddJdtlsExtensionJsonRpcMethod else [])
     @ (if enableExperimentalStandardRequests options then AddExperimentalStandardRequestJsonRpcMethod else [])
     @ (if enableServerRefreshRequests options then AddServerRefreshRequestJsonRpcMethod else [])"

definition empty_handler :: MessageJsonHandler where
  "empty_handler = \<lparr>method2request = (\<lambda>m. None), method2response = (\<lambda>m. None), method2notification = (\<lambda>m. None)\<rparr>"

definition ProtocolJsonHandler :: "jsonlib \<Rightarrow> ProtocolJsonHandlerOptions \<Rightarrow> MessageJsonHandler" where
  "ProtocolJsonHandler L options = fold (register L) (registrations options) empty_handler"

definition default_options :: ProtocolJsonHandlerOptions where
  "default_options =
     \<lparr>enableJdtlsExtensions = False, enableExperimentalStandardRequests = False, enableServerRefreshRequests = False\<rparr>"

section \<open>What the table holds\<close>

text \<open>A lookup finds the last registration of the method.\<close>

definition request_entries :: "registration list \<Rightarrow> (string \<times> registration) list" where
  "request_entries gs = concat (map (\<lambda>g. case g of OnRequest r \<Rightarrow> [(rpc_method r, g)] | OnRequestOrError r \<Rightarrow> [(rpc_method r, g)] | _ \<Rightarrow> []) gs)"

definition response_entries :: "registration list \<Rightarrow> (string \<times> registration) list" where
  "response_entries gs = concat (map (\<lambda>g. case g of OnResponse r \<Rightarrow> [(rpc_method r, g)] | _ \<Rightarrow> []) gs)"

definition notification_entries :: "registration list \<Rightarrow> (string \<times> registration) list" where
  "notification_entries gs = concat (map (\<lambda>g. case g of OnNotification n \<Rightarrow> [(notify_method n, g)] | _ \<Rightarrow> []) gs)"

definition parser_of :: "jsonlib \<Rightarrow> registration \<Rightarrow> json \<Rightarrow> parse_result" where
  "parser_of L g =
     (case g of OnResponse r \<Rightarrow> read_response L r | OnRequest r \<Rightarrow> read_request L r
      | OnRequestOrError r \<Rightarrow> read_request_or_error L r | OnNotification n \<Rightarrow> read_notification L n)"

lemmas set_handler_defs = register_def SetRequestJsonHandler_def SetResponseJsonHandler_def SetNotificationJsonHandler_def

lemma register_one:
  "method2request (register L g h) = method2request h ++ (map_option (parser_of L) \<circ> map_of (rev (request_entries [g])))"
  "method2response (register L g h) = method2response h ++ (map_option (parser_of L) \<circ> map_of (rev (response_entries [g])))"
  "method2notification (register L g h) = method2notification h ++ (map_option (parser_of L) \<circ> map_of (rev (notification_entries [g])))"
  by (cases g; simp add: set_handler_defs parser_of_def request_entries_def response_entries_def notification_entries_def
      fun_eq_iff map_add_def)+

lemma entries_Cons:
  "request_entries (g # gs) = request_entries [g] @ request_entries gs"
  "response_entries (g # gs) = response_entries [g] @ response_entries gs"
  "notification_entries (g # gs) = notification_entries [g] @ notification_entries gs"
  by (simp_all add: request_entries_def response_entries_def notification_entries_def)

lemma entries_Nil [simp]:
  "request_entries [] = []" "response_entries [] = []" "notification_entries [] = []"
  by (simp_all add: request_entries_def response_entries_def notification_entries_def)

lemma table_append:
  "m ++ (map_option f \<circ> map_of (rev (xs @ ys))) = (m ++ (map_option f \<circ> map_of (rev xs))) ++ (map_option f \<circ> map_of (rev ys))"
  by (auto simp: fun_eq_iff map_add_def split: option.split)

lemma fold_register:
  "method2request (fold (register L) gs h) = method2request h ++ (map_option (parser_of L) \<circ> map_of (rev (request_entries gs)))
   \<and> method2response (fold (register L) gs h) = method2response h ++ (map_option (parser_of L) \<circ> map_of (rev (response_entries gs)))
   \<and> method2notification (fold (register L) gs h) =
       method2notification h ++ (map_option (parser_of L) \<circ> map_of (rev (notification_entries gs)))"
proof (induction gs arbitrary: h)
  case Nil
  show ?case by (simp add: fun_eq_iff map_add_def)
next
  case (Cons g gs)
  show ?case
    by (simp only: fold_simps Cons.IH register_one entries_Cons [of g gs] table_append)
qed

lemma map_of_rev_distinct: "distinct (map fst xs) \<Longrightarrow> (k, v) \<in> set xs \<Longrightarrow> map_of (rev xs) k = Some v"
  by (simp add: rev_map [symmetric])

lemma method2request_ProtocolJsonHandler:
  "method2request (ProtocolJsonHandler L opts) m = map_option (parser_of L) (map_of (rev (request_entries (registrations opts))) m)"
  "method2response (ProtocolJsonHandler L opts) m = map_option (parser_of L) (map_of (rev (response_entries (registrations opts))) m)"
  "method2notification (ProtocolJsonHandler L opts) m =
     map_option (parser_of L) (map_of (rev (notification_entries (registrations opts))) m)"
  by (simp_all add: ProtocolJsonHandler_def fold_register empty_handler_def)

definition all_options :: ProtocolJsonHandlerOptions where
  "all_options =
     \<lparr>enableJdtlsExtensions = True, enableExperimentalStandardRequests = True, enableServerRefreshRequests = True\<rparr>"

lemma request_methods_all: "distinct (map fst (request_entries (registrations all_options)))"
  by code_simp

lemma notification_methods_all: "distinct (map fst (notification_entries (registrations all_options)))"
  by code_simp

lemma entries_append:
  "request_entries (gs @ hs) = request_entries gs @ request_entries hs"
  "response_entries (gs @ hs) = response_entries gs @ response_entries hs"
  "notification_entries (gs @ hs) = notification_entries gs @ notification_entries hs"
  by (simp_all add: request_entries_def response_entries_def notification_entries_def)

lemma distinct_optional:
  "distinct (map fst (a @ x @ y @ z)) \<Longrightarrow>
   distinct (map fst (a @ (if p then x else []) @ (if q then y else []) @ (if r then z else [])))"
  by (auto split: if_splits)

definition base_registrations :: "registration list" where
  "base_registrations =
     AddStadardResponseJsonRpcMethod @ AddNotifyJsonRpcMethod @ AddStandardRequestJsonRpcMethod
     @ AddRequstJsonRpcMethod @ AddClientRequestJsonRpcMethod"

lemma registrations_base:
  "registrations opts = base_registrations
     @ (if enableJdtlsExtensions opts then AddJdtlsExtensionJsonRpcMethod else [])
     @ (if enableExperimentalStandardRequests opts then AddExperimentalStandardRequestJsonRpcMethod else [])
     @ (if enableServerRefreshRequests opts then AddServerRefreshRequestJsonRpcMethod else [])"
  by (simp add: registrations_def base_registrations_def)

lemma entries_if:
  "request_entries (if p then gs else []) = (if p then request_entries gs else [])"
  "notification_entries (if p then gs else []) = (if p then notification_entries gs else [])"
  by simp_all

lemma request_methods_distinct: "distinct (map fst (request_entries (registrations opts)))"
  unfolding registrations_base entries_append entries_if
  by (rule distinct_optional)
     (use request_methods_all in \<open>simp add: registrations_base entries_append all_options_def\<close>)

lemma notification_methods_distinct: "distinct (map fst (notification_entries (registrations opts)))"
  unfolding registrations_base entries_append entries_if
  by (rule distinct_optional)
     (use notification_methods_all in \<open>simp add: registrations_base entries_append all_options_def\<close>)

lemma request_registered:
  assumes "OnRequest r \<in> set (registrations opts)"
  shows "method2request (ProtocolJsonHandler L opts) (rpc_method r) = Some (read_request L r)"
proof -
  have "(rpc_method r, OnRequest r) \<in> set (request_entries (registrations opts))"
    using assms by (force simp: request_entries_def)
  with request_methods_distinct show ?thesis
    by (simp add: method2request_ProtocolJsonHandler map_of_rev_distinct parser_of_def)
qed

lemma notification_registered:
  assumes "OnNotification n \<in> set (registrations opts)"
  shows "method2notification (ProtocolJsonHandler L opts) (notify_method n) = Some (read_notification L n)"
proof -
  have "(notify_method n, OnNotification n) \<in> set (notification_entries (registrations opts))"
    using assms by (force simp: notification_entries_def)
  with notification_methods_distinct show ?thesis
    by (simp add: method2request_ProtocolJsonHandler map_of_rev_distinct parser_of_def)
qed

end
