(* ===== verification/Protocol_Properties.thy ===== *)
theory Protocol_Properties
  imports Protocol_Handler
begin

text \<open>
  Properties of the protocol's data types: every type is read type-safely, and all but the listed ones
  come back as they were written.
\<close>

section \<open>The protocol's types\<close>

definition protocol_types :: "(string \<times> ty) list" where
  "protocol_types = core_types @ capability_types @ feature_types @ extension_types"

text \<open>
  The types that do not always come back: an empty optional member whose initializer is not empty
  (\<^verbatim>\<open>CreateFileOptions\<close>, \<^verbatim>\<open>DeleteFileOptions\<close>, \<^verbatim>\<open>lsCompletionOptions\<close>), the
  direction of a type hierarchy (\<^verbatim>\<open>Children\<close> is read as \<^verbatim>\<open>Both\<close>), a member that is reflected twice
  (\<^verbatim>\<open>CheckHashCodeEqualsResponse\<close>, \<^verbatim>\<open>lsTextDocumentClientCapabilities\<close>), and the types that contain one of them.
\<close>

definition lossy_types :: "string list" where
  "lossy_types =
     [''CreateFileOptions'', ''lsCreateFile'', ''DeleteFileOptions'', ''lsDeleteFile'', ''lsRenameFile'',
      ''lsTextDocumentClientCapabilities'', ''lsClientCapabilities'', ''lsCompletionOptions'', ''lsInitializeParams'',
      ''lsServerCapabilities'', ''InitializeResult'', ''ResolveTypeHierarchyItemParams'', ''TypeHierarchyParams'',
      ''CheckHashCodeEqualsResponse'']"

definition returns :: "ty \<Rightarrow> bool" where
  "returns t \<longleftrightarrow> rt_ty protocol_env t \<and> neutral protocol_env t (fresh protocol_env t)"

lemma core_types_return: "list_all (\<lambda>(n, t). n \<in> set lossy_types \<or> returns t) core_types"
  by code_simp

lemma capability_types_return: "list_all (\<lambda>(n, t). n \<in> set lossy_types \<or> returns t) capability_types"
  by code_simp

lemma feature_types_return: "list_all (\<lambda>(n, t). n \<in> set lossy_types \<or> returns t) feature_types"
  by code_simp

lemma extension_types_return: "list_all (\<lambda>(n, t). n \<in> set lossy_types \<or> returns t) extension_types"
  by code_simp

lemma protocol_types_return: "(n, t) \<in> set protocol_types \<Longrightarrow> n \<notin> set lossy_types \<Longrightarrow> returns t"
  using core_types_return capability_types_return feature_types_return extension_types_return
  by (fastforce simp: protocol_types_def list_all_iff)

lemma core_types_inits: "list_all (\<lambda>(n, t). inits_ok protocol_env t) core_types"
  by code_simp

lemma capability_types_inits: "list_all (\<lambda>(n, t). inits_ok protocol_env t) capability_types"
  by code_simp

lemma feature_types_inits: "list_all (\<lambda>(n, t). inits_ok protocol_env t) feature_types"
  by code_simp

lemma extension_types_inits: "list_all (\<lambda>(n, t). inits_ok protocol_env t) extension_types"
  by code_simp

lemma protocol_types_inits: "(n, t) \<in> set protocol_types \<Longrightarrow> inits_ok protocol_env t"
  using core_types_inits capability_types_inits feature_types_inits extension_types_inits
  by (fastforce simp: protocol_types_def list_all_iff)

text \<open>The structs that contain themselves.\<close>

lemma recursive_structs_rt:
  "rt_ty protocol_env (TStruct lsDocumentSymbol_members)" "rt_ty protocol_env (TStruct SelectionRange_members)"
  "rt_ty protocol_env (TStruct TypeHierarchyItem_members)"
  by code_simp+

lemma recursive_structs_inits:
  "inits_ok protocol_env (TStruct lsDocumentSymbol_members)" "inits_ok protocol_env (TStruct SelectionRange_members)"
  "inits_ok protocol_env (TStruct TypeHierarchyItem_members)"
  by code_simp+

lemma env_rt_protocol: "env_rt protocol_env"
  unfolding env_rt_def protocol_env_def [abs_def]
  using recursive_structs_rt by (simp add: protocol_env_def [abs_def])

lemma env_ok_protocol: "env_ok protocol_env"
  unfolding env_ok_def
  using recursive_structs_inits by (simp add: protocol_env_def del: inits_ok.simps) (simp add: protocol_env_def)

lemma returns_wire_format: "returns t \<Longrightarrow> wire_format protocol_env t"
  using env_rt_protocol by unfold_locales (auto simp: returns_def)

lemmas returns_value = wire_format.written [OF returns_wire_format] wire_format.read_back [OF returns_wire_format]

interpretation document_symbol_wire: wire_format protocol_env lsDocumentSymbol_t
  by (rule returns_wire_format) code_simp

interpretation diagnostic_wire: wire_format protocol_env lsDiagnostic_t
  by (rule returns_wire_format) code_simp

interpretation error_wire: wire_format protocol_env Rsp_Error_t
  by (rule returns_wire_format) code_simp

section \<open>Values on the wire\<close>

text \<open>C8: Serialization of the protocol loses nothing: for every data type of the protocol outside the
  listed exceptions, and every value of it that may be sent, the writer's calls describe one JSON
  document, and the reader of the type, applied to that document and a newly constructed variable,
  assigns exactly the value that was written.\<close>

theorem protocol_value_roundtrip:
  assumes "(n, t) \<in> set protocol_types" "n \<notin> set lossy_types" "sendable L protocol_env t v"
  shows "\<exists>j. document L (Reflect_write protocol_env t v) = Some j
           \<and> Reflect_read L protocol_env t j (fresh protocol_env t) = Value v"
  using returns_value [OF protocol_types_return [OF assms(1,2)] assms(3)] by blast

text \<open>A library whose printer and parser know one value, for the examples.\<close>

definition sample_lib :: jsonlib where
  "sample_lib = \<lparr>print_value = (\<lambda>j. ''{}''), parse_value = (\<lambda>s. if s = ''{}'' then Some (JObject []) else None),
     double_of_int = (\<lambda>n. ''0.0'')\<rparr>"

definition sample_range :: val where
  "sample_range = VStruct [VStruct [VInt 3, VInt 0], VStruct [VInt 3, VInt 7]]"

definition sample_symbol :: val where
  "sample_symbol =
     VStruct [VString ''main'', VInt 12, sample_range, sample_range, VSome (VString ''int ()''), VNone,
       VSome (VList [VStruct [VString ''x'', VInt 13, sample_range, sample_range, VNone, VNone, VNone, VInt 0]]), VInt 0]"

theorem protocol_value_roundtrip_witness:
  "\<exists>j. document sample_lib (Reflect_write protocol_env lsDocumentSymbol_t sample_symbol) = Some j
     \<and> Reflect_read sample_lib protocol_env lsDocumentSymbol_t j (fresh protocol_env lsDocumentSymbol_t) = Value sample_symbol"
proof (rule protocol_value_roundtrip [of "''lsDocumentSymbol''"])
  show "(''lsDocumentSymbol'', lsDocumentSymbol_t) \<in> set protocol_types"
    by (simp add: protocol_types_def core_types_def)
  show "''lsDocumentSymbol'' \<notin> set lossy_types" by code_simp
  show "sendable sample_lib protocol_env lsDocumentSymbol_t sample_symbol" by code_simp
qed

text \<open>C14: Reading is type safe: whatever JSON value a peer sends, if the reader of a data type of the
  protocol returns, the variable it assigned holds a value of that type, every nested member included.\<close>

theorem protocol_read_typed:
  assumes "(n, t) \<in> set protocol_types" "Reflect_read L protocol_env t j (fresh protocol_env t) = Value v"
  shows "has_type protocol_env t v"
  using Reflect_read_typed_lemma [OF env_ok_protocol protocol_types_inits [OF assms(1)]
      has_type_fresh [OF env_ok_protocol protocol_types_inits [OF assms(1)]] assms(2)] .

theorem protocol_read_typed_witness:
  "has_type protocol_env lsPosition_t (VStruct [VInt 705032704, VInt 0])"
proof (rule protocol_read_typed [of "''lsPosition''" _ sample_lib "JObject [(''line'', JNumber 5000000000)]"])
  show "(''lsPosition'', lsPosition_t) \<in> set protocol_types" by (simp add: protocol_types_def core_types_def)
  show "Reflect_read sample_lib protocol_env lsPosition_t (JObject [(''line'', JNumber 5000000000)]) (fresh protocol_env lsPosition_t) =
      Value (VStruct [VInt 705032704, VInt 0])"
    by code_simp
qed

end
