(* ===== verification/Protocol_Wire.thy ===== *)
theory Protocol_Wire
  imports Protocol_Properties
begin

text \<open>
  Messages from one endpoint to the other: a request, a response or a notification that the writer of
  its struct produced is classified by \<^verbatim>\<open>RemoteEndPoint::parseAndClassify\<close>, with the protocol's parser
  table, as a message with the same identifier, method and contents.
\<close>

section \<open>Messages on the wire\<close>

text \<open>The requests, responses and notifications that do not always come back, for the reasons above, or
  because an engaged \<^verbatim>\<open>optional<JsonNull>\<close> is written as null and read as empty.\<close>

definition lossy_requests :: "string list" where
  "lossy_requests = [''initialize'', ''shutdown'', ''workspace/workspaceFolders'']"

definition lossy_responses :: "string list" where
  "lossy_responses = [''initialize'', ''java/checkHashCodeEqualsStatus'']"

definition lossy_notifications :: "string list" where
  "lossy_notifications = [''exit'']"

lemma requests_return:
  "list_all (\<lambda>g. case g of OnRequest r \<Rightarrow> rpc_method r \<in> set lossy_requests \<or> returns (request_type r) \<and> nul_free (rpc_method r)
     | _ \<Rightarrow> True) (registrations all_options)"
  by code_simp

lemma responses_return:
  "list_all (\<lambda>g. case g of OnResponse r \<Rightarrow> rpc_method r \<in> set lossy_responses \<or> returns (response_type r) | _ \<Rightarrow> True)
     (registrations all_options)"
  by code_simp

lemma notifications_return:
  "list_all (\<lambda>g. case g of OnNotification n \<Rightarrow>
       notify_method n \<in> set lossy_notifications \<or> returns (notify_type n) \<and> nul_free (notify_method n)
     | _ \<Rightarrow> True) (registrations all_options)"
  by code_simp

lemma registrations_all: "g \<in> set (registrations opts) \<Longrightarrow> g \<in> set (registrations all_options)"
  by (auto simp: registrations_base all_options_def split: if_splits)

definition valid_id :: "lsRequestId \<Rightarrow> bool" where
  "valid_id i = (case i of kNone \<Rightarrow> False | kInt n \<Rightarrow> int64 n | kString s \<Rightarrow> nul_free s)"

text \<open>The struct that \<^verbatim>\<open>createRequest\<close> and the caller fill in.\<close>

definition request_value :: "rpc \<Rightarrow> lsRequestId \<Rightarrow> val \<Rightarrow> val" where
  "request_value r i p = VStruct [VString ''2.0'', VId i, VString (rpc_method r), p]"

definition response_value :: "lsRequestId \<Rightarrow> val \<Rightarrow> val" where
  "response_value i p = VStruct [VString ''2.0'', VId i, p]"

definition notify_value :: "rpc_notify \<Rightarrow> val \<Rightarrow> val" where
  "notify_value n p = VStruct [VString ''2.0'', VString (notify_method n), p]"

lemmas message_structs = request_type_def response_type_def notify_type_def request_value_def response_value_def notify_value_def
  version_member_def member_type_def member_name_def

lemma version_nul_free: "nul_free ''2.0''"
  by code_simp

lemma valid_id_sendable: "valid_id i \<Longrightarrow> sendable L E TRequestId (VId i)"
  by (cases i) (simp_all add: valid_id_def sendable_scalar)

lemma request_value_sendable:
  assumes "nul_free (rpc_method r)" "sendable L E (rpc_params r) p" "valid_id i"
  shows "sendable L E (request_type r) (request_value r i p)"
  using assms version_nul_free valid_id_sendable [OF assms(3), of L E]
  by (simp add: message_structs sendable_iff(8) sendable.simps(4))

lemma request_json:
  "json_of L E (request_type r) (request_value r i p) =
     JObject ([(''jsonrpc'', JString ''2.0''), (''id'', Reflect_write_id i), (''method'', JString (rpc_method r))]
       @ member_json (''params'', rpc_params r, None) p (json_of L E (rpc_params r) p))"
  by (simp add: message_structs member_json_def is_optional_def)

lemma request_json_shape:
  assumes "nul_free (rpc_method r)" "valid_id i" and j: "j = json_of L E (request_type r) (request_value r i p)"
  shows "version_ok j" "isRequestMessage j" "member_id j = i" "member_method j = rpc_method r" "\<not> HasMember j ''error''"
proof -
  have i: "Reflect_id (Reflect_write_id i) = i" using assms(2) by (cases i) (simp_all add: valid_id_def read_id)
  have v: "GetString (JString ''2.0'') = ''2.0''" "GetString (JString (rpc_method r)) = rpc_method r"
    using assms(1) version_nul_free by (simp_all add: GetString_def nul_free_def)
  note look = j request_json get_member_def HasMember_def member_json_def
  show "version_ok j" by (simp add: look version_ok_def v IsString_def)
  show "isRequestMessage j" by (simp add: look isRequestMessage_def method_is_string_def IsString_def)
  show "member_id j = i" by (simp add: look member_id_def i)
  show "member_method j = rpc_method r" by (simp add: look member_method_def v)
  show "\<not> HasMember j ''error''" by (simp add: look member_name_def)
qed

text \<open>What the receiving side makes of a request.\<close>

definition parsed_request :: "rpc \<Rightarrow> lsRequestId \<Rightarrow> val \<Rightarrow> ParsedMessage" where
  "parsed_request r i p =
     \<lparr>ok = True, outgoing = False, kind = REQUEST_MESSAGE,
      message = Some \<lparr>msg_kind = REQUEST_MESSAGE, msg_id = i, msg_method = rpc_method r, msg_error = None,
                      cancel_id = kNone, msg_body = p\<rparr>,
      pending = None\<rparr>"

definition requestable :: "jsonlib \<Rightarrow> ProtocolJsonHandlerOptions \<Rightarrow> rpc \<Rightarrow> lsRequestId \<Rightarrow> val \<Rightarrow> bool" where
  "requestable L opts r i p \<longleftrightarrow> OnRequest r \<in> set (registrations opts) \<and> rpc_method r \<notin> set lossy_requests
     \<and> sendable L protocol_env (rpc_params r) p \<and> valid_id i"

lemma request_arrives:
  assumes "requestable L opts r i p"
  shows "document L (Reflect_write protocol_env (request_type r) (request_value r i p)) =
           Some (json_of L protocol_env (request_type r) (request_value r i p))"
    and "parse_json content = Inr (json_of L protocol_env (request_type r) (request_value r i p)) \<Longrightarrow>
         parseAndClassify parse_json (ProtocolJsonHandler L opts) info content = (parsed_request r i p, [])"
proof -
  let ?j = "json_of L protocol_env (request_type r) (request_value r i p)"
  have a: "OnRequest r \<in> set (registrations opts)" "rpc_method r \<notin> set lossy_requests"
      "sendable L protocol_env (rpc_params r) p" "valid_id i"
    using assms by (auto simp: requestable_def)
  have r: "returns (request_type r)" "nul_free (rpc_method r)"
    using requests_return registrations_all [OF a(1)] a(2) by (auto simp: list_all_iff)
  note v = returns_value [OF r(1) request_value_sendable [OF r(2) a(3,4)]]
  show "document L (Reflect_write protocol_env (request_type r) (request_value r i p)) = Some ?j" by (rule v(1))
  have "parseRequstMessage (ProtocolJsonHandler L opts) (rpc_method r) ?j = Parsed (request_message (request_value r i p))"
    by (simp add: parseRequstMessage_def request_registered [OF a(1)] read_request_def ReflectReader_def v(2))
  with request_json_shape [OF r(2) a(4) refl, of L protocol_env p]
  show "parse_json content = Inr ?j \<Longrightarrow>
      parseAndClassify parse_json (ProtocolJsonHandler L opts) info content = (parsed_request r i p, [])"
    by (simp add: parseAndClassify_def classify_request_def Let_def request_message_def request_value_def parsed_request_def)
qed

text \<open>A request arrives: for every request of the parser table outside the listed exceptions, every
  valid identifier and all parameters that may be sent, the message that the writer produces is
  classified by the receiving endpoint, whatever it waits for, as a request with that identifier,
  that method and exactly those parameters.\<close>

theorem request_on_wire:
  assumes "OnRequest r \<in> set (registrations opts)" "rpc_method r \<notin> set lossy_requests"
    and "sendable L protocol_env (rpc_params r) p" "valid_id i"
  shows "\<exists>j. document L (Reflect_write protocol_env (request_type r) (request_value r i p)) = Some j
    \<and> (\<forall>parse_json content info. parse_json content = Inr j \<longrightarrow>
         parseAndClassify parse_json (ProtocolJsonHandler L opts) info content =
           (\<lparr>ok = True, outgoing = False, kind = REQUEST_MESSAGE,
             message = Some \<lparr>msg_kind = REQUEST_MESSAGE, msg_id = i, msg_method = rpc_method r, msg_error = None,
                             cancel_id = kNone, msg_body = p\<rparr>,
             pending = None\<rparr>, []))"
proof -
  have "requestable L opts r i p" using assms by (simp add: requestable_def)
  from request_arrives [OF this] show ?thesis by (auto simp: parsed_request_def)
qed

definition sample_hover :: val where
  "sample_hover = VStruct [VStruct [VString ''file:///a.cpp''], VStruct [VInt 3, VInt 14], VNone]"

theorem request_on_wire_witness:
  "\<exists>j. document sample_lib (Reflect_write protocol_env (request_type td_hover) (request_value td_hover (kInt 7) sample_hover)) = Some j
     \<and> msg_id (the (message (fst (parseAndClassify (\<lambda>s. Inr j) (ProtocolJsonHandler sample_lib default_options) (\<lambda>i. None) [])))) = kInt 7
     \<and> msg_body (the (message (fst (parseAndClassify (\<lambda>s. Inr j) (ProtocolJsonHandler sample_lib default_options) (\<lambda>i. None) [])))) = sample_hover"
proof -
  have "OnRequest td_hover \<in> set (registrations default_options)"
    by (simp add: registrations_base base_registrations_def AddStandardRequestJsonRpcMethod_def)
  moreover have "rpc_method td_hover \<notin> set lossy_requests" by code_simp
  moreover have "sendable sample_lib protocol_env (rpc_params td_hover) sample_hover" by code_simp
  moreover have "valid_id (kInt 7)" by code_simp
  ultimately obtain j where j: "document sample_lib (Reflect_write protocol_env (request_type td_hover) (request_value td_hover (kInt 7) sample_hover)) = Some j"
      "\<forall>parse_json content info. parse_json content = Inr j \<longrightarrow>
         parseAndClassify parse_json (ProtocolJsonHandler sample_lib default_options) info content =
           (\<lparr>ok = True, outgoing = False, kind = REQUEST_MESSAGE,
             message = Some \<lparr>msg_kind = REQUEST_MESSAGE, msg_id = kInt 7, msg_method = rpc_method td_hover, msg_error = None,
                             cancel_id = kNone, msg_body = sample_hover\<rparr>,
             pending = None\<rparr>, [])"
    using request_on_wire by blast
  from j(2) [rule_format, of "\<lambda>s. Inr j" "[]" "\<lambda>i. None"] j(1) show ?thesis by simp
qed

text \<open>Notifications.\<close>

text \<open>The identifier that a cancellation names; other notifications name none.\<close>

definition cancelled_by :: "rpc_notify \<Rightarrow> val \<Rightarrow> lsRequestId" where
  "cancelled_by n p = (if notify_method n = notify_method Notify_Cancellation then id_value (elems p ! 0) else kNone)"

lemma notify_value_sendable:
  assumes "nul_free (notify_method n)" "sendable L E (notify_params n) p"
  shows "sendable L E (notify_type n) (notify_value n p)"
  using assms version_nul_free by (simp add: message_structs sendable_iff(8) sendable.simps(4))

lemma notify_json:
  "json_of L E (notify_type n) (notify_value n p) =
     JObject ([(''jsonrpc'', JString ''2.0''), (''method'', JString (notify_method n))]
       @ member_json (''params'', notify_params n, None) p (json_of L E (notify_params n) p))"
  by (simp add: message_structs member_json_def is_optional_def)

lemma notify_json_shape:
  assumes "nul_free (notify_method n)" and j: "j = json_of L E (notify_type n) (notify_value n p)"
  shows "version_ok j" "\<not> isRequestMessage j" "\<not> isResponseMessage j" "isNotificationMessage j" "member_method j = notify_method n"
proof -
  have v: "GetString (JString ''2.0'') = ''2.0''" "GetString (JString (notify_method n)) = notify_method n"
    using assms(1) version_nul_free by (simp_all add: GetString_def nul_free_def)
  note look = j notify_json get_member_def HasMember_def member_json_def member_name_def
  show "version_ok j" by (simp add: look version_ok_def v IsString_def)
  show "\<not> isRequestMessage j" by (simp add: look isRequestMessage_def)
  show "\<not> isResponseMessage j" by (simp add: look isResponseMessage_def)
  show "isNotificationMessage j" by (simp add: look isNotificationMessage_def method_is_string_def IsString_def)
  show "member_method j = notify_method n" by (simp add: look member_method_def v)
qed

text \<open>A notification arrives: for every notification of the parser table other than \<^verbatim>\<open>exit\<close> and all
  parameters that may be sent, the written message is classified as a notification with that method
  and exactly those parameters; a cancellation names the identifier that was written.\<close>

theorem notification_on_wire:
  assumes "OnNotification n \<in> set (registrations opts)" "notify_method n \<notin> set lossy_notifications"
    and "sendable L protocol_env (notify_params n) p"
  shows "\<exists>j. document L (Reflect_write protocol_env (notify_type n) (notify_value n p)) = Some j
    \<and> (\<forall>parse_json content info. parse_json content = Inr j \<longrightarrow>
         parseAndClassify parse_json (ProtocolJsonHandler L opts) info content =
           (\<lparr>ok = True, outgoing = False, kind = NOTIFICATION_MESSAGE,
             message = Some \<lparr>msg_kind = NOTIFICATION_MESSAGE, msg_id = kNone, msg_method = notify_method n, msg_error = None,
                             cancel_id = cancelled_by n p, msg_body = p\<rparr>,
             pending = None\<rparr>, []))"
proof -
  let ?j = "json_of L protocol_env (notify_type n) (notify_value n p)"
  have r: "returns (notify_type n)" "nul_free (notify_method n)"
    using notifications_return registrations_all [OF assms(1)] assms(2) by (auto simp: list_all_iff)
  note v = returns_value [OF r(1) notify_value_sendable [OF r(2) assms(3)]]
  have "parseNotificationMessage (ProtocolJsonHandler L opts) (notify_method n) ?j = Parsed (notification_message (notify_value n p))"
    by (simp add: parseNotificationMessage_def notification_registered [OF assms(1)] read_notification_def ReflectReader_def v(2))
  with v(1) notify_json_shape [OF r(2) refl, of L protocol_env p] show ?thesis
    by (simp add: parseAndClassify_def classify_notification_def notification_message_def notify_value_def cancelled_by_def)
qed

definition sample_close :: val where
  "sample_close = VStruct [VStruct [VString ''file:///a.cpp'']]"

theorem notification_on_wire_witness:
  "\<exists>j. document sample_lib (Reflect_write protocol_env (notify_type Notify_TextDocumentDidClose)
          (notify_value Notify_TextDocumentDidClose sample_close)) = Some j
     \<and> msg_body (the (message (fst (parseAndClassify (\<lambda>s. Inr j) (ProtocolJsonHandler sample_lib default_options) (\<lambda>i. None) [])))) = sample_close"
proof -
  have "OnNotification Notify_TextDocumentDidClose \<in> set (registrations default_options)"
    by (simp add: registrations_base base_registrations_def AddNotifyJsonRpcMethod_def)
  moreover have "notify_method Notify_TextDocumentDidClose \<notin> set lossy_notifications" by code_simp
  moreover have "sendable sample_lib protocol_env (notify_params Notify_TextDocumentDidClose) sample_close" by code_simp
  ultimately obtain j where j: "document sample_lib (Reflect_write protocol_env (notify_type Notify_TextDocumentDidClose)
          (notify_value Notify_TextDocumentDidClose sample_close)) = Some j"
      "\<forall>parse_json content info. parse_json content = Inr j \<longrightarrow>
         parseAndClassify parse_json (ProtocolJsonHandler sample_lib default_options) info content =
           (\<lparr>ok = True, outgoing = False, kind = NOTIFICATION_MESSAGE,
             message = Some \<lparr>msg_kind = NOTIFICATION_MESSAGE, msg_id = kNone, msg_method = notify_method Notify_TextDocumentDidClose,
                             msg_error = None, cancel_id = cancelled_by Notify_TextDocumentDidClose sample_close, msg_body = sample_close\<rparr>,
             pending = None\<rparr>, [])"
    using notification_on_wire by blast
  from j(2) [rule_format, of "\<lambda>s. Inr j" "[]" "\<lambda>i. None"] j(1) show ?thesis by simp
qed

text \<open>Responses: a result is read by the parser registered for the request's method.\<close>

text \<open>The extension registers two responses twice; the table is the same as without the repetitions.\<close>

definition jdtls_responses :: "rpc list" where
  "jdtls_responses =
    [java_classFileContents,
     java_buildWorkspace,
     java_listOverridableMethods,
     java_checkHashCodeEqualsStatus,
     java_addOverridableMethods,
     java_checkConstructorsStatus,
     java_checkDelegateMethodsStatus,
     java_checkToStringStatus,
     java_generateAccessors,
     java_generateConstructors,
     java_generateDelegateMethods,
     java_generateHashCodeEquals,
     java_generateToString,
     java_getMoveDestinations,
     java_getRefactorEdit,
     java_move,
     java_organizeImports,
     java_resolveUnimplementedAccessors,
     java_searchSymbols,
     td_didRenameFiles,
     td_willRenameFiles]"

definition distinct_responses :: "ProtocolJsonHandlerOptions \<Rightarrow> (string \<times> registration) list" where
  "distinct_responses opts =
     response_entries base_registrations
     @ (if enableJdtlsExtensions opts then map (\<lambda>r. (rpc_method r, OnResponse r)) jdtls_responses else [])
     @ (if enableExperimentalStandardRequests opts then response_entries AddExperimentalStandardRequestJsonRpcMethod else [])
     @ (if enableServerRefreshRequests opts then response_entries AddServerRefreshRequestJsonRpcMethod else [])"

lemma jdtls_response_set: "set (response_entries AddJdtlsExtensionJsonRpcMethod) = set (map (\<lambda>r. (rpc_method r, OnResponse r)) jdtls_responses)"
  by (simp add: AddJdtlsExtensionJsonRpcMethod_def AddJdtlsExtensionJsonRpcMethod_1_def AddJdtlsExtensionJsonRpcMethod_2_def
      response_entries_def jdtls_responses_def insert_commute)

lemma distinct_responses_set: "set (response_entries (registrations opts)) = set (distinct_responses opts)"
  by (simp add: registrations_base entries_append distinct_responses_def jdtls_response_set)

lemma distinct_responses_all: "distinct (map fst (distinct_responses all_options))"
  by code_simp

lemma distinct_responses_distinct: "distinct (map fst (distinct_responses opts))"
  unfolding distinct_responses_def
  by (rule distinct_optional) (use distinct_responses_all in \<open>simp add: distinct_responses_def all_options_def\<close>)

lemma map_of_same_set:
  assumes "distinct (map fst ys)" "set xs = set ys" "(k, v) \<in> set xs"
  shows "map_of (rev xs) k = Some v"
proof -
  obtain v' where v': "map_of (rev xs) k = Some v'" using assms(3) by (metis set_rev weak_map_of_SomeI)
  then have "(k, v') \<in> set ys" using assms(2) map_of_SomeD by fastforce
  with assms have "v' = v" by (metis map_of_is_SomeI option.inject)
  with v' show ?thesis by simp
qed

lemma response_registered:
  assumes "OnResponse r \<in> set (registrations opts)"
  shows "method2response (ProtocolJsonHandler L opts) (rpc_method r) = Some (read_response L r)"
proof -
  have "(rpc_method r, OnResponse r) \<in> set (response_entries (registrations opts))"
    using assms by (force simp: response_entries_def)
  from map_of_same_set [OF distinct_responses_distinct distinct_responses_set this] show ?thesis
    by (simp add: method2request_ProtocolJsonHandler parser_of_def)
qed

lemma response_value_sendable:
  assumes "sendable L E (rpc_result r) p" "valid_id i"
  shows "sendable L E (response_type r) (response_value i p)"
  using assms version_nul_free valid_id_sendable [OF assms(2), of L E]
  by (simp add: message_structs sendable_iff(8) sendable.simps(4))

lemma response_json:
  "json_of L E (response_type r) (response_value i p) =
     JObject ([(''jsonrpc'', JString ''2.0''), (''id'', Reflect_write_id i)]
       @ member_json (''result'', rpc_result r, None) p (json_of L E (rpc_result r) p))"
  by (simp add: message_structs member_json_def is_optional_def)

lemma response_json_shape:
  assumes "valid_id i" and j: "j = json_of L E (response_type r) (response_value i p)"
  shows "version_ok j" "\<not> isRequestMessage j" "\<not> isNotificationMessage j" "member_id j = i" "\<not> HasMember j ''error''"
    "isResponseMessage j \<longleftrightarrow> \<not> (is_optional (rpc_result r) \<and> p = VNone)"
proof -
  have i: "Reflect_id (Reflect_write_id i) = i" using assms(1) by (cases i) (simp_all add: valid_id_def read_id)
  have v: "GetString (JString ''2.0'') = ''2.0''" using version_nul_free by (simp add: GetString_def nul_free_def)
  note look = j response_json get_member_def HasMember_def member_json_def member_name_def member_type_def
  show "version_ok j" by (simp add: look version_ok_def v IsString_def)
  show "\<not> isRequestMessage j" "\<not> isNotificationMessage j"
    by (simp_all add: look isRequestMessage_def isNotificationMessage_def)
  show "member_id j = i" by (simp add: look member_id_def i)
  show "\<not> HasMember j ''error''" by (simp add: look)
  show "isResponseMessage j \<longleftrightarrow> \<not> (is_optional (rpc_result r) \<and> p = VNone)" by (simp add: look isResponseMessage_def)
qed

text \<open>C24: A response arrives and completes the request that waits for it: for every response of the
  parser table outside the listed exceptions and every result that may be sent (an optional result
  must not be empty), the endpoint that waits for the identifier with this method classifies the
  written message as the response of exactly that pending request, with exactly that result.\<close>

theorem response_on_wire:
  assumes "OnResponse r \<in> set (registrations opts)" "rpc_method r \<notin> set lossy_responses"
    and "sendable L protocol_env (rpc_result r) p" "valid_id i" "\<not> (is_optional (rpc_result r) \<and> p = VNone)"
  shows "\<exists>j. document L (Reflect_write protocol_env (response_type r) (response_value i p)) = Some j
    \<and> (\<forall>parse_json content info a. parse_json content = Inr j \<longrightarrow> info i = Some (a, rpc_method r) \<longrightarrow>
         parseAndClassify parse_json (ProtocolJsonHandler L opts) info content =
           (\<lparr>ok = True, outgoing = False, kind = RESPONCE_MESSAGE,
             message = Some \<lparr>msg_kind = RESPONCE_MESSAGE, msg_id = i, msg_method = [], msg_error = None,
                             cancel_id = kNone, msg_body = p\<rparr>,
             pending = Some a\<rparr>, []))"
proof -
  let ?j = "json_of L protocol_env (response_type r) (response_value i p)"
  have r: "returns (response_type r)"
    using responses_return registrations_all [OF assms(1)] assms(2) by (auto simp: list_all_iff)
  note v = returns_value [OF r response_value_sendable [OF assms(3,4)]]
  note shape = response_json_shape [OF assms(4) refl, of L protocol_env r p]
  have "parseResponseMessage (ProtocolJsonHandler L opts) (rpc_method r) ?j = Parsed (response_message (response_value i p))"
    by (simp add: parseResponseMessage_def response_registered [OF assms(1)] read_response_def ReflectReader_def v(2) shape)
  with v(1) shape assms(5) show ?thesis
    by (simp add: parseAndClassify_def classify_response_def Let_def response_message_def response_value_def)
qed

definition sample_locations :: val where
  "sample_locations = VList [VStruct [VString ''file:///a.cpp'', sample_range]]"

theorem response_on_wire_witness:
  "\<exists>j. document sample_lib (Reflect_write protocol_env (response_type td_references) (response_value (kInt 7) sample_locations)) = Some j
     \<and> pending (fst (parseAndClassify (\<lambda>s. Inr j) (ProtocolJsonHandler sample_lib default_options)
          (\<lambda>i. Some (4, rpc_method td_references)) [])) = Some 4
     \<and> msg_body (the (message (fst (parseAndClassify (\<lambda>s. Inr j) (ProtocolJsonHandler sample_lib default_options)
          (\<lambda>i. Some (4, rpc_method td_references)) [])))) = sample_locations"
proof -
  have "OnResponse td_references \<in> set (registrations default_options)"
    by (simp add: registrations_base base_registrations_def AddStadardResponseJsonRpcMethod_def AddStadardResponseJsonRpcMethod_1_def
        AddStadardResponseJsonRpcMethod_2_def)
  moreover have "rpc_method td_references \<notin> set lossy_responses" by code_simp
  moreover have "sendable sample_lib protocol_env (rpc_result td_references) sample_locations" by code_simp
  moreover have "valid_id (kInt 7)" by code_simp
  moreover have "\<not> (is_optional (rpc_result td_references) \<and> sample_locations = VNone)" by (simp add: sample_locations_def)
  ultimately obtain j where j: "document sample_lib (Reflect_write protocol_env (response_type td_references) (response_value (kInt 7) sample_locations)) = Some j"
      "\<forall>parse_json content info a. parse_json content = Inr j \<longrightarrow> info (kInt 7) = Some (a, rpc_method td_references) \<longrightarrow>
         parseAndClassify parse_json (ProtocolJsonHandler sample_lib default_options) info content =
           (\<lparr>ok = True, outgoing = False, kind = RESPONCE_MESSAGE,
             message = Some \<lparr>msg_kind = RESPONCE_MESSAGE, msg_id = kInt 7, msg_method = [], msg_error = None,
                             cancel_id = kNone, msg_body = sample_locations\<rparr>,
             pending = Some a\<rparr>, [])"
    using response_on_wire by blast
  from j(2) [rule_format, of "\<lambda>s. Inr j" "[]" "\<lambda>i. Some (4, rpc_method td_references)" 4] j(1) show ?thesis by simp
qed

text \<open>Error responses (\<^verbatim>\<open>Rsp_Error\<close>): the code, the message and the optional data.\<close>

definition error_value :: "lsRequestId \<Rightarrow> int \<Rightarrow> string \<Rightarrow> val \<Rightarrow> val" where
  "error_value i code text data = VStruct [VString ''2.0'', VId i, VStruct [VInt code, VString text, data]]"

lemma error_value_sendable:
  assumes "valid_id i" "int_range CInt code" "nul_free text" "sendable L E (TOptional TAny) data"
  shows "sendable L E Rsp_Error_t (error_value i code text data)"
  using assms version_nul_free valid_id_sendable [OF assms(1), of L E]
  by (simp add: Rsp_Error_t_def lsResponseError_t_def error_value_def member_type_def sendable_iff(8) sendable.simps(1,4))

lemma error_json_shape:
  assumes "valid_id i" and j: "j = json_of L E Rsp_Error_t (error_value i code text data)"
  shows "version_ok j" "\<not> isRequestMessage j" "isResponseMessage j" "member_id j = i" "HasMember j ''error''"
proof -
  have i: "Reflect_id (Reflect_write_id i) = i" using assms(1) by (cases i) (simp_all add: valid_id_def read_id)
  have v: "GetString (JString ''2.0'') = ''2.0''" using version_nul_free by (simp add: GetString_def nul_free_def)
  note look = j Rsp_Error_t_def error_value_def get_member_def HasMember_def member_json_def member_name_def member_type_def
    lsResponseError_t_def is_optional_def
  show "version_ok j" by (simp add: look version_ok_def v IsString_def)
  show "\<not> isRequestMessage j" by (simp add: look isRequestMessage_def)
  show "isResponseMessage j" by (simp add: look isResponseMessage_def)
  show "member_id j = i" by (simp add: look member_id_def i)
  show "HasMember j ''error''" by (simp add: look)
qed

text \<open>C25: An error arrives as an error: whatever request of the parser table is waiting, the error response
  that the other side writes completes it with the code and the text that were written.\<close>

theorem error_on_wire:
  assumes "OnResponse r \<in> set (registrations opts)" "valid_id i"
    and "int_range CInt code" "nul_free text" "sendable L protocol_env (TOptional TAny) data"
  shows "\<exists>j. document L (Reflect_write protocol_env Rsp_Error_t (error_value i code text data)) = Some j
    \<and> (\<forall>parse_json content info a. parse_json content = Inr j \<longrightarrow> info i = Some (a, rpc_method r) \<longrightarrow>
         parseAndClassify parse_json (ProtocolJsonHandler L opts) info content =
           (\<lparr>ok = True, outgoing = False, kind = RESPONCE_MESSAGE,
             message = Some \<lparr>msg_kind = RESPONCE_MESSAGE, msg_id = i, msg_method = [], msg_error = Some (code, text),
                             cancel_id = kNone, msg_body = VStruct [VInt code, VString text, data]\<rparr>,
             pending = Some a\<rparr>, []))"
proof -
  let ?j = "json_of L protocol_env Rsp_Error_t (error_value i code text data)"
  note v = error_wire.written [OF error_value_sendable [OF assms(2-5)]] error_wire.read_back [OF error_value_sendable [OF assms(2-5)]]
  note shape = error_json_shape [OF assms(2) refl, of L protocol_env code "text" data]
  have "parseResponseMessage (ProtocolJsonHandler L opts) (rpc_method r) ?j = Parsed (error_message (error_value i code text data))"
    by (simp add: parseResponseMessage_def response_registered [OF assms(1)] read_response_def read_error_def ReflectReader_def v(2) shape)
  with v(1) shape show ?thesis
    by (simp add: parseAndClassify_def classify_response_def Let_def error_message_def error_value_def)
qed

theorem error_on_wire_witness:
  "\<exists>j. document sample_lib (Reflect_write protocol_env Rsp_Error_t (error_value (kInt 7) (- 32601) ''no'' VNone)) = Some j
     \<and> msg_error (the (message (fst (parseAndClassify (\<lambda>s. Inr j) (ProtocolJsonHandler sample_lib default_options)
          (\<lambda>i. Some (4, rpc_method td_hover)) [])))) = Some (- 32601, ''no'')"
proof -
  have "OnResponse td_hover \<in> set (registrations default_options)"
    by (simp add: registrations_base base_registrations_def AddStadardResponseJsonRpcMethod_def AddStadardResponseJsonRpcMethod_1_def)
  moreover have "valid_id (kInt 7)" "int_range CInt (- 32601)" "nul_free ''no''" "sendable sample_lib protocol_env (TOptional TAny) VNone"
    by code_simp+
  ultimately obtain j where j: "document sample_lib (Reflect_write protocol_env Rsp_Error_t (error_value (kInt 7) (- 32601) ''no'' VNone)) = Some j"
      "\<forall>parse_json content info a. parse_json content = Inr j \<longrightarrow> info (kInt 7) = Some (a, rpc_method td_hover) \<longrightarrow>
         parseAndClassify parse_json (ProtocolJsonHandler sample_lib default_options) info content =
           (\<lparr>ok = True, outgoing = False, kind = RESPONCE_MESSAGE,
             message = Some \<lparr>msg_kind = RESPONCE_MESSAGE, msg_id = kInt 7, msg_method = [], msg_error = Some (- 32601, ''no''),
                             cancel_id = kNone, msg_body = VStruct [VInt (- 32601), VString ''no'', VNone]\<rparr>,
             pending = Some a\<rparr>, [])"
    using error_on_wire by blast
  from j(2) [rule_format, of "\<lambda>s. Inr j" "[]" "\<lambda>i. Some (4, rpc_method td_hover)" 4] j(1) show ?thesis by simp
qed

text \<open>C26: An empty optional result is lost: the writer leaves the member out, and a message with neither
  result nor error is not a response for the receiving endpoint, which logs it and forgets it; the
  request that waits for it is not completed.\<close>

theorem empty_result_is_lost:
  assumes "is_optional (rpc_result r)" "valid_id i"
  shows "\<exists>j. document L (Reflect_write protocol_env (response_type r) (response_value i VNone)) = Some j
    \<and> (\<forall>parse_json content h info. parse_json content = Inr j \<longrightarrow>
         parseAndClassify parse_json h info content =
           (empty_parsed, [(LogWarning, ''Unknown lsp message when consumer message:'' @ [LF] @ content)]))"
proof -
  have "sendable L protocol_env (rpc_result r) VNone"
    using assms(1) by (auto simp: is_optional_def sendable_iff split: ty.splits)
  then have "writes L (Reflect_write protocol_env (response_type r) (response_value i VNone))
      (json_of L protocol_env (response_type r) (response_value i VNone))"
    using assms(2) by (intro writes_json response_value_sendable)
  with response_json_shape [OF assms(2) refl, of L protocol_env r VNone] assms(1) show ?thesis
    by (simp add: writes_def document_def parseAndClassify_def)
qed

theorem empty_result_is_lost_witness:
  "\<exists>j. document sample_lib (Reflect_write protocol_env (response_type td_shutdown) (response_value (kInt 2) VNone)) = Some j
     \<and> fst (parseAndClassify (\<lambda>s. Inr j) (ProtocolJsonHandler sample_lib default_options) (\<lambda>i. Some (0, ''shutdown'')) []) = empty_parsed"
proof -
  have "is_optional (rpc_result td_shutdown)" "valid_id (kInt 2)" by code_simp+
  then obtain j where "document sample_lib (Reflect_write protocol_env (response_type td_shutdown) (response_value (kInt 2) VNone)) = Some j"
      "\<forall>parse_json content h info. parse_json content = Inr j \<longrightarrow>
         parseAndClassify parse_json h info content =
           (empty_parsed, [(LogWarning, ''Unknown lsp message when consumer message:'' @ [LF] @ content)])"
    using empty_result_is_lost by blast
  then show ?thesis by auto
qed

end
