(* ===== verification/Protocol_Names.thy ===== *)
theory Protocol_Names
  imports Text_Position Lsp_Uri Rpc_Message
begin

text \<open>
  The texts the library derives from protocol values: the names of semantic token kinds and
  modifiers and the integer encoding of semantic tokens (\<^verbatim>\<open>src/lsp/textDocument.cpp\<close>), the
  printed forms of completion items, edits, progress reports, events and response errors, the
  ordering of locations, and the identifiers of dynamic registrations (\<^verbatim>\<open>src/lsp/lsp.cpp\<close>,
  \<^verbatim>\<open>src/lsp/lsp_diagnostic.cpp\<close>).

  An enumeration is a datatype of its enumerators together with the list of them in the order of
  their values; a switch takes the value, so that its default branch is part of the model.
\<close>

unbundle bit_operations_syntax

section \<open>Semantic token names\<close>

datatype SemanticTokenType =
    ls_namespace | ls_type | ls_class | ls_enum | ls_interface | ls_struct
  | ls_typeParameter | ls_parameter | ls_variable | ls_property | ls_enumMember | ls_event
  | ls_function | ls_method | ls_macro | ls_keyword | ls_modifier | ls_comment
  | ls_string | ls_number | ls_regexp | ls_operator

fun SemanticTokenType_name :: "SemanticTokenType \<Rightarrow> string" where
  "SemanticTokenType_name ls_namespace = ''namespace''"
| "SemanticTokenType_name ls_type = ''type''"
| "SemanticTokenType_name ls_class = ''class''"
| "SemanticTokenType_name ls_enum = ''enum''"
| "SemanticTokenType_name ls_interface = ''interface''"
| "SemanticTokenType_name ls_struct = ''struct''"
| "SemanticTokenType_name ls_typeParameter = ''typeParameter''"
| "SemanticTokenType_name ls_parameter = ''parameter''"
| "SemanticTokenType_name ls_variable = ''variable''"
| "SemanticTokenType_name ls_property = ''property''"
| "SemanticTokenType_name ls_enumMember = ''enumMember''"
| "SemanticTokenType_name ls_event = ''event''"
| "SemanticTokenType_name ls_function = ''function''"
| "SemanticTokenType_name ls_method = ''method''"
| "SemanticTokenType_name ls_macro = ''macro''"
| "SemanticTokenType_name ls_keyword = ''keyword''"
| "SemanticTokenType_name ls_modifier = ''modifier''"
| "SemanticTokenType_name ls_comment = ''comment''"
| "SemanticTokenType_name ls_string = ''string''"
| "SemanticTokenType_name ls_number = ''number''"
| "SemanticTokenType_name ls_regexp = ''regexp''"
| "SemanticTokenType_name ls_operator = ''operator''"

definition SemanticTokenType_enum :: "SemanticTokenType list" where
  "SemanticTokenType_enum =
    [ls_namespace, ls_type, ls_class, ls_enum, ls_interface, ls_struct,
     ls_typeParameter, ls_parameter, ls_variable, ls_property, ls_enumMember, ls_event,
     ls_function, ls_method, ls_macro, ls_keyword, ls_modifier, ls_comment,
     ls_string, ls_number, ls_regexp, ls_operator]"

datatype TokenType_JDT =
    PACKAGE_JDT | CLASS_JDT | INTERFACE_JDT | ENUM_JDT | ENUM_MEMBER_JDT | TYPE_JDT
  | TYPE_PARAMETER_JDT | ANNOTATION_JDT | ANNOTATION_MEMBER_JDT | METHOD_JDT | PROPERTY_JDT | VARIABLE_JDT
  | PARAMETER_JDT

fun TokenType_JDT_name :: "TokenType_JDT \<Rightarrow> string" where
  "TokenType_JDT_name PACKAGE_JDT = ''namespace''"
| "TokenType_JDT_name CLASS_JDT = ''class''"
| "TokenType_JDT_name INTERFACE_JDT = ''interface''"
| "TokenType_JDT_name ENUM_JDT = ''enum''"
| "TokenType_JDT_name ENUM_MEMBER_JDT = ''enumMember''"
| "TokenType_JDT_name TYPE_JDT = ''type''"
| "TokenType_JDT_name TYPE_PARAMETER_JDT = ''typeParameter''"
| "TokenType_JDT_name ANNOTATION_JDT = ''annotation''"
| "TokenType_JDT_name ANNOTATION_MEMBER_JDT = ''annotationMember''"
| "TokenType_JDT_name METHOD_JDT = ''function''"
| "TokenType_JDT_name PROPERTY_JDT = ''property''"
| "TokenType_JDT_name VARIABLE_JDT = ''variable''"
| "TokenType_JDT_name PARAMETER_JDT = ''parameter''"

definition TokenType_JDT_enum :: "TokenType_JDT list" where
  "TokenType_JDT_enum =
    [PACKAGE_JDT, CLASS_JDT, INTERFACE_JDT, ENUM_JDT, ENUM_MEMBER_JDT, TYPE_JDT,
     TYPE_PARAMETER_JDT, ANNOTATION_JDT, ANNOTATION_MEMBER_JDT, METHOD_JDT, PROPERTY_JDT, VARIABLE_JDT,
     PARAMETER_JDT]"

datatype SemanticTokenModifier =
    ls_declaration | ls_definition | ls_readonly | ls_static | ls_deprecated | ls_abstract
  | ls_async | ls_modification | ls_documentation | ls_defaultLibrary

fun SemanticTokenModifier_name :: "SemanticTokenModifier \<Rightarrow> string" where
  "SemanticTokenModifier_name ls_declaration = ''declaration''"
| "SemanticTokenModifier_name ls_definition = ''definition''"
| "SemanticTokenModifier_name ls_readonly = ''readonly''"
| "SemanticTokenModifier_name ls_static = ''static''"
| "SemanticTokenModifier_name ls_deprecated = ''deprecated''"
| "SemanticTokenModifier_name ls_abstract = ''abstract''"
| "SemanticTokenModifier_name ls_async = ''async''"
| "SemanticTokenModifier_name ls_modification = ''modification''"
| "SemanticTokenModifier_name ls_documentation = ''documentation''"
| "SemanticTokenModifier_name ls_defaultLibrary = ''defaultLibrary''"

definition SemanticTokenModifier_enum :: "SemanticTokenModifier list" where
  "SemanticTokenModifier_enum =
    [ls_declaration, ls_definition, ls_readonly, ls_static, ls_deprecated, ls_abstract,
     ls_async, ls_modification, ls_documentation, ls_defaultLibrary]"

datatype HighlightingKind_clangD =
    Kind_Variable | Kind_LocalVariable | Kind_Parameter | Kind_Function | Kind_Method | Kind_StaticMethod
  | Kind_Field | Kind_StaticField | Kind_Class | Kind_Interface | Kind_Enum | Kind_EnumConstant
  | Kind_Typedef | Kind_Type | Kind_Unknown | Kind_Namespace | Kind_TemplateParameter | Kind_Concept
  | Kind_Primitive | Kind_Macro | Kind_InactiveCode

fun HighlightingKind_name :: "HighlightingKind_clangD \<Rightarrow> string" where
  "HighlightingKind_name Kind_Variable = ''variable''"
| "HighlightingKind_name Kind_LocalVariable = ''variable''"
| "HighlightingKind_name Kind_Parameter = ''parameter''"
| "HighlightingKind_name Kind_Function = ''function''"
| "HighlightingKind_name Kind_Method = ''method''"
| "HighlightingKind_name Kind_StaticMethod = ''function''"
| "HighlightingKind_name Kind_Field = ''property''"
| "HighlightingKind_name Kind_StaticField = ''variable''"
| "HighlightingKind_name Kind_Class = ''class''"
| "HighlightingKind_name Kind_Interface = ''interface''"
| "HighlightingKind_name Kind_Enum = ''enum''"
| "HighlightingKind_name Kind_EnumConstant = ''enumMember''"
| "HighlightingKind_name Kind_Typedef = ''type''"
| "HighlightingKind_name Kind_Type = ''type''"
| "HighlightingKind_name Kind_Unknown = ''unknown''"
| "HighlightingKind_name Kind_Namespace = ''namespace''"
| "HighlightingKind_name Kind_TemplateParameter = ''typeParameter''"
| "HighlightingKind_name Kind_Concept = ''concept''"
| "HighlightingKind_name Kind_Primitive = ''type''"
| "HighlightingKind_name Kind_Macro = ''macro''"
| "HighlightingKind_name Kind_InactiveCode = ''comment''"

definition HighlightingKind_enum :: "HighlightingKind_clangD list" where
  "HighlightingKind_enum =
    [Kind_Variable, Kind_LocalVariable, Kind_Parameter, Kind_Function, Kind_Method, Kind_StaticMethod,
     Kind_Field, Kind_StaticField, Kind_Class, Kind_Interface, Kind_Enum, Kind_EnumConstant,
     Kind_Typedef, Kind_Type, Kind_Unknown, Kind_Namespace, Kind_TemplateParameter, Kind_Concept,
     Kind_Primitive, Kind_Macro, Kind_InactiveCode]"

datatype HighlightingModifier_clangD =
    Modifier_Declaration | Modifier_Deprecated | Modifier_Deduced | Modifier_Readonly | Modifier_Static | Modifier_Abstract
  | Modifier_DependentName | Modifier_DefaultLibrary | Modifier_FunctionScope | Modifier_ClassScope | Modifier_FileScope | Modifier_GlobalScope

fun HighlightingModifier_name :: "HighlightingModifier_clangD \<Rightarrow> string" where
  "HighlightingModifier_name Modifier_Declaration = ''declaration''"
| "HighlightingModifier_name Modifier_Deprecated = ''deprecated''"
| "HighlightingModifier_name Modifier_Deduced = ''deduced''"
| "HighlightingModifier_name Modifier_Readonly = ''readonly''"
| "HighlightingModifier_name Modifier_Static = ''static''"
| "HighlightingModifier_name Modifier_Abstract = ''abstract''"
| "HighlightingModifier_name Modifier_DependentName = ''dependentName''"
| "HighlightingModifier_name Modifier_DefaultLibrary = ''defaultLibrary''"
| "HighlightingModifier_name Modifier_FunctionScope = ''functionScope''"
| "HighlightingModifier_name Modifier_ClassScope = ''classScope''"
| "HighlightingModifier_name Modifier_FileScope = ''fileScope''"
| "HighlightingModifier_name Modifier_GlobalScope = ''globalScope''"

definition HighlightingModifier_enum :: "HighlightingModifier_clangD list" where
  "HighlightingModifier_enum =
    [Modifier_Declaration, Modifier_Deprecated, Modifier_Deduced, Modifier_Readonly, Modifier_Static, Modifier_Abstract,
     Modifier_DependentName, Modifier_DefaultLibrary, Modifier_FunctionScope, Modifier_ClassScope, Modifier_FileScope, Modifier_GlobalScope]"

text \<open>A switch over an enumeration whose enumerators are numbered from 0, with its default.\<close>

definition enum_switch :: "'e list \<Rightarrow> ('e \<Rightarrow> string) \<Rightarrow> string \<Rightarrow> nat \<Rightarrow> string" where
  "enum_switch es f d v = (if v < length es then f (es ! v) else d)"

definition enum_value :: "'e list \<Rightarrow> 'e \<Rightarrow> nat" where
  "enum_value es e = length (takeWhile (\<lambda>x. x \<noteq> e) es)"

definition to_string_SemanticTokenType :: "nat \<Rightarrow> string" where
  "to_string_SemanticTokenType = enum_switch SemanticTokenType_enum SemanticTokenType_name ''unknown''"

definition to_string_TokenType_JDT :: "nat \<Rightarrow> string" where
  "to_string_TokenType_JDT = enum_switch TokenType_JDT_enum TokenType_JDT_name ''unknown''"

definition to_string_SemanticTokenModifier :: "nat \<Rightarrow> string" where
  "to_string_SemanticTokenModifier =
     enum_switch SemanticTokenModifier_enum SemanticTokenModifier_name ''unknown''"

definition toSemanticTokenType_clangD :: "nat \<Rightarrow> string" where
  "toSemanticTokenType_clangD =
     enum_switch HighlightingKind_enum HighlightingKind_name ''unhandled HighlightingKind_clangD''"

definition toSemanticTokenModifier_clangD :: "nat \<Rightarrow> string" where
  "toSemanticTokenModifier_clangD =
     enum_switch HighlightingModifier_enum HighlightingModifier_name ''unhandled HighlightingModifier_clangD''"

section \<open>Bit sets and the integer encoding of tokens\<close>

definition set_bits_of :: "nat list \<Rightarrow> u32" where
  "set_bits_of bs = fold (\<lambda>b encoded. encoded OR push_bit b 1) bs 0"

definition toSemanticTokenType :: "SemanticTokenType list \<Rightarrow> u32" where
  "toSemanticTokenType ts = set_bits_of (map (enum_value SemanticTokenType_enum) ts)"

definition toSemanticTokenModifiers :: "SemanticTokenModifier list \<Rightarrow> u32" where
  "toSemanticTokenModifiers ms = set_bits_of (map (enum_value SemanticTokenModifier_enum) ms)"

record SemanticToken =
  deltaLine :: u32
  deltaStart :: u32
  tok_length :: u32
  tokenType :: u32
  tokenModifiers :: u32

definition SemanticToken_eq :: "SemanticToken \<Rightarrow> SemanticToken \<Rightarrow> bool" where
  "SemanticToken_eq l r \<longleftrightarrow>
     (deltaLine l, deltaStart l, tok_length l, tokenType l, tokenModifiers l)
     = (deltaLine r, deltaStart r, tok_length r, tokenType r, tokenModifiers r)"

definition SemanticTokenEncodingSize :: nat where
  "SemanticTokenEncodingSize = 5"

text \<open>Each \<^verbatim>\<open>unsigned\<close> is converted to \<^verbatim>\<open>int32_t\<close> when it is appended: the signed value of its bits.\<close>

fun encodeTokens :: "SemanticToken list \<Rightarrow> int list" where
  "encodeTokens [] = []"
| "encodeTokens (tok # tokens) =
     [sint (deltaLine tok), sint (deltaStart tok), sint (tok_length tok), sint (tokenType tok),
      sint (tokenModifiers tok)] @ encodeTokens tokens"

section \<open>Printed forms\<close>

definition lsCompletionItemKind_values :: "(string \<times> int) list" where
  "lsCompletionItemKind_values =
    [(''Text'', 1), (''Method'', 2), (''Function'', 3), (''Constructor'', 4), (''Field'', 5),
     (''Variable'', 6), (''Class'', 7), (''Interface'', 8), (''Module'', 9), (''Property'', 10),
     (''Unit'', 11), (''Value'', 12), (''Enum'', 13), (''Keyword'', 14), (''Snippet'', 15),
     (''Color'', 16), (''File'', 17), (''Reference'', 18), (''Folder'', 19), (''EnumMember'', 20),
     (''Constant'', 21), (''Struct'', 22), (''Event'', 23), (''Operator'', 24), (''TypeParameter'', 25)]"

definition lsCompletionItemKind_labels :: "(int \<times> string) list" where
  "lsCompletionItemKind_labels =
    [(1, ''Text''), (2, ''Method''), (3, []), (4, ''Function''), (5, ''Field''),
     (6, []), (7, ''Variable''), (8, ''Interface''), (9, ''Module''), (10, ''Property''),
     (11, ''Unit''), (12, ''Value''), (13, ''Enum''), (14, ''Keyword''), (15, ''Snippet''),
     (16, ''Color''), (17, ''File''), (18, ''Reference''), (19, ''Folder''), (20, ''EnumMember''),
     (21, ''Constant''), (22, ''Struct''), (23, ''Event''), (24, ''Operator''), (25, ''TypeParameter'')]"

definition lsCompletionItemKind_ToString :: "int \<Rightarrow> string" where
  "lsCompletionItemKind_ToString k =
     (case map_of lsCompletionItemKind_labels k of Some s \<Rightarrow> s | None \<Rightarrow> ''Unknown'')"

definition lsInsertTextFormat_ToString :: "int \<Rightarrow> string" where
  "lsInsertTextFormat_ToString k =
     (if k = 1 then ''PlainText'' else if k = 2 then ''Snippet'' else ''Unknown'')"

record lsTextEdit =
  edit_range :: lsRange
  newText :: string

definition lsTextEdit_eq :: "lsTextEdit \<Rightarrow> lsTextEdit \<Rightarrow> bool" where
  "lsTextEdit_eq a b \<longleftrightarrow> lsRange_eq (edit_range a) (edit_range b) \<and> newText a = newText b"

definition lsTextEdit_ToString :: "lsTextEdit \<Rightarrow> string" where
  "lsTextEdit_ToString e =
     ''Range:'' @ lsRange_ToString (edit_range e) @ [LF] @ ''newText:'' @ newText e @ [LF]"

record MarkupContent =
  markup_kind :: string
  markup_value :: string

record lsCompletionItem =
  item_label :: string
  item_kind :: "int option"
  item_detail :: "string option"
  item_documentation :: "(string option \<times> MarkupContent option) option"
  item_deprecated :: "bool option"
  item_preselect :: "bool option"
  item_sortText :: "string option"
  item_filterText :: "string option"
  item_insertText :: "string option"
  item_insertTextFormat :: "int option"
  item_textEdit :: "lsTextEdit option"

definition InsertedContent :: "lsCompletionItem \<Rightarrow> string" where
  "InsertedContent it =
     (case item_textEdit it of
        Some e \<Rightarrow> newText e
      | None \<Rightarrow>
          (case item_insertText it of
             Some t \<Rightarrow> if t \<noteq> [] then t else item_label it
           | None \<Rightarrow> item_label it))"

definition DisplayText :: "lsCompletionItem \<Rightarrow> string" where
  "DisplayText it =
     (case item_detail it of
        Some d \<Rightarrow> item_label it @ '' in '' @ d
      | None \<Rightarrow> item_label it)"

text \<open>A \<^verbatim>\<open>bool\<close> is printed as a number. One optional field of the report takes a line of its own.\<close>

definition bool_text :: "bool \<Rightarrow> string" where
  "bool_text b = (if b then ''1'' else ''0'')"

definition info_line :: "string \<Rightarrow> string \<Rightarrow> ('a \<Rightarrow> string) \<Rightarrow> 'a option \<Rightarrow> string" where
  "info_line present absent shown v =
     (case v of
        Some x \<Rightarrow> present @ '' : '' @ shown x @ [LF]
      | None \<Rightarrow> absent @ '' : no exist.'' @ [LF])"

definition documentation_text :: "(string option \<times> MarkupContent option) option \<Rightarrow> string" where
  "documentation_text d =
     (case d of
        Some (first, second) \<Rightarrow>
          ''documentation : '' @ [LF] @
          (case first of
             Some t \<Rightarrow> t
           | None \<Rightarrow> (case second of Some m \<Rightarrow> markup_value m | None \<Rightarrow> []))
      | None \<Rightarrow> ''documentation : no exist.'' @ [LF])"

definition lsCompletionItem_ToString :: "lsCompletionItem \<Rightarrow> string" where
  "lsCompletionItem_ToString it =
     ''label : '' @ item_label it @ [LF] @
     info_line ''kind'' ''kind'' lsCompletionItemKind_ToString (item_kind it) @
     info_line ''detail'' ''detail'' id (item_detail it) @
     documentation_text (item_documentation it) @
     info_line ''deprecated'' ''deprecated'' bool_text (item_deprecated it) @
     info_line ''preselect'' ''preselect'' bool_text (item_preselect it) @
     info_line ''sortText'' ''sortText'' id (item_sortText it) @
     info_line ''filterText'' ''filterText'' id (item_filterText it) @
     info_line ''insertText'' ''insertText'' id (item_insertText it) @
     info_line ''insertText'' ''insertTextFormat'' lsInsertTextFormat_ToString (item_insertTextFormat it) @
     info_line ''textEdit'' ''textEdit'' lsTextEdit_ToString (item_textEdit it)"

record ProgressReport =
  report_id :: string
  task :: string
  subTask :: string
  report_status :: string
  totalWork :: int
  workDone :: int
  report_complete :: bool

definition ProgressReport_ToString :: "ProgressReport \<Rightarrow> string" where
  "ProgressReport_ToString p =
     ''id:'' @ report_id p @ [LF] @ ''task:'' @ task p @ [LF] @ ''subTask:'' @ subTask p @ [LF] @
     ''status:'' @ report_status p @ [LF] @ ''totalWork:'' @ int_to_string (totalWork p) @ [LF] @
     ''workDone:'' @ int_to_string (workDone p) @ [LF] @ ''complete:'' @ bool_text (report_complete p) @ [LF]"

text \<open>Numbers printed after \<^verbatim>\<open>std::hex\<close>: the digits of the unsigned value, lower case.\<close>

definition hex_chars :: string where
  "hex_chars = ''0123456789abcdef''"

definition hex_lower :: "nat \<Rightarrow> char" where
  "hex_lower n = hex_chars ! n"

fun to_hex :: "nat \<Rightarrow> string" where
  "to_hex n = (if n < 16 then [hex_lower n] else to_hex (n div 16) @ [hex_lower (n mod 16)])"

declare to_hex.simps [simp del]

definition EventNotification_ToString :: "int \<Rightarrow> string \<Rightarrow> string" where
  "EventNotification_ToString eventType data =
     (if eventType = 100 then ''eventType:ClasspathUpdated'' @ [LF]
      else if eventType = 200 then ''eventType:ProjectsImported'' @ [LF]
      else ''eventType:'' @ to_hex (unat (word_of_int eventType :: u32)) @ [LF]) @
     ''data:'' @ data @ [LF]"

definition lsErrorCodes_labels :: "(int \<times> string) list" where
  "lsErrorCodes_labels =
    [(-32700, ''ParseError''), (-32600, ''InvalidRequest''), (-32601, ''MethodNotFound''),
     (-32602, ''InvalidParams''), (-32603, ''InternalError''), (-32099, ''serverErrorStart''),
     (-32000, ''serverErrorEnd''), (-32002, ''ServerNotInitialized''), (-32001, ''UnknownErrorCode''),
     (-32800, ''RequestCancelled'')]"

definition lsResponseError_ToString :: "int \<Rightarrow> string \<Rightarrow> string option \<Rightarrow> string" where
  "lsResponseError_ToString code descr data =
     ''code:'' @
     (case map_of lsErrorCodes_labels code of
        Some s \<Rightarrow> s @ [LF]
      | None \<Rightarrow> ''unknown code:'' @ int_to_string code @ [LF]) @
     ''message:'' @ descr @ [LF] @
     (case data of Some d \<Rightarrow> ''data:'' @ d @ [LF] | None \<Rightarrow> [])"

section \<open>Locations and diagnostics\<close>

record lsLocation =
  location_uri :: lsDocumentUri
  location_range :: lsRange

definition lsLocation_eq :: "lsLocation \<Rightarrow> lsLocation \<Rightarrow> bool" where
  "lsLocation_eq a b \<longleftrightarrow>
     lsDocumentUri_eq (location_uri a) (location_uri b) \<and> lsRange_eq (location_range a) (location_range b)"

text \<open>\<^verbatim>\<open>std::string\<close> compares as unsigned bytes, a tuple from its first component on.\<close>

fun string_less :: "string \<Rightarrow> string \<Rightarrow> bool" where
  "string_less _ [] = False"
| "string_less [] (_ # _) = True"
| "string_less (a # as) (b # bs) =
     (if byte_of a < byte_of b then True else if byte_of b < byte_of a then False else string_less as bs)"

definition lsLocation_less :: "lsLocation \<Rightarrow> lsLocation \<Rightarrow> bool" where
  "lsLocation_less a b =
     (let u = raw_uri (location_uri a); v = raw_uri (location_uri b) in
      if string_less u v then True
      else if string_less v u then False
      else lsRange_less (location_range a) (location_range b))"

definition lsDiagnostic_eq :: "lsRange \<times> string \<Rightarrow> lsRange \<times> string \<Rightarrow> bool" where
  "lsDiagnostic_eq d e \<longleftrightarrow> lsRange_eq (fst d) (fst e) \<and> snd d = snd e"

section \<open>Registration identifiers\<close>

text \<open>
  The two 64-bit values the random generator yields are parameters: \<^verbatim>\<open>std::random_device\<close> and
  \<^verbatim>\<open>std::mt19937_64\<close> choose them.
\<close>

type_synonym u8 = "8 word"

definition chunk_bytes :: "64 word \<Rightarrow> u8 list" where
  "chunk_bytes part = map (\<lambda>i. ucast (drop_bit (8 * (7 - i)) part)) [0..<8]"

definition uuid_bytes :: "64 word \<Rightarrow> 64 word \<Rightarrow> u8 list" where
  "uuid_bytes part1 part2 =
     (let bytes = chunk_bytes part1 @ chunk_bytes part2;
          bytes = bytes[6 := (bytes ! 6 AND 0x0F) OR 0x40]
      in bytes[8 := (bytes ! 8 AND 0x3F) OR 0x80])"

definition hex_byte :: "u8 \<Rightarrow> string" where
  "hex_byte b = (let s = to_hex (unat b) in replicate (2 - length s) CHR ''0'' @ s)"

fun write_groups :: "nat list \<Rightarrow> u8 list \<Rightarrow> string" where
  "write_groups [] bytes = []"
| "write_groups [g] bytes = concat (map hex_byte (take g bytes))"
| "write_groups (g # gs) bytes = concat (map hex_byte (take g bytes)) @ ''-'' @ write_groups gs (drop g bytes)"

definition generate_uuid_v4 :: "64 word \<Rightarrow> 64 word \<Rightarrow> string" where
  "generate_uuid_v4 part1 part2 = write_groups [4, 2, 2, 2, 6] (uuid_bytes part1 part2)"

record Registration =
  registration_id :: string
  registration_method :: string

definition Registration_Create :: "64 word \<Rightarrow> 64 word \<Rightarrow> string \<Rightarrow> Registration" where
  "Registration_Create part1 part2 m =
     \<lparr>registration_id = generate_uuid_v4 part1 part2, registration_method = m\<rparr>"

section \<open>Bits and encoded tokens\<close>

lemma bit_fold_push:
  "bit (fold (\<lambda>b encoded. encoded OR push_bit b (1::u32)) bs w) i \<longleftrightarrow> bit w i \<or> i \<in> set bs \<and> i < 32"
proof (induction bs arbitrary: w)
  case (Cons b bs)
  have "bit (push_bit b (1::u32)) i \<longleftrightarrow> i = b \<and> i < 32"
    by (auto simp: bit_exp_iff)
  with Cons show ?case by (auto simp: bit_or_iff simp del: push_bit_of_1)
qed simp

lemma bit_set_bits_of: "bit (set_bits_of bs) i \<longleftrightarrow> i \<in> set bs \<and> i < 32"
  unfolding set_bits_of_def bit_fold_push by simp

lemma enum_value_nth:
  assumes "distinct es" and "i < length es"
  shows "enum_value es (es ! i) = i"
proof -
  have "takeWhile (\<lambda>x. x \<noteq> es ! i) es = take i es"
    using assms by (intro takeWhile_eq_take_P_nth) (auto simp: nth_eq_iff_index_eq)
  with assms show ?thesis by (simp add: enum_value_def)
qed

lemma enum_value_less: "e \<in> set es \<Longrightarrow> enum_value es e < length es"
  unfolding enum_value_def by (induction es) auto

lemma nth_enum_value: "e \<in> set es \<Longrightarrow> es ! enum_value es e = e"
  unfolding enum_value_def by (induction es) auto

lemma enum_value_mem:
  assumes "distinct es" and "i < length es" and "set ts \<subseteq> set es"
  shows "i \<in> enum_value es ` set ts \<longleftrightarrow> es ! i \<in> set ts"
  using assms by (force simp: enum_value_nth nth_enum_value image_iff)

text \<open>A bit set of enumerators: exactly the bits of the enumerators in the list are set.\<close>

lemma set_bits_of_enum:
  assumes "distinct es" and "set ts \<subseteq> set es" and "length es \<le> 32"
  shows "bit (set_bits_of (map (enum_value es) ts)) i \<longleftrightarrow> i < length es \<and> es ! i \<in> set ts"
proof (cases "i < length es")
  case True
  with assms show ?thesis by (simp add: bit_set_bits_of enum_value_mem)
next
  case False
  then have "i \<notin> enum_value es ` set ts"
    using assms(2) enum_value_less by (metis imageE subsetD)
  with False show ?thesis by (simp add: bit_set_bits_of)
qed

lemma modifiers_listed: "set ms \<subseteq> set SemanticTokenModifier_enum"
proof
  fix m
  show "m \<in> set SemanticTokenModifier_enum" by (cases m) (simp_all add: SemanticTokenModifier_enum_def)
qed

lemma token_types_listed: "set ts \<subseteq> set SemanticTokenType_enum"
proof
  fix t
  show "t \<in> set SemanticTokenType_enum" by (cases t) (simp_all add: SemanticTokenType_enum_def)
qed

lemma enum_sizes:
  "distinct SemanticTokenModifier_enum" "length SemanticTokenModifier_enum \<le> 32"
  "distinct SemanticTokenType_enum" "length SemanticTokenType_enum \<le> 32"
  by (simp_all add: SemanticTokenModifier_enum_def SemanticTokenType_enum_def)

text \<open>the modifier set of a semantic token is encoded bit by bit: bit \<open>i\<close> of the encoded value is
  set exactly if the enumerator with value \<open>i\<close>, whose name is entry \<open>i\<close> of the legend, is in the
  list, and no other bit is set; the same holds for the set of token types.
\<close>

theorem token_bits:
  "(bit (toSemanticTokenModifiers ms) i \<longleftrightarrow>
      i < length SemanticTokenModifier_enum \<and> SemanticTokenModifier_enum ! i \<in> set ms)
   \<and> (bit (toSemanticTokenType ts) j \<longleftrightarrow>
      j < length SemanticTokenType_enum \<and> SemanticTokenType_enum ! j \<in> set ts)"
  unfolding toSemanticTokenModifiers_def toSemanticTokenType_def
  by (simp add: set_bits_of_enum modifiers_listed token_types_listed enum_sizes)

text \<open>What the protocol says of the encoded array: token \<open>i\<close> is the five integers from index \<open>5 * i\<close> on.\<close>

definition token_at :: "int list \<Rightarrow> nat \<Rightarrow> SemanticToken" where
  "token_at data i =
     \<lparr>deltaLine = word_of_int (data ! (5 * i)), deltaStart = word_of_int (data ! (5 * i + 1)),
      tok_length = word_of_int (data ! (5 * i + 2)), tokenType = word_of_int (data ! (5 * i + 3)),
      tokenModifiers = word_of_int (data ! (5 * i + 4))\<rparr>"

lemma length_encodeTokens: "length (encodeTokens ts) = SemanticTokenEncodingSize * length ts"
  by (induction ts) (simp_all add: SemanticTokenEncodingSize_def)

lemma token_at_encode: "i < length ts \<Longrightarrow> token_at (encodeTokens ts) i = ts ! i"
proof (induction ts arbitrary: i)
  case (Cons t ts)
  show ?case
  proof (cases i)
    case 0
    then show ?thesis by (simp add: token_at_def numeral_eq_Suc)
  next
    case (Suc k)
    have "token_at (encodeTokens (t # ts)) (Suc k) = token_at (encodeTokens ts) k"
      by (simp add: token_at_def numeral_eq_Suc)
    with Suc Cons show ?thesis by simp
  qed
qed simp

lemma sint_32_bounds: "- (2 ^ 31) \<le> sint (w::u32)" "sint (w::u32) < 2 ^ 31"
  using sint_greater_eq [of w] sint_less [of w] by simp_all

text \<open>the encoded array of semantic tokens has five integers a token (the assertion at the end of
  the function), each of them an \<^verbatim>\<open>int32_t\<close>, and reading it the way the protocol describes gives
  back the tokens, whatever their 32-bit fields hold.
\<close>

theorem semantic_tokens_roundtrip:
  "length (encodeTokens ts) = SemanticTokenEncodingSize * length ts
   \<and> list_all (\<lambda>x. - (2 ^ 31) \<le> x \<and> x < 2 ^ 31) (encodeTokens ts)
   \<and> map (token_at (encodeTokens ts)) [0..<length ts] = ts"
proof (intro conjI)
  show "length (encodeTokens ts) = SemanticTokenEncodingSize * length ts" by (rule length_encodeTokens)
  show "list_all (\<lambda>x. - (2 ^ 31) \<le> x \<and> x < 2 ^ 31) (encodeTokens ts)"
    by (induction ts) (simp_all add: sint_32_bounds [simplified])
  show "map (token_at (encodeTokens ts)) [0..<length ts] = ts"
    by (rule nth_equalityI) (simp_all add: token_at_encode)
qed

section \<open>Orders\<close>

text \<open>What a comparison has to promise before values can be keys of an ordered container.\<close>

locale strict_order =
  fixes less :: "'a \<Rightarrow> 'a \<Rightarrow> bool"
  assumes irrefl: "\<not> less a a"
    and trans: "less a b \<Longrightarrow> less b c \<Longrightarrow> less a c"
    and total: "a \<noteq> b \<Longrightarrow> less a b \<or> less b a"
begin

lemma asym: "less a b \<Longrightarrow> \<not> less b a"
  using trans irrefl by blast

lemma trichotomy:
  "less a b \<and> a \<noteq> b \<and> \<not> less b a \<or> \<not> less a b \<and> a = b \<and> \<not> less b a
   \<or> \<not> less a b \<and> a \<noteq> b \<and> less b a"
  using total asym irrefl by blast

end

text \<open>A comparison of tuples compares the first components before the second ones.\<close>

locale tuple_order = first: strict_order less1 + second: strict_order less2
  for less1 :: "'a \<Rightarrow> 'a \<Rightarrow> bool" and less2 :: "'b \<Rightarrow> 'b \<Rightarrow> bool"
begin

lemma tuple_trans:
  assumes "if less1 a b then True else if less1 b a then False else less2 x y"
    and "if less1 b c then True else if less1 c b then False else less2 y z"
  shows "if less1 a c then True else if less1 c a then False else less2 x z"
  using assms first.total [of a b] first.total [of b c]
  by (metis first.asym first.trans second.trans)

lemma tuple_total:
  assumes "(a, x) \<noteq> (b, y)"
  shows "(if less1 a b then True else if less1 b a then False else less2 x y)
    \<or> (if less1 b a then True else if less1 a b then False else less2 y x)"
  using assms first.total [of a b] second.total [of x y] by auto

end

lemma lsPosition_eq_iff [simp]: "lsPosition_eq a b \<longleftrightarrow> a = b"
  by (cases a; cases b) (simp add: lsPosition_eq_def)

lemma lsRange_eq_iff [simp]: "lsRange_eq a b \<longleftrightarrow> a = b"
  by (cases a; cases b) (simp add: lsRange_eq_def)

interpretation position: strict_order lsPosition_less
proof
  fix a b c :: lsPosition
  show "\<not> lsPosition_less a a" by (simp add: lsPosition_less_def)
  show "lsPosition_less a b \<Longrightarrow> lsPosition_less b c \<Longrightarrow> lsPosition_less a c"
    by (auto simp: lsPosition_less_def split: if_splits)
  show "a \<noteq> b \<Longrightarrow> lsPosition_less a b \<or> lsPosition_less b a"
    by (cases a; cases b) (auto simp: lsPosition_less_def)
qed

interpretation range: strict_order lsRange_less
proof
  fix a b c :: lsRange
  show "\<not> lsRange_less a a" by (simp add: lsRange_less_def position.irrefl)
  show "lsRange_less a b \<Longrightarrow> lsRange_less b c \<Longrightarrow> lsRange_less a c"
    unfolding lsRange_less_def lsPosition_eq_iff by (metis position.asym position.trans)
  show "a \<noteq> b \<Longrightarrow> lsRange_less a b \<or> lsRange_less b a"
    using position.total by (cases a; cases b) (auto simp: lsRange_less_def)
qed

lemma string_less_trans: "string_less a b \<Longrightarrow> string_less b c \<Longrightarrow> string_less a c"
proof (induction a b arbitrary: c rule: string_less.induct)
  case (3 a as b bs)
  then show ?case by (cases c) (auto split: if_splits)
next
  case (2 b bs)
  then show ?case by (cases c) (auto split: if_splits)
qed simp

lemma byte_of_inj: "byte_of a = byte_of b \<Longrightarrow> a = b"
  by (simp add: byte_of_def)

interpretation bytes: strict_order string_less
proof
  fix a b c :: string
  show "\<not> string_less a a" by (induction a) auto
  show "string_less a b \<Longrightarrow> string_less b c \<Longrightarrow> string_less a c" by (rule string_less_trans)
  show "a \<noteq> b \<Longrightarrow> string_less a b \<or> string_less b a"
  proof (induction a b rule: string_less.induct)
    case (1 a)
    then show ?case by (cases a) auto
  next
    case (3 a as b bs)
    then show ?case using byte_of_inj [of a b] by (auto simp: not_less_iff_gr_or_eq)
  qed simp
qed

interpretation uri_range: tuple_order string_less lsRange_less ..

interpretation location: strict_order lsLocation_less
proof
  fix a b c :: lsLocation
  show "\<not> lsLocation_less a a" by (simp add: lsLocation_less_def bytes.irrefl range.irrefl)
  show "lsLocation_less a b \<Longrightarrow> lsLocation_less b c \<Longrightarrow> lsLocation_less a c"
    unfolding lsLocation_less_def Let_def by (rule uri_range.tuple_trans)
  show "a \<noteq> b \<Longrightarrow> lsLocation_less a b \<or> lsLocation_less b a"
    unfolding lsLocation_less_def Let_def
    by (rule uri_range.tuple_total, cases a; cases b) (metis lsDocumentUri.equality lsLocation.select_convs Pair_inject old.unit.exhaust)
qed

lemma lsLocation_eq_iff: "lsLocation_eq a b \<longleftrightarrow> a = b"
  by (cases a; cases b) (auto simp: lsLocation_eq_def lsDocumentUri_eq_def intro: lsDocumentUri.equality)

text \<open>locations are totally ordered: of two locations exactly one is before the other or they are
  equal, in the sense of the library's own \<^verbatim>\<open>operator==\<close>, and the order is transitive, so they can be
  keys of an ordered set and are found there exactly when they are equal.
\<close>

theorem location_order:
  "(lsLocation_less a b \<and> \<not> lsLocation_eq a b \<and> \<not> lsLocation_less b a
    \<or> \<not> lsLocation_less a b \<and> lsLocation_eq a b \<and> \<not> lsLocation_less b a
    \<or> \<not> lsLocation_less a b \<and> \<not> lsLocation_eq a b \<and> lsLocation_less b a)
   \<and> (lsLocation_less a b \<and> lsLocation_less b c \<longrightarrow> lsLocation_less a c)"
  using location.trichotomy [of a b] location.trans [of a b c] by (simp add: lsLocation_eq_iff)

definition sample_location :: "string \<Rightarrow> nat \<Rightarrow> lsLocation" where
  "sample_location u n =
     \<lparr>location_uri = \<lparr>raw_uri = u\<rparr>,
      location_range = \<lparr>range_start = \<lparr>line = of_nat n, character = 0\<rparr>, range_end = \<lparr>line = of_nat n, character = 4\<rparr>\<rparr>\<rparr>"

theorem location_order_witness:
  "lsLocation_less (sample_location ''a'' 7) (sample_location ''b'' 1)
   \<and> lsLocation_less (sample_location ''b'' 1) (sample_location ''b'' 2)
   \<and> lsLocation_less (sample_location ''a'' 7) (sample_location ''b'' 2)"
proof -
  have 1: "lsLocation_less (sample_location ''a'' 7) (sample_location ''b'' 1)"
    and 2: "lsLocation_less (sample_location ''b'' 1) (sample_location ''b'' 2)"
    by code_simp+
  with location_order [of "sample_location ''a'' 7" "sample_location ''b'' 1" "sample_location ''b'' 2"]
  show ?thesis by blast
qed

section \<open>Identifiers of registrations\<close>

lemma hex_byte_digits: "hex_byte b = [hex_lower (unat b div 16), hex_lower (unat b mod 16)]"
proof -
  have "unat b div 16 < 16" using unsigned_less [of b, where ?'a = nat] by (simp add: less_mult_imp_div_less)
  then show ?thesis
    by (cases "unat b < 16")
      (simp_all add: hex_byte_def to_hex.simps [of "unat b"] to_hex.simps [of "unat b div 16"] hex_lower_def hex_chars_def)
qed

lemma byte_nibbles: "unat (b::u8) div 16 < 16" "unat (b::u8) mod 16 < 16"
  using unsigned_less [of b, where ?'a = nat] by (simp_all add: less_mult_imp_div_less)

lemma length_hex_byte [simp]: "length (hex_byte b) = 2"
  by (simp add: hex_byte_digits)

lemma hex_lower_inj: "m < 16 \<Longrightarrow> n < 16 \<Longrightarrow> hex_lower m = hex_lower n \<longleftrightarrow> m = n"
  using nibble_cases [of m] nibble_cases [of n] by (auto simp: hex_lower_def hex_chars_def)

lemma hex_lower_set: "n < 16 \<Longrightarrow> hex_lower n \<in> set hex_chars"
  unfolding hex_lower_def by (rule nth_mem) (simp add: hex_chars_def)

lemma hex_byte_inj: "hex_byte a = hex_byte b \<longleftrightarrow> a = b"
proof
  assume "hex_byte a = hex_byte b"
  then have "unat a div 16 = unat b div 16" "unat a mod 16 = unat b mod 16"
    by (simp_all add: hex_byte_digits hex_lower_inj byte_nibbles)
  then have "unat a = unat b" by (metis div_mult_mod_eq)
  then show "a = b" by (simp add: word_unat_eq_iff)
qed simp

lemma length_chunk_bytes [simp]: "length (chunk_bytes part) = 8"
  by (simp add: chunk_bytes_def)

lemma chunk_bytes_nth: "i < 8 \<Longrightarrow> chunk_bytes part ! i = ucast (drop_bit (8 * (7 - i)) part)"
  by (simp add: chunk_bytes_def)

lemma uuid_bytes_cons:
  "uuid_bytes p q =
    [chunk_bytes p ! 0, chunk_bytes p ! 1, chunk_bytes p ! 2, chunk_bytes p ! 3, chunk_bytes p ! 4,
     chunk_bytes p ! 5, (chunk_bytes p ! 6 AND 0x0F) OR 0x40, chunk_bytes p ! 7,
     (chunk_bytes q ! 0 AND 0x3F) OR 0x80, chunk_bytes q ! 1, chunk_bytes q ! 2, chunk_bytes q ! 3,
     chunk_bytes q ! 4, chunk_bytes q ! 5, chunk_bytes q ! 6, chunk_bytes q ! 7]"
  by (simp add: uuid_bytes_def chunk_bytes_def upt_rec Let_def)

lemma uuid_text:
  "generate_uuid_v4 p q =
     (let b = uuid_bytes p q in
      hex_byte (b ! 0) @ hex_byte (b ! 1) @ hex_byte (b ! 2) @ hex_byte (b ! 3) @ ''-'' @
      hex_byte (b ! 4) @ hex_byte (b ! 5) @ ''-'' @ hex_byte (b ! 6) @ hex_byte (b ! 7) @ ''-'' @
      hex_byte (b ! 8) @ hex_byte (b ! 9) @ ''-'' @ hex_byte (b ! 10) @ hex_byte (b ! 11) @
      hex_byte (b ! 12) @ hex_byte (b ! 13) @ hex_byte (b ! 14) @ hex_byte (b ! 15))"
  by (simp add: generate_uuid_v4_def uuid_bytes_cons)

lemma uuid_eq_iff:
  "generate_uuid_v4 p q = generate_uuid_v4 p' q' \<longleftrightarrow> uuid_bytes p q = uuid_bytes p' q'"
  unfolding uuid_text Let_def by (simp add: hex_byte_inj uuid_bytes_cons)

text \<open>The version and variant bits of the two forced bytes.\<close>

lemma high_nibble: "unat (w::u8) div 16 = unat (drop_bit 4 w)"
  by (simp add: drop_bit_eq_div unat_div_distrib)

lemma version_digit: "unat (((b::u8) AND 0x0F) OR 0x40) div 16 = 4"
proof -
  have "drop_bit 4 ((b AND 0x0F) OR 0x40) = (4::u8)"
    by (simp add: drop_bit_or drop_bit_and)
  then show ?thesis by (simp add: high_nibble)
qed

lemma low_two_bits: "(w::u8) AND 3 \<in> {0, 1, 2, 3}"
proof -
  have "w AND 3 = take_bit 2 w" by (simp add: take_bit_eq_mask mask_eq_exp_minus_1)
  then have "unat (w AND 3) = unat w mod 4" by (simp add: take_bit_eq_mod unat_mod_distrib)
  then have "unat (w AND 3) \<in> {0, 1, 2, 3}" unfolding insert_iff empty_iff by presburger
  then show ?thesis by (auto simp: word_unat_eq_iff)
qed

lemma variant_digit: "unat (((b::u8) AND 0x3F) OR 0x80) div 16 \<in> {8, 9, 10, 11}"
proof -
  have "drop_bit 4 ((b AND 0x3F) OR 0x80) = drop_bit 4 b AND 3 OR (8::u8)"
    by (simp add: drop_bit_or drop_bit_and)
  moreover have "drop_bit 4 b AND 3 \<in> {0, 1, 2, 3::u8}"
    by (rule low_two_bits)
  ultimately show ?thesis by (auto simp: high_nibble)
qed

lemma uuid_chars:
  "generate_uuid_v4 p q ! 14 = CHR ''4''" "generate_uuid_v4 p q ! 19 \<in> set ''89ab''"
  using variant_digit [of "chunk_bytes q ! 0"]
  unfolding uuid_text Let_def
  by (auto simp: hex_byte_digits uuid_bytes_cons version_digit hex_lower_def hex_chars_def)

lemma uuid_hyphens:
  "length (generate_uuid_v4 p q) = 36"
  "list_all (\<lambda>i. generate_uuid_v4 p q ! i = CHR ''-'') [8, 13, 18, 23]"
  unfolding uuid_text Let_def by (simp_all add: hex_byte_digits)

lemma count_hex_byte [simp]: "count_list (hex_byte b) CHR ''-'' = 0"
proof -
  have "CHR ''-'' \<notin> set hex_chars" by (simp add: hex_chars_def)
  then have "hex_lower n \<noteq> CHR ''-''" if "n < 16" for n using hex_lower_set [OF that] by metis
  then show ?thesis by (simp add: hex_byte_digits byte_nibbles)
qed

lemma uuid_hyphen_count: "count_list (generate_uuid_v4 p q) CHR ''-'' = 4"
  unfolding uuid_text Let_def by simp

definition uuid_char :: "char \<Rightarrow> bool" where
  "uuid_char c \<longleftrightarrow> c = CHR ''-'' \<or> c \<in> set hex_chars"

lemma uuid_char_byte [simp]: "list_all uuid_char (hex_byte b)"
  by (simp add: hex_byte_digits uuid_char_def hex_lower_set byte_nibbles)

lemma uuid_char_all: "list_all uuid_char (generate_uuid_v4 p q)"
  unfolding uuid_text Let_def by (simp del: append_Cons append_Nil) (simp add: uuid_char_def)

text \<open>The bits of the two random values that the identifier keeps.\<close>

lemma bit_chunk: "i < 8 \<Longrightarrow> bit (chunk_bytes p ! i) n \<longleftrightarrow> n < 8 \<and> bit p (8 * (7 - i) + n)"
  by (auto simp: chunk_bytes_nth bit_unsigned_iff bit_drop_bit_eq)

lemma u8_eq_iff: "(a::u8) = b \<longleftrightarrow> (\<forall>n<8. bit a n = bit b n)"
  by (auto simp: bit_eq_iff)

lemma chunk_eq: "i < 8 \<Longrightarrow> chunk_bytes p ! i = chunk_bytes p' ! i \<longleftrightarrow>
    (\<forall>n<8. bit p (8 * (7 - i) + n) = bit p' (8 * (7 - i) + n))"
  by (auto simp: u8_eq_iff bit_chunk)

lemma all_below_8: "(\<forall>n<8. P n) \<longleftrightarrow> P 0 \<and> P 1 \<and> P 2 \<and> P 3 \<and> P 4 \<and> P 5 \<and> P 6 \<and> P (7::nat)"
  by (simp add: numeral_eq_Suc All_less_Suc) blast

lemma all_below_4: "(\<forall>n<4. P n) \<longleftrightarrow> P 0 \<and> P 1 \<and> P 2 \<and> P (3::nat)"
  by (simp add: numeral_eq_Suc All_less_Suc) blast

lemma all_below_6: "(\<forall>n<6. P n) \<longleftrightarrow> P 0 \<and> P 1 \<and> P 2 \<and> P 3 \<and> P 4 \<and> P (5::nat)"
  by (simp add: numeral_eq_Suc All_less_Suc) blast

lemma version_byte_eq:
  "((a::u8) AND 0x0F) OR 0x40 = (b AND 0x0F) OR 0x40 \<longleftrightarrow> (\<forall>n<4. bit a n = bit b n)"
proof -
  have "bit ((w AND 0x0F) OR 0x40 :: u8) n \<longleftrightarrow> n < 4 \<and> bit w n \<or> n = 6" if "n < 8" for w n
    using that nibble_cases [of n] by (auto simp: bit_or_iff bit_and_iff)
  then show ?thesis by (simp add: u8_eq_iff all_below_8 all_below_4 all_below_6)
qed

lemma variant_byte_eq:
  "((a::u8) AND 0x3F) OR 0x80 = (b AND 0x3F) OR 0x80 \<longleftrightarrow> (\<forall>n<6. bit a n = bit b n)"
proof -
  have "bit ((w AND 0x3F) OR 0x80 :: u8) n \<longleftrightarrow> n < 6 \<and> bit w n \<or> n = 7" if "n < 8" for w n
    using that nibble_cases [of n] by (auto simp: bit_or_iff bit_and_iff)
  then show ?thesis by (simp add: u8_eq_iff all_below_8 all_below_4 all_below_6)
qed

text \<open>an identifier generated for a dynamic registration is a version 4 UUID, whatever the two
  random values are: 36 characters, hyphens after 8, 12, 16 and 20 digits and lower-case hexadecimal
  digits elsewhere, the version digit 4 and a variant digit from 8 to b.
\<close>

theorem uuid_v4_format:
  "length (generate_uuid_v4 p q) = 36
   \<and> list_all (\<lambda>i. generate_uuid_v4 p q ! i = CHR ''-'') [8, 13, 18, 23]
   \<and> count_list (generate_uuid_v4 p q) CHR ''-'' = 4
   \<and> list_all uuid_char (generate_uuid_v4 p q)
   \<and> generate_uuid_v4 p q ! 14 = CHR ''4'' \<and> generate_uuid_v4 p q ! 19 \<in> set ''89ab''"
  using uuid_hyphens uuid_char_all uuid_chars uuid_hyphen_count by blast

text \<open>the identifier keeps 122 random bits: two draws give the same identifier exactly if they agree
  on every bit other than the four version bits of the first value and the two variant bits of the second.
\<close>

theorem uuid_v4_random_bits:
  "generate_uuid_v4 p q = generate_uuid_v4 p' q' \<longleftrightarrow>
     list_all (\<lambda>n. bit p n = bit p' n) ([0..<12] @ [16..<64]) \<and> list_all (\<lambda>n. bit q n = bit q' n) [0..<62]"
  unfolding uuid_eq_iff uuid_bytes_cons
  by (simp add: chunk_eq version_byte_eq variant_byte_eq bit_chunk all_below_8 all_below_4 all_below_6
      upt_conv_Cons numeral_2_eq_2 [symmetric])
    (rule iffI; elim conjE; intro conjI; assumption)

end
