(* ===== verification/Client_Preferences.thy ===== *)
theory Client_Preferences
  imports Protocol_Properties Lsp_Utils
begin

text \<open>
  What the client announced in its \<^verbatim>\<open>initialize\<close> request, as the class \<^verbatim>\<open>ClientPreferences\<close>
  (\<^verbatim>\<open>include/LibLsp/lsp/ClientPreferences.h\<close>) answers it: the class keeps the parsed capabilities and
  its queries look at optional members of optional members.  The values are those of the serializers,
  so that the answers can be traced back to the JSON text of the request.
\<close>

section \<open>Members of a struct\<close>

definition struct_members :: "ty \<Rightarrow> member list" where
  "struct_members t = (case t of TStruct ms \<Rightarrow> ms | _ \<Rightarrow> [])"

definition field :: "ty \<Rightarrow> string \<Rightarrow> val \<Rightarrow> val" where
  "field t n v =
     (case map_of (zip (map fst (struct_members t)) (elems v)) n of Some w \<Rightarrow> w | None \<Rightarrow> VNone)"

definition engaged :: "val \<Rightarrow> bool" where
  "engaged v = (case v of VSome w \<Rightarrow> True | _ \<Rightarrow> False)"

definition value_of :: "val \<Rightarrow> val" where
  "value_of v = (case v of VSome w \<Rightarrow> w | _ \<Rightarrow> v)"

section \<open>The class\<close>

record ClientPreferences =
  cp_workspace :: "val option"
  cp_textDocument :: val
  v3supported :: bool

definition make_ClientPreferences :: "val \<Rightarrow> ClientPreferences" where
  "make_ClientPreferences capabilities =
     (let td = field lsClientCapabilities_t ''textDocument'' capabilities;
          ws = field lsClientCapabilities_t ''workspace'' capabilities in
      \<lparr>cp_workspace = (if engaged ws then Some (value_of ws) else None),
       cp_textDocument =
         (if engaged td then value_of td else fresh protocol_env lsTextDocumentClientCapabilities_t),
       v3supported = engaged td\<rparr>)"

definition isTrue :: "val \<Rightarrow> bool" where
  "isTrue v = (if engaged v then value_of v = VBool True else False)"

definition isDynamicRegistrationSupported :: "ty \<Rightarrow> val \<Rightarrow> bool" where
  "isDynamicRegistrationSupported t capability =
     (if engaged capability \<and> engaged (field t ''dynamicRegistration'' (value_of capability))
      then value_of (field t ''dynamicRegistration'' (value_of capability)) = VBool True
      else False)"

abbreviation td_field :: "string \<Rightarrow> ClientPreferences \<Rightarrow> val" where
  "td_field n c \<equiv> field lsTextDocumentClientCapabilities_t n (cp_textDocument c)"

abbreviation ws_field :: "string \<Rightarrow> val \<Rightarrow> val" where
  "ws_field n w \<equiv> field lsWorkspaceClientCapabilites_t n w"

text \<open>A query that needs the workspace capabilities is false without them.\<close>

definition with_workspace :: "ClientPreferences \<Rightarrow> (val \<Rightarrow> bool) \<Rightarrow> bool" where
  "with_workspace c f = (case cp_workspace c of None \<Rightarrow> False | Some w \<Rightarrow> f w)"

definition isSignatureHelpSupported :: "ClientPreferences \<Rightarrow> bool" where
  "isSignatureHelpSupported c = (v3supported c \<and> engaged (td_field ''signatureHelp'' c))"

definition isWorkspaceDidChangeConfigurationSupported :: "ClientPreferences \<Rightarrow> bool" where
  "isWorkspaceDidChangeConfigurationSupported c =
     with_workspace c (\<lambda>w. isDynamicRegistrationSupported DynamicRegistrationCapabilities_t (ws_field ''didChangeConfiguration'' w))"

definition isWorkspaceFoldersSupported :: "ClientPreferences \<Rightarrow> bool" where
  "isWorkspaceFoldersSupported c = with_workspace c (\<lambda>w. isTrue (ws_field ''workspaceFolders'' w))"

definition isCompletionDynamicRegistered :: "ClientPreferences \<Rightarrow> bool" where
  "isCompletionDynamicRegistered c =
     (v3supported c \<and> isDynamicRegistrationSupported CompletionCapabilities_t (td_field ''completion'' c))"

definition isCompletionSnippetsSupported :: "ClientPreferences \<Rightarrow> bool" where
  "isCompletionSnippetsSupported c =
     (if \<not> v3supported c \<or> \<not> engaged (td_field ''completion'' c) then False
      else
        let item = field CompletionCapabilities_t ''completionItem'' (value_of (td_field ''completion'' c)) in
        if engaged item then isTrue (field CompletionItemCapabilities_t ''snippetSupport'' (value_of item)) else False)"

definition isV3Supported :: "ClientPreferences \<Rightarrow> bool" where
  "isV3Supported c = v3supported c"

definition isFormattingDynamicRegistrationSupported :: "ClientPreferences \<Rightarrow> bool" where
  "isFormattingDynamicRegistrationSupported c =
     (v3supported c \<and> isDynamicRegistrationSupported DynamicRegistrationCapabilities_t (td_field ''formatting'' c))"

definition isRangeFormattingDynamicRegistrationSupported :: "ClientPreferences \<Rightarrow> bool" where
  "isRangeFormattingDynamicRegistrationSupported c =
     (v3supported c \<and> isDynamicRegistrationSupported DocumentRangeFormattingClientCapabilities_t (td_field ''rangeFormatting'' c))"

definition isOnTypeFormattingDynamicRegistrationSupported :: "ClientPreferences \<Rightarrow> bool" where
  "isOnTypeFormattingDynamicRegistrationSupported c =
     (v3supported c \<and> isDynamicRegistrationSupported DynamicRegistrationCapabilities_t (td_field ''onTypeFormatting'' c))"

definition isCodeLensDynamicRegistrationSupported :: "ClientPreferences \<Rightarrow> bool" where
  "isCodeLensDynamicRegistrationSupported c =
     (v3supported c \<and> isDynamicRegistrationSupported CodeLensClientCapabilities_t (td_field ''codeLens'' c))"

definition isSignatureHelpDynamicRegistrationSupported :: "ClientPreferences \<Rightarrow> bool" where
  "isSignatureHelpDynamicRegistrationSupported c =
     (v3supported c \<and> isDynamicRegistrationSupported SignatureHelpCapabilities_t (td_field ''signatureHelp'' c))"

definition isRenameDynamicRegistrationSupported :: "ClientPreferences \<Rightarrow> bool" where
  "isRenameDynamicRegistrationSupported c =
     (v3supported c \<and> isDynamicRegistrationSupported RenameCapabilities_t (td_field ''rename'' c))"

definition isExecuteCommandDynamicRegistrationSupported :: "ClientPreferences \<Rightarrow> bool" where
  "isExecuteCommandDynamicRegistrationSupported c =
     (v3supported c \<and> with_workspace c (\<lambda>w. isDynamicRegistrationSupported DynamicRegistrationCapabilities_t (ws_field ''executeCommand'' w)))"

definition isWorkspaceSymbolDynamicRegistered :: "ClientPreferences \<Rightarrow> bool" where
  "isWorkspaceSymbolDynamicRegistered c =
     (v3supported c \<and> with_workspace c (\<lambda>w. isDynamicRegistrationSupported SymbolCapabilities_t (ws_field ''symbol'' w)))"

definition isWorkspaceChangeWatchedFilesDynamicRegistered :: "ClientPreferences \<Rightarrow> bool" where
  "isWorkspaceChangeWatchedFilesDynamicRegistered c =
     (v3supported c \<and> with_workspace c (\<lambda>w. isDynamicRegistrationSupported DynamicRegistrationCapabilities_t (ws_field ''didChangeWatchedFiles'' w)))"

definition isDocumentSymbolDynamicRegistered :: "ClientPreferences \<Rightarrow> bool" where
  "isDocumentSymbolDynamicRegistered c =
     (v3supported c \<and> isDynamicRegistrationSupported DocumentSymbolCapabilities_t (td_field ''documentSymbol'' c))"

definition isCodeActionDynamicRegistered :: "ClientPreferences \<Rightarrow> bool" where
  "isCodeActionDynamicRegistered c =
     (v3supported c \<and> isDynamicRegistrationSupported CodeActionCapabilities_t (td_field ''codeAction'' c))"

definition isDefinitionDynamicRegistered :: "ClientPreferences \<Rightarrow> bool" where
  "isDefinitionDynamicRegistered c =
     (v3supported c \<and> isDynamicRegistrationSupported DeclarationCapabilities_t (td_field ''definition'' c))"

definition isTypeDefinitionDynamicRegistered :: "ClientPreferences \<Rightarrow> bool" where
  "isTypeDefinitionDynamicRegistered c =
     (v3supported c \<and> isDynamicRegistrationSupported DeclarationCapabilities_t (td_field ''typeDefinition'' c))"

definition isHoverDynamicRegistered :: "ClientPreferences \<Rightarrow> bool" where
  "isHoverDynamicRegistered c =
     (v3supported c \<and> isDynamicRegistrationSupported HoverCapabilities_t (td_field ''hover'' c))"

definition isReferencesDynamicRegistered :: "ClientPreferences \<Rightarrow> bool" where
  "isReferencesDynamicRegistered c =
     (v3supported c \<and> isDynamicRegistrationSupported DynamicRegistrationCapabilities_t (td_field ''references'' c))"

definition isDocumentHighlightDynamicRegistered :: "ClientPreferences \<Rightarrow> bool" where
  "isDocumentHighlightDynamicRegistered c =
     (v3supported c \<and> isDynamicRegistrationSupported DynamicRegistrationCapabilities_t (td_field ''documentHighlight'' c))"

definition isDocumentLinkDynamicRegistered :: "ClientPreferences \<Rightarrow> bool" where
  "isDocumentLinkDynamicRegistered c =
     (v3supported c \<and> isDynamicRegistrationSupported DynamicRegistrationCapabilities_t (td_field ''documentLink'' c))"

definition isFoldgingRangeDynamicRegistered :: "ClientPreferences \<Rightarrow> bool" where
  "isFoldgingRangeDynamicRegistered c =
     (v3supported c \<and> isDynamicRegistrationSupported FoldingRangeCapabilities_t (td_field ''foldingRange'' c))"

definition isInlayHintDynamicRegistered :: "ClientPreferences \<Rightarrow> bool" where
  "isInlayHintDynamicRegistered c =
     (v3supported c \<and> isDynamicRegistrationSupported InlayHintClientCapabilities_t (td_field ''inlayHint'' c))"

definition isImplementationDynamicRegistered :: "ClientPreferences \<Rightarrow> bool" where
  "isImplementationDynamicRegistered c =
     (v3supported c \<and> isDynamicRegistrationSupported DeclarationCapabilities_t (td_field ''implementation'' c))"

definition isSelectionRangeDynamicRegistered :: "ClientPreferences \<Rightarrow> bool" where
  "isSelectionRangeDynamicRegistered c =
     (v3supported c \<and> isDynamicRegistrationSupported DynamicRegistrationCapabilities_t (td_field ''selectionRange'' c))"

definition isWillSaveRegistered :: "ClientPreferences \<Rightarrow> bool" where
  "isWillSaveRegistered c =
     (v3supported c \<and> isTrue (field SynchronizationCapabilities_t ''willSave'' (td_field ''synchronization'' c)))"

definition isWillSaveWaitUntilRegistered :: "ClientPreferences \<Rightarrow> bool" where
  "isWillSaveWaitUntilRegistered c =
     (v3supported c \<and> isTrue (field SynchronizationCapabilities_t ''willSaveWaitUntil'' (td_field ''synchronization'' c)))"

definition isWorkspaceApplyEditSupported :: "ClientPreferences \<Rightarrow> bool" where
  "isWorkspaceApplyEditSupported c = with_workspace c (\<lambda>w. isTrue (ws_field ''applyEdit'' w))"

text \<open>The loops over vectors of strings return at the first match.\<close>

fun contains :: "val list \<Rightarrow> string \<Rightarrow> bool" where
  "contains [] target = False"
| "contains (it # v) target = (if it = VString target then True else contains v target)"

definition isSupportsCompletionDocumentationMarkdown :: "ClientPreferences \<Rightarrow> bool" where
  "isSupportsCompletionDocumentationMarkdown c =
     (if \<not> v3supported c \<or> \<not> engaged (td_field ''completion'' c) then False
      else
        let item = field CompletionCapabilities_t ''completionItem'' (value_of (td_field ''completion'' c)) in
        if engaged item then
          let format = field CompletionItemCapabilities_t ''documentationFormat'' (value_of item) in
          if engaged format then contains (elems (value_of format)) ''markdown'' else False
        else False)"

definition isWorkspaceEditResourceChangesSupported :: "ClientPreferences \<Rightarrow> bool" where
  "isWorkspaceEditResourceChangesSupported c =
     with_workspace c (\<lambda>w.
       let edit = ws_field ''workspaceEdit'' w in
       if engaged edit then isTrue (field WorkspaceEditCapabilities_t ''resourceChanges'' (value_of edit)) else False)"

definition isResourceOperationSupported :: "ClientPreferences \<Rightarrow> bool" where
  "isResourceOperationSupported c =
     with_workspace c (\<lambda>w.
       let edit = ws_field ''workspaceEdit'' w in
       if \<not> engaged edit then False
       else
         let ops = field WorkspaceEditCapabilities_t ''resourceOperations'' (value_of edit) in
         if \<not> engaged ops then False
         else contains (elems (value_of ops)) ''create'' \<and> contains (elems (value_of ops)) ''rename''
           \<and> contains (elems (value_of ops)) ''delete'')"

definition isHierarchicalDocumentSymbolSupported :: "ClientPreferences \<Rightarrow> bool" where
  "isHierarchicalDocumentSymbolSupported c =
     (if \<not> v3supported c \<or> \<not> engaged (td_field ''documentSymbol'' c) then False
      else isTrue (field DocumentSymbolCapabilities_t ''hierarchicalDocumentSymbolSupport'' (value_of (td_field ''documentSymbol'' c))))"

definition isSemanticHighlightingSupported :: "ClientPreferences \<Rightarrow> bool" where
  "isSemanticHighlightingSupported c =
     (if \<not> v3supported c \<or> \<not> engaged (td_field ''semanticHighlightingCapabilities'' c) then False
      else isTrue (field SemanticHighlightingCapabilities_t ''semanticHighlighting''
        (value_of (td_field ''semanticHighlightingCapabilities'' c))))"

fun kind_listed :: "string \<Rightarrow> val list \<Rightarrow> bool" where
  "kind_listed action [] = False"
| "kind_listed action (k # ks) =
     (if (case k of VString s \<Rightarrow> lsp_StartsWith action s | _ \<Rightarrow> False) then True else kind_listed action ks)"

definition isSupportedCodeActionKind :: "string \<Rightarrow> ClientPreferences \<Rightarrow> bool" where
  "isSupportedCodeActionKind action c =
     (if \<not> v3supported c \<or> \<not> engaged (td_field ''codeAction'' c) then False
      else
        let literal = field CodeActionCapabilities_t ''codeActionLiteralSupport'' (value_of (td_field ''codeAction'' c)) in
        if engaged literal then
          let actionKind = field CodeActionLiteralSupportCapabilities_t ''codeActionKind'' (value_of literal) in
          if engaged actionKind then
            let valueSet = field CodeActionKindCapabilities_t ''valueSet'' (value_of actionKind) in
            if engaged valueSet then kind_listed action (elems (value_of valueSet)) else False
          else False
        else False)"

definition isTagSupported :: "val \<Rightarrow> bool" where
  "isTagSupported tagSupport =
     (if engaged tagSupport then
        let v = value_of tagSupport in
        if engaged (pair_first v) then value_of (pair_first v) = VBool True
        else if engaged (pair_second v) then
          elems (field DiagnosticsTagSupport_t ''valueSet'' (value_of (pair_second v))) \<noteq> []
        else False
      else False)"

text \<open>The result of \<^verbatim>\<open>isTagSupported\<close> is not used: the statement after it returns \<^verbatim>\<open>false\<close>.\<close>

definition isDiagnosticTagSupported :: "ClientPreferences \<Rightarrow> bool" where
  "isDiagnosticTagSupported c =
     (if \<not> v3supported c \<or> \<not> engaged (td_field ''publishDiagnostics'' c) then False
      else
        let tagSupport =
          field PublishDiagnosticsClientCapabilities_t ''tagSupport'' (value_of (td_field ''publishDiagnostics'' c)) in
        if engaged tagSupport then (let unused = isTagSupported tagSupport in False) else False)"

definition isCallHierarchyDynamicRegistered :: "ClientPreferences \<Rightarrow> bool" where
  "isCallHierarchyDynamicRegistered c =
     (v3supported c \<and> isDynamicRegistrationSupported DynamicRegistrationCapabilities_t (td_field ''callHierarchy'' c))"

section \<open>From the JSON text to the answers\<close>

text \<open>
  A member of a JSON object that is there and is not null, the value at the end of a path of them, and
  whether that value is \<^verbatim>\<open>true\<close>.
\<close>

definition json_get :: "json \<Rightarrow> string \<Rightarrow> json option" where
  "json_get j n =
     (case j of
        JObject ms \<Rightarrow> (case map_of ms n of Some x \<Rightarrow> if IsNull x then None else Some x | None \<Rightarrow> None)
      | _ \<Rightarrow> None)"

fun json_path :: "json \<Rightarrow> string list \<Rightarrow> json option" where
  "json_path j [] = Some j"
| "json_path j (n # ns) = Option.bind (json_get j n) (\<lambda>j'. json_path j' ns)"

definition flag_set :: "json \<Rightarrow> string list \<Rightarrow> bool" where
  "flag_set j ns \<longleftrightarrow> json_path j ns = Some (JBool True)"

text \<open>
  The queries that ask for one flag: the query, whether it also asks for text document capabilities,
  and where the flag is.
\<close>

definition flag_queries :: "((ClientPreferences \<Rightarrow> bool) \<times> bool \<times> string list) list" where
  "flag_queries =
    [(isCompletionDynamicRegistered, False, [''textDocument'', ''completion'', ''dynamicRegistration'']),
     (isFormattingDynamicRegistrationSupported, False, [''textDocument'', ''formatting'', ''dynamicRegistration'']),
     (isRangeFormattingDynamicRegistrationSupported, False, [''textDocument'', ''rangeFormatting'', ''dynamicRegistration'']),
     (isOnTypeFormattingDynamicRegistrationSupported, False, [''textDocument'', ''onTypeFormatting'', ''dynamicRegistration'']),
     (isCodeLensDynamicRegistrationSupported, False, [''textDocument'', ''codeLens'', ''dynamicRegistration'']),
     (isSignatureHelpDynamicRegistrationSupported, False, [''textDocument'', ''signatureHelp'', ''dynamicRegistration'']),
     (isRenameDynamicRegistrationSupported, False, [''textDocument'', ''rename'', ''dynamicRegistration'']),
     (isDocumentSymbolDynamicRegistered, False, [''textDocument'', ''documentSymbol'', ''dynamicRegistration'']),
     (isCodeActionDynamicRegistered, False, [''textDocument'', ''codeAction'', ''dynamicRegistration'']),
     (isDefinitionDynamicRegistered, False, [''textDocument'', ''definition'', ''dynamicRegistration'']),
     (isTypeDefinitionDynamicRegistered, False, [''textDocument'', ''typeDefinition'', ''dynamicRegistration'']),
     (isHoverDynamicRegistered, False, [''textDocument'', ''hover'', ''dynamicRegistration'']),
     (isReferencesDynamicRegistered, False, [''textDocument'', ''references'', ''dynamicRegistration'']),
     (isDocumentHighlightDynamicRegistered, False, [''textDocument'', ''documentHighlight'', ''dynamicRegistration'']),
     (isDocumentLinkDynamicRegistered, False, [''textDocument'', ''documentLink'', ''dynamicRegistration'']),
     (isFoldgingRangeDynamicRegistered, False, [''textDocument'', ''foldingRange'', ''dynamicRegistration'']),
     (isInlayHintDynamicRegistered, False, [''textDocument'', ''inlayHint'', ''dynamicRegistration'']),
     (isImplementationDynamicRegistered, False, [''textDocument'', ''implementation'', ''dynamicRegistration'']),
     (isSelectionRangeDynamicRegistered, False, [''textDocument'', ''selectionRange'', ''dynamicRegistration'']),
     (isCallHierarchyDynamicRegistered, False, [''textDocument'', ''callHierarchy'', ''dynamicRegistration'']),
     (isExecuteCommandDynamicRegistrationSupported, True, [''workspace'', ''executeCommand'', ''dynamicRegistration'']),
     (isWorkspaceSymbolDynamicRegistered, True, [''workspace'', ''symbol'', ''dynamicRegistration'']),
     (isWorkspaceChangeWatchedFilesDynamicRegistered, True, [''workspace'', ''didChangeWatchedFiles'', ''dynamicRegistration'']),
     (isWorkspaceDidChangeConfigurationSupported, False, [''workspace'', ''didChangeConfiguration'', ''dynamicRegistration'']),
     (isWorkspaceFoldersSupported, False, [''workspace'', ''workspaceFolders'']),
     (isWorkspaceApplyEditSupported, False, [''workspace'', ''applyEdit'']),
     (isWorkspaceEditResourceChangesSupported, False, [''workspace'', ''workspaceEdit'', ''resourceChanges'']),
     (isWillSaveRegistered, False, [''textDocument'', ''synchronization'', ''willSave'']),
     (isWillSaveWaitUntilRegistered, False, [''textDocument'', ''synchronization'', ''willSaveWaitUntil'']),
     (isCompletionSnippetsSupported, False, [''textDocument'', ''completion'', ''completionItem'', ''snippetSupport'']),
     (isHierarchicalDocumentSymbolSupported, False, [''textDocument'', ''documentSymbol'', ''hierarchicalDocumentSymbolSupport'']),
     (isSemanticHighlightingSupported, False, [''textDocument'', ''semanticHighlightingCapabilities'', ''semanticHighlighting''])]"

lemma read_member:
  assumes "rd_traverse (\<lambda>m. DoMember (member_name (fst m)) (\<lambda>j' c. Reflect_read L E (member_type (fst m)) j' c) j (snd m))
      (zip ms cs) = Value vs"
    and "length cs = length ms" and "map_of ms n = Some (t, i)"
  shows "\<exists>c w. map_of (zip (map fst ms) cs) n = Some c \<and> map_of (zip (map fst ms) vs) n = Some w
      \<and> DoMember n (\<lambda>j' c. Reflect_read L E t j' c) j c = Value w"
  using assms
proof (induction ms arbitrary: cs vs)
  case (Cons m ms)
  obtain c cs' where cs: "cs = c # cs'" using Cons.prems(2) by (cases cs) auto
  obtain n' t' i' where m: "m = (n', t', i')" by (cases m)
  from Cons.prems(1) obtain w vs' where vs: "vs = w # vs'"
      "DoMember n' (\<lambda>j' c. Reflect_read L E t' j' c) j c = Value w"
      "rd_traverse (\<lambda>m. DoMember (member_name (fst m)) (\<lambda>j' c. Reflect_read L E (member_type (fst m)) j' c) j (snd m))
        (zip ms cs') = Value vs'"
    by (auto simp: cs m rd_bind_Value rd_map_Value member_name_def member_type_def)
  show ?case
  proof (cases "n' = n")
    case True
    with Cons.prems(3) vs show ?thesis by (simp add: cs m)
  next
    case False
    with Cons.IH [OF vs(3)] Cons.prems(2,3) show ?thesis by (simp add: cs m vs(1))
  qed
qed simp

lemma map_of_fresh: "map_of ms n = Some (t, i) \<Longrightarrow> map_of (zip (map fst ms) (map fresh_member ms)) n = Some (fresh_member (n, t, i))"
  by (induction ms) auto

lemma fresh_struct: "fresh E (TStruct ms) = VStruct (map fresh_member ms)"
  by (simp add: fresh_def fresh_member_def split_def)

text \<open>What the reader of a struct leaves in a member that has no initializer.\<close>

lemma read_field:
  assumes "Reflect_read L E (TStruct ms) j (fresh E (TStruct ms)) = Value v" and "map_of ms n = Some (t, None)"
  shows "DoMember n (\<lambda>j' c. Reflect_read L E t j' c) j (fresh0 t) = Value (field (TStruct ms) n v)"
proof -
  from assms(1) obtain vs where "v = VStruct vs"
      "rd_traverse (\<lambda>m. DoMember (member_name (fst m)) (\<lambda>j' c. Reflect_read L E (member_type (fst m)) j' c) j (snd m))
        (zip ms (map fresh_member ms)) = Value vs"
    by (auto simp: fresh_struct Reflect_read.simps rd_map_Value)
  with read_member [OF this(2) _ assms(2)] map_of_fresh [OF assms(2)] show ?thesis
    by (auto simp: field_def struct_members_def fresh_member_def)
qed

lemma read_optional_field:
  assumes "Reflect_read L E (TStruct ms) j (fresh E (TStruct ms)) = Value v"
    and "map_of ms n = Some (TOptional t, None)"
  shows "case json_get j n of
      None \<Rightarrow> field (TStruct ms) n v = VNone
    | Some j' \<Rightarrow> (\<exists>w. field (TStruct ms) n v = VSome w \<and> Reflect_read L E t j' (fresh E t) = Value w)"
  using read_field [OF assms]
  by (auto simp: DoMember_def json_get_def Reflect_read.simps rd_map_Value split: json.splits option.splits if_splits)

text \<open>
  One flag, and one step of a path: a query that is true of what a member holds exactly if the rest of
  the path leads to \<^verbatim>\<open>true\<close> is true of the whole exactly if the path with the member does.
\<close>

abbreviation reads :: "jsonlib \<Rightarrow> member list \<Rightarrow> json \<Rightarrow> val \<Rightarrow> bool" where
  "reads L ms j v \<equiv> Reflect_read L protocol_env (TStruct ms) j (fresh protocol_env (TStruct ms)) = Value v"

definition asks :: "jsonlib \<Rightarrow> member list \<Rightarrow> (val \<Rightarrow> bool) \<Rightarrow> string list \<Rightarrow> bool" where
  "asks L ms P ns \<longleftrightarrow> (\<forall>j v. reads L ms j v \<longrightarrow> P v = flag_set j ns)"

lemma flag_set_Cons: "flag_set j (n # ns) \<longleftrightarrow> (case json_get j n of None \<Rightarrow> False | Some j' \<Rightarrow> flag_set j' ns)"
  by (simp add: flag_set_def split: option.split)

lemma asks_flag:
  assumes "map_of ms n = Some (TOptional TBool, None)"
  shows "asks L ms (\<lambda>v. isTrue (field (TStruct ms) n v)) [n]"
  unfolding asks_def
proof (intro allI impI)
  fix j v
  assume "reads L ms j v"
  from read_optional_field [OF this assms] show "isTrue (field (TStruct ms) n v) = flag_set j [n]"
    by (auto simp: isTrue_def engaged_def value_of_def flag_set_def Reflect_read.simps Reflect_bool_def IsBool_def
        GetBool_def split: option.splits if_splits json.splits)
qed

lemma asks_optional:
  assumes "map_of ms n = Some (TOptional (TStruct ks), None)" and "asks L ks P ns"
  shows "asks L ms (\<lambda>v. engaged (field (TStruct ms) n v) \<and> P (value_of (field (TStruct ms) n v))) (n # ns)"
  unfolding asks_def
proof (intro allI impI)
  fix j v
  assume "reads L ms j v"
  from read_optional_field [OF this assms(1)] assms(2)
  show "(engaged (field (TStruct ms) n v) \<and> P (value_of (field (TStruct ms) n v))) = flag_set j (n # ns)"
    by (auto simp: flag_set_Cons engaged_def value_of_def asks_def split: option.splits)
qed

lemma json_get_null: "json_get JNull n = None"
  by (simp add: json_get_def)

lemma flag_set_null: "ns \<noteq> [] \<Longrightarrow> \<not> flag_set JNull ns"
  by (cases ns) (simp_all add: flag_set_def json_get_null)

lemma rd_traverse_pure: "rd_traverse (\<lambda>m. Value (f m)) xs = Value (map f xs)"
  by (induction xs) simp_all

lemma IsNull_iff: "IsNull j \<longleftrightarrow> j = JNull"
  by (simp add: IsNull_def split: json.split)

lemma asks_member:
  assumes "map_of ms n = Some (TStruct ks, None)" and "asks L ks P ns" and "ns \<noteq> []"
  shows "asks L ms (\<lambda>v. P (field (TStruct ms) n v)) (n # ns)"
  unfolding asks_def
proof (intro allI impI)
  fix j v
  assume r: "reads L ms j v"
  have fresh: "fresh0 (TStruct ks) = fresh protocol_env (TStruct ks)" by (simp add: fresh_def)
  have absent: "P (fresh0 (TStruct ks)) = False"
  proof -
    have "reads L ks JNull (fresh0 (TStruct ks))"
      by (simp add: Reflect_read.simps fresh_struct fresh DoMember_def rd_traverse_pure fresh_member_def split_def)
    with assms(2) have "P (fresh0 (TStruct ks)) = flag_set JNull ns" unfolding asks_def by blast
    with assms(3) show ?thesis by (simp add: flag_set_null)
  qed
  from read_field [OF r assms(1)] assms(2) absent flag_set_null [OF assms(3)]
  show "P (field (TStruct ms) n v) = flag_set j (n # ns)"
    by (auto simp: flag_set_Cons json_get_def DoMember_def fresh asks_def IsNull_iff simp del: fresh0.simps
        split: json.splits option.splits)
qed

text \<open>The two levels the class adds: its constructor keeps the two members of the capabilities.\<close>

abbreviation client_members :: "member list" where
  "client_members \<equiv> struct_members lsClientCapabilities_t"

abbreviation td_members :: "member list" where
  "td_members \<equiv> struct_members lsTextDocumentClientCapabilities_t"

abbreviation ws_members :: "member list" where
  "ws_members \<equiv> struct_members lsWorkspaceClientCapabilites_t"

lemma struct_types:
  "TStruct client_members = lsClientCapabilities_t"
  "TStruct td_members = lsTextDocumentClientCapabilities_t"
  "TStruct ws_members = lsWorkspaceClientCapabilites_t"
  by (simp_all add: struct_members_def lsClientCapabilities_t_def lsTextDocumentClientCapabilities_t_def
      lsWorkspaceClientCapabilites_t_def)

lemma client_lookups:
  "map_of client_members ''textDocument'' = Some (TOptional (TStruct td_members), None)"
  "map_of client_members ''workspace'' = Some (TOptional (TStruct ws_members), None)"
  unfolding struct_types by (simp_all add: struct_members_def lsClientCapabilities_t_def)

lemma td_query:
  assumes "asks L td_members P ns"
  shows "asks L client_members
    (\<lambda>v. v3supported (make_ClientPreferences v) \<and> P (cp_textDocument (make_ClientPreferences v))) (''textDocument'' # ns)"
  using asks_optional [OF client_lookups(1) assms] unfolding struct_types
  by (simp add: asks_def make_ClientPreferences_def Let_def cong: conj_cong)

lemma ws_query:
  assumes "asks L ws_members P ns"
  shows "asks L client_members (\<lambda>v. with_workspace (make_ClientPreferences v) P) (''workspace'' # ns)"
  using asks_optional [OF client_lookups(2) assms] unfolding struct_types
  by (auto simp: asks_def make_ClientPreferences_def with_workspace_def Let_def)

lemma v3_query:
  assumes "reads L client_members j v"
  shows "v3supported (make_ClientPreferences v) \<longleftrightarrow> json_get j ''textDocument'' \<noteq> None"
  using read_optional_field [OF assms client_lookups(1)] unfolding struct_types
  by (auto simp: make_ClientPreferences_def Let_def engaged_def split: option.splits)

lemma asks_dynamic:
  assumes "map_of ms n = Some (TOptional t, None)" and "t = TStruct ks"
    and "map_of ks ''dynamicRegistration'' = Some (TOptional TBool, None)"
  shows "asks L ms (\<lambda>v. isDynamicRegistrationSupported t (field (TStruct ms) n v)) [n, ''dynamicRegistration'']"
proof -
  have "isDynamicRegistrationSupported t c \<longleftrightarrow> engaged c \<and> isTrue (field t ''dynamicRegistration'' (value_of c))" for c
    by (simp add: isDynamicRegistrationSupported_def isTrue_def)
  with asks_optional [OF assms(1) [unfolded assms(2)] asks_flag [OF assms(3)]] show ?thesis
    by (simp add: assms(2))
qed

definition answers :: "jsonlib \<Rightarrow> (ClientPreferences \<Rightarrow> bool) \<times> bool \<times> string list \<Rightarrow> bool" where
  "answers L = (\<lambda>(q, v3, ns). \<forall>j v. reads L client_members j v \<longrightarrow>
     q (make_ClientPreferences v) = ((v3 \<longrightarrow> json_get j ''textDocument'' \<noteq> None) \<and> flag_set j ns))"

lemma answers_asks: "asks L client_members (\<lambda>v. q (make_ClientPreferences v)) ns \<Longrightarrow> answers L (q, False, ns)"
  by (simp add: answers_def asks_def)

lemma answers_asks_v3:
  assumes "\<And>c. q c = (v3supported c \<and> q' c)" and "asks L client_members (\<lambda>v. q' (make_ClientPreferences v)) ns"
  shows "answers L (q, True, ns)"
  using assms v3_query by (simp add: answers_def asks_def)

text \<open>A struct with a flag for dynamic registration, and where the structs of the protocol have it.\<close>

definition registers :: "ty \<Rightarrow> bool" where
  "registers t \<longleftrightarrow> TStruct (struct_members t) = t
     \<and> map_of (struct_members t) ''dynamicRegistration'' = Some (TOptional TBool, None)"

lemma td_dynamic:
  assumes "\<And>c. q c = (v3supported c \<and> isDynamicRegistrationSupported t (td_field n c))"
    and "map_of td_members n = Some (TOptional t, None)" and "registers t"
  shows "answers L (q, False, [''textDocument'', n, ''dynamicRegistration''])"
  using td_query [OF asks_dynamic [OF assms(2), of "struct_members t", unfolded struct_types]] assms(3)
  by (simp add: answers_def asks_def assms(1) registers_def)

lemma ws_dynamic:
  assumes "map_of ws_members n = Some (TOptional t, None)" and "registers t"
  shows "asks L client_members
    (\<lambda>v. with_workspace (make_ClientPreferences v) (\<lambda>w. isDynamicRegistrationSupported t (ws_field n w)))
    [''workspace'', n, ''dynamicRegistration'']"
  using ws_query [OF asks_dynamic [OF assms(1), of "struct_members t", unfolded struct_types]] assms(2)
  by (simp add: registers_def)

lemma registering:
  "registers CompletionCapabilities_t" "registers DynamicRegistrationCapabilities_t"
  "registers DocumentRangeFormattingClientCapabilities_t" "registers CodeLensClientCapabilities_t"
  "registers SignatureHelpCapabilities_t" "registers RenameCapabilities_t" "registers DocumentSymbolCapabilities_t"
  "registers CodeActionCapabilities_t" "registers DeclarationCapabilities_t" "registers HoverCapabilities_t"
  "registers FoldingRangeCapabilities_t" "registers InlayHintClientCapabilities_t" "registers SymbolCapabilities_t"
  by (simp_all add: registers_def struct_members_def capability_types_defs core_types_defs)

lemmas td_lookup = struct_members_def lsTextDocumentClientCapabilities_t_def
lemmas ws_lookup = struct_members_def lsWorkspaceClientCapabilites_t_def

lemmas td_dynamic_queries =
  td_dynamic [OF isCompletionDynamicRegistered_def]
  td_dynamic [OF isFormattingDynamicRegistrationSupported_def]
  td_dynamic [OF isRangeFormattingDynamicRegistrationSupported_def]
  td_dynamic [OF isOnTypeFormattingDynamicRegistrationSupported_def]
  td_dynamic [OF isCodeLensDynamicRegistrationSupported_def]
  td_dynamic [OF isSignatureHelpDynamicRegistrationSupported_def]
  td_dynamic [OF isRenameDynamicRegistrationSupported_def]
  td_dynamic [OF isDocumentSymbolDynamicRegistered_def]
  td_dynamic [OF isCodeActionDynamicRegistered_def]
  td_dynamic [OF isDefinitionDynamicRegistered_def]
  td_dynamic [OF isTypeDefinitionDynamicRegistered_def]
  td_dynamic [OF isHoverDynamicRegistered_def]
  td_dynamic [OF isReferencesDynamicRegistered_def]
  td_dynamic [OF isDocumentHighlightDynamicRegistered_def]
  td_dynamic [OF isDocumentLinkDynamicRegistered_def]
  td_dynamic [OF isFoldgingRangeDynamicRegistered_def]
  td_dynamic [OF isInlayHintDynamicRegistered_def]
  td_dynamic [OF isImplementationDynamicRegistered_def]
  td_dynamic [OF isSelectionRangeDynamicRegistered_def]
  td_dynamic [OF isCallHierarchyDynamicRegistered_def]

lemma ws_dynamic_queries:
  "answers L (isExecuteCommandDynamicRegistrationSupported, True, [''workspace'', ''executeCommand'', ''dynamicRegistration''])"
  "answers L (isWorkspaceSymbolDynamicRegistered, True, [''workspace'', ''symbol'', ''dynamicRegistration''])"
  "answers L (isWorkspaceChangeWatchedFilesDynamicRegistered, True, [''workspace'', ''didChangeWatchedFiles'', ''dynamicRegistration''])"
  by (rule answers_asks_v3 [OF isExecuteCommandDynamicRegistrationSupported_def ws_dynamic]
      answers_asks_v3 [OF isWorkspaceSymbolDynamicRegistered_def ws_dynamic]
      answers_asks_v3 [OF isWorkspaceChangeWatchedFilesDynamicRegistered_def ws_dynamic];
      simp add: ws_lookup registering)+

lemma asks_flag_of:
  "TStruct (struct_members t) = t \<Longrightarrow> map_of (struct_members t) n = Some (TOptional TBool, None) \<Longrightarrow>
    asks L (struct_members t) (\<lambda>v. isTrue (field t n v)) [n]"
  using asks_flag [of "struct_members t" n L] by simp

lemma asks_optional_of:
  "TStruct (struct_members t) = t \<Longrightarrow> map_of (struct_members t) n = Some (TOptional u, None) \<Longrightarrow>
    TStruct (struct_members u) = u \<Longrightarrow> asks L (struct_members u) P ns \<Longrightarrow>
    asks L (struct_members t) (\<lambda>v. engaged (field t n v) \<and> P (value_of (field t n v))) (n # ns)"
  using asks_optional [of "struct_members t" n "struct_members u" L P ns] by simp

lemma asks_member_of:
  "TStruct (struct_members t) = t \<Longrightarrow> map_of (struct_members t) n = Some (u, None) \<Longrightarrow>
    TStruct (struct_members u) = u \<Longrightarrow> asks L (struct_members u) P ns \<Longrightarrow> ns \<noteq> [] \<Longrightarrow>
    asks L (struct_members t) (\<lambda>v. P (field t n v)) (n # ns)"
  using asks_member [of "struct_members t" n "struct_members u" L P ns] by simp

lemma ws_lookups:
  "map_of ws_members ''applyEdit'' = Some (TOptional TBool, None)"
  "map_of ws_members ''workspaceFolders'' = Some (TOptional TBool, None)"
  "map_of ws_members ''workspaceEdit'' = Some (TOptional WorkspaceEditCapabilities_t, None)"
  "map_of ws_members ''didChangeConfiguration'' = Some (TOptional DynamicRegistrationCapabilities_t, None)"
  by (simp_all add: ws_lookup)

lemma td_lookups:
  "map_of td_members ''synchronization'' = Some (SynchronizationCapabilities_t, None)"
  "map_of td_members ''completion'' = Some (TOptional CompletionCapabilities_t, None)"
  "map_of td_members ''documentSymbol'' = Some (TOptional DocumentSymbolCapabilities_t, None)"
  "map_of td_members ''semanticHighlightingCapabilities'' = Some (TOptional SemanticHighlightingCapabilities_t, None)"
  by (simp_all add: td_lookup)

lemma struct_flags:
  "map_of (struct_members WorkspaceEditCapabilities_t) ''resourceChanges'' = Some (TOptional TBool, None)"
  "map_of (struct_members SynchronizationCapabilities_t) ''willSave'' = Some (TOptional TBool, None)"
  "map_of (struct_members SynchronizationCapabilities_t) ''willSaveWaitUntil'' = Some (TOptional TBool, None)"
  "map_of (struct_members CompletionItemCapabilities_t) ''snippetSupport'' = Some (TOptional TBool, None)"
  "map_of (struct_members DocumentSymbolCapabilities_t) ''hierarchicalDocumentSymbolSupport'' = Some (TOptional TBool, None)"
  "map_of (struct_members SemanticHighlightingCapabilities_t) ''semanticHighlighting'' = Some (TOptional TBool, None)"
  "map_of (struct_members CompletionCapabilities_t) ''completionItem'' = Some (TOptional CompletionItemCapabilities_t, None)"
  by (simp_all add: struct_members_def capability_types_defs)

lemma are_structs:
  "TStruct (struct_members WorkspaceEditCapabilities_t) = WorkspaceEditCapabilities_t"
  "TStruct (struct_members SynchronizationCapabilities_t) = SynchronizationCapabilities_t"
  "TStruct (struct_members CompletionItemCapabilities_t) = CompletionItemCapabilities_t"
  "TStruct (struct_members CompletionCapabilities_t) = CompletionCapabilities_t"
  "TStruct (struct_members DocumentSymbolCapabilities_t) = DocumentSymbolCapabilities_t"
  "TStruct (struct_members SemanticHighlightingCapabilities_t) = SemanticHighlightingCapabilities_t"
  by (simp_all add: struct_members_def capability_types_defs)

text \<open>The queries that return early, as conjunctions.\<close>

lemma guarded:
  "isWorkspaceEditResourceChangesSupported c = with_workspace c (\<lambda>w. engaged (ws_field ''workspaceEdit'' w)
     \<and> isTrue (field WorkspaceEditCapabilities_t ''resourceChanges'' (value_of (ws_field ''workspaceEdit'' w))))"
  "isCompletionSnippetsSupported c = (v3supported c \<and> engaged (td_field ''completion'' c)
     \<and> engaged (field CompletionCapabilities_t ''completionItem'' (value_of (td_field ''completion'' c)))
     \<and> isTrue (field CompletionItemCapabilities_t ''snippetSupport''
         (value_of (field CompletionCapabilities_t ''completionItem'' (value_of (td_field ''completion'' c))))))"
  "isHierarchicalDocumentSymbolSupported c = (v3supported c \<and> engaged (td_field ''documentSymbol'' c)
     \<and> isTrue (field DocumentSymbolCapabilities_t ''hierarchicalDocumentSymbolSupport'' (value_of (td_field ''documentSymbol'' c))))"
  "isSemanticHighlightingSupported c = (v3supported c \<and> engaged (td_field ''semanticHighlightingCapabilities'' c)
     \<and> isTrue (field SemanticHighlightingCapabilities_t ''semanticHighlighting''
         (value_of (td_field ''semanticHighlightingCapabilities'' c))))"
  by (auto simp: isWorkspaceEditResourceChangesSupported_def isCompletionSnippetsSupported_def
      isHierarchicalDocumentSymbolSupported_def isSemanticHighlightingSupported_def with_workspace_def Let_def
      split: option.split)

lemma ws_queries:
  "answers L (isWorkspaceDidChangeConfigurationSupported, False,
     [''workspace'', ''didChangeConfiguration'', ''dynamicRegistration''])"
  "answers L (isWorkspaceFoldersSupported, False, [''workspace'', ''workspaceFolders''])"
  "answers L (isWorkspaceApplyEditSupported, False, [''workspace'', ''applyEdit''])"
  "answers L (isWorkspaceEditResourceChangesSupported, False, [''workspace'', ''workspaceEdit'', ''resourceChanges''])"
  using ws_dynamic [OF ws_lookups(4) registering(2)]
    ws_query [OF asks_flag_of [OF struct_types(3) ws_lookups(2)]]
    ws_query [OF asks_flag_of [OF struct_types(3) ws_lookups(1)]]
    ws_query [OF asks_optional_of [OF struct_types(3) ws_lookups(3) are_structs(1)
        asks_flag_of [OF are_structs(1) struct_flags(1)]]]
  by (simp_all add: answers_asks isWorkspaceDidChangeConfigurationSupported_def isWorkspaceFoldersSupported_def
      isWorkspaceApplyEditSupported_def guarded)

lemma td_queries:
  "answers L (isWillSaveRegistered, False, [''textDocument'', ''synchronization'', ''willSave''])"
  "answers L (isWillSaveWaitUntilRegistered, False, [''textDocument'', ''synchronization'', ''willSaveWaitUntil''])"
  "answers L (isCompletionSnippetsSupported, False,
     [''textDocument'', ''completion'', ''completionItem'', ''snippetSupport''])"
  "answers L (isHierarchicalDocumentSymbolSupported, False,
     [''textDocument'', ''documentSymbol'', ''hierarchicalDocumentSymbolSupport''])"
  "answers L (isSemanticHighlightingSupported, False,
     [''textDocument'', ''semanticHighlightingCapabilities'', ''semanticHighlighting''])"
  using td_query [OF asks_member_of [OF struct_types(2) td_lookups(1) are_structs(2)
        asks_flag_of [OF are_structs(2) struct_flags(2)]]]
    td_query [OF asks_member_of [OF struct_types(2) td_lookups(1) are_structs(2)
        asks_flag_of [OF are_structs(2) struct_flags(3)]]]
    td_query [OF asks_optional_of [OF struct_types(2) td_lookups(2) are_structs(4)
        asks_optional_of [OF are_structs(4) struct_flags(7) are_structs(3) asks_flag_of [OF are_structs(3) struct_flags(4)]]]]
    td_query [OF asks_optional_of [OF struct_types(2) td_lookups(3) are_structs(5)
        asks_flag_of [OF are_structs(5) struct_flags(5)]]]
    td_query [OF asks_optional_of [OF struct_types(2) td_lookups(4) are_structs(6)
        asks_flag_of [OF are_structs(6) struct_flags(6)]]]
  by (simp_all add: answers_asks isWillSaveRegistered_def isWillSaveWaitUntilRegistered_def guarded)

lemma flag_queries_answer: "list_all (answers L) flag_queries"
  unfolding flag_queries_def list.pred_inject
  by (intro conjI TrueI ws_queries td_queries ws_dynamic_queries td_dynamic_queries; simp add: td_lookup registering)

text \<open>C34: the flag queries of \<^verbatim>\<open>ClientPreferences\<close> answer what the client wrote: when the capabilities in the
  JSON text of the \<^verbatim>\<open>initialize\<close> request are accepted by the reader, each of the 32 queries is true
  exactly if the text has the value \<^verbatim>\<open>true\<close> at the query's path, so an absent or null object or flag
  counts as \<^verbatim>\<open>false\<close>; the three workspace queries that ask for it need the text document capabilities too.
\<close>

theorem preferences_follow_json:
  assumes "(q, v3, path) \<in> set flag_queries"
    and "Reflect_read L protocol_env lsClientCapabilities_t j (fresh protocol_env lsClientCapabilities_t) = Value v"
  shows "q (make_ClientPreferences v) \<longleftrightarrow> (v3 \<longrightarrow> json_get j ''textDocument'' \<noteq> None) \<and> flag_set j path"
  using flag_queries_answer [of L] assms by (auto simp: list_all_iff answers_def struct_types)

definition sample_capabilities :: json where
  "sample_capabilities =
     JObject [(''workspace'', JObject [(''applyEdit'', JBool True)]),
       (''textDocument'', JObject [(''completion'', JObject [(''completionItem'', JObject [(''snippetSupport'', JBool True)])]),
          (''hover'', JNull)])]"

definition sample_preferences :: val where
  "sample_preferences =
     (case Reflect_read sample_lib protocol_env lsClientCapabilities_t sample_capabilities
        (fresh protocol_env lsClientCapabilities_t) of Value v \<Rightarrow> v | _ \<Rightarrow> VNone)"

theorem preferences_follow_json_witness:
  "isCompletionSnippetsSupported (make_ClientPreferences sample_preferences)
   \<and> \<not> isHoverDynamicRegistered (make_ClientPreferences sample_preferences)"
proof -
  have read: "Reflect_read sample_lib protocol_env lsClientCapabilities_t sample_capabilities
      (fresh protocol_env lsClientCapabilities_t) = Value sample_preferences"
    unfolding sample_preferences_def by code_simp
  have listed: "(isCompletionSnippetsSupported, False, [''textDocument'', ''completion'', ''completionItem'', ''snippetSupport''])
      \<in> set flag_queries"
    "(isHoverDynamicRegistered, False, [''textDocument'', ''hover'', ''dynamicRegistration'']) \<in> set flag_queries"
    by (simp_all add: flag_queries_def)
  have paths: "flag_set sample_capabilities [''textDocument'', ''completion'', ''completionItem'', ''snippetSupport'']"
    "\<not> flag_set sample_capabilities [''textDocument'', ''hover'', ''dynamicRegistration'']"
    by code_simp+
  from preferences_follow_json [OF listed(1) read] preferences_follow_json [OF listed(2) read] paths
  show ?thesis by simp
qed

text \<open>the query for diagnostic tags is false for every client, also for one that announced
  \<^verbatim>\<open>tagSupport\<close>: the answer computed by \<^verbatim>\<open>isTagSupported\<close> is dropped.
\<close>

theorem diagnostic_tags_never_supported: "\<not> isDiagnosticTagSupported c"
  by (simp add: isDiagnosticTagSupported_def)

end
