(* ===== verification/Lsp_Any.thy ===== *)
theory Lsp_Any
  imports Protocol_Properties
begin

text \<open>
  \<^verbatim>\<open>lsp::Any\<close> (\<^verbatim>\<open>include/LibLsp/lsp/lsAny.h\<close>, \<^verbatim>\<open>src/lsp/lsp.cpp\<close>): a JSON value kept as its text and a type
  code, converted to and from typed values on demand; and the resource operations of a workspace edit,
  which are kept that way.
\<close>

section \<open>State and type codes\<close>

record Any =
  any_data :: string
  jsonType :: int

text \<open>\<^verbatim>\<open>lsp::Any::Type\<close>; the numbers are those of \<^verbatim>\<open>rapidjson::Type\<close>.\<close>

definition kUnKnown :: int where "kUnKnown = - 1"
definition kNullType :: int where "kNullType = 0"
definition kFalseType :: int where "kFalseType = 1"
definition kTrueType :: int where "kTrueType = 2"
definition kObjectType :: int where "kObjectType = 3"
definition kArrayType :: int where "kArrayType = 4"
definition kStringType :: int where "kStringType = 5"
definition kNumberType :: int where "kNumberType = 6"

lemmas type_codes = kUnKnown_def kNullType_def kFalseType_def kTrueType_def kObjectType_def kArrayType_def
  kStringType_def kNumberType_def

definition new_Any :: Any where
  "new_Any = \<lparr>any_data = [], jsonType = kUnKnown\<rparr>"

definition GuessType :: "Any \<Rightarrow> int \<times> Any" where
  "GuessType a =
     (let d = any_data a;
          t = (if d \<noteq> [] then
                 if d = ''null'' then kNullType
                 else if d = ''true'' then kTrueType
                 else if d = ''false'' then kFalseType
                 else if hd d = CHR ''{'' then kObjectType
                 else if hd d = CHR ''['' then
                   (if length d \<ge> 2 \<and> d ! 1 = CHR ''{'' then kStringType else kArrayType)
                 else if hd d = CHR 0x22 then kStringType
                 else kNumberType
               else if jsonType a \<noteq> kUnKnown then jsonType a
               else kNullType)
      in (t, a\<lparr>jsonType := t\<rparr>))"

definition GetType :: "jsonlib \<Rightarrow> Any \<Rightarrow> int \<times> Any" where
  "GetType L a =
     (if jsonType a = kUnKnown then
        if any_data a = [] then (kNullType, a\<lparr>jsonType := kNullType\<rparr>)
        else case parse_value L (any_data a) of
               None \<Rightarrow> (jsonType a, a)
             | Some j \<Rightarrow> (type_code j, a\<lparr>jsonType := type_code j\<rparr>)
      else (jsonType a, a))"

definition SetJsonString :: "jsonlib \<Rightarrow> string \<Rightarrow> int \<Rightarrow> Any \<Rightarrow> Any" where
  "SetJsonString L d t a = snd (GetType L (a\<lparr>jsonType := t, any_data := d\<rparr>))"

definition swap_any :: "Any \<Rightarrow> Any \<Rightarrow> Any \<times> Any" where
  "swap_any a b =
     (a\<lparr>any_data := any_data b, jsonType := jsonType b\<rparr>, b\<lparr>any_data := any_data a, jsonType := jsonType a\<rparr>)"

text \<open>\<^verbatim>\<open>Reflect(Reader&, lsp::Any&)\<close> through \<^verbatim>\<open>SetJsonString\<close>, and \<^verbatim>\<open>convert\<close>.\<close>

definition convert :: "json \<Rightarrow> int" where
  "convert j =
     (case j of JNull \<Rightarrow> kNullType | JBool b \<Rightarrow> (if b then kTrueType else kFalseType) | JObject ms \<Rightarrow> kObjectType
      | JArray js \<Rightarrow> kArrayType | JString s \<Rightarrow> kStringType | JNumber n \<Rightarrow> kNumberType | JDouble d \<Rightarrow> kNumberType)"

definition Reflect_Any :: "jsonlib \<Rightarrow> json \<Rightarrow> Any \<Rightarrow> Any" where
  "Reflect_Any L j a = SetJsonString L (ToString_json L j) (convert j) a"

section \<open>Conversion to and from typed values\<close>

text \<open>\<^verbatim>\<open>GetReader\<close>: no reader when the text does not parse.\<close>

definition GetReader :: "jsonlib \<Rightarrow> Any \<Rightarrow> json option \<times> Any" where
  "GetReader L a =
     (case parse_value L (any_data a) of
        None \<Rightarrow> (None, a)
      | Some j \<Rightarrow> (Some j, if jsonType a = kUnKnown then a\<lparr>jsonType := type_code j\<rparr> else a))"

text \<open>\<^verbatim>\<open>Any::Get\<close> dereferences the reader without a test.\<close>

definition Get_any :: "jsonlib \<Rightarrow> tenv \<Rightarrow> ty \<Rightarrow> Any \<Rightarrow> val \<Rightarrow> val rd \<times> Any" where
  "Get_any L E t a cur =
     (case GetReader L a of
        (None, a') \<Rightarrow> (Undefined, a')
      | (Some j, a') \<Rightarrow> (Reflect_read L E t j cur, a'))"

text \<open>\<^verbatim>\<open>Any::Set\<close>: \<^verbatim>\<open>GetWriter\<close>, \<^verbatim>\<open>Reflect\<close> and \<^verbatim>\<open>SetData\<close>; no result when the calls are not one JSON value.\<close>

definition Set_any :: "jsonlib \<Rightarrow> tenv \<Rightarrow> ty \<Rightarrow> val \<Rightarrow> Any \<Rightarrow> Any option" where
  "Set_any L E t v a =
     (case document L (Reflect_write E t v) of
        None \<Rightarrow> None
      | Some j \<Rightarrow> Some (snd (GuessType (a\<lparr>any_data := ToString_json L j\<rparr>))))"

text \<open>\<^verbatim>\<open>GetForMapHelper\<close>: strings are read as such; other types are also read from a quoted text.\<close>

definition strip_quotes :: "string \<Rightarrow> string" where
  "strip_quotes d = dropWhile (\<lambda>c. c = CHR 0x22) (rev (dropWhile (\<lambda>c. c = CHR 0x22) (rev d)))"

definition reads_strings :: "ty \<Rightarrow> bool" where
  "reads_strings t = (case t of TString \<Rightarrow> True | TOptional t' \<Rightarrow> (case t' of TString \<Rightarrow> True | _ \<Rightarrow> False) | _ \<Rightarrow> False)"

definition GetForMapHelper :: "jsonlib \<Rightarrow> tenv \<Rightarrow> ty \<Rightarrow> Any \<Rightarrow> val \<Rightarrow> val rd" where
  "GetForMapHelper L E t a cur =
     (if reads_strings t then fst (Get_any L E t a cur)
      else case GetType L a of
        (k, a') \<Rightarrow>
          if k = kStringType then fst (Get_any L E t (SetJsonString L (strip_quotes (any_data a')) kUnKnown new_Any) cur)
          else fst (Get_any L E t a' cur))"

text \<open>\<^verbatim>\<open>GetFromMap\<close>: the value is read as a map of \<^verbatim>\<open>lsp::Any\<close>, and each member of the struct from its entry.\<close>

definition any_of_val :: "val \<Rightarrow> Any" where
  "any_of_val v = (case v of VAny k d \<Rightarrow> \<lparr>any_data = d, jsonType = k\<rparr> | _ \<Rightarrow> new_Any)"

definition GetFromMap :: "jsonlib \<Rightarrow> tenv \<Rightarrow> member list \<Rightarrow> Any \<Rightarrow> val list \<Rightarrow> val list rd" where
  "GetFromMap L E ms a cs =
     rd_bind (fst (Get_any L E (TMap TAny) a (VMap [])))
       (\<lambda>m. rd_traverse
          (\<lambda>p. case map_of (entries m) (member_name (fst p)) of
                 Some v \<Rightarrow> GetForMapHelper L E (member_type (fst p)) (any_of_val v) (snd p)
               | None \<Rightarrow> Value (snd p))
          (zip ms cs))"

section \<open>Resource operations\<close>

text \<open>
  \<^verbatim>\<open>GetResourceOperation\<close>: the operation is chosen by the member \<^verbatim>\<open>kind\<close>; without that member the code
  dereferences the end iterator, and on a value that is not an object \<^verbatim>\<open>FindMember\<close> fails its assertion.
\<close>

definition GetResourceOperation :: "jsonlib \<Rightarrow> Any \<Rightarrow> (ty \<times> val) option rd" where
  "GetResourceOperation L a =
     (case parse_value L (any_data a) of
        None \<Rightarrow> Value None
      | Some j \<Rightarrow>
          (case get_member j ''kind'' of
             None \<Rightarrow> Undefined
           | Some k \<Rightarrow>
               (let read = (\<lambda>t. case Reflect_read L protocol_env t j (fresh protocol_env t) of
                                  Value v \<Rightarrow> Value (Some (t, v))
                                | Throw e x \<Rightarrow> Value None
                                | Undefined \<Rightarrow> Undefined)
                in if k = JString ''create'' then read lsCreateFile_t
                   else if k = JString ''rename'' then read lsRenameFile_t
                   else if k = JString ''delete'' then read lsDeleteFile_t
                   else Value None)))"

text \<open>\<^verbatim>\<open>Reflect(Writer&, ResourceOperation*)\<close>: by the kind that the operation carries; an unknown kind writes nothing.\<close>

definition operation_kind :: "val \<Rightarrow> string" where
  "operation_kind v = (case v of VStruct (VString k # vs) \<Rightarrow> k | _ \<Rightarrow> [])"

definition Reflect_write_operation :: "val option \<Rightarrow> string + event list" where
  "Reflect_write_operation p =
     (case p of
        None \<Rightarrow> Inl ''ResourceOperation value is nullptr''
      | Some v \<Rightarrow>
          Inr (if operation_kind v = ''create'' then Reflect_write protocol_env lsCreateFile_t v
               else if operation_kind v = ''rename'' then Reflect_write protocol_env lsRenameFile_t v
               else if operation_kind v = ''delete'' then Reflect_write protocol_env lsDeleteFile_t v
               else []))"

section \<open>Properties\<close>

lemma convert_known: "convert j = type_code j" "type_code j \<noteq> kUnKnown"
  by (cases j; simp add: convert_def type_code_def type_codes)+

text \<open>The reader of \<^verbatim>\<open>lsp::Any\<close> as one of the overloads is the assignment through \<^verbatim>\<open>SetJsonString\<close>.\<close>

lemma Reflect_Any_overload:
  "Reflect_any L j = Value (VAny (jsonType (Reflect_Any L j a)) (any_data (Reflect_Any L j a)))"
  by (simp add: Reflect_any_def Reflect_Any_def SetJsonString_def GetType_def convert_known)

text \<open>\<^verbatim>\<open>GetType\<close> settles the type code for good.\<close>

lemma GetType_idempotent: "GetType L (snd (GetType L a)) = GetType L a"
  by (auto simp: GetType_def type_codes split: option.split)

text \<open>\<^verbatim>\<open>GuessType\<close> takes an array of objects for a string.\<close>

lemma GuessType_array_of_objects:
  "any_data a = CHR ''['' # CHR ''{'' # r \<Longrightarrow> fst (GuessType a) = kStringType"
  by (simp add: GuessType_def Let_def)

lemma any_data_GuessType [simp]: "any_data (snd (GuessType a)) = any_data a"
  by (simp add: GuessType_def Let_def)

text \<open>What is stored in an \<^verbatim>\<open>lsp::Any\<close> comes out again: for every protocol type outside the listed
  exceptions, \<^verbatim>\<open>Set\<close> of a value that may be sent succeeds, and \<^verbatim>\<open>Get\<close> with the same type gives the value
  back, provided the JSON library reads back the text that it printed for it.\<close>

theorem any_set_get:
  assumes "(n, t) \<in> set protocol_types" "n \<notin> set lossy_types" "sendable L protocol_env t v"
    and "parse_value L (ToString_json L (json_of L protocol_env t v)) = Some (json_of L protocol_env t v)"
  shows "\<exists>a'. Set_any L protocol_env t v a = Some a' \<and> fst (Get_any L protocol_env t a' (fresh protocol_env t)) = Value v"
proof -
  note r = returns_value [OF protocol_types_return [OF assms(1,2)] assms(3)]
  show ?thesis using assms(4) r by (simp add: Set_any_def Get_any_def GetReader_def)
qed

theorem any_set_get_witness:
  "\<exists>a'. Set_any sample_lib protocol_env WorkDoneProgressOptions_t (VStruct [VNone]) new_Any = Some a'
     \<and> fst (Get_any sample_lib protocol_env WorkDoneProgressOptions_t a' (fresh protocol_env WorkDoneProgressOptions_t)) = Value (VStruct [VNone])"
proof (rule any_set_get [of "''WorkDoneProgressOptions''"])
  show "(''WorkDoneProgressOptions'', WorkDoneProgressOptions_t) \<in> set protocol_types"
    by (simp add: protocol_types_def capability_types_def core_types_def)
  show "''WorkDoneProgressOptions'' \<notin> set lossy_types" by code_simp
  show "sendable sample_lib protocol_env WorkDoneProgressOptions_t (VStruct [VNone])" by code_simp
  show "parse_value sample_lib (ToString_json sample_lib (json_of sample_lib protocol_env WorkDoneProgressOptions_t (VStruct [VNone]))) =
      Some (json_of sample_lib protocol_env WorkDoneProgressOptions_t (VStruct [VNone]))"
    by code_simp
qed

text \<open>A quoted value is read through its quotes: a boolean that was sent as a string still arrives.\<close>

lemma quoted_bool:
  "parse_value L ''true'' = Some (JBool True) \<Longrightarrow>
   GetForMapHelper L E TBool \<lparr>any_data = [CHR 0x22, CHR ''t'', CHR ''r'', CHR ''u'', CHR ''e'', CHR 0x22], jsonType = kStringType\<rparr> c
   = Value (VBool True)"
  by (simp add: GetForMapHelper_def reads_strings_def GetType_def strip_quotes_def SetJsonString_def new_Any_def type_codes
      Get_any_def GetReader_def Reflect_read.simps Reflect_bool_def IsBool_def GetBool_def type_code_def)

text \<open>An empty quoted string is read through a null reader.\<close>

lemma quoted_empty:
  "parse_value L [] = None \<Longrightarrow>
   GetForMapHelper L E (TInt CInt) \<lparr>any_data = [CHR 0x22, CHR 0x22], jsonType = kStringType\<rparr> c = Undefined"
  by (simp add: GetForMapHelper_def reads_strings_def GetType_def strip_quotes_def SetJsonString_def new_Any_def type_codes
      Get_any_def GetReader_def)

end
