(* ===== verification/Fd_Stream.thy ===== *)
theory Fd_Stream
  imports Message_Framing "HOL-Library.Sublist"
begin

text \<open>
  Streams over file descriptors: \<^verbatim>\<open>stdin_istream\<close> of \<^verbatim>\<open>include/LibLsp/JsonRpc/stream.h\<close>, \<^verbatim>\<open>pipe_istream\<close> and \<^verbatim>\<open>pipe_ostream\<close>
  of \<^verbatim>\<open>jsonrpc/Process.cpp\<close> (POSIX), and the stream adapters \<^verbatim>\<open>base_ostream\<close> and \<^verbatim>\<open>standard_ostream\<close>.  What the kernel
  answers to \<^verbatim>\<open>poll\<close>, \<^verbatim>\<open>read\<close> and \<^verbatim>\<open>write\<close>, and when another thread calls \<^verbatim>\<open>interrupt\<close>, is a list of rounds in the state of the
  stream; after the last round the descriptor is ready and has everything that is asked for.  Both input streams satisfy
  the contract \<^verbatim>\<open>byte_source\<close>; the output streams satisfy the contract \<^verbatim>\<open>byte_sink\<close> stated here.
\<close>

section \<open>What the kernel answers\<close>

datatype errno = EINTR | Errno string

definition strerror :: "errno \<Rightarrow> string" where
  "strerror e = (case e of EINTR \<Rightarrow> ''Interrupted system call'' | Errno m \<Rightarrow> m)"

record revents =
  POLLIN :: bool
  POLLHUP :: bool
  POLLERR :: bool
  POLLNVAL :: bool

datatype poll_result = Poll_timeout | Poll_error errno | Poll_events revents

text \<open>A successful \<^verbatim>\<open>read\<close> gives as much as has arrived, which is at least one byte unless the input has ended.\<close>

datatype read_result = Read_error errno | Read_arrived nat

record round =
  poll_result :: poll_result
  read_result :: read_result
  interrupt_in_poll :: bool
  interrupt_before_read :: bool

definition ready :: round where
  "ready = \<lparr>poll_result = Poll_events \<lparr>POLLIN = True, POLLHUP = False, POLLERR = False, POLLNVAL = False\<rparr>,
            read_result = Read_arrived 0, interrupt_in_poll = False, interrupt_before_read = False\<rparr>"

section \<open>The input streams\<close>

record fd_stream =
  fd :: int
  fd_interrupted :: bool
  fd_eof :: bool
  fd_bad :: bool
  fd_what :: string
  fd_buffer :: string
  fd_buffer_pos :: nat
  arriving :: string
  rounds :: "round list"

text \<open>
  The two classes differ in their texts, and in that \<^verbatim>\<open>stdin_istream\<close> looks at the flag once more before
  it reads.
\<close>

record fd_class =
  invalid_text :: string
  error_text :: string
  interrupted_text :: string
  checks_before_read :: bool

definition kBufferCapacity :: nat where
  "kBufferCapacity = 4096"

definition SSIZE_MAX :: nat where
  "SSIZE_MAX = 2 ^ 63 - 1"

definition sys_read :: "round \<Rightarrow> nat \<Rightarrow> fd_stream \<Rightarrow> (errno + string) \<times> fd_stream" where
  "sys_read r n s =
     (case read_result r of
        Read_error e \<Rightarrow> (Inl e, s)
      | Read_arrived k \<Rightarrow>
          (let n' = min n (max 1 k) in (Inr (take n' (arriving s)), s\<lparr>arriving := drop n' (arriving s)\<rparr>)))"

definition fail_with :: "string \<Rightarrow> fd_stream \<Rightarrow> string \<times> fd_stream" where
  "fail_with m s = ([], s\<lparr>fd_bad := True, fd_what := m\<rparr>)"

text \<open>One attempt to read, after \<^verbatim>\<open>poll\<close> has reported input; \<^const>\<open>None\<close> is the \<^verbatim>\<open>continue\<close> after an interrupted call.\<close>

definition read_ready :: "nat \<Rightarrow> round \<Rightarrow> fd_stream \<Rightarrow> (string \<times> fd_stream) option \<times> fd_stream" where
  "read_ready count r s =
     (if kBufferCapacity \<le> count then
        (case sys_read r (min count SSIZE_MAX) s of
           (Inr [], s1) \<Rightarrow> (Some ([], s1\<lparr>fd_eof := True\<rparr>), s1)
         | (Inr bs, s1) \<Rightarrow> (Some (bs, s1), s1)
         | (Inl e, s1) \<Rightarrow> (if e = EINTR then None else Some (fail_with (strerror e) s1), s1))
      else
        (case sys_read r kBufferCapacity s of
           (Inr [], s1) \<Rightarrow>
             (let s2 = s1\<lparr>fd_buffer := [], fd_buffer_pos := 0\<rparr> in (Some ([], s2\<lparr>fd_eof := True\<rparr>), s2))
         | (Inr bs, s1) \<Rightarrow>
             (let copied = min (length bs) count in
              (Some (take copied bs, s1\<lparr>fd_buffer := bs, fd_buffer_pos := copied\<rparr>), s1))
         | (Inl e, s1) \<Rightarrow>
             (let s2 = s1\<lparr>fd_buffer := [], fd_buffer_pos := 0\<rparr> in
              (if e = EINTR then None else Some (fail_with (strerror e) s2), s2))))"

text \<open>The polling loop.  Leaving it because of the flag reports the end of the input.\<close>

definition interrupted_read :: "fd_stream \<Rightarrow> string \<times> fd_stream" where
  "interrupted_read s = ([], s\<lparr>fd_eof := True\<rparr>)"

fun poll_loop :: "fd_class \<Rightarrow> nat \<Rightarrow> round list \<Rightarrow> fd_stream \<Rightarrow> string \<times> fd_stream" where
  "poll_loop cls count [] s =
     (if fd_interrupted s then interrupted_read (s\<lparr>rounds := []\<rparr>)
      else (case read_ready count (ready\<lparr>read_result := Read_arrived count\<rparr>) (s\<lparr>rounds := []\<rparr>) of
              (Some res, _) \<Rightarrow> res
            | (None, s1) \<Rightarrow> ([], s1)))"
| "poll_loop cls count (r # rs) s =
     (if fd_interrupted s then interrupted_read (s\<lparr>rounds := r # rs\<rparr>)
      else
        (let s1 = s\<lparr>rounds := rs, fd_interrupted := interrupt_in_poll r\<rparr> in
         if fd_interrupted s1 then interrupted_read s1
         else (case poll_result r of
            Poll_timeout \<Rightarrow> poll_loop cls count rs s1
          | Poll_error e \<Rightarrow> if e = EINTR then poll_loop cls count rs s1 else fail_with (strerror e) s1
          | Poll_events ev \<Rightarrow>
              if POLLNVAL ev then fail_with (invalid_text cls) s1
              else if POLLERR ev then fail_with (error_text cls) s1
              else if \<not> (POLLIN ev \<or> POLLHUP ev) then poll_loop cls count rs s1
              else
                (let s2 = s1\<lparr>fd_interrupted := interrupt_before_read r\<rparr> in
                 if checks_before_read cls \<and> fd_interrupted s2 then interrupted_read s2
                 else (case read_ready count r s2 of
                         (Some res, _) \<Rightarrow> res
                       | (None, s3) \<Rightarrow> poll_loop cls count rs s3)))))"

definition fd_read_some :: "fd_class \<Rightarrow> nat \<Rightarrow> fd_stream \<Rightarrow> string \<times> fd_stream" where
  "fd_read_some cls count s =
     (if count = 0 \<or> fd_interrupted s then ([], s)
      else if fd_buffer_pos s < length (fd_buffer s) then
        (let available = length (fd_buffer s) - fd_buffer_pos s;
             copied = min available count
         in (take copied (drop (fd_buffer_pos s) (fd_buffer s)), s\<lparr>fd_buffer_pos := fd_buffer_pos s + copied\<rparr>))
      else if fd s < 0 then fail_with (invalid_text cls) s
      else poll_loop cls count (rounds s) s)"

definition fd_get :: "fd_class \<Rightarrow> fd_stream \<Rightarrow> char option \<times> fd_stream" where
  "fd_get cls s = (case fd_read_some cls 1 s of
     ([c], s1) \<Rightarrow> (Some c, s1)
   | (_, s1) \<Rightarrow> (None, s1))"

text \<open>\<^verbatim>\<open>read\<close> asks again until it has everything or a call gives nothing.\<close>

function fill_loop :: "fd_class \<Rightarrow> nat \<Rightarrow> fd_stream \<Rightarrow> string \<times> fd_stream" where
  "fill_loop cls n s =
     (if n = 0 then ([], s)
      else (case fd_read_some cls n s of
              ([], s1) \<Rightarrow> ([], s1)
            | (b # bs, s1) \<Rightarrow>
                (case fill_loop cls (n - length (b # bs)) s1 of (cs, s2) \<Rightarrow> ((b # bs) @ cs, s2))))"
  by pat_completeness auto
termination by (relation "measure (\<lambda>(_, n, _). n)") auto

declare fill_loop.simps [simp del]

definition fd_stream_read :: "fd_class \<Rightarrow> nat \<Rightarrow> fd_stream \<Rightarrow> string \<times> fd_stream" where
  "fd_stream_read cls count s = (if fd_interrupted s \<or> count = 0 then ([], s) else fill_loop cls count s)"

definition fd_stream_eof :: "fd_stream \<Rightarrow> bool" where
  "fd_stream_eof s \<longleftrightarrow> fd_eof s \<or> fd_interrupted s"

definition fd_stream_good :: "fd_stream \<Rightarrow> bool" where
  "fd_stream_good s \<longleftrightarrow> \<not> fd_interrupted s \<and> \<not> fd_bad s \<and> \<not> fd_stream_eof s"

definition fd_clear :: "fd_stream \<Rightarrow> fd_stream" where
  "fd_clear s = s\<lparr>fd_interrupted := False, fd_eof := False, fd_bad := False, fd_what := []\<rparr>"

definition fd_stream_what :: "fd_class \<Rightarrow> fd_stream \<Rightarrow> string" where
  "fd_stream_what cls s = (if fd_interrupted s then interrupted_text cls else fd_what s)"

definition fd_interrupt :: "fd_stream \<Rightarrow> fd_stream" where
  "fd_interrupt s = s\<lparr>fd_interrupted := True\<rparr>"

definition fd_istream :: "fd_class \<Rightarrow> fd_stream istream" where
  "fd_istream cls =
     \<lparr>is_fail = fd_interrupted, is_bad = fd_bad, is_eof = fd_stream_eof, clear_state = fd_clear,
      what = fd_stream_what cls, need_to_clear_the_state = (\<lambda>s. False), interrupt = fd_interrupt,
      get = fd_get cls, read = fd_stream_read cls, read_some = fd_read_some cls\<rparr>"

definition fd_stream_init :: "int \<Rightarrow> string \<Rightarrow> round list \<Rightarrow> fd_stream" where
  "fd_stream_init d bs rs =
     \<lparr>fd = d, fd_interrupted = False, fd_eof = False, fd_bad = False, fd_what = [], fd_buffer = [], fd_buffer_pos = 0,
      arriving = bs, rounds = rs\<rparr>"

definition stdin_class :: fd_class where
  "stdin_class = \<lparr>invalid_text = ''Invalid input file descriptor.'', error_text = ''Input file descriptor error.'',
     interrupted_text = ''Input stream interrupted.'', checks_before_read = True\<rparr>"

definition stdin_istream :: "fd_stream istream" where
  "stdin_istream = fd_istream stdin_class"

definition pipe_class :: fd_class where
  "pipe_class = \<lparr>invalid_text = ''Invalid process stdout pipe.'', error_text = ''Process stdout pipe error.'',
     interrupted_text = ''Process input stream interrupted.'', checks_before_read = False\<rparr>"

definition pipe_istream :: "fd_stream istream" where
  "pipe_istream = fd_istream pipe_class"

text \<open>\<^verbatim>\<open>pipe_istream::close\<close>: the descriptor it closes, if it still has one.\<close>

definition pipe_istream_close :: "fd_stream \<Rightarrow> int option \<times> fd_stream" where
  "pipe_istream_close s = (if 0 \<le> fd s then (Some (fd s), s\<lparr>fd := - 1\<rparr>) else (None, s))"

section \<open>Every byte once, in order\<close>

definition fd_rest :: "fd_stream \<Rightarrow> string" where
  "fd_rest s = drop (fd_buffer_pos s) (fd_buffer s) @ arriving s"

lemma fd_rest_init: "fd_rest (fd_stream_init d bs rs) = bs"
  by (simp add: fd_rest_def fd_stream_init_def)

lemma sys_read_cases:
  obtains (failed) e where "sys_read r n s = (Inl e, s)"
  | (got) bs cs where "sys_read r n s = (Inr bs, s\<lparr>arriving := cs\<rparr>)" "arriving s = bs @ cs" "length bs \<le> n" "0 < n \<Longrightarrow> bs = [] \<Longrightarrow> cs = []"
proof (cases "read_result r")
  case (Read_arrived k)
  let ?k = "min n (max 1 k)"
  show ?thesis by (rule got [of "take ?k (arriving s)" "drop ?k (arriving s)"]) (use Read_arrived in \<open>auto simp: sys_read_def Let_def\<close>)
qed (simp add: sys_read_def failed)

definition attempt_ok :: "nat \<Rightarrow> fd_stream \<Rightarrow> string \<Rightarrow> fd_stream \<Rightarrow> bool" where
  "attempt_ok n s bs s' \<longleftrightarrow> arriving s = bs @ fd_rest s' \<and> length bs \<le> n \<and> (bs = [] \<longrightarrow> fd_eof s' \<or> fd_bad s')"

lemma read_ready_bytes:
  assumes "length (fd_buffer s) \<le> fd_buffer_pos s" "0 < n" "read_ready n r s = (res, s1)"
  shows "(case res of Some (bs, s') \<Rightarrow> attempt_ok n s bs s'
          | None \<Rightarrow> arriving s1 = arriving s \<and> length (fd_buffer s1) \<le> fd_buffer_pos s1)"
proof (cases "kBufferCapacity \<le> n")
  case True
  have "0 < min n SSIZE_MAX" using assms(2) by (simp add: SSIZE_MAX_def)
  with assms True show ?thesis
    by (cases rule: sys_read_cases [of r "min n SSIZE_MAX" s])
      (auto simp: read_ready_def attempt_ok_def fd_rest_def fail_with_def split: list.splits if_splits)
next
  case False
  have "0 < kBufferCapacity" by (simp add: kBufferCapacity_def)
  with assms False show ?thesis
    by (cases rule: sys_read_cases [of r kBufferCapacity s])
      (auto simp: read_ready_def attempt_ok_def fd_rest_def fail_with_def Let_def split: list.splits if_splits)
qed

lemma ready_answers: "fst (read_ready n (ready\<lparr>read_result := Read_arrived k\<rparr>) s) \<noteq> None"
  by (auto simp: read_ready_def sys_read_def Let_def split: list.splits)

lemma poll_loop_bytes:
  assumes "length (fd_buffer s) \<le> fd_buffer_pos s" "0 < n" "poll_loop cls n rs s = (bs, s')"
  shows "attempt_ok n s bs s'"
  using assms
proof (induction rs arbitrary: s)
  case Nil
  obtain x s1 where x: "read_ready n (ready\<lparr>read_result := Read_arrived n\<rparr>) (s\<lparr>rounds := []\<rparr>) = (x, s1)" by force
  then have "x \<noteq> None" using ready_answers [of n n "s\<lparr>rounds := []\<rparr>"] by simp
  then show ?case using Nil x read_ready_bytes [OF _ Nil(2) x]
    by (auto simp: attempt_ok_def fd_rest_def interrupted_read_def split: if_splits)
next
  case (Cons r rs)
  let ?s1 = "s\<lparr>rounds := rs, fd_interrupted := interrupt_in_poll r\<rparr>"
  let ?s2 = "?s1\<lparr>fd_interrupted := interrupt_before_read r\<rparr>"
  have go: "attempt_ok n s bs s'" if "poll_loop cls n rs ?s1 = (bs, s')"
    using Cons.IH [OF _ Cons.prems(2) that] Cons.prems(1) by (simp add: attempt_ok_def)
  have stop: "attempt_ok n s bs s'" if "interrupted_read t = (bs, s') \<or> fail_with m t = (bs, s')" "t = ?s1 \<or> t = ?s2 \<or> t = s\<lparr>rounds := r # rs\<rparr>" for t m
    using that Cons.prems(1) by (auto simp: attempt_ok_def interrupted_read_def fail_with_def fd_rest_def)
  obtain x s3 where x: "read_ready n r ?s2 = (x, s3)" by force
  have last: "attempt_ok n s bs s'" if "(case x of Some res \<Rightarrow> res | None \<Rightarrow> poll_loop cls n rs s3) = (bs, s')"
    using that read_ready_bytes [OF _ Cons.prems(2) x] Cons.prems(1) Cons.IH [of s3] Cons.prems(2)
    by (cases x) (auto simp: attempt_ok_def)
  show ?case using Cons.prems(3) go stop last x
    by (auto simp: Let_def split: if_splits poll_result.splits option.splits)
qed

lemma fd_read_some_bytes:
  assumes "fd_read_some cls n s = (bs, s')"
  shows "fd_rest s = bs @ fd_rest s'" "length bs \<le> n"
proof -
  have "fd_rest s = bs @ fd_rest s' \<and> length bs \<le> n"
  proof (cases "n \<noteq> 0 \<and> \<not> fd_interrupted s \<and> length (fd_buffer s) \<le> fd_buffer_pos s \<and> 0 \<le> fd s")
    case True
    with assms poll_loop_bytes [of s n cls "rounds s" bs s'] show ?thesis
      by (simp add: fd_read_some_def attempt_ok_def fd_rest_def)
  next
    case False
    have "take m (drop p b) @ drop (p + m) b = drop p b" for m p and b :: string
      by (metis append_take_drop_id drop_drop add.commute)
    with False assms show ?thesis
      by (auto simp: fd_read_some_def Let_def fd_rest_def fail_with_def split: if_splits)
  qed
  then show "fd_rest s = bs @ fd_rest s'" "length bs \<le> n" by simp_all
qed

lemma fill_loop_bytes:
  "fill_loop cls n s = (bs, s') \<Longrightarrow> fd_rest s = bs @ fd_rest s' \<and> length bs \<le> n"
proof (induction cls n s arbitrary: bs rule: fill_loop.induct)
  case (1 cls n s)
  show ?case
  proof (cases "n = 0")
    case False
    obtain cs s1 where c: "fd_read_some cls n s = (cs, s1)" by force
    note b = fd_read_some_bytes [OF c]
    show ?thesis
    proof (cases cs)
      case (Cons x xs)
      obtain ds s2 where d: "fill_loop cls (n - length (x # xs)) s1 = (ds, s2)" by force
      moreover have "s2 = s'" using 1(2) c Cons d False by (simp add: fill_loop.simps [of cls n s])
      ultimately have "fd_rest s1 = ds @ fd_rest s2 \<and> length ds \<le> n - length (x # xs)"
        using 1(1) [OF False c [symmetric] Cons] by simp
      then show ?thesis using 1(2) b c Cons d False by (auto simp: fill_loop.simps [of cls n s])
    qed (use 1(2) b c False in \<open>auto simp: fill_loop.simps [of cls n s]\<close>)
  qed (use 1(2) in \<open>simp add: fill_loop.simps\<close>)
qed

section \<open>The contract of a byte source\<close>

text \<open>
  A round is calm when it only delays: a time-out, an interrupted call, an event without input, or input in a piece of any length.
\<close>

definition calm :: "round \<Rightarrow> bool" where
  "calm r \<longleftrightarrow> \<not> interrupt_in_poll r \<and> \<not> interrupt_before_read r \<and>
     (case poll_result r of Poll_timeout \<Rightarrow> True | Poll_error e \<Rightarrow> e = EINTR | Poll_events ev \<Rightarrow> \<not> POLLNVAL ev \<and> \<not> POLLERR ev) \<and>
     (case read_result r of Read_error e \<Rightarrow> e = EINTR | Read_arrived _ \<Rightarrow> True)"

definition fd_ok :: "fd_stream \<Rightarrow> bool" where
  "fd_ok s \<longleftrightarrow> 0 \<le> fd s \<and> \<not> fd_interrupted s \<and> \<not> fd_eof s \<and> \<not> fd_bad s \<and> list_all calm (rounds s)"

lemma read_ready_calm:
  assumes "fd_ok s" "calm r" "0 < n" "read_ready n r s = (res, s1)"
  shows "(case res of Some (bs, s') \<Rightarrow> \<not> fd_bad s' \<and> (if bs = [] then arriving s = [] else fd_ok s')
          | None \<Rightarrow> fd_ok s1 \<and> arriving s1 = arriving s \<and> rounds s1 = rounds s)"
proof -
  have "e = EINTR" if "sys_read r m s = (Inl e, t)" for e m t
    using that assms(2) by (auto simp: sys_read_def calm_def Let_def split: read_result.splits)
  moreover have "0 < (if kBufferCapacity \<le> n then min n SSIZE_MAX else kBufferCapacity)"
    using assms(3) by (simp add: kBufferCapacity_def SSIZE_MAX_def)
  ultimately show ?thesis using assms(1,3,4)
    by (cases rule: sys_read_cases [of r "if kBufferCapacity \<le> n then min n SSIZE_MAX else kBufferCapacity" s])
      (auto simp: read_ready_def fd_ok_def fail_with_def Let_def split: list.splits if_splits)
qed

lemma poll_loop_calm:
  assumes "list_all calm rs" "fd_ok (s\<lparr>rounds := rs\<rparr>)" "0 < n" "poll_loop cls n rs s = (bs, s')"
  shows "\<not> fd_bad s' \<and> (if bs = [] then arriving s = [] else fd_ok s')"
  using assms
proof (induction rs arbitrary: s)
  case Nil
  obtain x s1 where x: "read_ready n (ready\<lparr>read_result := Read_arrived n\<rparr>) (s\<lparr>rounds := []\<rparr>) = (x, s1)" by force
  have "calm (ready\<lparr>read_result := Read_arrived n\<rparr>)" by (simp add: calm_def ready_def)
  then show ?case using Nil read_ready_calm [OF Nil(2) _ Nil(3) x] x ready_answers [of n n "s\<lparr>rounds := []\<rparr>"] by (auto simp: fd_ok_def split: option.splits if_splits)
next
  case (Cons r rs)
  let ?s = "s\<lparr>rounds := rs, fd_interrupted := False\<rparr>"
  have r: "calm r" "list_all calm rs" and ok: "fd_ok ?s" using Cons.prems(1,2) by (auto simp: fd_ok_def)
  have ok': "fd_ok (?s\<lparr>rounds := rs\<rparr>)" using ok by (simp add: fd_ok_def)
  have go: "\<not> fd_bad s' \<and> (if bs = [] then arriving s = [] else fd_ok s')" if "poll_loop cls n rs ?s = (bs, s')"
    using Cons.IH [OF r(2) ok' Cons.prems(3) that] by (auto split: if_splits)
  obtain x s3 where x: "read_ready n r ?s = (x, s3)" by force
  have last: "\<not> fd_bad s' \<and> (if bs = [] then arriving s = [] else fd_ok s')" if "(case x of Some res \<Rightarrow> res | None \<Rightarrow> poll_loop cls n rs s3) = (bs, s')"
    using that read_ready_calm [OF ok r(1) Cons.prems(3) x] Cons.IH [OF r(2), of s3] Cons.prems(3) by (cases x) auto
  have "fd_interrupted s = False" using Cons.prems(2) by (simp add: fd_ok_def)
  then show ?case using Cons.prems(4) r(1) go last x
    by (auto simp: Let_def calm_def split: if_splits poll_result.splits option.splits)
qed

lemma fd_read_some_calm:
  assumes "fd_ok s" "0 < n" "fd_read_some cls n s = (bs, s')"
  shows "\<not> fd_bad s'" "fd_rest s \<noteq> [] \<Longrightarrow> bs \<noteq> [] \<and> fd_ok s'" "fd_rest s = [] \<Longrightarrow> bs = [] \<and> fd_stream_eof s'"
proof -
  note b = fd_read_some_bytes [OF assms(3)]
  have "\<not> fd_bad s' \<and> (bs \<noteq> [] \<longrightarrow> fd_ok s') \<and> (bs = [] \<longrightarrow> fd_eof s' \<and> fd_rest s = [])"
  proof (cases "fd_buffer_pos s < length (fd_buffer s)")
    case True
    with assms show ?thesis by (auto simp: fd_read_some_def Let_def fd_ok_def)
  next
    case False
    then have p: "poll_loop cls n (rounds s) s = (bs, s')" using assms by (auto simp: fd_read_some_def fd_ok_def)
    have "\<not> fd_bad s' \<and> (if bs = [] then arriving s = [] else fd_ok s')" 
      by (rule poll_loop_calm [OF _ _ assms(2) p]) (use assms(1) in \<open>simp_all add: fd_ok_def\<close>)
    moreover have "bs = [] \<longrightarrow> fd_eof s' \<or> fd_bad s'" using poll_loop_bytes [OF _ assms(2) p] False by (simp add: attempt_ok_def)
    ultimately show ?thesis using False by (auto simp: fd_rest_def split: if_splits)
  qed
  with b show "\<not> fd_bad s'" "fd_rest s \<noteq> [] \<Longrightarrow> bs \<noteq> [] \<and> fd_ok s'" "fd_rest s = [] \<Longrightarrow> bs = [] \<and> fd_stream_eof s'"
    by (auto simp: fd_stream_eof_def)
qed

lemma fill_loop_calm:
  assumes "fd_ok s" "fill_loop cls n s = (bs, s')"
  shows "if n \<le> length (fd_rest s) then length bs = n \<and> fd_ok s' else fd_stream_eof s' \<and> \<not> fd_bad s'"
  using assms
proof (induction cls n s arbitrary: bs rule: fill_loop.induct)
  case (1 cls n s)
  show ?case
  proof (cases "n = 0")
    case False
    obtain cs s1 where c: "fd_read_some cls n s = (cs, s1)" by force
    have r: "fd_rest s = cs @ fd_rest s1" "length cs \<le> n" using fd_read_some_bytes [OF c] by simp_all
    note k = fd_read_some_calm [OF 1(2) _ c]
    show ?thesis
    proof (cases cs)
      case Nil
      with k False have "fd_rest s = []" by auto
      with 1(3) c Nil k False show ?thesis by (simp add: fill_loop.simps [of cls n s])
    next
      case (Cons x xs)
      obtain ds s2 where d: "fill_loop cls (n - length (x # xs)) s1 = (ds, s2)" by force
      have s2: "s2 = s'" "bs = cs @ ds" using 1(3) c Cons d False by (simp_all add: fill_loop.simps [of cls n s])
      have o: "fd_ok s1" using k(2) r(1) Cons False by simp
      have "if n - length cs \<le> length (fd_rest s1) then length ds = n - length cs \<and> fd_ok s' else fd_stream_eof s' \<and> \<not> fd_bad s'"
        using 1(1) [OF False c [symmetric] Cons o d [unfolded s2(1)]] unfolding Cons .
      then show ?thesis using r s2(2) by (auto split: if_splits)
    qed
  qed (use 1(2,3) in \<open>simp add: fill_loop.simps\<close>)
qed

lemma fd_byte_source: "byte_source (fd_istream cls) fd_rest fd_ok"
proof unfold_locales
  fix s s' bs n
  assume ok: "fd_ok s"
  show "fst (read_some (fd_istream cls) n s) = []" if "fd_rest s = []"
    using fd_read_some_bytes [of cls n s] that by (cases "fd_read_some cls n s") (simp add: fd_istream_def)
  show "bs = take n (fd_rest s) \<and> fd_rest s' = drop n (fd_rest s) \<and> fd_ok s'"
    if "n \<le> length (fd_rest s)" "read (fd_istream cls) n s = (bs, s')"
    using that ok fill_loop_bytes [of cls n s bs s'] fill_loop_calm [OF ok, of cls n bs s']
    by (auto simp: fd_istream_def fd_stream_read_def fd_ok_def split: if_splits)
  show "is_eof (fd_istream cls) s' \<and> \<not> is_bad (fd_istream cls) s'"
    if "length (fd_rest s) < n" "read (fd_istream cls) n s = (bs, s')"
    using that ok fill_loop_calm [OF ok, of cls n bs s'] by (auto simp: fd_istream_def fd_stream_read_def fd_ok_def split: if_splits)
  show "bs \<noteq> [] \<and> fd_rest s = bs @ fd_rest s' \<and> fd_ok s'"
    if "fd_rest s \<noteq> []" "0 < n" "read_some (fd_istream cls) n s = (bs, s')"
    using fd_read_some_bytes(1) [of cls n s bs s'] fd_read_some_calm(2) [OF ok that(2) _ that(1), of cls bs s'] that(3)
    by (simp add: fd_istream_def)
qed (simp_all add: fd_istream_def fd_ok_def fd_stream_eof_def)

interpretation stdin: byte_source stdin_istream fd_rest fd_ok
  unfolding stdin_istream_def by (rule fd_byte_source)

interpretation pipe_in: byte_source pipe_istream fd_rest fd_ok
  unfolding pipe_istream_def by (rule fd_byte_source)

lemma fd_ok_init: "fd_ok (fd_stream_init d bs rs) \<longleftrightarrow> 0 \<le> d \<and> list_all calm rs"
  by (simp add: fd_ok_def fd_stream_init_def)

section \<open>Interrupting a read\<close>

text \<open>
  The loop returns in the round in which the flag is seen: the number of rounds left after an interrupt
  in a time-out is the number of rounds behind it.
\<close>

lemma poll_loop_interrupted:
  assumes "list_all (\<lambda>r. calm r \<and> poll_result r = Poll_timeout) ts" "\<not> fd_interrupted s"
  shows "poll_loop cls n (ts @ r\<lparr>interrupt_in_poll := True\<rparr> # rs) s = ([], s\<lparr>rounds := rs, fd_interrupted := True, fd_eof := True\<rparr>)"
  using assms by (induction ts arbitrary: s) (auto simp: Let_def interrupted_read_def calm_def)

lemma interrupted_stream_silent:
  "fd_read_some cls n (fd_interrupt s) = ([], fd_interrupt s) \<and> fd_stream_read cls n (fd_interrupt s) = ([], fd_interrupt s) \<and>
   fd_get cls (fd_interrupt s) = (None, fd_interrupt s) \<and> fd_stream_eof (fd_interrupt s) \<and> \<not> fd_stream_good (fd_interrupt s)"
  by (simp add: fd_read_some_def fd_stream_read_def fd_get_def fd_interrupt_def fd_stream_eof_def fd_stream_good_def)

text \<open>Nothing that was buffered is lost by an interrupt: after \<^verbatim>\<open>clear\<close> reading goes on where it stopped.\<close>

lemma clear_after_interrupt: "fd_rest (fd_clear (fd_interrupt s)) = fd_rest s"
  by (simp add: fd_rest_def fd_clear_def fd_interrupt_def)

section \<open>Output streams\<close>

record 's ostream =
  os_fail :: "'s \<Rightarrow> bool"
  os_bad :: "'s \<Rightarrow> bool"
  os_eof :: "'s \<Rightarrow> bool"
  os_good :: "'s \<Rightarrow> bool"
  os_clear :: "'s \<Rightarrow> 's"
  os_what :: "'s \<Rightarrow> string"
  os_write :: "string \<Rightarrow> 's \<Rightarrow> 's"
  os_write_number :: "int \<Rightarrow> 's \<Rightarrow> 's"
  os_flush :: "'s \<Rightarrow> 's"

definition to_string_int :: "int \<Rightarrow> string" where
  "to_string_int i = (if i < 0 then CHR ''-'' # to_string (nat (- i)) else to_string (nat i))"

text \<open>
  A \<^verbatim>\<open>std::ostream\<close>: \<open>limits_left\<close> says for each insertion whether the device takes all of it or fails after some bytes.
  An insertion into a stream that is not good inserts nothing.
\<close>

record std_out =
  inserted :: string
  out_eof :: bool
  out_fail :: bool
  out_bad :: bool
  limits_left :: "nat option list"

definition std_out_good :: "std_out \<Rightarrow> bool" where
  "std_out_good s \<longleftrightarrow> \<not> out_eof s \<and> \<not> out_fail s \<and> \<not> out_bad s"

definition std_insert :: "string \<Rightarrow> std_out \<Rightarrow> std_out" where
  "std_insert v s =
     (if \<not> std_out_good s then s\<lparr>out_fail := True\<rparr>
      else (case limits_left s of
              Some k # ls \<Rightarrow> if k < length v then s\<lparr>inserted := inserted s @ take k v, out_bad := True, limits_left := ls\<rparr>
                              else s\<lparr>inserted := inserted s @ v, limits_left := ls\<rparr>
            | ls \<Rightarrow> s\<lparr>inserted := inserted s @ v, limits_left := tl ls\<rparr>))"

definition base_ostream :: "(std_out \<Rightarrow> string) \<Rightarrow> std_out ostream" where
  "base_ostream w =
     \<lparr>os_fail = (\<lambda>s. out_fail s \<or> out_bad s), os_bad = out_bad, os_eof = out_eof, os_good = std_out_good,
      os_clear = (\<lambda>s. s\<lparr>out_eof := False, out_fail := False, out_bad := False\<rparr>), os_what = w,
      os_write = std_insert, os_write_number = (\<lambda>i. std_insert (to_string_int i)), os_flush = id\<rparr>"

definition standard_ostream :: "std_out ostream" where
  "standard_ostream = base_ostream (\<lambda>s. [])"

section \<open>The pipe to a process\<close>

text \<open>
  \<open>in_pipe\<close> holds what has been written to the pipe.  A \<^verbatim>\<open>write\<close> fails, or takes some of what it is given.  The disposition of
  \<^verbatim>\<open>SIGPIPE\<close> is part of the state: while it is the default, a write to a pipe that nobody reads ends the process.
\<close>

datatype disposition = SIG_DFL | SIG_IGN | SIG_HANDLER

datatype write_result = Write_error errno | Written nat

record pipe_out =
  ofd :: int
  obad :: bool
  owhat :: string
  in_pipe :: string
  answers :: "write_result list"
  sigpipe :: disposition
  sigpipe_once :: bool

definition IgnoreSigPipeIfDefault :: "pipe_out \<Rightarrow> pipe_out" where
  "IgnoreSigPipeIfDefault s =
     (if sigpipe_once s then s
      else s\<lparr>sigpipe_once := True, sigpipe := (if sigpipe s = SIG_DFL then SIG_IGN else sigpipe s)\<rparr>)"

fun write_loop :: "write_result list \<Rightarrow> string \<Rightarrow> pipe_out \<Rightarrow> pipe_out" where
  "write_loop as [] s = s\<lparr>answers := as\<rparr>"
| "write_loop [] data s = s\<lparr>answers := [], in_pipe := in_pipe s @ data\<rparr>"
| "write_loop (Write_error e # as) data s =
     (if e = EINTR then write_loop as data s
      else s\<lparr>answers := as, obad := True, owhat := strerror e\<rparr>)"
| "write_loop (Written n # as) data s =
     (let written = min n (min (length data) SSIZE_MAX) in
      if written = 0 then s\<lparr>answers := as, obad := True, owhat := ''Failed to write to process stdin pipe.''\<rparr>
      else write_loop as (drop written data) (s\<lparr>in_pipe := in_pipe s @ take written data\<rparr>))"

definition pipe_write :: "string \<Rightarrow> pipe_out \<Rightarrow> pipe_out" where
  "pipe_write v s =
     (if ofd s < 0 \<or> obad s then s\<lparr>obad := True\<rparr>
      else write_loop (answers s) v (IgnoreSigPipeIfDefault s))"

definition pipe_ostream :: "pipe_out ostream" where
  "pipe_ostream =
     \<lparr>os_fail = obad, os_bad = obad, os_eof = (\<lambda>s. False), os_good = (\<lambda>s. \<not> obad s),
      os_clear = (\<lambda>s. s\<lparr>obad := False, owhat := []\<rparr>), os_what = owhat,
      os_write = pipe_write, os_write_number = (\<lambda>i. pipe_write (to_string_int i)), os_flush = id\<rparr>"

definition pipe_ostream_close :: "pipe_out \<Rightarrow> int option \<times> pipe_out" where
  "pipe_ostream_close s = (if 0 \<le> ofd s then (Some (ofd s), s\<lparr>ofd := - 1\<rparr>) else (None, s))"

section \<open>The contract of a byte sink\<close>

text \<open>
  A write appends a part of what it is given, and all of it unless the stream then reports a failure; a failed stream takes
  nothing more.
\<close>

locale byte_sink =
  fixes ops :: "('s, 'z) ostream_scheme"
    and sent :: "'s \<Rightarrow> string"
  assumes write_part: "\<exists>x. prefix x v \<and> sent (os_write ops v s) = sent s @ x"
    and write_whole: "\<not> os_fail ops (os_write ops v s) \<Longrightarrow> sent (os_write ops v s) = sent s @ v"
    and write_failed: "os_fail ops s \<Longrightarrow> os_fail ops (os_write ops v s) \<and> sent (os_write ops v s) = sent s"
begin

lemma failed_stays: "os_fail ops s \<Longrightarrow> os_fail ops (fold (os_write ops) vs s) \<and> sent (fold (os_write ops) vs s) = sent s"
  by (induction vs arbitrary: s) (use write_failed in auto)

lemma writes_part: "\<exists>x. prefix x (concat vs) \<and> sent (fold (os_write ops) vs s) = sent s @ x"
proof (induction vs arbitrary: s)
  case (Cons v vs)
  show ?case
  proof (cases "os_fail ops (os_write ops v s)")
    case True
    from write_part [of v s] obtain x where "prefix x v" "sent (os_write ops v s) = sent s @ x" by blast
    with failed_stays [OF True, of vs] show ?thesis by (auto intro!: exI [of _ x] intro: prefix_order.trans)
  next
    case False
    from Cons.IH obtain x where "prefix x (concat vs)" "sent (fold (os_write ops) vs (os_write ops v s)) = sent (os_write ops v s) @ x" by blast
    with write_whole [OF False] show ?thesis by (auto intro!: exI [of _ "v @ x"])
  qed
qed simp

lemma writes_whole: "\<not> os_fail ops (fold (os_write ops) vs s) \<Longrightarrow> sent (fold (os_write ops) vs s) = sent s @ concat vs"
proof (induction vs arbitrary: s)
  case (Cons v vs)
  then have "\<not> os_fail ops (os_write ops v s)" using failed_stays [of "os_write ops v s" vs] by auto
  with Cons write_whole show ?case by simp
qed simp

end

interpretation std_sink: byte_sink "base_ostream w" inserted
  by unfold_locales (auto simp: base_ostream_def std_insert_def std_out_good_def take_is_prefix split: list.splits option.splits if_splits)

lemma write_loop_part:
  "\<exists>x. prefix x v \<and> in_pipe (write_loop as v s) = in_pipe s @ x \<and> (\<not> obad (write_loop as v s) \<longrightarrow> x = v) \<and> (obad s \<longrightarrow> obad (write_loop as v s))"
proof (induction as v s rule: write_loop.induct)
  case (4 n as d ds s)
  let ?w = "min n (min (length (d # ds)) SSIZE_MAX)"
  show ?case
  proof (cases "?w = 0")
    case False
    from 4 [OF refl False] obtain x where x: "prefix x (drop ?w (d # ds))"
      "in_pipe (write_loop as (drop ?w (d # ds)) (s\<lparr>in_pipe := in_pipe s @ take ?w (d # ds)\<rparr>)) = (in_pipe s @ take ?w (d # ds)) @ x"
      "\<not> obad (write_loop as (drop ?w (d # ds)) (s\<lparr>in_pipe := in_pipe s @ take ?w (d # ds)\<rparr>)) \<longrightarrow> x = drop ?w (d # ds)"
      "obad s \<longrightarrow> obad (write_loop as (drop ?w (d # ds)) (s\<lparr>in_pipe := in_pipe s @ take ?w (d # ds)\<rparr>))"
      by auto
    have "prefix (take ?w (d # ds) @ x) (d # ds)" using x(1) by (metis append_take_drop_id same_prefix_prefix)
    then show ?thesis using x(2-4) False by (intro exI [of _ "take ?w (d # ds) @ x"]) (auto simp: Let_def)
  qed (simp add: Let_def)
qed auto

lemma pipe_write_part:
  "\<exists>x. prefix x v \<and> in_pipe (pipe_write v s) = in_pipe s @ x \<and> (\<not> obad (pipe_write v s) \<longrightarrow> x = v)"
  using write_loop_part [of v "answers s" "IgnoreSigPipeIfDefault s"] by (auto simp: pipe_write_def IgnoreSigPipeIfDefault_def)

interpretation pipe_sink: byte_sink pipe_ostream in_pipe
proof unfold_locales
  fix v s
  show "\<exists>x. prefix x v \<and> in_pipe (os_write pipe_ostream v s) = in_pipe s @ x"
    using pipe_write_part [of v s] by (auto simp: pipe_ostream_def)
  show "in_pipe (os_write pipe_ostream v s) = in_pipe s @ v" if "\<not> os_fail pipe_ostream (os_write pipe_ostream v s)"
    using pipe_write_part [of v s] that by (auto simp: pipe_ostream_def)
qed (simp add: pipe_ostream_def pipe_write_def)

text \<open>
  The first write makes sure that the process survives a reader that has gone away.  It does so once only: a program that
  restores the default disposition later is not protected again.
\<close>

lemma write_loop_sigpipe: "sigpipe (write_loop as v s) = sigpipe s \<and> sigpipe_once (write_loop as v s) = sigpipe_once s"
  by (induction as v s rule: write_loop.induct) (auto simp: Let_def)

lemma pipe_write_sigpipe:
  assumes "0 \<le> ofd s" "\<not> obad s"
  shows "sigpipe (pipe_write v s) = SIG_DFL \<longleftrightarrow> sigpipe_once s \<and> sigpipe s = SIG_DFL"
  using assms by (simp add: pipe_write_def write_loop_sigpipe IgnoreSigPipeIfDefault_def)

section \<open>From a pipe to the standard input of a process\<close>

lemma prefix_concat:
  "prefix x (concat (map f ms)) \<Longrightarrow>
   \<exists>k y z. k \<le> length ms \<and> x = concat (map f (take k ms)) @ y \<and> (k = length ms \<and> y = [] \<or> k < length ms \<and> y @ z = f (ms ! k) \<and> z \<noteq> [])"
proof (induction ms arbitrary: x)
  case (Cons m ms)
  then have "prefix x (f m @ concat (map f ms))" by simp
  then consider z where "x @ z = f m" "z \<noteq> []" | x' where "x = f m @ x'" "prefix x' (concat (map f ms))"
  proof (cases "strict_prefix x (f m)")
    case True
    then show ?thesis using that(1) by (auto simp: strict_prefix_def prefix_def)
  next
    case False
    with Cons.prems show ?thesis using that(2) by (auto simp: prefix_append strict_prefix_def)
  qed
  then show ?case
  proof cases
    case (1 z)
    then show ?thesis by (intro exI [of _ 0] exI [of _ x] exI [of _ z]) simp
  next
    case (2 x')
    from Cons.IH [OF 2(2)] obtain k y z where "k \<le> length ms" "x' = concat (map f (take k ms)) @ y"
      "k = length ms \<and> y = [] \<or> k < length ms \<and> y @ z = f (ms ! k) \<and> z \<noteq> []" by blast
    then show ?thesis using 2(1) by (intro exI [of _ "Suc k"] exI [of _ y] exI [of _ z]) auto
  qed
qed simp

lemma serve_collector: "serve (collector 0) (map Frame ms) c is = (True, c @ ms, is)"
  by (induction ms arbitrary: c) (simp_all add: collector_def oversized_def)

lemma stdin_reads_prefix:
  assumes "fd_ok t" "prefix (fd_rest t) (concat (map WriterMsg ms))"
    and "list_all (\<lambda>m. int (length m) \<le> INT_MAX) ms" "length ms + length (fd_rest t) + 1 < fuel"
  shows "\<exists>l' k. listen fuel (collector 0) stdin_istream (Some t) [] = Some (Some l') \<and> consumer l' = take k ms \<and>
           (fd_rest t = concat (map WriterMsg ms) \<longrightarrow> consumer l' = ms \<and> issues l' = [])"
proof -
  obtain k y z where k: "k \<le> length ms" "fd_rest t = concat (map WriterMsg (take k ms)) @ y"
    "k = length ms \<and> y = [] \<or> k < length ms \<and> y @ z = WriterMsg (ms ! k) \<and> z \<noteq> []"
    using prefix_concat [OF assms(2)] by blast
  let ?its = "map Frame (take k ms)"
  have its: "list_all valid_item ?its" "length ?its + length (fd_rest t) + 1 < fuel" "concat (map wire ?its) = concat (map WriterMsg (take k ms))"
    using assms(3,4) k(1) by (auto simp: list_all_iff valid_item_def wire_def comp_def dest: in_set_takeD)
  from k(3) show ?thesis
  proof
    assume "k = length ms \<and> y = []"
    with stdin.listen_serves_generic [OF assms(1) its(1), of fuel "collector 0" "[]"] its(2,3) k(2) show ?thesis
      by (auto simp: serve_collector intro!: exI [of _ k])
  next
    assume p: "k < length ms \<and> y @ z = WriterMsg (ms ! k) \<and> z \<noteq> []"
    have "fd_rest t \<noteq> concat (map WriterMsg ms)"
    proof -
      have "take k ms @ ms ! k # drop (Suc k) ms = ms" using p by (simp add: id_take_nth_drop [symmetric])
      then have "concat (map WriterMsg ms) = concat (map WriterMsg (take k ms @ ms ! k # drop (Suc k) ms))" by simp
      also have "\<dots> = fd_rest t @ z @ concat (map WriterMsg (drop (Suc k) ms))"
        by (simp add: k(2) conjunct1 [OF conjunct2 [OF p], symmetric])
      finally show ?thesis using p by simp
    qed
    moreover have "int (length (ms ! k)) \<le> INT_MAX" using assms(3) p by (simp add: list_all_length)
    moreover have "\<not> oversized (collector 0) n" for n by (simp add: oversized_def collector_def)
    moreover have "fd_rest t = concat (map wire ?its) @ y" using k(2) its(3) by simp
    ultimately show ?thesis
      using stdin.listen_truncated_generic [OF assms(1) its(1) _ _ _ _ _ its(2) serve_collector, of "ms ! k" y z "[]"] p by (simp, blast)
  qed
qed

text \<open>C20: Messages that are framed and written to the pipe of a process arrive: however the kernel splits, delays or repeats the
  writes of the one side and the reads of the other, the process gets, from its standard input, the first of these messages in order, all of
  them and without complaint when the writing side reports no failure, and its reading loop ends.\<close>

theorem pipe_to_stdin:
  assumes "list_all (\<lambda>m. int (length m) \<le> INT_MAX) ms" "in_pipe w = []"
    and "fd_ok t" "fd_rest t = in_pipe (fold (os_write pipe_ostream) (map WriterMsg ms) w)" "length ms + length (fd_rest t) + 1 < fuel"
  shows "\<exists>l' k. listen fuel (collector 0) stdin_istream (Some t) [] = Some (Some l') \<and> consumer l' = take k ms \<and>
           (os_good pipe_ostream (fold (os_write pipe_ostream) (map WriterMsg ms) w) \<longrightarrow> consumer l' = ms \<and> issues l' = [])"
proof -
  have "prefix (fd_rest t) (concat (map WriterMsg ms))"
    using pipe_sink.writes_part [of "map WriterMsg ms" w] assms(2,4) by auto
  moreover have "fd_rest t = concat (map WriterMsg ms)" if "os_good pipe_ostream (fold (os_write pipe_ostream) (map WriterMsg ms) w)"
    using pipe_sink.writes_whole [of "map WriterMsg ms" w] that assms(2,4) by (simp add: pipe_ostream_def)
  ultimately show ?thesis using stdin_reads_prefix [OF assms(3) _ assms(1,5)] by fast
qed

definition sample_rounds :: "round list" where
  "sample_rounds =
     [ready\<lparr>poll_result := Poll_timeout\<rparr>, ready\<lparr>read_result := Read_arrived 7\<rparr>, ready\<lparr>read_result := Read_error EINTR\<rparr>,
      ready\<lparr>poll_result := Poll_error EINTR\<rparr>]"

definition sample_pipe :: "pipe_out" where
  "sample_pipe = \<lparr>ofd = 5, obad = False, owhat = [], in_pipe = [], answers = [Written 4, Write_error EINTR, Written 9],
     sigpipe = SIG_DFL, sigpipe_once = False\<rparr>"

theorem pipe_to_stdin_witness:
  "\<exists>l' k. listen 200 (collector 0) stdin_istream
       (Some (fd_stream_init 0 (in_pipe (fold (os_write pipe_ostream) (map WriterMsg [''{}'', ''[1]'']) sample_pipe)) sample_rounds)) [] = Some (Some l') \<and>
     consumer l' = take k [''{}'', ''[1]''] \<and>
     (os_good pipe_ostream (fold (os_write pipe_ostream) (map WriterMsg [''{}'', ''[1]'']) sample_pipe) \<longrightarrow> consumer l' = [''{}'', ''[1]''] \<and> issues l' = [])"
proof (rule pipe_to_stdin)
  let ?ms = "[''{}'', ''[1]'']"
  let ?sent = "in_pipe (fold (os_write pipe_ostream) (map WriterMsg ?ms) sample_pipe)"
  show p: "in_pipe sample_pipe = []" by (simp add: sample_pipe_def)
  have "length ?sent \<le> length (concat (map WriterMsg ?ms))"
    using pipe_sink.writes_part [of "map WriterMsg ?ms" sample_pipe] p by (metis append_Nil prefix_length_le)
  moreover have "length (concat (map WriterMsg ?ms)) < 100" by code_simp
  ultimately show "length ?ms + length (fd_rest (fd_stream_init 0 ?sent sample_rounds)) + 1 < 200" by (simp only: fd_rest_init list.size)
  show "fd_ok (fd_stream_init 0 ?sent sample_rounds)" by (simp only: fd_ok_init) (simp add: sample_rounds_def calm_def ready_def)
  show "list_all (\<lambda>m. int (length m) \<le> INT_MAX) ?ms" by (simp add: INT_MAX_def)
qed (rule fd_rest_init)

end
