(* ===== verification/Child_Process.thy ===== *)
theory Child_Process
  imports Fd_Stream
begin

text \<open>
  Starting and ending child processes (\<^verbatim>\<open>jsonrpc/Process.cpp\<close>, the POSIX part).  The state of the kernel that the code depends on is
  explicit: the descriptor table of the program and of its children, the pipes, the children that have not been reaped.  The calls that
  the kernel may refuse take their answers from a list.  A \<^verbatim>\<open>Process\<close> object owns its two pipe streams and the identifier of its child; the
  program is a list of such objects.  The invariant accounts for every descriptor and every child, on all paths, errors included.
\<close>

section \<open>The kernel\<close>

datatype open_file = Read_end nat | Write_end nat | Other_file string

record descriptor =
  refers :: open_file
  cloexec :: bool

type_synonym fd_table = "(nat \<times> descriptor) list"

text \<open>A child: its descriptors, the program it runs, and whether it has ended.\<close>

record child =
  child_table :: fd_table
  program :: "string list"
  ended :: bool

text \<open>
  \<open>refusals\<close> are the answers to the calls that may fail, in order (\<^const>\<open>None\<close>: the call succeeds; after the last one all do);
  \<open>exec_error\<close> is why a program cannot be started, if so; \<open>signals\<close> records each signal with the information whether its target was a
  child that had not been reaped; \<open>forgotten\<close> records the children whose \<^verbatim>\<open>waitpid\<close> failed, which the code does not notice.
\<close>

record os =
  table :: fd_table
  pipes_made :: nat
  children :: "(int \<times> child) list"
  next_pid :: int
  refusals :: "errno option list"
  exec_error :: "string \<Rightarrow> errno option"
  signals :: "(int \<times> bool) list"
  forgotten :: "int list"

definition answer :: "os \<Rightarrow> errno option \<times> os" where
  "answer s = (case refusals s of [] \<Rightarrow> (None, s) | r # rs \<Rightarrow> (r, s\<lparr>refusals := rs\<rparr>))"

definition lowest_free :: "fd_table \<Rightarrow> nat" where
  "lowest_free t = hd (filter (\<lambda>d. d \<notin> fst ` set t) [0..<length t + 1])"

definition close_fd :: "nat \<Rightarrow> fd_table \<Rightarrow> fd_table" where
  "close_fd d t = filter (\<lambda>e. fst e \<noteq> d) t"

definition open_fd :: "open_file \<Rightarrow> fd_table \<Rightarrow> nat \<times> fd_table" where
  "open_fd f t = (lowest_free t, (lowest_free t, \<lparr>refers = f, cloexec = False\<rparr>) # t)"

definition dup2_fd :: "nat \<Rightarrow> nat \<Rightarrow> fd_table \<Rightarrow> fd_table" where
  "dup2_fd a b t = (if a = b then t
     else (case map_of t a of None \<Rightarrow> t | Some x \<Rightarrow> (b, x\<lparr>cloexec := False\<rparr>) # close_fd b t))"

definition set_cloexec :: "nat \<Rightarrow> fd_table \<Rightarrow> fd_table" where
  "set_cloexec d t = map (\<lambda>(e, x). (e, if e = d then x\<lparr>cloexec := True\<rparr> else x)) t"

definition exec_table :: "fd_table \<Rightarrow> fd_table" where
  "exec_table t = filter (\<lambda>(d, x). \<not> cloexec x) t"

definition sys_pipe :: "os \<Rightarrow> (errno + nat \<times> nat) \<times> os" where
  "sys_pipe s =
     (case answer s of
        (Some e, s1) \<Rightarrow> (Inl e, s1)
      | (None, s1) \<Rightarrow>
          (case open_fd (Read_end (pipes_made s1)) (table s1) of
             (r, t1) \<Rightarrow> (case open_fd (Write_end (pipes_made s1)) t1 of
               (w, t2) \<Rightarrow> (Inr (r, w), s1\<lparr>table := t2, pipes_made := Suc (pipes_made s1)\<rparr>))))"

definition sys_close :: "nat \<Rightarrow> os \<Rightarrow> os" where
  "sys_close d s = s\<lparr>table := close_fd d (table s)\<rparr>"

text \<open>\<^verbatim>\<open>fork\<close>: the identifier of a child that has a copy of the descriptors.\<close>

definition sys_fork :: "os \<Rightarrow> (errno + int) \<times> os" where
  "sys_fork s =
     (case answer s of
        (Some e, s1) \<Rightarrow> (Inl e, s1)
      | (None, s1) \<Rightarrow>
          (Inr (next_pid s1),
           s1\<lparr>next_pid := next_pid s1 + 1,
              children := (next_pid s1, \<lparr>child_table = table s1, program = [], ended = False\<rparr>) # children s1\<rparr>))"

definition update_child :: "int \<Rightarrow> (child \<Rightarrow> child) \<Rightarrow> os \<Rightarrow> os" where
  "update_child p f s = s\<lparr>children := map (\<lambda>(q, c). (q, if q = p then f c else c)) (children s)\<rparr>"

definition reap :: "int \<Rightarrow> os \<Rightarrow> os" where
  "reap p s = s\<lparr>children := filter (\<lambda>e. fst e \<noteq> p) (children s)\<rparr>"

text \<open>
  \<^verbatim>\<open>waitpid\<close> with \<^verbatim>\<open>WNOHANG\<close>: 0 for a child that runs, its identifier (and it is reaped) for one that has ended, and \<open>- 1\<close> if there is no such
  child.  Without the option it waits for the end and reaps the child, unless a signal interrupts it; the code ignores the result and
  drops the identifier in both cases.
\<close>

definition waitpid_nohang :: "int \<Rightarrow> os \<Rightarrow> int \<times> os" where
  "waitpid_nohang p s =
     (case map_of (children s) p of
        None \<Rightarrow> (- 1, s)
      | Some c \<Rightarrow> if ended c then (p, reap p s) else (0, s))"

definition waitpid_block :: "int \<Rightarrow> os \<Rightarrow> os" where
  "waitpid_block p s =
     (case answer s of
        (None, s1) \<Rightarrow> reap p s1
      | (Some e, s1) \<Rightarrow> s1\<lparr>forgotten := p # forgotten s1\<rparr>)"

definition sys_kill :: "int \<Rightarrow> os \<Rightarrow> os" where
  "sys_kill p s = s\<lparr>signals := signals s @ [(p, p \<in> fst ` set (children s))]\<rparr>"

section \<open>Starting a process\<close>

record impl =
  input_stream :: fd_stream
  output_stream :: pipe_out
  process_id :: int
  pid :: int

text \<open>What the pipes of the new process will do.\<close>

record pipe_io =
  io_arriving :: string
  io_rounds :: "round list"
  io_answers :: "write_result list"
  io_sigpipe :: disposition
  io_sigpipe_once :: bool

text \<open>
  What the child does with its copy of the descriptors before \<^verbatim>\<open>execvp\<close>.
\<close>

definition child_setup :: "nat \<times> nat \<Rightarrow> nat \<times> nat \<Rightarrow> nat \<times> nat \<Rightarrow> fd_table \<Rightarrow> fd_table" where
  "child_setup inp outp errp t =
     (let t1 = dup2_fd (fst inp) 0 t;
          t2 = dup2_fd (snd outp) 1 t1;
          t3 = close_fd (fst inp) t2;
          t4 = close_fd (snd inp) t3;
          t5 = close_fd (fst outp) t4;
          t6 = close_fd (snd outp) t5;
          t7 = close_fd (fst errp) t6
      in set_cloexec (snd errp) t7)"

text \<open>The child up to its first moment as another program, or to its exit; the error that it writes to the error pipe.\<close>

definition child_main :: "string \<Rightarrow> string list \<Rightarrow> nat \<times> nat \<Rightarrow> nat \<times> nat \<Rightarrow> nat \<times> nat \<Rightarrow> int \<Rightarrow> os \<Rightarrow> errno option \<times> os" where
  "child_main executable args inp outp errp p s =
     (case exec_error s executable of
        None \<Rightarrow> (None, update_child p (\<lambda>c. c\<lparr>child_table := exec_table (child_setup inp outp errp (child_table c)),
                                              program := executable # args\<rparr>) s)
      | Some e \<Rightarrow> (Some e, update_child p (\<lambda>c. c\<lparr>child_table := [], ended := True\<rparr>) s))"

definition close_all :: "nat list \<Rightarrow> os \<Rightarrow> os" where
  "close_all ds s = fold sys_close ds s"

text \<open>
  \<^verbatim>\<open>Impl::Impl\<close>, first the part after the three pipes.  The read of the error pipe returns something exactly if the child could not
  start the program, unless the call itself fails.
\<close>

definition spawn :: "pipe_io \<Rightarrow> string \<Rightarrow> string list \<Rightarrow> nat \<times> nat \<Rightarrow> nat \<times> nat \<Rightarrow> nat \<times> nat \<Rightarrow> os \<Rightarrow> (string + impl) \<times> os" where
  "spawn io executable args inp outp errp s3 =
    (case sys_fork s3 of
       (Inl e, s4) \<Rightarrow> (Inl (strerror e), close_all [fst inp, snd inp, fst outp, snd outp, fst errp, snd errp] s4)
     | (Inr p, s4) \<Rightarrow>
         (case child_main executable args inp outp errp p s4 of
            (failed, s5) \<Rightarrow>
              (case answer (close_all [fst inp, snd outp, snd errp] s5) of
                 (refused, s7) \<Rightarrow>
                   (let s8 = sys_close (fst errp) s7 in
                    case (refused, failed) of
                      (None, Some e) \<Rightarrow>
                        (Inl (strerror e), waitpid_block p (close_all [snd inp, fst outp] s8))
                    | _ \<Rightarrow>
                        (Inr \<lparr>input_stream = fd_stream_init (int (fst outp)) (io_arriving io) (io_rounds io),
                              output_stream = \<lparr>ofd = int (snd inp), obad = False, owhat = [], in_pipe = [], answers = io_answers io,
                                               sigpipe = io_sigpipe io, sigpipe_once = io_sigpipe_once io\<rparr>,
                              process_id = p, pid = p\<rparr>, s8)))))"

definition Impl :: "pipe_io \<Rightarrow> string \<Rightarrow> string list \<Rightarrow> os \<Rightarrow> (string + impl) \<times> os" where
  "Impl io executable args s0 =
    (case sys_pipe s0 of
       (Inl e, s1) \<Rightarrow> (Inl (strerror e), s1)
     | (Inr inp, s1) \<Rightarrow> (case sys_pipe s1 of
       (Inl e, s2) \<Rightarrow> (Inl (strerror e), close_all [fst inp, snd inp] s2)
     | (Inr outp, s2) \<Rightarrow> (case sys_pipe s2 of
       (Inl e, s3) \<Rightarrow> (Inl (strerror e), close_all [fst inp, snd inp, fst outp, snd outp] s3)
     | (Inr errp, s3) \<Rightarrow> spawn io executable args inp outp errp s3)))"

section \<open>Ending a process\<close>

definition close_opt :: "int option \<Rightarrow> os \<Rightarrow> os" where
  "close_opt d s = (case d of None \<Rightarrow> s | Some i \<Rightarrow> sys_close (nat i) s)"

definition close_streams :: "impl \<times> os \<Rightarrow> impl \<times> os" where
  "close_streams = (\<lambda>(p, s).
     case pipe_istream_close (input_stream p) of (d, i) \<Rightarrow>
     case pipe_ostream_close (output_stream p) of (e, j) \<Rightarrow>
       (p\<lparr>input_stream := i, output_stream := j\<rparr>, close_opt e (close_opt d s)))"

definition gone :: "impl \<Rightarrow> impl" where
  "gone p = p\<lparr>pid := - 1, process_id := - 1\<rparr>"

definition checkRunning :: "impl \<times> os \<Rightarrow> bool \<times> impl \<times> os" where
  "checkRunning = (\<lambda>(p, s).
     if pid p \<noteq> - 1 then
       (case waitpid_nohang (pid p) s of
          (status, s1) \<Rightarrow> if status \<noteq> 0 then (False, close_streams (gone p, s1)) else (True, p, s1))
     else (False, p, s))"

definition wait_impl :: "impl \<times> os \<Rightarrow> impl \<times> os" where
  "wait_impl ps =
     (case checkRunning ps of
        (False, ps1) \<Rightarrow> ps1
      | (True, ps1) \<Rightarrow> (case close_streams ps1 of (p, s) \<Rightarrow> (gone p, waitpid_block (pid p) s)))"

definition terminate_impl :: "impl \<times> os \<Rightarrow> impl \<times> os" where
  "terminate_impl ps =
     (case checkRunning ps of
        (False, ps1) \<Rightarrow> ps1
      | (True, ps1) \<Rightarrow> (case close_streams ps1 of (p, s) \<Rightarrow> (gone p, waitpid_block (pid p) (sys_kill (pid p) s))))"

definition currentProcessIdImpl :: "int \<Rightarrow> int" where
  "currentProcessIdImpl self = self"

definition existsImpl :: "(int \<Rightarrow> bool) \<Rightarrow> int \<Rightarrow> bool" where
  "existsImpl present i \<longleftrightarrow> 0 < i \<and> present i"

section \<open>\<^verbatim>\<open>Process\<close>\<close>

text \<open>An object holds its \<^verbatim>\<open>Impl\<close>, or nothing after it has been moved from.\<close>

type_synonym process = "impl option"

definition with_impl :: "(impl \<times> os \<Rightarrow> impl \<times> os) \<Rightarrow> process \<times> os \<Rightarrow> process \<times> os" where
  "with_impl f = (\<lambda>(p, s). case p of None \<Rightarrow> (None, s) | Some i \<Rightarrow> (case f (i, s) of (i', s') \<Rightarrow> (Some i', s')))"

definition Process_start :: "pipe_io \<Rightarrow> string \<Rightarrow> string list \<Rightarrow> os \<Rightarrow> (string + process) \<times> os" where
  "Process_start io executable args s =
     (case Impl io executable args s of
        (Inl e, s1) \<Rightarrow> (Inl e, s1)
      | (Inr i, s1) \<Rightarrow> (Inr (Some i), s1))"

definition isRunning :: "process \<times> os \<Rightarrow> bool \<times> process \<times> os" where
  "isRunning = (\<lambda>(p, s). case p of
      None \<Rightarrow> (False, None, s)
    | Some i \<Rightarrow> (case checkRunning (i, s) of (b, i', s') \<Rightarrow> (b, Some i', s')))"

definition Process_wait :: "process \<times> os \<Rightarrow> process \<times> os" where
  "Process_wait = with_impl wait_impl"

definition Process_terminate :: "process \<times> os \<Rightarrow> process \<times> os" where
  "Process_terminate = with_impl terminate_impl"

definition Process_id :: "process \<Rightarrow> int" where
  "Process_id p = (case p of None \<Rightarrow> - 1 | Some i \<Rightarrow> process_id i)"

definition Process_input :: "process \<Rightarrow> fd_stream option" where
  "Process_input p = map_option input_stream p"

definition Process_output :: "process \<Rightarrow> pipe_out option" where
  "Process_output p = map_option output_stream p"

text \<open>The destructor, and the release of the old value in the move assignment.\<close>

definition Process_release :: "process \<times> os \<Rightarrow> os" where
  "Process_release ps = (case isRunning ps of (b, ps1) \<Rightarrow> snd (if b then Process_terminate ps1 else ps1))"

definition Process_move_assign :: "process \<Rightarrow> process \<Rightarrow> os \<Rightarrow> (process \<times> process) \<times> os" where
  "Process_move_assign target source s = ((source, None), Process_release (target, s))"

section \<open>Descriptors\<close>

lemma lowest_free_notin: "lowest_free t \<notin> fst ` set t"
proof -
  let ?xs = "filter (\<lambda>d. d \<notin> fst ` set t) [0..<length t + 1]"
  have "?xs \<noteq> []"
  proof
    assume "?xs = []"
    then have "set [0..<length t + 1] \<subseteq> fst ` set t" unfolding filter_empty_conv by blast
    then have "card (set [0..<length t + 1]) \<le> card (fst ` set t)" by (intro card_mono) auto
    also have "\<dots> \<le> card (set t)" by (rule card_image_le) simp
    also have "\<dots> \<le> length t" by (rule card_length)
    finally show False by simp
  qed
  then have "hd ?xs \<in> set ?xs" by (rule hd_in_set)
  then show ?thesis unfolding lowest_free_def set_filter by blast
qed

lemma lowest_free_std: "0 \<in> fst ` set t \<Longrightarrow> 1 \<in> fst ` set t \<Longrightarrow> 2 \<le> lowest_free t"
  using lowest_free_notin [of t] by (metis One_nat_def less_2_cases not_le)

lemma close_fd_notin: "d \<notin> fst ` set t \<Longrightarrow> close_fd d t = t"
  by (force simp: close_fd_def filter_id_conv)

lemma close_fd_Cons: "close_fd d ((e, x) # t) = (if e = d then close_fd d t else (e, x) # close_fd d t)"
  by (simp add: close_fd_def)

lemma fst_close_fd: "fst ` set (close_fd d t) = fst ` set t - {d}"
  by (auto simp: close_fd_def)

lemma map_of_close_fd: "map_of (close_fd d t) = (map_of t)(d := None)"
  by (induction t) (auto simp: close_fd_def)

lemma map_of_dup2_fd:
  "map_of (dup2_fd a b t) = (if a = b then map_of t else (case map_of t a of None \<Rightarrow> map_of t | Some x \<Rightarrow> (map_of t)(b \<mapsto> x\<lparr>cloexec := False\<rparr>)))"
  by (auto simp: dup2_fd_def map_of_close_fd split: option.splits)

lemma map_of_set_cloexec:
  "map_of (set_cloexec d t) = (\<lambda>e. if e = d then map_option (\<lambda>x. x\<lparr>cloexec := True\<rparr>) (map_of t e) else map_of t e)"
  by (induction t) (auto simp: set_cloexec_def)

lemma map_of_exec_table:
  "distinct (map fst t) \<Longrightarrow> map_of (exec_table t) d = (case map_of t d of None \<Rightarrow> None | Some x \<Rightarrow> if cloexec x then None else Some x)"
  by (induction t) (auto simp: exec_table_def split: option.splits dest: map_of_SomeD simp: rev_image_eqI)

lemmas map_of_tables = map_of_close_fd map_of_dup2_fd map_of_set_cloexec

lemma distinct_close_fd: "distinct (map fst t) \<Longrightarrow> distinct (map fst (close_fd d t))"
  by (simp add: close_fd_def distinct_map_filter)

lemma distinct_dup2_fd: "distinct (map fst t) \<Longrightarrow> distinct (map fst (dup2_fd a b t))"
  by (auto simp: dup2_fd_def distinct_close_fd fst_close_fd image_iff [symmetric] split: option.splits)

lemma distinct_child_setup: "distinct (map fst t) \<Longrightarrow> distinct (map fst (child_setup i out e t))"
proof -
  have "map fst (set_cloexec d t) = map fst t" for d t by (induction t) (auto simp: set_cloexec_def)
  then show "distinct (map fst t) \<Longrightarrow> ?thesis" by (simp add: child_setup_def Let_def distinct_close_fd distinct_dup2_fd)
qed

section \<open>What starting a process leaves behind\<close>

definition os_ok :: "os \<Rightarrow> bool" where
  "os_ok s \<longleftrightarrow> distinct (map fst (table s)) \<and> distinct (map fst (children s)) \<and> 0 < next_pid s \<and>
     list_all (\<lambda>(p, c). 0 < p \<and> p < next_pid s) (children s)"

text \<open>The calls that are going to fail, and together with them the children that have been forgotten; the sum never grows.\<close>

definition failures :: "errno option list \<Rightarrow> nat" where
  "failures rs = length (filter (\<lambda>r. r \<noteq> None) rs)"

definition debts :: "os \<Rightarrow> nat" where
  "debts s = length (forgotten s) + failures (refusals s)"

lemma failures_simps [simp]: "failures [] = 0" "failures (None # rs) = failures rs" "failures (Some e # rs) = Suc (failures rs)"
  by (simp_all add: failures_def)

lemma answer_cases:
  obtains r rs where "answer s = (r, s\<lparr>refusals := rs\<rparr>)" "failures (r # rs) = failures (refusals s)"
proof (cases "refusals s")
  case Nil
  then have "s\<lparr>refusals := []\<rparr> = s" by simp
  with Nil show ?thesis using that [of None "[]"] by (simp add: answer_def)
qed (simp add: answer_def that)

definition pipe_entries :: "nat \<Rightarrow> nat \<times> nat \<Rightarrow> fd_table" where
  "pipe_entries n p = [(snd p, \<lparr>refers = Write_end n, cloexec = False\<rparr>), (fst p, \<lparr>refers = Read_end n, cloexec = False\<rparr>)]"

lemma sys_pipe_cases:
  obtains (refused) e rs where "sys_pipe s = (Inl e, s\<lparr>refusals := rs\<rparr>)" "failures rs \<le> failures (refusals s)"
  | (made) p rs where "sys_pipe s = (Inr p, s\<lparr>refusals := rs, table := pipe_entries (pipes_made s) p @ table s, pipes_made := Suc (pipes_made s)\<rparr>)"
      "fst p \<noteq> snd p" "fst p \<notin> fst ` set (table s)" "snd p \<notin> fst ` set (table s)" "failures rs \<le> failures (refusals s)"
proof -
  obtain r rs where a: "answer s = (r, s\<lparr>refusals := rs\<rparr>)" "failures (r # rs) = failures (refusals s)" by (rule answer_cases)
  show ?thesis
  proof (cases r)
    case None
    let ?a = "lowest_free (table s)"
    let ?t = "(?a, \<lparr>refers = Read_end (pipes_made s), cloexec = False\<rparr>) # table s"
    have "lowest_free ?t \<noteq> ?a" "lowest_free ?t \<notin> fst ` set (table s)" using lowest_free_notin [of ?t] by auto
    then show ?thesis using a None lowest_free_notin [of "table s"]
      by (intro made [of "(?a, lowest_free ?t)" rs]) (auto simp: sys_pipe_def open_fd_def pipe_entries_def)
  qed (use a refused in \<open>simp add: sys_pipe_def\<close>)
qed

lemma sys_fork_cases:
  obtains (refused) e rs where "sys_fork s = (Inl e, s\<lparr>refusals := rs\<rparr>)" "failures rs \<le> failures (refusals s)"
  | (made) rs where "sys_fork s = (Inr (next_pid s), s\<lparr>refusals := rs, next_pid := next_pid s + 1,
        children := (next_pid s, \<lparr>child_table = table s, program = [], ended = False\<rparr>) # children s\<rparr>)" "failures rs \<le> failures (refusals s)"
proof -
  obtain r rs where "answer s = (r, s\<lparr>refusals := rs\<rparr>)" "failures (r # rs) = failures (refusals s)" by (rule answer_cases)
  then show ?thesis using that by (cases r) (auto simp: sys_fork_def)
qed

lemma waitpid_block_cases:
  obtains (reaped) rs where "waitpid_block p s = reap p (s\<lparr>refusals := rs\<rparr>)" "failures rs \<le> failures (refusals s)"
  | (interrupted) rs where "waitpid_block p s = s\<lparr>refusals := rs, forgotten := p # forgotten s\<rparr>" "Suc (failures rs) \<le> failures (refusals s)"
proof -
  obtain r rs where "answer s = (r, s\<lparr>refusals := rs\<rparr>)" "failures (r # rs) = failures (refusals s)" by (rule answer_cases)
  then show ?thesis using that by (cases r) (auto simp: waitpid_block_def)
qed

text \<open>The table with the descriptors of three pipes in front, all of them new.\<close>

definition three_pipes :: "os \<Rightarrow> nat \<times> nat \<Rightarrow> nat \<times> nat \<Rightarrow> nat \<times> nat \<Rightarrow> os \<Rightarrow> bool" where
  "three_pipes s inp outp errp s3 \<longleftrightarrow>
     (let n = pipes_made s; ds = [fst inp, snd inp, fst outp, snd outp, fst errp, snd errp] in
      distinct ds \<and> set ds \<inter> fst ` set (table s) = {} \<and>
      (\<exists>rs. failures rs \<le> failures (refusals s) \<and> s3 = s\<lparr>refusals := rs, table := pipe_entries (Suc (Suc n)) errp @ pipe_entries (Suc n) outp @ pipe_entries n inp @ table s,
                  pipes_made := Suc (Suc (Suc n))\<rparr>))"

definition same_process :: "os \<Rightarrow> os \<Rightarrow> bool" where
  "same_process s s' \<longleftrightarrow> table s' = table s \<and> children s' = children s \<and> next_pid s \<le> next_pid s' \<and> signals s' = signals s \<and>
     forgotten s' = forgotten s \<and> debts s' \<le> debts s"

text \<open>A start whose last \<^verbatim>\<open>waitpid\<close> is interrupted leaves the child that could not start the program.\<close>

definition left_behind :: "os \<Rightarrow> child \<Rightarrow> os \<Rightarrow> bool" where
  "left_behind s c s' \<longleftrightarrow>
     table s' = table s \<and> children s' = (next_pid s, c) # children s \<and> next_pid s' = next_pid s + 1 \<and> signals s' = signals s \<and>
     forgotten s' = next_pid s # forgotten s \<and> debts s' \<le> debts s"

lemma close_all_simps:
  "close_all [] s = s" "close_all (d # ds) s = close_all ds (s\<lparr>table := close_fd d (table s)\<rparr>)"
  by (simp_all add: close_all_def sys_close_def)

lemmas closing = close_all_simps sys_close_def pipe_entries_def close_fd_Cons close_fd_notin

lemma Impl_cases:
  assumes "Impl io executable args s = (r, s')"
  obtains (refused) m where "r = Inl m" "same_process s s'"
  | (spawned) inp outp errp s3 where "three_pipes s inp outp errp s3" "spawn io executable args inp outp errp s3 = (r, s')"
proof (cases rule: sys_pipe_cases [of s])
  case (refused e rs)
  with assms show ?thesis by (auto simp: Impl_def same_process_def debts_def intro: that(1))
next
  case in_made: (made inp rs1)
  let ?s1 = "s\<lparr>refusals := rs1, table := pipe_entries (pipes_made s) inp @ table s, pipes_made := Suc (pipes_made s)\<rparr>"
  show ?thesis
  proof (cases rule: sys_pipe_cases [of ?s1])
    case (refused e rs)
    with in_made assms show ?thesis by (auto simp: Impl_def closing same_process_def debts_def intro: that(1))
  next
    case out_made: (made outp rs2)
    let ?s2 = "?s1\<lparr>refusals := rs2, table := pipe_entries (Suc (pipes_made s)) outp @ table ?s1, pipes_made := Suc (Suc (pipes_made s))\<rparr>"
    show ?thesis
    proof (cases rule: sys_pipe_cases [of ?s2])
      case (refused e rs)
      have "fst outp \<noteq> fst inp" "fst outp \<noteq> snd inp" "snd outp \<noteq> fst inp" "snd outp \<noteq> snd inp"
        "fst outp \<notin> fst ` set (table s)" "snd outp \<notin> fst ` set (table s)"
        using out_made(3,4) by (auto simp: pipe_entries_def)
      with refused in_made out_made(1,2,5) assms show ?thesis by (auto simp: Impl_def closing same_process_def debts_def intro: that(1))
    next
      case err_made: (made errp rs3)
      have "spawn io executable args inp outp errp (?s2\<lparr>refusals := rs3, table := pipe_entries (Suc (Suc (pipes_made s))) errp @ table ?s2,
          pipes_made := Suc (Suc (Suc (pipes_made s)))\<rparr>) = (r, s')"
        using assms in_made(1) out_made(1) err_made(1) by (simp add: Impl_def)
      moreover have "three_pipes s inp outp errp (?s2\<lparr>refusals := rs3, table := pipe_entries (Suc (Suc (pipes_made s))) errp @ table ?s2,
          pipes_made := Suc (Suc (Suc (pipes_made s)))\<rparr>)"
        using in_made(2-) out_made(2-) err_made(2-) by (auto simp: three_pipes_def pipe_entries_def Let_def intro!: exI [of _ rs3])
      ultimately show ?thesis by (rule that(2) [rotated])
    qed
  qed
qed

text \<open>
  A started process: two more descriptors, the writing end of the pipe to the child and the reading end of the pipe from it, and one more child.
\<close>

definition started :: "os \<Rightarrow> impl \<Rightarrow> child \<Rightarrow> os \<Rightarrow> bool" where
  "started s i c s' \<longleftrightarrow>
     (\<exists>r w. fd (input_stream i) = int r \<and> ofd (output_stream i) = int w \<and> r \<noteq> w \<and> r \<notin> fst ` set (table s) \<and> w \<notin> fst ` set (table s) \<and>
        table s' = (r, \<lparr>refers = Read_end (Suc (pipes_made s)), cloexec = False\<rparr>) # (w, \<lparr>refers = Write_end (pipes_made s), cloexec = False\<rparr>) # table s) \<and>
     pid i = next_pid s \<and> process_id i = pid i \<and> children s' = (pid i, c) # children s \<and>
     next_pid s' = next_pid s + 1 \<and> signals s' = signals s \<and> forgotten s' = forgotten s \<and> debts s' \<le> debts s"

lemma others_unchanged:
  fixes n :: int
  assumes "list_all (\<lambda>(p, c). 0 < p \<and> p < n) cs"
  shows "map (\<lambda>(q, c). (q, if q = n then f c else c)) cs = cs" "filter (\<lambda>e. fst e \<noteq> n) cs = cs"
  using assms by (induction cs) auto

text \<open>What is left of the table after the program has closed the ends that belong to the child, and after it has closed its own ends too.\<close>

lemma spawned_closing:
  assumes "three_pipes s inp outp errp s3" "s5 = s3\<lparr>refusals := rs, next_pid := next_pid s + 1, children := cs\<rparr>"
    and "s8 = sys_close (fst errp) (close_all [fst inp, snd outp, snd errp] s5\<lparr>refusals := rs'\<rparr>)"
    and "left = s\<lparr>refusals := rs', pipes_made := Suc (Suc (Suc (pipes_made s))), next_pid := next_pid s + 1, children := cs\<rparr>"
  shows "s8 = left\<lparr>table := (fst outp, \<lparr>refers = Read_end (Suc (pipes_made s)), cloexec = False\<rparr>) #
      (snd inp, \<lparr>refers = Write_end (pipes_made s), cloexec = False\<rparr>) # table s\<rparr>" (is "_ = left\<lparr>table := ?t8\<rparr>")
    and "close_all [snd inp, fst outp] s8 = left"
proof -
  let ?ds = "[fst inp, snd inp, fst outp, snd outp, fst errp, snd errp]"
  obtain rs0 where ds: "distinct ?ds" "set ?ds \<inter> fst ` set (table s) = {}"
    and s3: "s3 = s\<lparr>refusals := rs0, table := pipe_entries (Suc (Suc (pipes_made s))) errp @ pipe_entries (Suc (pipes_made s)) outp @
      pipe_entries (pipes_made s) inp @ table s, pipes_made := Suc (Suc (Suc (pipes_made s)))\<rparr>"
    using assms(1) unfolding three_pipes_def Let_def by blast
  have new: "d \<notin> fst ` set (table s)" if "d \<in> set ?ds" for d using that ds(2) by blast
  have old: "close_fd (fst inp) (table s) = table s" "close_fd (snd inp) (table s) = table s" "close_fd (fst outp) (table s) = table s"
    "close_fd (snd outp) (table s) = table s" "close_fd (fst errp) (table s) = table s" "close_fd (snd errp) (table s) = table s"
    by (rule close_fd_notin, rule new, simp)+
  have "table s5 = pipe_entries (Suc (Suc (pipes_made s))) errp @ pipe_entries (Suc (pipes_made s)) outp @ pipe_entries (pipes_made s) inp @ table s"
    unfolding assms(2) s3 by simp
  then have "table s8 = ?t8"
    using ds(1) old unfolding assms(3) by (auto simp: close_all_simps sys_close_def pipe_entries_def close_fd_Cons)
  moreover have "s8 = left\<lparr>table := table s8\<rparr>" unfolding close_all_simps sys_close_def assms(2-) s3 by simp
  ultimately show s8: "s8 = left\<lparr>table := ?t8\<rparr>" by simp
  have "table left = table s" by (simp add: assms(4))
  then show "close_all [snd inp, fst outp] s8 = left" using ds(1) old unfolding s8 by (auto simp: close_all_simps close_fd_Cons assms(4))
qed

lemma spawn_effect:
  assumes "os_ok s" "three_pipes s inp outp errp s3" "spawn io executable args inp outp errp s3 = (r, s')"
  shows "case r of Inl m \<Rightarrow> same_process s s' \<or> (\<exists>c. left_behind s c s') | Inr i \<Rightarrow> \<exists>c. started s i c s'"
proof -
  have o: "list_all (\<lambda>(p, c). 0 < p \<and> p < next_pid s) (children s)" using assms(1) by (simp add: os_ok_def)
  show ?thesis
  proof (cases rule: sys_fork_cases [of s3])
    case (refused e rs)
    with assms(2,3) show ?thesis by (auto simp: spawn_def three_pipes_def Let_def closing same_process_def debts_def)
  next
    case (made rs)
    let ?s4 = "s3\<lparr>refusals := rs, next_pid := next_pid s3 + 1, children := (next_pid s3, \<lparr>child_table = table s3, program = [], ended = False\<rparr>) # children s3\<rparr>"
    obtain failed s5 where m: "child_main executable args inp outp errp (next_pid s3) ?s4 = (failed, s5)" by force
    have s5: "\<exists>c. s5 = ?s4\<lparr>children := (next_pid s, c) # children s\<rparr>"
      using m assms(2) others_unchanged(1) [OF o] by (auto simp: child_main_def three_pipes_def Let_def update_child_def split: option.splits)
    obtain refused rs' where a: "answer (close_all [fst inp, snd outp, snd errp] s5) = (refused, close_all [fst inp, snd outp, snd errp] s5\<lparr>refusals := rs'\<rparr>)"
        "failures (refused # rs') = failures (refusals (close_all [fst inp, snd outp, snd errp] s5))"
      by (rule answer_cases)
    have rs': "failures rs' \<le> failures (refusals s)" using a(2) made(2) s5 assms(2)
      by (cases refused) (auto simp: closing three_pipes_def Let_def)
    obtain c where c: "s5 = ?s4\<lparr>children := (next_pid s, c) # children s\<rparr>" using s5 by blast
    let ?s8 = "sys_close (fst errp) (close_all [fst inp, snd outp, snd errp] s5\<lparr>refusals := rs'\<rparr>)"
    let ?left = "s\<lparr>refusals := rs', pipes_made := Suc (Suc (Suc (pipes_made s))), next_pid := next_pid s + 1, children := (next_pid s, c) # children s\<rparr>"
    have n: "next_pid s3 = next_pid s" using assms(2) by (auto simp: three_pipes_def Let_def)
    have s5': "s5 = s3\<lparr>refusals := rs, next_pid := next_pid s + 1, children := (next_pid s, c) # children s\<rparr>" by (simp add: c n)
    note t8 = spawned_closing(1) [OF assms(2) s5' refl [of ?s8] refl [of ?left]]
    note w = spawned_closing(2) [OF assms(2) s5' refl [of ?s8] refl [of ?left]]
    have ds: "fst outp \<noteq> snd inp" "fst outp \<notin> fst ` set (table s)" "snd inp \<notin> fst ` set (table s)"
      using assms(2) by (auto simp: three_pipes_def Let_def)
    have sp: "spawn io executable args inp outp errp s3 = (case (refused, failed) of
        (None, Some e) \<Rightarrow> (Inl (strerror e), waitpid_block (next_pid s) ?left)
      | _ \<Rightarrow> (Inr \<lparr>input_stream = fd_stream_init (int (fst outp)) (io_arriving io) (io_rounds io),
                output_stream = \<lparr>ofd = int (snd inp), obad = False, owhat = [], in_pipe = [], answers = io_answers io,
                                 sigpipe = io_sigpipe io, sigpipe_once = io_sigpipe_once io\<rparr>,
                process_id = next_pid s, pid = next_pid s\<rparr>, ?s8))"
      unfolding spawn_def made(1) using m a(1) w by (simp add: n Let_def split: option.splits)
    show ?thesis
    proof (cases "refused = None \<and> failed \<noteq> None")
      case True
      then have "\<exists>e. r = Inl (strerror e)" "s' = waitpid_block (next_pid s) ?left" using sp assms(3) by auto
      then show ?thesis using others_unchanged(2) [OF o] rs'
        by (cases rule: waitpid_block_cases [of "next_pid s" ?left]) (auto simp: same_process_def left_behind_def reap_def debts_def)
    next
      case False
      then show ?thesis using sp assms(3) ds rs' unfolding t8
        by (auto simp: started_def fd_stream_init_def debts_def split: option.splits)
    qed
  qed
qed

lemma Impl_effect:
  assumes "os_ok s" "Impl io executable args s = (r, s')"
  shows "case r of Inl m \<Rightarrow> same_process s s' \<or> (\<exists>c. left_behind s c s') | Inr i \<Rightarrow> \<exists>c. started s i c s'"
  using assms(2) by (cases rule: Impl_cases) (use spawn_effect [OF assms(1)] in auto)

section \<open>The descriptors of the child\<close>

definition inherited :: "fd_table \<Rightarrow> nat \<Rightarrow> open_file option" where
  "inherited t d = (case map_of t d of Some x \<Rightarrow> if cloexec x then None else Some (refers x) | None \<Rightarrow> None)"

definition file_at :: "fd_table \<Rightarrow> nat \<Rightarrow> open_file option" where
  "file_at t d = map_option refers (map_of t d)"

lemma child_descriptors:
  assumes "distinct (map fst (table s))" "{0, 1} \<subseteq> fst ` set (table s)" "three_pipes s inp outp errp s3"
  shows "file_at (exec_table (child_setup inp outp errp (table s3))) =
    (inherited (table s))(0 \<mapsto> Read_end (pipes_made s), 1 \<mapsto> Write_end (Suc (pipes_made s)))"
proof -
  let ?ds = "[fst inp, snd inp, fst outp, snd outp, fst errp, snd errp]"
  let ?t = "child_setup inp outp errp (table s3)"
  have ds: "distinct ?ds" "set ?ds \<inter> fst ` set (table s) = {}" and t: "table s3 = pipe_entries (Suc (Suc (pipes_made s))) errp @ pipe_entries (Suc (pipes_made s)) outp @ pipe_entries (pipes_made s) inp @ table s"
    using assms(3) by (auto simp: three_pipes_def Let_def)
  have std: "0 \<notin> set ?ds" "1 \<notin> set ?ds" using ds(2) assms(2) by blast+
  have "distinct (map fst (table s3))" using assms(1) ds unfolding t by (auto simp: pipe_entries_def)
  note e = map_of_exec_table [OF distinct_child_setup [OF this, of inp outp errp]]
  have none: "map_of (table s) d = None" if "d \<in> set ?ds" for d
    using that ds(2) unfolding map_of_eq_None_iff by blast
  have m: "map_of ?t d = (if d = 0 then Some \<lparr>refers = Read_end (pipes_made s), cloexec = False\<rparr>
      else if d = 1 then Some \<lparr>refers = Write_end (Suc (pipes_made s)), cloexec = False\<rparr>
      else if d = snd errp then Some \<lparr>refers = Write_end (Suc (Suc (pipes_made s))), cloexec = True\<rparr>
      else map_of (table s) d)" for d
    using std ds(1) none [of d] unfolding t child_setup_def Let_def map_of_tables by (auto simp: pipe_entries_def)
  show ?thesis
  proof
    fix d
    show "file_at (exec_table ?t) d = ((inherited (table s))(0 \<mapsto> Read_end (pipes_made s), 1 \<mapsto> Write_end (Suc (pipes_made s)))) d"
      using none [of "snd errp"] by (auto simp: file_at_def e m inherited_def split: option.splits)
  qed
qed

lemma spawn_child:
  assumes "os_ok s" "three_pipes s inp outp errp s3" "spawn io executable args inp outp errp s3 = (Inr i, s')" "exec_error s executable = None"
  shows "started s i \<lparr>child_table = exec_table (child_setup inp outp errp (table s3)), program = executable # args, ended = False\<rparr> s'"
proof (cases rule: sys_fork_cases [of s3])
  case (refused e rs)
  with assms(3) show ?thesis by (simp add: spawn_def)
next
  case (made rs)
  let ?s4 = "s3\<lparr>refusals := rs, next_pid := next_pid s3 + 1, children := (next_pid s3, \<lparr>child_table = table s3, program = [], ended = False\<rparr>) # children s3\<rparr>"
  let ?c = "\<lparr>child_table = exec_table (child_setup inp outp errp (table s3)), program = executable # args, ended = False\<rparr>"
  have o: "list_all (\<lambda>(p, c). 0 < p \<and> p < next_pid s) (children s)" using assms(1) by (simp add: os_ok_def)
  have m: "child_main executable args inp outp errp (next_pid s3) ?s4 = (None, ?s4\<lparr>children := (next_pid s3, ?c) # children s3\<rparr>)"
    using assms(2,4) others_unchanged(1) [OF o] by (auto simp: child_main_def update_child_def three_pipes_def Let_def)
  obtain r rs' where a: "answer (close_all [fst inp, snd outp, snd errp] (?s4\<lparr>children := (next_pid s3, ?c) # children s3\<rparr>)) =
      (r, close_all [fst inp, snd outp, snd errp] (?s4\<lparr>children := (next_pid s3, ?c) # children s3\<rparr>)\<lparr>refusals := rs'\<rparr>)"
      and "failures (r # rs') = failures (refusals (close_all [fst inp, snd outp, snd errp] (?s4\<lparr>children := (next_pid s3, ?c) # children s3\<rparr>)))"
    by (rule answer_cases)
  then have b: "failures rs' \<le> failures (refusals s)" using made(2) assms(2) by (cases r) (auto simp: closing three_pipes_def Let_def)
  show ?thesis using assms(2,3) made m a b
    by (auto simp: spawn_def three_pipes_def Let_def closing started_def fd_stream_init_def debts_def split: option.splits)
qed

section \<open>Accounting for descriptors and children\<close>

definition fds :: "process \<Rightarrow> nat list" where
  "fds p = (case p of None \<Rightarrow> []
     | Some i \<Rightarrow> (if 0 \<le> fd (input_stream i) then [nat (fd (input_stream i))] else []) @
                  (if 0 \<le> ofd (output_stream i) then [nat (ofd (output_stream i))] else []))"

definition live :: "process \<Rightarrow> int list" where
  "live p = (case p of None \<Rightarrow> [] | Some i \<Rightarrow> if pid i = - 1 then [] else [pid i])"

definition impl_ok :: "process \<Rightarrow> bool" where
  "impl_ok p = (case p of None \<Rightarrow> True
     | Some i \<Rightarrow> process_id i = pid i \<and> (pid i = - 1 \<or> 0 < pid i) \<and> (0 \<le> fd (input_stream i) \<longleftrightarrow> pid i \<noteq> - 1) \<and> (0 \<le> ofd (output_stream i) \<longleftrightarrow> pid i \<noteq> - 1))"

definition owned :: "process list \<Rightarrow> nat list" where
  "owned ps = concat (map fds ps)"

definition alive :: "process list \<Rightarrow> int list" where
  "alive ps = concat (map live ps)"

lemma owned_simps [simp]: "owned [] = []" "owned (p # ps) = fds p @ owned ps" "owned (ps @ qs) = owned ps @ owned qs"
  by (simp_all add: owned_def)

lemma alive_simps [simp]: "alive [] = []" "alive (p # ps) = live p @ alive ps" "alive (ps @ qs) = alive ps @ alive qs"
  by (simp_all add: alive_def)

text \<open>
  The descriptors that are not those of the program at the beginning are exactly those of the processes that have not been found ended; the children that
  have not been reaped are those of the same processes and the forgotten ones; signals have gone to such children only; and
  the number given with the first table bounds the forgotten children and the failures to come.
\<close>

definition program_ok :: "fd_table \<times> nat \<Rightarrow> process list \<times> os \<Rightarrow> bool" where
  "program_ok t0 = (\<lambda>(ps, s).
     os_ok s \<and> list_all impl_ok ps \<and>
     distinct (owned ps) \<and> set (owned ps) \<subseteq> fst ` set (table s) \<and>
     filter (\<lambda>e. fst e \<notin> set (owned ps)) (table s) = fst t0 \<and>
     distinct (alive ps @ forgotten s) \<and> set (alive ps @ forgotten s) = fst ` set (children s) \<and>
     list_all snd (signals s) \<and> debts s \<le> snd t0)"

inductive program_step :: "process list \<times> os \<Rightarrow> process list \<times> os \<Rightarrow> bool" where
  start: "Process_start io executable args s = (Inr p, s') \<Longrightarrow> program_step (ps, s) (ps @ [p], s')"
| start_failed: "Process_start io executable args s = (Inl m, s') \<Longrightarrow> program_step (ps, s) (ps, s')"
| asked: "isRunning (p, s) = (b, p', s') \<Longrightarrow> program_step (ps @ p # qs, s) (ps @ p' # qs, s')"
| waited: "Process_wait (p, s) = (p', s') \<Longrightarrow> program_step (ps @ p # qs, s) (ps @ p' # qs, s')"
| terminated: "Process_terminate (p, s) = (p', s') \<Longrightarrow> program_step (ps @ p # qs, s) (ps @ p' # qs, s')"
| moved: "program_step (ps @ p # qs, s) (ps @ None # qs @ [p], s)"
| assigned: "Process_move_assign p q s = ((p', q'), s') \<Longrightarrow> program_step (ps @ p # qs @ q # rs, s) (ps @ p' # qs @ q' # rs, s')"
| assigned_back: "Process_move_assign q p s = ((q', p'), s') \<Longrightarrow> program_step (ps @ p # qs @ q # rs, s) (ps @ p' # qs @ q' # rs, s')"
| destroyed: "program_step (ps @ p # qs, s) (ps @ qs, Process_release (p, s))"
| child_ends: "program_step (ps, s) (ps, update_child i (\<lambda>c. c\<lparr>child_table := [], ended := True\<rparr>) s)"

inductive program_reach :: "process list \<times> os \<Rightarrow> process list \<times> os \<Rightarrow> bool" where
  init: "program_reach x x"
| step: "program_reach x y \<Longrightarrow> program_step y z \<Longrightarrow> program_reach x z"

definition closed :: "impl \<Rightarrow> impl" where
  "closed i = gone (i\<lparr>input_stream := (input_stream i)\<lparr>fd := - 1\<rparr>, output_stream := (output_stream i)\<lparr>ofd := - 1\<rparr>\<rparr>)"

definition released :: "impl \<Rightarrow> os \<Rightarrow> os" where
  "released i s = s\<lparr>table := close_fd (nat (ofd (output_stream i))) (close_fd (nat (fd (input_stream i))) (table s)),
                   children := filter (\<lambda>e. fst e \<noteq> pid i) (children s)\<rparr>"

definition abandoned :: "impl \<Rightarrow> os \<Rightarrow> os" where
  "abandoned i s = s\<lparr>table := close_fd (nat (ofd (output_stream i))) (close_fd (nat (fd (input_stream i))) (table s)),
                    forgotten := pid i # forgotten s\<rparr>"

lemma close_streams_live:
  assumes "impl_ok (Some i)" "pid i \<noteq> - 1"
  shows "close_streams (i, s) = (i\<lparr>input_stream := (input_stream i)\<lparr>fd := - 1\<rparr>, output_stream := (output_stream i)\<lparr>ofd := - 1\<rparr>\<rparr>,
           s\<lparr>table := close_fd (nat (ofd (output_stream i))) (close_fd (nat (fd (input_stream i))) (table s))\<rparr>)"
    and "close_streams (gone i, s) = (closed i, s\<lparr>table := close_fd (nat (ofd (output_stream i))) (close_fd (nat (fd (input_stream i))) (table s))\<rparr>)"
  using assms by (simp_all add: close_streams_def impl_ok_def pipe_istream_close_def pipe_ostream_close_def close_opt_def sys_close_def gone_def closed_def)

text \<open>
  Each of the operations either leaves everything as it is, or ends the process, possibly with a signal; the child is reaped, or it is
  forgotten because the wait failed.
\<close>

inductive outcome :: "impl \<Rightarrow> os \<Rightarrow> impl \<times> os \<Rightarrow> bool" for i s where
  kept: "outcome i s (i, s)"
| dropped: "pid i \<noteq> - 1 \<Longrightarrow> s1 \<in> {s, sys_kill (pid i) s} \<Longrightarrow> failures rs \<le> failures (refusals s) \<Longrightarrow>
    outcome i s (closed i, released i (s1\<lparr>refusals := rs\<rparr>))"
| interrupted: "pid i \<noteq> - 1 \<Longrightarrow> s1 \<in> {s, sys_kill (pid i) s} \<Longrightarrow> Suc (failures rs) \<le> failures (refusals s) \<Longrightarrow>
    outcome i s (closed i, abandoned i (s1\<lparr>refusals := rs\<rparr>))"

lemma outcome_found_ended: "pid i \<noteq> - 1 \<Longrightarrow> outcome i s (closed i, released i s)"
  using outcome.dropped [of i s s "refusals s"] by simp

lemma checkRunning_outcome:
  assumes "impl_ok (Some i)"
  shows "checkRunning (i, s) = (False, i, s) \<and> pid i = - 1 \<or> checkRunning (i, s) = (True, i, s) \<and> pid i \<noteq> - 1 \<or>
         checkRunning (i, s) = (False, closed i, released i s) \<and> pid i \<noteq> - 1"
proof (cases "pid i = - 1")
  case False
  have none: "filter (\<lambda>e. fst e \<noteq> pid i) cs = cs" if "map_of cs (pid i) = None" for cs :: "(int \<times> child) list"
    using that by (auto simp: map_of_eq_None_iff filter_id_conv image_iff)
  show ?thesis
    using assms False close_streams_live(2) [OF assms False]
    by (auto simp: checkRunning_def waitpid_nohang_def released_def reap_def none impl_ok_def split: option.splits)
qed (simp add: checkRunning_def)

lemma ending_live:
  assumes "impl_ok (Some i)" "checkRunning (i, s) = (True, i, s)" "pid i \<noteq> - 1"
  shows "outcome i s (wait_impl (i, s)) \<and> pid (fst (wait_impl (i, s))) = - 1"
    and "outcome i s (terminate_impl (i, s)) \<and> pid (fst (terminate_impl (i, s))) = - 1"
proof -
  let ?c = "\<lambda>s. s\<lparr>table := close_fd (nat (ofd (output_stream i))) (close_fd (nat (fd (input_stream i))) (table s))\<rparr>"
  have e: "wait_impl (i, s) = (closed i, waitpid_block (pid i) (?c s))"
    "terminate_impl (i, s) = (closed i, waitpid_block (pid i) (sys_kill (pid i) (?c s)))" "pid (closed i) = - 1"
    using assms(2) close_streams_live(1) [OF assms(1,3)] by (simp_all add: wait_impl_def terminate_impl_def closed_def gone_def)
  have r: "refusals s1 = refusals s" if "s1 \<in> {s, sys_kill (pid i) s}" for s1 using that by (auto simp: sys_kill_def)
  have "outcome i s (closed i, waitpid_block (pid i) (?c s1))" if "s1 \<in> {s, sys_kill (pid i) s}" for s1
  proof (cases rule: waitpid_block_cases [of "pid i" "?c s1"])
    case (reaped rs)
    have "reap (pid i) ((?c s1)\<lparr>refusals := rs\<rparr>) = released i (s1\<lparr>refusals := rs\<rparr>)" by (simp add: reap_def released_def)
    then show ?thesis using outcome.dropped [OF assms(3) that, of rs] reaped r [OF that] by simp
  next
    case (interrupted rs)
    have "(?c s1)\<lparr>refusals := rs, forgotten := pid i # forgotten (?c s1)\<rparr> = abandoned i (s1\<lparr>refusals := rs\<rparr>)" by (simp add: abandoned_def)
    then show ?thesis using outcome.interrupted [OF assms(3) that, of rs] interrupted r [OF that] by simp
  qed
  moreover have "sys_kill (pid i) (?c s) = ?c (sys_kill (pid i) s)" by (simp add: sys_kill_def)
  ultimately show "outcome i s (wait_impl (i, s)) \<and> pid (fst (wait_impl (i, s))) = - 1"
    "outcome i s (terminate_impl (i, s)) \<and> pid (fst (terminate_impl (i, s))) = - 1" unfolding e by (simp_all add: e(3))
qed

lemma ending_outcome:
  assumes "impl_ok (Some i)"
  shows "outcome i s (snd (checkRunning (i, s)))" "outcome i s (wait_impl (i, s))" "outcome i s (terminate_impl (i, s))"
  using checkRunning_outcome [OF assms, of s] ending_live [OF assms, of s] outcome_found_ended [of i s]
  by (auto simp: wait_impl_def terminate_impl_def intro: outcome.kept)

section \<open>The invariant\<close>

lemma program_ok_ended:
  assumes "program_ok t0 (ps @ Some i # qs, s)" "pid i \<noteq> - 1" "failures rs \<le> failures (refusals s)"
  shows "program_ok t0 (ps @ Some (closed i) # qs, released i (s\<lparr>refusals := rs\<rparr>))"
    and "Suc (failures rs) \<le> failures (refusals s) \<Longrightarrow> program_ok t0 (ps @ Some (closed i) # qs, abandoned i (s\<lparr>refusals := rs\<rparr>))"
proof -
  let ?r = "nat (fd (input_stream i))" and ?w = "nat (ofd (output_stream i))"
  let ?t = "close_fd ?w (close_fd ?r (table s))"
  have f: "fds (Some i) = [?r, ?w]" "fds (Some (closed i)) = []" "live (Some i) = [pid i]" "live (Some (closed i)) = []"
    and k: "impl_ok (Some (closed i))"
    using assms by (auto simp: program_ok_def impl_ok_def fds_def live_def closed_def gone_def)
  have o: "os_ok (released i (s\<lparr>refusals := rs\<rparr>))" "os_ok (abandoned i (s\<lparr>refusals := rs\<rparr>))" using assms(1)
    by (auto simp: program_ok_def os_ok_def released_def abandoned_def distinct_close_fd distinct_map_filter list_all_iff)
  have e: "filter (\<lambda>e. fst e \<notin> set (owned (ps @ Some (closed i) # qs))) ?t = filter (\<lambda>e. fst e \<notin> set (owned (ps @ Some i # qs))) (table s)"
    by (auto simp: close_fd_def f intro!: filter_cong)
  have t: "fst ` set ?t = fst ` set (table s) - {?r, ?w}" by (auto simp: fst_close_fd)
  have c: "fst ` set (children (released i (s\<lparr>refusals := rs\<rparr>))) = fst ` set (children s) - {pid i}" by (auto simp: released_def)
  have d: "table (released i (s\<lparr>refusals := rs\<rparr>)) = ?t" "signals (released i (s\<lparr>refusals := rs\<rparr>)) = signals s"
    "forgotten (released i (s\<lparr>refusals := rs\<rparr>)) = forgotten s" "debts (released i (s\<lparr>refusals := rs\<rparr>)) \<le> debts s"
    using assms(3) by (simp_all add: released_def debts_def)
  show "program_ok t0 (ps @ Some (closed i) # qs, released i (s\<lparr>refusals := rs\<rparr>))"
    using assms(1) f k o(1) e t c d unfolding program_ok_def by auto
  assume "Suc (failures rs) \<le> failures (refusals s)"
  then have g: "table (abandoned i (s\<lparr>refusals := rs\<rparr>)) = ?t" "signals (abandoned i (s\<lparr>refusals := rs\<rparr>)) = signals s"
    "children (abandoned i (s\<lparr>refusals := rs\<rparr>)) = children s" "forgotten (abandoned i (s\<lparr>refusals := rs\<rparr>)) = pid i # forgotten s"
    "debts (abandoned i (s\<lparr>refusals := rs\<rparr>)) \<le> debts s"
    by (simp_all add: abandoned_def debts_def)
  show "program_ok t0 (ps @ Some (closed i) # qs, abandoned i (s\<lparr>refusals := rs\<rparr>))"
    using assms(1) f k o(2) e t g unfolding program_ok_def by auto
qed

lemma program_ok_outcome:
  assumes "program_ok t0 (ps @ Some i # qs, s)" "outcome i s x"
  shows "program_ok t0 (ps @ Some (fst x) # qs, snd x)"
proof -
  have "program_ok t0 (ps @ Some i # qs, s1)" if "s1 \<in> {s, sys_kill (pid i) s}" "pid i \<noteq> - 1" for s1
  proof -
    have "pid i \<in> fst ` set (children s)" using assms(1) that(2) by (auto simp: program_ok_def live_def)
    then have "program_ok t0 (ps @ Some i # qs, sys_kill (pid i) s)" using assms(1) by (simp add: program_ok_def sys_kill_def os_ok_def debts_def)
    then show ?thesis using assms(1) that(1) by auto
  qed
  moreover have "refusals s1 = refusals s" if "s1 \<in> {s, sys_kill (pid i) s}" for s1 using that by (auto simp: sys_kill_def)
  ultimately have x: "program_ok t0 (ps @ Some i # qs, s1) \<and> refusals s1 = refusals s" if "s1 \<in> {s, sys_kill (pid i) s}" "pid i \<noteq> - 1" for s1
    using that by blast
  show ?thesis using assms(2)
  proof cases
    case (dropped s1 rs)
    then show ?thesis using program_ok_ended(1) [of t0 ps i qs s1 rs] x [of s1] by simp
  next
    case (interrupted s1 rs)
    then show ?thesis using program_ok_ended(2) [of t0 ps i qs s1 rs] x [of s1] by simp
  qed (use assms(1) in simp)
qed

lemma program_ok_start:
  assumes "program_ok t0 (ps, s)" "started s i c s'"
  shows "program_ok t0 (ps @ [Some i], s')"
proof -
  obtain r w where rw: "fd (input_stream i) = int r" "ofd (output_stream i) = int w" "r \<noteq> w" "r \<notin> fst ` set (table s)" "w \<notin> fst ` set (table s)"
    "table s' = (r, \<lparr>refers = Read_end (Suc (pipes_made s)), cloexec = False\<rparr>) # (w, \<lparr>refers = Write_end (pipes_made s), cloexec = False\<rparr>) # table s"
    using assms(2) by (auto simp: started_def)
  have n: "pid i = next_pid s" "process_id i = pid i" "children s' = (pid i, c) # children s" "next_pid s' = next_pid s + 1" "signals s' = signals s"
    "forgotten s' = forgotten s" "debts s' \<le> debts s"
    using assms(2) by (auto simp: started_def)
  have o: "os_ok s" "list_all impl_ok ps" using assms(1) by (simp_all add: program_ok_def)
  have f: "fds (Some i) = [r, w]" "live (Some i) = [pid i]" "impl_ok (Some i)"
    using rw(1,2) n(1,2) o(1) by (auto simp: fds_def live_def impl_ok_def os_ok_def)
  have "next_pid s \<notin> fst ` set (children s)" using o(1) by (auto simp: os_ok_def list_all_iff)
  moreover have "os_ok s'" using o(1) rw(3-6) n by (auto simp: os_ok_def list_all_iff)
  moreover have "filter (\<lambda>e. fst e \<notin> set (owned (ps @ [Some i]))) (table s') = filter (\<lambda>e. fst e \<notin> set (owned ps)) (table s)"
    unfolding rw(6) using rw(4,5) by (auto simp: f image_iff intro!: filter_cong)
  moreover have "fst ` set (table s') = {r, w} \<union> fst ` set (table s)" by (auto simp: rw(6))
  moreover have "fst ` set (children s') = insert (next_pid s) (fst ` set (children s))" by (simp add: n)
  ultimately show ?thesis using assms(1) f n(1,5-7) rw(3-5) unfolding program_ok_def by auto
qed

lemma program_ok_same: "program_ok t0 (ps, s) \<Longrightarrow> same_process s s' \<Longrightarrow> program_ok t0 (ps, s')"
  by (auto simp: program_ok_def same_process_def os_ok_def list_all_iff)

lemma program_ok_left_behind:
  assumes "program_ok t0 (ps, s)" "left_behind s c s'"
  shows "program_ok t0 (ps, s')"
proof -
  have "next_pid s \<notin> fst ` set (children s)" "os_ok s" using assms(1) by (auto simp: program_ok_def os_ok_def list_all_iff)
  moreover from this have "os_ok s'" using assms(2) by (auto simp: left_behind_def os_ok_def list_all_iff)
  ultimately show ?thesis using assms by (auto simp: program_ok_def left_behind_def)
qed

lemma nothing [simp]: "fds None = []" "live None = []" "impl_ok None"
  by (simp_all add: fds_def live_def impl_ok_def)

lemma ended_nothing: "impl_ok (Some i) \<Longrightarrow> pid i = - 1 \<Longrightarrow> fds (Some i) = [] \<and> live (Some i) = []"
  by (simp add: impl_ok_def fds_def live_def)

text \<open>The invariant does not depend on which object holds a process, nor on objects that hold none.\<close>

lemma program_ok_rearranged:
  assumes "program_ok t0 (ps, s)" "list_all impl_ok qs"
    and "set (owned qs) = set (owned ps)" "distinct (owned ps) \<Longrightarrow> distinct (owned qs)"
    and "set (alive qs) = set (alive ps)" "distinct (alive ps) \<Longrightarrow> distinct (alive qs)"
  shows "program_ok t0 (qs, s)"
  using assms by (simp add: program_ok_def)

lemma impl_ok_at: "program_ok t0 (ps @ p # qs, s) \<Longrightarrow> impl_ok p"
  by (simp add: program_ok_def)

lemma program_ok_with:
  assumes "program_ok t0 (ps @ p # qs, s)" "with_impl f (p, s) = (p', s')"
    and "\<And>i. impl_ok (Some i) \<Longrightarrow> outcome i s (f (i, s))"
  shows "program_ok t0 (ps @ p' # qs, s')"
proof (cases p)
  case (Some i)
  with assms(2) obtain i' where "f (i, s) = (i', s')" "p' = Some i'" by (auto simp: with_impl_def split: prod.splits)
  moreover have "outcome i s (f (i, s))" using assms(3) impl_ok_at [OF assms(1)] Some by simp
  ultimately show ?thesis using program_ok_outcome [of t0 ps i qs s "f (i, s)"] assms(1) Some by simp
qed (use assms in \<open>simp add: with_impl_def\<close>)

lemma isRunning_with: "snd (isRunning (p, s)) = with_impl (\<lambda>x. snd (checkRunning x)) (p, s)"
  by (simp add: isRunning_def with_impl_def split: option.splits prod.splits)

lemma release_outcome:
  assumes "impl_ok (Some i)"
  shows "\<exists>i'. outcome i s (i', Process_release (Some i, s)) \<and> pid i' = - 1"
proof -
  have "pid (closed i) = - 1" by (simp add: closed_def gone_def)
  with outcome.kept [of i s] checkRunning_outcome [OF assms, of s] ending_live(2) [OF assms, of s] outcome_found_ended [of i s] show ?thesis
    by (cases "terminate_impl (i, s)") (auto simp: Process_release_def isRunning_def Process_terminate_def with_impl_def)
qed

lemma program_ok_release:
  assumes "program_ok t0 (ps @ p # qs, s)"
  shows "program_ok t0 (ps @ qs, Process_release (p, s))"
proof (cases p)
  case None
  then have "Process_release (p, s) = s" by (simp add: Process_release_def isRunning_def)
  then show ?thesis using program_ok_rearranged [OF assms, of "ps @ qs"] assms None by (auto simp: program_ok_def)
next
  case (Some i)
  then obtain i' where i': "outcome i s (i', Process_release (p, s))" "pid i' = - 1"
    using release_outcome [of i s] impl_ok_at [OF assms] by auto
  then have ok: "program_ok t0 (ps @ Some i' # qs, Process_release (p, s))"
    using program_ok_outcome [of t0 ps i qs s "(i', Process_release (p, s))"] assms Some by simp
  then have "fds (Some i') = [] \<and> live (Some i') = []" using ended_nothing [OF impl_ok_at i'(2)] by blast
  then show ?thesis using program_ok_rearranged [OF ok, of "ps @ qs"] ok by (auto simp: program_ok_def)
qed

lemma program_step_ok: "program_step x y \<Longrightarrow> program_ok t0 x \<Longrightarrow> program_ok t0 y"
proof (induction rule: program_step.induct)
  case (start io executable args s p s' ps)
  obtain r s1 where r: "Impl io executable args s = (r, s1)" by force
  have "os_ok s" using start(2) by (simp add: program_ok_def)
  from Impl_effect [OF this r] start r show ?case
    by (auto simp: Process_start_def intro: program_ok_start split: sum.splits)
next
  case (start_failed io executable args s m s' ps)
  obtain r s1 where r: "Impl io executable args s = (r, s1)" by force
  have "os_ok s" using start_failed(2) by (simp add: program_ok_def)
  from Impl_effect [OF this r] start_failed r show ?case
    by (auto simp: Process_start_def intro: program_ok_same program_ok_left_behind split: sum.splits)
next
  case (asked p s b p' s' ps qs)
  then have "with_impl (\<lambda>x. snd (checkRunning x)) (p, s) = (p', s')" using isRunning_with [of p s] by simp
  with asked(2) show ?case by (rule program_ok_with) (rule ending_outcome)
next
  case (waited p s p' s' ps qs)
  then show ?case unfolding Process_wait_def by (blast intro: program_ok_with ending_outcome)
next
  case (terminated p s p' s' ps qs)
  then show ?case unfolding Process_terminate_def by (blast intro: program_ok_with ending_outcome)
next
  case (moved ps p qs s)
  show ?case by (rule program_ok_rearranged [OF moved]) (use moved in \<open>auto simp: program_ok_def\<close>)
next
  case (assigned p q s p' q' s' ps qs rs)
  then have e: "p' = q" "q' = None" "s' = Process_release (p, s)" by (auto simp: Process_move_assign_def)
  from program_ok_release [OF assigned(2)] have ok: "program_ok t0 (ps @ qs @ q # rs, s')" by (simp add: e)
  show ?case unfolding e(1,2) by (rule program_ok_rearranged [OF ok]) (use ok in \<open>auto simp: program_ok_def\<close>)
next
  case (assigned_back q p s q' p' s' ps qs rs)
  then have e: "q' = p" "p' = None" "s' = Process_release (q, s)" by (auto simp: Process_move_assign_def)
  from program_ok_release [of t0 "ps @ p # qs" q rs s] assigned_back(2) have ok: "program_ok t0 (ps @ p # qs @ rs, s')" by (simp add: e)
  show ?case unfolding e(1,2) by (rule program_ok_rearranged [OF ok]) (use ok in \<open>auto simp: program_ok_def\<close>)
next
  case (destroyed ps p qs s)
  then show ?case by (rule program_ok_release)
next
  case (child_ends ps s i)
  let ?f = "\<lambda>c. c\<lparr>child_table := [], ended := True\<rparr>"
  have m: "map fst (children (update_child i ?f s)) = map fst (children s)"
    unfolding update_child_def by (induction "children s" arbitrary: s) (auto simp: split_def)
  then have "fst ` set (children (update_child i ?f s)) = fst ` set (children s)" by (metis list.set_map)
  moreover have "list_all (\<lambda>(p, c). 0 < p \<and> p < n) cs \<longleftrightarrow> list_all (\<lambda>p. 0 < p \<and> p < n) (map fst cs)" for n and cs :: "(int \<times> child) list"
    by (induction cs) auto
  moreover have "table (update_child i ?f s) = table s" "next_pid (update_child i ?f s) = next_pid s" "signals (update_child i ?f s) = signals s"
    "forgotten (update_child i ?f s) = forgotten s" "refusals (update_child i ?f s) = refusals s"
    by (simp_all add: update_child_def)
  ultimately show ?case using child_ends m by (simp add: program_ok_def os_ok_def debts_def)
qed

lemma program_reach_ok: "program_reach x y \<Longrightarrow> program_ok t0 x \<Longrightarrow> program_ok t0 y"
  by (induction rule: program_reach.induct) (auto intro: program_step_ok)

lemma program_ok_init:
  "distinct (map fst (table s)) \<Longrightarrow> children s = [] \<Longrightarrow> signals s = [] \<Longrightarrow> forgotten s = [] \<Longrightarrow> 0 < next_pid s \<Longrightarrow>
   program_ok (table s, failures (refusals s)) ([], s)"
  by (simp add: program_ok_def os_ok_def debts_def)

lemma owned_alive: "list_all impl_ok ps \<Longrightarrow> length (owned ps) = 2 * length (alive ps)"
proof (induction ps)
  case (Cons p ps)
  then have "length (fds p) = 2 * length (live p)" by (auto simp: impl_ok_def fds_def live_def split: option.splits)
  with Cons show ?case by simp
qed simp

lemma length_owned_part:
  assumes "distinct (map fst t)" "distinct ds" "set ds \<subseteq> fst ` set t"
  shows "length t = length (filter (\<lambda>e. fst e \<notin> set ds) t) + length ds"
proof -
  have "length (filter (\<lambda>e. fst e \<in> set ds) t) = card (set (map fst (filter (\<lambda>e. fst e \<in> set ds) t)))"
    using distinct_card [OF distinct_map_filter [OF assms(1)]] by simp
  also have "set (map fst (filter (\<lambda>e. fst e \<in> set ds) t)) = set ds" using assms(3) by auto
  finally show ?thesis using sum_length_filter_compl [of "\<lambda>e. fst e \<in> set ds" t] distinct_card [OF assms(2)] by simp
qed

text \<open>C18: Whatever a program does with its process objects (starting, asking, waiting, terminating, moving, assigning and destroying them,
  with any of the calls of \<^verbatim>\<open>pipe\<close>, \<^verbatim>\<open>fork\<close>, \<^verbatim>\<open>read\<close> and the blocking \<^verbatim>\<open>waitpid\<close> failing) while its children end at any time: it has two descriptors
  more than at the beginning for each object with a live process and no others, its old descriptors when there is no such object; the children that are not reaped are
  those of these objects, one each, and those whose \<^verbatim>\<open>waitpid\<close> failed, which no object owns and of which there are at most as
  many as calls have failed; and no signal ever goes to a process that is not a child of the program.\<close>

theorem no_descriptor_or_child_leaks:
  assumes "program_reach ([], s0) (ps, s)"
    and "distinct (map fst (table s0))" "children s0 = []" "signals s0 = []" "forgotten s0 = []" "0 < next_pid s0"
  shows "length (table s) = length (table s0) + 2 * length (alive ps) \<and> (alive ps = [] \<longrightarrow> table s = table s0) \<and>
         distinct (alive ps @ forgotten s) \<and> set (alive ps @ forgotten s) = fst ` set (children s) \<and>
         length (children s) = length (alive ps) + length (forgotten s) \<and>
         length (forgotten s) + failures (refusals s) \<le> failures (refusals s0) \<and>
         list_all snd (signals s)"
proof -
  have ok: "program_ok (table s0, failures (refusals s0)) (ps, s)" by (rule program_reach_ok [OF assms(1) program_ok_init]) (rule assms)+
  then have t: "distinct (map fst (table s))" "distinct (owned ps)" "set (owned ps) \<subseteq> fst ` set (table s)"
    "filter (\<lambda>e. fst e \<notin> set (owned ps)) (table s) = table s0" "list_all impl_ok ps" "distinct (alive ps @ forgotten s)"
    "distinct (map fst (children s))" "set (alive ps @ forgotten s) = fst ` set (children s)" "list_all snd (signals s)"
    "length (forgotten s) + failures (refusals s) \<le> failures (refusals s0)"
    by (auto simp: program_ok_def os_ok_def debts_def)
  have "length (alive ps @ forgotten s) = length (children s)"
    using distinct_card [OF t(6)] distinct_card [OF t(7)] t(8) by simp
  moreover have "length (table s) = length (table s0) + 2 * length (alive ps)"
    using length_owned_part [OF t(1,2,3)] t(4) owned_alive [OF t(5)] by simp
  moreover have "table s = table s0" if "alive ps = []" using owned_alive [OF t(5)] t(4) that by simp
  ultimately show ?thesis using t(6,8-) by simp
qed

lemma start_wiring:
  assumes "os_ok s" "{0, 1} \<subseteq> fst ` set (table s)" "exec_error s executable = None"
    and "Process_start io executable args s = (Inr (Some i), s')"
  shows "\<exists>c. started s i c s' \<and> program c = executable # args \<and>
     file_at (child_table c) = (inherited (table s))(0 \<mapsto> Read_end (pipes_made s), 1 \<mapsto> Write_end (Suc (pipes_made s)))"
proof -
  have "Impl io executable args s = (Inr i, s')" using assms(4) by (auto simp: Process_start_def split: prod.splits sum.splits)
  then show ?thesis
  proof (cases rule: Impl_cases)
    case (spawned inp outp errp s3)
    show ?thesis using spawn_child [OF assms(1) spawned assms(3)] child_descriptors [OF _ assms(2) spawned(1)] assms(1)
      by (auto simp: os_ok_def)
  qed simp
qed

text \<open>C28: A process that starts successfully runs the program with its arguments; its standard input is the pipe whose other end is the output
  stream of the object, its standard output the pipe whose other end is the input stream, and of the descriptors of the
  program it has, beside these two, those that are not closed on execution, at the same numbers; so it holds no end of the three new pipes but the two it needs.\<close>

theorem process_start_wiring:
  assumes "os_ok s" "{0, 1} \<subseteq> fst ` set (table s)" "exec_error s executable = None"
    and "Process_start io executable args s = (Inr (Some i), s')"
  shows "\<exists>c. started s i c s' \<and> program c = executable # args \<and>
     file_at (child_table c) = (inherited (table s))(0 \<mapsto> Read_end (pipes_made s), 1 \<mapsto> Write_end (Suc (pipes_made s)))"
  using assms by (rule start_wiring)

text \<open>The pipes of a process are inherited by the processes that are started later: when the program waits for the first of two processes, or
  terminates it, the second one still holds the writing end of the pipe that is the standard input of the first.\<close>

theorem later_process_inherits_pipes:
  assumes "os_ok s" "{0, 1} \<subseteq> fst ` set (table s)" "exec_error s' executable' = None"
    and "Process_start io executable args s = (Inr (Some i), s')" "Process_start io' executable' args' s' = (Inr (Some j), s'')"
  shows "\<exists>c. file_at (child_table c) (nat (ofd (output_stream i))) = Some (Write_end (pipes_made s)) \<and>
     (pid j, c) \<in> set (children (snd (Process_wait (Some i, s'')))) \<and> (pid j, c) \<in> set (children (snd (Process_terminate (Some i, s''))))"
proof -
  have "Impl io executable args s = (Inr i, s')" using assms(4) by (auto simp: Process_start_def split: prod.splits sum.splits)
  from Impl_effect [OF assms(1) this] obtain c where i: "started s i c s'" by auto
  let ?w = "nat (ofd (output_stream i))"
  have os': "os_ok s'" using i assms(1) by (auto simp: started_def os_ok_def list_all_iff)
  obtain r where r: "r \<noteq> ?w" "?w \<notin> fst ` set (table s)" "table s' = (r, \<lparr>refers = Read_end (Suc (pipes_made s)), cloexec = False\<rparr>) #
      (?w, \<lparr>refers = Write_end (pipes_made s), cloexec = False\<rparr>) # table s"
    using i by (auto simp: started_def)
  have i01: "0 \<in> fst ` set (table s)" "1 \<in> fst ` set (table s)" using assms(2) by blast+
  have w: "inherited (table s') ?w = Some (Write_end (pipes_made s))" "?w \<noteq> 0" "?w \<noteq> 1"
    using r(1) unfolding inherited_def r(3) by (simp, metis r(2) i01(1), metis r(2) i01(2))
  have std: "{0, 1} \<subseteq> fst ` set (table s')" using assms(2) by (auto simp: r(3))
  from start_wiring [OF os' std assms(3,5)] obtain d where d: "started s' j d s''"
    "file_at (child_table d) = (inherited (table s'))(0 \<mapsto> Read_end (pipes_made s'), 1 \<mapsto> Write_end (Suc (pipes_made s')))" by blast
  have "file_at (child_table d) ?w = Some (Write_end (pipes_made s))" using w by (simp add: d(2))
  moreover have "pid j \<noteq> pid i" "(pid j, d) \<in> set (children s'')" using i d(1) by (auto simp: started_def)
  then have "outcome i s'' x \<Longrightarrow> (pid j, d) \<in> set (children (snd x))" for x
    by (auto elim!: outcome.cases simp: released_def abandoned_def sys_kill_def)
  moreover have "impl_ok (Some i)" using i assms(1) by (auto simp: started_def impl_ok_def os_ok_def)
  note ending_outcome [OF this, of s'']
  ultimately show ?thesis by (auto simp: Process_wait_def Process_terminate_def with_impl_def split: prod.splits)
qed

section \<open>A program with a child\<close>

definition sample_os :: "nat list \<Rightarrow> errno option list \<Rightarrow> os" where
  "sample_os ds rs =
     \<lparr>table = map (\<lambda>d. (d, \<lparr>refers = Other_file ''terminal'', cloexec = False\<rparr>)) ds, pipes_made = 0, children = [], next_pid = 100,
      refusals = rs, exec_error = (\<lambda>f. if f = ''missing'' then Some (Errno ''No such file or directory'') else None), signals = [], forgotten = []\<rparr>"

definition sample_io :: pipe_io where
  "sample_io = \<lparr>io_arriving = [], io_rounds = [], io_answers = [], io_sigpipe = SIG_DFL, io_sigpipe_once = False\<rparr>"

definition sample_run :: "(string + process) \<times> os" where
  "sample_run = Process_start sample_io ''server'' [''--stdio''] (sample_os [0, 1, 2] [])"

lemma sample_run_started: "\<exists>i. Process_start sample_io ''server'' [''--stdio''] (sample_os [0, 1, 2] []) = (Inr (Some i), snd sample_run)"
proof -
  have "(case fst sample_run of Inl _ \<Rightarrow> False | Inr p \<Rightarrow> p \<noteq> None) = True" by code_simp
  then obtain i where "fst sample_run = Inr (Some i)" by (auto split: sum.splits)
  then have "sample_run = (Inr (Some i), snd sample_run)" by (metis prod.collapse)
  then show ?thesis by (simp only: sample_run_def) blast
qed

theorem no_descriptor_or_child_leaks_witness:
  "\<exists>p s. program_reach ([], sample_os [0, 1, 2] []) ([p], s) \<and> length (table s) = 3 + 2 * length (alive [p]) \<and> forgotten s = [] \<and>
     length (children s) = length (alive [p]) \<and> list_all snd (signals s)"
proof -
  obtain i where "Process_start sample_io ''server'' [''--stdio''] (sample_os [0, 1, 2] []) = (Inr (Some i), snd sample_run)"
    using sample_run_started by blast
  note a = program_step.start [OF this, of "[]", unfolded append_Nil]
  obtain p s where p: "Process_terminate (Some i, snd sample_run) = (p, s)" by force
  note b = program_step.terminated [OF p, of "[]" "[]", unfolded append_Nil]
  note r = program_reach.step [OF program_reach.step [OF program_reach.init a] b]
  have "distinct (map fst (table (sample_os [0, 1, 2] [])))" "children (sample_os [0, 1, 2] []) = []" "signals (sample_os [0, 1, 2] []) = []"
    "forgotten (sample_os [0, 1, 2] []) = []" "0 < next_pid (sample_os [0, 1, 2] [])" "length (table (sample_os [0, 1, 2] [])) = 3"
    "failures (refusals (sample_os [0, 1, 2] [])) = 0"
    by (simp_all add: sample_os_def)
  with no_descriptor_or_child_leaks [OF r] r show ?thesis by auto
qed

text \<open>
  A signal that arrives while the program waits for a child leaves the child unreaped: the object that was terminated has no identifier
  any more, and nothing will wait for the child again.
\<close>

lemma interrupted_wait_forgets_child:
  "case Process_start sample_io ''server'' [] (sample_os [0, 1, 2] [None, None, None, None, None, Some EINTR]) of
     (Inr p, s) \<Rightarrow> (case Process_terminate (p, s) of (q, s') \<Rightarrow>
       Process_id q = - 1 \<and> map fst (children s') = [100] \<and> forgotten s' = [100] \<and> signals s' = [(100, True)] \<and> length (table s') = 3)
   | (Inl m, s) \<Rightarrow> False"
  by code_simp

lemma sample_os_ok: "os_ok (sample_os [0, 1, 2] rs)" "{0, 1} \<subseteq> fst ` set (table (sample_os [0, 1, 2] rs))"
  "exec_error (sample_os ds rs) ''server'' = None"
  by (simp_all add: os_ok_def sample_os_def)

theorem process_start_wiring_witness:
  "\<exists>i c. started (sample_os [0, 1, 2] []) i c (snd sample_run) \<and> program c = [''server'', ''--stdio''] \<and>
     file_at (child_table c) 0 = Some (Read_end 0) \<and> file_at (child_table c) 1 = Some (Write_end 1)"
proof -
  obtain i where "Process_start sample_io ''server'' [''--stdio''] (sample_os [0, 1, 2] []) = (Inr (Some i), snd sample_run)"
    using sample_run_started by blast
  from process_start_wiring [OF sample_os_ok this] obtain c where c: "started (sample_os [0, 1, 2] []) i c (snd sample_run)"
    "program c = [''server'', ''--stdio'']" "file_at (child_table c) = (inherited (table (sample_os [0, 1, 2] [])))
       (0 \<mapsto> Read_end (pipes_made (sample_os [0, 1, 2] [])), 1 \<mapsto> Write_end (Suc (pipes_made (sample_os [0, 1, 2] []))))"
    by blast
  have "pipes_made (sample_os [0, 1, 2] []) = 0" by (simp add: sample_os_def)
  with c show ?thesis by (intro exI [of _ i] exI [of _ c]) simp
qed

theorem later_process_inherits_pipes_witness:
  "\<exists>i s q c. (q, c) \<in> set (children (snd (Process_wait (Some i, s)))) \<and>
     file_at (child_table c) (nat (ofd (output_stream i))) = Some (Write_end 0)"
proof -
  obtain i where i: "Process_start sample_io ''server'' [''--stdio''] (sample_os [0, 1, 2] []) = (Inr (Some i), snd sample_run)"
    using sample_run_started by blast
  have "(case fst (Process_start sample_io ''server'' [] (snd sample_run)) of Inl _ \<Rightarrow> False | Inr p \<Rightarrow> p \<noteq> None) = True" by code_simp
  then obtain j where "fst (Process_start sample_io ''server'' [] (snd sample_run)) = Inr (Some j)" by (auto split: sum.splits)
  then have j: "Process_start sample_io ''server'' [] (snd sample_run) = (Inr (Some j), snd (Process_start sample_io ''server'' [] (snd sample_run)))"
    by (metis prod.collapse)
  have "Option.is_none (exec_error (snd sample_run) ''server'') = True" by code_simp
  then have "exec_error (snd sample_run) ''server'' = None" by (simp add: Option.is_none_def)
  moreover have "pipes_made (sample_os [0, 1, 2] []) = 0" by (simp add: sample_os_def)
  ultimately obtain c where "file_at (child_table c) (nat (ofd (output_stream i))) = Some (Write_end 0)"
    "(pid j, c) \<in> set (children (snd (Process_wait (Some i, snd (Process_start sample_io ''server'' [] (snd sample_run))))))"
    using later_process_inherits_pipes [OF sample_os_ok(1,2) _ i j] by auto
  then show ?thesis by blast
qed

text \<open>
  A program that runs without a standard input loses that of its child: the pipe gets the number 0, \<^verbatim>\<open>dup2\<close> has nothing to do, and the
  closing that follows closes it.
\<close>

lemma closed_stdin_lost:
  "map (\<lambda>(p, c). (file_at (child_table c) 0, program c)) (children (snd (Process_start sample_io ''server'' [] (sample_os [1, 2] [])))) =
     [(None, [''server''])]"
  by code_simp

text \<open>When the read of the error pipe is interrupted by a signal, the program that could not be started counts as running.\<close>

lemma interrupted_start:
  "(case fst (Process_start sample_io ''missing'' [] (sample_os [0, 1, 2] [])) of Inl m \<Rightarrow> m | Inr _ \<Rightarrow> []) = ''No such file or directory'' \<and>
   (case fst (Process_start sample_io ''missing'' [] (sample_os [0, 1, 2] [None, None, None, None, Some EINTR])) of Inl m \<Rightarrow> 0 | Inr p \<Rightarrow> Process_id p) = 100"
  by code_simp

end
