(* ===== verification/Windows_Process.thy ===== *)
theory Windows_Process
  imports Fd_Stream "HOL-Library.Word"
begin

text \<open>
  Child processes on Windows (\<^verbatim>\<open>jsonrpc/Process.cpp\<close>, the second half): the command line that \<^verbatim>\<open>CreateProcessW\<close> is given, the two pipe
  streams, and the handles that a process object owns.  The answers of the system calls are lists in the state, as in \<^verbatim>\<open>Child_Process\<close>.
\<close>

section \<open>The command line\<close>

type_synonym wide = "16 word list"

definition SPACE :: "16 word" where "SPACE = 32"
definition WTAB :: "16 word" where "WTAB = 9"
definition WLF :: "16 word" where "WLF = 10"
definition WVT :: "16 word" where "WVT = 11"
definition BACKSLASH :: "16 word" where "BACKSLASH = 92"
definition QUOTE :: "16 word" where "QUOTE = 34"

lemmas wide_chars = SPACE_def WTAB_def WLF_def WVT_def BACKSLASH_def QUOTE_def

text \<open>The loop of \<^verbatim>\<open>escapeArg\<close>; its first argument is the number of backslashes just passed.\<close>

fun escape_loop :: "nat \<Rightarrow> wide \<Rightarrow> wide" where
  "escape_loop n [] = replicate (n * 2) BACKSLASH"
| "escape_loop n (c # cs) =
     (if c = BACKSLASH then escape_loop (Suc n) cs
      else if c = QUOTE then replicate (n * 2 + 1) BACKSLASH @ c # escape_loop 0 cs
      else replicate n BACKSLASH @ c # escape_loop 0 cs)"

definition escapeArg :: "wide \<Rightarrow> wide" where
  "escapeArg arg =
     (if list_all (\<lambda>c. c \<notin> {SPACE, WTAB, WLF, WVT, BACKSLASH, QUOTE}) arg then arg
      else QUOTE # escape_loop 0 arg @ [QUOTE])"

text \<open>
  \<^verbatim>\<open>toWide\<close> over the conversion of the system, which is given the text up to its first NUL byte; the terminator that it appends
  is removed.
\<close>

definition toWide :: "(string \<Rightarrow> wide option) \<Rightarrow> string \<Rightarrow> string + wide" where
  "toWide convert v =
     (if v = [] then Inr []
      else (case convert (c_str v) of
              None \<Rightarrow> Inl ''Failed to convert process command line.''
            | Some w \<Rightarrow> Inr w))"

fun command_tail :: "(string \<Rightarrow> wide option) \<Rightarrow> string list \<Rightarrow> string + wide" where
  "command_tail convert [] = Inr []"
| "command_tail convert (a # as) =
     (case toWide convert a of
        Inl e \<Rightarrow> Inl e
      | Inr w \<Rightarrow> (case command_tail convert as of
                    Inl e \<Rightarrow> Inl e
                  | Inr ws \<Rightarrow> Inr (SPACE # escapeArg w @ ws)))"

definition command :: "(string \<Rightarrow> wide option) \<Rightarrow> string \<Rightarrow> string list \<Rightarrow> string + wide" where
  "command convert executable args =
     (case toWide convert executable of
        Inl e \<Rightarrow> Inl e
      | Inr w \<Rightarrow> (case command_tail convert args of Inl e \<Rightarrow> Inl e | Inr ws \<Rightarrow> Inr (escapeArg w @ ws)))"

text \<open>
  The specification: how a program gets its arguments from the rest of the command line, by the documented rules.  Blanks outside
  quotes separate; \<open>2 n\<close> backslashes before a quote are \<open>n\<close> backslashes and the quote opens or closes; \<open>2 n + 1\<close> are \<open>n\<close> and a
  quote that belongs to the argument; other backslashes stand for themselves.
\<close>

fun argv_of :: "bool \<Rightarrow> nat \<Rightarrow> wide option \<Rightarrow> wide \<Rightarrow> wide list" where
  "argv_of q n cur [] =
     (case cur of None \<Rightarrow> if n = 0 then [] else [replicate n BACKSLASH] | Some a \<Rightarrow> [a @ replicate n BACKSLASH])"
| "argv_of q n cur (c # cs) =
     (let a = (case cur of None \<Rightarrow> [] | Some a \<Rightarrow> a) in
      if c = BACKSLASH then argv_of q (Suc n) cur cs
      else if c = QUOTE then
        (if even n then argv_of (\<not> q) 0 (Some (a @ replicate (n div 2) BACKSLASH)) cs
         else argv_of q 0 (Some (a @ replicate (n div 2) BACKSLASH @ [QUOTE])) cs)
      else if (c = SPACE \<or> c = WTAB) \<and> \<not> q then
        (if cur = None \<and> n = 0 then argv_of False 0 None cs
         else (a @ replicate n BACKSLASH) # argv_of False 0 None cs)
      else argv_of q 0 (Some (a @ replicate n BACKSLASH @ [c])) cs)"

text \<open>
  The name of the program is read by a rule of its own: it ends at the first blank outside quotes, quotes are dropped, and a backslash has no
  special meaning.
\<close>

fun program_name :: "bool \<Rightarrow> wide \<Rightarrow> wide \<times> wide" where
  "program_name q [] = ([], [])"
| "program_name q (c # cs) =
     (if c = QUOTE then program_name (\<not> q) cs
      else if (c = SPACE \<or> c = WTAB) \<and> \<not> q then ([], cs)
      else (case program_name q cs of (n, rest) \<Rightarrow> (c # n, rest)))"

definition argv :: "wide \<Rightarrow> wide list" where
  "argv w = (case program_name False w of (n, rest) \<Rightarrow> n # argv_of False 0 None rest)"

lemma distinct_wide: "BACKSLASH \<noteq> QUOTE" "QUOTE \<noteq> BACKSLASH" "SPACE \<noteq> BACKSLASH" "SPACE \<noteq> QUOTE" "QUOTE \<noteq> SPACE" "QUOTE \<noteq> WTAB"
  by (simp_all add: wide_chars)

lemma argv_of_backslashes: "argv_of q n cur (replicate k BACKSLASH @ cs) = argv_of q (n + k) cur cs"
  by (induction k arbitrary: n) (simp_all add: Let_def)

lemma argv_of_escaped:
  "argv_of True 0 (Some a) (escape_loop n cs @ QUOTE # rest) = argv_of False 0 (Some (a @ replicate n BACKSLASH @ cs)) rest"
proof (induction n cs arbitrary: a rule: escape_loop.induct)
  case (1 n)
  then show ?case by (simp add: argv_of_backslashes distinct_wide Let_def)
next
  case (2 n c cs)
  have r: "replicate n BACKSLASH @ BACKSLASH # cs = BACKSLASH # replicate n BACKSLASH @ cs"
    by (metis append_Cons replicate_Suc replicate_app_Cons_same)
  show ?case
  proof (cases "c = BACKSLASH")
    case True
    with 2(1) show ?thesis by (simp add: r)
  next
    case False
    show ?thesis
    proof (cases "c = QUOTE")
      case True
      have "argv_of True 0 (Some a) (replicate (n * 2 + 1) BACKSLASH @ QUOTE # escape_loop 0 cs @ QUOTE # rest) =
          argv_of True 0 (Some (a @ replicate n BACKSLASH @ [QUOTE])) (escape_loop 0 cs @ QUOTE # rest)"
        unfolding argv_of_backslashes by (simp add: distinct_wide Let_def)
      with 2(2) [OF False True] True show ?thesis by (simp add: distinct_wide)
    next
      case q: False
      have "argv_of True 0 (Some a) (replicate n BACKSLASH @ c # escape_loop 0 cs @ QUOTE # rest) =
          argv_of True 0 (Some (a @ replicate n BACKSLASH @ [c])) (escape_loop 0 cs @ QUOTE # rest)"
        unfolding argv_of_backslashes using False q by (simp add: Let_def)
      with 2(3) [OF False q] False q show ?thesis by simp
    qed
  qed
qed

lemma argv_of_plain:
  "list_all (\<lambda>c. c \<notin> {SPACE, WTAB, WLF, WVT, BACKSLASH, QUOTE}) cs \<Longrightarrow> cs \<noteq> [] \<or> cur \<noteq> None \<Longrightarrow>
   argv_of False 0 cur (cs @ rest) = argv_of False 0 (Some ((case cur of None \<Rightarrow> [] | Some a \<Rightarrow> a) @ cs)) rest"
  by (induction cs arbitrary: cur) (auto simp: Let_def split: option.splits)

lemma argv_of_escapeArg: "arg \<noteq> [] \<Longrightarrow> argv_of False 0 None (escapeArg arg @ rest) = argv_of False 0 (Some arg) rest"
  using argv_of_plain [of arg None rest] argv_of_escaped [of "[]" 0 arg rest] by (auto simp: escapeArg_def distinct_wide Let_def)

lemma argv_of_tail:
  "command_tail convert as = Inr w \<Longrightarrow> list_all2 (\<lambda>a x. toWide convert a = Inr x \<and> x \<noteq> []) as xs \<Longrightarrow>
   argv_of False 0 cur w = (case cur of None \<Rightarrow> [] | Some a \<Rightarrow> [a]) @ xs"
proof (induction as arbitrary: w xs cur)
  case (Cons a as)
  then obtain x ys where x: "xs = x # ys" "toWide convert a = Inr x" "x \<noteq> []" "list_all2 (\<lambda>a x. toWide convert a = Inr x \<and> x \<noteq> []) as ys"
    by (auto simp: list_all2_Cons1)
  with Cons.prems(1) obtain w' where w: "command_tail convert as = Inr w'" "w = SPACE # escapeArg x @ w'" by (auto split: sum.splits)
  have "argv_of False 0 None (escapeArg x @ w') = x # ys" using argv_of_escapeArg [OF x(3)] Cons.IH [OF w(1) x(4), of "Some x"] by simp
  then show ?case by (cases cur) (simp_all add: w(2) x(1) distinct_wide Let_def)
qed (auto split: option.splits)

lemma command_tail_succeeds:
  "list_all2 (\<lambda>a x. toWide convert a = Inr x \<and> x \<noteq> []) as xs \<Longrightarrow> \<exists>w. command_tail convert as = Inr w \<and> (w = [] \<or> hd w = SPACE)"
  by (induction rule: list_all2_induct) (auto split: sum.splits)

lemma escape_loop_path:
  "QUOTE \<notin> set cs \<Longrightarrow> (if cs = [] then n = 0 else last cs \<noteq> BACKSLASH) \<Longrightarrow> escape_loop n cs = replicate n BACKSLASH @ cs"
proof (induction n cs rule: escape_loop.induct)
  case (2 n c cs)
  then show ?case by (auto simp: replicate_app_Cons_same [symmetric] split: if_splits)
qed simp

lemma program_name_plain:
  "list_all (\<lambda>c. c \<notin> {QUOTE, SPACE, WTAB}) cs \<Longrightarrow> program_name False (cs @ rest) = (case program_name False rest of (n, r) \<Rightarrow> (cs @ n, r))"
  by (induction cs) (auto split: prod.splits)

lemma program_name_quoted:
  "QUOTE \<notin> set cs \<Longrightarrow> program_name True (cs @ QUOTE # rest) = (case program_name False rest of (n, r) \<Rightarrow> (cs @ n, r))"
  by (induction cs) (auto split: prod.splits)

lemma program_name_escapeArg:
  assumes "QUOTE \<notin> set x" "x = [] \<or> last x \<noteq> BACKSLASH"
  shows "program_name False (escapeArg x @ rest) = (case program_name False rest of (n, r) \<Rightarrow> (x @ n, r))"
proof (cases "list_all (\<lambda>c. c \<notin> {SPACE, WTAB, WLF, WVT, BACKSLASH, QUOTE}) x")
  case True
  then have "list_all (\<lambda>c. c \<notin> {QUOTE, SPACE, WTAB}) x" by (rule list.pred_mono_strong) simp
  with True program_name_plain show ?thesis by (simp add: escapeArg_def)
next
  case False
  have "escape_loop 0 x = x" using escape_loop_path [of x 0] assms by (auto split: if_splits)
  with False program_name_quoted [OF assms(1), of rest] show ?thesis unfolding escapeArg_def by simp
qed

text \<open>C29: On Windows the name of a program and its arguments survive the command line: if all of them can be converted, the name contains no
  quotation mark and does not end in a backslash, and no argument is empty, the command line that \<^verbatim>\<open>CreateProcessW\<close> is given can be
  built, and read back by the documented rules (which differ for the name and for the arguments) it gives exactly the name and the
  arguments, whatever blanks, quotation marks and backslashes the arguments contain.\<close>

theorem command_line_roundtrip:
  assumes "toWide convert executable = Inr x" "QUOTE \<notin> set x" "x = [] \<or> last x \<noteq> BACKSLASH"
    and "list_all2 (\<lambda>a v. toWide convert a = Inr v \<and> v \<noteq> []) args vs"
  shows "\<exists>w. command convert executable args = Inr w \<and> argv w = x # vs"
proof -
  obtain w where w: "command_tail convert args = Inr w" "w = [] \<or> hd w = SPACE" using command_tail_succeeds [OF assms(4)] by blast
  have "program_name False w = ([], tl w) \<and> argv_of False 0 None (tl w) = argv_of False 0 None w"
    using w(2) by (cases w) (auto simp: distinct_wide Let_def)
  then have "argv (escapeArg x @ w) = x # vs"
    using program_name_escapeArg [OF assms(2,3), of w] argv_of_tail [OF w(1) assms(4), of None] by (simp add: argv_def)
  then show ?thesis using assms(1) w(1) by (simp add: command_def)
qed

definition sample_convert :: "string \<Rightarrow> wide option" where
  "sample_convert s = Some (map (\<lambda>c. word_of_nat (byte_of c)) s)"

theorem command_line_roundtrip_witness:
  "\<exists>w. command sample_convert [CHR ''C'', CHR '':'', CHR 0x5C, CHR ''a'', CHR '' '', CHR ''b''] [''a b'', ''x'', [CHR 0x5C, CHR 0x22]] = Inr w \<and>
     argv w = map (map (\<lambda>c. word_of_nat (byte_of c)))
       [[CHR ''C'', CHR '':'', CHR 0x5C, CHR ''a'', CHR '' '', CHR ''b''], ''a b'', ''x'', [CHR 0x5C, CHR 0x22]]"
proof -
  let ?f = "\<lambda>v. map (\<lambda>c. word_of_nat (byte_of c)) v :: wide"
  let ?x = "[CHR ''C'', CHR '':'', CHR 0x5C, CHR ''a'', CHR '' '', CHR ''b'']"
  have x: "toWide sample_convert ?x = Inr (?f ?x)" "QUOTE \<notin> set (?f ?x)" "?f ?x = [] \<or> last (?f ?x) \<noteq> BACKSLASH"
    by (simp_all add: toWide_def sample_convert_def c_str_def byte_of_def wide_chars)
  have "list_all2 (\<lambda>a v. toWide sample_convert a = Inr v \<and> v \<noteq> []) [''a b'', ''x'', [CHR 0x5C, CHR 0x22]]
      (map ?f [''a b'', ''x'', [CHR 0x5C, CHR 0x22]])"
    by (simp add: toWide_def sample_convert_def c_str_def)
  from command_line_roundtrip [OF x this] show ?thesis by simp
qed

text \<open>The trailing backslash of a name that is quoted is doubled, and stays so, since the rule for the name does not halve it.\<close>

lemma trailing_backslash_doubled:
  "argv (escapeArg [65, BACKSLASH]) = [[65, BACKSLASH, BACKSLASH]]"
  by code_simp

text \<open>An empty argument is lost: it is not quoted.\<close>

lemma empty_argument_lost:
  "command_tail convert [[]] = Inr [SPACE]" "argv_of False 0 None [SPACE] = []"
  by (simp_all add: toWide_def escapeArg_def distinct_wide Let_def)

section \<open>The pipe streams\<close>

text \<open>
  \<open>reads\<close> says how much of what has arrived each \<^verbatim>\<open>ReadFile\<close> finds.  The call fails when the other end is closed and everything has been
  read, as it is documented for anonymous pipes.
\<close>

record win_in =
  win_handle :: "nat option"
  win_interrupted :: bool
  win_eof :: bool
  win_bad :: bool
  win_what :: string
  win_arriving :: string
  reads :: "nat list"

definition ReadFile :: "nat \<Rightarrow> win_in \<Rightarrow> string option \<times> win_in" where
  "ReadFile n s =
     (if win_arriving s = [] then (None, s)
      else (let k = min n (case reads s of [] \<Rightarrow> n | r # _ \<Rightarrow> max 1 r) in
            (Some (take k (win_arriving s)), s\<lparr>win_arriving := drop k (win_arriving s), reads := tl (reads s)\<rparr>)))"

text \<open>The count is cast to a \<^verbatim>\<open>DWORD\<close>.\<close>

definition win_read_some :: "nat \<Rightarrow> win_in \<Rightarrow> string \<times> win_in" where
  "win_read_some count s =
     (if count = 0 \<or> win_interrupted s \<or> win_handle s = None then ([], s)
      else (case ReadFile (count mod 2 ^ 32) s of
              (None, s1) \<Rightarrow> ([], s1\<lparr>win_bad := True, win_what := ''Failed to read from process stdout.''\<rparr>)
            | (Some [], s1) \<Rightarrow> ([], s1\<lparr>win_eof := True\<rparr>)
            | (Some bs, s1) \<Rightarrow> (bs, s1)))"

definition win_get :: "win_in \<Rightarrow> char option \<times> win_in" where
  "win_get s = (case win_read_some 1 s of ([c], s1) \<Rightarrow> (Some c, s1) | (_, s1) \<Rightarrow> (None, s1))"

function win_read :: "nat \<Rightarrow> win_in \<Rightarrow> string \<times> win_in" where
  "win_read n s =
     (if n = 0 then ([], s)
      else (case win_read_some n s of
              ([], s1) \<Rightarrow> ([], s1)
            | (b # bs, s1) \<Rightarrow>
                (case win_read (n - length (b # bs)) s1 of (cs, s2) \<Rightarrow> ((b # bs) @ cs, s2))))"
  by pat_completeness auto
termination by (relation "measure fst") auto

declare win_read.simps [simp del]

definition win_close :: "win_in \<Rightarrow> nat option \<times> win_in" where
  "win_close s = (win_handle s, s\<lparr>win_handle := None\<rparr>)"

text \<open>Interrupting also cancels the pending read and closes the handle.\<close>

definition win_interrupt :: "win_in \<Rightarrow> nat option \<times> win_in" where
  "win_interrupt s = win_close (s\<lparr>win_interrupted := True\<rparr>)"

definition win_clear :: "win_in \<Rightarrow> win_in" where
  "win_clear s = s\<lparr>win_interrupted := False, win_eof := False, win_bad := False, win_what := []\<rparr>"

definition win_istream :: "win_in istream" where
  "win_istream =
     \<lparr>is_fail = win_interrupted, is_bad = win_bad, is_eof = (\<lambda>s. win_eof s \<or> win_interrupted s), clear_state = win_clear,
      what = (\<lambda>s. if win_interrupted s then ''Process input stream interrupted.'' else win_what s),
      need_to_clear_the_state = (\<lambda>s. False), interrupt = (\<lambda>s. snd (win_interrupt s)),
      get = win_get, read = win_read, read_some = win_read_some\<rparr>"

lemma ReadFile_bytes:
  "ReadFile n s = (r, s') \<Longrightarrow> (case r of None \<Rightarrow> s' = s \<and> win_arriving s = [] | Some bs \<Rightarrow> win_arriving s = bs @ win_arriving s' \<and> length bs \<le> n)"
  by (auto simp: ReadFile_def Let_def split: if_splits)

lemma win_read_some_bytes:
  assumes "win_read_some n s = (bs, s')"
  shows "win_arriving s = bs @ win_arriving s' \<and> length bs \<le> n"
proof -
  obtain r s1 where r: "ReadFile (n mod 2 ^ 32) s = (r, s1)" by force
  have "n mod 2 ^ 32 \<le> n" by simp
  with ReadFile_bytes [OF r] r assms show ?thesis
    by (auto simp: win_read_some_def split: if_splits list.splits option.splits)
qed

text \<open>At the end of the output of the child the stream reports a failure, and never the end of the input.\<close>

lemma win_end_is_failure:
  assumes "win_handle s \<noteq> None" "\<not> win_interrupted s" "\<not> win_eof s" "win_arriving s = []" "0 < n"
  shows "\<exists>s'. win_read_some n s = ([], s') \<and> is_bad win_istream s' \<and> \<not> is_eof win_istream s'"
  using assms by (auto simp: win_read_some_def ReadFile_def win_istream_def)

record win_out =
  wout_handle :: "nat option"
  wout_bad :: bool
  wout_what :: string
  wout_pipe :: string
  wout_answers :: "nat option list"

text \<open>An answer \<^const>\<open>None\<close> is a \<^verbatim>\<open>WriteFile\<close> that fails.\<close>

fun win_write_loop :: "nat option list \<Rightarrow> string \<Rightarrow> win_out \<Rightarrow> win_out" where
  "win_write_loop as [] s = s\<lparr>wout_answers := as\<rparr>"
| "win_write_loop [] data s = s\<lparr>wout_answers := [], wout_pipe := wout_pipe s @ data\<rparr>"
| "win_write_loop (None # as) data s = s\<lparr>wout_answers := as, wout_bad := True, wout_what := ''Failed to write to process stdin.''\<rparr>"
| "win_write_loop (Some n # as) data s =
     (let written = min n (min (length data) 0x7fffffff) in
      win_write_loop as (drop written data) (s\<lparr>wout_pipe := wout_pipe s @ take written data\<rparr>))"

definition win_write :: "string \<Rightarrow> win_out \<Rightarrow> win_out" where
  "win_write v s = (if wout_handle s = None then s\<lparr>wout_bad := True\<rparr> else win_write_loop (wout_answers s) v s)"

definition win_ostream :: "win_out ostream" where
  "win_ostream =
     \<lparr>os_fail = wout_bad, os_bad = wout_bad, os_eof = (\<lambda>s. False), os_good = (\<lambda>s. \<not> wout_bad s),
      os_clear = (\<lambda>s. s\<lparr>wout_bad := False, wout_what := []\<rparr>), os_what = wout_what,
      os_write = win_write, os_write_number = (\<lambda>i. win_write (to_string_int i)), os_flush = id\<rparr>"

definition win_out_close :: "win_out \<Rightarrow> nat option \<times> win_out" where
  "win_out_close s = (wout_handle s, s\<lparr>wout_handle := None\<rparr>)"

lemma win_write_loop_part:
  "\<exists>x. prefix x v \<and> wout_pipe (win_write_loop as v s) = wout_pipe s @ x \<and> (\<not> wout_bad (win_write_loop as v s) \<longrightarrow> x = v)"
proof (induction as v s rule: win_write_loop.induct)
  case (4 n as d ds s)
  let ?k = "min n (min (length (d # ds)) 0x7fffffff)"
  from 4 [OF refl] obtain x where x: "prefix x (drop ?k (d # ds))"
    "wout_pipe (win_write_loop as (drop ?k (d # ds)) (s\<lparr>wout_pipe := wout_pipe s @ take ?k (d # ds)\<rparr>)) = (wout_pipe s @ take ?k (d # ds)) @ x"
    "\<not> wout_bad (win_write_loop as (drop ?k (d # ds)) (s\<lparr>wout_pipe := wout_pipe s @ take ?k (d # ds)\<rparr>)) \<longrightarrow> x = drop ?k (d # ds)"
    by auto
  have "prefix (take ?k (d # ds) @ x) (d # ds)" using x(1) by (metis append_take_drop_id same_prefix_prefix)
  then show ?case using x(2,3) by (intro exI [of _ "take ?k (d # ds) @ x"]) (simp add: Let_def)
qed auto

text \<open>
  Unlike its POSIX counterpart the stream keeps writing after a failure: what follows a cut message ends up behind the part that was
  written, so that the reader takes it for the rest of the message.
\<close>

lemma win_write_after_failure:
  "wout_pipe (fold (os_write win_ostream) [''abcd'', ''ef''] \<lparr>wout_handle = Some 4, wout_bad = False, wout_what = [], wout_pipe = [], wout_answers = [Some 2, None]\<rparr>) = ''abef''"
  by (simp add: win_ostream_def win_write_def Let_def)

section \<open>Handles\<close>

datatype activity = Active | Exited "32 word"

record wos =
  handles :: "nat list"
  next_handle :: nat
  grants :: "bool list"
  activities :: "(nat \<times> activity) list"

definition granted :: "wos \<Rightarrow> bool \<times> wos" where
  "granted s = (case grants s of [] \<Rightarrow> (True, s) | g # gs \<Rightarrow> (g, s\<lparr>grants := gs\<rparr>))"

definition two_handles :: "wos \<Rightarrow> (nat \<times> nat) \<times> wos" where
  "two_handles s = ((next_handle s, Suc (next_handle s)),
     s\<lparr>next_handle := Suc (Suc (next_handle s)), handles := Suc (next_handle s) # next_handle s # handles s\<rparr>)"

definition CloseHandle :: "nat \<Rightarrow> wos \<Rightarrow> wos" where
  "CloseHandle h s = s\<lparr>handles := filter (\<lambda>x. x \<noteq> h) (handles s)\<rparr>"

definition close_handles :: "nat list \<Rightarrow> wos \<Rightarrow> wos" where
  "close_handles hs s = fold CloseHandle hs s"

definition CreatePipe :: "wos \<Rightarrow> (nat \<times> nat) option \<times> wos" where
  "CreatePipe s = (case granted s of (g, s1) \<Rightarrow> if g then (case two_handles s1 of (p, s2) \<Rightarrow> (Some p, s2)) else (None, s1))"

definition CreateProcessW :: "wide \<Rightarrow> wos \<Rightarrow> (nat \<times> nat) option \<times> wos" where
  "CreateProcessW cmd s =
     (case granted s of (g, s1) \<Rightarrow>
        if g then (case two_handles s1 of (p, s2) \<Rightarrow> (Some p, s2\<lparr>activities := (fst p, Active) # activities s2\<rparr>)) else (None, s1))"

definition STILL_ACTIVE :: "32 word" where
  "STILL_ACTIVE = 259"

definition GetExitCodeProcess :: "nat \<Rightarrow> wos \<Rightarrow> 32 word option" where
  "GetExitCodeProcess h s = map_option (\<lambda>a. case a of Active \<Rightarrow> STILL_ACTIVE | Exited c \<Rightarrow> c) (map_of (activities s) h)"

record win_impl =
  win_input :: win_in
  win_output :: win_out
  win_process_id :: int
  hProcess :: "nat option"

definition win_streams :: "nat \<Rightarrow> nat \<Rightarrow> win_in \<times> win_out \<Rightarrow> win_in \<times> win_out" where
  "win_streams r w io = ((fst io)\<lparr>win_handle := Some r\<rparr>, (snd io)\<lparr>wout_handle := Some w\<rparr>)"

text \<open>\<^verbatim>\<open>Impl::Impl\<close>; \<open>io\<close> is what the streams will do, \<open>i\<close> the identifier that the system gives the process.\<close>

definition win_Impl :: "(string \<Rightarrow> wide option) \<Rightarrow> win_in \<times> win_out \<Rightarrow> int \<Rightarrow> string \<Rightarrow> string list \<Rightarrow> wos \<Rightarrow> (string + win_impl) \<times> wos" where
  "win_Impl convert io i executable args s0 =
    (case command convert executable args of
       Inl e \<Rightarrow> (Inl e, s0)
     | Inr cmd \<Rightarrow> (case CreatePipe s0 of
       (None, s1) \<Rightarrow> (Inl ''Failed to create stdin pipe.'', s1)
     | (Some inp, s1) \<Rightarrow> (case granted s1 of
       (False, s2) \<Rightarrow> (Inl ''Failed to configure stdin pipe.'', close_handles [fst inp, snd inp] s2)
     | (True, s2) \<Rightarrow> (case CreatePipe s2 of
       (None, s3) \<Rightarrow> (Inl ''Failed to create stdout pipe.'', close_handles [fst inp, snd inp] s3)
     | (Some outp, s3) \<Rightarrow> (case granted s3 of
       (False, s4) \<Rightarrow> (Inl ''Failed to configure stdout pipe.'', close_handles [fst inp, snd inp, fst outp, snd outp] s4)
     | (True, s4) \<Rightarrow> (case CreateProcessW cmd s4 of
       (None, s5) \<Rightarrow> (Inl ''Failed to start process.'', close_handles [fst inp, snd inp, fst outp, snd outp] s5)
     | (Some proc, s5) \<Rightarrow>
         (Inr \<lparr>win_input = fst (win_streams (fst outp) (snd inp) io), win_output = snd (win_streams (fst outp) (snd inp) io),
               win_process_id = i, hProcess = Some (fst proc)\<rparr>,
          close_handles [fst inp, snd outp, snd proc] s5)))))))"

definition close_handle_opt :: "nat option \<Rightarrow> wos \<Rightarrow> wos" where
  "close_handle_opt h s = (case h of None \<Rightarrow> s | Some x \<Rightarrow> CloseHandle x s)"

definition win_close_streams :: "win_impl \<times> wos \<Rightarrow> win_impl \<times> wos" where
  "win_close_streams = (\<lambda>(p, s).
     case win_close (win_input p) of (d, i) \<Rightarrow>
     case win_out_close (win_output p) of (e, j) \<Rightarrow>
       (p\<lparr>win_input := i, win_output := j\<rparr>, close_handle_opt e (close_handle_opt d s)))"

definition drop_process :: "win_impl \<times> wos \<Rightarrow> win_impl \<times> wos" where
  "drop_process = (\<lambda>(p, s). (p\<lparr>hProcess := None, win_process_id := - 1\<rparr>, close_handle_opt (hProcess p) s))"

definition win_checkRunning :: "win_impl \<times> wos \<Rightarrow> bool \<times> win_impl \<times> wos" where
  "win_checkRunning = (\<lambda>(p, s).
     case hProcess p of
       None \<Rightarrow> (False, p, s)
     | Some h \<Rightarrow>
         (case GetExitCodeProcess h s of
            None \<Rightarrow> (True, p, s)
          | Some c \<Rightarrow> if c \<noteq> STILL_ACTIVE then (False, win_close_streams (drop_process (p, s))) else (True, p, s)))"

definition win_wait :: "win_impl \<times> wos \<Rightarrow> win_impl \<times> wos" where
  "win_wait ps = (case win_checkRunning ps of (False, qs) \<Rightarrow> qs | (True, qs) \<Rightarrow> drop_process (win_close_streams qs))"

text \<open>\<^verbatim>\<open>TerminateProcess\<close> ends the process with code 0; waiting for it does not change the handles.\<close>

definition TerminateProcess :: "nat option \<Rightarrow> wos \<Rightarrow> wos" where
  "TerminateProcess h s = s\<lparr>activities := map (\<lambda>(k, a). (k, if h = Some k then Exited 0 else a)) (activities s)\<rparr>"

definition win_terminate :: "win_impl \<times> wos \<Rightarrow> win_impl \<times> wos" where
  "win_terminate ps =
     (case win_checkRunning ps of
        (False, qs) \<Rightarrow> qs
      | (True, qs) \<Rightarrow> (case win_close_streams qs of (p, s) \<Rightarrow> drop_process (p, TerminateProcess (hProcess p) s)))"

definition win_exists :: "(int \<Rightarrow> bool) \<Rightarrow> int \<Rightarrow> bool" where
  "win_exists opens i \<longleftrightarrow> opens i"

subsection \<open>Accounting for handles\<close>

definition wos_ok :: "wos \<Rightarrow> bool" where
  "wos_ok s \<longleftrightarrow> list_all (\<lambda>h. h < next_handle s) (handles s)"

lemma closing_handles [simp]:
  "close_handles [] s = s" "close_handles (h # hs) s = close_handles hs (s\<lparr>handles := filter (\<lambda>x. x \<noteq> h) (handles s)\<rparr>)"
  by (simp_all add: close_handles_def CloseHandle_def)

lemma granted_cases:
  obtains g gs where "granted s = (g, s\<lparr>grants := gs\<rparr>)"
proof (cases "grants s")
  case Nil
  then have "s\<lparr>grants := []\<rparr> = s" by simp
  with Nil show ?thesis using that [of True "[]"] by (simp add: granted_def)
qed (simp add: granted_def that)

lemma CreatePipe_cases:
  obtains (none) gs where "CreatePipe s = (None, s\<lparr>grants := gs\<rparr>)"
  | (some) gs where "CreatePipe s = (Some (next_handle s, Suc (next_handle s)), s\<lparr>grants := gs, next_handle := next_handle s + 2,
        handles := Suc (next_handle s) # next_handle s # handles s\<rparr>)"
proof -
  obtain g gs where "granted s = (g, s\<lparr>grants := gs\<rparr>)" by (rule granted_cases)
  then show ?thesis using that by (cases g) (auto simp: CreatePipe_def two_handles_def)
qed

lemma CreateProcess_cases:
  obtains (none) gs where "CreateProcessW cmd s = (None, s\<lparr>grants := gs\<rparr>)"
  | (some) gs where "CreateProcessW cmd s = (Some (next_handle s, Suc (next_handle s)), s\<lparr>grants := gs, next_handle := next_handle s + 2,
        handles := Suc (next_handle s) # next_handle s # handles s, activities := (next_handle s, Active) # activities s\<rparr>)"
proof -
  obtain g gs where "granted s = (g, s\<lparr>grants := gs\<rparr>)" by (rule granted_cases)
  then show ?thesis using that by (cases g) (auto simp: CreateProcessW_def two_handles_def)
qed

lemma fresh_handles:
  assumes "wos_ok s"
  shows "filter (\<lambda>x. x \<noteq> next_handle s + k) (handles s) = handles s" "filter (\<lambda>x. x \<noteq> next_handle s) (handles s) = handles s"
  using assms by (force simp: wos_ok_def list_all_iff filter_id_conv)+

definition win_started :: "wos \<Rightarrow> win_impl \<Rightarrow> wos \<Rightarrow> bool" where
  "win_started s p s' \<longleftrightarrow>
     (let n = next_handle s in
      win_handle (win_input p) = Some (n + 2) \<and> wout_handle (win_output p) = Some (n + 1) \<and> hProcess p = Some (n + 4) \<and>
      handles s' = [n + 4, n + 2, n + 1] @ handles s \<and> list_all (\<lambda>h. h < n) (handles s))"

lemma close_fresh:
  assumes "wos_ok s"
  shows "filter (\<lambda>x. x \<noteq> Suc (next_handle s)) (handles s) = handles s" "filter (\<lambda>x. x \<noteq> Suc (Suc (next_handle s))) (handles s) = handles s"
    "filter (\<lambda>x. x \<noteq> Suc (Suc (Suc (next_handle s)))) (handles s) = handles s"
    "filter (\<lambda>x. x \<noteq> Suc (Suc (Suc (Suc (Suc (next_handle s)))))) (handles s) = handles s"
  using fresh_handles(1) [OF assms, of 1] fresh_handles(1) [OF assms, of 2] fresh_handles(1) [OF assms, of 3] fresh_handles(1) [OF assms, of 5]
  by (simp_all add: numeral_eq_Suc)

lemma win_Impl_effect:
  assumes "wos_ok s" "win_Impl convert io i executable args s = (r, s')"
  shows "case r of Inl m \<Rightarrow> handles s' = handles s | Inr p \<Rightarrow> win_started s p s'"
proof (cases "command convert executable args")
  case (Inr cmd)
  note c = close_fresh [OF assms(1)] fresh_handles(2) [OF assms(1)]
  note d = assms(2) Inr
  show ?thesis
  proof (cases rule: CreatePipe_cases [of s])
    case (some gs)
    let ?s1 = "s\<lparr>grants := gs, next_handle := next_handle s + 2, handles := Suc (next_handle s) # next_handle s # handles s\<rparr>"
    obtain g2 gs2 where g2: "granted ?s1 = (g2, ?s1\<lparr>grants := gs2\<rparr>)" by (rule granted_cases)
    show ?thesis
    proof (cases g2)
      case True
      show ?thesis
      proof (cases rule: CreatePipe_cases [of "?s1\<lparr>grants := gs2\<rparr>"])
        case some2: (some gs3)
        let ?s3 = "?s1\<lparr>grants := gs3, next_handle := next_handle s + 4, handles := Suc (Suc (Suc (next_handle s))) # Suc (Suc (next_handle s)) # handles ?s1\<rparr>"
        have p: "CreatePipe (?s1\<lparr>grants := gs2\<rparr>) = (Some (Suc (Suc (next_handle s)), Suc (Suc (Suc (next_handle s)))), ?s3)" using some2 by (simp add: numeral_eq_Suc)
        obtain g4 gs4 where g4: "granted ?s3 = (g4, ?s3\<lparr>grants := gs4\<rparr>)" by (rule granted_cases)
        show ?thesis
        proof (cases g4)
          case h: True
          show ?thesis
            by (cases rule: CreateProcess_cases [of cmd "?s3\<lparr>grants := gs4\<rparr>"])
              (use assms(1) d some g2 True p g4 h c in \<open>auto simp: win_Impl_def win_started_def win_streams_def Let_def numeral_eq_Suc wos_ok_def simp del: filter_filter\<close>)
        qed (use d some g2 True p g4 c in \<open>auto simp: win_Impl_def simp del: filter_filter\<close>)
      qed (use d some g2 True c in \<open>auto simp: win_Impl_def simp del: filter_filter\<close>)
    qed (use d some g2 c in \<open>auto simp: win_Impl_def simp del: filter_filter\<close>)
  qed (use d in \<open>auto simp: win_Impl_def\<close>)
qed (use assms(2) in \<open>auto simp: win_Impl_def\<close>)

lemma close_three:
  fixes n :: nat
  assumes "list_all (\<lambda>h. h < n) hs"
  shows "filter (\<lambda>x. x \<noteq> n + 1) (filter (\<lambda>x. x \<noteq> n + 2) (filter (\<lambda>x. x \<noteq> n + 4) ([n + 4, n + 2, n + 1] @ hs))) = hs"
    "filter (\<lambda>x. x \<noteq> n + 4) (filter (\<lambda>x. x \<noteq> n + 1) (filter (\<lambda>x. x \<noteq> n + 2) ([n + 4, n + 2, n + 1] @ hs))) = hs"
proof -
  have "filter (\<lambda>x. x \<noteq> n + k) hs = hs" for k using assms by (auto simp: filter_id_conv list_all_iff)
  from this [of 1] this [of 2] this [of 4] show "filter (\<lambda>x. x \<noteq> n + 1) (filter (\<lambda>x. x \<noteq> n + 2) (filter (\<lambda>x. x \<noteq> n + 4) ([n + 4, n + 2, n + 1] @ hs))) = hs"
    "filter (\<lambda>x. x \<noteq> n + 4) (filter (\<lambda>x. x \<noteq> n + 1) (filter (\<lambda>x. x \<noteq> n + 2) ([n + 4, n + 2, n + 1] @ hs))) = hs"
    by (simp_all del: filter_filter)
qed

lemma win_ending:
  assumes "win_started s p s'"
  shows "handles (snd (win_close_streams (drop_process (p, s')))) = handles s" "handles (snd (drop_process (win_close_streams (p, s')))) = handles s"
  using assms close_three [of "next_handle s" "handles s"]
  by (simp_all add: win_started_def Let_def drop_process_def win_close_streams_def win_close_def win_out_close_def close_handle_opt_def CloseHandle_def del: filter_filter)

text \<open>On Windows too a process that fails to start leaves no handle behind, and one that has been waited for or terminated neither.\<close>

lemma win_no_handle_leaks:
  assumes "wos_ok s" "win_Impl convert io i executable args s = (r, s')"
  shows "case r of Inl m \<Rightarrow> handles s' = handles s
         | Inr p \<Rightarrow> handles (snd (win_wait (p, s'))) = handles s \<and> handles (snd (win_terminate (p, s'))) = handles s"
proof (cases r)
  case (Inr p)
  then have p: "win_started s p s'" using win_Impl_effect [OF assms] by simp
  then have h: "hProcess p \<noteq> None" by (auto simp: win_started_def Let_def)
  have t: "handles (snd (drop_process (q, TerminateProcess x u))) = handles (snd (drop_process (q, u)))" for q x u
    by (auto simp: drop_process_def TerminateProcess_def close_handle_opt_def CloseHandle_def split: option.splits)
  show ?thesis using win_ending [OF p] h
    by (cases "win_close_streams (p, s')") (auto simp: Inr win_wait_def win_terminate_def win_checkRunning_def t split: option.splits)
qed (use win_Impl_effect [OF assms] in simp)

text \<open>A process that exits with the code 259 counts as running: the code is the value that means so.\<close>

lemma exit_code_259_counts_as_running:
  "hProcess p = Some h \<Longrightarrow> map_of (activities s) h = Some (Exited 259) \<Longrightarrow> fst (win_checkRunning (p, s))"
  by (simp add: win_checkRunning_def GetExitCodeProcess_def STILL_ACTIVE_def)

end
