(* ===== verification/Network_Stream.thy ===== *)
theory Network_Stream
  imports Fd_Stream Threaded_Queue
begin

text \<open>
  Streams over connections: \<^verbatim>\<open>tcp_stream_wrapper\<close> and \<^verbatim>\<open>tcp_connect_session\<close> of \<^verbatim>\<open>jsonrpc/TcpServer.cpp\<close> and \<^verbatim>\<open>websocket_stream_wrapper\<close> of
  \<^verbatim>\<open>jsonrpc/WebSocketServer.cpp\<close>.  The input side is a queue of bytes that the thread of the connection fills; what that thread does is a
  list of events, some of which happen before a call and others while it waits.  The output side of the TCP session is a queue of pieces of which one is
  being written at a time.
\<close>

section \<open>Input\<close>

datatype net_event = Arrived string | Failed string | Closed

record net_stream =
  net_quit :: bool
  on_request :: "char ThreadedQueue"
  error_message :: string
  socket_open :: bool
  events :: "net_event list"
  pace :: "nat list"

definition net_interrupt :: "net_stream \<Rightarrow> net_stream" where
  "net_interrupt s = s\<lparr>net_quit := True\<rparr>"

text \<open>
  The completion handler of the TCP read; the message callback of the web socket is the same for these events.  No event follows one that
  ends the connection.
\<close>

definition on_event :: "net_event \<Rightarrow> net_stream \<Rightarrow> net_stream" where
  "on_event e s =
     (case e of
        Arrived bs \<Rightarrow> s\<lparr>on_request := EnqueueAll bs False (on_request s)\<rparr>
      | Failed m \<Rightarrow> net_interrupt (s\<lparr>error_message := m\<rparr>)
      | Closed \<Rightarrow> net_interrupt s)"

fun take_events :: "nat \<Rightarrow> net_event list \<Rightarrow> net_stream \<Rightarrow> net_stream" where
  "take_events (Suc k) (e # es) s =
     (if net_quit s then s\<lparr>events := e # es\<rparr> else take_events k es (on_event e s))"
| "take_events _ es s = s\<lparr>events := es\<rparr>"

text \<open>What happens between two calls: as many events as \<open>pace\<close> says.\<close>

definition net_sync :: "net_stream \<Rightarrow> net_stream" where
  "net_sync s = (case pace s of [] \<Rightarrow> s | k # ks \<Rightarrow> take_events k (events s) (s\<lparr>pace := ks\<rparr>))"

text \<open>\<^verbatim>\<open>MultiQueueWaiter::Wait\<close>.  When nothing else happens the other side closes the connection.\<close>

fun net_wait :: "net_event list \<Rightarrow> net_stream \<Rightarrow> bool \<times> net_stream" where
  "net_wait es s =
     (if net_quit s then (True, s\<lparr>events := es\<rparr>)
      else if HasState [on_request s] then (False, s\<lparr>events := es\<rparr>)
      else (case es of
              [] \<Rightarrow> (True, on_event (Failed ''End of file'') (s\<lparr>events := []\<rparr>))
            | e # es' \<Rightarrow> net_wait es' (on_event e s)))"

declare net_wait.simps [simp del]

definition net_get :: "net_stream \<Rightarrow> char option \<times> net_stream" where
  "net_get s =
     (case net_wait (events (net_sync s)) (net_sync s) of
        (True, s1) \<Rightarrow> (None, s1)
      | (False, s1) \<Rightarrow> (case TryDequeue False (on_request s1) of (item, q) \<Rightarrow> (item, s1\<lparr>on_request := q\<rparr>)))"

definition take_some :: "nat \<Rightarrow> net_stream \<Rightarrow> string \<times> net_stream" where
  "take_some n s = (case TryDequeueSome n (on_request s) of (bs, q) \<Rightarrow> (bs, s\<lparr>on_request := q\<rparr>))"

fun get_loop :: "nat \<Rightarrow> net_stream \<Rightarrow> string \<times> net_stream" where
  "get_loop 0 s = ([], s)"
| "get_loop (Suc n) s =
     (case net_get s of
        (None, s1) \<Rightarrow> ([], s1)
      | (Some c, s1) \<Rightarrow> (case get_loop n s1 of (cs, s2) \<Rightarrow> (c # cs, s2)))"

definition net_read :: "nat \<Rightarrow> net_stream \<Rightarrow> string \<times> net_stream" where
  "net_read count s =
     (case take_some count (net_sync s) of
        (bs, s1) \<Rightarrow> (case get_loop (count - length bs) s1 of (cs, s2) \<Rightarrow> (bs @ cs, s2)))"

definition tcp_read_some :: "nat \<Rightarrow> net_stream \<Rightarrow> string \<times> net_stream" where
  "tcp_read_some count s =
     (if count = 0 then ([], s)
      else (case take_some count (net_sync s) of
              ([], s1) \<Rightarrow> (case net_get s1 of
                             (None, s2) \<Rightarrow> ([], s2)
                           | (Some c, s2) \<Rightarrow> (case take_some (count - 1) s2 of (cs, s3) \<Rightarrow> (c # cs, s3)))
            | (bs, s1) \<Rightarrow> (bs, s1)))"

definition tcp_bad :: "net_stream \<Rightarrow> bool" where
  "tcp_bad s \<longleftrightarrow> net_quit s \<or> \<not> socket_open s"

definition tcp_what :: "net_stream \<Rightarrow> string" where
  "tcp_what s = (if error_message s \<noteq> [] then error_message s else if \<not> socket_open s then ''Socket is not open.'' else [])"

definition tcp_istream :: "net_stream istream" where
  "tcp_istream =
     \<lparr>is_fail = tcp_bad, is_bad = tcp_bad, is_eof = tcp_bad, clear_state = id, what = tcp_what,
      need_to_clear_the_state = (\<lambda>s. False), interrupt = net_interrupt, get = net_get, read = net_read, read_some = tcp_read_some\<rparr>"

definition websocket_what :: "net_stream \<Rightarrow> string" where
  "websocket_what s = (if error_message s \<noteq> [] then error_message s else if \<not> socket_open s then ''Socket is not open.'' else [])"

text \<open>The web socket inherits \<^verbatim>\<open>read_some\<close>; it does not ask the socket whether it is open.\<close>

definition websocket_istream :: "net_stream istream" where
  "websocket_istream =
     \<lparr>is_fail = net_quit, is_bad = net_quit, is_eof = net_quit, clear_state = id, what = websocket_what,
      need_to_clear_the_state = (\<lambda>s. False), interrupt = net_interrupt, get = net_get, read = net_read,
      read_some = istream_read_some net_get\<rparr>"

section \<open>Every byte once, in order\<close>

fun arrived :: "net_event list \<Rightarrow> string" where
  "arrived (Arrived bs # es) = bs @ arrived es"
| "arrived _ = []"

definition net_rest :: "net_stream \<Rightarrow> string" where
  "net_rest s = normal_queue (on_request s) @ (if net_quit s then [] else arrived (events s))"

definition queue_fine :: "net_stream \<Rightarrow> bool" where
  "queue_fine s \<longleftrightarrow> priority_queue (on_request s) = [] \<and> queue_ok (on_request s)"

lemma on_event_rest:
  assumes "queue_fine s" "\<not> net_quit s"
  shows "net_rest (on_event e (s\<lparr>events := es\<rparr>)) = normal_queue (on_request s) @ arrived (e # es)" "queue_fine (on_event e s)"
    "events (on_event e s) = events s" "pace (on_event e s) = pace s" "on_event e (s\<lparr>events := es\<rparr>) = (on_event e s)\<lparr>events := es\<rparr>"
  using assms by (auto simp: on_event_def net_rest_def queue_fine_def queue_ok_def EnqueueAll_def net_interrupt_def split: net_event.splits)

lemma take_events_rest:
  "queue_fine s \<Longrightarrow> net_rest (take_events k es s) = net_rest (s\<lparr>events := es\<rparr>) \<and> queue_fine (take_events k es s)"
proof (induction k es s rule: take_events.induct)
  case (1 k e es s)
  show ?case
  proof (cases "net_quit s")
    case False
    note r = on_event_rest [OF 1(2) False, of e]
    from 1(1) [OF False] r(2) have "net_rest (take_events k es (on_event e s)) = net_rest ((on_event e s)\<lparr>events := es\<rparr>)"
      "queue_fine (take_events k es (on_event e s))" by auto
    then show ?thesis using False r(1) [of es] r(5) [of es] by (simp add: net_rest_def)
  qed (use 1(2) in \<open>simp add: queue_fine_def\<close>)
qed (auto simp: queue_fine_def)

lemma net_sync_rest: "queue_fine s \<Longrightarrow> net_rest (net_sync s) = net_rest s \<and> queue_fine (net_sync s)"
  using take_events_rest [of "s\<lparr>pace := tl (pace s)\<rparr>" "hd (pace s)" "events s"]
  by (auto simp: net_sync_def queue_fine_def net_rest_def split: list.splits)

lemma net_wait_rest:
  "queue_fine s \<Longrightarrow> net_wait es s = (b, s') \<Longrightarrow>
   net_rest s' = net_rest (s\<lparr>events := es\<rparr>) \<and> queue_fine s' \<and> (\<not> b \<longrightarrow> \<not> net_quit s' \<and> total_count (on_request s') \<noteq> 0)"
proof (induction es s rule: net_wait.induct)
  case (1 es s)
  show ?case
  proof (cases "net_quit s \<or> HasState [on_request s]")
    case True
    with 1(2,3) show ?thesis by (auto simp: net_wait.simps [of es s] queue_fine_def net_rest_def IsEmpty_def split: if_splits)
  next
    case False
    then have q: "\<not> net_quit s" "\<not> HasState [on_request s]" by simp_all
    note r = on_event_rest [OF 1(2) q(1)]
    show ?thesis
    proof (cases es)
      case Nil
      then have "s' = (on_event (Failed ''End of file'') s)\<lparr>events := []\<rparr>" "b" using 1(3) q r(5) by (auto simp: net_wait.simps [of "[]" s])
      then show ?thesis using r(1) [of "Failed ''End of file''" "[]"] r(2) r(5) q Nil by (simp add: net_rest_def queue_fine_def)
    next
      case (Cons e es')
      then have "net_wait es' (on_event e s) = (b, s')" using 1(3) q by (auto simp: net_wait.simps [of "e # es'" s])
      from 1(1) [OF q Cons r(2) this] show ?thesis using r(1) [of e es'] r(5) [of e es'] q Cons by (simp add: net_rest_def)
    qed
  qed
qed

lemma TryDequeue_rest:
  assumes "queue_fine s" "TryDequeue False (on_request s) = (item, q)"
  shows "net_rest s = (case item of None \<Rightarrow> [] | Some c \<Rightarrow> [c]) @ net_rest (s\<lparr>on_request := q\<rparr>) \<and> queue_fine (s\<lparr>on_request := q\<rparr>) \<and>
    (item = None \<longleftrightarrow> normal_queue (on_request s) = [])"
proof (cases "normal_queue (on_request s)")
  case (Cons c cs)
  with assms show ?thesis by (auto simp: TryDequeue_def pop_normal_def queue_fine_def queue_ok_def net_rest_def)
qed (use assms in \<open>auto simp: TryDequeue_def queue_fine_def net_rest_def\<close>)

lemma take_some_rest:
  assumes "queue_fine s" "take_some n s = (bs, s')"
  shows "net_rest s = bs @ net_rest s' \<and> queue_fine s' \<and> bs = take n (normal_queue (on_request s)) \<and>
    net_quit s' = net_quit s \<and> socket_open s' = socket_open s \<and> events s' = events s"
proof -
  let ?q = "normal_queue (on_request s)"
  have q: "total_count (on_request s) = of_nat (length ?q)" "priority_queue (on_request s) = []"
    using assms(1) by (simp_all add: queue_fine_def queue_ok_def)
  let ?k = "min n (length ?q)" and ?p = "drop n ?q"
  have c: "of_nat (length ?q) - of_nat ?k = (of_nat (length ?p) :: 32 word)"
    using of_nat_diff [of ?k "length ?q", where 'a = "32 word"] by (simp add: min_def)
  have "take ?k ?q = take n ?q" "drop ?k ?q = ?p" by (simp_all add: min_def)
  then have "TryDequeueSome n (on_request s) = (take n ?q, \<lparr>total_count = of_nat (length ?p), priority_queue = [], normal_queue = ?p\<rparr>)"
    unfolding TryDequeueSome_def q move_some_eq Let_def using c by simp
  then have "bs = take n ?q" "s' = s\<lparr>on_request := \<lparr>total_count = of_nat (length ?p), priority_queue = [], normal_queue = ?p\<rparr>\<rparr>"
    using assms(2) by (simp_all add: take_some_def)
  then show ?thesis by (simp add: queue_fine_def queue_ok_def net_rest_def)
qed

lemma net_get_rest:
  assumes "queue_fine s" "net_get s = (r, s')"
  shows "net_rest s = (case r of None \<Rightarrow> [] | Some c \<Rightarrow> [c]) @ net_rest s' \<and> queue_fine s'"
proof -
  obtain b s1 where w: "net_wait (events (net_sync s)) (net_sync s) = (b, s1)" by force
  have y: "net_rest (net_sync s) = net_rest s" "queue_fine (net_sync s)" using net_sync_rest [OF assms(1)] by simp_all
  have "net_rest s1 = net_rest s" "queue_fine s1" using net_wait_rest [OF y(2) w] y(1) by simp_all
  with w assms(2) TryDequeue_rest [of s1] show ?thesis by (cases b) (auto simp: net_get_def split: prod.splits)
qed

lemma get_loop_rest: "queue_fine s \<Longrightarrow> get_loop n s = (bs, s') \<Longrightarrow> net_rest s = bs @ net_rest s' \<and> queue_fine s' \<and> length bs \<le> n"
proof (induction n s arbitrary: bs rule: get_loop.induct)
  case (2 n s)
  obtain r s1 where g: "net_get s = (r, s1)" by force
  note a = net_get_rest [OF 2(2) g]
  show ?case
  proof (cases r)
    case (Some c)
    obtain cs s2 where l: "get_loop n s1 = (cs, s2)" by force
    then have "s2 = s'" "bs = c # cs" using 2(3) g Some by simp_all
    with 2(1) [OF g [symmetric] Some] a l Some show ?thesis by auto
  qed (use 2(3) a g in auto)
qed simp

section \<open>The contract of a byte stream\<close>

text \<open>
  The connection stays open until everything has been read, and less than 4 gigabytes are waiting: the counter of the queue has 32 bits.
\<close>

definition is_arrival :: "net_event \<Rightarrow> bool" where
  "is_arrival e = (case e of Arrived _ \<Rightarrow> True | _ \<Rightarrow> False)"

definition net_ok :: "net_stream \<Rightarrow> bool" where
  "net_ok s \<longleftrightarrow> \<not> net_quit s \<and> socket_open s \<and> queue_fine s \<and> length (net_rest s) < 2 ^ 32 \<and> list_all is_arrival (events s)"

lemma HasState_fine:
  assumes "queue_fine s" "length (normal_queue (on_request s)) < 2 ^ 32"
  shows "HasState [on_request s] \<longleftrightarrow> normal_queue (on_request s) \<noteq> []"
proof -
  have "(of_nat (length (normal_queue (on_request s))) :: 32 word) = 0 \<longleftrightarrow> normal_queue (on_request s) = []"
    using assms(2) by (simp add: word_of_nat_eq_0_iff nat_dvd_not_less) (metis dvd_0_right length_0_conv length_greater_0_conv nat_dvd_not_less)
  then show ?thesis using assms(1) by (simp add: queue_fine_def queue_ok_def IsEmpty_def)
qed

lemma on_arrival:
  assumes "is_arrival e" "\<not> net_quit s"
  shows "\<not> net_quit (on_event e s)" "socket_open (on_event e s) = socket_open s"
  using assms by (auto simp: is_arrival_def on_event_def split: net_event.splits)

lemma take_events_ok: "net_ok (s\<lparr>events := es\<rparr>) \<Longrightarrow> net_ok (take_events k es s)"
proof (induction k es s rule: take_events.induct)
  case (1 k e es s)
  then have f: "queue_fine s" "\<not> net_quit s" "is_arrival e" by (auto simp: net_ok_def queue_fine_def)
  have "net_ok ((on_event e s)\<lparr>events := es\<rparr>)"
    using 1(2) f on_arrival [OF f(3,2)] on_event_rest [OF f(1,2), of e]
    by (auto simp: net_ok_def net_rest_def queue_fine_def)
  then show ?case using 1(1) f(2) by simp
qed simp_all

lemma net_sync_ok: "net_ok s \<Longrightarrow> net_ok (net_sync s)"
  using take_events_ok [where s = "s\<lparr>pace := tl (pace s)\<rparr>" and es = "events s" and k = "hd (pace s)"]
  by (auto simp: net_sync_def net_ok_def queue_fine_def net_rest_def split: list.splits)

lemma net_wait_ok:
  "net_ok (s\<lparr>events := es\<rparr>) \<Longrightarrow> net_wait es s = (b, s') \<Longrightarrow>
   if net_rest (s\<lparr>events := es\<rparr>) = [] then b else \<not> b \<and> net_ok s' \<and> normal_queue (on_request s') \<noteq> []"
proof (induction es s rule: net_wait.induct)
  case (1 es s)
  have f: "queue_fine s" "\<not> net_quit s" and n: "length (normal_queue (on_request s)) < 2 ^ 32"
    using 1(2) by (auto simp: net_ok_def queue_fine_def net_rest_def)
  note h = HasState_fine [OF f(1) n]
  show ?case
  proof (cases "HasState [on_request s]")
    case True
    with h f 1(2,3) show ?thesis by (auto simp: net_wait.simps [of es s] net_rest_def net_ok_def)
  next
    case False
    show ?thesis
    proof (cases es)
      case Nil
      with False h f 1(3) show ?thesis by (auto simp: net_wait.simps [of "[]" s] net_rest_def)
    next
      case (Cons e es')
      have e: "is_arrival e" using 1(2) Cons by (simp add: net_ok_def)
      have w: "net_wait es' (on_event e s) = (b, s')" using 1(3) Cons False f by (auto simp: net_wait.simps [of "e # es'" s])
      note r = on_event_rest [OF f, of e]
      have k: "net_ok ((on_event e s)\<lparr>events := es'\<rparr>)" "net_rest ((on_event e s)\<lparr>events := es'\<rparr>) = net_rest (s\<lparr>events := es\<rparr>)"
        using 1(2) Cons f on_arrival [OF e f(2)] r by (auto simp: net_ok_def net_rest_def queue_fine_def)
      show ?thesis using 1(1) [OF f(2) False Cons k(1) w] k(2) by simp
    qed
  qed
qed

lemma net_get_ok:
  assumes "net_ok s" "net_get s = (r, s')"
  shows "if net_rest s = [] then r = None else r \<noteq> None \<and> net_ok s'"
proof -
  obtain b s1 where w: "net_wait (events (net_sync s)) (net_sync s) = (b, s1)" by force
  have y: "net_ok (net_sync s)" "net_rest (net_sync s) = net_rest s"
    using net_sync_ok [OF assms(1)] net_sync_rest assms(1) by (auto simp: net_ok_def)
  have "(net_sync s)\<lparr>events := events (net_sync s)\<rparr> = net_sync s" by simp
  with net_wait_ok [OF _ w] y have k: "if net_rest s = [] then b else \<not> b \<and> net_ok s1 \<and> normal_queue (on_request s1) \<noteq> []" by simp
  show ?thesis
  proof (cases "net_rest s = []")
    case False
    obtain item q where t: "TryDequeue False (on_request s1) = (item, q)" by force
    have s1: "net_ok s1" "normal_queue (on_request s1) \<noteq> []" "\<not> b" using k False by simp_all
    have "queue_fine s1" using s1(1) by (simp add: net_ok_def)
    note d = TryDequeue_rest [OF this t]
    then show ?thesis using False s1 assms(2) w t by (auto simp: net_get_def net_ok_def split: option.splits)
  qed (use k assms(2) w in \<open>simp add: net_get_def\<close>)
qed

lemma get_loop_ok: "net_ok s \<Longrightarrow> n \<le> length (net_rest s) \<Longrightarrow> get_loop n s = (bs, s') \<Longrightarrow> length bs = n \<and> net_ok s'"
proof (induction n s arbitrary: bs rule: get_loop.induct)
  case (2 n s)
  obtain r s1 where g: "net_get s = (r, s1)" by force
  have ne: "net_rest s \<noteq> []" using 2(3) by auto
  with net_get_ok [OF 2(2) g] obtain c where c: "r = Some c" "net_ok s1" by auto
  have "queue_fine s" using 2(2) by (simp add: net_ok_def)
  from net_get_rest [OF this g] c 2(3) have l: "n \<le> length (net_rest s1)" by simp
  obtain cs s2 where gl: "get_loop n s1 = (cs, s2)" by force
  with 2(4) g c have "s2 = s'" "bs = c # cs" by simp_all
  with 2(1) [OF g [symmetric] c(1,2) l] gl show ?case by auto
qed simp

lemma take_some_ok: "net_ok s \<Longrightarrow> take_some n s = (bs, s') \<Longrightarrow> net_ok s'"
  using take_some_rest [of s n bs s'] by (auto simp: net_ok_def)

lemma net_fine: "net_ok s \<Longrightarrow> queue_fine s"
  by (simp add: net_ok_def)

lemma net_read_all:
  assumes "net_ok s" "n \<le> length (net_rest s)" "net_read n s = (bs, s')"
  shows "bs = take n (net_rest s) \<and> net_rest s' = drop n (net_rest s) \<and> net_ok s'"
proof -
  obtain b1 s1 where t: "take_some n (net_sync s) = (b1, s1)" by force
  obtain b2 s2 where g: "get_loop (n - length b1) s1 = (b2, s2)" by force
  have e: "bs = b1 @ b2" "s' = s2" using assms(3) t g by (simp_all add: net_read_def)
  have y: "net_ok (net_sync s)" "net_rest (net_sync s) = net_rest s"
    using net_sync_ok [OF assms(1)] net_sync_rest [OF net_fine [OF assms(1)]] by simp_all
  have r1: "net_rest s = b1 @ net_rest s1" "length b1 \<le> n" using take_some_rest [OF net_fine [OF y(1)] t] y(2) by simp_all
  have k: "net_ok s1" by (rule take_some_ok [OF y(1) t])
  have "n - length b1 \<le> length (net_rest s1)" using r1 assms(2) by simp
  from get_loop_ok [OF k this g] get_loop_rest [OF net_fine [OF k] g] r1 e show ?thesis by auto
qed

lemma tcp_read_some_laws:
  assumes "net_ok s" "tcp_read_some n s = (bs, s')"
  shows "net_rest s = bs @ net_rest s'" "0 < n \<Longrightarrow> net_rest s \<noteq> [] \<Longrightarrow> bs \<noteq> [] \<and> net_ok s'"
proof -
  obtain b1 s1 where t: "take_some n (net_sync s) = (b1, s1)" by force
  obtain r s2 where g: "net_get s1 = (r, s2)" by force
  obtain b3 s3 where u: "take_some (n - 1) s2 = (b3, s3)" by force
  have y: "net_ok (net_sync s)" "net_rest (net_sync s) = net_rest s"
    using net_sync_ok [OF assms(1)] net_sync_rest [OF net_fine [OF assms(1)]] by simp_all
  have k: "net_ok s1" by (rule take_some_ok [OF y(1) t])
  note a = take_some_rest [OF net_fine [OF y(1)] t] and b = net_get_rest [OF net_fine [OF k] g] and c = net_get_ok [OF k g]
  have d: "net_rest s2 = b3 @ net_rest s3" using take_some_rest [OF _ u] b by simp
  have split: "n = 0 \<and> bs = [] \<and> s' = s \<or> 0 < n \<and> b1 \<noteq> [] \<and> bs = b1 \<and> s' = s1 \<or> 0 < n \<and> b1 = [] \<and> r = None \<and> bs = [] \<and> s' = s2 \<or>
      0 < n \<and> b1 = [] \<and> (\<exists>x. r = Some x \<and> bs = x # b3 \<and> s' = s3)"
    using assms(2) t g u unfolding tcp_read_some_def by (cases b1; cases r; cases "n = 0") auto
  have r1: "net_rest s = b1 @ net_rest s1" using a y(2) by simp
  show "net_rest s = bs @ net_rest s'"
    using split
  proof (elim disjE conjE exE)
    fix x assume x: "b1 = []" "r = Some x" "bs = x # b3" "s' = s3"
    show ?thesis unfolding r1 using b d unfolding x by simp
  qed (use r1 b in simp_all)
  show "bs \<noteq> [] \<and> net_ok s'" if "0 < n" "net_rest s \<noteq> []"
    using split
  proof (elim disjE conjE exE)
    assume "b1 = []" "r = None"
    then show ?thesis using c r1 that(2) by (simp split: if_splits)
  next
    fix x assume x: "b1 = []" "r = Some x" "bs = x # b3" "s' = s3"
    have "net_ok s2" using c r1 that(2) x(1) by (simp split: if_splits)
    then show ?thesis using take_some_ok [OF _ u] x by simp
  qed (use that k in simp_all)
qed

lemma net_get_laws:
  assumes "net_ok s" "istream_read_some net_get n s = (bs, s')"
  shows "net_rest s = bs @ net_rest s'" "0 < n \<Longrightarrow> net_rest s \<noteq> [] \<Longrightarrow> bs \<noteq> [] \<and> net_ok s'"
proof -
  obtain r s1 where g: "net_get s = (r, s1)" by force
  note a = net_get_rest [OF net_fine [OF assms(1)] g] and b = net_get_ok [OF assms(1) g]
  have split: "n = 0 \<and> bs = [] \<and> s' = s \<or> 0 < n \<and> s' = s1 \<and> bs = (case r of None \<Rightarrow> [] | Some c \<Rightarrow> [c])"
    using assms(2) g unfolding istream_read_some_def by (cases r; cases "n = 0") simp_all
  then show "net_rest s = bs @ net_rest s'" using a by (elim disjE conjE) simp_all
  show "bs \<noteq> [] \<and> net_ok s'" if "0 < n" "net_rest s \<noteq> []" using split b that by (elim disjE conjE) (auto split: if_splits)
qed

interpretation tcp: byte_stream tcp_istream net_rest net_ok
proof unfold_locales
  fix s s' bs n
  assume ok: "net_ok s"
  show "fst (read_some tcp_istream n s) = []" if "net_rest s = []"
    using tcp_read_some_laws(1) [OF ok, of n] that by (cases "tcp_read_some n s") (simp add: tcp_istream_def)
  show "bs \<noteq> [] \<and> net_rest s = bs @ net_rest s' \<and> net_ok s'"
    if "net_rest s \<noteq> []" "0 < n" "read_some tcp_istream n s = (bs, s')"
    using tcp_read_some_laws [OF ok, of n bs s'] that by (simp add: tcp_istream_def)
  show "bs = take n (net_rest s) \<and> net_rest s' = drop n (net_rest s) \<and> net_ok s'"
    if "n \<le> length (net_rest s)" "read tcp_istream n s = (bs, s')"
    using net_read_all [OF ok that(1)] that(2) by (simp add: tcp_istream_def)
qed (simp_all add: tcp_istream_def tcp_bad_def net_ok_def)

interpretation websocket: byte_stream websocket_istream net_rest net_ok
proof unfold_locales
  fix s s' bs n
  assume ok: "net_ok s"
  show "fst (read_some websocket_istream n s) = []" if "net_rest s = []"
    using net_get_laws(1) [OF ok, of n] that by (cases "istream_read_some net_get n s") (simp add: websocket_istream_def)
  show "bs \<noteq> [] \<and> net_rest s = bs @ net_rest s' \<and> net_ok s'"
    if "net_rest s \<noteq> []" "0 < n" "read_some websocket_istream n s = (bs, s')"
    using net_get_laws [OF ok, of n bs s'] that by (simp add: websocket_istream_def)
  show "bs = take n (net_rest s) \<and> net_rest s' = drop n (net_rest s) \<and> net_ok s'"
    if "n \<le> length (net_rest s)" "read websocket_istream n s = (bs, s')"
    using net_read_all [OF ok that(1)] that(2) by (simp add: websocket_istream_def)
qed (simp_all add: websocket_istream_def net_ok_def)

text \<open>
  A connection that has ended is bad at once: what has arrived and has not been read yet is not looked at, even a complete
  message.
\<close>

lemma ended_connection_drops_input:
  assumes "net_quit s" "0 < fuel"
  shows "\<exists>l'. listen fuel P tcp_istream (Some s) c = Some (Some l') \<and> consumer l' = c"
    "\<exists>l'. listen fuel P websocket_istream (Some s) c = Some (Some l') \<and> consumer l' = c"
  using assms by (cases fuel; simp add: listen_def listen_loop.simps [of "Suc _"] reportInputState_def tcp_istream_def websocket_istream_def tcp_bad_def handle_def Let_def)+

section \<open>Output\<close>

text \<open>\<^verbatim>\<open>tcp_stream_wrapper::write\<close>: pieces of at most 1024 bytes, each of them posted to the strand.\<close>

function tcp_pieces :: "string \<Rightarrow> string list" where
  "tcp_pieces c =
     (if c = [] then []
      else if 1024 < length c then take 1024 c # tcp_pieces (drop 1024 c)
      else [c])"
  by pat_completeness auto
termination by (relation "measure length") auto

declare tcp_pieces.simps [simp del]

lemma tcp_pieces_correct: "concat (tcp_pieces c) = c \<and> list_all (\<lambda>p. 0 < length p \<and> length p \<le> 1024) (tcp_pieces c)"
  by (induction c rule: tcp_pieces.induct) (subst (1 2) tcp_pieces.simps, auto)

text \<open>
  \<^verbatim>\<open>do_write\<close> posts a handler to the strand, which runs its handlers one after the other in the order they were posted.  \<open>on_wire\<close> is what the
  socket has taken; the first piece of \<open>write_queue\<close> is being written.
\<close>

record tcp_session =
  posted :: "string list"
  write_queue :: "string list"
  on_wire :: string
  proxy :: net_stream

definition do_write :: "string \<Rightarrow> tcp_session \<Rightarrow> tcp_session" where
  "do_write m s = s\<lparr>posted := posted s @ [m]\<rparr>"

definition tcp_write :: "string \<Rightarrow> tcp_session \<Rightarrow> tcp_session" where
  "tcp_write c s = fold do_write (tcp_pieces c) s"

definition tcp_write_number :: "int \<Rightarrow> tcp_session \<Rightarrow> tcp_session" where
  "tcp_write_number i s = do_write (to_string_int i) s"

text \<open>The posted handler; \<^const>\<open>True\<close> if it starts a write.\<close>

definition run_posted_write :: "tcp_session \<Rightarrow> bool \<times> tcp_session" where
  "run_posted_write s =
     (case posted s of
        [] \<Rightarrow> (False, s)
      | m # ms \<Rightarrow> (write_queue s = [], s\<lparr>posted := ms, write_queue := write_queue s @ [m]\<rparr>))"

text \<open>The completion of a write, successful or after some bytes; \<^const>\<open>True\<close> if it starts the next one.\<close>

definition write_done :: "tcp_session \<Rightarrow> bool \<times> tcp_session" where
  "write_done s =
     (let s1 = s\<lparr>on_wire := on_wire s @ hd (write_queue s), write_queue := tl (write_queue s)\<rparr>
      in (write_queue s1 \<noteq> [], s1))"

definition write_failed :: "nat \<Rightarrow> string \<Rightarrow> tcp_session \<Rightarrow> tcp_session" where
  "write_failed k m s =
     s\<lparr>on_wire := on_wire s @ take k (hd (write_queue s)), proxy := net_interrupt ((proxy s)\<lparr>error_message := m\<rparr>)\<rparr>"

text \<open>
  A session with the writes in flight, the texts that have been written to the stream, and whether a write has failed.  A text is posted
  piece by piece (\<open>pieces\<close>), so that handlers may run before all of it is posted; two threads that wrote at the same time would mix their
  pieces.  The endpoint does not: it writes each frame under its send mutex, which makes \<open>writes\<close> the step of a frame.
\<close>

record tcp_run =
  session :: tcp_session
  in_flight :: nat
  history :: "string list"
  broken :: bool

inductive tcp_step :: "tcp_run \<Rightarrow> tcp_run \<Rightarrow> bool" where
  writes: "tcp_step x (x\<lparr>session := tcp_write c (session x), history := history x @ [c]\<rparr>)"
| pieces: "tcp_step x (x\<lparr>session := do_write m (session x), history := history x @ [m]\<rparr>)"
| numbers: "tcp_step x (x\<lparr>session := tcp_write_number i (session x), history := history x @ [to_string_int i]\<rparr>)"
| posts: "run_posted_write (session x) = (b, s) \<Longrightarrow> tcp_step x (x\<lparr>session := s, in_flight := in_flight x + (if b then 1 else 0)\<rparr>)"
| completes: "0 < in_flight x \<Longrightarrow> write_done (session x) = (b, s) \<Longrightarrow>
    tcp_step x (x\<lparr>session := s, in_flight := in_flight x - 1 + (if b then 1 else 0)\<rparr>)"
| fails: "0 < in_flight x \<Longrightarrow> k \<le> length (hd (write_queue (session x))) \<Longrightarrow>
    tcp_step x (x\<lparr>session := write_failed k m (session x), in_flight := in_flight x - 1, broken := True\<rparr>)"

inductive tcp_reach :: "tcp_run \<Rightarrow> bool" where
  init: "tcp_reach \<lparr>session = \<lparr>posted = [], write_queue = [], on_wire = [], proxy = p\<rparr>, in_flight = 0, history = [], broken = False\<rparr>"
| step: "tcp_reach x \<Longrightarrow> tcp_step x y \<Longrightarrow> tcp_reach y"

definition tcp_ok :: "tcp_run \<Rightarrow> bool" where
  "tcp_ok x \<longleftrightarrow>
     (let s = session x; w = concat (write_queue s) in
      (if broken x then in_flight x = 0 \<and> write_queue s \<noteq> [] \<and>
         (\<exists>u k. on_wire s = u @ take k (hd (write_queue s)) \<and> concat (history x) = u @ w @ concat (posted s))
       else in_flight x = (if write_queue s = [] then 0 else 1) \<and> concat (history x) = on_wire s @ w @ concat (posted s)))"

lemma tcp_write_posted: "tcp_write c s = s\<lparr>posted := posted s @ tcp_pieces c\<rparr>"
proof -
  have "fold do_write ms s = s\<lparr>posted := posted s @ ms\<rparr>" for ms by (induction ms arbitrary: s) (simp_all add: do_write_def)
  then show ?thesis by (simp add: tcp_write_def)
qed

lemma tcp_step_ok: "tcp_step x y \<Longrightarrow> tcp_ok x \<Longrightarrow> tcp_ok y"
proof (induction rule: tcp_step.induct)
  case (writes x c)
  then show ?case using tcp_pieces_correct [of c] by (auto simp: tcp_ok_def tcp_write_posted Let_def)
next
  case (pieces x m)
  then show ?case by (auto simp: tcp_ok_def do_write_def Let_def)
next
  case (numbers x i)
  then show ?case by (auto simp: tcp_ok_def tcp_write_number_def do_write_def Let_def)
next
  case (posts x b s)
  then show ?case
    by (cases "write_queue (session x)") (auto simp: tcp_ok_def run_posted_write_def Let_def split: list.splits if_splits)
next
  case (completes x b s)
  then have "\<not> broken x" by (auto simp: tcp_ok_def Let_def)
  with completes show ?case
    by (cases "write_queue (session x)") (auto simp: tcp_ok_def write_done_def Let_def split: if_splits)
next
  case (fails x k m)
  then have "\<not> broken x" by (auto simp: tcp_ok_def Let_def)
  with fails show ?case by (auto simp: tcp_ok_def write_failed_def Let_def split: if_splits)
qed

lemma tcp_reach_ok: "tcp_reach x \<Longrightarrow> tcp_ok x"
proof (induction rule: tcp_reach.induct)
  case (init p)
  show ?case by (simp add: tcp_ok_def)
qed (rule tcp_step_ok)

text \<open>C27: However writes to a TCP session, the handlers that the strand runs and the completions of the socket interleave, at most one write is in
  flight, and what the socket has taken is the first part of everything that was written, in order; while no write has failed, a session without a write in flight and
  without handlers to run has sent all of it.\<close>

theorem tcp_output_in_order:
  assumes "tcp_reach x"
  shows "in_flight x \<le> 1 \<and> prefix (on_wire (session x)) (concat (history x)) \<and>
    (\<not> broken x \<and> in_flight x = 0 \<and> posted (session x) = [] \<longrightarrow> on_wire (session x) = concat (history x))"
proof (cases "broken x")
  case True
  with tcp_reach_ok [OF assms] obtain u k where u: "in_flight x = 0" "write_queue (session x) \<noteq> []" "on_wire (session x) = u @ take k (hd (write_queue (session x)))"
    "concat (history x) = u @ concat (write_queue (session x)) @ concat (posted (session x))" by (auto simp: tcp_ok_def Let_def)
  have "prefix (take k (hd (write_queue (session x)))) (concat (write_queue (session x)))"
    using u(2) by (cases "write_queue (session x)") (auto intro: prefix_order.trans [OF take_is_prefix])
  then show ?thesis using u True by (auto simp: prefix_def)
qed (use tcp_reach_ok [OF assms] in \<open>auto simp: tcp_ok_def Let_def split: if_splits\<close>)

definition sample_net :: "net_event list \<Rightarrow> net_stream" where
  "sample_net es = \<lparr>net_quit = False, on_request = empty_ThreadedQueue, error_message = [], socket_open = True, events = es, pace = [1, 0, 2]\<rparr>"

theorem tcp_output_in_order_witness:
  "\<exists>x. tcp_reach x \<and> history x = [''abc''] \<and> on_wire (session x) = ''abc'' \<and> in_flight x \<le> 1"
proof -
  let ?start = "\<lparr>session = \<lparr>posted = [], write_queue = [], on_wire = [], proxy = sample_net []\<rparr>, in_flight = 0, history = [], broken = False\<rparr>"
  let ?s1 = "\<lparr>posted = [''abc''], write_queue = [], on_wire = [], proxy = sample_net []\<rparr>"
  let ?s2 = "\<lparr>posted = [], write_queue = [''abc''], on_wire = [], proxy = sample_net []\<rparr>"
  let ?s3 = "\<lparr>posted = [], write_queue = [], on_wire = ''abc'', proxy = sample_net []\<rparr>"
  let ?x = "\<lambda>s n. \<lparr>session = s, in_flight = n, history = [''abc''], broken = False\<rparr>"
  have "tcp_step ?start (?x ?s1 0)" using tcp_step.writes [of ?start "''abc''"] by (simp add: tcp_write_posted tcp_pieces.simps)
  moreover have "tcp_step (?x ?s1 0) (?x ?s2 1)" using tcp_step.posts [of "?x ?s1 0" True ?s2] by (simp add: run_posted_write_def)
  moreover have "tcp_step (?x ?s2 1) (?x ?s3 0)" using tcp_step.completes [of "?x ?s2 1" False ?s3] by (simp add: write_done_def)
  ultimately have r: "tcp_reach (?x ?s3 0)" using tcp_reach.init [of "sample_net []"] by (blast intro: tcp_reach.step)
  from tcp_output_in_order [OF r] r show ?thesis by (intro exI [of _ "?x ?s3 0"]) simp
qed

section \<open>Output over a web socket\<close>

text \<open>
  \<open>ws_sent\<close> are the texts given to \<^verbatim>\<open>ws_->send\<close>, each of which the library sends as one message.  Writing does not look at the state of the
  connection, and the state that is reported is that of the input.
\<close>

record websocket_wrapper =
  ws_input :: net_stream
  ws_sent :: "string list"

definition websocket_write :: "string \<Rightarrow> websocket_wrapper \<Rightarrow> websocket_wrapper" where
  "websocket_write c s = s\<lparr>ws_sent := ws_sent s @ [c]\<rparr>"

definition websocket_write_number :: "int \<Rightarrow> websocket_wrapper \<Rightarrow> websocket_wrapper" where
  "websocket_write_number i = websocket_write (to_string_int i)"

definition websocket_ostream :: "websocket_wrapper ostream" where
  "websocket_ostream =
     \<lparr>os_fail = net_quit \<circ> ws_input, os_bad = net_quit \<circ> ws_input, os_eof = net_quit \<circ> ws_input, os_good = (\<lambda>s. \<not> net_quit (ws_input s)),
      os_clear = id, os_what = websocket_what \<circ> ws_input,
      os_write = websocket_write, os_write_number = websocket_write_number, os_flush = id\<rparr>"

text \<open>Frames are not cut: each text that is written is one message, and the messages are in the order of the writes.\<close>

lemma websocket_one_message_per_write:
  "ws_sent (fold (os_write websocket_ostream) vs s) = ws_sent s @ vs \<and> ws_input (fold (os_write websocket_ostream) vs s) = ws_input s"
  by (induction vs arbitrary: s) (simp_all add: websocket_ostream_def websocket_write_def)

section \<open>Reading messages from a connection\<close>

text \<open>C21: However the bytes of a connection are cut into packets or web socket messages and whenever these arrive, the reading loop of a server over it hands
  over the messages in them one by one, as it does over any other stream, provided that the connection stays open until they have been read.\<close>

theorem network_listen_serves:
  assumes "net_ok s" "list_all valid_item its" "net_rest s = concat (map wire its)" "length its + length (net_rest s) + 1 < fuel"
  shows "(\<exists>l'. listen fuel P tcp_istream (Some s) c = Some (Some l') \<and> (consumer l', issues l') = snd (serve P its c [])) \<and>
         (\<exists>l'. listen fuel P websocket_istream (Some s) c = Some (Some l') \<and> (consumer l', issues l') = snd (serve P its c []))"
  using tcp.listen_serves_generic [OF assms, of P c] websocket.listen_serves_generic [OF assms, of P c] by blast

theorem network_listen_serves_witness:
  "\<exists>l'. listen 100 (collector 0) tcp_istream (Some (sample_net [Arrived (take 7 (WriterMsg ''{}'')), Arrived [], Arrived (drop 7 (WriterMsg ''{}''))])) [] = Some (Some l') \<and>
     (consumer l', issues l') = snd (serve (collector 0) [Frame ''{}''] [] [])"
proof -
  let ?s = "sample_net [Arrived (take 7 (WriterMsg ''{}'')), Arrived [], Arrived (drop 7 (WriterMsg ''{}''))]"
  have r: "net_rest ?s = concat (map wire [Frame ''{}''])" by (simp add: net_rest_def sample_net_def empty_ThreadedQueue_def wire_def)
  have l: "length (WriterMsg ''{}'') < 50" by code_simp
  moreover have "length (net_rest ?s) = length (WriterMsg ''{}'')" unfolding r by (simp add: wire_def)
  ultimately have "net_ok ?s" by (auto simp: net_ok_def queue_fine_def queue_ok_def sample_net_def empty_ThreadedQueue_def is_arrival_def)
  moreover have "list_all valid_item [Frame ''{}'']" by (simp add: valid_item_def INT_MAX_def)
  moreover have "length [Frame ''{}''] + length (net_rest ?s) + 1 < 100" unfolding r using l by (simp add: wire_def)
  ultimately show ?thesis using network_listen_serves [of ?s "[Frame ''{}'']" 100 "collector 0" "[]"] r by blast
qed

end
