(* ===== verification/Network_Server.thy ===== *)
theory Network_Server
  imports Network_Stream Endpoint_Properties
begin

text \<open>
  The servers of \<^verbatim>\<open>jsonrpc/TcpServer.cpp\<close> and \<^verbatim>\<open>jsonrpc/WebSocketServer.cpp\<close>: each serves one connection at a time with one endpoint and replaces the
  connection when another client comes.  The state holds the endpoint as it is modelled in \<^verbatim>\<open>Remote_Endpoint\<close>, all connections in the order they were
  accepted (the last one is the current one), and the state of the acceptor; a step is a completion handler, a call of the program, an event on a
  connection, or any step of the endpoint.  Starting the endpoint waits for the tasks of the old session, so that it is two steps; no stop comes between them, since both
  take the lock of the endpoint.  A handler that has to stop an endpoint with a thread stuck in routing never gets on: the step is not taken.
\<close>

section \<open>State\<close>

record server =
  point :: endpoint
  connections :: "net_stream list"
  connected :: bool
  acceptor_open :: bool
  accepting :: bool
  starting :: bool
  unstarted :: "nat list"
  served :: nat
  work :: bool
  server_log :: "string list"

definition at_last :: "('a \<Rightarrow> 'a) \<Rightarrow> 'a list \<Rightarrow> 'a list" where
  "at_last f xs = (if xs = [] then [] else butlast xs @ [f (last xs)])"

definition close_connection :: "net_stream \<Rightarrow> net_stream" where
  "close_connection c = (net_interrupt c)\<lparr>socket_open := False\<rparr>"

text \<open>
  The first half of \<^verbatim>\<open>startProcessingMessages\<close> on the connection with a given number; \<open>ws\<close> is what its output will answer to writes, and \<open>served\<close> the
  connection that the endpoint was last started on.
\<close>

definition start_on :: "write_answer list \<Rightarrow> nat \<Rightarrow> server \<Rightarrow> server" where
  "start_on ws i s =
     (if working (point s) then s\<lparr>point := startProcessingMessages False ws (point s)\<rparr>
      else s\<lparr>point := open_session False ws (point s), starting := True, served := i\<rparr>)"

definition begin_session :: "write_answer list \<Rightarrow> net_stream \<Rightarrow> server \<Rightarrow> server" where
  "begin_session ws c s =
     start_on ws (length (connections s)) (s\<lparr>connections := connections s @ [c], connected := True\<rparr>)"

section \<open>\<^verbatim>\<open>TcpServer\<close>\<close>

text \<open>The constructor; \<open>bind_error\<close> is what \<^verbatim>\<open>bind\<close> throws, if it does.\<close>

definition make_TcpServer :: "endpoint \<Rightarrow> string \<Rightarrow> string \<Rightarrow> string option \<Rightarrow> server" where
  "make_TcpServer p address port bind_error =
     (let s = \<lparr>point = p, connections = [], connected = False, acceptor_open = True, accepting = False, starting = False, unstarted = [], served = 0, work = True, server_log = []\<rparr> in
      case bind_error of
        Some e \<Rightarrow> s\<lparr>server_log := [''Socket Server  bind failed.'' @ e]\<rparr>
      | None \<Rightarrow> s\<lparr>accepting := True, server_log := [''Socket TcpServer '' @ address @ '' '' @ port @ '' start.'']\<rparr>)"

text \<open>The completion handler of \<^verbatim>\<open>async_accept\<close>, up to the part of the start that waits; \<^const>\<open>None\<close> as the new connection is an error.\<close>

definition drop_previous :: "string \<Rightarrow> server \<Rightarrow> server" where
  "drop_previous peer s =
     (if \<not> connected s then s
      else
        (let s1 = (if connections s \<noteq> [] \<and> socket_open (last (connections s))
                   then s\<lparr>connections := at_last close_connection (connections s),
                          server_log := server_log s @ [''Disconnect previous client '' @ peer]\<rparr>
                   else s)
         in s1\<lparr>point := stop (point s1)\<rparr>))"

definition on_accept :: "write_answer list \<Rightarrow> net_stream option \<Rightarrow> string \<Rightarrow> string \<Rightarrow> server \<Rightarrow> server" where
  "on_accept ws new old_peer peer s =
     (let s0 = s\<lparr>accepting := False\<rparr> in
      if \<not> acceptor_open s0 then s0
      else (case new of
              None \<Rightarrow> s0
            | Some c \<Rightarrow>
                (let s1 = drop_previous old_peer s0;
                     s2 = s1\<lparr>server_log := server_log s1 @ [''New client '' @ peer @ '' connect.'']\<rparr>;
                     s3 = begin_session ws c s2
                 in if starting s3 then s3 else s3\<lparr>accepting := True\<rparr>)))"

text \<open>The rest of the handler: the threads of the endpoint, the first read, and the next accept.\<close>

definition finish_accept :: "server \<Rightarrow> server" where
  "finish_accept s = s\<lparr>point := start_threads (point s), starting := False, accepting := True\<rparr>"

definition do_stop :: "server \<Rightarrow> server" where
  "do_stop s =
     (let s1 = s\<lparr>acceptor_open := False\<rparr>;
          s2 = (if connected s1 then s1\<lparr>connections := at_last close_connection (connections s1)\<rparr> else s1)
      in s2\<lparr>point := stop (point s2)\<rparr>)"

definition TcpServer_stop :: "server \<Rightarrow> server" where
  "TcpServer_stop s = do_stop (s\<lparr>work := False\<rparr>)"

section \<open>\<^verbatim>\<open>WebSocketServer\<close>\<close>

definition make_WebSocketServer :: "endpoint \<Rightarrow> server" where
  "make_WebSocketServer p =
     \<lparr>point = p, connections = [], connected = False, acceptor_open = False, accepting = False, starting = False, unstarted = [], served = 0, work = False, server_log = []\<rparr>"

definition WebSocketServer_run :: "string option \<Rightarrow> server \<Rightarrow> server" where
  "WebSocketServer_run listen_error s =
     (case listen_error of
        Some e \<Rightarrow> s\<lparr>server_log := server_log s @ [e]\<rparr>
      | None \<Rightarrow> s\<lparr>acceptor_open := True, accepting := True\<rparr>)"

text \<open>
  The connection callback; \<^verbatim>\<open>active_stream\<close> is the last connection while \<open>connected\<close> holds.  The part under \<^verbatim>\<open>connection_mutex\<close> is one step.  The call of
  \<^verbatim>\<open>startProcessingMessages\<close> comes after the mutex is free again, so that other callbacks and a stop of the server may come between: \<open>unstarted\<close> holds the connections
  whose callbacks have not made the call yet.
\<close>

definition on_connection :: "net_stream \<Rightarrow> server \<Rightarrow> server" where
  "on_connection c s =
     (let s1 = (if connected s then s\<lparr>connections := at_last net_interrupt (connections s), point := stop (point s)\<rparr> else s)
      in s1\<lparr>connections := connections s1 @ [c], connected := True, unstarted := unstarted s1 @ [length (connections s1)]\<rparr>)"

definition start_connection :: "write_answer list \<Rightarrow> nat \<Rightarrow> server \<Rightarrow> server" where
  "start_connection ws i s = start_on ws i (s\<lparr>unstarted := remove1 i (unstarted s)\<rparr>)"

definition finish_connection :: "server \<Rightarrow> server" where
  "finish_connection s = s\<lparr>point := start_threads (point s), starting := False\<rparr>"

definition WebSocketServer_stop :: "server \<Rightarrow> server" where
  "WebSocketServer_stop s =
     (let s1 = s\<lparr>acceptor_open := False, accepting := False\<rparr>;
          s2 = (if connected s1 then s1\<lparr>connections := at_last net_interrupt (connections s1), connected := False\<rparr> else s1)
      in s2\<lparr>point := stop (point s2)\<rparr>)"

section \<open>Steps\<close>

text \<open>A step of the endpoint that does not start it: only the server does that.\<close>

definition inner_step :: "(LspMessage \<Rightarrow> string) \<Rightarrow> (string \<Rightarrow> (string \<times> nat) + json) \<Rightarrow> endpoint \<Rightarrow> endpoint \<Rightarrow> bool" where
  "inner_step to_json parse_json p p' \<longleftrightarrow> endpoint_step to_json parse_json p p' \<and> (working p' \<longrightarrow> working p)"

inductive tcp_server_step :: "(LspMessage \<Rightarrow> string) \<Rightarrow> (string \<Rightarrow> (string \<times> nat) + json) \<Rightarrow> server \<Rightarrow> server \<Rightarrow> bool" for to_json parse_json where
  accept: "accepting s \<Longrightarrow> pred_option socket_open new \<Longrightarrow> new = None \<or> \<not> routing_stuck (point s) \<Longrightarrow>
    tcp_server_step to_json parse_json s (on_accept ws new old_peer peer s)"
| finish: "starting s \<Longrightarrow> working (point s) \<Longrightarrow> \<not> has_producer_thread (point s) \<Longrightarrow> parsed_tasks (point s) = [] \<Longrightarrow> \<not> routing_stuck (point s) \<Longrightarrow>
    tcp_server_step to_json parse_json s (finish_accept s)"
| stopped: "\<not> starting s \<Longrightarrow> \<not> routing_stuck (point s) \<Longrightarrow> tcp_server_step to_json parse_json s (TcpServer_stop s)"
| event: "i < length (connections s) \<Longrightarrow> tcp_server_step to_json parse_json s (s\<lparr>connections := (connections s)[i := on_event e (connections s ! i)]\<rparr>)"
| inner: "inner_step to_json parse_json (point s) p \<Longrightarrow> tcp_server_step to_json parse_json s (s\<lparr>point := p\<rparr>)"

inductive websocket_step :: "(LspMessage \<Rightarrow> string) \<Rightarrow> (string \<Rightarrow> (string \<times> nat) + json) \<Rightarrow> server \<Rightarrow> server \<Rightarrow> bool" for to_json parse_json where
  run: "websocket_step to_json parse_json s (WebSocketServer_run e s)"
| connect: "accepting s \<Longrightarrow> \<not> starting s \<Longrightarrow> socket_open c \<Longrightarrow> \<not> routing_stuck (point s) \<Longrightarrow>
    websocket_step to_json parse_json s (on_connection c s)"
| start: "i \<in> set (unstarted s) \<Longrightarrow> \<not> starting s \<Longrightarrow> \<not> routing_stuck (point s) \<Longrightarrow> websocket_step to_json parse_json s (start_connection ws i s)"
| finish: "starting s \<Longrightarrow> working (point s) \<Longrightarrow> \<not> has_producer_thread (point s) \<Longrightarrow> parsed_tasks (point s) = [] \<Longrightarrow> \<not> routing_stuck (point s) \<Longrightarrow>
    websocket_step to_json parse_json s (finish_connection s)"
| stopped: "\<not> starting s \<Longrightarrow> \<not> routing_stuck (point s) \<Longrightarrow> websocket_step to_json parse_json s (WebSocketServer_stop s)"
| event: "i < length (connections s) \<Longrightarrow> websocket_step to_json parse_json s (s\<lparr>connections := (connections s)[i := on_event e (connections s ! i)]\<rparr>)"
| inner: "inner_step to_json parse_json (point s) p \<Longrightarrow> websocket_step to_json parse_json s (s\<lparr>point := p\<rparr>)"

section \<open>One connection at a time\<close>

text \<open>
  Both servers keep the same invariant: the connections before the current one are interrupted, as is every one whose socket is closed, and the endpoint is one
  of \<^const>\<open>endpoint_reach\<close>.
\<close>

definition server_ok :: "(LspMessage \<Rightarrow> string) \<Rightarrow> (string \<Rightarrow> (string \<times> nat) + json) \<Rightarrow> server \<Rightarrow> bool" where
  "server_ok to_json parse_json s \<longleftrightarrow>
     endpoint_reach to_json parse_json (point s) \<and> list_all net_quit (butlast (connections s)) \<and>
     list_all (\<lambda>c. socket_open c \<or> net_quit c) (connections s) \<and>
     (if connected s then connections s \<noteq> [] else list_all net_quit (connections s)) \<and>
     (working (point s) \<or> unstarted s \<noteq> [] \<longrightarrow> connections s \<noteq> [])"

lemma server_ok_accepting [simp]: "server_ok to_json parse_json (s\<lparr>accepting := b\<rparr>) = server_ok to_json parse_json s"
  by (simp add: server_ok_def)

lemma butlast_update: "butlast (xs[i := x]) = (if i < length xs - 1 then (butlast xs)[i := x] else butlast xs)"
  by (cases "i < length xs") (auto simp: butlast_conv_take take_update_swap list_update_beyond)

lemma list_all_update: "list_all P xs \<Longrightarrow> (i < length xs \<Longrightarrow> P x) \<Longrightarrow> list_all P (xs[i := x])"
  by (cases "i < length xs") (auto simp: list_all_length nth_list_update)

lemma on_event_quit: "net_quit s \<Longrightarrow> net_quit (on_event e s)"
  by (simp add: on_event_def net_interrupt_def split: net_event.splits)

lemma at_last_Nil [simp]: "at_last f xs = [] \<longleftrightarrow> xs = []"
  by (simp add: at_last_def)

lemma length_at_last [simp]: "length (at_last f xs) = length xs"
  by (cases xs) (simp_all add: at_last_def)

lemma at_last_all: "list_all P (butlast xs) \<Longrightarrow> (\<And>x. P (f x)) \<Longrightarrow> list_all P (at_last f xs)"
  by (simp add: at_last_def)

lemma stop_not_working: "\<not> working (stop p)"
  by (simp add: stop_def)

lemma reach_stop: "endpoint_reach to_json parse_json p \<Longrightarrow> \<not> routing_stuck p \<Longrightarrow> endpoint_reach to_json parse_json (stop p)"
  by (blast intro: endpoint_reach.step endpoint_step.stop)

lemma start_on_ok:
  assumes "server_ok to_json parse_json s" "\<not> routing_stuck (point s)" "connections s \<noteq> []"
  shows "server_ok to_json parse_json (start_on ws i s)"
proof -
  have "endpoint_reach to_json parse_json (point s)" using assms(1) by (simp add: server_ok_def)
  then have "endpoint_reach to_json parse_json (point (start_on ws i s))"
    using assms(2) by (auto simp: start_on_def intro: endpoint_reach.step endpoint_step.start_open endpoint_step.start_again)
  then show ?thesis using assms(1,3) by (auto simp: server_ok_def start_on_def)
qed

text \<open>A new connection, once the ones before it are interrupted.\<close>

lemma new_connection_ok:
  assumes "endpoint_reach to_json parse_json (point s)" "list_all net_quit (connections s)" "socket_open c"
  shows "server_ok to_json parse_json (s\<lparr>connections := connections s @ [c], connected := True, unstarted := us\<rparr>)"
  using assms by (auto simp: server_ok_def list_all_iff)

lemma begin_session_ok:
  assumes "endpoint_reach to_json parse_json (point s)" "list_all net_quit (connections s)" "socket_open c" "\<not> routing_stuck (point s)"
  shows "server_ok to_json parse_json (begin_session ws c s)"
proof -
  have "server_ok to_json parse_json (s\<lparr>connections := connections s @ [c], connected := True\<rparr>)"
    using new_connection_ok [OF assms(1-3), of "unstarted s"] by simp
  then show ?thesis unfolding begin_session_def by (rule start_on_ok) (use assms(4) in simp_all)
qed

lemma event_ok:
  assumes "server_ok to_json parse_json s"
  shows "server_ok to_json parse_json (s\<lparr>connections := (connections s)[i := on_event e (connections s ! i)]\<rparr>)"
proof -
  have q: "net_quit (on_event e (xs ! i))" if "list_all net_quit xs" "i < length xs" for xs
    using that by (simp add: on_event_quit list_all_length)
  have "list_all net_quit (butlast ((connections s)[i := on_event e (connections s ! i)]))"
    using assms q [of "butlast (connections s)"]
    by (auto simp: server_ok_def butlast_update nth_butlast intro!: list_all_update)
  moreover have "socket_open (on_event e c) = socket_open c" for c by (simp add: on_event_def net_interrupt_def split: net_event.splits)
  then have "list_all (\<lambda>c. socket_open c \<or> net_quit c) ((connections s)[i := on_event e (connections s ! i)])"
    using assms on_event_quit by (intro list_all_update) (auto simp: server_ok_def list_all_length)
  ultimately show ?thesis using assms q by (auto simp: server_ok_def intro!: list_all_update)
qed

lemma inner_ok: "server_ok to_json parse_json s \<Longrightarrow> inner_step to_json parse_json (point s) p \<Longrightarrow> server_ok to_json parse_json (s\<lparr>point := p\<rparr>)"
  by (auto simp: server_ok_def inner_step_def intro: endpoint_reach.step)

lemma finish_ok:
  assumes "server_ok to_json parse_json s" "working (point s)" "\<not> has_producer_thread (point s)" "parsed_tasks (point s) = []"
    and "\<not> routing_stuck (point s)"
  shows "server_ok to_json parse_json (finish_accept s)" "server_ok to_json parse_json (finish_connection s)"
proof -
  have "endpoint_reach to_json parse_json (start_threads (point s))"
    using assms by (auto simp: server_ok_def intro: endpoint_reach.step endpoint_step.start_threads)
  then show "server_ok to_json parse_json (finish_accept s)" "server_ok to_json parse_json (finish_connection s)"
    using assms(1,2) by (auto simp: server_ok_def finish_accept_def finish_connection_def)
qed

lemma close_quit [simp]: "net_quit (close_connection c)" "net_quit (net_interrupt c)"
  by (simp_all add: close_connection_def net_interrupt_def)

lemma last_quit:
  assumes "server_ok to_json parse_json s" "connections s \<noteq> []" "\<not> socket_open (last (connections s))"
  shows "list_all net_quit (connections s)"
proof -
  obtain xs x where x: "connections s = xs @ [x]" using assms(2) by (metis rev_exhaust)
  then show ?thesis using assms(1,3) by (simp add: server_ok_def)
qed

lemma stop_stuck [simp]: "routing_stuck (stop p) = routing_stuck p"
  by (simp add: stop_def)

lemma drop_previous_ok:
  assumes "server_ok to_json parse_json s" "\<not> routing_stuck (point s)"
  shows "endpoint_reach to_json parse_json (point (drop_previous peer s)) \<and> \<not> routing_stuck (point (drop_previous peer s)) \<and>
    list_all net_quit (connections (drop_previous peer s))"
proof (cases "connected s")
  case True
  have r: "endpoint_reach to_json parse_json (stop (point s))" "\<not> routing_stuck (point s)" using assms by (simp_all add: server_ok_def reach_stop)
  show ?thesis
  proof (cases "connections s \<noteq> [] \<and> socket_open (last (connections s))")
    case open_last: True
    have "list_all net_quit (at_last close_connection (connections s))" using assms(1) by (intro at_last_all) (auto simp: server_ok_def)
    then show ?thesis using True open_last r by (simp add: drop_previous_def stop_not_working Let_def)
  next
    case False
    then have "list_all net_quit (connections s)" using last_quit [OF assms(1)] by (cases "connections s = []") auto
    then show ?thesis using True False r by (auto simp: drop_previous_def stop_not_working Let_def)
  qed
qed (use assms in \<open>auto simp: drop_previous_def server_ok_def\<close>)

lemma tcp_server_step_ok:
  assumes "server_ok to_json parse_json s" "tcp_server_step to_json parse_json s s'"
  shows "server_ok to_json parse_json s'"
  using assms(2)
proof cases
  case (accept new ws old_peer peer)
  let ?s0 = "s\<lparr>accepting := False\<rparr>"
  have s0: "server_ok to_json parse_json ?s0" using assms(1) by simp
  show ?thesis
  proof (cases new)
    case (Some c)
    have ns: "\<not> routing_stuck (point ?s0)" using accept(4) Some by simp
    have "server_ok to_json parse_json (begin_session ws c ((drop_previous old_peer ?s0)\<lparr>server_log := l\<rparr>))" for l
      using begin_session_ok [of to_json parse_json "(drop_previous old_peer ?s0)\<lparr>server_log := l\<rparr>" c] drop_previous_ok [OF s0 ns, of old_peer] accept(3) Some by simp
    then show ?thesis using s0 by (simp add: accept(1) on_accept_def Some Let_def)
  qed (use s0 in \<open>simp add: accept(1) on_accept_def Let_def\<close>)
next
  case stopped
  have "list_all net_quit (at_last close_connection (connections s))" using assms(1) by (intro at_last_all) (auto simp: server_ok_def)
  then have "list_all net_quit (butlast (at_last close_connection (connections s))) \<and> list_all (\<lambda>c. socket_open c \<or> net_quit c) (at_last close_connection (connections s))"
    by (auto simp: list_all_iff dest: in_set_butlastD)
  then show ?thesis using assms(1) stopped
    by (auto simp: server_ok_def TcpServer_stop_def do_stop_def Let_def reach_stop stop_not_working)
qed (use assms(1) event_ok inner_ok finish_ok in auto)

lemma websocket_step_ok:
  assumes "server_ok to_json parse_json s" "websocket_step to_json parse_json s s'"
  shows "server_ok to_json parse_json s'"
  using assms(2)
proof cases
  case (run e)
  then show ?thesis using assms(1) by (auto simp: server_ok_def WebSocketServer_run_def split: option.splits)
next
  case (connect c)
  let ?s = "if connected s then s\<lparr>connections := at_last net_interrupt (connections s), point := stop (point s)\<rparr> else s"
  have "list_all net_quit (at_last net_interrupt (connections s))" using assms(1) by (intro at_last_all) (auto simp: server_ok_def)
  then have "endpoint_reach to_json parse_json (point ?s)" "list_all net_quit (connections ?s)"
    using assms(1) connect(5) by (auto simp: server_ok_def reach_stop)
  from new_connection_ok [OF this connect(4)] show ?thesis unfolding connect(1) on_connection_def Let_def .
next
  case (start i ws)
  have "server_ok to_json parse_json (s\<lparr>unstarted := remove1 i (unstarted s)\<rparr>)" "connections s \<noteq> []"
    using assms(1) start(2) by (auto simp: server_ok_def)
  then show ?thesis unfolding start(1) start_connection_def by (intro start_on_ok) (use start(4) in simp_all)
next
  case stopped
  have "list_all net_quit (at_last net_interrupt (connections s))" using assms(1) by (intro at_last_all) (auto simp: server_ok_def)
  then have "list_all net_quit (butlast (at_last net_interrupt (connections s))) \<and> list_all net_quit (at_last net_interrupt (connections s)) \<and>
      list_all (\<lambda>c. socket_open c \<or> net_quit c) (at_last net_interrupt (connections s))"
    by (auto simp: list_all_iff dest: in_set_butlastD)
  then show ?thesis using assms(1) stopped
    by (auto simp: server_ok_def WebSocketServer_stop_def Let_def reach_stop stop_not_working)
qed (use assms(1) event_ok inner_ok finish_ok in auto)

text \<open>A run of either server, from a new endpoint.\<close>

inductive server_reach :: "(LspMessage \<Rightarrow> string) \<Rightarrow> (string \<Rightarrow> (string \<times> nat) + json) \<Rightarrow> bool \<Rightarrow> server \<Rightarrow> bool" for to_json parse_json where
  init_tcp: "server_reach to_json parse_json True (make_TcpServer (make_RemoteEndPoint lim parse_cancel h) address port bind_error)"
| init_websocket: "server_reach to_json parse_json False (make_WebSocketServer (make_RemoteEndPoint lim parse_cancel h))"
| step_tcp: "server_reach to_json parse_json True s \<Longrightarrow> tcp_server_step to_json parse_json s s' \<Longrightarrow> server_reach to_json parse_json True s'"
| step_websocket: "server_reach to_json parse_json False s \<Longrightarrow> websocket_step to_json parse_json s s' \<Longrightarrow> server_reach to_json parse_json False s'"

lemma new_not_working: "\<not> working (make_RemoteEndPoint lim parse_cancel h)"
  by (simp add: make_RemoteEndPoint_def Let_def)

lemma server_reach_ok: "server_reach to_json parse_json tcp s \<Longrightarrow> server_ok to_json parse_json s"
proof (induction rule: server_reach.induct)
  case (init_tcp lim parse_cancel h address port bind_error)
  show ?case using endpoint_reach.init new_not_working
    by (auto simp: server_ok_def make_TcpServer_def Let_def split: option.splits)
next
  case (init_websocket lim parse_cancel h)
  show ?case using endpoint_reach.init new_not_working by (auto simp: server_ok_def make_WebSocketServer_def)
qed (auto intro: tcp_server_step_ok websocket_step_ok)

text \<open>C19: Whatever clients connect and disconnect and whatever the endpoint does, a TCP or web socket server serves at most one connection: every
  connection before the last is interrupted, so that nothing more is read from it; its endpoint is always in a state that an endpoint can reach, and
  works only for a connection; stopping the server interrupts every connection and ends the endpoint.\<close>

theorem server_serves_one_connection:
  assumes "server_reach to_json parse_json tcp s"
  shows "list_all net_quit (butlast (connections s)) \<and> endpoint_reach to_json parse_json (point s) \<and> (working (point s) \<longrightarrow> connections s \<noteq> []) \<and>
    (let s' = (if tcp then TcpServer_stop s else WebSocketServer_stop s) in list_all net_quit (connections s') \<and> \<not> working (point s'))"
proof -
  have ok: "server_ok to_json parse_json s" by (rule server_reach_ok [OF assms])
  then have "list_all net_quit (at_last close_connection (connections s))" "list_all net_quit (at_last net_interrupt (connections s))"
    by (auto simp: server_ok_def intro!: at_last_all)
  then show ?thesis using ok
    by (auto simp: server_ok_def TcpServer_stop_def do_stop_def WebSocketServer_stop_def stop_not_working Let_def)
qed

text \<open>
  The callback starts the endpoint after it has released \<^verbatim>\<open>connection_mutex\<close>.  When a second connection comes in between, the endpoint is started on the first one, which is
  interrupted already, and the start for the second is refused: the new client is not served.
\<close>

lemma websocket_start_race:
  fixes c1 c2 :: net_stream
  assumes "accepting s" "\<not> starting s" "\<not> connected s" "connections s = []" "unstarted s = []" "\<not> working (point s)" "\<not> has_producer_thread (point s)"
    and "parsed_tasks (point s) = []" "\<not> routing_stuck (point s)" "socket_open c1" "socket_open c2" "\<not> net_quit c2"
  shows "\<exists>s'. (websocket_step to_json parse_json)\<^sup>*\<^sup>* s s' \<and> working (point s') \<and> has_producer_thread (point s') \<and> unstarted s' = [] \<and>
    served s' = 0 \<and> net_quit (connections s' ! 0) \<and> length (connections s') = 2 \<and> \<not> net_quit (connections s' ! 1)"
proof -
  let ?s1 = "on_connection c1 s"
  let ?s2 = "on_connection c2 ?s1"
  let ?s3 = "start_connection [] 0 ?s2"
  let ?s4 = "finish_connection ?s3"
  let ?s5 = "start_connection [] 1 ?s4"
  have stop: "stop (point s) = point s" using assms(6,7) by (simp add: stop_def)
  have 1: "?s1 = s\<lparr>connections := [c1], connected := True, unstarted := [0]\<rparr>" using assms by (simp add: on_connection_def Let_def)
  have 2: "?s2 = s\<lparr>connections := [net_interrupt c1, c2], connected := True, unstarted := [0, 1]\<rparr>"
    using assms stop by (simp add: 1 on_connection_def at_last_def Let_def)
  let ?p = "open_session False [] (point s)"
  have 3: "?s3 = s\<lparr>connections := [net_interrupt c1, c2], connected := True, unstarted := [1], point := ?p, starting := True, served := 0\<rparr>"
    using assms by (simp add: 2 start_connection_def start_on_def)
  have p: "working ?p" "\<not> has_producer_thread ?p" "parsed_tasks ?p = []" "\<not> routing_stuck ?p"
    using assms by (simp_all add: open_session_def startAsyncCompletionLoop_def Let_def)
  have 4: "working (start_threads ?p)" "has_producer_thread (start_threads ?p)" "\<not> routing_stuck (start_threads ?p)"
    using p by (simp_all add: start_threads_def Let_def)
  have f: "?s4 = s\<lparr>connections := [net_interrupt c1, c2], connected := True, unstarted := [1], point := start_threads ?p, starting := False, served := 0\<rparr>"
    unfolding 3 by (simp add: finish_connection_def)
  have 5: "?s5 = s\<lparr>connections := [net_interrupt c1, c2], connected := True, unstarted := [], point := startProcessingMessages False [] (start_threads ?p),
      starting := False, served := 0\<rparr>"
    unfolding f using 4(1) by (simp add: start_connection_def start_on_def)
  have "websocket_step to_json parse_json s ?s1" by (rule websocket_step.connect) (use assms in simp_all)
  moreover have "websocket_step to_json parse_json ?s1 ?s2" by (rule websocket_step.connect) (use assms in \<open>simp_all add: 1\<close>)
  moreover have "websocket_step to_json parse_json ?s2 ?s3" by (rule websocket_step.start) (use assms in \<open>simp_all add: 2\<close>)
  moreover have "websocket_step to_json parse_json ?s3 ?s4" by (rule websocket_step.finish) (use p in \<open>simp_all add: 3\<close>)
  moreover have "websocket_step to_json parse_json ?s4 ?s5" by (rule websocket_step.start) (use 4 in \<open>simp_all add: f\<close>)
  ultimately have "(websocket_step to_json parse_json)\<^sup>*\<^sup>* s ?s5" by (meson rtranclp.rtrancl_refl rtranclp.rtrancl_into_rtrancl)
  moreover have "working (point ?s5) \<and> has_producer_thread (point ?s5) \<and> unstarted ?s5 = [] \<and> served ?s5 = 0 \<and> net_quit (connections ?s5 ! 0) \<and>
      length (connections ?s5) = 2 \<and> \<not> net_quit (connections ?s5 ! 1)"
    unfolding 5 using 4 assms(12) by (simp add: startProcessingMessages_def log_def net_interrupt_def)
  ultimately show ?thesis by blast
qed

text \<open>
  A failed accept is the last one: the handler does not ask for another connection, although the comment on \<^verbatim>\<open>run\<close> says that an accept is always outstanding.
  The program keeps running without serving anybody.
\<close>

lemma accept_error_is_final:
  assumes "\<not> starting s" "(tcp_server_step to_json parse_json)\<^sup>*\<^sup>* (on_accept ws None old_peer peer s) s'"
  shows "\<not> accepting s' \<and> length (connections s') = length (connections s)"
proof -
  have "\<not> accepting s' \<and> \<not> starting s' \<and> length (connections s') = length (connections s)"
    using assms(2)
  proof (induction rule: rtranclp_induct)
    case base
    show ?case using assms(1) by (simp add: on_accept_def Let_def)
  next
    case (step y z)
    from step(2) show ?case
      by cases (use step(3) in \<open>auto simp: TcpServer_stop_def do_stop_def Let_def\<close>)
  qed
  then show ?thesis by blast
qed

text \<open>A server whose address is in use is constructed all the same, and has no accept outstanding.\<close>

lemma bind_error_is_silent: "\<not> accepting (make_TcpServer p address port (Some e)) \<and> work (make_TcpServer p address port (Some e))"
  by (simp add: make_TcpServer_def Let_def)

theorem server_serves_one_connection_witness:
  "\<exists>s. server_reach sample_json sample_parser True s \<and> length (connections s) = 1 \<and> working (point s) \<and>
     list_all net_quit (connections (TcpServer_stop s)) \<and> \<not> working (point (TcpServer_stop s))"
proof -
  let ?p = "make_RemoteEndPoint default_limits (\<lambda>v. Null) no_handlers"
  let ?s = "make_TcpServer ?p ''127.0.0.1'' ''9333'' None"
  let ?t = "on_accept [] (Some (sample_net [])) [] ''127.0.0.1'' ?s"
  have a: "accepting ?s" "acceptor_open ?s" "\<not> connected ?s" "connections ?s = []" "point ?s = ?p" by (simp_all add: make_TcpServer_def Let_def)
  have "tcp_server_step sample_json sample_parser ?s ?t"
    by (rule tcp_server_step.accept) (use a in \<open>simp_all add: sample_net_def make_RemoteEndPoint_def\<close>)
  with server_reach.init_tcp have r: "server_reach sample_json sample_parser True ?t" by (rule server_reach.step_tcp)
  have "length (connections ?t) = 1" "working (point ?t)"
    using a by (simp_all add: on_accept_def drop_previous_def begin_session_def start_on_def Let_def new_not_working open_session_def startAsyncCompletionLoop_def)
  with server_serves_one_connection [OF r] r show ?thesis by (intro exI [of _ ?t]) (simp add: Let_def)
qed

end
