(* ===== verification/Request_Rounds.thy ===== *)
theory Request_Rounds
  imports Endpoint_Properties
begin

text \<open>
  The way of one request through the whole endpoint, from its text to its answer: the producer thread hands the text over, a worker parses it and submits the result, the
  request is routed and posted, a worker calls its handler, and the outcome of the handler is sent.  Started at rest, the endpoint is at rest again afterwards and has written
  exactly the answer; a sequence of requests is therefore answered one by one.
\<close>

section \<open>The endpoint at rest\<close>

text \<open>It works, nothing waits anywhere, no thread is stuck, every notification has been handled, and the session can be written to.\<close>

definition at_rest :: "endpoint \<Rightarrow> bool" where
  "at_rest s \<longleftrightarrow>
     \<not> quit s \<and> \<not> routing_stuck s \<and> has_pools s \<and> parse_tasks s = [] \<and> parsed_tasks s = [] \<and> handler_tasks s = [] \<and> running_requests s = [] \<and>
     parse_queue_size s = 0 \<and> reorder_buffer (route s) = [] \<and> next_route_sequence (route s) = next_message_sequence s \<and>
     (has_last_ordered_notification (dispatch s) \<longrightarrow> notificationGateSatisfied (last_ordered_notification_seq (dispatch s)) (dispatch s)) \<and>
     session_output_state s < length (output_sessions s) \<and>
     writable (output_sessions s ! session_output_state s) \<and> write_answers (output_sessions s ! session_output_state s) = []"

definition session_output :: "endpoint \<Rightarrow> string" where
  "session_output s = written (output_sessions s ! session_output_state s)"

text \<open>What a round leaves as it is.\<close>

definition same_setup :: "endpoint \<Rightarrow> endpoint \<Rightarrow> bool" where
  "same_setup s s' \<longleftrightarrow>
     limits s' = limits s \<and> json_handler s' = json_handler s \<and> request_handlers s' = request_handlers s \<and> client_requests s' = client_requests s \<and>
     session_output_state s' = session_output_state s"

text \<open>Five steps of \<^const>\<open>endpoint_step\<close>, one after the other; \<open>out\<close> is what the handler does.\<close>

definition serve_request :: "(LspMessage \<Rightarrow> string) \<Rightarrow> (string \<Rightarrow> (string \<times> nat) + json) \<Rightarrow> string \<times> handler_outcome \<Rightarrow> endpoint \<Rightarrow> endpoint" where
  "serve_request to_json parse_json q s =
     (let s1 = snd (receive to_json (fst q) s);
          s2 = run_parse parse_json 0 s1;
          s3 = snd (finish_parse to_json 0 s2);
          s4 = run_handler_task to_json 0 None s3
      in finish_request to_json 0 (Ended (snd q)) s4)"

section \<open>One round\<close>

lemma receive_at_rest:
  assumes "at_rest s"
  shows "snd (receive to_json c s) =
    s\<lparr>next_message_sequence := next_message_sequence s + 1, parse_queue_size := 1, parse_tasks := [(c, next_message_sequence s)]\<rparr>"
proof -
  have "\<not> (max_parse_queue_size (limits s) \<noteq> 0 \<and> max_parse_queue_size (limits s) \<le> 0)" by linarith
  then show ?thesis using assms by (auto simp: at_rest_def receive_def postParseTask_def acquireParseQueueSlot_def)
qed

lemma serve_request_steps:
  assumes "at_rest s"
  shows "(endpoint_step to_json parse_json)\<^sup>*\<^sup>* s (serve_request to_json parse_json q s)"
proof -
  let ?s1 = "snd (receive to_json (fst q) s)"
  let ?s2 = "run_parse parse_json 0 ?s1"
  let ?s3 = "snd (finish_parse to_json 0 ?s2)"
  let ?s4 = "run_handler_task to_json 0 None ?s3"
  have "\<not> routing_stuck ?s2" using assms by (auto simp: receive_at_rest run_parse_def log_def at_rest_def split: prod.splits)
  then have "endpoint_step to_json parse_json ?s2 ?s3" by (rule endpoint_step.submit)
  moreover have "(endpoint_step to_json parse_json)\<^sup>*\<^sup>* s ?s1" by (blast intro: endpoint_step.receive)
  moreover have "endpoint_step to_json parse_json ?s1 ?s2" by (rule endpoint_step.parse)
  moreover have "endpoint_step to_json parse_json ?s3 ?s4" by (rule endpoint_step.handler)
  moreover have "endpoint_step to_json parse_json ?s4 (finish_request to_json 0 (Ended (snd q)) ?s4)" by (rule endpoint_step.finish)
  ultimately show ?thesis unfolding serve_request_def Let_def by (meson rtranclp.rtrancl_into_rtrancl)
qed

definition request_parsed :: "LspMessage \<Rightarrow> ParsedMessage" where
  "request_parsed m = \<lparr>ok = True, outgoing = False, kind = REQUEST_MESSAGE, message = Some m, pending = None\<rparr>"

lemma parse_one:
  assumes "parse_tasks s = [(c, n)]" "parsed_tasks s = []"
    and "parseAndClassify parse_json (json_handler s) (getRequestInfo (client_requests s)) c = (parsed, ls)"
  shows "run_parse parse_json 0 s = log ls (s\<lparr>parse_tasks := [], parsed_tasks := [(parsed, n)]\<rparr>)"
  using assms by (simp add: run_parse_def)

lemma log_Nil [simp]: "log [] s = s"
  by (simp add: log_def)

lemma submit_one:
  assumes "parsed_tasks s = [(request_parsed m, n)]" "\<not> quit s" "\<not> routing_stuck s" "has_pools s" "parse_queue_size s = 1" "handler_tasks s = []"
    and "reorder_buffer (route s) = []" "next_route_sequence (route s) = n"
    and "has_last_ordered_notification (dispatch s) \<longrightarrow> notificationGateSatisfied (last_ordered_notification_seq (dispatch s)) (dispatch s)"
  shows "snd (finish_parse to_json 0 s) =
    s\<lparr>parsed_tasks := [], route := \<lparr>reorder_buffer = [], next_route_sequence = n + 1\<rparr>, parse_queue_size := 0,
      handler_tasks := [\<lparr>task_msg = m, task_seq = n, task_session = session_output_state s, task_pending = None\<rparr>]\<rparr>"
proof -
  have "enqueueRequest_locked (limits s) it (dispatch s) = (PostNow, dispatch s)" for it using assms(9) by (auto simp: enqueueRequest_locked_def)
  then show ?thesis using assms(1-8)
  by (simp add: finish_parse_def submitParsedMessage_def submit_locked_def routeParsedIncoming_def request_parsed_def
      enqueueRequest_def postToWorker_def releaseParseQueueSlot_def drain.simps [of "[]"] Let_def)
qed

lemma handler_one:
  assumes "handler_tasks s = [\<lparr>task_msg = m, task_seq = n, task_session = k, task_pending = None\<rparr>]" "\<not> quit s" "msg_kind m = REQUEST_MESSAGE"
    and "request_handlers s (msg_method m) = Some rk" "running_requests s = []"
  shows "\<exists>r ctx ck. run_handler_task to_json 0 None s =
    s\<lparr>handler_tasks := [], cancellation_registry := r,
      running_requests := [\<lparr>run_id = msg_id m, run_kind = rk, run_session = k, run_context = ctx, run_cookie = ck\<rparr>]\<rparr>"
proof -
  obtain ctx ck r where c: "cancelableRequestContext (max_seen_request_ids (limits s)) (msg_id m) n Context_empty (cancellation_registry s) = (ctx, ck, r)"
    by (metis prod_cases3)
  show ?thesis using assms
    by (auto simp: run_handler_task_def mainLoopCatching_def mainLoop_def begin_request_def catch_log_def take_nth_def c Let_def)
qed

lemma finish_one:
  assumes "running_requests s = [q]" "writable (output_sessions s ! run_session q)" "write_answers (output_sessions s ! run_session q) = []"
  shows "\<exists>r. finish_request to_json 0 (Ended out) s =
    s\<lparr>running_requests := [], cancellation_registry := r,
      output_sessions := (output_sessions s)[run_session q := (output_sessions s ! run_session q)
        \<lparr>written := written (output_sessions s ! run_session q) @ WriterMsg (to_json (answer_message (run_id q) out))\<rparr>]\<rparr>"
  using assms
  by (intro exI [of _ "request_scope_exit (run_id q) (run_cookie q) (cancellation_registry s)"])
    (auto simp: finish_request_def answer_request_eq sendSessionMessage_eq write_output_def catch_log_def take_nth_def Let_def)

text \<open>The texts of requests that the endpoint understands and has a handler for, with the message in each.\<close>

definition understood :: "(string \<Rightarrow> (string \<times> nat) + json) \<Rightarrow> endpoint \<Rightarrow> string \<Rightarrow> LspMessage \<Rightarrow> bool" where
  "understood parse_json s c m \<longleftrightarrow>
     parseAndClassify parse_json (json_handler s) (getRequestInfo (client_requests s)) c = (request_parsed m, []) \<and>
     msg_kind m = REQUEST_MESSAGE \<and> request_handlers s (msg_method m) \<noteq> None"

lemma understood_same: "same_setup s s' \<Longrightarrow> understood parse_json s' c m = understood parse_json s c m"
  by (simp add: same_setup_def understood_def)

lemma one_round:
  assumes "at_rest s" "understood parse_json s c m"
  shows "at_rest (serve_request to_json parse_json (c, out) s) \<and> same_setup s (serve_request to_json parse_json (c, out) s) \<and>
    session_output (serve_request to_json parse_json (c, out) s) = session_output s @ WriterMsg (to_json (answer_message (msg_id m) out))"
proof -
  have u: "parseAndClassify parse_json (json_handler s) (getRequestInfo (client_requests s)) c = (request_parsed m, [])"
      "msg_kind m = REQUEST_MESSAGE" "request_handlers s (msg_method m) \<noteq> None"
    using assms(2) unfolding understood_def by blast+
  note a = assms(1) [unfolded at_rest_def]
  let ?n = "next_message_sequence s" and ?k = "session_output_state s"
  let ?s1 = "s\<lparr>next_message_sequence := ?n + 1, parse_queue_size := 1, parse_tasks := [(c, ?n)]\<rparr>"
  let ?s2 = "?s1\<lparr>parse_tasks := [], parsed_tasks := [(request_parsed m, ?n)]\<rparr>"
  let ?s3 = "?s2\<lparr>parsed_tasks := [], route := \<lparr>reorder_buffer = [], next_route_sequence = ?n + 1\<rparr>, parse_queue_size := 0,
      handler_tasks := [\<lparr>task_msg = m, task_seq = ?n, task_session = ?k, task_pending = None\<rparr>]\<rparr>"
  have 1: "snd (receive to_json c s) = ?s1" by (rule receive_at_rest [OF assms(1)])
  have "parseAndClassify parse_json (json_handler ?s1) (getRequestInfo (client_requests ?s1)) c = (request_parsed m, [])" using u(1) by simp
  with parse_one [of ?s1 c ?n parse_json "request_parsed m" "[]"] a have 2: "run_parse parse_json 0 ?s1 = ?s2" by simp
  have 3: "snd (finish_parse to_json 0 ?s2) = ?s3" using submit_one [of ?s2 m ?n to_json] a by simp
  from u(3) obtain rk where rk: "request_handlers s (msg_method m) = Some rk" by blast
  obtain r ctx ck where 4: "run_handler_task to_json 0 None ?s3 = ?s3\<lparr>handler_tasks := [], cancellation_registry := r,
      running_requests := [\<lparr>run_id = msg_id m, run_kind = rk, run_session = ?k, run_context = ctx, run_cookie = ck\<rparr>]\<rparr>"
    using handler_one [of ?s3 m ?n ?k rk to_json] a u(2) rk by auto
  let ?q = "\<lparr>run_id = msg_id m, run_kind = rk, run_session = ?k, run_context = ctx, run_cookie = ck\<rparr>"
  let ?s4 = "?s3\<lparr>handler_tasks := [], cancellation_registry := r, running_requests := [?q]\<rparr>"
  obtain r' where 5: "finish_request to_json 0 (Ended out) ?s4 = ?s4\<lparr>running_requests := [], cancellation_registry := r',
      output_sessions := (output_sessions s)[?k := (output_sessions s ! ?k)
        \<lparr>written := written (output_sessions s ! ?k) @ WriterMsg (to_json (answer_message (msg_id m) out))\<rparr>]\<rparr>"
    using finish_one [of ?s4 ?q to_json out] a by auto
  have "serve_request to_json parse_json (c, out) s = finish_request to_json 0 (Ended out) ?s4"
    unfolding serve_request_def Let_def fst_conv snd_conv 1 2 3 4 ..
  then show ?thesis unfolding 5 using a by (simp add: at_rest_def same_setup_def session_output_def writable_def)
qed

section \<open>Every request is answered\<close>

text \<open>
  The answer to the text of a request with an identifier: no parser for its method, or a parser that returns nothing, is an unknown method; a parser that
  throws found invalid parameters; a message without handler is an unknown method again; otherwise the handler decides.
\<close>

definition answer_to :: "endpoint \<Rightarrow> json \<Rightarrow> handler_outcome \<Rightarrow> LspMessage" where
  "answer_to s v out =
     (case parseRequstMessage (json_handler s) (member_method v) v of
        Null \<Rightarrow> makeErrorMessage (member_id v) MethodNotFound (''Method not found: '' @ member_method v)
      | Throws e \<Rightarrow> makeErrorMessage (member_id v) InvalidParams e
      | Parsed m \<Rightarrow>
          if request_handlers s (msg_method m) = None
          then makeErrorMessage (msg_id m) MethodNotFound (''Method not found: '' @ msg_method m)
          else answer_message (msg_id m) out)"

text \<open>A request that is rejected while it is parsed: the error response goes out when it is routed.\<close>

lemma rejected_round:
  assumes "at_rest s"
    and "parseAndClassify parse_json (json_handler s) (getRequestInfo (client_requests s)) c = (outgoing_error i code x, ls)"
  shows "at_rest (serve_request to_json parse_json (c, out) s) \<and> same_setup s (serve_request to_json parse_json (c, out) s) \<and>
    session_output (serve_request to_json parse_json (c, out) s) = session_output s @ WriterMsg (to_json (makeErrorMessage i code x))"
proof -
  note a = assms(1) [unfolded at_rest_def]
  let ?n = "next_message_sequence s" and ?k = "session_output_state s" and ?p = "outgoing_error i code x"
  let ?s1 = "s\<lparr>next_message_sequence := ?n + 1, parse_queue_size := 1, parse_tasks := [(c, ?n)]\<rparr>"
  let ?s2 = "log ls (?s1\<lparr>parse_tasks := [], parsed_tasks := [(?p, ?n)]\<rparr>)"
  let ?s3 = "?s2\<lparr>parsed_tasks := [], route := \<lparr>reorder_buffer = [], next_route_sequence = ?n + 1\<rparr>, parse_queue_size := 0,
      output_sessions := (output_sessions s)[?k := (output_sessions s ! ?k)\<lparr>written := written (output_sessions s ! ?k) @ WriterMsg (to_json (makeErrorMessage i code x))\<rparr>]\<rparr>"
  have 1: "snd (receive to_json c s) = ?s1" by (rule receive_at_rest [OF assms(1)])
  have 2: "run_parse parse_json 0 ?s1 = ?s2" using parse_one [of ?s1 c ?n parse_json ?p ls] a assms(2) by simp
  have p: "ok ?p" "outgoing ?p" "message ?p = Some (makeErrorMessage i code x)" by (simp_all add: outgoing_error_def)
  have "submit_locked lim ?n q False (route s) = (Inr [(?n, q)], \<lparr>reorder_buffer = [], next_route_sequence = ?n + 1\<rparr>)" for lim q
    using a by (simp add: submit_locked_def drain.simps [of "[]"])
  then have 3: "snd (finish_parse to_json 0 ?s2) = ?s3"
    using a p by (simp add: finish_parse_def submitParsedMessage_def routeParsedIncoming_def sendSessionMessage_eq write_output_def
        releaseParseQueueSlot_def log_def Let_def)
  have "serve_request to_json parse_json (c, out) s = ?s3"
    unfolding serve_request_def Let_def fst_conv snd_conv 1 2 3
    using a by (simp add: run_handler_task_def finish_request_def log_def)
  then show ?thesis using a by (simp add: at_rest_def same_setup_def session_output_def writable_def log_def)
qed

text \<open>A request whose method has a parser and no handler: the worker that takes it answers.\<close>

lemma unhandled_round:
  assumes "at_rest s" "msg_kind m = REQUEST_MESSAGE" "request_handlers s (msg_method m) = None"
    and "parseAndClassify parse_json (json_handler s) (getRequestInfo (client_requests s)) c = (request_parsed m, [])"
  shows "at_rest (serve_request to_json parse_json (c, out) s) \<and> same_setup s (serve_request to_json parse_json (c, out) s) \<and>
    session_output (serve_request to_json parse_json (c, out) s) =
      session_output s @ WriterMsg (to_json (makeErrorMessage (msg_id m) MethodNotFound (''Method not found: '' @ msg_method m)))"
proof -
  note a = assms(1) [unfolded at_rest_def]
  let ?n = "next_message_sequence s" and ?k = "session_output_state s"
  let ?e = "makeErrorMessage (msg_id m) MethodNotFound (''Method not found: '' @ msg_method m)"
  let ?s1 = "s\<lparr>next_message_sequence := ?n + 1, parse_queue_size := 1, parse_tasks := [(c, ?n)]\<rparr>"
  let ?s2 = "?s1\<lparr>parse_tasks := [], parsed_tasks := [(request_parsed m, ?n)]\<rparr>"
  let ?s3 = "?s2\<lparr>parsed_tasks := [], route := \<lparr>reorder_buffer = [], next_route_sequence = ?n + 1\<rparr>, parse_queue_size := 0,
      handler_tasks := [\<lparr>task_msg = m, task_seq = ?n, task_session = ?k, task_pending = None\<rparr>]\<rparr>"
  have 1: "snd (receive to_json c s) = ?s1" by (rule receive_at_rest [OF assms(1)])
  have 2: "run_parse parse_json 0 ?s1 = ?s2" using parse_one [of ?s1 c ?n parse_json "request_parsed m" "[]"] a assms(4) by simp
  have 3: "snd (finish_parse to_json 0 ?s2) = ?s3" using submit_one [of ?s2 m ?n to_json] a by simp
  obtain ctx ck r where ctx: "cancelableRequestContext (max_seen_request_ids (limits s)) (msg_id m) ?n Context_empty (cancellation_registry s) = (ctx, ck, r)"
    by (metis prod_cases3)
  have "\<exists>l r'. serve_request to_json parse_json (c, out) s = ?s3\<lparr>handler_tasks := [], log_lines := l, cancellation_registry := r',
      output_sessions := (output_sessions s)[?k := (output_sessions s ! ?k)\<lparr>written := written (output_sessions s ! ?k) @ WriterMsg (to_json ?e)\<rparr>]\<rparr>"
    unfolding serve_request_def Let_def fst_conv snd_conv 1 2 3
    using a assms(2,3) ctx
    by (intro exI [of _ "log_lines s @ [missing_handler ''method2request for request'' (to_json m)]"] exI [of _ "request_scope_exit (msg_id m) ck r"])
      (auto simp: run_handler_task_def mainLoopCatching_def mainLoop_def begin_request_def catch_log_def take_nth_def sendSessionMessage_eq
        write_output_def finish_request_def log_def Let_def)
  then obtain l r' where s: "serve_request to_json parse_json (c, out) s = ?s3\<lparr>handler_tasks := [], log_lines := l, cancellation_registry := r',
      output_sessions := (output_sessions s)[?k := (output_sessions s ! ?k)\<lparr>written := written (output_sessions s ! ?k) @ WriterMsg (to_json ?e)\<rparr>]\<rparr>"
    by blast
  then show ?thesis using a by (simp add: s at_rest_def same_setup_def session_output_def writable_def)
qed

text \<open>C33: No request with an identifier goes unanswered and none is answered twice.  A text that is a well-formed request is handed to an endpoint at rest; the endpoint then writes
  exactly one frame and is at rest again: an error for an unknown method (no parser, or no handler) with the code and the text of JSON-RPC, an error
  for parameters that the parser rejects, and otherwise what the handler returned or threw; the answer has the identifier of the request.\<close>

theorem every_request_is_answered:
  assumes "at_rest s" "parse_json c = Inr v" "version_ok v" "isRequestMessage v" "has_value (member_id v)"
    and "\<And>m. parseRequstMessage (json_handler s) (member_method v) v = Parsed m \<Longrightarrow> msg_kind m = REQUEST_MESSAGE \<and> msg_id m = member_id v"
  shows "session_output (serve_request to_json parse_json (c, out) s) = session_output s @ WriterMsg (to_json (answer_to s v out)) \<and>
    msg_id (answer_to s v out) = member_id v \<and> at_rest (serve_request to_json parse_json (c, out) s) \<and>
    (endpoint_step to_json parse_json)\<^sup>*\<^sup>* s (serve_request to_json parse_json (c, out) s)"
proof -
  have c: "parseAndClassify parse_json (json_handler s) info c = classify_request (json_handler s) c v" for info
    using assms(2-4) by (simp add: parseAndClassify_def)
  have "session_output (serve_request to_json parse_json (c, out) s) = session_output s @ WriterMsg (to_json (answer_to s v out)) \<and>
    at_rest (serve_request to_json parse_json (c, out) s) \<and> msg_id (answer_to s v out) = member_id v"
  proof (cases "parseRequstMessage (json_handler s) (member_method v) v")
    case (Parsed m)
    note m = assms(6) [OF Parsed]
    have p: "parseAndClassify parse_json (json_handler s) info c = (request_parsed m, [])" for info
      by (simp add: c classify_request_def Parsed request_parsed_def Let_def)
    show ?thesis
    proof (cases "request_handlers s (msg_method m)")
      case None
      with unhandled_round [OF assms(1) _ _ p] m Parsed show ?thesis by (simp add: answer_to_def makeErrorMessage_def)
    next
      case (Some rk)
      then have "understood parse_json s c m" using p m by (simp add: understood_def)
      from one_round [OF assms(1) this] Some m Parsed show ?thesis
        by (simp add: answer_to_def answer_message_def makeErrorMessage_def split: handler_outcome.splits)
    qed
  next
    case Null
    with rejected_round [OF assms(1), of parse_json c] c assms(5) show ?thesis
      by (simp add: answer_to_def classify_request_def makeErrorMessage_def Let_def)
  next
    case (Throws e)
    with rejected_round [OF assms(1), of parse_json c] c assms(5) show ?thesis
      by (simp add: answer_to_def classify_request_def makeErrorMessage_def Let_def)
  qed
  then show ?thesis using serve_request_steps [OF assms(1)] by blast
qed

section \<open>A conversation\<close>

lemma conversation:
  assumes "at_rest s" "list_all2 (\<lambda>q m. understood parse_json s (fst q) m) qs ms"
  shows "at_rest (fold (serve_request to_json parse_json) qs s) \<and> same_setup s (fold (serve_request to_json parse_json) qs s) \<and>
    session_output (fold (serve_request to_json parse_json) qs s) =
      session_output s @ concat (map2 (\<lambda>q m. WriterMsg (to_json (answer_message (msg_id m) (snd q)))) qs ms)"
  using assms
proof (induction qs arbitrary: s ms)
  case Nil
  then show ?case by (simp add: same_setup_def)
next
  case (Cons q qs)
  let ?s = "serve_request to_json parse_json q s"
  from Cons.prems(2) obtain m ms' where m: "ms = m # ms'" "understood parse_json s (fst q) m" "list_all2 (\<lambda>q m. understood parse_json s (fst q) m) qs ms'"
    by (auto simp: list_all2_Cons1)
  have r: "at_rest ?s" "same_setup s ?s" "session_output ?s = session_output s @ WriterMsg (to_json (answer_message (msg_id m) (snd q)))"
    using one_round [OF Cons.prems(1) m(2), of to_json "snd q"] by simp_all
  have "list_all2 (\<lambda>q m. understood parse_json ?s (fst q) m) qs ms'" using m(3) by (simp add: understood_same [OF r(2)])
  from Cons.IH [OF r(1) this] r(2,3) show ?case by (auto simp: m(1) same_setup_def)
qed

lemma conversation_steps:
  assumes "at_rest s" "list_all2 (\<lambda>q m. understood parse_json s (fst q) m) qs ms"
  shows "(endpoint_step to_json parse_json)\<^sup>*\<^sup>* s (fold (serve_request to_json parse_json) qs s)"
  using assms
proof (induction qs arbitrary: s ms)
  case (Cons q qs)
  let ?s = "serve_request to_json parse_json q s"
  from Cons.prems(2) obtain m ms' where m: "understood parse_json s (fst q) m" "list_all2 (\<lambda>q m. understood parse_json s (fst q) m) qs ms'"
    by (auto simp: list_all2_Cons1)
  have r: "at_rest ?s" "same_setup s ?s" using one_round [OF Cons.prems(1) m(1), of to_json "snd q"] by simp_all
  have "list_all2 (\<lambda>q m. understood parse_json ?s (fst q) m) qs ms'" using m(2) by (simp add: understood_same [OF r(2)])
  from Cons.IH [OF r(1) this] serve_request_steps [OF Cons.prems(1), of to_json parse_json q] show ?case by simp
qed simp

text \<open>An endpoint that has just been started on a good output is at rest.\<close>

lemma started_at_rest:
  assumes "\<not> working s" "\<not> routing_stuck s" "parsed_tasks s = []" "running_requests s = []" "parse_queue_size s = 0"
  shows "at_rest (startProcessingMessages False [] s) \<and> session_output (startProcessingMessages False [] s) = [] \<and>
    json_handler (startProcessingMessages False [] s) = json_handler s \<and> request_handlers (startProcessingMessages False [] s) = request_handlers s \<and>
    client_requests (startProcessingMessages False [] s) = client_requests s"
  using assms
  by (simp add: at_rest_def session_output_def startProcessingMessages_def start_threads_def open_session_def startAsyncCompletionLoop_def
      startOrderedDispatcher_def resetMessageRouting_def writable_def fresh_session_def Let_def)

section \<open>A run\<close>

text \<open>The started endpoint without handlers receives a request for a method it does not know.\<close>

lemma sample_at_rest: "at_rest sample_started" "session_output sample_started = []"
proof -
  let ?s = "make_RemoteEndPoint (default_limits\<lparr>max_parse_queue_size := 2, policy := DropNewest\<rparr>) (\<lambda>v. Null) no_handlers"
  have "sample_started = startProcessingMessages False [] ?s" by (simp add: sample_started_def startProcessingMessages_def make_RemoteEndPoint_def)
  then show "at_rest sample_started" "session_output sample_started = []"
    using started_at_rest [of ?s] by (simp_all add: make_RemoteEndPoint_def)
qed

theorem every_request_is_answered_witness:
  "session_output (serve_request sample_json sample_parser (''{}'', ThrowsOther) sample_started) = WriterMsg ''{}'' \<and>
     msg_id (answer_to sample_started sample_request ThrowsOther) = kInt 3 \<and> at_rest (serve_request sample_json sample_parser (''{}'', ThrowsOther) sample_started)"
proof -
  have v: "sample_parser ''{}'' = Inr sample_request" by (simp add: sample_parser_def)
  have r: "version_ok sample_request" "isRequestMessage sample_request" "has_value (member_id sample_request)" "member_id sample_request = kInt 3"
    "member_method sample_request = ''shutdown''" by code_simp+
  have "parseRequstMessage (json_handler sample_started) (member_method sample_request) sample_request = Null"
    by (simp add: sample_defs r parseRequstMessage_def SetNotificationJsonHandler_def no_handlers_def)
  then show ?thesis
    using every_request_is_answered [of sample_started sample_parser "''{}''" sample_request sample_json ThrowsOther] sample_at_rest v r
    by (simp add: sample_json_def)
qed

end
