(* ===== verification/Request_Futures.thy ===== *)
theory Request_Futures
  imports Endpoint_Properties Threaded_Queue
begin

text \<open>
  What a program sees of the requests it sends: the futures of \<^verbatim>\<open>JsonRpc/future.h\<close>, \<^verbatim>\<open>ResponseOrError\<close>, and the ways of sending a request in
  \<^verbatim>\<open>JsonRpc/RemoteEndPoint.h\<close> (with a future, with two call-backs, waiting for the response), together with the wrapper that \<^verbatim>\<open>lsp/BindLspHandler.h\<close> puts around
  a handler.  The call-back that is registered for a request changes nothing but its promise, so the state of the promise is what the deliveries to the entry of the request, in their
  order, make of a new one.
\<close>

section \<open>Promises and futures\<close>

record 'a promise_state =
  p_val :: 'a
  hasVal :: bool

definition promise :: "'a \<Rightarrow> 'a promise_state" where
  "promise v0 = \<lparr>p_val = v0, hasVal = False\<rparr>"

definition set_value :: "'a \<Rightarrow> 'a promise_state \<Rightarrow> 'a promise_state" where
  "set_value v p = p\<lparr>p_val := v, hasVal := True\<rparr>"

text \<open>
  \<^verbatim>\<open>get\<close> returns once there is a value, and moves the value out: \<open>moved\<close> is what a move leaves behind.  \<^const>\<open>None\<close> is a thread that is still waiting.
\<close>

definition future_get :: "('a \<Rightarrow> 'a) \<Rightarrow> 'a promise_state \<Rightarrow> 'a option \<times> 'a promise_state" where
  "future_get moved p = (if hasVal p then (Some (p_val p), p\<lparr>p_val := moved (p_val p)\<rparr>) else (None, p))"

definition future_wait :: "'a promise_state \<Rightarrow> unit option" where
  "future_wait p = (if hasVal p then Some () else None)"

datatype future_status = future_ready | future_timeout

text \<open>\<^verbatim>\<open>wait_for\<close> and \<^verbatim>\<open>wait_until\<close>, at the moment they return: when a value is there, or at the time-out.\<close>

definition wait_for :: "'a promise_state \<Rightarrow> future_status" where
  "wait_for p = (if hasVal p then future_ready else future_timeout)"

text \<open>A future shares the state of its promise, or has none after it has been moved from.\<close>

definition get_future :: "nat \<Rightarrow> nat option" where
  "get_future state = Some state"

definition future_valid :: "nat option \<Rightarrow> bool" where
  "future_valid f = (f \<noteq> None)"

text \<open>A second \<^verbatim>\<open>get\<close> does not wait for anything and returns what the first has left.\<close>

lemma future_get_twice:
  assumes "future_get moved p = (Some v, p')"
  shows "v = p_val p \<and> fst (future_get moved p') = Some (moved v)"
  using assms by (auto simp: future_get_def split: if_splits)

section \<open>\<^verbatim>\<open>ResponseOrError\<close>\<close>

text \<open>The two members that are not set are default constructed; \<open>d\<close> holds these defaults.\<close>

record ResponseOrError =
  response :: LspMessage
  rsp_error :: LspMessage
  is_error :: bool

type_synonym defaults = "LspMessage \<times> LspMessage"

definition no_response :: "defaults \<Rightarrow> ResponseOrError" where
  "no_response d = \<lparr>response = fst d, rsp_error = snd d, is_error = False\<rparr>"

definition of_response :: "defaults \<Rightarrow> LspMessage \<Rightarrow> ResponseOrError" where
  "of_response d r = \<lparr>response = r, rsp_error = snd d, is_error = False\<rparr>"

definition of_error :: "defaults \<Rightarrow> LspMessage \<Rightarrow> ResponseOrError" where
  "of_error d e = \<lparr>response = fst d, rsp_error = e, is_error = True\<rparr>"

definition ResponseOrError_ToJson :: "(LspMessage \<Rightarrow> string) \<Rightarrow> ResponseOrError \<Rightarrow> string" where
  "ResponseOrError_ToJson to_json r = (if is_error r then to_json (rsp_error r) else to_json (response r))"

definition IsErrorType :: "LspMessage \<Rightarrow> bool" where
  "IsErrorType m = (msg_error m \<noteq> None)"

section \<open>Sending a request\<close>

text \<open>The error that a sender gets when its request does not go out.\<close>

definition send_error :: "lsRequestId \<Rightarrow> bool \<Rightarrow> LspMessage" where
  "send_error i has_parser =
     makeErrorMessage i InternalError
       (if has_parser then ''Failed to send request.'' else ''Response parser must be registered before startProcessingMessages().'')"

definition settle :: "defaults \<Rightarrow> LspMessage \<Rightarrow> ResponseOrError" where
  "settle d m = (if IsErrorType m then of_error d m else of_response d m)"

text \<open>The call-back that \<^verbatim>\<open>send\<close> registers; the message may be a null pointer.\<close>

definition on_response :: "defaults \<Rightarrow> LspMessage option \<Rightarrow> ResponseOrError promise_state \<Rightarrow> ResponseOrError promise_state" where
  "on_response d msg p = (case msg of None \<Rightarrow> p | Some m \<Rightarrow> set_value (settle d m) p)"

text \<open>
  \<^verbatim>\<open>send\<close> with a future: the entry and the identifier under which the request waits, or a promise that is settled at once, or the exception of the stream.
\<close>

datatype sent_request = Waits_at nat lsRequestId | Settled "ResponseOrError promise_state" | Send_throws string

definition send_future ::
  "(LspMessage \<Rightarrow> string) \<Rightarrow> defaults \<Rightarrow> (json \<Rightarrow> parse_result) \<Rightarrow> LspMessage \<Rightarrow> endpoint \<Rightarrow> sent_request \<times> endpoint" where
  "send_future to_json d f info s =
     (case ensureResponseJsonHandler (msg_method info) f s of
        (False, s1) \<Rightarrow> (Settled (set_value (of_error d (send_error (msg_id info) False)) (promise (no_response d))), s1)
      | (True, s1) \<Rightarrow>
          (case internalSendRequestWithPolicy to_json info False s1 of
             (Sent, i, s2) \<Rightarrow> (Waits_at (length (infos (client_requests s1))) i, s2)
           | (Refused, i, s2) \<Rightarrow> (Settled (set_value (of_error d (send_error i True)) (promise (no_response d))), s2)
           | (SendThrows e, i, s2) \<Rightarrow> (Send_throws e, s2)))"

definition future_state :: "defaults \<Rightarrow> nat \<Rightarrow> pending_table \<Rightarrow> ResponseOrError promise_state" where
  "future_state d a t =
     fold (\<lambda>e. on_response d (Some (snd e))) (filter (\<lambda>e. fst e = a) (delivered t)) (promise (no_response d))"

text \<open>\<^verbatim>\<open>send\<close> with two call-backs: the calls that are made at once, and the entry whose deliveries lead to the others.\<close>

datatype callback = CallsHandler LspMessage | CallsOnError LspMessage

definition on_result :: "LspMessage option \<Rightarrow> callback list" where
  "on_result msg = (case msg of None \<Rightarrow> [] | Some m \<Rightarrow> if IsErrorType m then [CallsOnError m] else [CallsHandler m])"

definition send_callbacks ::
  "(LspMessage \<Rightarrow> string) \<Rightarrow> (json \<Rightarrow> parse_result) \<Rightarrow> LspMessage \<Rightarrow> endpoint \<Rightarrow> (string + nat option \<times> callback list) \<times> endpoint" where
  "send_callbacks to_json f info s =
     (case ensureResponseJsonHandler (msg_method info) f s of
        (False, s1) \<Rightarrow> (Inr (None, [CallsOnError (send_error (msg_id info) False)]), s1)
      | (True, s1) \<Rightarrow>
          (case internalSendRequestWithPolicy to_json info True s1 of
             (Sent, i, s2) \<Rightarrow> (Inr (Some (length (infos (client_requests s1))), []), s2)
           | (Refused, i, s2) \<Rightarrow> (Inr (None, [CallsOnError (send_error i True)]), s2)
           | (SendThrows e, i, s2) \<Rightarrow> (Inl e, s2)))"

definition callbacks_made :: "nat \<Rightarrow> pending_table \<Rightarrow> callback list" where
  "callbacks_made a t = concat (map (\<lambda>e. on_result (Some (snd e))) (filter (\<lambda>e. fst e = a) (delivered t)))"

text \<open>
  \<^verbatim>\<open>waitResponse\<close> after the request has been sent: \<^const>\<open>None\<close> while it waits, otherwise what it returns.  With a time-out it is looked at when the wait is over.
\<close>

definition waitResponse :: "nat \<Rightarrow> lsRequestId \<Rightarrow> ResponseOrError promise_state \<Rightarrow> endpoint \<Rightarrow> ResponseOrError option option \<times> endpoint" where
  "waitResponse time_out i p s =
     (if time_out = 0 then
        (case future_wait p of None \<Rightarrow> (None, s) | Some _ \<Rightarrow> (Some (fst (future_get id p)), s))
      else if wait_for p = future_timeout then
        (Some None, s\<lparr>client_requests := removeRequestInfo i (client_requests s)\<rparr>)
      else (Some (fst (future_get id p)), s))"

text \<open>\<^verbatim>\<open>internalWaitResponse\<close>, the same with a mailbox.\<close>

definition mailbox :: "nat \<Rightarrow> pending_table \<Rightarrow> LspMessage option" where
  "mailbox a t = fold (\<lambda>e. Condition_notify (Some (snd e))) (filter (\<lambda>e. fst e = a) (delivered t)) None"

definition internalWaitResponse :: "bool \<Rightarrow> lsRequestId \<Rightarrow> LspMessage option \<Rightarrow> endpoint \<Rightarrow> LspMessage option option \<times> endpoint" where
  "internalWaitResponse timed_out i box s =
     (case fst (Condition_wait timed_out box) of
        Waits \<Rightarrow> (None, s)
      | Takes m \<Rightarrow> (Some (Some m), s)
      | GivesUp \<Rightarrow> (Some None, s\<lparr>client_requests := removeRequestInfo i (client_requests s)\<rparr>))"

definition createRequest :: "LspMessage \<Rightarrow> pending_table \<Rightarrow> LspMessage \<times> pending_table" where
  "createRequest req t = (case getNextRequestId t of (n, t1) \<Rightarrow> (req\<lparr>msg_id := kInt n\<rparr>, t1))"

section \<open>Bound handlers\<close>

text \<open>\<^verbatim>\<open>invokeBoundHandler\<close>: what a handler does, seen through the wrapper.\<close>

definition invokeBoundHandler :: "handler_outcome \<Rightarrow> handler_outcome" where
  "invokeBoundHandler out =
     (case out of
        ThrowsException text \<Rightarrow> ThrowsRequestError InternalError text
      | _ \<Rightarrow> out)"

text \<open>The wrapper does not change what is answered.\<close>

lemma bound_handler_answers_the_same:
  "answer_request to_json k i (invokeBoundHandler out) ss = answer_request to_json k i out ss"
  by (cases out) (simp_all add: invokeBoundHandler_def answer_request_def sendRspError_def sendInternalError_def toRspError_def)

section \<open>Deliveries\<close>

text \<open>Steps of the table append to the deliveries and never change how an entry is completed.\<close>

definition table_grows :: "pending_table \<Rightarrow> pending_table \<Rightarrow> bool" where
  "table_grows t t' \<longleftrightarrow>
     (\<exists>ds. delivered t' = delivered t @ ds) \<and> length (infos t) \<le> length (infos t') \<and>
     (\<forall>a < length (infos t). deferred_callback (infos t' ! a) = deferred_callback (infos t ! a))"

lemma table_grows_refl: "table_grows t t"
  by (simp add: table_grows_def)

lemma table_grows_trans: "table_grows t t' \<Longrightarrow> table_grows t' t'' \<Longrightarrow> table_grows t t''"
  by (auto simp: table_grows_def)

lemma table_grows_other: "delivered t' = delivered t \<Longrightarrow> infos t' = infos t \<Longrightarrow> table_grows t t'"
  by (simp add: table_grows_def)

lemma table_grows_complete: "table_grows t (complete a m t)"
proof -
  have "deferred_callback ((infos t)[a := (infos t ! a)\<lparr>completed := True\<rparr>] ! b) = deferred_callback (infos t ! b)" if "b < length (infos t)" for b
    using that by (cases "a = b") simp_all
  then show ?thesis by (simp add: table_grows_def complete_def Let_def)
qed

lemma table_grows_fold: "table_grows t (fold (\<lambda>e. complete (f e) (g e)) es t)"
  by (induction es arbitrary: t) (auto intro: table_grows_refl table_grows_trans table_grows_complete)

lemma pending_step_grows:
  assumes "pending_step t t'"
  shows "table_grows t t'"
  using assms
proof (cases rule: pending_step.cases)
  case (send limit m i deferred)
  then show ?thesis by (auto simp: pendingRequest_def getNextRequestId_def table_grows_def nth_append Let_def)
next
  case (respond can_post msg a)
  have "table_grows t (removeRequestInfo (msg_id msg) t)" "table_grows t ((removeRequestInfo (msg_id msg) t)\<lparr>posted := ps\<rparr>)" for ps
    by (simp_all add: removeRequestInfo_def table_grows_other)
  then show ?thesis using respond table_grows_trans [OF _ table_grows_complete]
    by (auto simp: completePendingResponse_def removeRequestInfo_expected_def intro: table_grows_refl)
next
  case (run k)
  then show ?thesis by (auto simp: run_posted_def intro: table_grows_refl table_grows_trans [OF table_grows_other table_grows_complete])
next
  case fail
  then show ?thesis by (auto simp: failPendingRequests_def intro: table_grows_trans [OF table_grows_other table_grows_fold])
qed (auto simp: stop_pool_def removeRequestInfo_def intro: table_grows_other)

lemma endpoint_steps_grow:
  assumes "(endpoint_step to_json parse_json)\<^sup>*\<^sup>* s s'"
  shows "table_grows (client_requests s) (client_requests s')"
  using assms
proof (induction rule: rtranclp_induct)
  case (step s1 s2)
  from endpoint_step_parts [OF step(2)] have "pending_step\<^sup>*\<^sup>* (client_requests s1) (client_requests s2)" by (auto simp: component_steps_def)
  then have "table_grows (client_requests s1) (client_requests s2)"
    by (induction rule: rtranclp_induct) (auto intro: table_grows_refl table_grows_trans pending_step_grows)
  with step.IH show ?case by (rule table_grows_trans)
qed (rule table_grows_refl)

lemma endpoint_steps_reach:
  "(endpoint_step to_json parse_json)\<^sup>*\<^sup>* s s' \<Longrightarrow> endpoint_reach to_json parse_json s \<Longrightarrow> endpoint_reach to_json parse_json s'"
  by (induction rule: rtranclp_induct) (auto intro: endpoint_reach.step)

lemma filter_distinct_fst:
  assumes "distinct (map fst xs)"
  shows "filter (\<lambda>e. fst e = a) xs = [] \<or> (\<exists>m. (a, m) \<in> set xs \<and> filter (\<lambda>e. fst e = a) xs = [(a, m)])"
  using assms
proof (induction xs)
  case (Cons x xs)
  have "filter (\<lambda>e. fst e = fst x) xs = []" using Cons.prems by (auto simp: filter_empty_conv image_iff)
  then show ?case using Cons by (cases x) auto
qed simp

lemma future_state_simps:
  "filter (\<lambda>e. fst e = a) (delivered t) = [] \<Longrightarrow> future_state d a t = promise (no_response d)"
  "filter (\<lambda>e. fst e = a) (delivered t) = [(a, m)] \<Longrightarrow> future_state d a t = set_value (settle d m) (promise (no_response d))"
  by (simp_all add: future_state_def on_response_def)

lemma hasVal_simps [simp]: "\<not> hasVal (promise v)" "hasVal (set_value v p)" "p_val (set_value v p) = v"
  by (simp_all add: promise_def set_value_def)

lemma pending_not_delivered:
  assumes "pending_ok t" "map_of (futures t) i = Some a"
  shows "filter (\<lambda>e. fst e = a) (delivered t) = []" "a < length (infos t)"
proof -
  have "a \<in> set (waiting t)" using map_of_SomeD [OF assms(2)] by (force simp: waiting_def)
  with assms(1) show "filter (\<lambda>e. fst e = a) (delivered t) = []" "a < length (infos t)"
    by (auto simp: pending_ok_def open_entry_def done_entry_def filter_empty_conv)
qed


lemma pending_future:
  assumes "pending_ok t" "map_of (futures t) i = Some a"
  shows "future_state d a t = promise (no_response d)"
    and "future_state d a (failPendingRequests t) = set_value (of_error d (stopped_message i)) (promise (no_response d))"
    and "\<not> deferred_callback (infos t ! a) \<Longrightarrow> msg_id m = i \<Longrightarrow>
      future_state d a (completePendingResponse can_post m a t) = set_value (settle d m) (promise (no_response d))"
proof -
  note none = pending_not_delivered [OF assms]
  show "future_state d a t = promise (no_response d)" by (rule future_state_simps(1) [OF none(1)])
  have "(i, a) \<in> set (futures t)" using map_of_SomeD [OF assms(2)] .
  then have "(a, stopped_message i) \<in> set (delivered (failPendingRequests t))" using fail_pending(3) [OF assms(1)] by force
  moreover have "distinct (map fst (delivered (failPendingRequests t)))" using fail_pending(1) [OF assms(1)] by (simp add: pending_ok_def)
  ultimately have "filter (\<lambda>e. fst e = a) (delivered (failPendingRequests t)) = [(a, stopped_message i)]"
    using filter_distinct_fst [of "delivered (failPendingRequests t)" a] by (force simp: filter_empty_conv dest: arg_cong [of _ _ set])
  from future_state_simps(2) [OF this, of d]
  show "future_state d a (failPendingRequests t) = set_value (of_error d (stopped_message i)) (promise (no_response d))"
    by (simp add: settle_def IsErrorType_def stopped_message_def makeErrorMessage_def)
  assume m: "\<not> deferred_callback (infos t ! a)" "msg_id m = i"
  have e: "open_entry (removeRequestInfo i t) a" by (rule removed_entry [OF assms])
  have "delivered (completePendingResponse can_post m a t) = delivered t @ [(a, m)]"
    using complete_open(1) [OF e, of m] assms(2) m
    by (simp add: completePendingResponse_def removeRequestInfo_expected_def shouldDeferCallback_def removeRequestInfo_def)
  then have "filter (\<lambda>e. fst e = a) (delivered (completePendingResponse can_post m a t)) = [(a, m)]" using none(1) by simp
  from future_state_simps(2) [OF this] show "future_state d a (completePendingResponse can_post m a t) = set_value (settle d m) (promise (no_response d))" .
qed

lemma future_once:
  assumes "pending_ok t"
  shows "future_state d a t = promise (no_response d) \<or>
    (\<exists>m. (a, m) \<in> set (delivered t) \<and> future_state d a t = set_value (settle d m) (promise (no_response d)))"
  using filter_distinct_fst [of "delivered t" a] assms future_state_simps [where d = d and a = a and t = t] by (auto simp: pending_ok_def)

lemma future_stable:
  assumes "table_grows t t'" "pending_ok t'" "hasVal (future_state d a t)"
  shows "future_state d a t' = future_state d a t"
proof -
  from assms(1) obtain ds where ds: "delivered t' = delivered t @ ds" by (auto simp: table_grows_def)
  have "filter (\<lambda>e. fst e = a) (delivered t) \<noteq> []" using assms(3) future_state_simps(1) by fastforce
  then obtain m where "(a, m) \<in> set (delivered t)" by (auto simp: filter_empty_conv)
  then have "filter (\<lambda>e. fst e = a) ds = []" using assms(2) by (force simp: pending_ok_def ds filter_empty_conv)
  then show ?thesis by (simp add: future_state_def ds)
qed

lemma stop_delivers: "working s \<Longrightarrow> delivered (client_requests (stop s)) = delivered (failPendingRequests (client_requests s))"
  by (simp add: stop_def stop_pool_def Let_def)

lemma sent_entry:
  assumes "endpoint_reach to_json parse_json s" "send_future to_json d f info s = (Waits_at a i, s1)"
  shows "map_of (futures (client_requests s1)) i = Some a" "\<not> deferred_callback (infos (client_requests s1) ! a)"
    and "endpoint_reach to_json parse_json s1"
proof -
  obtain s0 where e: "ensureResponseJsonHandler (msg_method info) f s = (True, s0)" and
      a: "a = length (infos (client_requests s0))" and i: "internalSendRequestWithPolicy to_json info False s0 = (Sent, i, s1)"
    using assms(2) by (auto simp: send_future_def split: prod.splits bool.splits send_result.splits)
  have r: "endpoint_reach to_json parse_json s0"
    using endpoint_reach.step [OF assms(1) endpoint_step.ensure_response, of "msg_method info" f] by (simp add: e)
  from endpoint_reach.step [OF r endpoint_step.send_request, where info1 = info and deferred1 = False] show "endpoint_reach to_json parse_json s1" by (simp add: i)
  have m: "map_ok (futures (client_requests s0))" using endpoint_components [OF r] pending_reach_ok by (auto simp: pending_ok_def)
  obtain t where t: "pendingRequest (max_pending_outgoing_requests (limits s0)) (msg_method info) (msg_id info) False (client_requests s0) = (Some a, i, t)"
      and c: "client_requests s1 = t"
    using i a by (auto simp: internalSendRequestWithPolicy_def pendingRequest_def getNextRequestId_def Let_def split: if_splits option.splits prod.splits)
  show "map_of (futures (client_requests s1)) i = Some a" "\<not> deferred_callback (infos (client_requests s1) ! a)"
    using t a map_of_set [OF m] unfolding c
    by (auto simp: pendingRequest_def getNextRequestId_def Let_def split: if_splits)
qed

section \<open>Properties\<close>

text \<open>C22: The future of a request that went out waits in the table; whatever the endpoint does afterwards, the future is settled at most once, by a message delivered for
  this request, and then keeps its value; as long as the request is in the table its response settles the future at once, and stopping the endpoint settles it with an error.\<close>

theorem request_future_settles:
  assumes "endpoint_reach to_json parse_json s" "send_future to_json d f info s = (Waits_at a i, s1)" "(endpoint_step to_json parse_json)\<^sup>*\<^sup>* s1 s2"
  shows "map_of (futures (client_requests s1)) i = Some a \<and>
    (let p = future_state d a (client_requests s2) in
     (p = promise (no_response d) \<or> (\<exists>m. (a, m) \<in> set (delivered (client_requests s2)) \<and> p = set_value (settle d m) (promise (no_response d)))) \<and>
     (\<forall>s3. hasVal p \<and> (endpoint_step to_json parse_json)\<^sup>*\<^sup>* s2 s3 \<longrightarrow> future_state d a (client_requests s3) = p) \<and>
     (map_of (futures (client_requests s2)) i = Some a \<longrightarrow>
        (\<forall>m b. msg_id m = i \<longrightarrow>
           future_state d a (completePendingResponse b m a (client_requests s2)) = set_value (settle d m) (promise (no_response d))) \<and>
        (working s2 \<longrightarrow>
           future_state d a (client_requests (stop s2)) = set_value (of_error d (stopped_message i)) (promise (no_response d)))))"
proof -
  note e = sent_entry [OF assms(1,2)]
  have reach: "endpoint_reach to_json parse_json s3" if "(endpoint_step to_json parse_json)\<^sup>*\<^sup>* s1 s3" for s3
    by (rule endpoint_steps_reach [OF that e(3)])
  have ok: "pending_ok (client_requests s3)" if "(endpoint_step to_json parse_json)\<^sup>*\<^sup>* s1 s3" for s3
    using endpoint_components [OF reach [OF that]] pending_reach_ok by blast
  have "a < length (infos (client_requests s1))" by (rule pending_not_delivered(2) [OF ok [OF rtranclp.rtrancl_refl] e(1)])
  with endpoint_steps_grow [OF assms(3)] e(2) have now: "\<not> deferred_callback (infos (client_requests s2) ! a)" by (simp add: table_grows_def)
  have "future_state d a (client_requests s3) = future_state d a (client_requests s2)"
    if "hasVal (future_state d a (client_requests s2))" "(endpoint_step to_json parse_json)\<^sup>*\<^sup>* s2 s3" for s3
    using future_stable [OF endpoint_steps_grow [OF that(2)] ok [OF rtranclp_trans [OF assms(3) that(2)]] that(1)] .
  moreover have "future_state d a (client_requests (stop s2)) = set_value (of_error d (stopped_message i)) (promise (no_response d))"
    if "map_of (futures (client_requests s2)) i = Some a" "working s2"
    using pending_future(2) [OF ok [OF assms(3)] that(1)] by (simp add: future_state_def stop_delivers [OF that(2)])
  moreover have "future_state d a (completePendingResponse b m a (client_requests s2)) = set_value (settle d m) (promise (no_response d))"
    if "map_of (futures (client_requests s2)) i = Some a" "msg_id m = i" for m b
    by (rule pending_future(3) [OF ok [OF assms(3)] that(1) now that(2)])
  ultimately show ?thesis unfolding Let_def using e(1) future_once [OF ok [OF assms(3)], of d a] by blast
qed

text \<open>
  A response that waits for a worker when the endpoint stops is lost: neither of the two call-backs of its request is ever called.
\<close>

lemma callbacks_lost_by_stop:
  assumes "endpoint_reach to_json parse_json s" "(a, m) \<in> set (posted (client_requests s))" "working s" "has_pools s"
  shows "callbacks_made a (client_requests (stop s)) = [] \<and> a \<notin> set (waiting (client_requests (stop s)))"
proof -
  have ok: "pending_ok (client_requests s)" using endpoint_components [OF assms(1)] pending_reach_ok by blast
  have p: "a \<in> fst ` set (posted (client_requests s))" using assms(2) by force
  then have w: "open_entry (client_requests s) a" using ok by (simp add: pending_ok_def waiting_def)
  have "a \<notin> snd ` set (futures (client_requests s))" using ok p by (auto simp: pending_ok_def waiting_def simp del: image_iff)
  moreover have "a \<notin> fst ` set (delivered (client_requests s))" using ok w by (auto simp: pending_ok_def open_entry_def done_entry_def)
  ultimately have "a \<notin> fst ` set (delivered (client_requests s))" "a \<notin> snd ` set (futures (client_requests s))" by blast+
  then have "filter (\<lambda>e. fst e = a) (delivered (failPendingRequests (client_requests s))) = []"
    using fail_pending(3) [OF ok] by (auto simp: filter_empty_conv)
  moreover have "futures (client_requests (stop s)) = []" "posted (client_requests (stop s)) = []"
    using assms(3,4) fail_pending(2) [OF ok] by (simp_all add: stop_def stop_pool_def Let_def)
  ultimately show ?thesis by (simp add: callbacks_made_def stop_delivers [OF assms(3)] waiting_def)
qed

section \<open>A run\<close>

definition sample_talking :: endpoint where
  "sample_talking =
     start_threads (open_session False [] (make_RemoteEndPoint default_limits (\<lambda>v. Null) (SetResponseJsonHandler ''shutdown'' (\<lambda>v. Null) no_handlers)))"

definition sample_request_message :: LspMessage where
  "sample_request_message =
     \<lparr>msg_kind = REQUEST_MESSAGE, msg_id = kNone, msg_method = ''shutdown'', msg_error = None, cancel_id = kNone, msg_body = VUnit\<rparr>"

lemma sample_talking_reach: "endpoint_reach sample_json sample_parser sample_talking"
proof -
  let ?s = "make_RemoteEndPoint default_limits (\<lambda>v. Null) (SetResponseJsonHandler ''shutdown'' (\<lambda>v. Null) no_handlers)"
  have "endpoint_reach sample_json sample_parser (open_session False [] ?s)"
    by (rule endpoint_reach.step [OF endpoint_reach.init endpoint_step.start_open]) (simp_all add: make_RemoteEndPoint_def)
  then show ?thesis unfolding sample_talking_def
    by (rule endpoint_reach.step [OF _ endpoint_step.start_threads])
      (simp_all add: open_session_def startAsyncCompletionLoop_def Let_def make_RemoteEndPoint_def)
qed

lemma sample_talking_state:
  "working sample_talking" "method2response (json_handler sample_talking) ''shutdown'' \<noteq> None" "client_requests sample_talking = empty_pending"
  "length (output_sessions sample_talking) = 2" "session_output_state sample_talking = 1"
  "active (output_sessions sample_talking ! 1)" "has_output (output_sessions sample_talking ! 1)"
  "\<not> output_bad (output_sessions sample_talking ! 1)" "write_answers (output_sessions sample_talking ! 1) = []"
  by (simp_all add: sample_talking_def start_threads_def open_session_def startAsyncCompletionLoop_def make_RemoteEndPoint_def Let_def
      fresh_session_def SetResponseJsonHandler_def SetNotificationJsonHandler_def nth_append)

lemma sample_sent:
  "\<exists>s1. send_future sample_json (sample_reply, sample_reply) (\<lambda>v. Null) sample_request_message sample_talking = (Waits_at 0 (kInt 0), s1) \<and> working s1"
  using sample_talking_state
  by (auto simp: sample_request_message_def send_future_def ensureResponseJsonHandler_def internalSendRequestWithPolicy_def
      write_output_def pendingRequest_def getNextRequestId_def empty_pending_def Let_def)

theorem request_future_settles_witness:
  "\<exists>s1. send_future sample_json (sample_reply, sample_reply) (\<lambda>v. Null) sample_request_message sample_talking = (Waits_at 0 (kInt 0), s1) \<and>
     \<not> hasVal (future_state (sample_reply, sample_reply) 0 (client_requests s1)) \<and>
     p_val (future_state (sample_reply, sample_reply) 0 (client_requests (stop s1))) = of_error (sample_reply, sample_reply) (stopped_message (kInt 0))"
proof -
  let ?d = "(sample_reply, sample_reply)"
  obtain s1 where s: "send_future sample_json ?d (\<lambda>v. Null) sample_request_message sample_talking = (Waits_at 0 (kInt 0), s1)" "working s1"
    using sample_sent by blast
  note f = request_future_settles [OF sample_talking_reach s(1) rtranclp.rtrancl_refl]
  have r: "endpoint_reach sample_json sample_parser s1" by (rule sent_entry(3) [OF sample_talking_reach s(1)])
  have "pending_ok (client_requests s1)" using endpoint_components [OF r] pending_reach_ok by blast
  then have "\<not> hasVal (future_state ?d 0 (client_requests s1))" using pending_future(1) f by fastforce
  then show ?thesis using s f by (intro exI [of _ s1]) (simp add: Let_def)
qed

end
