(* ===== verification/Language_Session.thy ===== *)
theory Language_Session
  imports Request_Rounds Request_Futures Protocol_Wire
begin

text \<open>
  \<^verbatim>\<open>lsp/LanguageSession.h\<close> and \<^verbatim>\<open>JsonRpc/Transport.h\<close>: the classes that programs use.  A session owns the table of protocol parsers and an endpoint; the operations forward to
  the endpoint.  The last section takes requests through the whole program, from the values a client serializes to the answers a session writes.
\<close>

section \<open>\<^verbatim>\<open>LanguageSession\<close>\<close>

datatype JSONStreamStyle = Standard | Delimited

record LanguageSessionOptions =
  style :: JSONStreamStyle
  max_workers :: "8 word"
  protocol :: ProtocolJsonHandlerOptions

definition makeOptions :: "JSONStreamStyle \<Rightarrow> 8 word \<Rightarrow> LanguageSessionOptions" where
  "makeOptions st n = \<lparr>style = st, max_workers = n, protocol = default_options\<rparr>"

text \<open>The constructor; the number of workers and the style do not show in the state of the endpoint.\<close>

definition make_LanguageSession :: "jsonlib \<Rightarrow> LanguageSessionOptions \<Rightarrow> endpoint" where
  "make_LanguageSession L options =
     make_RemoteEndPoint default_limits (read_notification L Notify_Cancellation) (ProtocolJsonHandler L (protocol options))"

text \<open>\<^verbatim>\<open>on\<close>, which drops the result of the registration.\<close>

definition session_on :: "request_kind \<times> string \<times> (json \<Rightarrow> parse_result) \<Rightarrow> endpoint \<Rightarrow> endpoint" where
  "session_on = (\<lambda>(k, method, reflect) s. snd (registerRequestHandler k method reflect s))"

definition session_on_notification :: "string \<times> (json \<Rightarrow> parse_result) \<Rightarrow> endpoint \<Rightarrow> endpoint" where
  "session_on_notification = (\<lambda>(method, reflect) s. snd (registerNotificationHandler method reflect s))"

definition session_overrideRequestParser :: "string \<Rightarrow> (json \<Rightarrow> parse_result) \<Rightarrow> endpoint \<Rightarrow> endpoint" where
  "session_overrideRequestParser method f s = snd (overrideRequestParser method f s)"

definition session_start :: "bool \<Rightarrow> write_answer list \<Rightarrow> endpoint \<Rightarrow> endpoint" where
  "session_start bad ws s = startProcessingMessages bad ws s"

definition session_stop :: "endpoint \<Rightarrow> endpoint" where
  "session_stop s = stop s"

section \<open>\<^verbatim>\<open>Transport\<close>\<close>

definition transport_notify :: "(LspMessage \<Rightarrow> string) \<Rightarrow> nat option \<Rightarrow> LspMessage \<Rightarrow> endpoint \<Rightarrow> endpoint throwing" where
  "transport_notify to_json ctx msg s = sendMsg to_json ctx msg s"

definition transport_reply :: "(LspMessage \<Rightarrow> string) \<Rightarrow> nat option \<Rightarrow> LspMessage \<Rightarrow> endpoint \<Rightarrow> endpoint throwing" where
  "transport_reply to_json ctx msg s = sendMsg to_json ctx msg s"

definition transport_call ::
  "(LspMessage \<Rightarrow> string) \<Rightarrow> (json \<Rightarrow> parse_result) \<Rightarrow> LspMessage \<Rightarrow> endpoint \<Rightarrow> (string + nat option \<times> callback list) \<times> endpoint" where
  "transport_call to_json f request s = send_callbacks to_json f request s"

definition transport_call_future ::
  "(LspMessage \<Rightarrow> string) \<Rightarrow> defaults \<Rightarrow> (json \<Rightarrow> parse_result) \<Rightarrow> LspMessage \<Rightarrow> endpoint \<Rightarrow> sent_request \<times> endpoint" where
  "transport_call_future to_json d f request s = send_future to_json d f request s"

definition transport_run :: "bool \<Rightarrow> write_answer list \<Rightarrow> endpoint \<Rightarrow> endpoint" where
  "transport_run bad ws s = startProcessingMessages bad ws s"

definition transport_loop :: "bool \<Rightarrow> write_answer list \<Rightarrow> endpoint \<Rightarrow> endpoint" where
  "transport_loop bad ws s = transport_run bad ws s"

definition transport_stop :: "endpoint \<Rightarrow> endpoint" where
  "transport_stop s = stop s"

definition transport_isWorking :: "endpoint \<Rightarrow> bool" where
  "transport_isWorking s = isWorking s"

section \<open>Registering handlers\<close>

text \<open>Handlers may be registered for any methods; the parsers of the protocol stay in place.\<close>

lemma session_on_handlers:
  assumes "\<not> working s"
  shows "\<not> working (session_on r s)" "request_handlers (session_on r s) = (request_handlers s)(fst (snd r) \<mapsto> fst r)"
    and "method2request (json_handler s) m = Some f \<Longrightarrow> method2request (json_handler (session_on r s)) m = Some f"
    and "client_requests (session_on r s) = client_requests s" "parsed_tasks (session_on r s) = parsed_tasks s"
    and "running_requests (session_on r s) = running_requests s" "parse_queue_size (session_on r s) = parse_queue_size s"
    and "routing_stuck (session_on r s) = routing_stuck s"
  using assms
  by (cases r; auto simp: session_on_def registerRequestHandler_def canRegisterBeforeStart_def SetRequestJsonHandler_def)+

lemma session_setup:
  assumes "\<not> working s"
  shows "\<not> working (fold session_on rs s) \<and>
    (\<forall>m. m \<in> (\<lambda>r. fst (snd r)) ` set rs \<or> request_handlers s m \<noteq> None \<longrightarrow> request_handlers (fold session_on rs s) m \<noteq> None) \<and>
    (\<forall>m f. method2request (json_handler s) m = Some f \<longrightarrow> method2request (json_handler (fold session_on rs s)) m = Some f) \<and>
    client_requests (fold session_on rs s) = client_requests s \<and> parsed_tasks (fold session_on rs s) = parsed_tasks s \<and>
    running_requests (fold session_on rs s) = running_requests s \<and> parse_queue_size (fold session_on rs s) = parse_queue_size s \<and>
    routing_stuck (fold session_on rs s) = routing_stuck s"
  using assms
proof (induction rs arbitrary: s)
  case (Cons r rs)
  note r = session_on_handlers [OF Cons.prems, where r = r]
  from Cons.IH [OF r(1)] r(2-8) show ?case by auto
qed simp

definition started_session :: "jsonlib \<Rightarrow> LanguageSessionOptions \<Rightarrow> (request_kind \<times> string \<times> (json \<Rightarrow> parse_result)) list \<Rightarrow> endpoint" where
  "started_session L options rs = session_start False [] (fold session_on rs (make_LanguageSession L options))"

lemma make_LanguageSession_fresh:
  "\<not> working (make_LanguageSession L options)" "parsed_tasks (make_LanguageSession L options) = []"
  "running_requests (make_LanguageSession L options) = []" "parse_queue_size (make_LanguageSession L options) = 0"
  "client_requests (make_LanguageSession L options) = empty_pending" "\<not> routing_stuck (make_LanguageSession L options)"
  "method2request (json_handler (make_LanguageSession L options)) = method2request (ProtocolJsonHandler L (protocol options))"
  by (simp_all add: make_LanguageSession_def make_RemoteEndPoint_def SetNotificationJsonHandler_def)

lemma session_has_no_producer: "has_producer_thread (fold session_on hs (make_LanguageSession L options)) = False"
proof -
  have "has_producer_thread (fold session_on hs s) = has_producer_thread s" for s
    by (induction hs arbitrary: s) (auto simp: session_on_def registerRequestHandler_def canRegisterBeforeStart_def log_def split: prod.splits)
  then show ?thesis by (simp add: make_LanguageSession_def make_RemoteEndPoint_def)
qed

lemma started_session_ready:
  shows "at_rest (started_session L options rs)" "session_output (started_session L options rs) = []"
    and "m \<in> (\<lambda>r. fst (snd r)) ` set rs \<Longrightarrow> request_handlers (started_session L options rs) m \<noteq> None"
    and "method2request (ProtocolJsonHandler L (protocol options)) m = Some f \<Longrightarrow> method2request (json_handler (started_session L options rs)) m = Some f"
proof -
  let ?s = "fold session_on rs (make_LanguageSession L options)"
  note u = session_setup [OF make_LanguageSession_fresh(1) [of L options], of rs]
  have "\<not> working ?s" "\<not> routing_stuck ?s" "parsed_tasks ?s = []" "running_requests ?s = []" "parse_queue_size ?s = 0" using u make_LanguageSession_fresh by simp_all
  note r = started_at_rest [OF this]
  show "at_rest (started_session L options rs)" "session_output (started_session L options rs) = []"
    "m \<in> (\<lambda>r. fst (snd r)) ` set rs \<Longrightarrow> request_handlers (started_session L options rs) m \<noteq> None"
    "method2request (ProtocolJsonHandler L (protocol options)) m = Some f \<Longrightarrow> method2request (json_handler (started_session L options rs)) m = Some f"
    using r u make_LanguageSession_fresh(7) [of L options] by (simp_all add: started_session_def session_start_def)
qed

section \<open>From a request to its answer\<close>

text \<open>A request that the protocol parsers understand is understood by every table that has kept them.\<close>

lemma session_understands:
  assumes "requestable L opts r i p" "parse_json c = Inr (json_of L protocol_env (request_type r) (request_value r i p))"
    and "\<And>m f. method2request (ProtocolJsonHandler L opts) m = Some f \<Longrightarrow> method2request h m = Some f"
  shows "parseAndClassify parse_json h info c = (parsed_request r i p, [])"
proof -
  let ?j = "json_of L protocol_env (request_type r) (request_value r i p)"
  have a: "OnRequest r \<in> set (registrations opts)" "rpc_method r \<notin> set lossy_requests" "valid_id i" using assms(1) by (auto simp: requestable_def)
  have n: "nul_free (rpc_method r)" using requests_return registrations_all [OF a(1)] a(2) by (auto simp: list_all_iff)
  have f: "method2request h (rpc_method r) = method2request (ProtocolJsonHandler L opts) (rpc_method r)"
    using request_registered [OF a(1), of L] assms(3) by simp
  have "parseAndClassify parse_json h info c = parseAndClassify parse_json (ProtocolJsonHandler L opts) info c"
    using request_json_shape [OF n a(3) refl, of L protocol_env p] f
    by (simp add: parseAndClassify_def classify_request_def parseRequstMessage_def assms(2) Let_def)
  then show ?thesis using request_arrives(2) [OF assms(1), of parse_json c info] assms(2) by simp
qed


lemma started_session_reach: "endpoint_reach to_json parse_json (started_session L options hs)"
proof -
  have "endpoint_reach to_json parse_json s \<Longrightarrow> endpoint_reach to_json parse_json (fold session_on hs s)" for s
  proof (induction hs arbitrary: s)
    case (Cons h hs)
    have "endpoint_reach to_json parse_json (session_on h s)"
      using endpoint_reach.step [OF Cons.prems endpoint_step.register_request] by (cases h) (simp add: session_on_def)
    then show ?case using Cons.IH by simp
  qed simp
  then have r: "endpoint_reach to_json parse_json (fold session_on hs (make_LanguageSession L options))"
    unfolding make_LanguageSession_def using endpoint_reach.init by blast
  note u = session_setup [OF make_LanguageSession_fresh(1) [of L options], of hs]
  let ?s = "fold session_on hs (make_LanguageSession L options)"
  have "endpoint_reach to_json parse_json (open_session False [] ?s)" using endpoint_reach.step [OF r endpoint_step.start_open] u make_LanguageSession_fresh(6) by blast
  then have "endpoint_reach to_json parse_json (start_threads (open_session False [] ?s))"
    by (rule endpoint_reach.step [OF _ endpoint_step.start_threads])
      (use u session_has_no_producer in \<open>simp_all add: open_session_def startAsyncCompletionLoop_def make_LanguageSession_fresh Let_def\<close>)
  then show ?thesis using u by (simp add: started_session_def session_start_def startProcessingMessages_def)
qed

text \<open>The text of a request: what the JSON library prints for the document that the writers produce.\<close>

definition request_text :: "jsonlib \<Rightarrow> rpc \<times> lsRequestId \<times> val \<Rightarrow> string" where
  "request_text L = (\<lambda>(r, i, p). print_value L (the (document L (Reflect_write protocol_env (request_type r) (request_value r i p)))))"

definition request_of :: "rpc \<times> lsRequestId \<times> val \<Rightarrow> LspMessage" where
  "request_of = (\<lambda>(r, i, p). the (message (parsed_request r i p)))"

lemma session_conversation:
  assumes "list_all (\<lambda>(q, out). (case q of (r, i, p) \<Rightarrow> requestable L (protocol options) r i p \<and> rpc_method r \<in> (\<lambda>h. fst (snd h)) ` set hs)) qs"
    and "list_all (\<lambda>(q, out). (case q of (r, i, p) \<Rightarrow> parse_json (request_text L q) =
           Inr (the (document L (Reflect_write protocol_env (request_type r) (request_value r i p)))))) qs"
  shows "list_all2 (\<lambda>q m. understood parse_json (started_session L options hs) (fst q) m)
    (map (\<lambda>(q, out). (request_text L q, out)) qs) (map (\<lambda>(q, out). request_of q) qs)"
proof -
  have "understood parse_json (started_session L options hs) (request_text L q) (request_of q)" if "(q, out) \<in> set qs" for q out
  proof -
    obtain r i p where q: "q = (r, i, p)" by (cases q)
    have a: "requestable L (protocol options) r i p" "rpc_method r \<in> (\<lambda>h. fst (snd h)) ` set hs"
        "parse_json (request_text L q) = Inr (the (document L (Reflect_write protocol_env (request_type r) (request_value r i p))))"
      using assms that by (force simp: list_all_iff q)+
    have j: "parse_json (request_text L q) = Inr (json_of L protocol_env (request_type r) (request_value r i p))"
      by (simp add: a(3) request_arrives(1) [OF a(1)])
    have "parseAndClassify parse_json (json_handler (started_session L options hs)) info (request_text L q) = (parsed_request r i p, [])" for info
      using j by (intro session_understands [OF a(1)] started_session_ready(4))
    then show ?thesis using started_session_ready(3) [OF a(2), of L options]
      by (simp add: understood_def request_of_def q parsed_request_def request_parsed_def)
  qed
  then show ?thesis by (auto simp: list_all2_conv_all_nth all_set_conv_all_nth dest: nth_mem split: prod.splits)
qed

text \<open>C5: A session with handlers for some requests of the protocol is started on a good output.  Requests that a client serializes are parsed, routed and handled one after the other, and
  the session writes exactly one answer for each, in order, with the identifier of the request and what its handler returned or threw; the session is at rest again, its state is a reachable one, and a client that
  reads the output receives exactly those answers.\<close>

theorem language_session_answers:
  assumes "list_all (\<lambda>(q, out). (case q of (r, i, p) \<Rightarrow> requestable L (protocol options) r i p \<and> rpc_method r \<in> (\<lambda>h. fst (snd h)) ` set hs)) qs"
    and "list_all (\<lambda>(q, out). (case q of (r, i, p) \<Rightarrow> parse_json (request_text L q) =
           Inr (the (document L (Reflect_write protocol_env (request_type r) (request_value r i p)))))) qs"
    and "s = fold (serve_request to_json parse_json) (map (\<lambda>(q, out). (request_text L q, out)) qs) (started_session L options hs)"
    and "answers = map (\<lambda>((r, i, p), out). to_json (answer_message i out)) qs"
  shows "session_output s = concat (map WriterMsg answers) \<and> at_rest s \<and> endpoint_reach to_json parse_json s \<and>
    (list_all (\<lambda>a. int (length a) \<le> INT_MAX) answers \<and> std_ok t \<and> content t = session_output s \<and> length answers + length (content t) + 1 < fuel \<longrightarrow>
     (\<exists>l'. listen fuel (collector 0) (base_istream w) (Some t) [] = Some (Some l') \<and> consumer l' = answers \<and> issues l' = []))"
proof -
  let ?qs = "map (\<lambda>(q, out). (request_text L q, out)) qs" and ?ms = "map (\<lambda>(q, out). request_of q) qs"
  note c = conversation [OF started_session_ready(1) session_conversation [OF assms(1,2)], of to_json]
  have "map2 (\<lambda>q m. WriterMsg (to_json (answer_message (msg_id m) (snd q)))) ?qs ?ms = map WriterMsg answers"
    unfolding assms(4) by (induction qs) (auto simp: request_of_def parsed_request_def)
  then have o: "session_output s = concat (map WriterMsg answers)" using c started_session_ready(2) assms(3) by simp
  have "endpoint_reach to_json parse_json s"
    using endpoint_steps_reach [OF conversation_steps [OF started_session_ready(1) session_conversation [OF assms(1,2)]] started_session_reach] unfolding assms(3) .
  moreover have "\<exists>l'. listen fuel (collector 0) (base_istream w) (Some t) [] = Some (Some l') \<and> consumer l' = answers \<and> issues l' = []"
    if "list_all (\<lambda>a. int (length a) \<le> INT_MAX) answers" "std_ok t" "content t = session_output s" "length answers + length (content t) + 1 < fuel"
    using listen_reads_frames [OF that(2), of answers 0 fuel w] that o by simp
  ultimately show ?thesis using c o assms(3) by blast
qed

section \<open>A run\<close>

lemma sample_requestable: "requestable sample_lib default_options td_hover (kInt 7) sample_hover"
proof -
  have "OnRequest td_hover \<in> set (registrations default_options)"
    by (simp add: registrations_base base_registrations_def AddStandardRequestJsonRpcMethod_def)
  moreover have "rpc_method td_hover \<notin> set lossy_requests" "sendable sample_lib protocol_env (rpc_params td_hover) sample_hover" "valid_id (kInt 7)"
    by code_simp+
  ultimately show ?thesis by (simp add: requestable_def)
qed

definition hover_parser :: "string \<Rightarrow> (string \<times> nat) + json" where
  "hover_parser c = Inr (the (document sample_lib (Reflect_write protocol_env (request_type td_hover) (request_value td_hover (kInt 7) sample_hover))))"

theorem language_session_answers_witness:
  "\<exists>s. s = fold (serve_request sample_json hover_parser) [(request_text sample_lib (td_hover, kInt 7, sample_hover), ThrowsOther)]
          (started_session sample_lib (makeOptions Standard 2) [(SyncHandler, rpc_method td_hover, \<lambda>v. Null)]) \<and>
     session_output s = WriterMsg ''{}'' \<and> at_rest s"
proof -
  let ?hs = "[(SyncHandler, rpc_method td_hover, \<lambda>v. Null)]" and ?qs = "[((td_hover, kInt 7, sample_hover), ThrowsOther)]"
  have "list_all (\<lambda>(q, out). (case q of (r, i, p) \<Rightarrow> requestable sample_lib (protocol (makeOptions Standard 2)) r i p \<and>
      rpc_method r \<in> (\<lambda>h. fst (snd h)) ` set ?hs)) ?qs"
    using sample_requestable by (simp add: makeOptions_def)
  moreover have "list_all (\<lambda>(q, out). (case q of (r, i, p) \<Rightarrow> hover_parser (request_text sample_lib q) =
      Inr (the (document sample_lib (Reflect_write protocol_env (request_type r) (request_value r i p)))))) ?qs"
    by (simp add: hover_parser_def)
  ultimately show ?thesis
    using language_session_answers [of sample_lib "makeOptions Standard 2" ?hs ?qs hover_parser _ sample_json] by (simp add: sample_json_def)
qed

end
