(* ===== verification/Request_Context.thy ===== *)
theory Request_Context
  imports Request_Cancellation Text_Position Lsp_Uri
begin

text \<open>
  \<^verbatim>\<open>lsp/request_context.cpp\<close>: the encoding of positions and the mapping of paths travel with a request in its context (\<^verbatim>\<open>JsonRpc/Context.h\<close>, \<^verbatim>\<open>jsonrpc/Context.cpp\<close>), which is
  the chain of \<^verbatim>\<open>Request_Cancellation\<close>; the rest of the context class is here, too.
\<close>

section \<open>Contexts\<close>

definition Context_clone :: "'v context_chain \<Rightarrow> 'v context_chain" where
  "Context_clone ctx = ctx"

text \<open>\<^verbatim>\<open>getExisting\<close>; \<^const>\<open>None\<close> is the failed assertion.\<close>

definition Context_getExisting :: "string \<Rightarrow> 'v context_chain \<Rightarrow> 'v option" where
  "Context_getExisting k ctx = Context_get k ctx"

text \<open>\<^verbatim>\<open>derive\<close> without a key uses a private key of the type of the value.\<close>

definition Context_derive_anonymous :: "('v \<Rightarrow> string) \<Rightarrow> 'v \<Rightarrow> 'v context_chain \<Rightarrow> 'v context_chain" where
  "Context_derive_anonymous private v ctx = Context_derive (private v) v ctx"

definition with_context_value ::
  "string \<Rightarrow> 'v \<Rightarrow> ('v context_chain \<Rightarrow> 's \<Rightarrow> 's) \<Rightarrow> 'v context_chain \<Rightarrow> 's \<Rightarrow> 'v context_chain \<times> 's" where
  "with_context_value k v work current = with_context (Context_derive k v current) work current"

section \<open>What travels with a request\<close>

datatype context_value = OffsetEncodingContext (encoding: OffsetEncoding) | PathMappingContext (mapping: "PathMapping option")

definition offsetEncodingContextKey :: string where "offsetEncodingContextKey = ''offsetEncodingContextKey''"
definition pathMappingContextKey :: string where "pathMappingContextKey = ''pathMappingContextKey''"

text \<open>A key has the type of its values, so under each of the two keys there is only one kind of value.\<close>

definition currentOffsetEncodingContext :: "context_value context_chain \<Rightarrow> OffsetEncoding" where
  "currentOffsetEncodingContext ctx =
     (case Context_get offsetEncodingContextKey ctx of Some v \<Rightarrow> encoding v | None \<Rightarrow> Utf16)"

definition currentOffsetEncoding :: "context_value context_chain \<Rightarrow> OffsetEncoding" where
  "currentOffsetEncoding ctx = currentOffsetEncodingContext ctx"

definition withOffsetEncodingContext :: "OffsetEncoding \<Rightarrow> context_value context_chain \<Rightarrow> context_value context_chain" where
  "withOffsetEncodingContext e current = Context_derive offsetEncodingContextKey (OffsetEncodingContext e) current"

definition currentPathMapping :: "context_value context_chain \<Rightarrow> PathMapping option" where
  "currentPathMapping ctx =
     (case Context_get pathMappingContextKey ctx of Some v \<Rightarrow> mapping v | None \<Rightarrow> None)"

definition withPathMapping :: "PathMapping option \<Rightarrow> context_value context_chain \<Rightarrow> context_value context_chain" where
  "withPathMapping m current = Context_derive pathMappingContextKey (PathMappingContext m) current"

definition GetOffsetForPositionInContext :: "lsPosition \<Rightarrow> string \<Rightarrow> context_value context_chain \<Rightarrow> int" where
  "GetOffsetForPositionInContext position content ctx =
     GetOffsetForPositionWithEncoding position content (currentOffsetEncoding ctx)"

definition GetPositionForOffsetInContext :: "nat \<Rightarrow> string \<Rightarrow> context_value context_chain \<Rightarrow> lsPosition" where
  "GetPositionForOffsetInContext offset content ctx =
     GetPositionForOffsetWithEncoding offset content (currentOffsetEncoding ctx)"

section \<open>Properties\<close>

text \<open>The innermost setting counts, the two settings do not interfere, and without any the encoding is UTF-16.\<close>

lemma settings_are_scoped:
  "currentOffsetEncoding Context_empty = Utf16" "currentPathMapping Context_empty = None"
  "currentOffsetEncoding (withOffsetEncodingContext e ctx) = e" "currentPathMapping (withOffsetEncodingContext e ctx) = currentPathMapping ctx"
  "currentOffsetEncoding (withPathMapping m ctx) = currentOffsetEncoding ctx" "currentPathMapping (withPathMapping m ctx) = m"
  by (simp_all add: currentOffsetEncoding_def currentOffsetEncodingContext_def currentPathMapping_def withOffsetEncodingContext_def
      withPathMapping_def Context_derive_def Context_empty_def offsetEncodingContextKey_def pathMappingContextKey_def)

text \<open>A value that is set for a scope is seen in the scope and gone after it.\<close>

lemma with_context_value_scoped: "with_context_value k v work current s = (current, work (Context_derive k v current) s)"
  by (simp add: with_context_value_def with_context_def swapCurrent_def)

text \<open>In every context the two conversions of a request invert each other at the boundaries of characters.\<close>

lemma position_in_context_roundtrip:
  assumes "wf_text False s" "length s < 2 ^ 31" "boundary i s"
  shows "GetOffsetForPositionInContext (GetPositionForOffsetInContext i s ctx) s ctx = int i"
proof (cases "currentOffsetEncoding ctx")
  case Utf16
  then show ?thesis using GetOffset_GetPosition_boundary [OF assms]
    by (simp add: GetOffsetForPositionInContext_def GetPositionForOffsetInContext_def GetOffsetForPositionWithEncoding_def GetPositionForOffsetWithEncoding_def)
next
  case Utf8
  have "i \<le> length s" using assms(3) by (simp add: boundary_def)
  then show ?thesis using GetOffset_GetPosition_utf8 [OF _ assms(2)] Utf8
    by (simp add: GetOffsetForPositionInContext_def GetPositionForOffsetInContext_def)
qed

end
