(* ===== verification/Process_Watcher.thy ===== *)
theory Process_Watcher
  imports Fd_Stream "HOL-Library.Word"
begin

text \<open>
  \<^verbatim>\<open>lsp/ParentProcessWatcher.cpp\<close> with \<^verbatim>\<open>SimpleTimer.h\<close>: a server asks from time to time whether the process that started it still exists, and calls \<open>on_exit\<close> when it
  does not.  A check runs a command in a thread of its own and posts the result to the thread of the watcher, which arms a timer for the next check or, after a delay in yet another
  thread, calls \<open>on_exit\<close>.  The state counts what is under way, and each step is one of these activities coming to its end.
\<close>

unbundle bit_operations_syntax

section \<open>The result of a check\<close>

text \<open>What \<^verbatim>\<open>std::system\<close> returns; the macros of \<^verbatim>\<open>sys/wait.h\<close> take it apart.\<close>

definition WIFEXITED :: "32 word \<Rightarrow> bool" where
  "WIFEXITED status \<longleftrightarrow> status AND 0x7F = 0"

definition WEXITSTATUS :: "32 word \<Rightarrow> int" where
  "WEXITSTATUS status = uint (drop_bit 8 (status AND 0xFF00))"

definition exit_code_of :: "32 word \<Rightarrow> int" where
  "exit_code_of status =
     (if status = - 1 then 2
      else if WIFEXITED status then WEXITSTATUS status else sint status)"

section \<open>The watcher\<close>

text \<open>\<open>results\<close> and \<open>notices\<close> are the handlers posted to the thread of the watcher; \<open>codes\<close> are all exit codes so far.\<close>

record watcher =
  watch_command :: string
  poll_delay :: nat
  has_on_exit :: bool
  checks :: nat
  results :: "int list"
  delays :: nat
  notices :: nat
  armed :: bool
  exits :: nat
  codes :: "int list"
  destroyed :: bool
  watcher_log :: "string list"

definition watcher_command :: "int \<Rightarrow> string" where
  "watcher_command p = ''ps -p '' @ to_string_int p"

text \<open>\<^verbatim>\<open>run\<close> starts a check.\<close>

definition watcher_run :: "watcher \<Rightarrow> watcher" where
  "watcher_run w = w\<lparr>checks := checks w + 1\<rparr>"

definition make_watcher :: "int \<Rightarrow> nat \<Rightarrow> bool \<Rightarrow> watcher" where
  "make_watcher p delay call_back =
     watcher_run
       \<lparr>watch_command = watcher_command p, poll_delay = delay, has_on_exit = call_back, checks = 0, results = [], delays = 0, notices = 0, armed = False,
        exits = 0, codes = [], destroyed = False, watcher_log = []\<rparr>"

text \<open>The thread of a check, at the end of the command.\<close>

definition check_ends :: "32 word \<Rightarrow> watcher \<Rightarrow> watcher" where
  "check_ends status w =
     w\<lparr>checks := checks w - 1, results := results w @ [exit_code_of status], codes := codes w @ [exit_code_of status],
       watcher_log := watcher_log w @ (if status = - 1 then [''System call failed for command: '' @ CHR 0x27 # watch_command w @ CHR 0x27 # ''.''] else [])\<rparr>"

text \<open>The handler of a result.\<close>

definition handle_result :: "watcher \<Rightarrow> watcher" where
  "handle_result w =
     (case results w of
        [] \<Rightarrow> w
      | c # cs \<Rightarrow>
          let w1 = w\<lparr>results := cs\<rparr> in
          if c = 1 then (if has_on_exit w1 then w1\<lparr>delays := delays w1 + 1\<rparr> else w1)
          else
            let w2 = (if c > 1 then w1\<lparr>watcher_log := watcher_log w1 @ [''The tasklist command: '' @ CHR 0x27 # watch_command w1 @ CHR 0x27 # '' returned '' @ to_string_int c]\<rparr> else w1)
            in w2\<lparr>armed := True\<rparr>)"

definition delay_ends :: "watcher \<Rightarrow> watcher" where
  "delay_ends w = w\<lparr>delays := delays w - 1, notices := notices w + 1\<rparr>"

definition call_on_exit :: "watcher \<Rightarrow> watcher" where
  "call_on_exit w = w\<lparr>notices := notices w - 1, exits := exits w + 1\<rparr>"

text \<open>The timer fires, and the destructor stops a timer.\<close>

definition timer_fires :: "watcher \<Rightarrow> watcher" where
  "timer_fires w = watcher_run (w\<lparr>armed := False\<rparr>)"

definition destroy_watcher :: "watcher \<Rightarrow> watcher" where
  "destroy_watcher w = w\<lparr>armed := False, destroyed := True\<rparr>"

inductive watcher_step :: "watcher \<Rightarrow> watcher \<Rightarrow> bool" where
  check: "0 < checks w \<Longrightarrow> watcher_step w (check_ends status w)"
| result: "watcher_step w (handle_result w)"
| delay: "0 < delays w \<Longrightarrow> watcher_step w (delay_ends w)"
| notice: "0 < notices w \<Longrightarrow> watcher_step w (call_on_exit w)"
| timer: "armed w \<Longrightarrow> watcher_step w (timer_fires w)"
| destroy: "watcher_step w (destroy_watcher w)"

inductive watcher_reach :: "watcher \<Rightarrow> bool" where
  init: "watcher_reach (make_watcher p delay call_back)"
| step: "watcher_reach w \<Longrightarrow> watcher_step w w' \<Longrightarrow> watcher_reach w'"

section \<open>One activity at a time\<close>

definition activities_of :: "watcher \<Rightarrow> nat" where
  "activities_of w = checks w + length (results w) + delays w + notices w + exits w + (if armed w then 1 else 0)"

definition watcher_ok :: "watcher \<Rightarrow> bool" where
  "watcher_ok w \<longleftrightarrow>
     activities_of w \<le> 1 \<and> set (results w) \<subseteq> set (codes w) \<and>
     (activities_of w = 0 \<longrightarrow> destroyed w \<or> \<not> has_on_exit w \<and> 1 \<in> set (codes w)) \<and>
     (0 < delays w + notices w + exits w \<longrightarrow> has_on_exit w \<and> 1 \<in> set (codes w)) \<and>
     (1 \<in> set (codes w) \<longrightarrow> activities_of w = 0 \<or> 0 < delays w + notices w + exits w \<or> 1 \<in> set (results w))"

lemma watcher_step_ok:
  assumes "watcher_step w w'" "watcher_ok w"
  shows "watcher_ok w'"
  using assms
proof (cases rule: watcher_step.cases)
  case (check status)
  have "checks w = 1 \<and> results w = [] \<and> delays w = 0 \<and> notices w = 0 \<and> exits w = 0 \<and> \<not> armed w"
    using check(2) assms(2) by (cases "results w"; cases "armed w") (auto simp: watcher_ok_def activities_of_def)
  then show ?thesis using check assms(2) by (auto simp: watcher_ok_def activities_of_def check_ends_def)
next
  case result
  then show ?thesis using assms(2)
    by (cases "results w") (auto simp: watcher_ok_def activities_of_def handle_result_def Let_def)
qed (cases "results w"; auto simp: watcher_ok_def activities_of_def delay_ends_def call_on_exit_def timer_fires_def watcher_run_def destroy_watcher_def split: if_splits)+

lemma watcher_reach_ok: "watcher_reach w \<Longrightarrow> watcher_ok w"
proof (induction rule: watcher_reach.induct)
  case (init p delay call_back)
  then show ?case by (simp add: make_watcher_def watcher_run_def watcher_ok_def activities_of_def)
qed (rule watcher_step_ok)

text \<open>Whatever the order of its threads, a watcher does one thing at a time: it calls its call-back at most once, and only after a check has ended with the code that says
  that the process is gone; as long as it is not destroyed and no check has said so, a check, its result or the timer for the next check is under way, so the watch goes on.\<close>

theorem watcher_notifies_once:
  assumes "watcher_reach w"
  shows "exits w \<le> 1 \<and> (exits w = 1 \<longrightarrow> 1 \<in> set (codes w)) \<and>
    (\<not> destroyed w \<and> 1 \<notin> set (codes w) \<longrightarrow> checks w + length (results w) + (if armed w then 1 else 0) = 1) \<and>
    (\<not> destroyed w \<and> has_on_exit w \<and> 1 \<in> set (codes w) \<longrightarrow> 1 \<in> set (results w) \<or> delays w + notices w + exits w = 1)"
  using watcher_reach_ok [OF assms] by (cases "results w") (auto simp: watcher_ok_def activities_of_def split: if_splits)

definition sample_watcher :: watcher where
  "sample_watcher = call_on_exit (delay_ends (handle_result (check_ends 0x100 (timer_fires (handle_result (check_ends 0 (make_watcher 7 10 True)))))))"

theorem watcher_notifies_once_witness: "exits sample_watcher = 1 \<and> codes sample_watcher = [0, 1] \<and> 1 \<in> set (codes sample_watcher)"
proof -
  have e: "exit_code_of 0 = 0" "exit_code_of 0x100 = 1" by (simp_all add: exit_code_of_def WIFEXITED_def WEXITSTATUS_def)
  have s: "exits sample_watcher = 1" "codes sample_watcher = [0, 1]"
    by (simp_all add: sample_watcher_def make_watcher_def watcher_run_def check_ends_def handle_result_def timer_fires_def delay_ends_def call_on_exit_def e Let_def)
  let ?w = "make_watcher 7 10 True"
  have "watcher_reach sample_watcher" unfolding sample_watcher_def
    by (rule watcher_reach.step [OF _ watcher_step.notice], rule watcher_reach.step [OF _ watcher_step.delay], rule watcher_reach.step [OF _ watcher_step.result],
        rule watcher_reach.step [OF _ watcher_step.check], rule watcher_reach.step [OF _ watcher_step.timer], rule watcher_reach.step [OF _ watcher_step.result],
        rule watcher_reach.step [OF _ watcher_step.check], rule watcher_reach.init)
      (simp_all add: make_watcher_def watcher_run_def check_ends_def handle_result_def timer_fires_def delay_ends_def call_on_exit_def e Let_def)
  from watcher_notifies_once [OF this] s show ?thesis by simp
qed

text \<open>A check that is ended by the hang-up signal has the status 1 and counts as the news that the process is gone.\<close>

lemma hangup_counts_as_exit: "\<not> WIFEXITED 1 \<and> exit_code_of 1 = 1"
  by (simp add: exit_code_of_def WIFEXITED_def)

text \<open>
  The destructor only stops a timer.  A watcher that is destroyed while a check runs goes on: the check re-arms the timer and in the end the call-back is called.
\<close>

lemma destroyed_watcher_goes_on: "\<exists>w. watcher_reach w \<and> destroyed w \<and> exits w = 1"
proof -
  let ?w = "destroy_watcher (make_watcher 7 10 True)"
  let ?v = "check_ends 0x100 ?w"
  have e: "exit_code_of 0x100 = 1" by (simp add: exit_code_of_def WIFEXITED_def WEXITSTATUS_def)
  have "watcher_reach (call_on_exit (delay_ends (handle_result ?v)))"
    by (rule watcher_reach.step [OF _ watcher_step.notice], rule watcher_reach.step [OF _ watcher_step.delay], rule watcher_reach.step [OF _ watcher_step.result],
        rule watcher_reach.step [OF _ watcher_step.check], rule watcher_reach.step [OF _ watcher_step.destroy], rule watcher_reach.init)
      (simp_all add: make_watcher_def watcher_run_def check_ends_def handle_result_def destroy_watcher_def delay_ends_def call_on_exit_def e Let_def)
  moreover have "destroyed (call_on_exit (delay_ends (handle_result ?v))) \<and> exits (call_on_exit (delay_ends (handle_result ?v))) = 1"
    by (simp add: make_watcher_def watcher_run_def check_ends_def handle_result_def destroy_watcher_def delay_ends_def call_on_exit_def e Let_def)
  ultimately show ?thesis by blast
qed

end
