(* ===== verification/Spec2Isabelle.thy ===== *)
theory Spec2Isabelle
  imports Delimited_Framing Framing_Totality Working_Files Endpoint_Properties Threaded_Queue Lru_Cache Markup Protocol_Wire Protocol_Names
    Client_Preferences Lsp_Any Child_Process Windows_Process Network_Server Language_Session Request_Context Process_Watcher
begin

text \<open>
  A verification library for LspCpp, a C++ implementation of the Language Server Protocol: a JSON-RPC endpoint over a
  byte stream, the JSON form of every message and structure of the protocol, and the document, path, position and markup utilities
  that a server uses with it.

  \<^bold>\<open>Parts of the program and their theories.\<close>  Sources are relative to \<^verbatim>\<open>src/\<close>; headers are under \<^verbatim>\<open>include/LibLsp\<close>.

  \<^item> \<^verbatim>\<open>Lsp_Prelude\<close>: bytes, the parts of \<^verbatim>\<open>std::string\<close> and of the C library the sources use, and the locales
    \<^verbatim>\<open>functional_refinement\<close> and \<^verbatim>\<open>codec\<close>.  \<^verbatim>\<open>Std_Map\<close>: \<^verbatim>\<open>std::map\<close> as an association list sorted by key, with its laws as
    the locale \<^verbatim>\<open>map_laws\<close>.
  \<^item> \<^verbatim>\<open>Input_Stream\<close> (\<^verbatim>\<open>JsonRpc/stream.h\<close>): the stream interface as a record of operations, its contract as the locales
    \<^verbatim>\<open>byte_stream\<close> and \<^verbatim>\<open>byte_source\<close> (a stream that tells at its end that it has ended), interpreted by \<^verbatim>\<open>base_istream\<close> and \<^verbatim>\<open>standard_istream\<close>.
  \<^item> \<^verbatim>\<open>Fd_Stream\<close> (\<^verbatim>\<open>JsonRpc/stream.h\<close>, \<^verbatim>\<open>jsonrpc/Process.cpp\<close>): the streams over file descriptors, \<^verbatim>\<open>stdin_istream\<close> and the POSIX pipes, with what the kernel answers to
    \<^verbatim>\<open>poll\<close>, \<^verbatim>\<open>read\<close> and \<^verbatim>\<open>write\<close> as part of the state, and the output streams (locale \<^verbatim>\<open>byte_sink\<close>).  \<^verbatim>\<open>Child_Process\<close> and \<^verbatim>\<open>Windows_Process\<close> (\<^verbatim>\<open>jsonrpc/Process.cpp\<close>): the
    life of a child process with the table of descriptors, the children and the handles as state, and the quoting of command lines.
  \<^item> \<^verbatim>\<open>Network_Stream\<close> and \<^verbatim>\<open>Network_Server\<close> (\<^verbatim>\<open>jsonrpc/TcpServer.cpp\<close>, \<^verbatim>\<open>jsonrpc/WebSocketServer.cpp\<close>): connections as streams of events, the output queue of a session, and both
    servers around the endpoint of \<^verbatim>\<open>Remote_Endpoint\<close>; the contract \<^verbatim>\<open>byte_stream\<close> is interpreted by both kinds of connection.
  \<^item> \<^verbatim>\<open>Message_Framing\<close> and \<^verbatim>\<open>Delimited_Framing\<close> (\<^verbatim>\<open>jsonrpc/StreamMessageProducer.cpp\<close>): the reading loops of the two styles.  The
    first refines \<^const>\<open>serve\<close>, a loop over messages; input may end anywhere, frames may exceed the limit, headers may be foreign.
    The second refines a scanner over separator lines.  \<^verbatim>\<open>Framing_Totality\<close>: the first loop ends on every input, framed or not.
  \<^item> \<^verbatim>\<open>Rpc_Message\<close> (\<^verbatim>\<open>RemoteEndPoint::parseAndClassify\<close>, \<^verbatim>\<open>MessageJsonHandler\<close>, \<^verbatim>\<open>Endpoint.cpp\<close>): the kinds of message and every path
    that parsing can take, over an arbitrary JSON parser and an arbitrary table of parsers for the methods.
  \<^item> \<^verbatim>\<open>Json_Reflect\<close> (\<^verbatim>\<open>JsonRpc/serializer.h\<close>, \<^verbatim>\<open>JsonRpc/json.h\<close>, \<^verbatim>\<open>jsonrpc/serializer.cpp\<close>, and the overloads of \<^verbatim>\<open>lsp/lsp.cpp\<close>, \<^verbatim>\<open>lsp/textDocument.cpp\<close>,
    \<^verbatim>\<open>lsp/initialize.cpp\<close>): the reflection macros and all overloads of \<^verbatim>\<open>Reflect\<close>.  A C++ type is a value of \<^typ>\<open>ty\<close> (a struct is the
    list that the macro gets), an object a \<^typ>\<open>val\<close>; \<^const>\<open>Reflect_read\<close> and \<^const>\<open>Reflect_write\<close> interpret the type as the templates do,
    exceptions and the place where they leave the reader included.  \<^verbatim>\<open>Json_Typing\<close>, \<^verbatim>\<open>Json_Document\<close> and \<^verbatim>\<open>Json_Roundtrip\<close> prove that
    reading is type-safe, that writing yields one well-formed document, and when it is read back (locale \<^verbatim>\<open>wire_format\<close>).
  \<^item> \<^verbatim>\<open>Protocol_Core\<close>, \<^verbatim>\<open>Protocol_Capabilities\<close>, \<^verbatim>\<open>Protocol_Features\<close>, \<^verbatim>\<open>Protocol_Extensions\<close> (the headers under \<^verbatim>\<open>lsp/\<close>): the 253 structures and
    enumerations, member by member.  \<^verbatim>\<open>Protocol_Messages\<close>: the 114 requests and notifications.  \<^verbatim>\<open>Protocol_Handler\<close> (\<^verbatim>\<open>lsp/ProtocolJsonHandler.cpp\<close>):
    the parsers and their registration.  \<^verbatim>\<open>Protocol_Properties\<close> and \<^verbatim>\<open>Protocol_Wire\<close>: what holds of all of them.
  \<^item> \<^verbatim>\<open>Lsp_Any\<close> (\<^verbatim>\<open>lsp/lsAny.h\<close>, \<^verbatim>\<open>lsp/lsp.cpp\<close>): values kept as JSON text.  \<^verbatim>\<open>Client_Preferences\<close> (\<^verbatim>\<open>lsp/ClientPreferences.h\<close>): the queries about the
    client's capabilities.  \<^verbatim>\<open>Protocol_Names\<close> (\<^verbatim>\<open>lsp/textDocument.cpp\<close>, \<^verbatim>\<open>lsp/lsp.cpp\<close>, \<^verbatim>\<open>lsp/lsp_diagnostic.cpp\<close>): names, printed forms, semantic tokens,
    the order of locations (locales \<^verbatim>\<open>strict_order\<close> and \<^verbatim>\<open>tuple_order\<close>), and registration identifiers.
  \<^item> \<^verbatim>\<open>Message_Routing\<close>, \<^verbatim>\<open>Ordered_Dispatch\<close>, \<^verbatim>\<open>Pending_Requests\<close>, \<^verbatim>\<open>Request_Cancellation\<close>, \<^verbatim>\<open>Session_Output\<close>: the parts of
    \<^verbatim>\<open>RemoteEndPoint::Data\<close>, each with its state as a record and each locked section as one operation: the reorder buffer, the
    notification queue with parked requests, the table of outgoing requests, the cancellation registry, and the output of a session.
  \<^item> \<^verbatim>\<open>Remote_Endpoint\<close> and \<^verbatim>\<open>Endpoint_Properties\<close> (\<^verbatim>\<open>jsonrpc/RemoteEndPoint.cpp\<close>, \<^verbatim>\<open>RemoteEndPoint.h\<close>): the whole endpoint.  A thread pool is the list of
    its tasks, a running handler an entry of \<^const>\<open>running_requests\<close>; the relation \<^const>\<open>endpoint_step\<close> performs one locked section or one
    task at a time, in any order, with the results of handlers and futures chosen freely.  \<^verbatim>\<open>Request_Futures\<close> (\<^verbatim>\<open>JsonRpc/future.h\<close>, \<^verbatim>\<open>RemoteEndPoint.h\<close>, \<^verbatim>\<open>lsp/BindLspHandler.h\<close>): what the
    program sees of the requests it sends.  \<^verbatim>\<open>Request_Rounds\<close>: one request after the other through the whole endpoint, with the answer that each gets.  \<^verbatim>\<open>Language_Session\<close> (\<^verbatim>\<open>lsp/LanguageSession.h\<close>,
    \<^verbatim>\<open>JsonRpc/Transport.h\<close>): the classes that programs use, and the way from a serialized request to its answer.  \<^verbatim>\<open>Request_Context\<close> (\<^verbatim>\<open>lsp/request_context.cpp\<close>): what travels with
    a request.  \<^verbatim>\<open>Process_Watcher\<close> (\<^verbatim>\<open>lsp/ParentProcessWatcher.cpp\<close>): the watch over the process that started a server.
  \<^item> \<^verbatim>\<open>Text_Position\<close> (\<^verbatim>\<open>lsp/utils.cpp\<close>, \<^verbatim>\<open>lsp/offset_encoding.cpp\<close>), \<^verbatim>\<open>Working_Files\<close> (\<^verbatim>\<open>lsp/working_files.cpp\<close>): positions, offsets in both
    encodings, the offset of a position as the protocol defines it, and the open documents, which refine a map from paths to texts edited by that definition.
  \<^item> \<^verbatim>\<open>Lsp_Utils\<close> (\<^verbatim>\<open>lsp/utils.cpp\<close>) and \<^verbatim>\<open>Lsp_Uri\<close> (\<^verbatim>\<open>lsp/uri.cpp\<close>, \<^verbatim>\<open>lsp/path_mapping.cpp\<close>, the URI part of \<^verbatim>\<open>lsp/lsp.cpp\<close>): strings, path normalisation
    with the file system as a parameter, percent coding, file URIs and path mapping.
  \<^item> \<^verbatim>\<open>Threaded_Queue\<close> (\<^verbatim>\<open>JsonRpc/threaded_queue.h\<close>, \<^verbatim>\<open>Condition.h\<close>) and \<^verbatim>\<open>Lru_Cache\<close> (\<^verbatim>\<open>lsp/lru_cache.h\<close>).
  \<^item> \<^verbatim>\<open>String_Ref\<close> (\<^verbatim>\<open>lsp/Markup/string_ref.h\<close>) and \<^verbatim>\<open>Markup\<close> (\<^verbatim>\<open>lsp/Markup.cpp\<close>): the string class and the markdown renderer.

  This theory connects the reading loop with the endpoint, the endpoint with its peer, and the frames with the messages in them.

  \<^bold>\<open>What is shown.\<close>  Framing: the loop hands over exactly the messages on the wire, in order; cut input loses only the cut frame.
  Transport: the same holds over standard input, pipes and connections however their bytes are cut, delayed or interrupted; what is written to a pipe or a connection is sent in order;
  processes are wired as documented and leak no descriptors, and no children but those whose \<^verbatim>\<open>waitpid\<close> is interrupted; a server serves one connection at a time.  Endpoint: the
  frames of the input become parse tasks in the order of the wire; what a session writes is whole frames, with at most a cut one at the end of a stream that failed; a session
  answers each protocol request of a client once, in order, with the outcome of its handler; messages are routed in the order of the wire although they are parsed in parallel; notifications run one by
  one and a request only after the notifications before it; an outgoing request is completed at most once, by its own
  response or by stopping; a cancel reaches the monitor of the running request it names; the future of a sent request is settled once, at the latest by stopping; each request that is received is answered once, with
  its result or with the error that JSON-RPC prescribes; an ended session writes nothing more; the configured limits bound the work that waits.  Documents: positions and offsets invert each
  other, the open documents are what the protocol says that edits by line and UTF-16 unit make of them, cached line offsets are right.  Paths and URIs: normalisation resolves component by
  component, every codec can be read back.  Markup: escaping and fences cannot be broken by the text.  Protocol: a value of every structure outside
  the listed exceptions is read back as it was written, reading yields values of the static type, each request, notification, response and
  error arrives as it was sent, and queries about the client answer what its JSON text says.  Where the code does not do what it says, a lemma exhibits it (the two defects of restarting
  and the stop that waits for itself in \<^verbatim>\<open>Endpoint_Properties\<close>, the race of connections in \<^verbatim>\<open>Network_Server\<close>, the forgotten child in \<^verbatim>\<open>Child_Process\<close>, the last sections of \<^verbatim>\<open>String_Ref\<close> and \<^verbatim>\<open>Markup\<close>, the score overflow of \<^verbatim>\<open>Lru_Cache\<close>, the lost empty results of \<^verbatim>\<open>Protocol_Wire\<close>, and others beside the
  operation concerned).

  \<^bold>\<open>Bounds and fuel.\<close>  Only the outer loop of \<^const>\<open>listen\<close> (and of its delimited counterpart) takes fuel, one unit per round; the
  theorems hold for every fuel above the number of messages plus the number of bytes on the wire, and state the result, so that the loop is shown
  to end.  All other loops are total functions with a measure, apart from \<^const>\<open>replace\<close>, which can run for ever and is a partial
  function.  The readers recurse on the JSON value and the type; the general reader of pairs continues where an exception left it, and that place is shown to be
  no larger than where it started.  The lists of answers of the kernel and of events of a connection are finite, and after them reads and writes succeed and the connection ends;
  since the lists are arbitrary this bounds nothing that a run can show.  Machine integers are words or bounded integers where their width matters: content lengths, positions, cookies, scores, counters of backticks.

  \<^bold>\<open>Not modelled.\<close>  The garbage collector glue, clocks and time-outs, which are choices of the environment; asio and ixwebsocket, which appear as events and completions
  in any order; rapidjson itself, whose printing and
  parsing of values are parameters (\<^typ>\<open>jsonlib\<close>); the MessagePack format, for which no reader or writer exists; printf-style formatting; Windows path calls and directory
  listing.  A floating point number is the text it is printed as.
  Relaxed memory order is not modelled: an atomic is read and written in the order of the steps.  A section under a mutex is one step, the write of a frame under the send mutex included,
  and a wait for a mutex is a step that is not possible yet; where a thread waits for a mutex that it holds itself, the state says so (\<^const>\<open>routing_stuck\<close>).
\<close>

section \<open>The producer thread and the endpoint\<close>

text \<open>
  The reading loop is run with the endpoint as the state of its call-back: every frame it hands over goes to \<^const>\<open>receive\<close> and
  every oversized one to \<^const>\<open>handleOverload\<close>, both of which are steps of the endpoint.
\<close>

lemma callBack_endpoint:
  "callBack (endpoint_producer to_json lim) m s =
     (snd (receive to_json m s), fst (receive to_json m s) = None \<and> endpoint.keepRunning (snd (receive to_json m s)))"
  by (simp add: endpoint_producer_def split: prod.splits)

lemma length_frames: "length ms \<le> length (concat (map WriterMsg ms))"
proof (induction ms)
  case (Cons m ms)
  have "1 \<le> length (WriterMsg m)" by (simp add: WriterMsg_def)
  with Cons show ?case by simp
qed simp

text \<open>The endpoint after it has taken some texts: each has the next number and waits for a parsing worker.\<close>

definition queued :: "string list \<Rightarrow> endpoint \<Rightarrow> endpoint" where
  "queued ms s =
     s\<lparr>parse_tasks := parse_tasks s @ zip ms [next_message_sequence s..<next_message_sequence s + length ms],
       next_message_sequence := next_message_sequence s + length ms, parse_queue_size := parse_queue_size s + length ms\<rparr>"

definition takes_texts :: "endpoint \<Rightarrow> nat \<Rightarrow> bool" where
  "takes_texts s n \<longleftrightarrow>
     \<not> quit s \<and> has_pools s \<and> endpoint.keepRunning s \<and> \<not> routing_stuck s \<and>
     (max_parse_queue_size (limits s) = 0 \<or> parse_queue_size s + n \<le> max_parse_queue_size (limits s))"

lemma queued_Nil [simp]: "queued [] s = s"
  by (simp add: queued_def)

lemma receive_queues:
  assumes "takes_texts s (Suc n)"
  shows "receive to_json m s = (None, queued [m] s)" "takes_texts (queued [m] s) n"
  using assms by (auto simp: takes_texts_def receive_def postParseTask_def acquireParseQueueSlot_def queued_def)

lemma queued_Cons: "queued ms (queued [m] s) = queued (m # ms) s"
  by (simp add: queued_def upt_conv_Cons del: upt_Suc)

lemma takes_texts_log [simp]: "takes_texts (log ls s) n = takes_texts s n"
  by (simp add: takes_texts_def log_def)

lemma queued_log: "queued ms (log ls s) = log ls (queued ms s)"
  by (simp add: queued_def log_def)

definition oversized_log :: "nat \<Rightarrow> string \<Rightarrow> log_line" where
  "oversized_log limit m = (LogWarning, ''RemoteEndPoint overload: '' @ overload_text (length m) limit)"

text \<open>What the endpoint does with a list of frames, by its policy for overload.\<close>

lemma serve_queues:
  assumes "takes_texts s (length (filter (\<lambda>m. \<not> oversized (endpoint_producer to_json lim) (length m)) ms))" "limits s = lim" "policy lim = DropNewest"
  shows "fst (snd (serve (endpoint_producer to_json lim) (map Frame ms) s iss)) =
    log (map (oversized_log (max_frame_size lim)) (filter (\<lambda>m. oversized (endpoint_producer to_json lim) (length m)) ms))
      (queued (filter (\<lambda>m. \<not> oversized (endpoint_producer to_json lim) (length m)) ms) s)"
  using assms
proof (induction ms arbitrary: s iss)
  case Nil
  then show ?case by (simp add: log_def)
next
  case (Cons m ms)
  let ?P = "endpoint_producer to_json lim"
  let ?small = "\<lambda>m. \<not> oversized ?P (length m)" and ?line = "oversized_log (max_frame_size lim)"
  show ?case
  proof (cases "oversized ?P (length m)")
    case True
    let ?x = "overload_text (length m) (maxFrameSize ?P)" and ?s = "log [?line m] s"
    have o: "overloadHandler ?P = Some handleOverload" "handleOverload ?x s = (True, ?s)"
      using Cons.prems(2,3) by (simp_all add: endpoint_producer_def handleOverload_def oversized_log_def Let_def)
    have lim: "limits ?s = lim" using Cons.prems(2) by (simp add: log_def)
    have "takes_texts ?s (length (filter ?small ms))" using Cons.prems(1) True by simp
    from Cons.IH [OF this lim Cons.prems(3)] True o show ?thesis by (simp add: queued_log) (simp add: log_def)
  next
    case False
    have t: "takes_texts s (Suc (length (filter ?small ms)))" using Cons.prems(1) False by simp
    have "endpoint.keepRunning (queued [m] s)" "limits (queued [m] s) = lim" using t Cons.prems(2) by (simp_all add: takes_texts_def queued_def)
    then show ?thesis using Cons.IH [OF receive_queues(2) [OF t]] False Cons.prems(3)
      by (simp add: callBack_endpoint receive_queues(1) [OF t] queued_Cons)
  qed
qed

lemma serve_stops:
  assumes "takes_texts s (length (takeWhile (\<lambda>m. \<not> oversized (endpoint_producer to_json lim) (length m)) ms))" "limits s = lim" "policy lim \<noteq> DropNewest"
  shows "fst (snd (serve (endpoint_producer to_json lim) (map Frame ms) s iss)) =
    (let q = queued (takeWhile (\<lambda>m. \<not> oversized (endpoint_producer to_json lim) (length m)) ms) s
     in case dropWhile (\<lambda>m. \<not> oversized (endpoint_producer to_json lim) (length m)) ms of
          [] \<Rightarrow> q | m # _ \<Rightarrow> stop (log [oversized_log (max_frame_size lim) m] q))"
  using assms
proof (induction ms arbitrary: s iss)
  case (Cons m ms)
  let ?P = "endpoint_producer to_json lim"
  show ?case
  proof (cases "oversized ?P (length m)")
    case True
    then show ?thesis using Cons.prems(2,3)
      by (simp add: endpoint_producer_def handleOverload_def oversized_log_def oversized_def Let_def)
  next
    case False
    have t: "takes_texts s (Suc (length (takeWhile (\<lambda>m. \<not> oversized ?P (length m)) ms)))" using Cons.prems(1) False by simp
    have "endpoint.keepRunning (queued [m] s)" "limits (queued [m] s) = lim" using t Cons.prems(2) by (simp_all add: takes_texts_def queued_def)
    then show ?thesis using Cons.IH [OF receive_queues(2) [OF t]] False Cons.prems(3)
      by (simp add: callBack_endpoint receive_queues(1) [OF t] queued_Cons Let_def)
  qed
qed simp

text \<open>C6: A working endpoint that has room for them takes the frames of its input in the order of the wire.  With the policy to drop, every frame within the size limit becomes a
  parse task with the next number, and each oversized one only a line of the log; with the policy to stop, the frames before the first oversized one are taken, and if there is
  one the endpoint has stopped, its tasks are dropped, and no frame after it was taken.\<close>

theorem listen_queues_in_order:
  assumes "P = endpoint_producer to_json (limits s)" "small = (\<lambda>m. \<not> oversized P (length m))"
    and "takes_texts s (length (filter small ms))" "working s"
    and "std_ok t" "content t = concat (map WriterMsg ms)" "list_all (\<lambda>m. int (length m) \<le> INT_MAX) ms" "2 * length (content t) + 1 < fuel"
  shows "\<exists>l'. listen fuel P standard_istream (Some t) s = Some (Some l') \<and>
    (if policy (limits s) = DropNewest \<or> list_all small ms
     then parse_tasks (consumer l') =
            parse_tasks s @ zip (filter small ms) [next_message_sequence s..<next_message_sequence s + length (filter small ms)] \<and>
          next_message_sequence (consumer l') = next_message_sequence s + length (filter small ms) \<and> working (consumer l') \<and>
          length (log_lines (consumer l')) = length (log_lines s) + length (filter (\<lambda>m. \<not> small m) ms)
     else parse_tasks (consumer l') = [] \<and> next_message_sequence (consumer l') = next_message_sequence s + length (takeWhile small ms) \<and>
          \<not> working (consumer l') \<and> quit (consumer l'))"
proof -
  have valid: "list_all valid_item (map Frame ms)" using assms(7) by (auto simp: list_all_iff valid_item_def)
  have c: "content t = concat (map wire (map Frame ms))" by (simp add: assms(6) wire_def o_def)
  have f: "length (map Frame ms) + length (content t) + 1 < fuel" using assms(8) length_frames [of ms] unfolding assms(6) by simp
  obtain l' where l: "listen fuel P standard_istream (Some t) s = Some (Some l')" "(consumer l', issues l') = snd (serve P (map Frame ms) s [])"
    using standard.listen_serves_generic [OF assms(5) valid c f, where P = P and c = s] by (elim exE conjE)
  have con: "consumer l' = fst (snd (serve P (map Frame ms) s []))" by (simp add: l(2) [symmetric])
  have pools: "has_pools (queued xs s)" "working (queued xs s)" for xs using assms(3,4) by (simp_all add: takes_texts_def queued_def)
  have log_simps: "parse_tasks (log ls q) = parse_tasks q" "next_message_sequence (log ls q) = next_message_sequence q" "working (log ls q) = working q"
    "log_lines (log ls q) = log_lines q @ ls" "has_pools (log ls q) = has_pools q" for ls q by (simp_all add: log_def)
  show ?thesis
  proof (cases "policy (limits s) = DropNewest")
    case True
    with serve_queues [of s to_json "limits s" ms "[]"] assms(3) con have "consumer l' =
        log (map (oversized_log (max_frame_size (limits s))) (filter (\<lambda>m. \<not> small m) ms)) (queued (filter small ms) s)"
      by (simp add: assms(1,2))
    then show ?thesis using l(1) True assms(4) by (simp add: log_simps pools) (simp add: queued_def)
  next
    case False
    have "length (takeWhile small ms) \<le> length (filter small ms)"
      by (metis length_filter_le filter_append filter_True set_takeWhileD takeWhile_dropWhile_id le_add1 length_append)
    then have "takes_texts s (length (takeWhile small ms))" using assms(3) by (auto simp: takes_texts_def)
    with serve_stops [of s to_json "limits s" ms "[]"] False con have e: "consumer l' = (case dropWhile small ms of
        [] \<Rightarrow> queued (takeWhile small ms) s | m # _ \<Rightarrow> stop (log [oversized_log (max_frame_size (limits s)) m] (queued (takeWhile small ms) s)))"
      unfolding assms(1,2) by (simp add: Let_def)
    show ?thesis
    proof (cases "dropWhile small ms")
      case Nil
      then have all: "list_all small ms" by (simp add: dropWhile_eq_Nil_conv list_all_iff)
      then have all_small: "takeWhile small ms = ms" "filter small ms = ms" "filter (\<lambda>m. \<not> small m) ms = []"
        by (simp_all add: list_all_iff takeWhile_eq_all_conv filter_empty_conv)
      have "consumer l' = queued (takeWhile small ms) s" using e Nil by simp
      then show ?thesis unfolding all_small using l(1) all assms(4) by (simp add: pools) (simp add: queued_def)
    next
      case (Cons m rest)
      then have no: "\<not> list_all small ms" by (metis dropWhile_eq_Nil_conv list_all_iff neq_Nil_conv)
      have w: "working (log ls (queued xs s))" "has_pools (log ls (queued xs s))" for ls xs by (simp_all add: log_simps pools)
      show ?thesis using l(1) e Cons False no
        by (simp add: stop_def w) (simp add: log_simps queued_def)
    qed
  qed
qed

section \<open>The endpoint and its peer\<close>

text \<open>C3: Whatever the threads of an endpoint do, and however its output stream fails, the output of each of its sessions is a sequence of whole frames, after which there is at most the beginning of
  one more, and that only when the stream has become bad; a peer that reads the output receives exactly the messages of the whole frames, in order, and is told when the last one is cut.\<close>

theorem peer_reads_output:
  assumes "endpoint_reach to_json parse_json s" "j < length (output_sessions s)"
    and "std_ok t" "content t = written (output_sessions s ! j)" "2 * length (content t) + 1 < fuel"
  shows "\<exists>ms cut. written (output_sessions s ! j) = concat (map WriterMsg ms) @ cut \<and>
           (cut = [] \<or> output_bad (output_sessions s ! j) \<and> (\<exists>m. strict_prefix cut (WriterMsg m))) \<and>
           (\<forall>m. list_all (\<lambda>m. int (length m) \<le> INT_MAX) (m # ms) \<and> strict_prefix cut (WriterMsg m) \<longrightarrow>
            (\<exists>l'. listen fuel (collector 0) (base_istream w) (Some t) [] = Some (Some l') \<and> consumer l' = ms \<and>
                  issues l' = truncation_issue (length m) cut))"
proof -
  obtain ms cut where ms: "written (output_sessions s ! j) = concat (map WriterMsg ms) @ cut" "cut_frame cut" "cut \<noteq> [] \<longrightarrow> output_bad (output_sessions s ! j)"
    using endpoint_output_framed [OF assms(1,2)] by (auto simp: framed_def)
  have "\<exists>l'. listen fuel (collector 0) (base_istream w) (Some t) [] = Some (Some l') \<and> consumer l' = ms \<and> issues l' = truncation_issue (length m) cut"
    if m: "list_all (\<lambda>m. int (length m) \<le> INT_MAX) (m # ms)" "strict_prefix cut (WriterMsg m)" for m
  proof -
    obtain z where z: "cut @ z = WriterMsg m" "z \<noteq> []" using m(2) by (metis append_Nil2 prefixE strict_prefix_def)
    have f: "length (map Frame ms) + length (content t) + 1 < fuel" using assms(4,5) ms(1) length_frames [of ms] by simp
    have sv: "serve (collector 0) (map Frame ms) [] [] = (True, ms, [])" using serve_collector [of ms "[]" "[]"] by simp
    have "content t = concat (map wire (map Frame ms)) @ cut" by (simp add: assms(4) ms(1) wire_def o_def)
    from base.listen_truncated_generic [OF assms(3) _ _ _ this z f sv, of w] m(1)
    show ?thesis by (auto simp: list_all_iff valid_item_def oversized_def collector_def)
  qed
  then show ?thesis using ms unfolding cut_frame_def by blast
qed

section \<open>From one process to the other\<close>

text \<open>C4: A sequence of requests that is serialized, framed and written by one process arrives at the other: when the JSON library parses each of the
  texts it printed, the reading loop ends without complaint, and classifying the frames it handed over gives exactly the requests, in
  order, each with its identifier, its method and its parameters.\<close>

theorem requests_end_to_end:
  assumes "list_all (\<lambda>(r, i, p). requestable L opts r i p) qs"
    and "list_all (\<lambda>(r, i, p). parse_json (request_text L (r, i, p)) =
           Inr (the (document L (Reflect_write protocol_env (request_type r) (request_value r i p))))) qs"
    and "list_all (\<lambda>q. int (length (request_text L q)) \<le> INT_MAX) qs"
    and "std_ok t" "content t = concat (map (\<lambda>q. WriterMsg (request_text L q)) qs)" "2 * length (content t) + 1 < fuel"
  shows "\<exists>l'. listen fuel (collector 0) (base_istream w) (Some t) [] = Some (Some l') \<and> issues l' = [] \<and>
           map (parseAndClassify parse_json (ProtocolJsonHandler L opts) info) (consumer l') =
             map (\<lambda>(r, i, p). (parsed_request r i p, [])) qs"
proof -
  let ?ms = "map (request_text L) qs"
  have c: "content t = concat (map WriterMsg ?ms)" by (simp add: assms(5) comp_def)
  have "list_all (\<lambda>m. int (length m) \<le> INT_MAX \<and> (0 = (0::nat) \<or> length m \<le> 0)) ?ms"
    using assms(3) by (simp add: list_all_iff)
  moreover have "length ?ms + length (content t) + 1 < fuel" using length_frames [of ?ms] assms(6) unfolding c [symmetric] by simp
  ultimately obtain l' where l: "listen fuel (collector 0) (base_istream w) (Some t) [] = Some (Some l')" "consumer l' = ?ms" "issues l' = []"
    using listen_reads_frames [OF assms(4) c, of 0 fuel w] by auto
  have "parseAndClassify parse_json (ProtocolJsonHandler L opts) info (request_text L (r, i, p)) = (parsed_request r i p, [])"
    if "(r, i, p) \<in> set qs" for r i p
  proof -
    have q: "requestable L opts r i p" using assms(1) that by (auto simp: list_all_iff)
    have "parse_json (request_text L (r, i, p)) = Inr (json_of L protocol_env (request_type r) (request_value r i p))"
      using assms(2) that by (auto simp: list_all_iff request_arrives(1) [OF q])
    then show ?thesis by (rule request_arrives(2) [OF q])
  qed
  then have "map (parseAndClassify parse_json (ProtocolJsonHandler L opts) info) (consumer l') = map (\<lambda>(r, i, p). (parsed_request r i p, [])) qs"
    by (auto simp: l(2))
  with l show ?thesis by blast
qed

section \<open>A run\<close>

text \<open>The started endpoint reads two frames, and what it has sent is read by a peer, of an endpoint whose output breaks in the middle of the second message too.\<close>

theorem listen_queues_in_order_witness:
  "\<exists>l'. listen 200 (endpoint_producer sample_json (limits sample_started)) standard_istream
          (Some (sample_stream (concat (map WriterMsg [''{}'', ''[]''])))) sample_started = Some (Some l') \<and>
        parse_tasks (consumer l') = [(''{}'', 0), (''[]'', 1)] \<and> working (consumer l')"
proof -
  let ?ms = "[''{}'', ''[]'']"
  have s: "takes_texts sample_started 2" "working sample_started" "policy (limits sample_started) = DropNewest" "parse_tasks sample_started = []"
    "next_message_sequence sample_started = 0" "max_frame_size (limits sample_started) = 0"
    by (simp_all add: sample_defs takes_texts_def)
  have f: "\<not> oversized (endpoint_producer sample_json (limits sample_started)) 2"
    using s(6) by (simp add: oversized_def endpoint_producer_def)
  have "2 * length (content (sample_stream (concat (map WriterMsg ?ms)))) + 1 < 200" by code_simp
  from listen_queues_in_order [OF refl refl, of sample_started sample_json ?ms "sample_stream (concat (map WriterMsg ?ms))" 200] this s f
  show ?thesis by (auto simp: INT_MAX_def upt_rec numeral_2_eq_2)
qed

definition sample_broken :: endpoint where
  "sample_broken =
     snd (sendMsg sample_json None (makeErrorMessage (kInt 4) InternalError []) (snd (sendMsg sample_json None (makeErrorMessage (kInt 3) InternalError [])
       (start_threads (open_session False [write_answer.Takes, Breaks 5 None] (make_RemoteEndPoint default_limits (\<lambda>v. Null) no_handlers))))))"

lemma sample_broken_reach: "endpoint_reach sample_json sample_parser sample_broken"
proof -
  let ?s = "make_RemoteEndPoint default_limits (\<lambda>v. Null) no_handlers"
  have "endpoint_reach sample_json sample_parser (open_session False [write_answer.Takes, Breaks 5 None] ?s)"
    by (rule endpoint_reach.step [OF endpoint_reach.init endpoint_step.start_open]) (simp_all add: make_RemoteEndPoint_def)
  then have "endpoint_reach sample_json sample_parser (start_threads (open_session False [write_answer.Takes, Breaks 5 None] ?s))"
    by (rule endpoint_reach.step [OF _ endpoint_step.start_threads])
      (simp_all add: open_session_def startAsyncCompletionLoop_def Let_def make_RemoteEndPoint_def)
  then show ?thesis unfolding sample_broken_def by (intro endpoint_reach.step [OF _ endpoint_step.send])
qed

lemma sample_broken_state:
  "length (output_sessions sample_broken) = 2" "written (output_sessions sample_broken ! Suc 0) = WriterMsg ''{}'' @ ''Conte''"
  "output_bad (output_sessions sample_broken ! Suc 0)"
  by (simp_all add: sample_broken_def sendMsg_def getSessionOutputState_def sendSessionMessage_eq write_output_def writable_def sample_json_def
      start_threads_def open_session_def startAsyncCompletionLoop_def make_RemoteEndPoint_def fresh_session_def Let_def WriterMsg_def)

theorem peer_reads_output_witness:
  "\<exists>ms cut. WriterMsg ''{}'' @ ''Conte'' = concat (map WriterMsg ms) @ cut \<and>
     (cut = [] \<or> output_bad (output_sessions sample_broken ! Suc 0) \<and> (\<exists>m. strict_prefix cut (WriterMsg m))) \<and>
     (\<forall>m. list_all (\<lambda>m. int (length m) \<le> INT_MAX) (m # ms) \<and> strict_prefix cut (WriterMsg m) \<longrightarrow>
      (\<exists>l'. listen 200 (collector 0) (base_istream (\<lambda>s. [])) (Some (sample_stream (WriterMsg ''{}'' @ ''Conte''))) [] = Some (Some l') \<and>
            consumer l' = ms \<and> issues l' = truncation_issue (length m) cut))"
proof -
  have f: "2 * length (content (sample_stream (WriterMsg ''{}'' @ ''Conte''))) + 1 < 200" by code_simp
  have c: "content (sample_stream (WriterMsg ''{}'' @ ''Conte'')) = written (output_sessions sample_broken ! Suc 0)"
    by (simp add: sample_stream_def sample_broken_state)
  from peer_reads_output [OF sample_broken_reach _ sample_stream_ok(1) c f, of "\<lambda>s. []"] sample_broken_state(1)
  show ?thesis unfolding sample_broken_state(2) by simp
qed

theorem requests_end_to_end_witness:
  "\<exists>l'. listen 200 (collector 0) (base_istream (\<lambda>s. [])) (Some (sample_stream (WriterMsg ''{}''))) [] = Some (Some l') \<and> issues l' = [] \<and>
     map (parseAndClassify (\<lambda>s. Inr (the (document sample_lib (Reflect_write protocol_env (request_type td_hover) (request_value td_hover (kInt 7) sample_hover)))))
            (ProtocolJsonHandler sample_lib default_options) (\<lambda>i. None)) (consumer l') = [(parsed_request td_hover (kInt 7) sample_hover, [])]"
proof -
  have x: "request_text sample_lib (td_hover, kInt 7, sample_hover) = ''{}''" by (simp add: request_text_def sample_lib_def)
  have t: "std_ok (sample_stream (WriterMsg ''{}''))" "2 * length (content (sample_stream (WriterMsg ''{}''))) + 1 < 200" by code_simp+
  have c: "content (sample_stream (WriterMsg ''{}'')) = concat (map (\<lambda>q. WriterMsg (request_text sample_lib q)) [(td_hover, kInt 7, sample_hover)])"
    by (simp add: sample_stream_def x)
  from requests_end_to_end [OF _ _ _ t(1) c t(2), of default_options "\<lambda>s. Inr (the (document sample_lib
      (Reflect_write protocol_env (request_type td_hover) (request_value td_hover (kInt 7) sample_hover))))" "\<lambda>s. []" "\<lambda>i. None"] sample_requestable
  show ?thesis by (simp add: x INT_MAX_def)
qed

end
